(* ===== verification/Prelude.thy ===== *)
theory Prelude
  imports Main "HOL-Library.Word"
begin

text \<open>
  Shared notions of the development: the machine types, what can go wrong in a run of the
  C++ code, the result type that every fallible operation returns, and the small calculus
  (\<open>post\<close>, \<open>returns\<close>, \<open>refines\<close>) in which the component proofs are written.

  \<^item> \<open>Panicked\<close> is a call of \<open>Panic\<close> or \<open>NOT_REACHABLE\<close> (\<open>src/lib/message.h\<close>,
    \<open>src/lib/assert.h\<close>): the process prints a message and aborts.
  \<^item> \<open>AssertFailed\<close> is a failed \<open>ASSERT\<close>. \<open>src/lib/message.h\<close> compiles the macro to
    nothing when \<open>NASSERT\<close> is defined, which \<open>src/Makefile\<close> does by default
    (``bench mode''); every operation with an assertion therefore takes a flag \<open>nassert\<close>,
    and with the flag set it goes on past the failed test as the code does.
  \<^item> \<open>Undefined\<close> is undefined behaviour of C++ (a null or end-iterator dereference,
    \<open>front()\<close> of an empty container, \<dots>); the model stops there.
  \<^item> \<open>LengthError\<close> is \<open>std::length_error\<close>, thrown by a vector that would outgrow
    \<open>max_size()\<close>.
  \<^item> \<open>BadFunctionCall\<close> is \<open>std::bad_function_call\<close>, thrown when an empty \<open>std::function\<close> is called.
  \<^item> \<open>InvalidArgument\<close> and \<open>OutOfRange\<close> are \<open>std::invalid_argument\<close> and \<open>std::out_of_range\<close>,
    thrown by \<open>std::stol\<close> on a text that is not a number or too large a one; the second also by \<open>at\<close>.
  \<^item> \<open>BadCast\<close> is \<open>std::bad_cast\<close>, thrown by a \<open>dynamic_cast\<close> to a reference of the wrong class.
  \<^item> \<open>Thrown\<close> is an exception the code itself throws.
\<close>

section \<open>Machine types\<close>

type_synonym u32 = "32 word"
type_synonym u64 = "64 word"
type_synonym bytes = string

text \<open>A \<open>uint32\<close> or \<open>uint64\<close> converted to a C++ \<open>int\<close> (32 bits, two's complement).\<close>

definition int_of_u32 :: "u32 \<Rightarrow> int" where
  "int_of_u32 w = sint w"

definition int_of_u64 :: "u64 \<Rightarrow> int" where
  "int_of_u64 w = sint (ucast w :: u32)"

text \<open>\<open>std::vector<std::unique_ptr<T>>::max_size()\<close>: \<open>PTRDIFF_MAX / sizeof(void *)\<close>.\<close>

definition vector_max_size :: nat where
  "vector_max_size = 2 ^ 60 - 1"

definition vector_full :: "'a list \<Rightarrow> bool" where
  "vector_full xs = (int (length xs) \<ge> 2 ^ 60 - 1)"

lemma vector_full_iff: "vector_full xs \<longleftrightarrow> vector_max_size \<le> length xs"
  by (auto simp: vector_full_def vector_max_size_def)

section \<open>Results\<close>

datatype failure = Panicked | AssertFailed | Undefined | LengthError | BadFunctionCall
  | InvalidArgument | OutOfRange | BadCast | Thrown

type_synonym 'a result = "failure + 'a"

definition bind_r :: "'a result \<Rightarrow> ('a \<Rightarrow> 'b result) \<Rightarrow> 'b result" where
  "bind_r m f = (case m of Inl e \<Rightarrow> Inl e | Inr x \<Rightarrow> f x)"

text \<open>\<open>ASSERT(p); k\<close> in a build with or without \<open>NASSERT\<close>.\<close>

definition assert_r :: "bool \<Rightarrow> bool \<Rightarrow> 'a result \<Rightarrow> 'a result" where
  "assert_r nassert p k = (if nassert \<or> p then k else Inl AssertFailed)"

text \<open>Following a pointer that may be null.\<close>

definition deref_r :: "'a option \<Rightarrow> ('a \<Rightarrow> 'b result) \<Rightarrow> 'b result" where
  "deref_r p f = (case p of None \<Rightarrow> Inl Undefined | Some x \<Rightarrow> f x)"

text \<open>\<open>m.at(k)\<close>, which throws when there is no such key.\<close>

definition at_r :: "'a option \<Rightarrow> ('a \<Rightarrow> 'b result) \<Rightarrow> 'b result" where
  "at_r p f = (case p of None \<Rightarrow> Inl OutOfRange | Some x \<Rightarrow> f x)"

text \<open>A loop over a container that threads the state and stops at the first failure.\<close>

fun fold_r :: "('a \<Rightarrow> 's \<Rightarrow> 's result) \<Rightarrow> 'a list \<Rightarrow> 's \<Rightarrow> 's result" where
  "fold_r f [] s = Inr s"
| "fold_r f (x # xs) s = bind_r (f x s) (fold_r f xs)"

text \<open>Whether a run fails, and in which way; the result of one that does not.\<close>

definition fails :: "'a result \<Rightarrow> failure \<Rightarrow> bool" where
  "fails r e = (case r of Inl e' \<Rightarrow> e' = e | Inr _ \<Rightarrow> False)"

lemma fails_iff: "fails r e \<longleftrightarrow> r = Inl e"
  by (cases r) (auto simp: fails_def)

lemma not_isl_result: "\<not> isl r \<Longrightarrow> r = Inr (projr r)"
  by (cases r) auto

lemma bind_r_simps [simp]:
  "bind_r (Inl e) f = Inl e"
  "bind_r (Inr x) f = f x"
  by (simp_all add: bind_r_def)

lemma bind_r_Inr: "bind_r m f = Inr y \<longleftrightarrow> (\<exists>x. m = Inr x \<and> f x = Inr y)"
  by (cases m) auto

lemma bind_r_cong [fundef_cong]:
  "m = m' \<Longrightarrow> (\<And>x. m' = Inr x \<Longrightarrow> f x = f' x) \<Longrightarrow> bind_r m f = bind_r m' f'"
  by (cases m') auto

lemma bind_r_assoc: "bind_r (bind_r m f) g = bind_r m (\<lambda>x. bind_r (f x) g)"
  by (cases m) auto

lemma assert_r_simps [simp]:
  "assert_r nassert True k = k"
  "assert_r True p k = k"
  by (simp_all add: assert_r_def)

lemma deref_r_simps [simp]:
  "deref_r None f = Inl Undefined"
  "deref_r (Some x) f = f x"
  by (simp_all add: deref_r_def)

lemma at_r_simps [simp]:
  "at_r None f = Inl OutOfRange"
  "at_r (Some x) f = f x"
  by (simp_all add: at_r_def)

lemma fold_r_append: "fold_r f (xs @ ys) s = bind_r (fold_r f xs s) (fold_r f ys)"
  by (induction xs arbitrary: s) (simp_all add: bind_r_assoc cong: bind_r_cong)

section \<open>Reasoning about results\<close>

text \<open>
  \<open>post r Q\<close>: if the run returns, it returns a value in \<open>Q\<close> (partial correctness).
  \<open>returns r Q\<close>: the run returns, and returns a value in \<open>Q\<close> (total correctness).
  \<open>refines r r'\<close>: whenever \<open>r\<close> returns, \<open>r'\<close> returns the same value.
\<close>

definition post :: "'a result \<Rightarrow> ('a \<Rightarrow> bool) \<Rightarrow> bool" where
  "post r Q = (case r of Inl e \<Rightarrow> True | Inr x \<Rightarrow> Q x)"

definition returns :: "'a result \<Rightarrow> ('a \<Rightarrow> bool) \<Rightarrow> bool" where
  "returns r Q = (case r of Inl e \<Rightarrow> False | Inr x \<Rightarrow> Q x)"

definition refines :: "'a result \<Rightarrow> 'a result \<Rightarrow> bool" where
  "refines r r' = (\<forall>x. r = Inr x \<longrightarrow> r' = Inr x)"

text \<open>\<open>safe r Q\<close>: no assertion fails in the run, and if it returns, it returns a value in \<open>Q\<close>.\<close>

definition safe :: "'a result \<Rightarrow> ('a \<Rightarrow> bool) \<Rightarrow> bool" where
  "safe r Q = (case r of Inl e \<Rightarrow> e \<noteq> AssertFailed | Inr x \<Rightarrow> Q x)"

named_theorems wp \<open>weakest-precondition equations of results and operations\<close>
named_theorems refines_intro \<open>congruence rules for refinement of results\<close>

lemma post_simps [wp, simp]:
  "post (Inl e) Q = True"
  "post (Inr x) Q = Q x"
  by (simp_all add: post_def)

lemma post_bind [wp]: "post (bind_r m f) Q = post m (\<lambda>x. post (f x) Q)"
  by (cases m) auto

lemma post_assert [wp]: "post (assert_r nassert p k) Q = (nassert \<or> p \<longrightarrow> post k Q)"
  by (auto simp: assert_r_def)

lemma post_deref [wp]: "post (deref_r p f) Q = (\<forall>x. p = Some x \<longrightarrow> post (f x) Q)"
  by (cases p) auto

lemma post_at [wp]: "post (at_r p f) Q = (\<forall>x. p = Some x \<longrightarrow> post (f x) Q)"
  by (cases p) auto

lemma post_if [wp]:
  "post (if b then r else r') Q = ((b \<longrightarrow> post r Q) \<and> (\<not> b \<longrightarrow> post r' Q))"
  by auto

lemma post_option [wp]:
  "post (case x of None \<Rightarrow> r | Some y \<Rightarrow> f y) Q =
     ((x = None \<longrightarrow> post r Q) \<and> (\<forall>y. x = Some y \<longrightarrow> post (f y) Q))"
  by (cases x) auto

lemma post_list [wp]:
  "post (case xs of [] \<Rightarrow> r | y # ys \<Rightarrow> f y ys) Q =
     ((xs = [] \<longrightarrow> post r Q) \<and> (\<forall>y ys. xs = y # ys \<longrightarrow> post (f y ys) Q))"
  by (cases xs) auto

lemma post_prod [wp]: "post (case p of (a, b) \<Rightarrow> f a b) Q = post (f (fst p) (snd p)) Q"
  by (cases p) auto

lemma post_Let [wp]: "post (let x = e in f x) Q = post (f e) Q"
  by (simp add: Let_def)

lemma post_mono: "post r P \<Longrightarrow> (\<And>x. P x \<Longrightarrow> Q x) \<Longrightarrow> post r Q"
  by (cases r) auto

lemma post_strengthen: "post r P \<Longrightarrow> (\<And>x. r = Inr x \<Longrightarrow> P x \<Longrightarrow> Q x) \<Longrightarrow> post r Q"
  by (cases r) auto

lemma post_True [simp]: "post r (\<lambda>x. True)"
  by (cases r) auto

lemma postI: "(\<And>x. r = Inr x \<Longrightarrow> Q x) \<Longrightarrow> post r Q"
  by (cases r) auto

lemma post_bindI:
  "post m P \<Longrightarrow> (\<And>x. P x \<Longrightarrow> post (f x) Q) \<Longrightarrow> post (bind_r m f) Q"
  unfolding post_bind by (rule post_mono)

lemma postD: "post r Q \<Longrightarrow> r = Inr x \<Longrightarrow> Q x"
  by simp

lemma post_conj: "post r (\<lambda>x. P x \<and> Q x) = (post r P \<and> post r Q)"
  by (cases r) auto

lemma returns_simps [wp, simp]:
  "returns (Inl e) Q = False"
  "returns (Inr x) Q = Q x"
  by (simp_all add: returns_def)

lemma returns_bind [wp]: "returns (bind_r m f) Q = returns m (\<lambda>x. returns (f x) Q)"
  by (cases m) auto

lemma returns_assert [wp]:
  "returns (assert_r nassert p k) Q = ((nassert \<or> p) \<and> returns k Q)"
  by (auto simp: assert_r_def)

lemma returns_mono: "returns r P \<Longrightarrow> (\<And>x. P x \<Longrightarrow> Q x) \<Longrightarrow> returns r Q"
  by (cases r) auto

lemma returnsE: "returns r Q \<Longrightarrow> (\<And>x. r = Inr x \<Longrightarrow> Q x \<Longrightarrow> thesis) \<Longrightarrow> thesis"
  by (cases r) auto

lemma returns_post: "returns r P \<Longrightarrow> post r Q \<Longrightarrow> returns r (\<lambda>x. P x \<and> Q x)"
  by (cases r) auto

lemma safe_simps [wp, simp]:
  "safe (Inl e) Q = (e \<noteq> AssertFailed)"
  "safe (Inr x) Q = Q x"
  by (simp_all add: safe_def)

lemma safe_bind [wp]: "safe (bind_r m f) Q = safe m (\<lambda>x. safe (f x) Q)"
  by (cases m) auto

lemma safe_assert [wp]: "safe (assert_r nassert p k) Q = ((nassert \<or> p) \<and> safe k Q)"
  by (auto simp: assert_r_def)

lemma safe_at [wp]: "safe (at_r p f) Q = (\<forall>x. p = Some x \<longrightarrow> safe (f x) Q)"
  by (cases p) auto

lemma safe_deref [wp]: "safe (deref_r p f) Q = (\<forall>x. p = Some x \<longrightarrow> safe (f x) Q)"
  by (cases p) auto

lemma safe_mono: "safe r P \<Longrightarrow> (\<And>x. P x \<Longrightarrow> Q x) \<Longrightarrow> safe r Q"
  by (cases r) auto

lemma safe_strengthen: "safe r P \<Longrightarrow> (\<And>x. r = Inr x \<Longrightarrow> P x \<Longrightarrow> Q x) \<Longrightarrow> safe r Q"
  by (cases r) auto

lemma safe_bindI:
  "safe m P \<Longrightarrow> (\<And>x. P x \<Longrightarrow> safe (f x) Q) \<Longrightarrow> safe (bind_r m f) Q"
  unfolding safe_bind by (rule safe_mono)

lemma safe_fold:
  assumes "I s" and "\<And>x s. x \<in> set xs \<Longrightarrow> I s \<Longrightarrow> safe (f x s) I"
  shows "safe (fold_r f xs s) I"
  using assms
proof (induction xs arbitrary: s)
  case (Cons x xs)
  have "safe (f x s) I" using Cons.prems by auto
  then show ?case
    unfolding fold_r.simps by (rule safe_bindI) (use Cons in auto)
qed simp

lemma post_fold:
  assumes "I s" and "\<And>x s. x \<in> set xs \<Longrightarrow> I s \<Longrightarrow> post (f x s) I"
  shows "post (fold_r f xs s) I"
  using assms
proof (induction xs arbitrary: s)
  case Nil
  then show ?case by simp
next
  case (Cons x xs)
  have "post (f x s) I" using Cons.prems by auto
  then show ?case
    unfolding fold_r.simps post_bind
    by (rule post_mono) (use Cons in auto)
qed

lemma refines_refl [refines_intro, simp]: "refines r r"
  by (simp add: refines_def)

lemma refines_bind [refines_intro]:
  "refines m m' \<Longrightarrow> (\<And>x. m = Inr x \<Longrightarrow> refines (f x) (f' x)) \<Longrightarrow>
   refines (bind_r m f) (bind_r m' f')"
  by (auto simp: refines_def bind_r_Inr)

lemma refines_assert [refines_intro]:
  "refines k k' \<Longrightarrow> refines (assert_r nassert p k) (assert_r True p k')"
  by (auto simp: refines_def assert_r_def split: if_splits)

lemma refines_if [refines_intro]:
  "refines r q \<Longrightarrow> refines r' q' \<Longrightarrow> refines (if b then r else r') (if b then q else q')"
  by auto

lemma refines_deref [refines_intro]:
  "(\<And>x. refines (f x) (f' x)) \<Longrightarrow> refines (deref_r p f) (deref_r p f')"
  by (cases p) auto

lemma refines_fold [refines_intro]:
  "(\<And>x s. refines (f x s) (f' x s)) \<Longrightarrow> refines (fold_r f xs s) (fold_r f' xs s)"
  by (induction xs arbitrary: s) (auto intro: refines_bind)

section \<open>Words\<close>

lemma unat_succ_bound: "unat (x :: 'a::len word) + 1 < 2 ^ LENGTH('a) \<Longrightarrow> unat (x + 1) = Suc (unat x)"
  by (simp add: unat_word_ariths)

lemma word_less_succ:
  assumes "(x :: 'a::len word) + 1 \<noteq> 0"
  shows "x < x + 1"
proof -
  have "x \<noteq> - 1" using assms by auto
  then have "x < - 1" by (simp add: word_order.not_eq_extremum)
  then have "unat x < unat (- 1 :: 'a word)" by (simp add: word_less_nat_alt)
  moreover have "unat (- 1 :: 'a word) < 2 ^ LENGTH('a)" by (rule unsigned_less)
  ultimately have "unat x + 1 < 2 ^ LENGTH('a)" by linarith
  then show ?thesis by (simp add: word_less_nat_alt unat_succ_bound)
qed

lemma unat_less_succ:
  assumes "(x :: 'a::len word) < y"
  shows "unat (x + 1) = Suc (unat x)"
proof (rule unat_succ_bound)
  have "unat x < unat y" using assms by (simp add: word_less_nat_alt)
  moreover have "unat y < 2 ^ LENGTH('a)" by (rule unsigned_less)
  ultimately show "unat x + 1 < 2 ^ LENGTH('a)" by linarith
qed

lemma unat_add_of_nat:
  "unat (x :: 'a::len word) + n < 2 ^ LENGTH('a) \<Longrightarrow> unat (x + of_nat n) = unat x + n"
  by (simp add: unat_word_ariths unat_of_nat take_bit_nat_eq_self)

lemma unat_diff: "(y :: 'a::len word) \<le> x \<Longrightarrow> unat (x - y) = unat x - unat y"
  by (simp add: unat_sub word_le_nat_alt)

lemma word_add_eq_iff_unat:
  "unat (x :: 'a::len word) + n < 2 ^ LENGTH('a) \<Longrightarrow> y = x + of_nat n \<longleftrightarrow> unat y = unat x + n"
  by (metis unat_add_of_nat word_unat_eq_iff)

end
