(* ===== verification/StdMap.thy ===== *)
theory StdMap
  imports Prelude
begin

text \<open>
  \<open>std::map\<close> and \<open>std::set\<close>, as far as the program uses them. A map is an association list kept
  in the order of its keys, so that iterating over it visits the entries in the order the C++
  iterator does; a set is the ascending list of its elements. The locale \<open>finite_map\<close> is the
  interface the components use; its interpretation on the ordered lists discharges the laws.
\<close>

type_synonym ('k, 'v) smap = "('k \<times> 'v) list"

fun smap_put :: "'k::linorder \<Rightarrow> 'v \<Rightarrow> ('k, 'v) smap \<Rightarrow> ('k, 'v) smap" where
  "smap_put k v [] = [(k, v)]"
| "smap_put k v ((k', v') # m) =
     (if k < k' then (k, v) # (k', v') # m
      else if k = k' then (k, v) # m
      else (k', v') # smap_put k v m)"

fun smap_erase :: "'k \<Rightarrow> ('k, 'v) smap \<Rightarrow> ('k, 'v) smap" where
  "smap_erase k [] = []"
| "smap_erase k ((k', v') # m) = (if k = k' then m else (k', v') # smap_erase k m)"

definition smap_ok :: "('k::linorder, 'v) smap \<Rightarrow> bool" where
  "smap_ok m = sorted_wrt (<) (map fst m)"

text \<open>
  What a client relies on: the laws of lookup, and the size as the number of keys.
\<close>

locale finite_map =
  fixes emp :: "'m"
    and put :: "'k \<Rightarrow> 'v \<Rightarrow> 'm \<Rightarrow> 'm"
    and del :: "'k \<Rightarrow> 'm \<Rightarrow> 'm"
    and get :: "'m \<Rightarrow> 'k \<Rightarrow> 'v option"
    and count :: "'m \<Rightarrow> nat"
    and ok :: "'m \<Rightarrow> bool"
  assumes ok_emp: "ok emp"
    and ok_put: "ok m \<Longrightarrow> ok (put k v m)"
    and ok_del: "ok m \<Longrightarrow> ok (del k m)"
    and get_emp: "get emp k = None"
    and get_put: "get (put k v m) = (get m)(k \<mapsto> v)"
    and get_del: "ok m \<Longrightarrow> get (del k m) = (get m)(k := None)"
    and finite_get: "finite (dom (get m))"
    and count_card: "ok m \<Longrightarrow> count m = card (dom (get m))"
begin

fun put_all :: "('k \<times> 'v) list \<Rightarrow> 'm \<Rightarrow> 'm" where
  "put_all [] m = m"
| "put_all (kv # kvs) m = put_all kvs (put (fst kv) (snd kv) m)"

lemma ok_put_all: "ok m \<Longrightarrow> ok (put_all kvs m)"
  by (induction kvs arbitrary: m) (auto simp: ok_put)

lemma get_put_all: "get (put_all kvs m) k =
    (case map_of (rev kvs) k of None \<Rightarrow> get m k | Some v \<Rightarrow> Some v)"
  by (induction kvs arbitrary: m) (auto simp: get_put map_add_Some_iff map_add_def split: option.splits)

lemma count_put:
  "ok m \<Longrightarrow> count (put k v m) = (if get m k = None then Suc (count m) else count m)"
  by (auto simp: count_card ok_put get_put finite_get card_insert_if domIff)

lemma count_mono: "ok m \<Longrightarrow> count m \<le> count (put k v m)"
  by (simp add: count_put)

lemma count_le_universe:
  assumes "ok m" and "dom (get m) \<subseteq> U" and "finite U"
  shows "count m \<le> card U"
  using assms by (simp add: count_card card_mono)

lemma common_key:
  assumes "ok m" and "ok m'" and "dom (get m) \<subseteq> U" and "dom (get m') \<subseteq> U" and "finite U"
    and "card U < count m + count m'"
  shows "\<exists>k. k \<in> dom (get m) \<and> k \<in> dom (get m')"
proof (rule ccontr)
  assume "\<not> ?thesis"
  then have "dom (get m) \<inter> dom (get m') = {}" by auto
  then have "card (dom (get m) \<union> dom (get m')) = count m + count m'"
    using assms by (simp add: count_card card_Un_disjoint finite_get)
  moreover have "card (dom (get m) \<union> dom (get m')) \<le> card U"
    using assms by (intro card_mono) auto
  ultimately show False using assms by linarith
qed

end

lemma set_smap_put: "set (smap_put k v m) \<subseteq> insert (k, v) (set m)"
  by (induction k v m rule: smap_put.induct) auto

lemma keys_smap_put: "fst ` set (smap_put k v m) = insert k (fst ` set m)"
  by (induction k v m rule: smap_put.induct) auto

lemma keys_smap_erase: "fst ` set (smap_erase k m) \<subseteq> fst ` set m"
  by (induction k m rule: smap_erase.induct) auto

lemma smap_ok_put: "smap_ok m \<Longrightarrow> smap_ok (smap_put k v m)"
proof (induction k v m rule: smap_put.induct)
  case (2 k v k' v' m)
  have "x \<in> fst ` set (smap_put k v m) \<Longrightarrow> x = k \<or> x \<in> fst ` set m" for x
    using keys_smap_put [of k v m] by blast
  with 2 show ?case by (fastforce simp: smap_ok_def)
qed (simp add: smap_ok_def)

lemma smap_ok_erase: "smap_ok m \<Longrightarrow> smap_ok (smap_erase k m)"
proof (induction k m rule: smap_erase.induct)
  case (2 k k' v' m)
  have "x \<in> fst ` set (smap_erase k m) \<Longrightarrow> x \<in> fst ` set m" for x
    using keys_smap_erase [of k m] by blast
  with 2 show ?case by (fastforce simp: smap_ok_def)
qed simp

lemma map_of_smap_put: "map_of (smap_put k v m) = (map_of m)(k \<mapsto> v)"
  by (induction k v m rule: smap_put.induct) (auto simp: fun_eq_iff)

lemma map_of_smap_erase: "smap_ok m \<Longrightarrow> map_of (smap_erase k m) = (map_of m)(k := None)"
proof (induction k m rule: smap_erase.induct)
  case (2 k k' v' m)
  have "map_of m k' = None"
    using "2.prems" by (force simp: smap_ok_def map_of_eq_None_iff)
  with 2 show ?case by (auto simp: fun_eq_iff smap_ok_def)
qed auto

lemma smap_ok_Nil: "smap_ok []"
  by (simp add: smap_ok_def)

lemma length_smap: "smap_ok m \<Longrightarrow> length m = card (dom (map_of m))"
proof -
  assume "smap_ok m"
  then have "distinct (map fst m)"
    by (simp add: smap_ok_def strict_sorted_iff)
  then show ?thesis
    by (metis distinct_card dom_map_of_conv_image_fst length_map list.set_map)
qed

interpretation sm: finite_map "[]" smap_put smap_erase map_of length smap_ok
  by unfold_locales
    (auto simp: smap_ok_Nil smap_ok_put smap_ok_erase map_of_smap_put map_of_smap_erase length_smap
      finite_dom_map_of)

text \<open>Ordered association lists are equal when they are equal as maps.\<close>

lemma smap_set: "smap_ok m \<Longrightarrow> (k, v) \<in> set m \<longleftrightarrow> map_of m k = Some v"
  by (simp add: smap_ok_def strict_sorted_iff)

lemma smap_eqI:
  assumes ok: "smap_ok m" "smap_ok m'" and eq: "map_of m = map_of m'"
  shows "m = m'"
proof (rule map_sorted_distinct_set_unique [of fst])
  have "x \<in> set m \<longleftrightarrow> x \<in> set m'" for x
    using smap_set [OF ok(1), of "fst x" "snd x"] smap_set [OF ok(2), of "fst x" "snd x"] eq by simp
  then show set: "set m = set m'" by blast
  show "inj_on fst (set m \<union> set m')"
    using ok(1) unfolding set by (auto simp: smap_ok_def strict_sorted_iff inj_on_def set [symmetric]
        dest: eq_key_imp_eq_value)
qed (use ok in \<open>auto simp: smap_ok_def strict_sorted_iff\<close>)

lemma smap_put_same: "smap_ok m \<Longrightarrow> map_of m k = Some v \<Longrightarrow> smap_put k v m = m"
  by (rule smap_eqI) (auto simp: sm.get_put sm.ok_put)

lemma smap_erase_put: "smap_ok m \<Longrightarrow> map_of m k = None \<Longrightarrow> smap_erase k (smap_put k v m) = m"
  by (rule smap_eqI) (auto simp: sm.get_put sm.ok_put sm.get_del sm.ok_del)

lemma smap_put_erase: "smap_ok m \<Longrightarrow> map_of m k = Some v \<Longrightarrow> smap_put k v (smap_erase k m) = m"
  by (rule smap_eqI) (auto simp: sm.get_put sm.ok_put sm.get_del sm.ok_del)

lemma smap_ball:
  "smap_ok m \<Longrightarrow> (\<forall>x \<in> set m. P x) \<longleftrightarrow> (\<forall>k v. map_of m k = Some v \<longrightarrow> P (k, v))"
  by (auto simp: smap_set [symmetric])

section \<open>\<open>std::set\<close>\<close>

text \<open>An ordered set is the ascending list of its elements, the order in which it is iterated.\<close>

fun sset_insert :: "'a::linorder \<Rightarrow> 'a list \<Rightarrow> 'a list" where
  "sset_insert x [] = [x]"
| "sset_insert x (y # ys) =
     (if x < y then x # y # ys else if x = y then y # ys else y # sset_insert x ys)"

definition sset_erase :: "'a \<Rightarrow> 'a list \<Rightarrow> 'a list" where
  "sset_erase x xs = filter (\<lambda>y. y \<noteq> x) xs"

lemma set_sset_insert [simp]: "set (sset_insert x xs) = insert x (set xs)"
  by (induction x xs rule: sset_insert.induct) auto

lemma set_sset_erase [simp]: "set (sset_erase x xs) = set xs - {x}"
  by (auto simp: sset_erase_def)

lemma sorted_sset_insert: "sorted_wrt (<) xs \<Longrightarrow> sorted_wrt (<) (sset_insert x xs)"
  by (induction x xs rule: sset_insert.induct) auto

lemma sorted_sset_erase: "sorted_wrt (<) xs \<Longrightarrow> sorted_wrt (<) (sset_erase x xs)"
  by (simp add: sset_erase_def sorted_wrt_filter)

end
