(* ===== verification/Viewstamp.thy ===== *)
theory Viewstamp
  imports Prelude
begin

text \<open>
  \<open>src/lib/viewstamp.h\<close>: the numbers that order operations, their lexicographic comparison
  and the relational operators built on it. The operators make viewstamps a linear order,
  so they are an instance of the library's class.
\<close>

type_synonym view_t = u64
type_synonym opnum_t = u64
type_synonym sessnum_t = u64
type_synonym msgnum_t = u64
type_synonym shardnum_t = u32

datatype viewstamp_t = Viewstamp
  (vs_view: view_t) (vs_opnum: opnum_t) (vs_sessnum: sessnum_t) (vs_msgnum: msgnum_t)
  (vs_shardnum: shardnum_t)

text \<open>The constructors: all fields zero, and the last three zero by default.\<close>

definition viewstamp_zero :: viewstamp_t where
  "viewstamp_zero = Viewstamp 0 0 0 0 0"

definition viewstamp2 :: "view_t \<Rightarrow> opnum_t \<Rightarrow> viewstamp_t" where
  "viewstamp2 v op = Viewstamp v op 0 0 0"

definition Viewstamp_Compare :: "viewstamp_t \<Rightarrow> viewstamp_t \<Rightarrow> int" where
  "Viewstamp_Compare a b =
     (if vs_view a < vs_view b then -1
      else if vs_view a > vs_view b then 1
      else if vs_opnum a < vs_opnum b then -1
      else if vs_opnum a > vs_opnum b then 1
      else if vs_sessnum a < vs_sessnum b then -1
      else if vs_sessnum a > vs_sessnum b then 1
      else if vs_msgnum a < vs_msgnum b then -1
      else if vs_msgnum a > vs_msgnum b then 1
      else if vs_shardnum a < vs_shardnum b then -1
      else if vs_shardnum a > vs_shardnum b then 1
      else 0)"

definition viewstamp_eq :: "viewstamp_t \<Rightarrow> viewstamp_t \<Rightarrow> bool" where
  "viewstamp_eq l r = (Viewstamp_Compare l r = 0)"

definition viewstamp_less :: "viewstamp_t \<Rightarrow> viewstamp_t \<Rightarrow> bool" where
  "viewstamp_less l r = (Viewstamp_Compare l r < 0)"

definition viewstamp_le :: "viewstamp_t \<Rightarrow> viewstamp_t \<Rightarrow> bool" where
  "viewstamp_le l r = (\<not> viewstamp_less r l)"

lemma viewstamp2_sel [simp]:
  "vs_view (viewstamp2 v n) = v" "vs_opnum (viewstamp2 v n) = n"
  by (simp_all add: viewstamp2_def)

lemma viewstamp2_inject [simp]: "viewstamp2 v n = viewstamp2 v' n' \<longleftrightarrow> v = v' \<and> n = n'"
  by (simp add: viewstamp2_def)

lemma Viewstamp_Compare_zero: "Viewstamp_Compare a b = 0 \<longleftrightarrow> a = b"
  by (cases a; cases b) (auto simp: Viewstamp_Compare_def)

lemma Viewstamp_Compare_swap: "Viewstamp_Compare b a = - Viewstamp_Compare a b"
proof -
  have "x < y \<Longrightarrow> \<not> y < x" for x y :: u64 by simp
  moreover have "x < y \<Longrightarrow> \<not> y < x" for x y :: u32 by simp
  ultimately show ?thesis
    unfolding Viewstamp_Compare_def by (simp split: if_split)
qed

text \<open>The five fields as one lexicographic key.\<close>

definition vs_key :: "viewstamp_t \<Rightarrow> nat list" where
  "vs_key a = [unat (vs_view a), unat (vs_opnum a), unat (vs_sessnum a), unat (vs_msgnum a),
     unat (vs_shardnum a)]"

fun lex_less :: "nat list \<Rightarrow> nat list \<Rightarrow> bool" where
  "lex_less (x # xs) (y # ys) = (x < y \<or> (x = y \<and> lex_less xs ys))"
| "lex_less _ _ = False"

lemma viewstamp_less_key: "viewstamp_less a b \<longleftrightarrow> lex_less (vs_key a) (vs_key b)"
  unfolding viewstamp_less_def Viewstamp_Compare_def vs_key_def
  by (auto simp: word_less_nat_alt)

lemma lex_less_trans: "lex_less a b \<Longrightarrow> lex_less b c \<Longrightarrow> lex_less a c"
proof (induction a b arbitrary: c rule: lex_less.induct)
  case (1 x xs y ys)
  then show ?case by (cases c) auto
qed auto

instantiation viewstamp_t :: linorder
begin

definition less_viewstamp_t :: "viewstamp_t \<Rightarrow> viewstamp_t \<Rightarrow> bool" where
  "less_viewstamp_t = viewstamp_less"

definition less_eq_viewstamp_t :: "viewstamp_t \<Rightarrow> viewstamp_t \<Rightarrow> bool" where
  "less_eq_viewstamp_t = viewstamp_le"

instance
proof
  fix a b c :: viewstamp_t
  have swap: "Viewstamp_Compare y x < 0 \<longleftrightarrow> 0 < Viewstamp_Compare x y" for x y
    by (simp add: Viewstamp_Compare_swap [of y x])
  show "(a < b) = (a \<le> b \<and> \<not> b \<le> a)"
    using swap [of a b]
    by (auto simp: less_viewstamp_t_def less_eq_viewstamp_t_def viewstamp_le_def viewstamp_less_def)
  show "a \<le> a"
    using Viewstamp_Compare_zero [of a a]
    by (simp add: less_eq_viewstamp_t_def viewstamp_le_def viewstamp_less_def)
  show "a \<le> b \<or> b \<le> a"
    using swap [of a b]
    by (auto simp: less_eq_viewstamp_t_def viewstamp_le_def viewstamp_less_def)
  show "a \<le> b \<Longrightarrow> b \<le> a \<Longrightarrow> a = b"
    using swap [of a b] Viewstamp_Compare_zero [of a b] Viewstamp_Compare_zero [of b a]
    by (auto simp: less_eq_viewstamp_t_def viewstamp_le_def viewstamp_less_def)
  show "a \<le> b \<Longrightarrow> b \<le> c \<Longrightarrow> a \<le> c"
  proof -
    assume ab: "a \<le> b" and bc: "b \<le> c"
    have lt: "x < y \<or> x = y" if "x \<le> y" for x y :: viewstamp_t
      using that swap [of x y] Viewstamp_Compare_zero [of x y] Viewstamp_Compare_zero [of y x]
      by (auto simp: less_viewstamp_t_def less_eq_viewstamp_t_def viewstamp_le_def
        viewstamp_less_def)
    have tr: "x < y \<Longrightarrow> y < z \<Longrightarrow> x < z" for x y z :: viewstamp_t
      by (auto simp: less_viewstamp_t_def viewstamp_less_key intro: lex_less_trans)
    have le: "x < y \<Longrightarrow> x \<le> y" for x y :: viewstamp_t
      using swap [of x y]
      by (auto simp: less_viewstamp_t_def less_eq_viewstamp_t_def viewstamp_le_def
        viewstamp_less_def)
    show "a \<le> c" using lt [OF ab] lt [OF bc] ab bc tr le by blast
  qed
qed

end

text \<open>
  Viewstamps are totally ordered, by view first, then operation number, session, message and
  shard: the comparison is exactly the lexicographic order of the five fields, its sign turns
  around with its arguments, and it is 0 only for equal viewstamps.
\<close>

theorem Viewstamp_Compare_lexicographic:
  "(viewstamp_less a b \<longleftrightarrow> lex_less (vs_key a) (vs_key b)) \<and>
   Viewstamp_Compare b a = - Viewstamp_Compare a b \<and> (Viewstamp_Compare a b = 0 \<longleftrightarrow> a = b)"
  using viewstamp_less_key Viewstamp_Compare_swap Viewstamp_Compare_zero by blast

end
