(* ===== verification/Configuration.thy ===== *)
theory Configuration
  imports StdMap Viewstamp "HOL-Library.Signed_Division" "HOL-Library.List_Lexorder"
begin

text \<open>
  \<open>src/lib/configuration.h\<close> and \<open>configuration.cc\<close>: replica addresses with their text form,
  the parser of configuration files, and the numbers the protocols take from a configuration
  (quorum sizes, the leader of a view). The C library functions the parser calls
  (\<open>strtok\<close>, \<open>strcasecmp\<close>, \<open>strtoul\<close>) are modelled as the C standard describes them, in
  the ``C'' locale. A file that cannot be opened is outside the model: its loop does not end.
  The arithmetic of quorum sizes is that of C++ \<open>int\<close>s that do not overflow.
\<close>

section \<open>Replica addresses\<close>

record ReplicaAddress =
  host :: string
  port :: string
  dev :: string

definition mk_ReplicaAddress :: "string \<Rightarrow> string \<Rightarrow> string \<Rightarrow> ReplicaAddress" where
  "mk_ReplicaAddress h p d = \<lparr>host = h, port = p, dev = d\<rparr>"

text \<open>
  The lambda \<open>Parse\<close> of the parsing constructor, with \<open>start\<close> as its state: the text from
  \<open>start\<close> up to the next bar. With no bar left \<open>find\<close> gives \<open>npos\<close>, the piece runs to the
  end, and \<open>start = npos + 1\<close> wraps around to 0.
\<close>

definition parse_piece :: "string \<Rightarrow> nat \<Rightarrow> string \<times> nat" where
  "parse_piece addr start =
     (let rest = drop start addr; piece = takeWhile (\<lambda>c. c \<noteq> CHR ''|'') rest
      in if CHR ''|'' \<in> set rest then (piece, start + length piece + 1) else (rest, 0))"

definition parse_ReplicaAddress :: "string \<Rightarrow> ReplicaAddress" where
  "parse_ReplicaAddress addr =
     (let (h, s1) = parse_piece addr 0;
          (p, s2) = parse_piece addr s1;
          (d, s3) = parse_piece addr s2
      in mk_ReplicaAddress h p d)"

definition Serialize :: "ReplicaAddress \<Rightarrow> string" where
  "Serialize a = host a @ ''|'' @ port a @ ''|'' @ dev a"

definition ReplicaAddress_eq :: "ReplicaAddress \<Rightarrow> ReplicaAddress \<Rightarrow> bool" where
  "ReplicaAddress_eq a b = (host a = host b \<and> port a = port b \<and> dev a = dev b)"

lemma ReplicaAddress_eq_iff: "ReplicaAddress_eq a b \<longleftrightarrow> a = b"
  by (auto simp: ReplicaAddress_eq_def intro: ReplicaAddress.equality)

lemma parse_piece_bar:
  assumes "CHR ''|'' \<notin> set p"
  shows "parse_piece (pre @ p @ CHR ''|'' # rest) (length pre) = (p, length pre + length p + 1)"
proof -
  have "takeWhile (\<lambda>c. c \<noteq> CHR ''|'') (p @ CHR ''|'' # rest) = p"
    using assms by (induction p) auto
  then show ?thesis by (simp add: parse_piece_def Let_def)
qed

lemma parse_piece_last:
  "CHR ''|'' \<notin> set p \<Longrightarrow> parse_piece (pre @ p) (length pre) = (p, 0)"
  by (simp add: parse_piece_def Let_def)

section \<open>The C library functions of the parser\<close>

definition c_str :: "string \<Rightarrow> string" where
  "c_str s = takeWhile (\<lambda>c. c \<noteq> CHR 0x00) s"

text \<open>\<open>strtok\<close> from a given position: the token and the position after its delimiter.\<close>

definition strtok :: "string \<Rightarrow> string \<Rightarrow> (string \<times> string) option" where
  "strtok delims s =
     (let s' = dropWhile (\<lambda>c. c \<in> set delims) s
      in if s' = [] then None
         else Some (takeWhile (\<lambda>c. c \<notin> set delims) s', drop 1 (dropWhile (\<lambda>c. c \<notin> set delims) s')))"

definition to_lower :: "char \<Rightarrow> char" where
  "to_lower c = (if 65 \<le> (of_char c :: nat) \<and> (of_char c :: nat) \<le> 90 then char_of (of_char c + 32 :: nat) else c)"

definition strcaseeq :: "string \<Rightarrow> string \<Rightarrow> bool" where
  "strcaseeq a b = (map to_lower a = map to_lower b)"

definition isspace :: "char \<Rightarrow> bool" where
  "isspace c = (let n = (of_char c :: nat) in n = 32 \<or> (9 \<le> n \<and> n \<le> 13))"

definition digit_val :: "char \<Rightarrow> nat option" where
  "digit_val c = (let n = (of_char c :: nat) in
     if 48 \<le> n \<and> n \<le> 57 then Some (n - 48)
     else if 97 \<le> n \<and> n \<le> 122 then Some (n - 87)
     else if 65 \<le> n \<and> n \<le> 90 then Some (n - 55)
     else None)"

definition is_digit_in :: "nat \<Rightarrow> char \<Rightarrow> bool" where
  "is_digit_in base c = (case digit_val c of None \<Rightarrow> False | Some d \<Rightarrow> d < base)"

definition digits_value :: "nat \<Rightarrow> string \<Rightarrow> int" where
  "digits_value base ds = foldl (\<lambda>v c. v * int base + int (the (digit_val c))) 0 ds"

definition strtoul_base :: "string \<Rightarrow> nat \<times> string" where
  "strtoul_base s =
     (if take 1 s = ''0''
      then if (take 1 (drop 1 s) = ''x'' \<or> take 1 (drop 1 s) = ''X'') \<and>
              (case drop 2 s of [] \<Rightarrow> False | c # _ \<Rightarrow> is_digit_in 16 c)
           then (16, drop 2 s) else (8, s)
      else (10, s))"

text \<open>\<open>strtoul(s, &end, 0)\<close>: the value, and the text from \<open>end\<close> on.\<close>

definition strtoul0 :: "string \<Rightarrow> u64 \<times> string" where
  "strtoul0 s =
     (let s1 = dropWhile isspace s;
          neg = (take 1 s1 = ''-'');
          s2 = (if neg \<or> take 1 s1 = ''+'' then drop 1 s1 else s1);
          (base, s3) = strtoul_base s2;
          ds = takeWhile (is_digit_in base) s3;
          v = digits_value base ds
      in if ds = [] then (0, s)
         else (if v \<ge> 2 ^ 64 then - 1 else if neg then - word_of_int v else word_of_int v,
               dropWhile (is_digit_in base) s3))"

section \<open>Configurations\<close>

text \<open>\<open>num_groups\<close>, \<open>num_replicas\<close> and \<open>num_faults\<close> are the fields \<open>g\<close>, \<open>n\<close>, \<open>f\<close>.\<close>

record Configuration =
  num_groups :: int
  num_replicas :: int
  num_faults :: int
  replicas :: "(int, ReplicaAddress list) smap"
  multicast_addr :: "ReplicaAddress option"
  sequencers :: "ReplicaAddress list"
  fc_addr :: "ReplicaAddress option"

definition mk_Configuration ::
  "int \<Rightarrow> int \<Rightarrow> int \<Rightarrow> (int, ReplicaAddress list) smap \<Rightarrow> ReplicaAddress option
    \<Rightarrow> ReplicaAddress list \<Rightarrow> ReplicaAddress option \<Rightarrow> Configuration" where
  "mk_Configuration g' n' f' rs mc sq fca =
     \<lparr>num_groups = g', num_replicas = n', num_faults = f', replicas = rs, multicast_addr = mc, sequencers = sq, fc_addr = fca\<rparr>"

text \<open>\<open>ParseReplicaAddress\<close>, called with the position \<open>strtok\<close> stopped at.\<close>

definition ParseReplicaAddress :: "string \<Rightarrow> ReplicaAddress result" where
  "ParseReplicaAddress pos =
     (case strtok [CHR '' '', CHR 0x09] pos of
        None \<Rightarrow> Inl Panicked
      | Some (arg, _) \<Rightarrow>
          (case strtok '':'' arg of
             None \<Rightarrow> Inl Panicked
           | Some (h, pos1) \<Rightarrow>
               (case strtok ''|'' pos1 of
                  None \<Rightarrow> Inl Panicked
                | Some (p, pos2) \<Rightarrow>
                    (case strtok '''' pos2 of
                       None \<Rightarrow> Inr (mk_ReplicaAddress h p '''')
                     | Some (d, _) \<Rightarrow> Inr (mk_ReplicaAddress h p d)))))"

text \<open>The parser's variables: the configuration being built and the group counter.\<close>

record parser =
  cfg :: Configuration
  group :: int

definition replicas_at :: "int \<Rightarrow> Configuration \<Rightarrow> ReplicaAddress list" where
  "replicas_at k c = (case map_of (replicas c) k of None \<Rightarrow> [] | Some rs \<Rightarrow> rs)"

definition parse_f :: "string \<Rightarrow> int result" where
  "parse_f pos =
     (case strtok [CHR '' '', CHR 0x09] pos of
        None \<Rightarrow> Inl Panicked
      | Some (arg, _) \<Rightarrow>
          (let (v, rest) = strtoul0 arg
           in if arg = [] \<or> rest \<noteq> [] then Inl Panicked else Inr (int_of_u64 v)))"

text \<open>One line of the file. A line of blanks only makes \<open>strtok\<close> return null, which
  \<open>strcasecmp\<close> then dereferences.\<close>

definition parse_line :: "string \<Rightarrow> parser \<Rightarrow> parser result" where
  "parse_line line p =
     (if line = [] \<or> hd line = CHR ''#'' then Inr p
      else case strtok [CHR '' '', CHR 0x09] (c_str line) of
        None \<Rightarrow> Inl Undefined
      | Some (cmd, pos) \<Rightarrow>
          if strcaseeq cmd ''f'' then
            bind_r (parse_f pos) (\<lambda>v. Inr (p\<lparr>cfg := (cfg p)\<lparr>num_faults := v\<rparr>\<rparr>))
          else if strcaseeq cmd ''group'' then Inr (p\<lparr>group := group p + 1\<rparr>)
          else if strcaseeq cmd ''replica'' then
            (let k = (if group p < 0 then 0 else group p)
             in bind_r (ParseReplicaAddress pos) (\<lambda>a.
                  Inr (p\<lparr>group := k,
                    cfg := (cfg p)\<lparr>replicas := smap_put k (replicas_at k (cfg p) @ [a]) (replicas (cfg p))\<rparr>\<rparr>)))
          else if strcaseeq cmd ''multicast'' then
            bind_r (ParseReplicaAddress pos) (\<lambda>a. Inr (p\<lparr>cfg := (cfg p)\<lparr>multicast_addr := Some a\<rparr>\<rparr>))
          else if strcaseeq cmd ''fc'' then
            bind_r (ParseReplicaAddress pos) (\<lambda>a. Inr (p\<lparr>cfg := (cfg p)\<lparr>fc_addr := Some a\<rparr>\<rparr>))
          else if strcaseeq cmd ''sequencer'' then
            bind_r (ParseReplicaAddress pos) (\<lambda>a.
              Inr (p\<lparr>cfg := (cfg p)\<lparr>sequencers := sequencers (cfg p) @ [a]\<rparr>\<rparr>))
          else Inl Panicked)"

text \<open>\<open>while (!file.eof()) getline\<close>: the pieces between newlines, the last one included.\<close>

fun file_lines :: "string \<Rightarrow> string list" where
  "file_lines [] = [[]]"
| "file_lines (c # cs) =
     (if c = CHR 0x0A then [] # file_lines cs
      else case file_lines cs of [] \<Rightarrow> [[c]] | l # ls \<Rightarrow> (c # l) # ls)"

definition parse_Configuration :: "string \<Rightarrow> Configuration result" where
  "parse_Configuration file =
     bind_r (fold_r parse_line (file_lines file)
              \<lparr>cfg = mk_Configuration 0 0 (- 1) [] None [] None, group = - 1\<rparr>) (\<lambda>p.
       let c = cfg p;
           c1 = c\<lparr>num_groups := int (length (replicas c))\<rparr>;
           c2 = c1\<lparr>num_replicas := int (length (replicas_at 0 c1)),
                   replicas := smap_put 0 (replicas_at 0 c1) (replicas c1)\<rparr>
       in if num_groups c2 = 0 then Inl Panicked
          else if num_replicas c2 = 0 then Inl Panicked
          else if \<exists>kv \<in> set (replicas c2). int (length (snd kv)) \<noteq> num_replicas c2 then Inl Panicked
          else if num_faults c2 = - 1 then Inl Panicked
          else Inr c2)"

text \<open>\<open>replicas_.at(group).at(id)\<close> throws \<open>std::out_of_range\<close>, which nothing catches.\<close>

definition replica :: "Configuration \<Rightarrow> int \<Rightarrow> int \<Rightarrow> ReplicaAddress option" where
  "replica c grp i =
     (case map_of (replicas c) grp of
        None \<Rightarrow> None
      | Some rs \<Rightarrow> if 0 \<le> i \<and> i < int (length rs) then Some (rs ! nat i) else None)"

definition NumSequencers :: "Configuration \<Rightarrow> int" where
  "NumSequencers c = int (length (sequencers c))"

definition sequencer :: "Configuration \<Rightarrow> int \<Rightarrow> ReplicaAddress result" where
  "sequencer c index =
     (if sequencers c = [] then Inl Panicked
      else let i = (if index < 0 \<or> index \<ge> int (length (sequencers c))
                    then length (sequencers c) - 1 else nat index)
           in Inr (sequencers c ! i))"

definition multicast :: "Configuration \<Rightarrow> ReplicaAddress option" where
  "multicast c = multicast_addr c"

definition fc :: "Configuration \<Rightarrow> ReplicaAddress option" where
  "fc c = fc_addr c"

text \<open>\<open>view % n\<close>, the \<open>int\<close> \<open>n\<close> converted to 64 unsigned bits (a zero \<open>n\<close> divides by zero;
  the parser rejects it).\<close>

definition GetLeaderIndex :: "Configuration \<Rightarrow> view_t \<Rightarrow> int" where
  "GetLeaderIndex c v = int_of_u64 (v mod word_of_int (num_replicas c))"

definition QuorumSize :: "Configuration \<Rightarrow> int" where
  "QuorumSize c = num_faults c + 1"

definition FastQuorumSize :: "Configuration \<Rightarrow> int" where
  "FastQuorumSize c = num_faults c + ((num_faults c + 1) sdiv 2) + 1"

definition Configuration_eq :: "Configuration \<Rightarrow> Configuration \<Rightarrow> bool" where
  "Configuration_eq c d =
     (if num_groups c \<noteq> num_groups d \<or> num_replicas c \<noteq> num_replicas d \<or> num_faults c \<noteq> num_faults d \<or> replicas c \<noteq> replicas d \<or>
         ((multicast_addr c = None) \<noteq> (multicast_addr d = None)) \<or>
         ((fc_addr c = None) \<noteq> (fc_addr d = None))
      then False
      else if multicast_addr c \<noteq> None \<and>
              \<not> ReplicaAddress_eq (the (multicast_addr c)) (the (multicast_addr d)) then False
      else if fc_addr c \<noteq> None \<and> \<not> ReplicaAddress_eq (the (fc_addr c)) (the (fc_addr d)) then False
      else True)"

section \<open>What the components rely on\<close>

text \<open>
  An address survives its wire form: parsing what \<open>Serialize\<close> writes gives the address back, as
  long as host, port and device do not contain the separator.
\<close>

theorem parse_Serialize:
  assumes "CHR ''|'' \<notin> set (host a)" and "CHR ''|'' \<notin> set (port a)" and "CHR ''|'' \<notin> set (dev a)"
  shows "parse_ReplicaAddress (Serialize a) = a"
proof -
  let ?s = "Serialize a"
  have 1: "parse_piece ?s 0 = (host a, length (host a) + 1)"
    using parse_piece_bar [OF assms(1), of "[]"] by (simp add: Serialize_def)
  have 2: "parse_piece ?s (length (host a) + 1) = (port a, length (host a) + length (port a) + 2)"
    using parse_piece_bar [OF assms(2), of "host a @ ''|''" "dev a"] by (simp add: Serialize_def)
  have 3: "parse_piece ?s (length (host a) + length (port a) + 2) = (dev a, 0)"
    using parse_piece_last [OF assms(3), of "host a @ ''|'' @ port a @ ''|''"]
    by (simp add: Serialize_def)
  show ?thesis
    by (simp add: parse_ReplicaAddress_def 1 2 [simplified] 3 [simplified] Let_def mk_ReplicaAddress_def)
qed

theorem parse_Serialize_witness:
  "parse_ReplicaAddress (Serialize (mk_ReplicaAddress ''node0'' ''51729'' ''eth0'')) = mk_ReplicaAddress ''node0'' ''51729'' ''eth0''"
  by (rule parse_Serialize) (simp_all add: mk_ReplicaAddress_def)

definition Configuration_wf :: "Configuration \<Rightarrow> bool" where
  "Configuration_wf c \<longleftrightarrow>
     0 < num_groups c \<and> 0 < num_replicas c \<and> num_faults c \<noteq> - 1 \<and>
     (\<forall>grp rs. map_of (replicas c) grp = Some rs \<longrightarrow> int (length rs) = num_replicas c) \<and>
     map_of (replicas c) 0 \<noteq> None"

lemma parse_Configuration_wf: "post (parse_Configuration file) Configuration_wf"
proof -
  have wf: "Configuration_wf c2"
    if "num_groups c2 \<noteq> 0" "num_groups c2 \<ge> 0" "num_replicas c2 \<noteq> 0" "num_replicas c2 \<ge> 0"
      "\<forall>kv \<in> set (replicas c2). int (length (snd kv)) = num_replicas c2"
      "num_faults c2 \<noteq> - 1" "map_of (replicas c2) 0 \<noteq> None" for c2
    using that by (fastforce simp: Configuration_wf_def dest: map_of_SomeD)
  show ?thesis
    unfolding parse_Configuration_def post_bind
    by (rule postI) (auto simp: Let_def sm.get_put intro!: wf, force+)
qed

lemma int_of_u64_small:
  assumes "uint w < 2 ^ 31"
  shows "int_of_u64 w = uint w"
proof -
  have u: "uint (ucast w :: u32) = uint w"
    using assms by (simp add: unsigned_ucast_eq take_bit_int_eq_self)
  then have "\<not> bit (uint (ucast w :: u32)) 31"
    using assms by (simp add: bit_iff_odd)
  then show ?thesis
    using u assms by (simp add: int_of_u64_def sint_uint signed_take_bit_eq_if_positive take_bit_int_eq_self)
qed

lemma GetLeaderIndex_eq:
  assumes "0 < num_replicas c" and "num_replicas c < 2 ^ 31"
  shows "GetLeaderIndex c v = uint v mod num_replicas c"
proof -
  let ?m = "word_of_int (num_replicas c) :: u64"
  have m: "uint ?m = num_replicas c"
    using assms by (simp add: uint_word_of_int_eq take_bit_int_eq_self)
  have r: "uint (v mod ?m) = uint v mod num_replicas c"
    by (simp add: uint_mod m)
  then have "uint (v mod ?m) < 2 ^ 31"
    using order.strict_trans [OF pos_mod_bound [OF assms(1)] assms(2)] by simp
  then show ?thesis
    using r by (simp add: GetLeaderIndex_def int_of_u64_small)
qed

lemma GetLeaderIndex_range:
  "0 < num_replicas c \<Longrightarrow> num_replicas c < 2 ^ 31 \<Longrightarrow>
   0 \<le> GetLeaderIndex c v \<and> GetLeaderIndex c v < num_replicas c"
  by (simp add: GetLeaderIndex_eq)

lemma leader_of_view_0:
  "0 < num_replicas c \<Longrightarrow> num_replicas c < 2 ^ 31 \<Longrightarrow> GetLeaderIndex c 0 = 0"
  by (simp add: GetLeaderIndex_eq)

text \<open>Replica indices of a group, and the standard size \<open>n = 2f + 1\<close>.\<close>

definition replica_ids :: "Configuration \<Rightarrow> int set" where
  "replica_ids c = {0..<num_replicas c}"

lemma card_replica_ids: "int (card (replica_ids c)) = max 0 (num_replicas c)"
  by (simp add: replica_ids_def)

lemma card_inter_ge:
  assumes "A \<subseteq> U" "B \<subseteq> U" "finite U"
  shows "card A + card B \<le> card (A \<inter> B) + card U"
proof -
  have "card A + card B = card (A \<union> B) + card (A \<inter> B)"
    using assms by (intro card_Un_Int) (auto intro: finite_subset)
  moreover have "card (A \<union> B) \<le> card U" using assms by (intro card_mono) auto
  ultimately show ?thesis by simp
qed

lemma majority_quorums_intersect:
  assumes "num_replicas c = 2 * num_faults c + 1" and "0 \<le> num_faults c"
    and "Q \<subseteq> replica_ids c" "Q' \<subseteq> replica_ids c"
    and "int (card Q) \<ge> QuorumSize c" "int (card Q') \<ge> QuorumSize c"
  shows "Q \<inter> Q' \<noteq> {}"
proof -
  have fin: "finite (replica_ids c)" by (simp add: replica_ids_def)
  have "0 < int (card (Q \<inter> Q'))"
    using card_inter_ge [OF assms(3,4) fin] assms(1,2,5,6) card_replica_ids [of c]
    by (simp add: QuorumSize_def)
  then show ?thesis by auto
qed


definition group5 :: Configuration where
  "group5 = mk_Configuration 1 5 2 [] None [] None"


text \<open>A group of three, at which properties are applied and runs evaluated.\<close>

definition conf3 :: Configuration where
  "conf3 = \<lparr>num_groups = 1, num_replicas = 3, num_faults = 1,
     replicas = [(0, [mk_ReplicaAddress ''10.0.0.1'' ''51729'' '''',
                      mk_ReplicaAddress ''10.0.0.2'' ''51729'' '''',
                      mk_ReplicaAddress ''10.0.0.3'' ''51729'' ''''])],
     multicast_addr = None, sequencers = [], fc_addr = None\<rparr>"

end
