(* ===== verification/QuorumSets.thy ===== *)
theory QuorumSets
  imports StdMap
begin

text \<open>
  \<open>src/common/quorumset.h\<close> and \<open>src/common/messageset.h\<close>: the two containers in which the
  protocols collect one message per replica (and, for \<open>MessageSet\<close>, per shard) and test
  for a quorum. \<open>messages[vs]\<close> creates an empty entry when there is none, which the model
  keeps. The locale \<open>vote_collector\<close> states what a replica relies on when it collects
  votes, and holds the facts about quorums that the protocols use.
\<close>

section \<open>QuorumSet\<close>

record ('id, 'msg) QuorumSet =
  numRequired :: int
  messages :: "'id \<rightharpoonup> (int, 'msg) smap"

definition mk_QuorumSet :: "int \<Rightarrow> ('id, 'msg) QuorumSet" where
  "mk_QuorumSet n = \<lparr>numRequired = n, messages = Map.empty\<rparr>"

definition QS_ClearAll :: "('id, 'msg) QuorumSet \<Rightarrow> ('id, 'msg) QuorumSet" where
  "QS_ClearAll q = q\<lparr>messages := Map.empty\<rparr>"

definition QS_Clear :: "'id \<Rightarrow> ('id, 'msg) QuorumSet \<Rightarrow> ('id, 'msg) QuorumSet" where
  "QS_Clear vs q = q\<lparr>messages := (messages q)(vs \<mapsto> [])\<rparr>"

definition QS_NumRequired :: "('id, 'msg) QuorumSet \<Rightarrow> int" where
  "QS_NumRequired q = numRequired q"

text \<open>\<open>messages[vs]\<close>: the entry, created empty if absent.\<close>

definition QS_at :: "('id, 'msg) QuorumSet \<Rightarrow> 'id \<Rightarrow> (int, 'msg) smap" where
  "QS_at q vs = (case messages q vs of None \<Rightarrow> [] | Some m \<Rightarrow> m)"

definition QS_touch :: "'id \<Rightarrow> ('id, 'msg) QuorumSet \<Rightarrow> ('id, 'msg) QuorumSet" where
  "QS_touch vs q = q\<lparr>messages := (messages q)(vs \<mapsto> QS_at q vs)\<rparr>"

definition QS_GetMessages ::
  "'id \<Rightarrow> ('id, 'msg) QuorumSet \<Rightarrow> (int, 'msg) smap \<times> ('id, 'msg) QuorumSet" where
  "QS_GetMessages vs q = (QS_at q vs, QS_touch vs q)"

definition QS_CheckForQuorum ::
  "'id \<Rightarrow> ('id, 'msg) QuorumSet \<Rightarrow> (int, 'msg) smap option \<times> ('id, 'msg) QuorumSet" where
  "QS_CheckForQuorum vs q =
     (let vsmessages = QS_at q vs; count = int (length vsmessages)
      in (if count \<ge> numRequired q then Some vsmessages else None, QS_touch vs q))"

definition QS_AddAndCheckForQuorum ::
  "'id \<Rightarrow> int \<Rightarrow> 'msg \<Rightarrow> ('id, 'msg) QuorumSet
    \<Rightarrow> (int, 'msg) smap option \<times> ('id, 'msg) QuorumSet" where
  "QS_AddAndCheckForQuorum vs replicaIdx msg q =
     QS_CheckForQuorum vs
       (q\<lparr>messages := (messages q)(vs \<mapsto> smap_put replicaIdx msg (QS_at q vs))\<rparr>)"

definition QS_Add :: "'id \<Rightarrow> int \<Rightarrow> 'msg \<Rightarrow> ('id, 'msg) QuorumSet \<Rightarrow> ('id, 'msg) QuorumSet" where
  "QS_Add vs replicaIdx msg q = snd (QS_AddAndCheckForQuorum vs replicaIdx msg q)"

text \<open>The votes recorded for an identifier, and the well-formedness of a set.\<close>

definition QS_votes :: "('id, 'msg) QuorumSet \<Rightarrow> 'id \<Rightarrow> int \<rightharpoonup> 'msg" where
  "QS_votes q vs = map_of (QS_at q vs)"

definition QS_ok :: "('id, 'msg) QuorumSet \<Rightarrow> bool" where
  "QS_ok q = (\<forall>vs m. messages q vs = Some m \<longrightarrow> smap_ok m)"

lemma QS_ok_at: "QS_ok q \<Longrightarrow> smap_ok (QS_at q vs)"
  by (auto simp: QS_ok_def QS_at_def sm.ok_emp split: option.splits)

lemma QS_ok_mk [simp]: "QS_ok (mk_QuorumSet n)"
  by (simp add: QS_ok_def mk_QuorumSet_def)

lemma QS_ok_ClearAll [simp]: "QS_ok (QS_ClearAll q)"
  by (simp add: QS_ok_def QS_ClearAll_def)

lemma QS_ok_touch: "QS_ok q \<Longrightarrow> QS_ok (QS_touch vs q)"
  using QS_ok_at [of q vs] by (auto simp: QS_ok_def QS_touch_def split: if_splits)

lemma QS_ok_Add: "QS_ok q \<Longrightarrow> QS_ok (QS_Add vs r m q)"
proof -
  assume ok: "QS_ok q"
  then have "QS_ok (q\<lparr>messages := (messages q)(vs \<mapsto> smap_put r m (QS_at q vs))\<rparr>)"
    using sm.ok_put [OF QS_ok_at [OF ok]] by (auto simp: QS_ok_def split: if_splits)
  then show ?thesis
    by (simp add: QS_Add_def QS_AddAndCheckForQuorum_def QS_CheckForQuorum_def Let_def QS_ok_touch)
qed

lemma QS_at_simps [simp]:
  "QS_at (QS_touch vs q) = QS_at q"
  "QS_at (mk_QuorumSet n) = (\<lambda>_. [])"
  "QS_at (QS_ClearAll q) = (\<lambda>_. [])"
  "QS_at (QS_Add vs r m q) = (QS_at q)(vs := smap_put r m (QS_at q vs))"
  by (auto simp: QS_at_def QS_touch_def mk_QuorumSet_def QS_ClearAll_def QS_Add_def
    QS_AddAndCheckForQuorum_def QS_CheckForQuorum_def Let_def fun_eq_iff split: option.splits)

lemma numRequired_simps [simp]:
  "numRequired (QS_touch vs q) = numRequired q"
  "numRequired (mk_QuorumSet n) = n"
  "numRequired (QS_ClearAll q) = numRequired q"
  "numRequired (QS_Add vs r m q) = numRequired q"
  by (simp_all add: QS_touch_def mk_QuorumSet_def QS_ClearAll_def QS_Add_def
    QS_AddAndCheckForQuorum_def QS_CheckForQuorum_def Let_def)

lemma QS_AddAndCheckForQuorum_eq:
  "QS_AddAndCheckForQuorum vs r m q =
     (let ms = smap_put r m (QS_at q vs)
      in (if numRequired q \<le> int (length ms) then Some ms else None, QS_Add vs r m q))"
  by (simp add: QS_Add_def QS_AddAndCheckForQuorum_def QS_CheckForQuorum_def Let_def QS_at_def)

section \<open>The interface of a vote collector\<close>

locale vote_collector =
  fixes add :: "'id \<Rightarrow> int \<Rightarrow> 'm \<Rightarrow> 'q \<Rightarrow> 'q"
    and votes :: "'q \<Rightarrow> 'id \<Rightarrow> int \<rightharpoonup> 'm"
    and tally :: "'q \<Rightarrow> 'id \<Rightarrow> nat"
    and fresh :: "'q \<Rightarrow> 'q"
    and ok :: "'q \<Rightarrow> bool"
  assumes ok_add: "ok q \<Longrightarrow> ok (add v r m q)"
    and ok_fresh: "ok (fresh q)"
    and votes_add: "votes (add v r m q) = (votes q)(v := (votes q v)(r \<mapsto> m))"
    and votes_fresh: "votes (fresh q) = (\<lambda>_. Map.empty)"
    and tally_card: "ok q \<Longrightarrow> tally q v = card (dom (votes q v))"
    and finite_votes: "finite (dom (votes q v))"
begin

fun collect :: "('id \<times> int \<times> 'm) list \<Rightarrow> 'q \<Rightarrow> 'q" where
  "collect [] q = q"
| "collect ((v, r, m) # xs) q = collect xs (add v r m q)"

lemma ok_collect: "ok q \<Longrightarrow> ok (collect xs q)"
  by (induction xs q rule: collect.induct) (auto simp: ok_add)

lemma dom_votes_collect:
  "dom (votes (collect xs q) v) = dom (votes q v) \<union> {r. \<exists>m. (v, r, m) \<in> set xs}"
proof (induction xs q rule: collect.induct)
  case (2 v' r m xs q)
  then show ?case by (cases "v = v'") (auto simp: votes_add split: if_splits)
qed simp

text \<open>Every vote was cast: nothing is recorded that was not added.\<close>

lemma votes_collect_fresh:
  "votes (collect xs (fresh q)) v r = Some m \<Longrightarrow> (v, r, m) \<in> set xs"
proof -
  have gen: "votes (collect xs q') v r = Some m \<Longrightarrow> votes q' v r = Some m \<or> (v, r, m) \<in> set xs" for q'
    by (induction xs q' rule: collect.induct) (auto simp: votes_add split: if_splits)
  assume "votes (collect xs (fresh q)) v r = Some m"
  from gen [OF this] show ?thesis by (simp add: votes_fresh)
qed

lemma tally_collect_fresh:
  "tally (collect xs (fresh q)) v = card {r. \<exists>m. (v, r, m) \<in> set xs}"
  using tally_card [OF ok_collect [OF ok_fresh]] dom_votes_collect [of xs "fresh q" v]
  by (simp add: votes_fresh)

lemma tally_add_le: "ok q \<Longrightarrow> tally q v' \<le> tally (add v r m q) v'"
  by (auto simp: tally_card ok_add votes_add finite_votes intro!: card_mono)

text \<open>Two tallies over the same replicas that together exceed their number share a replica.\<close>

lemma quorums_intersect:
  assumes "ok q" and "ok q'" and "dom (votes q v) \<subseteq> R" and "dom (votes q' v') \<subseteq> R"
    and "finite R" and "card R < tally q v + tally q' v'"
  shows "dom (votes q v) \<inter> dom (votes q' v') \<noteq> {}"
proof
  assume "dom (votes q v) \<inter> dom (votes q' v') = {}"
  then have "card (dom (votes q v) \<union> dom (votes q' v')) = tally q v + tally q' v'"
    using assms(1,2) by (simp add: tally_card card_Un_disjoint finite_votes)
  moreover have "card (dom (votes q v) \<union> dom (votes q' v')) \<le> card R"
    using assms(3-5) by (intro card_mono) auto
  ultimately show False using assms(6) by linarith
qed

end

definition QS_tally :: "('id, 'msg) QuorumSet \<Rightarrow> 'id \<Rightarrow> nat" where
  "QS_tally q vs = length (QS_at q vs)"

interpretation qs: vote_collector QS_Add QS_votes QS_tally QS_ClearAll QS_ok
  by unfold_locales
    (auto simp: QS_ok_Add QS_votes_def QS_tally_def sm.get_put fun_eq_iff QS_ok_at sm.count_card
      sm.finite_get)

section \<open>MessageSet\<close>

record ('id, 'msg) MessageSet =
  replicaRequired :: u32
  ms_messages :: "'id \<rightharpoonup> (int, (int, 'msg) smap) smap \<times> u32"

definition mk_MessageSet :: "u32 \<Rightarrow> ('id, 'msg) MessageSet" where
  "mk_MessageSet n = \<lparr>replicaRequired = n, ms_messages = Map.empty\<rparr>"

definition MS_ClearAll :: "('id, 'msg) MessageSet \<Rightarrow> ('id, 'msg) MessageSet" where
  "MS_ClearAll q = q\<lparr>ms_messages := Map.empty\<rparr>"

definition MS_Clear :: "'id \<Rightarrow> ('id, 'msg) MessageSet \<Rightarrow> ('id, 'msg) MessageSet" where
  "MS_Clear vs q =
     (case ms_messages q vs of
        None \<Rightarrow> q
      | Some (_, n) \<Rightarrow> q\<lparr>ms_messages := (ms_messages q)(vs \<mapsto> ([], n))\<rparr>)"

definition MS_Remove :: "'id \<Rightarrow> ('id, 'msg) MessageSet \<Rightarrow> ('id, 'msg) MessageSet" where
  "MS_Remove vs q = q\<lparr>ms_messages := (ms_messages q)(vs := None)\<rparr>"

definition MS_ReplicaRequied :: "('id, 'msg) MessageSet \<Rightarrow> int" where
  "MS_ReplicaRequied q = int_of_u32 (replicaRequired q)"

definition MS_GetMessages ::
  "'id \<Rightarrow> ('id, 'msg) MessageSet \<Rightarrow> (int, (int, 'msg) smap) smap option" where
  "MS_GetMessages vs q = map_option fst (ms_messages q vs)"

definition MS_CheckForQuorum ::
  "'id \<Rightarrow> ('id, 'msg) MessageSet \<Rightarrow> (int, (int, 'msg) smap) smap option" where
  "MS_CheckForQuorum vs q =
     (case ms_messages q vs of
        None \<Rightarrow> None
      | Some (vsmessages, required) \<Rightarrow>
          if length vsmessages \<ge> unat required
          then if \<exists>replicas \<in> set (map snd vsmessages). length replicas < unat (replicaRequired q)
               then None else Some vsmessages
          else None)"

definition MS_AddAndCheckForQuorum ::
  "'id \<Rightarrow> int \<Rightarrow> int \<Rightarrow> 'msg \<Rightarrow> ('id, 'msg) MessageSet
    \<Rightarrow> (int, (int, 'msg) smap) smap option \<times> ('id, 'msg) MessageSet" where
  "MS_AddAndCheckForQuorum vs shard replica msg q =
     (case ms_messages q vs of
        None \<Rightarrow> (None, q)
      | Some (vsmessages, required) \<Rightarrow>
          let old = (case map_of vsmessages shard of None \<Rightarrow> [] | Some r \<Rightarrow> r);
              vsmessages' = smap_put shard (smap_put replica msg old) vsmessages;
              q' = q\<lparr>ms_messages := (ms_messages q)(vs \<mapsto> (vsmessages', required))\<rparr>
          in (MS_CheckForQuorum vs q', q'))"

definition MS_Add ::
  "'id \<Rightarrow> int \<Rightarrow> int \<Rightarrow> 'msg \<Rightarrow> ('id, 'msg) MessageSet \<Rightarrow> ('id, 'msg) MessageSet" where
  "MS_Add vs shard replica msg q = snd (MS_AddAndCheckForQuorum vs shard replica msg q)"

definition MS_SetShardRequired :: "'id \<Rightarrow> u32 \<Rightarrow> ('id, 'msg) MessageSet \<Rightarrow> ('id, 'msg) MessageSet" where
  "MS_SetShardRequired vs num q =
     q\<lparr>ms_messages := (ms_messages q)(vs \<mapsto>
        ((case ms_messages q vs of None \<Rightarrow> [] | Some (m, _) \<Rightarrow> m), num))\<rparr>"

text \<open>Well-formedness: every level is an ordered map.\<close>

definition MS_ok :: "('id, 'msg) MessageSet \<Rightarrow> bool" where
  "MS_ok q = (\<forall>vs ms n. ms_messages q vs = Some (ms, n) \<longrightarrow>
     smap_ok ms \<and> (\<forall>s r. map_of ms s = Some r \<longrightarrow> smap_ok r))"

definition MS_votes :: "('id, 'msg) MessageSet \<Rightarrow> 'id \<Rightarrow> int \<Rightarrow> int \<rightharpoonup> 'msg" where
  "MS_votes q vs s =
     (case ms_messages q vs of
        None \<Rightarrow> Map.empty
      | Some (ms, _) \<Rightarrow> (case map_of ms s of None \<Rightarrow> Map.empty | Some r \<Rightarrow> map_of r))"

lemma MS_ok_Add: "MS_ok q \<Longrightarrow> MS_ok (MS_Add vs s r m q)"
  by (auto simp: MS_ok_def MS_Add_def MS_AddAndCheckForQuorum_def Let_def sm.ok_put sm.get_put
      sm.ok_emp split: option.splits if_splits)

lemma MS_votes_Add:
  "ms_messages q vs \<noteq> None \<Longrightarrow>
   MS_votes (MS_Add vs s r m q) vs' s' =
     (if vs' = vs \<and> s' = s then (MS_votes q vs s)(r \<mapsto> m) else MS_votes q vs' s')"
  by (auto simp: MS_votes_def MS_Add_def MS_AddAndCheckForQuorum_def Let_def sm.get_put
      split: option.splits)

text \<open>
  A message set reports a quorum exactly when messages from enough different shards are in, and
  from enough different replicas of every shard that has been heard from.
\<close>

theorem MS_CheckForQuorum_Some:
  assumes "MS_ok q" and "ms_messages q vs = Some (ms, n)"
  shows "MS_CheckForQuorum vs q \<noteq> None \<longleftrightarrow>
    unat n \<le> card (dom (map_of ms)) \<and>
    (\<forall>s \<in> dom (map_of ms). unat (replicaRequired q) \<le> card (dom (MS_votes q vs s)))"
proof -
  have ok: "smap_ok ms" and rok: "map_of ms s = Some r \<Longrightarrow> smap_ok r" for s r
    using assms by (auto simp: MS_ok_def)
  have dist: "distinct (map fst ms)"
    using ok by (simp add: smap_ok_def strict_sorted_iff)
  have "(\<forall>r \<in> set (map snd ms). unat (replicaRequired q) \<le> length r) \<longleftrightarrow>
    (\<forall>s \<in> dom (map_of ms). unat (replicaRequired q) \<le> card (dom (MS_votes q vs s)))"
    using dist rok assms(2)
    by (force simp: MS_votes_def sm.count_card map_of_eq_Some_iff dom_def)
  then show ?thesis
    using assms(2) by (auto simp: MS_CheckForQuorum_def sm.count_card [OF ok] not_less)
qed

theorem MS_CheckForQuorum_Some_witness:
  "let q = MS_Add (7 :: int) 0 1 ''m'' (MS_Add 7 0 0 ''m'' (MS_SetShardRequired 7 1 (mk_MessageSet 2)))
   in MS_CheckForQuorum 7 q \<noteq> None"
proof -
  let ?q = "MS_Add (7 :: int) 0 1 ''m'' (MS_Add 7 0 0 ''m'' (MS_SetShardRequired 7 1 (mk_MessageSet 2)))"
  have ok: "MS_ok ?q"
    by (intro MS_ok_Add) (auto simp: MS_ok_def MS_SetShardRequired_def mk_MessageSet_def smap_ok_Nil)
  have ms: "ms_messages ?q 7 = Some ([(0, [(0, ''m''), (1, ''m'')])], 1)"
    by code_simp
  have rr: "replicaRequired ?q = 2" by code_simp
  have votes: "dom (MS_votes ?q 7 0) = {0, 1}" unfolding MS_votes_def ms by auto
  have "card {0 :: int, 1} = 2" by simp
  then show ?thesis
    using MS_CheckForQuorum_Some [OF ok ms]
    unfolding Let_def rr by (simp add: votes)
qed

end
