(* ===== verification/Log.thy ===== *)
theory Log
  imports Viewstamp
begin

text \<open>
  \<open>src/common/log.h\<close>, \<open>log.cc\<close>, \<open>log-impl.h\<close> and the messages of
  \<open>src/common/request.proto\<close>: the operation log every replica keeps. The log is a vector of
  entries; entry \<open>i\<close> holds operation \<open>start + i\<close>, which is what \<open>Find\<close> relies on. The
  invariant \<open>log_ok\<close> says so, every operation keeps it in an assertion-checking build, and
  under it the word-level index arithmetic of \<open>Find\<close> and \<open>RemoveAfter\<close> is shown to be the
  obvious lookup and truncation.

  The loop of \<open>RemoveAfter\<close> under \<open>PARANOID\<close> is not modelled: \<open>src/Makefile\<close> sets
  \<open>PARANOID = 0\<close>. SHA-1 is OpenSSL's and a parameter.
\<close>

section \<open>Requests and entries\<close>

record ShardOp =
  so_shard :: u32
  so_op :: bytes
  so_msgnum :: "u64 option"

record Request =
  op :: bytes
  clientid :: u64
  clientreqid :: u64
  ops :: "ShardOp list"
  req_sessnum :: "u64 option"
  clientaddr :: "bytes option"

record UnloggedRequest =
  uop :: bytes
  uclientid :: u64
  uclientreqid :: u64

text \<open>A request with the given client, number and operation.\<close>

definition mk_req :: "u64 \<Rightarrow> u64 \<Rightarrow> bytes \<Rightarrow> Request" where
  "mk_req cid rid b = \<lparr>op = b, clientid = cid, clientreqid = rid, ops = [], req_sessnum = None, clientaddr = None\<rparr>"

datatype LogEntryState =
    LOG_STATE_COMMITTED
  | LOG_STATE_PREPARED
  | LOG_STATE_SPECULATIVE
  | LOG_STATE_FASTPREPARED
  | LOG_STATE_RECEIVED
  | LOG_STATE_NOOP
  | LOG_STATE_EXECUTED

definition SHA_DIGEST_LENGTH :: nat where
  "SHA_DIGEST_LENGTH = 20"

definition EMPTY_HASH :: bytes where
  "EMPTY_HASH = replicate SHA_DIGEST_LENGTH (CHR 0x00)"

text \<open>
  An entry. \<open>prevClientReqOpnum\<close> is left uninitialised by the constructor (\<open>None\<close>), and
  \<open>replyMessage\<close> is a pointer to a protobuf message (its bytes, or \<open>None\<close> for null).
\<close>

record LogEntry =
  viewstamp :: viewstamp_t
  state :: LogEntryState
  request :: Request
  hash :: bytes
  prevClientReqOpnum :: "opnum_t option"
  replyMessage :: "bytes option"

definition mk_LogEntry :: "viewstamp_t \<Rightarrow> LogEntryState \<Rightarrow> Request \<Rightarrow> LogEntry" where
  "mk_LogEntry vs st req =
     \<lparr>viewstamp = vs, state = st, request = req, hash = EMPTY_HASH,
      prevClientReqOpnum = None, replyMessage = None\<rparr>"

record MsgLogEntry =
  me_view :: view_t
  me_opnum :: opnum_t
  me_sessnum :: sessnum_t
  me_msgnum :: msgnum_t
  me_shardnum :: shardnum_t
  me_request :: Request
  me_state :: LogEntryState
  me_hash :: bytes

section \<open>The log\<close>

record Log =
  entries :: "LogEntry list"
  initialHash :: bytes
  start :: opnum_t
  useHash :: bool

text \<open>What the log's code takes from its surroundings: the build flag and OpenSSL's SHA-1.\<close>

record log_env =
  nassert :: bool
  sha1 :: "bytes \<Rightarrow> bytes"

definition mk_Log :: "'e log_env_scheme \<Rightarrow> bool \<Rightarrow> opnum_t \<Rightarrow> bytes \<Rightarrow> Log result" where
  "mk_Log E uh st ih =
     assert_r (nassert E) (st = 1 \<longrightarrow> ih = EMPTY_HASH)
       (Inr \<lparr>entries = [], initialHash = ih, start = st, useHash = uh\<rparr>)"

definition LastOpnum :: "Log \<Rightarrow> opnum_t" where
  "LastOpnum l = (if entries l = [] then start l - 1 else vs_opnum (viewstamp (last (entries l))))"

definition FirstOpnum :: "Log \<Rightarrow> opnum_t" where
  "FirstOpnum l = start l"

definition LastViewstamp :: "Log \<Rightarrow> viewstamp_t" where
  "LastViewstamp l =
     (if entries l = [] then viewstamp2 0 (start l - 1) else viewstamp (last (entries l)))"

definition Empty :: "Log \<Rightarrow> bool" where
  "Empty l = (entries l = [])"

definition Last :: "Log \<Rightarrow> LogEntry option" where
  "Last l = (if entries l = [] then None else Some (last (entries l)))"

definition LastHash :: "Log \<Rightarrow> bytes" where
  "LastHash l = (if entries l = [] then initialHash l else hash (last (entries l)))"

text \<open>The eight bytes of a \<open>uint64\<close> in memory, least significant first.\<close>

definition u64_bytes :: "u64 \<Rightarrow> bytes" where
  "u64_bytes w = map (\<lambda>i. char_of (unat (drop_bit (8 * i) w) mod 256)) [0..<8]"

definition ComputeHash :: "'e log_env_scheme \<Rightarrow> bytes \<Rightarrow> LogEntry \<Rightarrow> bytes" where
  "ComputeHash E lastHash entry =
     sha1 E (lastHash @ u64_bytes (clientid (request entry)) @ u64_bytes (clientreqid (request entry)))"

definition Append :: "'e log_env_scheme \<Rightarrow> LogEntry \<Rightarrow> Log \<Rightarrow> Log result" where
  "Append E entry l =
     assert_r (nassert E)
       (if entries l = [] then vs_opnum (viewstamp entry) = start l
        else vs_opnum (viewstamp entry) = LastOpnum l + 1)
       (let prevHash = LastHash l;
            entry' = (if useHash l then entry\<lparr>hash := ComputeHash E prevHash entry\<rparr> else entry)
        in if vector_full (entries l) then Inl LengthError
           else Inr (l\<lparr>entries := entries l @ [entry']\<rparr>))"

definition Find :: "'e log_env_scheme \<Rightarrow> opnum_t \<Rightarrow> Log \<Rightarrow> LogEntry option result" where
  "Find E opn l =
     (if entries l = [] then Inr None
      else if opn < start l then Inr None
      else if opn - start l > of_nat (length (entries l)) - 1 then Inr None
      else
        let entry = entries l ! unat (opn - start l)
        in assert_r (nassert E) (vs_opnum (viewstamp entry) = opn) (Inr (Some entry)))"

text \<open>Writing through the pointer \<open>Find\<close> returned.\<close>

definition update_entry :: "opnum_t \<Rightarrow> (LogEntry \<Rightarrow> LogEntry) \<Rightarrow> Log \<Rightarrow> Log" where
  "update_entry opn f l =
     (let i = unat (opn - start l) in l\<lparr>entries := (entries l)[i := f (entries l ! i)]\<rparr>)"

definition SetStatus ::
  "'e log_env_scheme \<Rightarrow> opnum_t \<Rightarrow> LogEntryState \<Rightarrow> Log \<Rightarrow> (bool \<times> Log) result" where
  "SetStatus E opn st l =
     bind_r (Find E opn l) (\<lambda>entry.
       case entry of
         None \<Rightarrow> Inr (False, l)
       | Some _ \<Rightarrow> Inr (True, update_entry opn (\<lambda>e. e\<lparr>state := st\<rparr>) l))"

definition SetRequest ::
  "'e log_env_scheme \<Rightarrow> opnum_t \<Rightarrow> Request \<Rightarrow> Log \<Rightarrow> (bool \<times> Log) result" where
  "SetRequest E opn req l =
     (if useHash l then Inl Panicked
      else bind_r (Find E opn l) (\<lambda>entry.
        case entry of
          None \<Rightarrow> Inr (False, l)
        | Some _ \<Rightarrow> Inr (True, update_entry opn (\<lambda>e. e\<lparr>request := req\<rparr>) l)))"

text \<open>
  \<open>entries.resize(n)\<close> truncates, or grows the vector with null pointers; a log that holds
  a null pointer is outside the model (\<open>Undefined\<close>: every use of such an entry is).
\<close>

definition resize_entries :: "u64 \<Rightarrow> Log \<Rightarrow> Log result" where
  "resize_entries n l =
     (if unat n \<le> length (entries l) then Inr (l\<lparr>entries := take (unat n) (entries l)\<rparr>)
      else if uint n > 2 ^ 60 - 1 then Inl LengthError
      else Inl Undefined)"

definition RemoveAfter :: "'e log_env_scheme \<Rightarrow> opnum_t \<Rightarrow> Log \<Rightarrow> Log result" where
  "RemoveAfter E opn l =
     (if opn > LastOpnum l then Inr l
      else
        assert_r (nassert E) (opn - start l < of_nat (length (entries l)))
          (bind_r (resize_entries (opn - start l) l) (\<lambda>l'.
             assert_r (nassert E) (LastOpnum l' = opn - 1) (Inr l'))))"

subsection \<open>Dump and Install\<close>

definition dump_entry :: "LogEntry \<Rightarrow> MsgLogEntry" where
  "dump_entry e =
     \<lparr>me_view = vs_view (viewstamp e), me_opnum = vs_opnum (viewstamp e),
      me_sessnum = vs_sessnum (viewstamp e), me_msgnum = vs_msgnum (viewstamp e),
      me_shardnum = vs_shardnum (viewstamp e), me_request = request e, me_state = state e,
      me_hash = hash e\<rparr>"

function dump_loop :: "'e log_env_scheme \<Rightarrow> opnum_t \<Rightarrow> opnum_t \<Rightarrow> Log \<Rightarrow> MsgLogEntry list result" where
  "dump_loop E i to l =
     (if i < to then
        bind_r (Find E i l) (\<lambda>entry.
          assert_r (nassert E) (entry \<noteq> None)
            (deref_r entry (\<lambda>e.
               bind_r (dump_loop E (i + 1) to l) (\<lambda>rest. Inr (dump_entry e # rest)))))
      else Inr [])"
  by pat_completeness auto
termination
  by (relation "measure (\<lambda>(E, i, to, l). unat to - unat i)")
    (auto simp: unat_less_succ word_less_nat_alt)

definition Dump_to :: "'e log_env_scheme \<Rightarrow> opnum_t \<Rightarrow> opnum_t \<Rightarrow> Log \<Rightarrow> MsgLogEntry list result" where
  "Dump_to E from to l =
     assert_r (nassert E) (to \<le> LastOpnum l + 1) (dump_loop E (max from (start l)) to l)"

definition Dump :: "'e log_env_scheme \<Rightarrow> opnum_t \<Rightarrow> Log \<Rightarrow> MsgLogEntry list result" where
  "Dump E from l = Dump_to E from (LastOpnum l + 1) l"

text \<open>The first loop of \<open>Install\<close>: skip what the log already has, cut it at a divergence.\<close>

fun install_skip ::
  "'e log_env_scheme \<Rightarrow> MsgLogEntry list \<Rightarrow> Log \<Rightarrow> (MsgLogEntry list \<times> Log) result" where
  "install_skip E [] l = Inr ([], l)"
| "install_skip E (it # its) l =
     bind_r (Find E (me_opnum it) l) (\<lambda>oldEntry.
       case oldEntry of
         None \<Rightarrow> Inr (it # its, l)
       | Some old \<Rightarrow>
           if me_view it \<noteq> vs_view (viewstamp old)
           then bind_r (RemoveAfter E (me_opnum it) l) (\<lambda>l'. Inr (it # its, l'))
           else install_skip E its l)"

definition install_append :: "'e log_env_scheme \<Rightarrow> MsgLogEntry \<Rightarrow> Log \<Rightarrow> Log result" where
  "install_append E it l =
     Append E (mk_LogEntry (viewstamp2 (me_view it) (me_opnum it)) LOG_STATE_PREPARED (me_request it)) l"

definition Install :: "'e log_env_scheme \<Rightarrow> MsgLogEntry list \<Rightarrow> Log \<Rightarrow> Log result" where
  "Install E its l =
     bind_r (install_skip E its l) (\<lambda>(rest, l'). fold_r (install_append E) rest l')"

declare dump_loop.simps [simp del]

section \<open>The invariant and the abstract view of the log\<close>

text \<open>
  \<open>log_ok\<close>: entry \<open>i\<close> holds operation \<open>start + i\<close>, and neither the numbers nor the vector
  overflow. \<open>log_at\<close> is the lookup \<open>Find\<close> is meant to be, \<open>log_top\<close> the first free number.
\<close>

definition log_ok :: "Log \<Rightarrow> bool" where
  "log_ok l \<longleftrightarrow>
     0 < start l \<and> unat (start l) \<le> 2 ^ 62 \<and> length (entries l) \<le> vector_max_size \<and>
     (\<forall>i < length (entries l). vs_opnum (viewstamp (entries l ! i)) = start l + of_nat i)"

definition log_at :: "Log \<Rightarrow> opnum_t \<Rightarrow> LogEntry option" where
  "log_at l opn =
     (if unat (start l) \<le> unat opn \<and> unat opn < unat (start l) + length (entries l)
      then Some (entries l ! (unat opn - unat (start l))) else None)"

definition log_top :: "Log \<Rightarrow> nat" where
  "log_top l = unat (start l) + length (entries l)"

lemma log_ok_bound: "log_ok l \<Longrightarrow> log_top l < 2 ^ 63"
  by (auto simp: log_ok_def log_top_def vector_max_size_def)

lemma log_ok_start: "log_ok l \<Longrightarrow> 0 < unat (start l)"
  by (auto simp: log_ok_def word_less_nat_alt)

lemma unat_LastOpnum:
  assumes ok: "log_ok l"
  shows "unat (LastOpnum l) = log_top l - 1"
proof (cases "entries l = []")
  case True
  have "1 \<le> start l" using log_ok_start [OF ok] by (simp add: word_le_nat_alt)
  with True show ?thesis by (simp add: LastOpnum_def log_top_def unat_diff)
next
  case False
  then have "LastOpnum l = start l + of_nat (length (entries l) - 1)"
    using ok by (simp add: LastOpnum_def log_ok_def last_conv_nth)
  moreover have "unat (start l) + (length (entries l) - 1) < 2 ^ 64"
    using log_ok_bound [OF ok] by (simp add: log_top_def)
  ultimately show ?thesis
    using False unat_add_of_nat [of "start l" "length (entries l) - 1"]
    by (simp add: log_top_def Suc_leI del: of_nat_diff)
qed

lemma unat_LastOpnum_Suc: "log_ok l \<Longrightarrow> unat (LastOpnum l + 1) = log_top l"
proof -
  assume ok: "log_ok l"
  have "unat (LastOpnum l) + 1 < 2 ^ 64"
    using unat_LastOpnum [OF ok] log_ok_bound [OF ok] by simp
  then have "unat (LastOpnum l + 1) = Suc (unat (LastOpnum l))"
    by (intro unat_succ_bound) simp
  then show ?thesis
    using unat_LastOpnum [OF ok] log_ok_start [OF ok] by (simp add: log_top_def)
qed

lemma log_ok_nth:
  assumes ok: "log_ok l" and i: "i < length (entries l)"
  shows "unat (vs_opnum (viewstamp (entries l ! i))) = unat (start l) + i"
proof -
  have "unat (start l) + i < 2 ^ 64"
    using log_ok_bound [OF ok] i by (simp add: log_top_def)
  then show ?thesis using ok i by (simp add: log_ok_def unat_add_of_nat)
qed

lemma log_at_Some:
  "log_at l opn = Some e \<longleftrightarrow>
     unat (start l) \<le> unat opn \<and> unat opn < log_top l \<and> e = entries l ! (unat opn - unat (start l))"
  by (auto simp: log_at_def log_top_def)

lemma log_at_None: "log_at l opn = None \<longleftrightarrow> unat opn < unat (start l) \<or> log_top l \<le> unat opn"
  by (auto simp: log_at_def log_top_def)

lemma log_at_opnum: "log_ok l \<Longrightarrow> log_at l opn = Some e \<Longrightarrow> vs_opnum (viewstamp e) = opn"
  by (auto simp: log_at_Some log_top_def log_ok_nth word_unat_eq_iff)

lemma Find_ok:
  assumes ok: "log_ok l"
  shows "Find E opn l = Inr (log_at l opn)"
proof -
  let ?n = "length (entries l)"
  have n: "?n < 2 ^ 64" using ok by (simp add: log_ok_def vector_max_size_def)
  show ?thesis
  proof (cases "entries l = [] \<or> opn < start l")
    case True
    then show ?thesis by (auto simp: Find_def log_at_def word_less_nat_alt)
  next
    case False
    have un: "unat (of_nat ?n - 1 :: u64) = ?n - 1"
      using False n by (subst unat_diff) (auto simp: word_le_nat_alt unat_of_nat take_bit_nat_eq_self Suc_leI)
    have d: "unat (opn - start l) = unat opn - unat (start l)"
      using False by (intro unat_diff) (simp add: not_less)
    have far: "opn - start l > of_nat ?n - 1 \<longleftrightarrow> unat (start l) + ?n \<le> unat opn"
    proof -
      have "0 < ?n" and "unat (start l) \<le> unat opn"
        using False by (auto simp: word_less_nat_alt not_less)
      then have "?n - 1 < unat opn - unat (start l) \<longleftrightarrow> unat (start l) + ?n \<le> unat opn"
        by linarith
      then show ?thesis by (simp add: word_less_nat_alt un d)
    qed
    show ?thesis
      using False far log_at_opnum [OF ok, of opn]
      by (auto simp: Find_def log_at_def Let_def d assert_r_def word_less_nat_alt not_less)
  qed
qed

lemma Append_ok:
  fixes E :: "'e log_env_scheme"
  assumes ok: "log_ok l" and num: "vs_opnum (viewstamp e) = LastOpnum l + 1"
    and room: "length (entries l) < vector_max_size"
  defines "e' \<equiv> (if useHash l then e\<lparr>hash := ComputeHash E (LastHash l) e\<rparr> else e)"
  shows "Append E e l = Inr (l\<lparr>entries := entries l @ [e']\<rparr>)"
    and "log_ok (l\<lparr>entries := entries l @ [e']\<rparr>)"
proof -
  have empty: "entries l = [] \<Longrightarrow> LastOpnum l + 1 = start l"
    by (simp add: LastOpnum_def)
  show "Append E e l = Inr (l\<lparr>entries := entries l @ [e']\<rparr>)"
    using num room empty by (auto simp: Append_def e'_def Let_def vector_full_iff)
  have bound: "unat (start l) + length (entries l) < 2 ^ 64"
    using log_ok_bound [OF ok] by (simp add: log_top_def)
  have "LastOpnum l + 1 = start l + of_nat (length (entries l))"
    using unat_LastOpnum_Suc [OF ok] bound
    by (subst word_add_eq_iff_unat) (simp_all add: log_top_def)
  then have "vs_opnum (viewstamp e') = start l + of_nat (length (entries l))"
    using num by (simp add: e'_def)
  then show "log_ok (l\<lparr>entries := entries l @ [e']\<rparr>)"
    using ok room by (auto simp: log_ok_def nth_append less_Suc_eq)
qed

text \<open>An append that returns in a checking build was numbered right.\<close>

lemma Append_returned:
  assumes ok: "log_ok l" and app: "Append E e l = Inr l'"
    and num: "\<not> nassert E \<or> vs_opnum (viewstamp e) = LastOpnum l + 1"
  shows "vs_opnum (viewstamp e) = LastOpnum l + 1" and "length (entries l) < vector_max_size"
proof -
  have empty: "entries l = [] \<Longrightarrow> LastOpnum l + 1 = start l"
    by (simp add: LastOpnum_def)
  show "vs_opnum (viewstamp e) = LastOpnum l + 1"
    using app num empty by (auto simp: Append_def assert_r_def split: if_splits)
  show "length (entries l) < vector_max_size"
    using app by (auto simp: Append_def assert_r_def Let_def vector_full_iff not_le split: if_splits)
qed

lemma RemoveAfter_ok:
  assumes ok: "log_ok l" and from_start: "start l \<le> opn"
  defines "l' \<equiv> l\<lparr>entries := take (unat opn - unat (start l)) (entries l)\<rparr>"
  shows "RemoveAfter E opn l = Inr l'" and "log_ok l'"
proof -
  have d: "unat (opn - start l) = unat opn - unat (start l)"
    using from_start by (rule unat_diff)
  have n: "length (entries l) < 2 ^ 64" using ok by (simp add: log_ok_def vector_max_size_def)
  show ok': "log_ok l'"
    using ok by (auto simp: log_ok_def l'_def)
  show "RemoveAfter E opn l = Inr l'"
  proof (cases "opn > LastOpnum l")
    case True
    then have "length (entries l) \<le> unat opn - unat (start l)"
      using unat_LastOpnum [OF ok] log_ok_start [OF ok]
      by (simp add: word_less_nat_alt log_top_def)
    with True show ?thesis by (simp add: RemoveAfter_def l'_def)
  next
    case False
    then have lt: "unat opn - unat (start l) < length (entries l)"
      using unat_LastOpnum [OF ok] log_ok_start [OF ok] from_start
      by (simp add: word_less_nat_alt word_le_nat_alt log_top_def not_less)
    have "unat (LastOpnum l') = unat opn - 1"
      using unat_LastOpnum [OF ok'] lt from_start by (simp add: l'_def log_top_def word_le_nat_alt)
    moreover have "1 \<le> opn"
      using log_ok_start [OF ok] from_start by (simp add: word_le_nat_alt)
    ultimately have "LastOpnum l' = opn - 1"
      by (simp add: word_unat_eq_iff unat_diff)
    with False lt n show ?thesis
      by (simp add: RemoveAfter_def resize_entries_def l'_def d word_less_nat_alt unat_of_nat
          take_bit_nat_eq_self)
  qed
qed

lemma update_entry_ok:
  assumes ok: "log_ok l" and at: "log_at l opn = Some e"
    and keeps: "\<And>x. vs_opnum (viewstamp (f x)) = vs_opnum (viewstamp x)"
  shows "log_ok (update_entry opn f l)"
    and "log_at (update_entry opn f l) = (log_at l)(opn \<mapsto> f e)"
    and "log_top (update_entry opn f l) = log_top l"
proof -
  have range: "unat (start l) \<le> unat opn" "unat opn < log_top l"
      "e = entries l ! (unat opn - unat (start l))"
    using at by (auto simp: log_at_Some)
  have d: "unat (opn - start l) = unat opn - unat (start l)"
    using range by (intro unat_diff) (simp add: word_le_nat_alt)
  have k: "unat (opn - start l) < length (entries l)"
    using range by (simp add: d log_top_def)
  show "log_ok (update_entry opn f l)"
    using ok keeps k by (auto simp: log_ok_def update_entry_def Let_def nth_list_update)
  show "log_top (update_entry opn f l) = log_top l"
    by (simp add: log_top_def update_entry_def Let_def)
  show "log_at (update_entry opn f l) = (log_at l)(opn \<mapsto> f e)"
  proof
    fix x
    have "x = opn \<longleftrightarrow> unat x - unat (start l) = unat opn - unat (start l)"
      if "unat (start l) \<le> unat x" using that range by (auto simp: word_unat_eq_iff)
    then show "log_at (update_entry opn f l) x = ((log_at l)(opn \<mapsto> f e)) x"
      using range by (auto simp: log_at_def update_entry_def Let_def d nth_list_update log_top_def)
  qed
qed

lemma SetStatus_ok:
  "log_ok l \<Longrightarrow> SetStatus E opn st l =
     (case log_at l opn of
        None \<Rightarrow> Inr (False, l)
      | Some _ \<Rightarrow> Inr (True, update_entry opn (\<lambda>e. e\<lparr>state := st\<rparr>) l))"
  by (simp add: SetStatus_def Find_ok)

subsection \<open>Dump\<close>

lemma dump_loop_ok:
  assumes ok: "log_ok l"
  shows "start l \<le> i \<Longrightarrow> unat to \<le> log_top l \<Longrightarrow>
    dump_loop E i to l =
      Inr (map dump_entry (take (unat to - unat i) (drop (unat i - unat (start l)) (entries l))))"
proof (induction "unat to - unat i" arbitrary: i)
  case 0
  then show ?case by (subst dump_loop.simps) (simp add: word_less_nat_alt)
next
  case (Suc n)
  have lt: "unat i < unat to" using Suc.hyps(2) by simp
  have s: "unat (i + 1) = Suc (unat i)"
    using lt by (intro unat_less_succ) (simp add: word_less_nat_alt)
  have from_start: "unat (start l) \<le> unat i" using Suc.prems by (simp add: word_le_nat_alt)
  let ?k = "unat i - unat (start l)"
  have k: "?k < length (entries l)" using lt Suc.prems from_start by (simp add: log_top_def)
  have at: "log_at l i = Some (entries l ! ?k)"
    using lt Suc.prems from_start by (simp add: log_at_Some)
  have "dump_loop E (i + 1) to l =
      Inr (map dump_entry (take (unat to - Suc (unat i)) (drop (Suc ?k) (entries l))))"
    using Suc.hyps(1) [of "i + 1"] Suc.hyps(2) Suc.prems from_start s
    by (simp add: word_le_nat_alt Suc_diff_le)
  moreover have "take (unat to - unat i) (drop ?k (entries l)) =
      entries l ! ?k # take (unat to - Suc (unat i)) (drop (Suc ?k) (entries l))"
    using k lt by (simp add: Cons_nth_drop_Suc [symmetric] Suc_diff_Suc take_Cons')
  ultimately show ?case
    using lt at by (subst dump_loop.simps) (simp add: word_less_nat_alt Find_ok [OF ok])
qed

theorem Dump_ok:
  assumes ok: "log_ok l"
  shows "Dump E from l = Inr (map dump_entry (drop (unat from - unat (start l)) (entries l)))"
proof -
  have top: "unat (LastOpnum l + 1) = log_top l" by (rule unat_LastOpnum_Suc [OF ok])
  let ?i = "max from (start l)"
  have m: "unat ?i - unat (start l) = unat from - unat (start l)"
    by (simp add: max_def word_le_nat_alt)
  have "dump_loop E ?i (LastOpnum l + 1) l =
      Inr (map dump_entry (take (log_top l - unat ?i) (drop (unat ?i - unat (start l)) (entries l))))"
    using top by (subst dump_loop_ok [OF ok]) auto
  moreover have "take (log_top l - unat ?i) (drop (unat ?i - unat (start l)) (entries l)) =
      drop (unat ?i - unat (start l)) (entries l)"
    by (auto simp: log_top_def max_def word_le_nat_alt)
  ultimately show ?thesis by (simp add: Dump_def Dump_to_def m)
qed

section \<open>The log as a numbered sequence\<close>

text \<open>
  What the replicas rely on: entries are found under their own number, an append extends
  the log by the next number, a cut keeps exactly the entries below it.
\<close>

locale numbered_log =
  fixes ok :: "'l \<Rightarrow> bool"
    and at :: "'l \<Rightarrow> nat \<Rightarrow> 'e option"
    and first :: "'l \<Rightarrow> nat"
    and top :: "'l \<Rightarrow> nat"
    and num :: "'e \<Rightarrow> nat"
    and same :: "'e \<Rightarrow> 'e \<Rightarrow> bool"
    and append :: "'e \<Rightarrow> 'l \<Rightarrow> 'l result"
    and cut :: "nat \<Rightarrow> 'l \<Rightarrow> 'l result"
  assumes at_dom: "ok l \<Longrightarrow> at l n \<noteq> None \<longleftrightarrow> first l \<le> n \<and> n < top l"
    and at_num: "ok l \<Longrightarrow> at l n = Some e \<Longrightarrow> num e = n"
    and first_top: "ok l \<Longrightarrow> first l \<le> top l"
    and append_law: "ok l \<Longrightarrow> num e = top l \<Longrightarrow> post (append e l) (\<lambda>l'.
      ok l' \<and> first l' = first l \<and> top l' = Suc (top l) \<and>
      (\<forall>n. n \<noteq> top l \<longrightarrow> at l' n = at l n) \<and> (\<exists>e'. at l' (top l) = Some e' \<and> same e e'))"
    and cut_law: "ok l \<Longrightarrow> first l \<le> n \<Longrightarrow> returns (cut n l) (\<lambda>l'.
      ok l' \<and> first l' = first l \<and> top l' = min n (top l) \<and>
      (\<forall>k. at l' k = (if k < n then at l k else None)))"
begin

lemma append_run:
  "ok l \<Longrightarrow> (\<forall>i < length es. num (es ! i) = top l + i) \<Longrightarrow> post (fold_r append es l) (\<lambda>l'.
     ok l' \<and> first l' = first l \<and> top l' = top l + length es \<and>
     (\<forall>n. n < top l \<longrightarrow> at l' n = at l n) \<and>
     (\<forall>i < length es. \<exists>e'. at l' (top l + i) = Some e' \<and> same (es ! i) e'))"
proof (induction es arbitrary: l)
  case Nil
  then show ?case by simp
next
  case (Cons e es)
  have "num e = top l" using Cons.prems(2) by force
  then have "post (append e l) (\<lambda>l'.
      ok l' \<and> first l' = first l \<and> top l' = Suc (top l) \<and>
      (\<forall>n. n \<noteq> top l \<longrightarrow> at l' n = at l n) \<and> (\<exists>e'. at l' (top l) = Some e' \<and> same e e'))"
    using append_law Cons.prems(1) by blast
  then show ?case
    unfolding fold_r.simps post_bind
  proof (rule post_mono, elim conjE)
    fix l' assume l': "ok l'" "first l' = first l" "top l' = Suc (top l)"
      "\<forall>n. n \<noteq> top l \<longrightarrow> at l' n = at l n" "\<exists>e'. at l' (top l) = Some e' \<and> same e e'"
    have "\<forall>i < length es. num (es ! i) = top l' + i" using Cons.prems(2) l'(3) by force
    then have IH: "post (fold_r append es l') (\<lambda>x.
      ok x \<and> first x = first l' \<and> top x = top l' + length es \<and>
      (\<forall>n. n < top l' \<longrightarrow> at x n = at l' n) \<and>
      (\<forall>i < length es. \<exists>e'. at x (top l' + i) = Some e' \<and> same (es ! i) e'))"
      using Cons.IH [OF l'(1)] by blast
    show "post (fold_r append es l') (\<lambda>l'.
      ok l' \<and> first l' = first l \<and> top l' = top l + length (e # es) \<and>
      (\<forall>n. n < top l \<longrightarrow> at l' n = at l n) \<and>
      (\<forall>i < length (e # es). \<exists>e'. at l' (top l + i) = Some e' \<and> same ((e # es) ! i) e'))"
      by (rule post_mono [OF IH]) (use l' in \<open>auto simp: nth_Cons split: nat.splits\<close>)
  qed
qed

text \<open>Cutting at \<open>n\<close> and appending a run from \<open>n\<close> on replaces the tail.\<close>

lemma replace_tail:
  assumes "ok l" and "first l \<le> n" and "n \<le> top l" and "\<forall>i < length es. num (es ! i) = n + i"
  shows "post (bind_r (cut n l) (fold_r append es)) (\<lambda>l'.
     ok l' \<and> first l' = first l \<and> top l' = n + length es \<and>
     (\<forall>k. k < n \<longrightarrow> at l' k = at l k) \<and>
     (\<forall>i < length es. \<exists>e'. at l' (n + i) = Some e' \<and> same (es ! i) e'))"
proof -
  obtain l1 where l1: "cut n l = Inr l1" "ok l1" "first l1 = first l" "top l1 = min n (top l)"
      "\<forall>k. at l1 k = (if k < n then at l k else None)"
    using cut_law [OF assms(1,2)] by (auto elim: returnsE)
  then have "top l1 = n" using assms(3) by simp
  with append_run [OF l1(2), of es] assms(4) l1 show ?thesis
    by (auto elim!: post_mono)
qed

end

definition log_num_at :: "Log \<Rightarrow> nat \<Rightarrow> LogEntry option" where
  "log_num_at l n =
     (if unat (start l) \<le> n \<and> n < log_top l then Some (entries l ! (n - unat (start l))) else None)"

definition same_entry :: "LogEntry \<Rightarrow> LogEntry \<Rightarrow> bool" where
  "same_entry e e' \<longleftrightarrow> viewstamp e' = viewstamp e \<and> state e' = state e \<and> request e' = request e"

lemma log_at_num: "log_at l opn = log_num_at l (unat opn)"
  by (simp add: log_at_def log_num_at_def log_top_def)

lemma update_entry_num_at:
  assumes at: "log_num_at l (unat opn) = Some e"
  shows "log_num_at (update_entry opn f l) = (log_num_at l)(unat opn \<mapsto> f e)"
proof
  fix n
  have range: "unat (start l) \<le> unat opn" "unat opn < log_top l"
      "e = entries l ! (unat opn - unat (start l))"
    using at by (auto simp: log_num_at_def split: if_splits)
  have d: "unat (opn - start l) = unat opn - unat (start l)"
    using range by (intro unat_diff) (simp add: word_le_nat_alt)
  have "n = unat opn \<longleftrightarrow> n - unat (start l) = unat opn - unat (start l)"
    if "unat (start l) \<le> n" using that range by auto
  then show "log_num_at (update_entry opn f l) n = ((log_num_at l)(unat opn \<mapsto> f e)) n"
    using range by (auto simp: log_num_at_def update_entry_def Let_def d nth_list_update log_top_def)
qed

lemma numbered_append:
  assumes ok: "log_ok l" and num: "unat (vs_opnum (viewstamp e)) = log_top l"
  shows "post (Append E e l) (\<lambda>l'.
      log_ok l' \<and> unat (start l') = unat (start l) \<and> log_top l' = Suc (log_top l) \<and>
      (\<forall>n. n \<noteq> log_top l \<longrightarrow> log_num_at l' n = log_num_at l n) \<and>
      (\<exists>e'. log_num_at l' (log_top l) = Some e' \<and> same_entry e e'))"
proof (rule postI)
  fix l' assume app: "Append E e l = Inr l'"
  have n: "vs_opnum (viewstamp e) = LastOpnum l + 1"
    using num unat_LastOpnum_Suc [OF ok] by (simp add: word_unat_eq_iff)
  have room: "length (entries l) < vector_max_size"
    using Append_returned [OF ok app] n by blast
  define e' where "e' = (if useHash l then e\<lparr>hash := ComputeHash E (LastHash l) e\<rparr> else e)"
  have l': "l' = l\<lparr>entries := entries l @ [e']\<rparr>" and ok': "log_ok l'"
    using Append_ok [OF ok n room, of E] app by (auto simp: e'_def)
  have "same_entry e e'" by (simp add: same_entry_def e'_def)
  then show "log_ok l' \<and> unat (start l') = unat (start l) \<and> log_top l' = Suc (log_top l) \<and>
      (\<forall>n. n \<noteq> log_top l \<longrightarrow> log_num_at l' n = log_num_at l n) \<and>
      (\<exists>e'. log_num_at l' (log_top l) = Some e' \<and> same_entry e e')"
    using ok' by (auto simp: l' log_num_at_def log_top_def nth_append)
qed

lemma numbered_cut:
  fixes E :: "'e log_env_scheme"
  assumes ok: "log_ok l" and n: "unat (start l) \<le> n" and n64: "n < 2 ^ 64"
  shows "returns (RemoveAfter E (of_nat n) l) (\<lambda>l'.
      log_ok l' \<and> unat (start l') = unat (start l) \<and> log_top l' = min n (log_top l) \<and>
      (\<forall>k. log_num_at l' k = (if k < n then log_num_at l k else None)))"
proof -
  have u: "unat (of_nat n :: u64) = n" using n64 by (simp add: unat_of_nat take_bit_nat_eq_self)
  then have "start l \<le> of_nat n" using n by (simp add: word_le_nat_alt)
  from RemoveAfter_ok(1) [OF ok this, of E] RemoveAfter_ok(2) [OF ok this] n u show ?thesis
    by (auto simp: log_top_def log_num_at_def)
qed

interpretation lg: numbered_log log_ok log_num_at "\<lambda>l. unat (start l)" log_top
  "\<lambda>e. unat (vs_opnum (viewstamp e))" same_entry "Append E"
  "\<lambda>n. if n < 2 ^ 64 then RemoveAfter E (of_nat n) else Inr" for E :: "'e log_env_scheme"
proof unfold_locales
  show "log_ok l \<Longrightarrow> (log_num_at l n \<noteq> None) = (unat (start l) \<le> n \<and> n < log_top l)" for l n
    by (simp add: log_num_at_def)
  show "log_ok l \<Longrightarrow> log_num_at l n = Some e \<Longrightarrow> unat (vs_opnum (viewstamp e)) = n" for l n e
    by (auto simp: log_num_at_def log_top_def log_ok_nth split: if_splits)
  show "log_ok l \<Longrightarrow> unat (start l) \<le> log_top l" for l
    by (simp add: log_top_def)
  show "returns ((if n < 2 ^ 64 then RemoveAfter E (of_nat n) else Inr) l) (\<lambda>l'.
      log_ok l' \<and> unat (start l') = unat (start l) \<and> log_top l' = min n (log_top l) \<and>
      (\<forall>k. log_num_at l' k = (if k < n then log_num_at l k else None)))"
    if "log_ok l" and "unat (start l) \<le> n" for l n
  proof (cases "n < 2 ^ 64")
    case True
    with numbered_cut [OF that, of E] show ?thesis by simp
  next
    case False
    with log_ok_bound [OF that(1)] that(1) show ?thesis by (auto simp: log_num_at_def)
  qed
qed (rule numbered_append)

subsection \<open>What Install does\<close>

text \<open>The entry \<open>Install\<close> makes of a received one.\<close>

definition installed :: "MsgLogEntry \<Rightarrow> LogEntry" where
  "installed it =
     mk_LogEntry (viewstamp2 (me_view it) (me_opnum it)) LOG_STATE_PREPARED (me_request it)"

definition numbered_from :: "nat \<Rightarrow> MsgLogEntry list \<Rightarrow> bool" where
  "numbered_from n its \<longleftrightarrow> (\<forall>i < length its. unat (me_opnum (its ! i)) = n + i)"

text \<open>The first \<open>k\<close> received entries have the views the log already records.\<close>

definition agrees_upto :: "nat \<Rightarrow> Log \<Rightarrow> nat \<Rightarrow> MsgLogEntry list \<Rightarrow> bool" where
  "agrees_upto k l n its \<longleftrightarrow>
     (\<forall>i < k. \<exists>e. log_num_at l (n + i) = Some e \<and> vs_view (viewstamp e) = me_view (its ! i))"

lemma numbered_from_Cons:
  "numbered_from n (it # its) \<longleftrightarrow> unat (me_opnum it) = n \<and> numbered_from (Suc n) its"
  by (force simp: numbered_from_def nth_Cons less_Suc_eq_0_disj split: nat.splits)

lemma agrees_upto_0 [simp]: "agrees_upto 0 l n its"
  by (simp add: agrees_upto_def)

lemma agrees_upto_Suc: "agrees_upto (Suc k) l n (it # its) \<longleftrightarrow>
   (\<exists>e. log_num_at l n = Some e \<and> vs_view (viewstamp e) = me_view it) \<and> agrees_upto k l (Suc n) its"
  by (force simp: agrees_upto_def nth_Cons less_Suc_eq_0_disj split: nat.splits)

lemma install_skip_ok:
  assumes "log_ok l" and "unat (start l) \<le> n" and "n \<le> log_top l" and "numbered_from n its"
  shows "returns (install_skip E its l) (\<lambda>(rest, l1). \<exists>k \<le> length its.
     rest = drop k its \<and> agrees_upto k l n its \<and>
     (if k = length its then l1 = l
      else \<not> agrees_upto (Suc k) l n its \<and> log_ok l1 \<and> start l1 = start l \<and> log_top l1 = n + k \<and>
        (\<forall>j < n + k. log_num_at l1 j = log_num_at l j)))"
  using assms
proof (induction its arbitrary: n)
  case Nil
  then show ?case by simp
next
  case (Cons it its)
  have num: "unat (me_opnum it) = n" and rest: "numbered_from (Suc n) its"
    using Cons.prems(4) by (auto simp: numbered_from_Cons)
  have find: "Find E (me_opnum it) l = Inr (log_num_at l n)"
    using Cons.prems(1) num by (simp add: Find_ok log_at_num)
  show ?case
  proof (cases "log_num_at l n")
    case None
    then have "log_top l = n" using Cons.prems by (auto simp: log_num_at_def split: if_splits)
    then show ?thesis using None find Cons.prems(1) by (auto simp: agrees_upto_Suc intro!: exI [of _ 0])
  next
    case (Some old)
    show ?thesis
    proof (cases "me_view it = vs_view (viewstamp old)")
      case True
      have "Suc n \<le> log_top l" using Some by (auto simp: log_num_at_def split: if_splits)
      with Cons.IH [OF Cons.prems(1) _ _ rest] Cons.prems(2)
      have IH: "returns (install_skip E its l) (\<lambda>(rest, l1). \<exists>k \<le> length its.
          rest = drop k its \<and> agrees_upto k l (Suc n) its \<and>
          (if k = length its then l1 = l
           else \<not> agrees_upto (Suc k) l (Suc n) its \<and> log_ok l1 \<and> start l1 = start l \<and> log_top l1 = Suc n + k \<and>
             (\<forall>j < Suc n + k. log_num_at l1 j = log_num_at l j)))" by simp
      have "returns (install_skip E its l) (\<lambda>(rest, l1). \<exists>k \<le> length (it # its).
          rest = drop k (it # its) \<and> agrees_upto k l n (it # its) \<and>
          (if k = length (it # its) then l1 = l
           else \<not> agrees_upto (Suc k) l n (it # its) \<and> log_ok l1 \<and> start l1 = start l \<and> log_top l1 = n + k \<and>
             (\<forall>j < n + k. log_num_at l1 j = log_num_at l j)))"
      proof (rule returns_mono [OF IH], clarify)
        fix rest l1 k
        assume "k \<le> length its" "agrees_upto k l (Suc n) its"
          "if k = length its then l1 = l
           else \<not> agrees_upto (Suc k) l (Suc n) its \<and> log_ok l1 \<and> start l1 = start l \<and> log_top l1 = Suc n + k \<and>
             (\<forall>j < Suc n + k. log_num_at l1 j = log_num_at l j)"
        then show "\<exists>k' \<le> length (it # its). drop k its = drop k' (it # its) \<and>
            agrees_upto k' l n (it # its) \<and>
            (if k' = length (it # its) then l1 = l
             else \<not> agrees_upto (Suc k') l n (it # its) \<and> log_ok l1 \<and> start l1 = start l \<and> log_top l1 = n + k' \<and>
               (\<forall>j < n + k'. log_num_at l1 j = log_num_at l j))"
          using Some True by (intro exI [of _ "Suc k"]) (auto simp: agrees_upto_Suc split: if_splits)
      qed
      then show ?thesis using find Some True by simp
    next
      case False
      have "start l \<le> me_opnum it" using num Cons.prems(2) by (simp add: word_le_nat_alt)
      note cut = RemoveAfter_ok [OF Cons.prems(1) this]
      have "n < log_top l" using Some by (auto simp: log_num_at_def split: if_splits)
      then show ?thesis
        using find Some False cut(1) [of E] cut(2) num Cons.prems(2)
        by (auto simp: log_top_def log_num_at_def agrees_upto_Suc intro!: exI [of _ 0])
    qed
  qed
qed

lemma Install_ok:
  assumes ok: "log_ok l" and n: "unat (start l) \<le> n" "n \<le> log_top l" and its: "numbered_from n its"
  shows "post (Install E its l) (\<lambda>l'. log_ok l' \<and> start l' = start l \<and>
     (\<exists>k \<le> length its. agrees_upto k l n its \<and>
       (if k = length its then l' = l
        else \<not> agrees_upto (Suc k) l n its \<and> log_top l' = n + length its \<and> (\<forall>j < n + k. log_num_at l' j = log_num_at l j) \<and>
          (\<forall>i < length its. k \<le> i \<longrightarrow>
             (\<exists>e. log_num_at l' (n + i) = Some e \<and> same_entry (installed (its ! i)) e)))))"
proof -
  obtain k l1 where k: "k \<le> length its" "agrees_upto k l n its"
      and skip: "install_skip E its l = Inr (drop k its, l1)"
      and l1: "if k = length its then l1 = l
        else \<not> agrees_upto (Suc k) l n its \<and> log_ok l1 \<and> start l1 = start l \<and> log_top l1 = n + k \<and>
          (\<forall>j < n + k. log_num_at l1 j = log_num_at l j)"
    using install_skip_ok [OF ok n its, of E] by (auto elim!: returnsE)
  show ?thesis
  proof (cases "k = length its")
    case True
    with skip l1 k ok show ?thesis by (auto simp: Install_def)
  next
    case False
    with l1 have l1': "log_ok l1" "start l1 = start l" "log_top l1 = n + k"
        "\<forall>j < n + k. log_num_at l1 j = log_num_at l j" and stop: "\<not> agrees_upto (Suc k) l n its"
      by auto
    have inst: "fold_r (install_append E) xs s = fold_r (Append E) (map installed xs) s" for xs s
      by (induction xs arbitrary: s)
        (auto simp: install_append_def installed_def bind_r_def split: sum.splits)
    have "\<forall>i < length (map installed (drop k its)).
        unat (vs_opnum (viewstamp (map installed (drop k its) ! i))) = log_top l1 + i"
      using its l1'(3) by (simp add: numbered_from_def installed_def mk_LogEntry_def)
    from lg.append_run [OF l1'(1) this, of E]
    have "post (fold_r (install_append E) (drop k its) l1) (\<lambda>l'. log_ok l' \<and>
        unat (start l') = unat (start l1) \<and> log_top l' = n + length its \<and>
        (\<forall>j < n + k. log_num_at l' j = log_num_at l1 j) \<and>
        (\<forall>i < length its - k. \<exists>e. log_num_at l' (n + k + i) = Some e \<and>
           same_entry (installed (its ! (k + i))) e))"
      using k l1'(3) by (auto simp: inst elim!: post_mono)
    then have "post (fold_r (install_append E) (drop k its) l1) (\<lambda>l'. log_ok l' \<and>
        start l' = start l \<and> log_top l' = n + length its \<and>
        (\<forall>j < n + k. log_num_at l' j = log_num_at l j) \<and>
        (\<forall>i < length its. k \<le> i \<longrightarrow> (\<exists>e. log_num_at l' (n + i) = Some e \<and>
           same_entry (installed (its ! i)) e)))"
    proof (rule post_mono, elim conjE, intro conjI allI impI)
      fix l' i
      assume all: "\<forall>i < length its - k. \<exists>e. log_num_at l' (n + k + i) = Some e \<and>
           same_entry (installed (its ! (k + i))) e" and "i < length its" "k \<le> i"
      then show "\<exists>e. log_num_at l' (n + i) = Some e \<and> same_entry (installed (its ! i)) e"
        using all [rule_format, of "i - k"] by auto
    qed (use l1' in \<open>auto simp: word_unat_eq_iff\<close>)
    then show ?thesis
      using skip k False stop by (auto simp: Install_def elim!: post_mono)
  qed
qed

end
