(* ===== verification/Transport.thy ===== *)
theory Transport
  imports Log
begin

text \<open>
  \<open>src/lib/transport.h\<close>, \<open>transport.cc\<close>, \<open>src/common/replica.h\<close>, \<open>replica-inl.h\<close>, \<open>replica.cc\<close>:
  restartable timers, and the base class through which a replica calls its application.

  A \<open>Timeout\<close> is its period and whether it is armed (\<open>timerId > 0\<close>; the transport's
  \<open>Timer\<close> returns positive identifiers). When it fires the code clears the identifier, arms
  the timer again and then runs the callback, which is the owner's.
\<close>

section \<open>Timers\<close>

record Timeout =
  timeout_ms :: u64
  armed :: bool

definition mk_Timeout :: "u64 \<Rightarrow> Timeout" where
  "mk_Timeout t = \<lparr>timeout_ms = t, armed = False\<rparr>"

definition Timeout_Active :: "Timeout \<Rightarrow> bool" where
  "Timeout_Active t = armed t"

definition Timeout_SetTimeout :: "bool \<Rightarrow> u64 \<Rightarrow> Timeout \<Rightarrow> Timeout result" where
  "Timeout_SetTimeout na t to = assert_r na (\<not> Timeout_Active to) (Inr (to\<lparr>timeout_ms := t\<rparr>))"

definition Timeout_Stop :: "Timeout \<Rightarrow> Timeout" where
  "Timeout_Stop to = (if armed to then to\<lparr>armed := False\<rparr> else to)"

definition Timeout_Reset :: "Timeout \<Rightarrow> Timeout" where
  "Timeout_Reset to = (Timeout_Stop to)\<lparr>armed := True\<rparr>"

definition Timeout_Start :: "Timeout \<Rightarrow> Timeout" where
  "Timeout_Start to = Timeout_Reset to"

definition Timeout_fire :: "Timeout \<Rightarrow> Timeout" where
  "Timeout_fire to = Timeout_Reset (to\<lparr>armed := False\<rparr>)"

lemma armed_simps [simp]:
  "armed (Timeout_Stop to) = False"
  "armed (Timeout_Reset to) = True"
  "armed (Timeout_Start to) = True"
  "armed (Timeout_fire to) = True"
  "armed (mk_Timeout t) = False"
  by (simp_all add: Timeout_Stop_def Timeout_Reset_def Timeout_Start_def Timeout_fire_def mk_Timeout_def)

text \<open>
  A network address is a handle that the replicas only copy and compare; a number here.
\<close>

type_synonym TransportAddress = nat

text \<open>\<open>for (i = a; i <= b; i++)\<close> as the list of the values of \<open>i\<close>.\<close>

definition op_range :: "opnum_t \<Rightarrow> opnum_t \<Rightarrow> opnum_t list" where
  "op_range a b = map of_nat [unat a..<Suc (unat b)]"

section \<open>The application behind a replica\<close>

datatype ReplicaStatus =
    STATUS_NORMAL
  | STATUS_VIEW_CHANGE
  | STATUS_RECOVERING
  | STATUS_GAP_COMMIT
  | STATUS_EPOCH_CHANGE

text \<open>
  The virtual functions of \<open>AppReplica\<close> over an application state \<open>'app\<close>. Output
  arguments are results; the optional \<open>UpcallArg\<close> is its one field.
\<close>

record 'app AppReplica =
  app_LeaderUpcall :: "opnum_t \<Rightarrow> bytes \<Rightarrow> 'app \<Rightarrow> (bool \<times> bytes) \<times> 'app"
  app_ReplicaUpcall :: "opnum_t \<Rightarrow> bytes \<Rightarrow> bool option \<Rightarrow> 'app \<Rightarrow> bytes \<times> 'app"
  app_RollbackUpcall :: "opnum_t \<Rightarrow> opnum_t \<Rightarrow> (opnum_t \<times> bytes) list \<Rightarrow> 'app \<Rightarrow> 'app"
  app_CommitUpcall :: "opnum_t \<Rightarrow> 'app \<Rightarrow> 'app"
  app_UnloggedUpcall :: "bytes \<Rightarrow> 'app \<Rightarrow> bytes \<times> 'app"

text \<open>The base class's own bodies: replicate everything, answer nothing.\<close>

definition default_AppReplica :: "'app AppReplica" where
  "default_AppReplica =
     \<lparr>app_LeaderUpcall = (\<lambda>opn str1 a. ((True, str1), a)),
      app_ReplicaUpcall = (\<lambda>opn str1 arg a. ('''', a)),
      app_RollbackUpcall = (\<lambda>current to opMap a. a),
      app_CommitUpcall = (\<lambda>opn a. a),
      app_UnloggedUpcall = (\<lambda>str1 a. ('''', a))\<rparr>"

text \<open>\<open>Execute\<close> for an unsharded request, and for one shard of a sharded request.\<close>

definition Execute :: "'app AppReplica \<Rightarrow> opnum_t \<Rightarrow> Request \<Rightarrow> bool option \<Rightarrow> 'app \<Rightarrow> bytes \<times> 'app" where
  "Execute A opn msg arg a = app_ReplicaUpcall A opn (op msg) arg a"

definition Execute_shard ::
  "'app AppReplica \<Rightarrow> opnum_t \<Rightarrow> Request \<Rightarrow> int \<Rightarrow> bool option \<Rightarrow> 'app \<Rightarrow> bytes \<times> 'app" where
  "Execute_shard A opn msg shardnum arg a =
     (case filter (\<lambda>sop. int_of_u32 (so_shard sop) = shardnum) (ops msg) of
        [] \<Rightarrow> ('''', a)
      | sop # _ \<Rightarrow> app_ReplicaUpcall A opn (so_op sop) arg a)"

definition ExecuteUnlogged :: "'app AppReplica \<Rightarrow> UnloggedRequest \<Rightarrow> 'app \<Rightarrow> bytes \<times> 'app" where
  "ExecuteUnlogged A msg a = app_UnloggedUpcall A (uop msg) a"

text \<open>
  \<open>Rollback\<close> collects the operations \<open>current, \<dots>, to + 1\<close> in a map ordered by number.
\<close>

function rollback_reqs ::
  "'e log_env_scheme \<Rightarrow> opnum_t \<Rightarrow> opnum_t \<Rightarrow> Log \<Rightarrow> (opnum_t \<times> bytes) list \<Rightarrow> (opnum_t \<times> bytes) list result"
where
  "rollback_reqs E x to l acc =
     (if x > to then
        bind_r (Find E x l) (\<lambda>entry. deref_r entry (\<lambda>e.
          rollback_reqs E (x - 1) to l ((x, op (request e)) # acc)))
      else Inr acc)"
  by pat_completeness auto
termination
proof (relation "measure (\<lambda>(E, x, to, l, acc). unat x)", simp)
  fix E :: "'e log_env_scheme" and x to :: opnum_t and l acc and entry :: "LogEntry option" and e
  assume "to < x"
  then have "0 < unat x" by (simp add: word_less_nat_alt)
  then have "1 \<le> x" by (simp add: word_le_nat_alt)
  with \<open>0 < unat x\<close> show "((E, x - 1, to, l, (x, op (request e)) # acc), E, x, to, l, acc)
      \<in> measure (\<lambda>(E, x, to, l, acc). unat x)"
    by (simp add: unat_diff)
qed

definition Rollback ::
  "'e log_env_scheme \<Rightarrow> 'app AppReplica \<Rightarrow> opnum_t \<Rightarrow> opnum_t \<Rightarrow> Log \<Rightarrow> 'app \<Rightarrow> 'app result" where
  "Rollback E A current to l a =
     bind_r (rollback_reqs E current to l []) (\<lambda>reqs. Inr (app_RollbackUpcall A current to reqs a))"

definition Commit :: "'app AppReplica \<Rightarrow> opnum_t \<Rightarrow> 'app \<Rightarrow> 'app" where
  "Commit A opn a = app_CommitUpcall A opn a"

declare rollback_reqs.simps [simp del]

lemma rollback_reqs_range:
  assumes ok: "log_ok l"
  shows "unat (start l) \<le> Suc (unat to) \<Longrightarrow> unat x < log_top l \<Longrightarrow> to \<le> x \<Longrightarrow>
    rollback_reqs E x to l acc =
      Inr (map (\<lambda>i. (of_nat i, op (request (entries l ! (i - unat (start l))))))
             [Suc (unat to)..<Suc (unat x)] @ acc)"
proof (induction "unat x - unat to" arbitrary: x acc)
  case 0
  then have "unat x = unat to" by (simp add: word_le_nat_alt)
  then show ?case by (subst rollback_reqs.simps) (simp add: word_less_nat_alt)
next
  case (Suc k)
  have lt: "unat to < unat x" using Suc.hyps(2) by simp
  then have "1 \<le> x" by (simp add: word_le_nat_alt)
  then have x1: "unat (x - 1) = unat x - 1" by (simp add: unat_diff)
  have at: "log_at l x = Some (entries l ! (unat x - unat (start l)))"
    using lt Suc.prems by (simp add: log_at_Some)
  let ?o = "\<lambda>i. op (request (entries l ! (i - unat (start l))))"
  have "rollback_reqs E x to l acc = rollback_reqs E (x - 1) to l ((x, ?o (unat x)) # acc)"
    using lt by (subst rollback_reqs.simps) (simp add: word_less_nat_alt Find_ok [OF ok] at)
  also have "\<dots> = Inr (map (\<lambda>i. (of_nat i, ?o i)) [Suc (unat to)..<Suc (unat (x - 1))] @
      (x, ?o (unat x)) # acc)"
    using Suc.hyps Suc.prems lt x1 by (intro Suc.hyps(1)) (auto simp: word_le_nat_alt)
  also have "Suc (unat (x - 1)) = unat x" using lt x1 by simp
  also have "map (\<lambda>i. (of_nat i, ?o i)) [Suc (unat to)..<unat x] @ (x, ?o (unat x)) # acc =
      map (\<lambda>i. (of_nat i, ?o i)) [Suc (unat to)..<Suc (unat x)] @ acc"
    using lt by (simp add: upt_Suc)
  finally show ?case .
qed

text \<open>
  Rolling back from \<open>current\<close> to \<open>to\<close> hands the application exactly the requests of operations
  \<open>to + 1\<close> to \<open>current\<close>, each under its number, when the log covers them.
\<close>

theorem Rollback_range:
  assumes "log_ok l" and "unat (start l) \<le> Suc (unat to)" and "unat current < log_top l" and "to \<le> current"
  shows "Rollback E A current to l a = Inr (app_RollbackUpcall A current to
    (map (\<lambda>i. (of_nat i, op (request (entries l ! (i - unat (start l)))))) [Suc (unat to)..<Suc (unat current)]) a)"
  using rollback_reqs_range [OF assms(1,2,3,4), of E "[]"] by (simp add: Rollback_def)

theorem Rollback_range_witness:
  "let r = (\<lambda>b. \<lparr>op = b, clientid = 1, clientreqid = 1, ops = [], req_sessnum = None, clientaddr = None\<rparr>);
       l = \<lparr>entries = [mk_LogEntry (viewstamp2 0 1) LOG_STATE_SPECULATIVE (r ''a''),
              mk_LogEntry (viewstamp2 0 2) LOG_STATE_SPECULATIVE (r ''b'')],
            initialHash = EMPTY_HASH, start = 1, useHash = False\<rparr>
   in Rollback \<lparr>nassert = False, sha1 = id\<rparr> (default_AppReplica\<lparr>app_RollbackUpcall := (\<lambda>c t m a. m)\<rparr>) 2 0 l []
        = Inr [(1, ''a''), (2, ''b'')]"
proof -
  let ?r = "\<lambda>b. \<lparr>op = b, clientid = 1, clientreqid = 1, ops = [], req_sessnum = None, clientaddr = None\<rparr>"
  let ?l = "\<lparr>entries = [mk_LogEntry (viewstamp2 0 1) LOG_STATE_SPECULATIVE (?r ''a''),
              mk_LogEntry (viewstamp2 0 2) LOG_STATE_SPECULATIVE (?r ''b'')],
            initialHash = EMPTY_HASH, start = 1, useHash = False\<rparr>"
  have "log_ok ?l"
    by (auto simp: log_ok_def mk_LogEntry_def vector_max_size_def nth_Cons split: nat.splits)
  then show ?thesis
    using Rollback_range [of ?l 0 2 "\<lparr>nassert = False, sha1 = id\<rparr>"
        "default_AppReplica\<lparr>app_RollbackUpcall := (\<lambda>c t m a. m)\<rparr>" "[]"]
    by (simp add: log_top_def mk_LogEntry_def upt_rec)
qed

end
