(* ===== verification/VRTypes.thy ===== *)
theory VRTypes
  imports Configuration QuorumSets Transport
begin

text \<open>
  The messages of \<open>src/replication/vr/vr-proto.proto\<close> and the state of a Viewstamped
  Replication replica (\<open>src/replication/vr/replica.h\<close>).

  A handler returns the new state; what it sends and the upcalls it makes to the application
  are appended to the field \<open>sent\<close>, in order. Latency counters and log output are left out.
\<close>

section \<open>Messages\<close>

datatype ReplyMessage = ReplyMessage
  (rp_view: view_t) (rp_opnum: opnum_t) (rp_reply: bytes) (rp_clientreqid: u64)

datatype ToClientMessage =
    ClientMsgNotSet
  | MReply ReplyMessage
  | MUnloggedReply bytes

datatype PrepareMessage = PrepareMessage
  (p_view: view_t) (p_opnum: opnum_t) (p_batchstart: opnum_t) (p_request: "Request list")

datatype PrepareOKMessage = PrepareOKMessage
  (po_view: view_t) (po_opnum: opnum_t) (po_replicaIdx: u32)

datatype CommitMessage = CommitMessage (c_view: view_t) (c_opnum: opnum_t)

datatype RequestStateTransferMessage = RequestStateTransferMessage
  (rst_view: view_t) (rst_opnum: opnum_t)

datatype StateTransferMessage = StateTransferMessage
  (st_view: view_t) (st_opnum: opnum_t) (st_entries: "MsgLogEntry list")

datatype StartViewChangeMessage = StartViewChangeMessage
  (svc_view: view_t) (svc_replicaIdx: u32) (svc_lastCommitted: opnum_t)

datatype DoViewChangeMessage = DoViewChangeMessage
  (dvc_view: view_t) (dvc_lastNormalView: view_t) (dvc_lastOp: opnum_t)
  (dvc_lastCommitted: opnum_t) (dvc_entries: "MsgLogEntry list") (dvc_replicaIdx: u32)

datatype StartViewMessage = StartViewMessage
  (sv_view: view_t) (sv_lastOp: opnum_t) (sv_lastCommitted: opnum_t)
  (sv_entries: "MsgLogEntry list")

datatype RecoveryMessage = RecoveryMessage (r_replicaIdx: u32) (r_nonce: u64)

datatype RecoveryResponseMessage = RecoveryResponseMessage
  (rr_view: view_t) (rr_nonce: u64) (rr_entries: "MsgLogEntry list")
  (rr_lastOp: opnum_t) (rr_lastCommitted: opnum_t) (rr_replicaIdx: u32)

datatype ToReplicaMessage =
    ReplicaMsgNotSet
  | MRequest Request
  | MUnloggedRequest UnloggedRequest
  | MPrepare PrepareMessage
  | MPrepareOK PrepareOKMessage
  | MCommit CommitMessage
  | MRequestStateTransfer RequestStateTransferMessage
  | MStateTransfer StateTransferMessage
  | MStartViewChange StartViewChangeMessage
  | MDoViewChange DoViewChangeMessage
  | MStartView StartViewMessage
  | MRecovery RecoveryMessage
  | MRecoveryResponse RecoveryResponseMessage

text \<open>What a replica does to its surroundings.\<close>

datatype vr_effect =
    SendMessageToAll ToReplicaMessage
  | SendMessageToReplica int ToReplicaMessage
  | SendMessage TransportAddress ToReplicaMessage
  | SendToClient TransportAddress ToClientMessage
  | Executed opnum_t bytes

section \<open>The surroundings and the state of a replica\<close>

text \<open>
  \<open>HandleDoViewChange\<close> keeps a pointer to a loop-local copy of a message and reads through
  it after the copy has been destroyed. What such a read finds is not the code's to say:
  \<open>dead_dvc m\<close> is what reading the dead copy of \<open>m\<close> gives.
\<close>

record 'app vr_env = log_env +
  configuration :: Configuration
  replicaIdx :: int
  batchSize :: int
  app_code :: "'app AppReplica"
  dead_dvc :: "DoViewChangeMessage \<Rightarrow> DoViewChangeMessage result"

record ClientTableEntry =
  lastReqId :: u64
  replied :: bool
  reply :: ToClientMessage

record 'app vr_replica =
  status :: ReplicaStatus
  view :: view_t
  lastCommitted :: opnum_t
  lastOp :: opnum_t
  lastRequestStateTransferView :: view_t
  lastRequestStateTransferOpnum :: opnum_t
  recoveryNonce :: u64
  pendingPrepares :: "(TransportAddress \<times> PrepareMessage) list"
  lastPrepare :: ToReplicaMessage
  lastBatchEnd :: opnum_t
  batchComplete :: bool
  vlog :: Log
  clientAddresses :: "u64 \<rightharpoonup> TransportAddress"
  clientTable :: "u64 \<rightharpoonup> ClientTableEntry"
  prepareOKQuorum :: "(viewstamp_t, PrepareOKMessage) QuorumSet"
  startViewChangeQuorum :: "(view_t, StartViewChangeMessage) QuorumSet"
  doViewChangeQuorum :: "(view_t, DoViewChangeMessage) QuorumSet"
  recoveryResponseQuorum :: "(u64, RecoveryResponseMessage) QuorumSet"
  viewChangeTimeout :: Timeout
  nullCommitTimeout :: Timeout
  stateTransferTimeout :: Timeout
  resendPrepareTimeout :: Timeout
  closeBatchTimeout :: Timeout
  recoveryTimeout :: Timeout
  app :: 'app
  sent :: "vr_effect list"

text \<open>\<open>clientTable[id]\<close>: the entry, value-initialised if absent.\<close>

definition client_entry :: "(u64 \<rightharpoonup> ClientTableEntry) \<Rightarrow> u64 \<Rightarrow> ClientTableEntry" where
  "client_entry ct cid =
     (case ct cid of
        None \<Rightarrow> \<lparr>lastReqId = 0, replied = False, reply = ClientMsgNotSet\<rparr>
      | Some e \<Rightarrow> e)"

definition send :: "vr_effect \<Rightarrow> 'app vr_replica \<Rightarrow> 'app vr_replica" where
  "send e s = s\<lparr>sent := sent s @ [e]\<rparr>"

text \<open>Send \<open>m\<close> to the client, if its address is known.\<close>

definition notify_client :: "u64 \<Rightarrow> ToClientMessage \<Rightarrow> 'app vr_replica \<Rightarrow> 'app vr_replica" where
  "notify_client cid m s =
     (case clientAddresses s cid of None \<Rightarrow> s | Some addr \<Rightarrow> send (SendToClient addr m) s)"

text \<open>\<open>std::min_element\<close> on a range of messages; dereferencing the end of an empty one is undefined.\<close>

definition min_opnum :: "opnum_t list \<Rightarrow> opnum_t result" where
  "min_opnum xs = (case xs of [] \<Rightarrow> Inl Undefined | x # xs' \<Rightarrow> Inr (foldl min x xs'))"

lemma send_simps [simp]:
  "status (send e s) = status s"
  "view (send e s) = view s"
  "lastCommitted (send e s) = lastCommitted s"
  "lastOp (send e s) = lastOp s"
  "vlog (send e s) = vlog s"
  "clientTable (send e s) = clientTable s"
  "lastBatchEnd (send e s) = lastBatchEnd s"
  "prepareOKQuorum (send e s) = prepareOKQuorum s"
  "sent (send e s) = sent s @ [e]"
  "clientAddresses (send e s) = clientAddresses s"
  "pendingPrepares (send e s) = pendingPrepares s"
  "app (send e s) = app s"
  by (simp_all add: send_def)

lemma notify_client_simps [simp]:
  "status (notify_client cid m s) = status s"
  "view (notify_client cid m s) = view s"
  "lastCommitted (notify_client cid m s) = lastCommitted s"
  "lastOp (notify_client cid m s) = lastOp s"
  "vlog (notify_client cid m s) = vlog s"
  "clientTable (notify_client cid m s) = clientTable s"
  "lastBatchEnd (notify_client cid m s) = lastBatchEnd s"
  "prepareOKQuorum (notify_client cid m s) = prepareOKQuorum s"
  "pendingPrepares (notify_client cid m s) = pendingPrepares s"
  "app (notify_client cid m s) = app s"
  by (simp_all add: notify_client_def split: option.split)

end
