(* ===== verification/VRReplica.thy ===== *)
theory VRReplica
  imports VRTypes
begin

text \<open>
  \<open>src/replication/vr/replica.cc\<close>: the operations and message handlers of a Viewstamped
  Replication replica, one definition per function, in the order of the code.
\<close>

section \<open>Committing\<close>

definition AmLeader :: "'app vr_env \<Rightarrow> 'app vr_replica \<Rightarrow> bool" where
  "AmLeader c s = (GetLeaderIndex (configuration c) (view s) = replicaIdx c)"

text \<open>The body of the loop of \<open>CommitUpTo\<close>.\<close>

definition CommitNext :: "'app vr_env \<Rightarrow> 'app vr_replica \<Rightarrow> 'app vr_replica result" where
  "CommitNext c s0 =
     (let s = s0\<lparr>lastCommitted := lastCommitted s0 + 1\<rparr>
      in bind_r (Find c (lastCommitted s) (vlog s)) (\<lambda>found.
        case found of
          None \<Rightarrow> Inl Panicked
        | Some entry \<Rightarrow>
            let req = request entry;
                (res, a) = Execute (app_code c) (lastCommitted s) req (Some (AmLeader c s)) (app s);
                s1 = send (Executed (lastCommitted s) (op req)) (s\<lparr>app := a\<rparr>);
                m = MReply (ReplyMessage (vs_view (viewstamp entry)) (vs_opnum (viewstamp entry))
                              res (clientreqid req))
            in bind_r (SetStatus c (lastCommitted s1) LOG_STATE_COMMITTED (vlog s1)) (\<lambda>(_, l).
              let s2 = s1\<lparr>vlog := l\<rparr>;
                  cte = client_entry (clientTable s2) (clientid req);
                  cte' = (if lastReqId cte \<le> clientreqid req
                          then cte\<lparr>lastReqId := clientreqid req, replied := True, reply := m\<rparr>
                          else cte);
                  s3 = s2\<lparr>clientTable := (clientTable s2)(clientid req \<mapsto> cte')\<rparr>
              in Inr (notify_client (clientid req) m s3))))"

lemma CommitNext_lastCommitted:
  assumes "CommitNext c s = Inr s'"
  shows "lastCommitted s' = lastCommitted s + 1"
proof -
  have "post (CommitNext c s) (\<lambda>s'. lastCommitted s' = lastCommitted s + 1)"
    by (rule postI) (auto simp: CommitNext_def Let_def bind_r_Inr case_prod_beta split: option.splits)
  with assms show ?thesis by simp
qed

function CommitUpTo :: "'app vr_env \<Rightarrow> opnum_t \<Rightarrow> 'app vr_replica \<Rightarrow> 'app vr_replica result" where
  "CommitUpTo c upTo s =
     (if lastCommitted s < upTo then bind_r (CommitNext c s) (CommitUpTo c upTo) else Inr s)"
  by pat_completeness auto
termination
  by (relation "measure (\<lambda>(c, upTo, s). unat upTo - unat (lastCommitted s))")
    (auto dest: CommitNext_lastCommitted simp: unat_less_succ word_less_nat_alt)

declare CommitUpTo.simps [simp del]

definition UpdateClientTable :: "'app vr_env \<Rightarrow> Request \<Rightarrow> 'app vr_replica \<Rightarrow> 'app vr_replica result" where
  "UpdateClientTable c req s =
     (let entry = client_entry (clientTable s) (clientid req)
      in assert_r (nassert c) (lastReqId entry \<le> clientreqid req)
        (let entry' = (if lastReqId entry = clientreqid req then entry
                       else entry\<lparr>lastReqId := clientreqid req, replied := False,
                                  reply := ClientMsgNotSet\<rparr>)
         in Inr (s\<lparr>clientTable := (clientTable s)(clientid req \<mapsto> entry')\<rparr>)))"

definition my_idx :: "'app vr_env \<Rightarrow> u32" where
  "my_idx c = word_of_int (replicaIdx c)"

text \<open>\<open>SendMessageToReplica(this, configuration.GetLeaderIndex(view), m)\<close>\<close>

definition send_leader :: "'app vr_env \<Rightarrow> ToReplicaMessage \<Rightarrow> 'app vr_replica \<Rightarrow> 'app vr_replica" where
  "send_leader c m s = send (SendMessageToReplica (GetLeaderIndex (configuration c) (view s)) m) s"

text \<open>The body of the loop of \<open>SendPrepareOKs\<close>.\<close>

definition SendPrepareOK_for :: "'app vr_env \<Rightarrow> opnum_t \<Rightarrow> 'app vr_replica \<Rightarrow> 'app vr_replica result" where
  "SendPrepareOK_for c i s =
     (if i \<le> lastCommitted s then Inr s
      else bind_r (Find c i (vlog s)) (\<lambda>found.
        case found of
          None \<Rightarrow> Inl Panicked
        | Some entry \<Rightarrow>
            assert_r (nassert c) (state entry = LOG_STATE_PREPARED)
              (bind_r (UpdateClientTable c (request entry) s) (\<lambda>s1.
                 Inr (send_leader c (MPrepareOK (PrepareOKMessage (view s1) i (my_idx c))) s1)))))"

definition SendPrepareOKs :: "'app vr_env \<Rightarrow> opnum_t \<Rightarrow> 'app vr_replica \<Rightarrow> 'app vr_replica result" where
  "SendPrepareOKs c oldLastOp s = fold_r (SendPrepareOK_for c) (op_range oldLastOp (lastOp s)) s"

definition SendRecoveryMessages :: "'app vr_env \<Rightarrow> 'app vr_replica \<Rightarrow> 'app vr_replica" where
  "SendRecoveryMessages c s =
     send (SendMessageToAll (MRecovery (RecoveryMessage (my_idx c) (recoveryNonce s)))) s"

definition RequestStateTransfer :: "'app vr_replica \<Rightarrow> 'app vr_replica" where
  "RequestStateTransfer s =
     (let m = MRequestStateTransfer (RequestStateTransferMessage (view s) (lastCommitted s))
      in if lastRequestStateTransferOpnum s \<noteq> 0 \<and>
            lastRequestStateTransferView s = view s \<and>
            lastRequestStateTransferOpnum s = lastCommitted s
         then s
         else send (SendMessageToAll m)
                (s\<lparr>lastRequestStateTransferView := view s,
                   lastRequestStateTransferOpnum := lastCommitted s\<rparr>))"

section \<open>Views and batches\<close>

definition EnterView :: "'app vr_env \<Rightarrow> view_t \<Rightarrow> 'app vr_replica \<Rightarrow> 'app vr_replica" where
  "EnterView c newview s0 =
     (let s1 = s0\<lparr>view := newview, status := STATUS_NORMAL, lastBatchEnd := lastOp s0,
                  batchComplete := True, recoveryTimeout := Timeout_Stop (recoveryTimeout s0)\<rparr>;
          s2 = (if AmLeader c s1
                then s1\<lparr>viewChangeTimeout := Timeout_Stop (viewChangeTimeout s1),
                        nullCommitTimeout := Timeout_Start (nullCommitTimeout s1)\<rparr>
                else s1\<lparr>viewChangeTimeout := Timeout_Start (viewChangeTimeout s1),
                        nullCommitTimeout := Timeout_Stop (nullCommitTimeout s1),
                        resendPrepareTimeout := Timeout_Stop (resendPrepareTimeout s1),
                        closeBatchTimeout := Timeout_Stop (closeBatchTimeout s1)\<rparr>)
      in s2\<lparr>prepareOKQuorum := QS_ClearAll (prepareOKQuorum s2),
            startViewChangeQuorum := QS_ClearAll (startViewChangeQuorum s2),
            doViewChangeQuorum := QS_ClearAll (doViewChangeQuorum s2),
            recoveryResponseQuorum := QS_ClearAll (recoveryResponseQuorum s2)\<rparr>)"

definition StartViewChange :: "'app vr_env \<Rightarrow> view_t \<Rightarrow> 'app vr_replica \<Rightarrow> 'app vr_replica" where
  "StartViewChange c newview s0 =
     (let s = s0\<lparr>view := newview, status := STATUS_VIEW_CHANGE,
                 viewChangeTimeout := Timeout_Reset (viewChangeTimeout s0),
                 nullCommitTimeout := Timeout_Stop (nullCommitTimeout s0),
                 resendPrepareTimeout := Timeout_Stop (resendPrepareTimeout s0),
                 closeBatchTimeout := Timeout_Stop (closeBatchTimeout s0)\<rparr>
      in send (SendMessageToAll
           (MStartViewChange (StartViewChangeMessage newview (my_idx c) (lastCommitted s)))) s)"

definition SendNullCommit :: "'app vr_env \<Rightarrow> 'app vr_replica \<Rightarrow> 'app vr_replica result" where
  "SendNullCommit c s =
     assert_r (nassert c) (AmLeader c s)
       (Inr (send (SendMessageToAll (MCommit (CommitMessage (view s) (lastCommitted s)))) s))"

definition ResendPrepare :: "'app vr_env \<Rightarrow> 'app vr_replica \<Rightarrow> 'app vr_replica result" where
  "ResendPrepare c s =
     assert_r (nassert c) (AmLeader c s)
       (if lastOp s = lastCommitted s then Inr s
        else Inr (send (SendMessageToAll (lastPrepare s)) s))"

text \<open>The loop of \<open>CloseBatch\<close>: the requests of operations \<open>batchStart, \<dots>, lastOp\<close>.\<close>

definition batch_request ::
  "'app vr_env \<Rightarrow> 'app vr_replica \<Rightarrow> opnum_t \<Rightarrow> Request list \<Rightarrow> Request list result" where
  "batch_request c s i reqs =
     bind_r (Find c i (vlog s)) (\<lambda>found.
       assert_r (nassert c) (found \<noteq> None)
         (deref_r found (\<lambda>entry.
            assert_r (nassert c) (vs_view (viewstamp entry) = view s)
              (assert_r (nassert c) (vs_opnum (viewstamp entry) = i)
                (Inr (reqs @ [request entry]))))))"

definition CloseBatch :: "'app vr_env \<Rightarrow> 'app vr_replica \<Rightarrow> 'app vr_replica result" where
  "CloseBatch c s =
     assert_r (nassert c) (AmLeader c s)
       (assert_r (nassert c) (lastBatchEnd s < lastOp s)
         (let batchStart = lastBatchEnd s + 1
          in bind_r (fold_r (batch_request c s) (op_range batchStart (lastOp s)) []) (\<lambda>reqs.
            let p = MPrepare (PrepareMessage (view s) (lastOp s) batchStart reqs);
                s1 = send (SendMessageToAll p) (s\<lparr>lastPrepare := p\<rparr>)
            in Inr (s1\<lparr>lastBatchEnd := lastOp s1, batchComplete := False,
                       resendPrepareTimeout := Timeout_Reset (resendPrepareTimeout s1),
                       closeBatchTimeout := Timeout_Stop (closeBatchTimeout s1)\<rparr>))))"

section \<open>Requests\<close>

text \<open>The part of \<open>HandleRequest\<close> after the client table has been checked and updated.\<close>

definition AcceptRequest ::
  "'app vr_env \<Rightarrow> TransportAddress \<Rightarrow> Request \<Rightarrow> 'app vr_replica \<Rightarrow> 'app vr_replica result" where
  "AcceptRequest c remote req s =
     (let ((replicate, res), a) = app_LeaderUpcall (app_code c) (lastCommitted s) (op req) (app s);
          s1 = s\<lparr>app := a\<rparr>
      in if \<not> replicate then
           let m = MReply (ReplyMessage 0 0 res (clientreqid req));
               cte = client_entry (clientTable s1) (clientid req);
               s2 = s1\<lparr>clientTable :=
                      (clientTable s1)(clientid req \<mapsto> cte\<lparr>replied := True, reply := m\<rparr>)\<rparr>
           in Inr (send (SendToClient remote m) s2)
         else
           let request' = \<lparr>op = res, clientid = clientid req, clientreqid = clientreqid req,
                           ops = [], req_sessnum = None, clientaddr = None\<rparr>;
               s2 = s1\<lparr>lastOp := lastOp s1 + 1\<rparr>;
               v = viewstamp2 (view s2) (lastOp s2)
           in bind_r (Append c (mk_LogEntry v LOG_STATE_PREPARED request') (vlog s2)) (\<lambda>l.
                let s3 = s2\<lparr>vlog := l\<rparr>
                in bind_r
                  (if batchComplete s3 \<or>
                      lastOp s3 - lastBatchEnd s3 + 1 > ucast (word_of_int (batchSize c) :: u32)
                   then CloseBatch c s3
                   else Inr (if \<not> Timeout_Active (closeBatchTimeout s3)
                             then s3\<lparr>closeBatchTimeout := Timeout_Start (closeBatchTimeout s3)\<rparr>
                             else s3))
                  (\<lambda>s4. Inr (s4\<lparr>nullCommitTimeout := Timeout_Reset (nullCommitTimeout s4)\<rparr>))))"

definition HandleRequest ::
  "'app vr_env \<Rightarrow> TransportAddress \<Rightarrow> Request \<Rightarrow> 'app vr_replica \<Rightarrow> 'app vr_replica result" where
  "HandleRequest c remote req s0 =
     (if status s0 \<noteq> STATUS_NORMAL then Inr s0
      else if \<not> AmLeader c s0 then Inr s0
      else
        let s = s0\<lparr>clientAddresses := (clientAddresses s0)(clientid req \<mapsto> remote)\<rparr>;
            accept = bind_r (UpdateClientTable c req s) (AcceptRequest c remote req)
        in case clientTable s (clientid req) of
             None \<Rightarrow> accept
           | Some entry \<Rightarrow>
               if clientreqid req < lastReqId entry then Inr s
               else if clientreqid req = lastReqId entry then
                 (if replied entry then Inr (send (SendToClient remote (reply entry)) s) else Inr s)
               else accept)"

definition HandleUnloggedRequest ::
  "'app vr_env \<Rightarrow> TransportAddress \<Rightarrow> UnloggedRequest \<Rightarrow> 'app vr_replica \<Rightarrow> 'app vr_replica result" where
  "HandleUnloggedRequest c remote req s =
     (if status s \<noteq> STATUS_NORMAL then Inr s
      else let (res, a) = ExecuteUnlogged (app_code c) req (app s)
           in Inr (send (SendToClient remote (MUnloggedReply res)) (s\<lparr>app := a\<rparr>)))"

section \<open>Normal operation\<close>

text \<open>The loop of \<open>HandlePrepare\<close> over the requests, with the counter \<open>op\<close>.\<close>

definition prepare_one ::
  "'app vr_env \<Rightarrow> view_t \<Rightarrow> Request \<Rightarrow> opnum_t \<times> 'app vr_replica \<Rightarrow> (opnum_t \<times> 'app vr_replica) result"
where
  "prepare_one c v req st =
     (let (op0, s) = st; opn = op0 + 1
      in if opn \<le> lastOp s then Inr (opn, s)
         else
           let s1 = s\<lparr>lastOp := lastOp s + 1\<rparr>
           in bind_r (Append c (mk_LogEntry (viewstamp2 v opn) LOG_STATE_PREPARED req) (vlog s1)) (\<lambda>l.
             bind_r (UpdateClientTable c req (s1\<lparr>vlog := l\<rparr>)) (\<lambda>s2. Inr (opn, s2))))"

definition HandlePrepare ::
  "'app vr_env \<Rightarrow> TransportAddress \<Rightarrow> PrepareMessage \<Rightarrow> 'app vr_replica \<Rightarrow> 'app vr_replica result" where
  "HandlePrepare c remote msg s0 =
     (if status s0 \<noteq> STATUS_NORMAL then Inr s0
      else if p_view msg < view s0 then Inr s0
      else if p_view msg > view s0 then
        (let s1 = RequestStateTransfer s0
         in Inr (s1\<lparr>pendingPrepares := pendingPrepares s1 @ [(remote, msg)]\<rparr>))
      else if AmLeader c s0 then Inl Panicked
      else assert_r (nassert c) (p_batchstart msg \<le> p_opnum msg)
       (assert_r (nassert c)
          (p_opnum msg - p_batchstart msg + 1 = ucast (of_nat (length (p_request msg)) :: u32))
        (let s = s0\<lparr>viewChangeTimeout := Timeout_Reset (viewChangeTimeout s0)\<rparr>;
             ok = MPrepareOK (PrepareOKMessage (p_view msg) (p_opnum msg) (my_idx c))
         in if p_opnum msg \<le> lastOp s then Inr (send_leader c ok s)
            else if p_batchstart msg > lastOp s + 1 then
              (let s1 = RequestStateTransfer s
               in Inr (s1\<lparr>pendingPrepares := pendingPrepares s1 @ [(remote, msg)]\<rparr>))
            else bind_r (fold_r (prepare_one c (p_view msg)) (p_request msg) (p_batchstart msg - 1, s))
              (\<lambda>(opn, s1). assert_r (nassert c) (opn = p_opnum msg) (Inr (send_leader c ok s1))))))"

definition HandlePrepareOK ::
  "'app vr_env \<Rightarrow> TransportAddress \<Rightarrow> PrepareOKMessage \<Rightarrow> 'app vr_replica \<Rightarrow> 'app vr_replica result" where
  "HandlePrepareOK c remote msg s0 =
     (if status s0 \<noteq> STATUS_NORMAL then Inr s0
      else if po_view msg < view s0 then Inr s0
      else if po_view msg > view s0 then Inr (RequestStateTransfer s0)
      else if \<not> AmLeader c s0 then Inr s0
      else
        let vs = viewstamp2 (po_view msg) (po_opnum msg);
            (msgs, q) = QS_AddAndCheckForQuorum vs (int_of_u32 (po_replicaIdx msg)) msg (prepareOKQuorum s0);
            s = s0\<lparr>prepareOKQuorum := q\<rparr>
        in case msgs of
             None \<Rightarrow> Inr s
           | Some ms \<Rightarrow>
               bind_r (CommitUpTo c (po_opnum msg) s) (\<lambda>s1.
                 if int (length ms) \<ge> uint (word_of_int (QuorumSize (configuration c)) :: u32) then Inr s1
                 else
                   let s2 = send (SendMessageToAll (MCommit (CommitMessage (view s1) (lastCommitted s1)))) s1;
                       s3 = s2\<lparr>nullCommitTimeout := Timeout_Reset (nullCommitTimeout s2)\<rparr>
                   in if lastBatchEnd s3 = po_opnum msg then
                        let s4 = s3\<lparr>batchComplete := True\<rparr>
                        in if lastOp s4 > lastBatchEnd s4 then CloseBatch c s4 else Inr s4
                      else Inr s3))"

definition HandleCommit ::
  "'app vr_env \<Rightarrow> TransportAddress \<Rightarrow> CommitMessage \<Rightarrow> 'app vr_replica \<Rightarrow> 'app vr_replica result" where
  "HandleCommit c remote msg s0 =
     (if status s0 \<noteq> STATUS_NORMAL then Inr s0
      else if c_view msg < view s0 then Inr s0
      else if c_view msg > view s0 then Inr (RequestStateTransfer s0)
      else if AmLeader c s0 then Inl Panicked
      else
        let s = s0\<lparr>viewChangeTimeout := Timeout_Reset (viewChangeTimeout s0)\<rparr>
        in if c_opnum msg \<le> lastCommitted s then Inr s
           else if c_opnum msg > lastOp s then Inr (RequestStateTransfer s)
           else CommitUpTo c (c_opnum msg) s)"

section \<open>State transfer\<close>

definition HandleRequestStateTransfer ::
  "'app vr_env \<Rightarrow> TransportAddress \<Rightarrow> RequestStateTransferMessage \<Rightarrow> 'app vr_replica
    \<Rightarrow> 'app vr_replica result" where
  "HandleRequestStateTransfer c remote msg s =
     (if status s \<noteq> STATUS_NORMAL then Inr s
      else if rst_view msg > view s then Inr (RequestStateTransfer s)
      else bind_r (Dump c (rst_opnum msg + 1) (vlog s)) (\<lambda>es.
        Inr (send (SendMessage remote
          (MStateTransfer (StateTransferMessage (view s) (lastCommitted s) es))) s)))"

definition append_new ::
  "'app vr_env \<Rightarrow> MsgLogEntry \<Rightarrow> Log \<Rightarrow> Log result" where
  "append_new c e l =
     Append c (mk_LogEntry (viewstamp2 (me_view e) (me_opnum e)) LOG_STATE_PREPARED (me_request e)) l"

text \<open>The body of the loop of \<open>HandleStateTransfer\<close> over \<open>(oldLastOp, state)\<close>.\<close>

definition transfer_entry ::
  "'app vr_env \<Rightarrow> MsgLogEntry \<Rightarrow> opnum_t \<times> 'app vr_replica \<Rightarrow> (opnum_t \<times> 'app vr_replica) result" where
  "transfer_entry c newEntry st =
     (let (oldLastOp, s) = st; opn = me_opnum newEntry
      in if opn \<le> lastCommitted s then Inr (oldLastOp, s)
         else if opn \<le> lastOp s then
           bind_r (Find c opn (vlog s)) (\<lambda>found. deref_r found (\<lambda>entry.
             assert_r (nassert c) (vs_opnum (viewstamp entry) = opn)
              (assert_r (nassert c) (vs_view (viewstamp entry) \<le> me_view newEntry)
               (if vs_view (viewstamp entry) = me_view newEntry then
                  assert_r (nassert c) (state entry = LOG_STATE_PREPARED) (Inr (oldLastOp, s))
                else
                  assert_r (nassert c) (state entry \<noteq> LOG_STATE_COMMITTED)
                   (bind_r (RemoveAfter c opn (vlog s)) (\<lambda>l.
                      bind_r (append_new c newEntry l) (\<lambda>l'.
                        Inr (opn, s\<lparr>lastOp := opn, vlog := l'\<rparr>))))))))
         else
           assert_r (nassert c) (opn = lastOp s + 1)
            (bind_r (append_new c newEntry (vlog s)) (\<lambda>l.
               Inr (oldLastOp, s\<lparr>lastOp := lastOp s + 1, vlog := l\<rparr>))))"

definition HandleStateTransfer ::
  "'app vr_env \<Rightarrow> TransportAddress \<Rightarrow> StateTransferMessage \<Rightarrow> 'app vr_replica \<Rightarrow> 'app vr_replica result"
where
  "HandleStateTransfer c remote msg s0 =
     (if st_view msg < view s0 then Inr s0
      else
        bind_r (fold_r (transfer_entry c) (st_entries msg) (lastOp s0, s0)) (\<lambda>(oldLastOp, s1).
          let s2 = (if st_view msg > view s1 then EnterView c (st_view msg) s1 else s1)
          in assert_r (nassert c) (st_opnum msg \<le> lastOp s2)
            (bind_r (CommitUpTo c (st_opnum msg) s2) (\<lambda>s3.
              bind_r (SendPrepareOKs c oldLastOp s3) (\<lambda>s4.
                let pending = pendingPrepares s4
                in fold_r (\<lambda>(remote', pm). HandlePrepare c remote' pm) pending
                     (s4\<lparr>pendingPrepares := []\<rparr>))))))"

section \<open>View changes\<close>

definition HandleStartViewChange ::
  "'app vr_env \<Rightarrow> TransportAddress \<Rightarrow> StartViewChangeMessage \<Rightarrow> 'app vr_replica
    \<Rightarrow> 'app vr_replica result" where
  "HandleStartViewChange c remote msg s0 =
     (if svc_view msg < view s0 then Inr s0
      else if svc_view msg = view s0 \<and> status s0 \<noteq> STATUS_VIEW_CHANGE then Inr s0
      else
        let s1 = (if status s0 \<noteq> STATUS_VIEW_CHANGE \<or> svc_view msg > view s0
                  then StartViewChange c (svc_view msg) s0 else s0)
        in assert_r (nassert c) (svc_view msg = view s1)
          (let (msgs, q) = QS_AddAndCheckForQuorum (svc_view msg) (int_of_u32 (svc_replicaIdx msg)) msg
                             (startViewChangeQuorum s1);
               s2 = s1\<lparr>startViewChangeQuorum := q\<rparr>
           in case msgs of
                None \<Rightarrow> Inr s2
              | Some ms \<Rightarrow>
                  let leader = GetLeaderIndex (configuration c) (view s2)
                  in if leader \<noteq> replicaIdx c then
                       bind_r (min_opnum (map (svc_lastCommitted \<circ> snd) ms)) (\<lambda>minC.
                         let minCommitted = min minC (lastCommitted s2)
                         in bind_r (Dump c minCommitted (vlog s2)) (\<lambda>es.
                              Inr (send (SendMessageToReplica leader
                                (MDoViewChange (DoViewChangeMessage (view s2)
                                  (vs_view (LastViewstamp (vlog s2))) (lastOp s2) (lastCommitted s2)
                                  es (my_idx c)))) s2)))
                     else Inr s2))"

text \<open>The search for the latest log among the \<open>DOVIEWCHANGE\<close> messages.\<close>

definition later_dvc ::
  "view_t \<times> opnum_t \<times> DoViewChangeMessage option \<Rightarrow> DoViewChangeMessage
    \<Rightarrow> view_t \<times> opnum_t \<times> DoViewChangeMessage option" where
  "later_dvc best x =
     (let (latestView, latestOp, latestMsg) = best
      in if dvc_lastNormalView x > latestView \<or>
            (dvc_lastNormalView x = latestView \<and> dvc_lastOp x > latestOp)
         then (dvc_lastNormalView x, dvc_lastOp x, Some x) else best)"

definition latest_dvc ::
  "Log \<Rightarrow> DoViewChangeMessage list \<Rightarrow> view_t \<times> opnum_t \<times> DoViewChangeMessage option" where
  "latest_dvc l xs =
     foldl later_dvc (vs_view (LastViewstamp l), vs_opnum (LastViewstamp l), None) xs"

text \<open>Installing the selected log: \<open>lm\<close> is what is read through \<open>latestMsg\<close>.\<close>

definition install_latest ::
  "'app vr_env \<Rightarrow> DoViewChangeMessage \<Rightarrow> DoViewChangeMessage \<Rightarrow> 'app vr_replica
    \<Rightarrow> 'app vr_replica result" where
  "install_latest c msg lm s =
     (case dvc_entries lm of
        [] \<Rightarrow>
          assert_r (nassert c) (lastCommitted s = dvc_lastCommitted msg)
            (assert_r (nassert c) (dvc_lastOp msg = dvc_lastCommitted msg) (Inr s))
      | e # _ \<Rightarrow>
          if me_opnum e > lastCommitted s + 1 then Inl Panicked
          else bind_r (RemoveAfter c (dvc_lastOp lm + 1) (vlog s)) (\<lambda>l.
            bind_r (Install c (dvc_entries lm) l) (\<lambda>l'. Inr (s\<lparr>vlog := l'\<rparr>))))"

text \<open>What follows the quorum check: install the latest log, enter the view, announce it.\<close>

definition BecomeLeader ::
  "'app vr_env \<Rightarrow> DoViewChangeMessage \<Rightarrow> (int, DoViewChangeMessage) smap \<Rightarrow> 'app vr_replica
    \<Rightarrow> 'app vr_replica result" where
  "BecomeLeader c msg msgs s =
     (let (latestView, latestOp, latestMsg) = latest_dvc (vlog s) (map snd msgs)
      in bind_r (case latestMsg of None \<Rightarrow> Inr None | Some x \<Rightarrow> bind_r (dead_dvc c x) (\<lambda>y. Inr (Some y)))
        (\<lambda>latest.
        bind_r (case latest of None \<Rightarrow> Inr s | Some lm \<Rightarrow> install_latest c msg lm s) (\<lambda>s1.
          let (svcs, q) = QS_GetMessages (view s1) (startViewChangeQuorum s1);
              s2 = s1\<lparr>startViewChangeQuorum := q\<rparr>
          in bind_r (min_opnum (map (svc_lastCommitted \<circ> snd) svcs)) (\<lambda>minCommittedSVC.
            bind_r (min_opnum (map (dvc_lastCommitted \<circ> snd) msgs)) (\<lambda>minCommittedDVC.
              let minCommitted = min (min minCommittedSVC minCommittedDVC) (lastCommitted s2);
                  s3 = EnterView c (dvc_view msg) s2
              in assert_r (nassert c) (AmLeader c s3)
                (let s4 = s3\<lparr>lastOp := latestOp\<rparr>
                 in bind_r (case latest of None \<Rightarrow> Inr s4
                            | Some lm \<Rightarrow> CommitUpTo c (dvc_lastCommitted lm) s4) (\<lambda>s5.
                   bind_r (Dump c minCommitted (vlog s5)) (\<lambda>es.
                     Inr (send (SendMessageToAll (MStartView
                       (StartViewMessage (view s5) (lastOp s5) (lastCommitted s5) es))) s5)))))))))"

definition HandleDoViewChange ::
  "'app vr_env \<Rightarrow> TransportAddress \<Rightarrow> DoViewChangeMessage \<Rightarrow> 'app vr_replica \<Rightarrow> 'app vr_replica result"
where
  "HandleDoViewChange c remote msg s0 =
     (if dvc_view msg < view s0 then Inr s0
      else if dvc_view msg = view s0 \<and> status s0 \<noteq> STATUS_VIEW_CHANGE then Inr s0
      else
        let s1 = (if status s0 \<noteq> STATUS_VIEW_CHANGE \<or> dvc_view msg > view s0
                  then StartViewChange c (dvc_view msg) s0 else s0)
        in assert_r (nassert c) (GetLeaderIndex (configuration c) (dvc_view msg) = replicaIdx c)
          (let (msgs, q) = QS_AddAndCheckForQuorum (dvc_view msg) (int_of_u32 (dvc_replicaIdx msg)) msg
                             (doViewChangeQuorum s1);
               s2 = s1\<lparr>doViewChangeQuorum := q\<rparr>
           in case msgs of None \<Rightarrow> Inr s2 | Some ms \<Rightarrow> BecomeLeader c msg ms s2))"

definition HandleStartView ::
  "'app vr_env \<Rightarrow> TransportAddress \<Rightarrow> StartViewMessage \<Rightarrow> 'app vr_replica \<Rightarrow> 'app vr_replica result" where
  "HandleStartView c remote msg s0 =
     (if sv_view msg < view s0 then Inr s0
      else if sv_view msg = view s0 \<and> status s0 \<noteq> STATUS_VIEW_CHANGE then Inr s0
      else assert_r (nassert c) (GetLeaderIndex (configuration c) (sv_view msg) \<noteq> replicaIdx c)
       (bind_r
         (case sv_entries msg of
            [] \<Rightarrow>
              assert_r (nassert c) (sv_lastCommitted msg = lastCommitted s0)
                (assert_r (nassert c) (sv_lastOp msg = sv_lastCommitted msg) (Inr s0))
          | e # _ \<Rightarrow>
              if me_opnum e > lastCommitted s0 + 1 then Inl Panicked
              else bind_r (RemoveAfter c (sv_lastOp msg + 1) (vlog s0)) (\<lambda>l.
                bind_r (Install c (sv_entries msg) l) (\<lambda>l'. Inr (s0\<lparr>vlog := l'\<rparr>))))
         (\<lambda>s1.
           let s2 = EnterView c (sv_view msg) s1;
               oldLastOp = lastOp s2;
               s3 = s2\<lparr>lastOp := sv_lastOp msg\<rparr>
           in assert_r (nassert c) (\<not> AmLeader c s3)
             (bind_r (CommitUpTo c (sv_lastCommitted msg) s3) (SendPrepareOKs c oldLastOp)))))"

section \<open>Recovery\<close>

definition HandleRecovery ::
  "'app vr_env \<Rightarrow> TransportAddress \<Rightarrow> RecoveryMessage \<Rightarrow> 'app vr_replica \<Rightarrow> 'app vr_replica result" where
  "HandleRecovery c remote msg s =
     (if status s \<noteq> STATUS_NORMAL then Inr s
      else if AmLeader c s then
        bind_r (Dump c 0 (vlog s)) (\<lambda>es.
          Inr (send (SendMessage remote (MRecoveryResponse
            (RecoveryResponseMessage (view s) (r_nonce msg) es (lastOp s) (lastCommitted s) (my_idx c)))) s))
      else
        Inr (send (SendMessage remote (MRecoveryResponse
          (RecoveryResponseMessage (view s) (r_nonce msg) [] 0 0 (my_idx c)))) s))"

definition HandleRecoveryResponse ::
  "'app vr_env \<Rightarrow> TransportAddress \<Rightarrow> RecoveryResponseMessage \<Rightarrow> 'app vr_replica
    \<Rightarrow> 'app vr_replica result" where
  "HandleRecoveryResponse c remote msg s0 =
     (if status s0 \<noteq> STATUS_RECOVERING then Inr s0
      else if rr_nonce msg \<noteq> recoveryNonce s0 then Inr s0
      else
        let (msgs, q) = QS_AddAndCheckForQuorum (rr_nonce msg) (int_of_u32 (rr_replicaIdx msg)) msg
                          (recoveryResponseQuorum s0);
            s = s0\<lparr>recoveryResponseQuorum := q\<rparr>
        in case msgs of
             None \<Rightarrow> Inr s
           | Some ms \<Rightarrow>
               let highestView = foldl max 0 (map (rr_view \<circ> snd) ms);
                   leader = GetLeaderIndex (configuration c) highestView
               in assert_r (nassert c) (leader \<noteq> replicaIdx c)
                 (case map_of ms leader of
                    None \<Rightarrow> Inr s
                  | Some resp \<Rightarrow>
                      if rr_view resp \<noteq> highestView then Inr s
                      else bind_r (Install c (rr_entries resp) (vlog s)) (\<lambda>l.
                        let s1 = EnterView c (rr_view resp) (s\<lparr>vlog := l\<rparr>);
                            s2 = s1\<lparr>lastOp := rr_lastOp resp\<rparr>
                        in CommitUpTo c (rr_lastCommitted resp) s2)))"

section \<open>Dispatch, timers, start-up\<close>

fun ReceiveMessage ::
  "'app vr_env \<Rightarrow> TransportAddress \<Rightarrow> ToReplicaMessage \<Rightarrow> 'app vr_replica \<Rightarrow> 'app vr_replica result" where
  "ReceiveMessage c remote (MRequest m) s = HandleRequest c remote m s"
| "ReceiveMessage c remote (MUnloggedRequest m) s = HandleUnloggedRequest c remote m s"
| "ReceiveMessage c remote (MPrepare m) s = HandlePrepare c remote m s"
| "ReceiveMessage c remote (MPrepareOK m) s = HandlePrepareOK c remote m s"
| "ReceiveMessage c remote (MCommit m) s = HandleCommit c remote m s"
| "ReceiveMessage c remote (MRequestStateTransfer m) s = HandleRequestStateTransfer c remote m s"
| "ReceiveMessage c remote (MStateTransfer m) s = HandleStateTransfer c remote m s"
| "ReceiveMessage c remote (MStartViewChange m) s = HandleStartViewChange c remote m s"
| "ReceiveMessage c remote (MDoViewChange m) s = HandleDoViewChange c remote m s"
| "ReceiveMessage c remote (MStartView m) s = HandleStartView c remote m s"
| "ReceiveMessage c remote (MRecovery m) s = HandleRecovery c remote m s"
| "ReceiveMessage c remote (MRecoveryResponse m) s = HandleRecoveryResponse c remote m s"
| "ReceiveMessage c remote ReplicaMsgNotSet s = Inl Panicked"

text \<open>The six timers and their callbacks; a timer that is not armed does not fire.\<close>

datatype vr_timer =
    ViewChangeTimer | NullCommitTimer | StateTransferTimer | ResendPrepareTimer
  | CloseBatchTimer | RecoveryTimer

fun timer_armed :: "vr_timer \<Rightarrow> 'app vr_replica \<Rightarrow> bool" where
  "timer_armed ViewChangeTimer s = armed (viewChangeTimeout s)"
| "timer_armed NullCommitTimer s = armed (nullCommitTimeout s)"
| "timer_armed StateTransferTimer s = armed (stateTransferTimeout s)"
| "timer_armed ResendPrepareTimer s = armed (resendPrepareTimeout s)"
| "timer_armed CloseBatchTimer s = armed (closeBatchTimeout s)"
| "timer_armed RecoveryTimer s = armed (recoveryTimeout s)"

fun timer_callback :: "'app vr_env \<Rightarrow> vr_timer \<Rightarrow> 'app vr_replica \<Rightarrow> 'app vr_replica result" where
  "timer_callback c ViewChangeTimer s = Inr (StartViewChange c (view s + 1) s)"
| "timer_callback c NullCommitTimer s = SendNullCommit c s"
| "timer_callback c StateTransferTimer s =
     Inr (s\<lparr>lastRequestStateTransferView := 0, lastRequestStateTransferOpnum := 0\<rparr>)"
| "timer_callback c ResendPrepareTimer s = ResendPrepare c s"
| "timer_callback c CloseBatchTimer s = CloseBatch c s"
| "timer_callback c RecoveryTimer s = Inr (SendRecoveryMessages c s)"

text \<open>The constructor; \<open>nonce\<close> is what \<open>GenerateNonce\<close> draws and \<open>a\<close> the application's state.\<close>

definition VRReplica_new :: "'app vr_env \<Rightarrow> bool \<Rightarrow> u64 \<Rightarrow> 'app \<Rightarrow> 'app vr_replica result" where
  "VRReplica_new c initialize nonce a =
     bind_r (mk_Log c False 1 EMPTY_HASH) (\<lambda>l.
       let q = QuorumSize (configuration c);
           s = \<lparr>status = STATUS_NORMAL, view = 0, lastCommitted = 0, lastOp = 0,
                lastRequestStateTransferView = 0, lastRequestStateTransferOpnum = 0,
                recoveryNonce = 0, pendingPrepares = [], lastPrepare = ReplicaMsgNotSet,
                lastBatchEnd = 0, batchComplete = True, vlog = l,
                clientAddresses = Map.empty, clientTable = Map.empty,
                prepareOKQuorum = mk_QuorumSet (q - 1), startViewChangeQuorum = mk_QuorumSet (q - 1),
                doViewChangeQuorum = mk_QuorumSet (q - 1), recoveryResponseQuorum = mk_QuorumSet q,
                viewChangeTimeout = mk_Timeout 5000, nullCommitTimeout = mk_Timeout 1000,
                stateTransferTimeout = Timeout_Start (mk_Timeout 1000),
                resendPrepareTimeout = mk_Timeout 500, closeBatchTimeout = mk_Timeout 300,
                recoveryTimeout = mk_Timeout 5000, app = a, sent = []\<rparr>
       in Inr (if initialize then
                 (if AmLeader c s
                  then s\<lparr>nullCommitTimeout := Timeout_Start (nullCommitTimeout s)\<rparr>
                  else s\<lparr>viewChangeTimeout := Timeout_Start (viewChangeTimeout s)\<rparr>)
               else
                 let s1 = SendRecoveryMessages c (s\<lparr>status := STATUS_RECOVERING, recoveryNonce := nonce\<rparr>)
                 in s1\<lparr>recoveryTimeout := Timeout_Start (recoveryTimeout s1)\<rparr>))"

end
