(* ===== verification/VRInvariants.thy ===== *)
theory VRInvariants
  imports VRReplica LogRuns
begin

text \<open>
  The invariant of a Viewstamped Replication replica and what one event does to it.
  \<open>vr_inv\<close> says that the log, \<open>lastOp\<close> and \<open>lastCommitted\<close> agree; \<open>advances s s'\<close> that
  \<open>s'\<close> keeps the invariant, that view and commit point have not gone back, that no committed
  entry has changed, and that the application has been called for exactly the operations
  committed in between, in order, once each. Every handler is shown to advance the state.
\<close>

section \<open>The invariant\<close>

definition executed :: "vr_effect list \<Rightarrow> (opnum_t \<times> bytes) list" where
  "executed es = concat (map (\<lambda>e. case e of Executed n r \<Rightarrow> [(n, r)] | _ \<Rightarrow> []) es)"

definition op_bytes :: "Log \<Rightarrow> nat \<Rightarrow> bytes" where
  "op_bytes l n = (case entry_op l n of None \<Rightarrow> '''' | Some (_, r) \<Rightarrow> op r)"

definition entry_states :: "Log \<Rightarrow> nat \<Rightarrow> bool" where
  "entry_states l k \<longleftrightarrow> (\<forall>n e. log_num_at l n = Some e \<longrightarrow>
     state e = (if n \<le> k then LOG_STATE_COMMITTED else LOG_STATE_PREPARED))"

definition quorums_ok :: "'app vr_replica \<Rightarrow> bool" where
  "quorums_ok s \<longleftrightarrow> QS_ok (prepareOKQuorum s) \<and> QS_ok (startViewChangeQuorum s) \<and>
     QS_ok (doViewChangeQuorum s) \<and> QS_ok (recoveryResponseQuorum s)"

definition vr_inv :: "'app vr_replica \<Rightarrow> bool" where
  "vr_inv s \<longleftrightarrow>
     log_ok (vlog s) \<and> start (vlog s) = 1 \<and> unat (lastOp s) = length (entries (vlog s)) \<and>
     lastCommitted s \<le> lastOp s \<and> entry_states (vlog s) (unat (lastCommitted s)) \<and>
     (status s = STATUS_RECOVERING \<longrightarrow> view s = 0) \<and> quorums_ok s"

definition committed_kept :: "'app vr_replica \<Rightarrow> 'app vr_replica \<Rightarrow> bool" where
  "committed_kept s s' \<longleftrightarrow>
     (\<forall>n. n \<le> unat (lastCommitted s) \<longrightarrow> entry_op (vlog s') n = entry_op (vlog s) n)"

definition executed_between :: "'app vr_replica \<Rightarrow> 'app vr_replica \<Rightarrow> bool" where
  "executed_between s s' \<longleftrightarrow>
     executed (sent s') = executed (sent s) @
       map (\<lambda>n. (of_nat n, op_bytes (vlog s') n))
         [Suc (unat (lastCommitted s))..<Suc (unat (lastCommitted s'))]"

definition advances :: "'app vr_replica \<Rightarrow> 'app vr_replica \<Rightarrow> bool" where
  "advances s s' \<longleftrightarrow> vr_inv s' \<and> view s \<le> view s' \<and> lastCommitted s \<le> lastCommitted s' \<and>
     committed_kept s s' \<and> executed_between s s'"

lemma executed_simps [simp]:
  "executed [] = []"
  "executed (es @ fs) = executed es @ executed fs"
  "executed [Executed n r] = [(n, r)]"
  "executed [SendMessageToAll m] = []"
  "executed [SendMessageToReplica i m] = []"
  "executed [SendMessage a m] = []"
  "executed [SendToClient a m'] = []"
  by (simp_all add: executed_def)

lemma executed_notify [simp]: "executed (sent (notify_client cid m s)) = executed (sent s)"
  by (simp add: notify_client_def split: option.split)

lemma quorums_ok_simps [simp]:
  "quorums_ok (send e s) = quorums_ok s"
  "quorums_ok (notify_client cid m s) = quorums_ok s"
  "quorums_ok (s\<lparr>vlog := l\<rparr>) = quorums_ok s"
  "quorums_ok (s\<lparr>app := a\<rparr>) = quorums_ok s"
  "quorums_ok (s\<lparr>sent := es\<rparr>) = quorums_ok s"
  "quorums_ok (s\<lparr>lastCommitted := n\<rparr>) = quorums_ok s"
  "quorums_ok (s\<lparr>lastOp := n\<rparr>) = quorums_ok s"
  "quorums_ok (s\<lparr>clientTable := t\<rparr>) = quorums_ok s"
  "quorums_ok (s\<lparr>clientAddresses := ca\<rparr>) = quorums_ok s"
  by (simp_all add: quorums_ok_def send_def notify_client_def split: option.split)

lemma advances_inv: "advances s s' \<Longrightarrow> vr_inv s'"
  by (simp add: advances_def)

lemma advances_refl: "vr_inv s \<Longrightarrow> advances s s"
  by (simp add: advances_def committed_kept_def executed_between_def)

lemma advances_trans:
  assumes 1: "advances s t" and 2: "advances t u"
  shows "advances s u"
proof -
  have le: "unat (lastCommitted s) \<le> unat (lastCommitted t)" "unat (lastCommitted t) \<le> unat (lastCommitted u)"
    using 1 2 by (auto simp: advances_def word_le_nat_alt)
  have kept: "op_bytes (vlog u) n = op_bytes (vlog t) n" if "n \<le> unat (lastCommitted t)" for n
    using 2 that by (simp add: advances_def committed_kept_def op_bytes_def)
  have "[Suc (unat (lastCommitted s))..<Suc (unat (lastCommitted u))] =
      [Suc (unat (lastCommitted s))..<Suc (unat (lastCommitted t))] @
      [Suc (unat (lastCommitted t))..<Suc (unat (lastCommitted u))]"
    using le upt_add_eq_append [of "Suc (unat (lastCommitted s))" "Suc (unat (lastCommitted t))"
        "unat (lastCommitted u) - unat (lastCommitted t)"] by simp
  moreover have "map (\<lambda>n. (of_nat n, op_bytes (vlog t) n))
        [Suc (unat (lastCommitted s))..<Suc (unat (lastCommitted t))] =
      map (\<lambda>n. (of_nat n :: u64, op_bytes (vlog u) n))
        [Suc (unat (lastCommitted s))..<Suc (unat (lastCommitted t))]"
    using kept by auto
  ultimately have "executed_between s u"
    using 1 2 by (simp add: advances_def executed_between_def del: upt_Suc)
  moreover have "committed_kept s u"
    using 1 2 le by (auto simp: advances_def committed_kept_def)
  ultimately show ?thesis
    using 1 2 by (auto simp: advances_def)
qed

text \<open>Changes of other fields advance the state trivially.\<close>

lemma advances_frame:
  assumes "advances s t"
    and "view u = view t" "status u = status t \<or> status u = STATUS_NORMAL \<or> status u = STATUS_VIEW_CHANGE"
    and "lastCommitted u = lastCommitted t" "lastOp u = lastOp t"
    and "vlog u = vlog t" "executed (sent u) = executed (sent t)" "quorums_ok u"
  shows "advances s u"
  using assms by (auto simp: advances_def vr_inv_def committed_kept_def executed_between_def)

text \<open>A post-condition rule: run one operation, then the rest from any state it advances to.\<close>

lemma post_advances_bind:
  assumes "post (m s) (advances s)" and "\<And>t. advances s t \<Longrightarrow> post (f t) (advances t)"
  shows "post (bind_r (m s) f) (advances s)"
  unfolding post_bind
  by (rule post_mono [OF assms(1)]) (blast intro: post_mono [OF assms(2)] advances_trans)

section \<open>Growing and cutting the log\<close>

text \<open>
  \<open>evolves s lo l\<close>: \<open>l\<close> with last operation \<open>lo\<close> can replace the log of \<open>s\<close>.
\<close>

definition evolves :: "'app vr_replica \<Rightarrow> opnum_t \<Rightarrow> Log \<Rightarrow> bool" where
  "evolves s lo l \<longleftrightarrow>
     log_ok l \<and> start l = 1 \<and> unat lo = length (entries l) \<and> lastCommitted s \<le> lo \<and>
     entry_states l (unat (lastCommitted s)) \<and>
     (\<forall>n. n \<le> unat (lastCommitted s) \<longrightarrow> entry_op l n = entry_op (vlog s) n)"

lemma evolves_refl: "vr_inv s \<Longrightarrow> evolves s (lastOp s) (vlog s)"
  by (simp add: evolves_def vr_inv_def)

lemma evolves_advances:
  "vr_inv s \<Longrightarrow> evolves s lo l \<Longrightarrow> advances s (s\<lparr>lastOp := lo, vlog := l\<rparr>)"
  by (simp add: evolves_def vr_inv_def advances_def committed_kept_def executed_between_def
      quorums_ok_def)

lemma log_top_1: "start l = 1 \<Longrightarrow> log_top l = Suc (length (entries l))"
  by (simp add: log_top_def)

lemma evolves_top: "evolves s lo l \<Longrightarrow> log_top l = Suc (unat lo)"
  by (simp add: evolves_def log_top_1)

lemma evolves_next:
  assumes "evolves s lo l"
  shows "LastOpnum l = lo" and "unat (lo + 1) = Suc (unat lo)"
proof -
  have ok: "log_ok l" using assms by (simp add: evolves_def)
  show "LastOpnum l = lo"
    using unat_LastOpnum [OF ok] evolves_top [OF assms] by (simp add: word_unat_eq_iff)
  then show "unat (lo + 1) = Suc (unat lo)"
    using unat_LastOpnum_Suc [OF ok] evolves_top [OF assms] by simp
qed

lemma evolves_append:
  assumes ev: "evolves s lo l" and num: "vs_opnum vs = lo + 1"
  shows "post (Append c (mk_LogEntry vs LOG_STATE_PREPARED req) l) (evolves s (lo + 1))"
proof -
  have ok: "log_ok l" using ev by (simp add: evolves_def)
  let ?e = "mk_LogEntry vs LOG_STATE_PREPARED req"
  have "unat (vs_opnum (viewstamp ?e)) = log_top l"
    using num evolves_next [OF ev] evolves_top [OF ev] by (simp add: mk_LogEntry_def)
  from numbered_append [OF ok this, of c] show ?thesis
  proof (rule post_mono, elim conjE exE)
    fix l' e' assume l': "log_ok l'" "unat (start l') = unat (start l)" "log_top l' = Suc (log_top l)"
      "\<forall>n. n \<noteq> log_top l \<longrightarrow> log_num_at l' n = log_num_at l n"
      "log_num_at l' (log_top l) = Some e'" "same_entry ?e e'"
    have st: "start l' = 1" using l'(2) ev by (simp add: evolves_def word_unat_eq_iff)
    have lc: "unat (lastCommitted s) < log_top l"
      using ev evolves_top [OF ev] by (simp add: evolves_def word_le_nat_alt)
    have "entry_states l' (unat (lastCommitted s))"
      unfolding entry_states_def
    proof (intro allI impI)
      fix n e assume e: "log_num_at l' n = Some e"
      show "state e = (if n \<le> unat (lastCommitted s) then LOG_STATE_COMMITTED else LOG_STATE_PREPARED)"
      proof (cases "n = log_top l")
        case True
        with e l'(5,6) lc show ?thesis by (auto simp: same_entry_def mk_LogEntry_def)
      next
        case False
        with e l'(4) ev show ?thesis by (simp add: evolves_def entry_states_def)
      qed
    qed
    moreover have "unat (lo + 1) = length (entries l')"
      using l'(3) evolves_next(2) [OF ev] evolves_top [OF ev] by (simp add: log_top_1 [OF st])
    ultimately show "evolves s (lo + 1) l'"
      using ev l' lc st evolves_next(2) [OF ev]
      by (auto simp: evolves_def entry_op_def word_le_nat_alt)
  qed
qed

lemma evolves_cut:
  assumes ev: "evolves s lo l" and above: "lastCommitted s < opn"
  shows "returns (RemoveAfter c opn l) (\<lambda>l'.
     evolves s (if opn \<le> lo then opn - 1 else lo) l')"
proof -
  have ok: "log_ok l" and st: "start l = 1" using ev by (auto simp: evolves_def)
  have "start l \<le> opn"
    using above by (simp add: st word_le_nat_alt word_less_nat_alt)
  then have "unat (start l) \<le> unat opn" and "unat opn < 2 ^ 64"
    using unsigned_less [of opn] by (simp_all add: word_le_nat_alt)
  from numbered_cut [OF ok this, of c]
  have cut: "returns (RemoveAfter c opn l) (\<lambda>l'. log_ok l' \<and> unat (start l') = unat (start l) \<and>
      log_top l' = min (unat opn) (log_top l) \<and>
      (\<forall>k. log_num_at l' k = (if k < unat opn then log_num_at l k else None)))"
    by simp
  have u1: "unat (opn - 1) = unat opn - 1"
  proof -
    have "1 \<le> opn" using above by (simp add: word_le_nat_alt word_less_nat_alt)
    then show ?thesis by (simp add: unat_diff)
  qed
  show ?thesis
  proof (rule returns_mono [OF cut], elim conjE)
    fix l' assume l': "log_ok l'" "unat (start l') = unat (start l)"
      "log_top l' = min (unat opn) (log_top l)"
      "\<forall>k. log_num_at l' k = (if k < unat opn then log_num_at l k else None)"
    have st': "start l' = 1" using l'(2) st by (simp add: word_unat_eq_iff)
    have len: "length (entries l') = log_top l' - 1"
      by (simp add: log_top_1 [OF st'])
    have "entry_states l' (unat (lastCommitted s))"
      using ev l'(4) by (auto simp: evolves_def entry_states_def)
    moreover have "entry_op l' n = entry_op (vlog s) n" if "n \<le> unat (lastCommitted s)" for n
      using ev l'(4) above that by (simp add: evolves_def entry_op_def word_less_nat_alt)
    ultimately show "evolves s (if opn \<le> lo then opn - 1 else lo) l'"
      using ev l'(1,3) st' len above u1 evolves_top [OF ev]
      by (auto simp: evolves_def word_le_nat_alt word_less_nat_alt)
  qed
qed

section \<open>Committing\<close>

lemma CommitNext_returned:
  assumes "CommitNext c s = Inr s'" and "log_ok (vlog s)"
  shows "\<exists>e. log_num_at (vlog s) (unat (lastCommitted s + 1)) = Some e \<and>
     vlog s' = update_entry (lastCommitted s + 1) (\<lambda>e. e\<lparr>state := LOG_STATE_COMMITTED\<rparr>) (vlog s) \<and>
     executed (sent s') = executed (sent s) @ [(lastCommitted s + 1, op (request e))] \<and>
     lastCommitted s' = lastCommitted s + 1 \<and> lastOp s' = lastOp s \<and> view s' = view s \<and>
     status s' = status s \<and> prepareOKQuorum s' = prepareOKQuorum s \<and> quorums_ok s' = quorums_ok s \<and>
     pendingPrepares s' = pendingPrepares s \<and> lastBatchEnd s' = lastBatchEnd s"
proof (cases "log_num_at (vlog s) (unat (lastCommitted s + 1))")
  case None
  with assms show ?thesis by (simp add: CommitNext_def Find_ok log_at_num)
next
  case (Some e)
  obtain res a where ex: "Execute (app_code c) (lastCommitted s + 1) (request e)
      (Some (AmLeader c (s\<lparr>lastCommitted := lastCommitted s + 1\<rparr>))) (app s) = (res, a)"
    by fastforce
  have at: "log_at (vlog s) (lastCommitted s + 1) = Some e"
    using Some by (simp add: log_at_num)
  let ?s = "\<lambda>ct. s\<lparr>lastCommitted := lastCommitted s + 1, app := a,
      sent := sent s @ [Executed (lastCommitted s + 1) (op (request e))],
      vlog := update_entry (lastCommitted s + 1) (\<lambda>e. e\<lparr>state := LOG_STATE_COMMITTED\<rparr>) (vlog s),
      clientTable := ct\<rparr>"
  have "\<exists>ct m. s' = notify_client (clientid (request e)) m (?s ct)"
    using assms(1) unfolding CommitNext_def
    by (simp add: Let_def Find_ok [OF assms(2)] SetStatus_ok [OF assms(2)] at ex send_def del: fun_upd_apply)
      (intro exI, erule sym)
  then obtain ct m where "s' = notify_client (clientid (request e)) m (?s ct)" by blast
  with Some show ?thesis by simp
qed

lemma CommitNext_advances:
  assumes inv: "vr_inv s"
  shows "post (CommitNext c s) (advances s)"
proof (rule postI)
  fix s' assume run: "CommitNext c s = Inr s'"
  have ok: "log_ok (vlog s)" and st: "start (vlog s) = 1" using inv by (auto simp: vr_inv_def)
  from CommitNext_returned [OF run ok] obtain e where
    e: "log_num_at (vlog s) (unat (lastCommitted s + 1)) = Some e" and
    s': "vlog s' = update_entry (lastCommitted s + 1) (\<lambda>e. e\<lparr>state := LOG_STATE_COMMITTED\<rparr>) (vlog s)"
      "executed (sent s') = executed (sent s) @ [(lastCommitted s + 1, op (request e))]"
      "lastCommitted s' = lastCommitted s + 1" "lastOp s' = lastOp s" "view s' = view s"
      "status s' = status s" "quorums_ok s' = quorums_ok s" by blast
  let ?n = "Suc (unat (lastCommitted s))"
  have "unat (lastCommitted s) + 1 < 2 ^ 64"
    using inv log_ok_bound [OF ok] by (simp add: vr_inv_def word_le_nat_alt log_top_1)
  then have n: "unat (lastCommitted s + 1) = ?n" by (intro unat_succ_bound) simp
  note upd = update_entry_num_at [OF e, of "\<lambda>e. e\<lparr>state := LOG_STATE_COMMITTED\<rparr>"]
  note ok' = update_entry_ok [OF ok, of "lastCommitted s + 1" e "\<lambda>e. e\<lparr>state := LOG_STATE_COMMITTED\<rparr>"]
  have top: "?n < log_top (vlog s)" using e n by (auto simp: log_num_at_def split: if_splits)
  let ?l = "update_entry (lastCommitted s + 1) (\<lambda>e. e\<lparr>state := LOG_STATE_COMMITTED\<rparr>) (vlog s)"
  have at: "log_num_at ?l = (log_num_at (vlog s))(?n \<mapsto> e\<lparr>state := LOG_STATE_COMMITTED\<rparr>)"
    using upd n by simp
  have e': "log_num_at (vlog s) ?n = Some e" using e n by simp
  have st': "entry_states ?l ?n"
    using inv by (auto simp: at vr_inv_def entry_states_def)
  have "log_ok ?l" using ok' e by (simp add: log_at_num)
  moreover have "start ?l = 1" "length (entries ?l) = length (entries (vlog s))"
    using st by (simp_all add: update_entry_def Let_def)
  moreover have "lastCommitted s + 1 \<le> lastOp s"
    using top n inv by (simp add: word_le_nat_alt log_top_1 [OF st] vr_inv_def)
  ultimately have "vr_inv s'"
    using inv st' n unfolding vr_inv_def s' by simp
  moreover have "committed_kept s s'"
    unfolding committed_kept_def s' entry_op_def by (simp add: at)
  moreover have "executed_between s s'"
    unfolding executed_between_def s' op_bytes_def entry_op_def n by (simp add: at)
  ultimately show "advances s s'"
    using s' n by (simp add: advances_def word_le_nat_alt)
qed

lemma CommitUpTo_advances: "vr_inv s \<Longrightarrow> post (CommitUpTo c u s) (advances s)"
proof (induction c u s rule: CommitUpTo.induct)
  case (1 c u s)
  show ?case
  proof (cases "lastCommitted s < u")
    case False
    then show ?thesis using "1.prems" by (subst CommitUpTo.simps) (simp add: advances_refl)
  next
    case True
    have "post (bind_r (CommitNext c s) (CommitUpTo c u)) (advances s)"
      unfolding post_bind
    proof (rule postI)
      fix t assume run: "CommitNext c s = Inr t"
      with CommitNext_advances [OF "1.prems", of c] have t: "advances s t" by simp
      with "1.IH" [OF True run] have "post (CommitUpTo c u t) (advances t)"
        by (blast dest: advances_inv)
      then show "post (CommitUpTo c u t) (advances s)"
        by (rule post_mono) (rule advances_trans [OF t])
    qed
    with True show ?thesis by (subst CommitUpTo.simps) simp
  qed
qed

end
