(* ===== verification/VRSteps.thy ===== *)
theory VRSteps
  imports VRInvariants
begin

text \<open>
  One lemma per operation and handler of \<open>VRReplica\<close>: run from a state \<open>t\<close> that \<open>s\<close> has
  advanced to, it returns only states that \<open>s\<close> has advanced to. The handlers that install
  a log from a message need the message to fit (\<open>entries_fit\<close>).
\<close>

section \<open>Fields that do not matter\<close>

lemma vr_inv_fields [simp]:
  "vr_inv (s\<lparr>viewChangeTimeout := x\<rparr>) = vr_inv s"
  "vr_inv (s\<lparr>nullCommitTimeout := x\<rparr>) = vr_inv s"
  "vr_inv (s\<lparr>resendPrepareTimeout := x\<rparr>) = vr_inv s"
  "vr_inv (s\<lparr>closeBatchTimeout := x\<rparr>) = vr_inv s"
  "vr_inv (s\<lparr>recoveryTimeout := x\<rparr>) = vr_inv s"
  "vr_inv (s\<lparr>lastRequestStateTransferView := v\<rparr>) = vr_inv s"
  "vr_inv (s\<lparr>lastRequestStateTransferOpnum := n\<rparr>) = vr_inv s"
  "vr_inv (s\<lparr>pendingPrepares := ps\<rparr>) = vr_inv s"
  "vr_inv (s\<lparr>lastPrepare := m\<rparr>) = vr_inv s"
  "vr_inv (s\<lparr>lastBatchEnd := n\<rparr>) = vr_inv s"
  "vr_inv (s\<lparr>batchComplete := b\<rparr>) = vr_inv s"
  "vr_inv (s\<lparr>clientAddresses := ca\<rparr>) = vr_inv s"
  "vr_inv (s\<lparr>clientTable := ct\<rparr>) = vr_inv s"
  "vr_inv (s\<lparr>app := a\<rparr>) = vr_inv s"
  "vr_inv (s\<lparr>sent := es\<rparr>) = vr_inv s"
  "vr_inv (send e s) = vr_inv s"
  "vr_inv (notify_client cid m' s) = vr_inv s"
  by (simp_all add: vr_inv_def quorums_ok_def send_def notify_client_def split: option.split)

lemma advances_fields [simp]:
  "advances s (t\<lparr>viewChangeTimeout := x\<rparr>) = advances s t"
  "advances s (t\<lparr>nullCommitTimeout := x\<rparr>) = advances s t"
  "advances s (t\<lparr>resendPrepareTimeout := x\<rparr>) = advances s t"
  "advances s (t\<lparr>closeBatchTimeout := x\<rparr>) = advances s t"
  "advances s (t\<lparr>recoveryTimeout := x\<rparr>) = advances s t"
  "advances s (t\<lparr>lastRequestStateTransferView := v\<rparr>) = advances s t"
  "advances s (t\<lparr>lastRequestStateTransferOpnum := n\<rparr>) = advances s t"
  "advances s (t\<lparr>pendingPrepares := ps\<rparr>) = advances s t"
  "advances s (t\<lparr>lastPrepare := m\<rparr>) = advances s t"
  "advances s (t\<lparr>lastBatchEnd := n\<rparr>) = advances s t"
  "advances s (t\<lparr>batchComplete := b\<rparr>) = advances s t"
  "advances s (t\<lparr>clientAddresses := ca\<rparr>) = advances s t"
  "advances s (t\<lparr>clientTable := ct\<rparr>) = advances s t"
  "advances s (t\<lparr>app := a\<rparr>) = advances s t"
  "advances s (notify_client cid m' t) = advances s t"
  by (simp_all add: advances_def committed_kept_def executed_between_def)

lemma advances_send [simp]: "executed [e] = [] \<Longrightarrow> advances s (send e t) = advances s t"
  by (simp add: advances_def committed_kept_def executed_between_def)

lemma advances_sent [simp]:
  "executed [e] = [] \<Longrightarrow> advances s (t\<lparr>sent := sent t @ [e]\<rparr>) = advances s t"
  by (simp add: advances_def committed_kept_def executed_between_def)

lemma advances_quorums:
  "advances s t \<Longrightarrow> QS_ok q1 \<Longrightarrow> advances s (t\<lparr>prepareOKQuorum := q1\<rparr>)"
  "advances s t \<Longrightarrow> QS_ok q2 \<Longrightarrow> advances s (t\<lparr>startViewChangeQuorum := q2\<rparr>)"
  "advances s t \<Longrightarrow> QS_ok q3 \<Longrightarrow> advances s (t\<lparr>doViewChangeQuorum := q3\<rparr>)"
  "advances s t \<Longrightarrow> QS_ok q4 \<Longrightarrow> advances s (t\<lparr>recoveryResponseQuorum := q4\<rparr>)"
  by (simp_all add: advances_def vr_inv_def committed_kept_def executed_between_def quorums_ok_def)

text \<open>A step that changes the log: what has to be shown of the state \<open>u\<close> after it.\<close>

lemma advances_log:
  assumes "advances s t" and "evolves t (lastOp u) (vlog u)"
    and "view t \<le> view u"
    and "status u \<noteq> STATUS_RECOVERING \<or> status u = status t \<and> view u = view t"
    and "lastCommitted u = lastCommitted t"
    and "executed (sent u) = executed (sent t)" "quorums_ok u"
  shows "advances s u"
proof (rule advances_trans [OF assms(1)])
  show "advances t u"
    using assms
    by (auto simp: evolves_def advances_def vr_inv_def committed_kept_def executed_between_def)
qed

lemma advances_evolves: "advances s t \<Longrightarrow> evolves t (lastOp t) (vlog t)"
  by (simp add: advances_def evolves_refl)

lemma advances_quorums_ok: "advances s t \<Longrightarrow> quorums_ok t"
  by (simp add: advances_def vr_inv_def)

lemma post_CommitUpTo: "advances s t \<Longrightarrow> post (CommitUpTo c u t) (advances s)"
  by (rule post_mono [OF CommitUpTo_advances]) (auto dest: advances_inv intro: advances_trans)

section \<open>Operations that leave the log alone\<close>

lemma advances_RequestStateTransfer [simp]: "advances s (RequestStateTransfer t) = advances s t"
  by (simp add: RequestStateTransfer_def Let_def)

lemma advances_send_leader [simp]: "advances s (send_leader c (MPrepareOK m) t) = advances s t"
  by (simp add: send_leader_def)

lemma post_UpdateClientTable:
  "advances s t \<Longrightarrow> post (UpdateClientTable c req t) (advances s)"
  by (simp add: UpdateClientTable_def wp)

lemma post_SendPrepareOKs:
  assumes t: "advances s t"
  shows "post (SendPrepareOKs c n t) (advances s)"
  unfolding SendPrepareOKs_def
proof (rule post_fold [where I = "advances s", OF t])
  fix i u assume "advances s u"
  then show "post (SendPrepareOK_for c i u) (advances s)"
    by (auto simp: SendPrepareOK_for_def wp intro!: postI
        dest: postD [OF post_UpdateClientTable] split: option.split)
qed

lemma advances_EnterView:
  "advances s t \<Longrightarrow> view t \<le> v \<Longrightarrow> advances s (EnterView c v t)"
  by (rule advances_log [where t = t])
    (auto simp: EnterView_def Let_def quorums_ok_def dest: advances_evolves)

lemma advances_StartViewChange:
  "advances s t \<Longrightarrow> view t \<le> v \<Longrightarrow> advances s (StartViewChange c v t)"
  by (rule advances_log [where t = t])
    (auto simp: StartViewChange_def Let_def quorums_ok_def send_def
      dest: advances_evolves advances_quorums_ok)

lemma post_CloseBatch: "advances s t \<Longrightarrow> post (CloseBatch c t) (advances s)"
  by (auto simp: CloseBatch_def wp intro!: postI)

section \<open>Normal operation\<close>

text \<open>The next operation appended to the log, whatever else changes.\<close>

lemma post_append_op:
  assumes t: "advances s t" and num: "vs_opnum vs = lastOp t + 1"
    and u: "\<And>l. vlog (u l) = l" "\<And>l. lastOp (u l) = lastOp t + 1" "\<And>l. view (u l) = view t"
      "\<And>l. status (u l) = status t" "\<And>l. lastCommitted (u l) = lastCommitted t"
      "\<And>l. executed (sent (u l)) = executed (sent t)" "\<And>l. quorums_ok (u l) = quorums_ok t"
  shows "post (Append c (mk_LogEntry vs LOG_STATE_PREPARED req) (vlog t)) (\<lambda>l. advances s (u l))"
  by (rule post_mono [OF evolves_append [OF advances_evolves [OF t] num, of c req]])
    (rule advances_log [OF t], simp_all add: u advances_quorums_ok [OF t])

lemma post_AcceptRequest:
  assumes t: "advances s t"
  shows "post (AcceptRequest c remote req t) (advances s)"
proof -
  obtain replicate res a where up: "app_LeaderUpcall (app_code c) (lastCommitted t) (op req) (app t)
      = ((replicate, res), a)" by (metis prod.exhaust)
  let ?req = "\<lparr>op = res, clientid = clientid req, clientreqid = clientreqid req, ops = [],
      req_sessnum = None, clientaddr = None\<rparr>"
  let ?u = "\<lambda>l. t\<lparr>app := a, lastOp := lastOp t + 1, vlog := l\<rparr>"
  have app: "post (Append c (mk_LogEntry (viewstamp2 (view t) (lastOp t + 1)) LOG_STATE_PREPARED ?req)
      (vlog t)) (\<lambda>l. advances s (?u l))"
    by (rule post_append_op [OF t]) simp_all
  show ?thesis
  proof (cases replicate)
    case False
    with t up show ?thesis by (simp add: AcceptRequest_def Let_def)
  next
    case True
    with up show ?thesis
      by (simp add: AcceptRequest_def Let_def wp)
        (rule post_mono [OF app], auto intro: post_mono [OF post_CloseBatch])
  qed
qed

lemma post_HandleRequest:
  assumes t: "advances s t"
  shows "post (HandleRequest c remote req t) (advances s)"
proof -
  let ?t = "t\<lparr>clientAddresses := (clientAddresses t)(clientid req \<mapsto> remote)\<rparr>"
  have "post (bind_r (UpdateClientTable c req ?t) (AcceptRequest c remote req)) (advances s)"
    unfolding post_bind
    by (rule post_mono [OF post_UpdateClientTable post_AcceptRequest]) (simp_all add: t)
  with t show ?thesis by (simp add: HandleRequest_def Let_def wp split: option.split)
qed

lemma post_HandleUnloggedRequest:
  "advances s t \<Longrightarrow> post (HandleUnloggedRequest c remote req t) (advances s)"
  by (simp add: HandleUnloggedRequest_def wp)

text \<open>The counter of \<open>HandlePrepare\<close>'s loop never runs ahead of the log.\<close>

lemma post_prepare_loop:
  assumes "advances s t" and "n + 1 \<le> lastOp t + 1"
  shows "post (fold_r (prepare_one c v) reqs (n, t)) (\<lambda>(n', u). advances s u)"
proof -
  have "post (fold_r (prepare_one c v) reqs (n, t)) (\<lambda>(n', u). advances s u \<and> n' + 1 \<le> lastOp u + 1)"
  proof (rule post_fold)
    fix req and st :: "opnum_t \<times> 'a vr_replica"
    obtain m u where st: "st = (m, u)" by (cases st)
    assume "case st of (n', u) \<Rightarrow> advances s u \<and> n' + 1 \<le> lastOp u + 1"
    then have u: "advances s u" and le: "m + 1 \<le> lastOp u + 1" by (simp_all add: st)
    have lo: "unat (lastOp u + 1) = Suc (unat (lastOp u))"
      using evolves_next(2) [OF advances_evolves [OF u]] .
    show "post (prepare_one c v req st) (\<lambda>(n', u). advances s u \<and> n' + 1 \<le> lastOp u + 1)"
    proof (cases "m + 1 \<le> lastOp u")
      case True
      have "lastOp u < lastOp u + 1" using lo by (simp add: word_less_nat_alt)
      with True have "m + 1 < lastOp u + 1" by (rule order.strict_trans1)
      then have "unat (m + 1 + 1) = Suc (unat (m + 1))" by (rule unat_less_succ)
      then have "m + 1 + 1 \<le> lastOp u + 1"
        using True lo by (simp add: word_le_nat_alt del: add.assoc)
      with True u show ?thesis by (simp add: prepare_one_def st)
    next
      case False
      then have eq: "m + 1 = lastOp u + 1"
        using le lo by (simp only: word_unat_eq_iff word_le_nat_alt not_le)
      have "post (Append c (mk_LogEntry (viewstamp2 v (m + 1)) LOG_STATE_PREPARED req) (vlog u))
          (\<lambda>l. advances s (u\<lparr>lastOp := lastOp u + 1, vlog := l\<rparr>))"
        by (rule post_append_op [OF u]) (simp_all add: eq)
      with False show ?thesis
        by (auto simp: prepare_one_def st Let_def wp UpdateClientTable_def eq elim!: post_mono)
    qed
  qed (use assms in simp)
  then show ?thesis by (rule post_mono) auto
qed

lemma post_HandlePrepare:
  assumes t: "advances s t"
  shows "post (HandlePrepare c remote m t) (advances s)"
proof -
  let ?t = "t\<lparr>viewChangeTimeout := Timeout_Reset (viewChangeTimeout t)\<rparr>"
  have "post (fold_r (prepare_one c (p_view m)) (p_request m) (p_batchstart m - 1, ?t))
      (\<lambda>(n, u). advances s u)" if "\<not> lastOp t + 1 < p_batchstart m"
    by (rule post_prepare_loop) (use t that in simp_all)
  with t show ?thesis
    by (auto simp: HandlePrepare_def Let_def wp elim!: post_mono)
qed

lemma post_HandlePrepareOK:
  assumes t: "advances s t"
  shows "post (HandlePrepareOK c remote m t) (advances s)"
proof -
  let ?vs = "viewstamp2 (po_view m) (po_opnum m)"
  let ?u = "t\<lparr>prepareOKQuorum := QS_Add ?vs (int_of_u32 (po_replicaIdx m)) m (prepareOKQuorum t)\<rparr>"
  have u: "advances s ?u"
    using advances_quorums_ok [OF t] by (intro advances_quorums t) (simp add: quorums_ok_def QS_ok_Add)
  from post_CommitUpTo [OF u, of c "po_opnum m"] u t show ?thesis
    by (auto simp: HandlePrepareOK_def QS_AddAndCheckForQuorum_eq Let_def wp
        elim!: post_mono intro!: post_CloseBatch)
qed

lemma post_HandleCommit:
  "advances s t \<Longrightarrow> post (HandleCommit c remote m t) (advances s)"
  by (simp add: HandleCommit_def Let_def wp post_CommitUpTo)

section \<open>State transfer\<close>

lemma post_HandleRequestStateTransfer:
  "advances s t \<Longrightarrow> post (HandleRequestStateTransfer c remote m t) (advances s)"
  by (auto simp: HandleRequestStateTransfer_def wp intro!: postI)

lemma post_transfer_entry:
  assumes chk: "\<not> nassert c" and t: "advances s t"
  shows "post (transfer_entry c e (n, t)) (\<lambda>(n', u). advances s u)"
proof (cases "lastCommitted t < me_opnum e \<and> me_opnum e \<le> lastOp t")
  case True
  then have above: "lastCommitted t < me_opnum e" and lo: "me_opnum e \<le> lastOp t" by auto
  obtain l where cut: "RemoveAfter c (me_opnum e) (vlog t) = Inr l"
      "evolves t (me_opnum e - 1) l"
    using evolves_cut [OF advances_evolves [OF t] above, of c] lo by (auto elim: returnsE)
  have "post (append_new c e l) (evolves t (me_opnum e - 1 + 1))"
    unfolding append_new_def by (rule evolves_append [OF cut(2)]) simp
  then have app: "post (append_new c e l) (evolves t (me_opnum e))" by simp
  have "post (append_new c e l) (\<lambda>l'. advances s (t\<lparr>lastOp := me_opnum e, vlog := l'\<rparr>))"
    by (rule post_mono [OF app], rule advances_log [OF t]) (simp_all add: advances_quorums_ok [OF t])
  then show ?thesis
    using t above lo cut(1) by (auto simp: transfer_entry_def Let_def wp intro!: postI)
next
  case False
  have "post (append_new c e (vlog t)) (\<lambda>l. advances s (t\<lparr>lastOp := lastOp t + 1, vlog := l\<rparr>))"
    if "me_opnum e = lastOp t + 1"
    unfolding append_new_def by (rule post_append_op [OF t]) (simp_all add: that)
  then show ?thesis
    using t False chk by (auto simp: transfer_entry_def Let_def wp)
qed

lemma post_HandleStateTransfer:
  assumes chk: "\<not> nassert c" and t: "advances s t"
  shows "post (HandleStateTransfer c remote m t) (advances s)"
proof -
  have loop: "post (fold_r (transfer_entry c) (st_entries m) (lastOp t, t)) (\<lambda>(n, u). advances s u)"
    by (rule post_fold) (auto simp: t post_transfer_entry [OF chk])
  have pending: "post (fold_r (\<lambda>(r, pm). HandlePrepare c r pm) ps u) (advances s)"
    if "advances s u" for ps u
    by (rule post_fold [where I = "advances s", OF that]) (auto simp: post_HandlePrepare)
  have rest: "post (bind_r (CommitUpTo c (st_opnum m) u) (\<lambda>s3.
        bind_r (SendPrepareOKs c n s3) (\<lambda>s4.
          fold_r (\<lambda>(r, pm). HandlePrepare c r pm) (pendingPrepares s4) (s4\<lparr>pendingPrepares := []\<rparr>))))
      (advances s)" if "advances s u" for n u
    by (rule post_bindI [OF post_CommitUpTo [OF that]], rule post_bindI [OF post_SendPrepareOKs],
        assumption, rule pending, simp)
  have enter: "advances s (if st_view m > view u then EnterView c (st_view m) u else u)"
    if "advances s u" for u
    using that by (simp add: advances_EnterView)
  show ?thesis
  proof (cases "st_view m < view t")
    case False
    then show ?thesis
      unfolding HandleStateTransfer_def Let_def
      by (simp only: if_False) (rule post_bindI [OF loop],
          auto simp: post_assert intro!: rest enter split del: if_split)
  qed (simp add: HandleStateTransfer_def t)
qed

section \<open>Installing a log\<close>

text \<open>
  \<open>entries_fit s lop es\<close>: the entries \<open>es\<close> of a message that ends the log at \<open>lop\<close> are numbered,
  reach back to the committed prefix of \<open>s\<close>, end at \<open>lop\<close>, and agree with the committed prefix.
\<close>

definition entries_fit :: "'app vr_replica \<Rightarrow> opnum_t \<Rightarrow> MsgLogEntry list \<Rightarrow> bool" where
  "entries_fit s lop es \<longleftrightarrow>
     es \<noteq> [] \<and> lastCommitted s < lop + 1 \<and>
     (let n = unat (me_opnum (hd es))
      in 1 \<le> n \<and> n \<le> Suc (unat (lastCommitted s)) \<and> numbered_from n es \<and>
         n + length es = Suc (unat lop) \<and>
         (\<forall>i < length es. n + i \<le> unat (lastCommitted s) \<longrightarrow>
            map_option (\<lambda>e. vs_view (viewstamp e)) (log_num_at (vlog s) (n + i)) = Some (me_view (es ! i))))"

lemma entry_op_view:
  "entry_op l n = entry_op l' n \<Longrightarrow> log_num_at l' n = Some e \<Longrightarrow>
   \<exists>e'. log_num_at l n = Some e' \<and> vs_view (viewstamp e') = vs_view (viewstamp e)"
  by (auto simp: entry_op_def)

lemma evolves_install:
  assumes ev: "evolves s lo l" and short: "lo \<le> lop" and fit: "entries_fit s lop es"
  shows "post (Install c es l) (evolves s lop)"
proof -
  let ?n = "unat (me_opnum (hd es))" and ?k = "unat (lastCommitted s)"
  have ok: "log_ok l" and st: "start l = 1" using ev by (auto simp: evolves_def)
  have n: "1 \<le> ?n" "?n \<le> Suc ?k" "numbered_from ?n es" "?n + length es = Suc (unat lop)"
    using fit by (auto simp: entries_fit_def Let_def)
  have k: "Suc ?k \<le> log_top l"
    using ev evolves_top [OF ev] by (simp add: evolves_def word_le_nat_alt)
  have kept: "entry_op l i = entry_op (vlog s) i" if "i \<le> ?k" for i
    using ev that by (simp add: evolves_def)
  have agree: "agrees_upto j l ?n es" if "j \<le> length es" "?n + j \<le> Suc ?k" for j
    unfolding agrees_upto_def
  proof (intro allI impI)
    fix i assume "i < j"
    then have "i < length es" "?n + i \<le> ?k" using that by auto
    with fit obtain e where "log_num_at (vlog s) (?n + i) = Some e" "vs_view (viewstamp e) = me_view (es ! i)"
      by (auto simp: entries_fit_def Let_def)
    with entry_op_view [OF kept] \<open>?n + i \<le> ?k\<close>
    show "\<exists>e. log_num_at l (?n + i) = Some e \<and> vs_view (viewstamp e) = me_view (es ! i)" by metis
  qed
  have top: "log_top l \<le> Suc (unat lop)"
    using short evolves_top [OF ev] by (simp add: word_le_nat_alt)
  have lc: "lastCommitted s \<le> lop" using ev short by (auto simp: evolves_def)
  have "post (Install c es l) (\<lambda>l'. log_ok l' \<and> start l' = start l \<and>
     (\<exists>k \<le> length es. agrees_upto k l ?n es \<and>
       (if k = length es then l' = l
        else \<not> agrees_upto (Suc k) l ?n es \<and> log_top l' = ?n + length es \<and>
          (\<forall>j < ?n + k. log_num_at l' j = log_num_at l j) \<and>
          (\<forall>i < length es. k \<le> i \<longrightarrow>
             (\<exists>e. log_num_at l' (?n + i) = Some e \<and> same_entry (installed (es ! i)) e)))))"
    by (rule Install_ok [OF ok _ _ n(3)]) (use n k st in auto)
  then show ?thesis
  proof (rule post_mono, elim conjE exE)
    fix l' j assume l': "log_ok l'" "start l' = start l" and j: "j \<le> length es" "agrees_upto j l ?n es"
      and c: "if j = length es then l' = l
        else \<not> agrees_upto (Suc j) l ?n es \<and> log_top l' = ?n + length es \<and>
          (\<forall>i < ?n + j. log_num_at l' i = log_num_at l i) \<and>
          (\<forall>i < length es. j \<le> i \<longrightarrow>
             (\<exists>e. log_num_at l' (?n + i) = Some e \<and> same_entry (installed (es ! i)) e))"
    show "evolves s lop l'"
    proof (cases "j = length es")
      case True
      have "length es > 0" using fit by (simp add: entries_fit_def)
      with j(2) [unfolded agrees_upto_def, rule_format, of "length es - 1"] True
      have "log_num_at l (?n + (length es - 1)) \<noteq> None" by force
      then have "?n + (length es - 1) < log_top l" by (auto simp: log_num_at_def split: if_splits)
      with \<open>length es > 0\<close> n(4) have "unat lop < log_top l" by linarith
      then have "log_top l = Suc (unat lop)" using top by linarith
      then have "unat lop = unat lo" using evolves_top [OF ev] by simp
      with c True ev show ?thesis by (simp add: word_unat_eq_iff [symmetric])
    next
      case False
      then have l'': "log_top l' = Suc (unat lop)" "\<forall>i < ?n + j. log_num_at l' i = log_num_at l i"
          "\<forall>i < length es. j \<le> i \<longrightarrow>
             (\<exists>e. log_num_at l' (?n + i) = Some e \<and> same_entry (installed (es ! i)) e)"
        and stop: "\<not> agrees_upto (Suc j) l ?n es" using c n(4) by auto
      have above: "?k < ?n + j" using stop agree [of "Suc j"] False j(1) by fastforce
      have "entry_states l' ?k"
        unfolding entry_states_def
      proof (intro allI impI)
        fix i e assume e: "log_num_at l' i = Some e"
        show "state e = (if i \<le> ?k then LOG_STATE_COMMITTED else LOG_STATE_PREPARED)"
        proof (cases "i < ?n + j")
          case True
          with e l''(2) ev show ?thesis by (simp add: evolves_def entry_states_def)
        next
          case False
          have "i < Suc (unat lop)" using e l''(1) by (auto simp: log_num_at_def split: if_splits)
          with False n(4) have "i - ?n < length es" "j \<le> i - ?n" "?n + (i - ?n) = i" by auto
          with l''(3) e have "same_entry (installed (es ! (i - ?n))) e" by (metis option.inject)
          with False above show ?thesis by (simp add: same_entry_def installed_def mk_LogEntry_def)
        qed
      qed
      moreover have "entry_op l' i = entry_op (vlog s) i" if "i \<le> ?k" for i
        using l''(2) above kept [OF that] that by (simp add: entry_op_def)
      moreover have "start l' = 1" using l'(2) st by simp
      ultimately show ?thesis
        using l' l''(1) lc by (simp add: evolves_def log_top_1)
    qed
  qed
qed

lemma evolves_replace:
  assumes ev: "evolves s lo l" and fit: "entries_fit s lop es"
  shows "post (bind_r (RemoveAfter c (lop + 1) l) (Install c es)) (evolves s lop)"
proof -
  have "lastCommitted s < lop + 1" using fit by (simp add: entries_fit_def)
  from evolves_cut [OF ev this, of c, unfolded add_diff_cancel_right']
  obtain l1 where l1: "RemoveAfter c (lop + 1) l = Inr l1"
      "evolves s (if lop + 1 \<le> lo then lop else lo) l1"
    by (rule returnsE)
  have "(if lop + 1 \<le> lo then lop else lo) \<le> lop"
  proof -
    have "lop + 1 \<noteq> 0" using \<open>lastCommitted s < lop + 1\<close> by auto
    then have "unat (lop + 1) = Suc (unat lop)" using unatSuc [of lop] by (simp add: add.commute)
    then show ?thesis by (auto simp: word_le_nat_alt)
  qed
  from evolves_install [OF l1(2) this fit] l1(1) show ?thesis by simp
qed

section \<open>View changes and recovery\<close>

lemma post_min_opnum: "(\<And>x. Q x) \<Longrightarrow> post (min_opnum xs) Q"
  by (cases xs) (simp_all add: min_opnum_def)

lemma post_HandleStartViewChange:
  assumes t: "advances s t"
  shows "post (HandleStartViewChange c remote m t) (advances s)"
proof (cases "svc_view m < view t \<or> svc_view m = view t \<and> status t \<noteq> STATUS_VIEW_CHANGE")
  case True
  with t show ?thesis by (auto simp: HandleStartViewChange_def)
next
  case False
  let ?t = "if status t \<noteq> STATUS_VIEW_CHANGE \<or> svc_view m > view t
            then StartViewChange c (svc_view m) t else t"
  have 1: "advances s ?t" using t False by (simp add: advances_StartViewChange not_less)
  let ?u = "?t\<lparr>startViewChangeQuorum := QS_Add (svc_view m) (int_of_u32 (svc_replicaIdx m)) m
      (startViewChangeQuorum ?t)\<rparr>"
  have u: "advances s ?u"
    using advances_quorums_ok [OF 1] by (intro advances_quorums 1) (simp add: quorums_ok_def QS_ok_Add)
  have tail: "post (case ms of None \<Rightarrow> Inr ?u | Some xs \<Rightarrow>
        let leader = GetLeaderIndex (configuration c) (view ?u)
        in if leader \<noteq> replicaIdx c then
             bind_r (min_opnum (map (svc_lastCommitted \<circ> snd) xs)) (\<lambda>minC.
               let minCommitted = min minC (lastCommitted ?u)
               in bind_r (Dump c minCommitted (vlog ?u)) (\<lambda>es.
                    Inr (send (SendMessageToReplica leader
                      (MDoViewChange (DoViewChangeMessage (view ?u)
                        (vs_view (LastViewstamp (vlog ?u))) (lastOp ?u) (lastCommitted ?u)
                        es (my_idx c)))) ?u)))
           else Inr ?u) (advances s)" for ms
    using u by (auto simp: wp Let_def split del: if_split intro!: post_min_opnum postI
        split: option.split)
  have nb: "\<not> svc_view m < view t" "\<not> (svc_view m = view t \<and> status t \<noteq> STATUS_VIEW_CHANGE)"
    using False by auto
  show ?thesis
    unfolding HandleStartViewChange_def if_not_P [OF nb(1)] if_not_P [OF nb(2)] Let_def [of ?t]
      post_assert QS_AddAndCheckForQuorum_eq Let_def [of "smap_put a b d" for a b d]
      Let_def [of "(a, b)" for a b] prod.case Let_def [of ?u]
    by (intro impI tail)
qed

text \<open>A \<open>DOVIEWCHANGE\<close> whose log the new leader \<open>s\<close> may install, and a \<open>STARTVIEW\<close> for a follower.\<close>

definition dvc_fit :: "'app vr_replica \<Rightarrow> DoViewChangeMessage \<Rightarrow> bool" where
  "dvc_fit s m \<longleftrightarrow>
     (if dvc_entries m = [] then dvc_lastOp m = lastOp s else entries_fit s (dvc_lastOp m) (dvc_entries m))"

definition sv_fit :: "'app vr_replica \<Rightarrow> StartViewMessage \<Rightarrow> bool" where
  "sv_fit s m \<longleftrightarrow>
     (if sv_entries m = [] then sv_lastOp m = lastOp s else entries_fit s (sv_lastOp m) (sv_entries m))"

definition rr_fit :: "'app vr_replica \<Rightarrow> RecoveryResponseMessage \<Rightarrow> bool" where
  "rr_fit s m \<longleftrightarrow>
     lastOp s \<le> rr_lastOp m \<and>
     (if rr_entries m = [] then rr_lastOp m = lastOp s else entries_fit s (rr_lastOp m) (rr_entries m))"

lemma entries_fit_frame:
  "lastCommitted s = lastCommitted t \<Longrightarrow> vlog s = vlog t \<Longrightarrow> entries_fit s = entries_fit t"
  by (intro ext) (simp add: entries_fit_def)

text \<open>
  The new log goes in first and \<open>lastOp\<close> follows after \<open>EnterView\<close>; only then does the state
  satisfy the invariant again.
\<close>

lemma advances_install:
  assumes t: "advances s t" and ev: "evolves t lop (vlog u)" and v: "view t \<le> v"
    and u: "lastCommitted u = lastCommitted t" "executed (sent u) = executed (sent t)"
  shows "advances s ((EnterView c v u)\<lparr>lastOp := lop\<rparr>)"
  by (rule advances_log [OF t])
    (use ev v t u in \<open>auto simp: EnterView_def Let_def quorums_ok_def\<close>)

lemma post_HandleStartView:
  assumes t: "advances s t" and fit: "sv_fit t m"
  shows "post (HandleStartView c remote m t) (advances s)"
proof (cases "sv_view m < view t \<or> sv_view m = view t \<and> status t \<noteq> STATUS_VIEW_CHANGE")
  case True
  with t show ?thesis by (auto simp: HandleStartView_def)
next
  case False
  let ?inst = "case sv_entries m of
            [] \<Rightarrow>
              assert_r (nassert c) (sv_lastCommitted m = lastCommitted t)
                (assert_r (nassert c) (sv_lastOp m = sv_lastCommitted m) (Inr t))
          | e # _ \<Rightarrow>
              if me_opnum e > lastCommitted t + 1 then Inl Panicked
              else bind_r (RemoveAfter c (sv_lastOp m + 1) (vlog t)) (\<lambda>l.
                bind_r (Install c (sv_entries m) l) (\<lambda>l'. Inr (t\<lparr>vlog := l'\<rparr>)))"
  have inst: "post ?inst (\<lambda>u. \<exists>l. u = t\<lparr>vlog := l\<rparr> \<and> evolves t (sv_lastOp m) l)"
  proof (cases "sv_entries m")
    case Nil
    with fit advances_evolves [OF t] have "evolves t (sv_lastOp m) (vlog t)" by (simp add: sv_fit_def)
    with Nil show ?thesis by (auto simp: post_assert intro!: exI [of _ "vlog t"])
  next
    case (Cons e es)
    with fit have "entries_fit t (sv_lastOp m) (sv_entries m)" by (simp add: sv_fit_def)
    from evolves_replace [OF advances_evolves [OF t] this, of c] Cons show ?thesis
      by (auto simp: wp elim!: post_mono)
  qed
  have nb: "\<not> sv_view m < view t" "\<not> (sv_view m = view t \<and> status t \<noteq> STATUS_VIEW_CHANGE)"
    using False by auto
  show ?thesis
    unfolding HandleStartView_def if_not_P [OF nb(1)] if_not_P [OF nb(2)] post_assert Let_def
  proof (intro impI, rule post_bindI [OF inst], elim exE conjE)
    fix u l assume u: "u = t\<lparr>vlog := l\<rparr>" and ev: "evolves t (sv_lastOp m) l"
    have adv: "advances s ((EnterView c (sv_view m) u)\<lparr>lastOp := sv_lastOp m\<rparr>)"
      by (rule advances_install [OF t, of "sv_lastOp m"]) (use nb u ev in simp_all)
    show "post (assert_r (nassert c) (\<not> AmLeader c (EnterView c (sv_view m) u\<lparr>lastOp := sv_lastOp m\<rparr>))
        (bind_r (CommitUpTo c (sv_lastCommitted m) (EnterView c (sv_view m) u\<lparr>lastOp := sv_lastOp m\<rparr>))
          (SendPrepareOKs c (lastOp (EnterView c (sv_view m) u))))) (advances s)"
      unfolding post_assert
      by (intro impI post_bindI [OF post_CommitUpTo [OF adv]] post_SendPrepareOKs)
  qed
qed

lemma latest_dvc_None:
  assumes "latest_dvc l xs = (v, n, None)"
  shows "n = vs_opnum (LastViewstamp l)"
proof -
  have "foldl later_dvc (v0, n0, m0) xs = (v, n, None) \<Longrightarrow> n = n0 \<and> m0 = None" for v0 n0 m0
    by (induction xs arbitrary: v0 n0 m0) (force simp: later_dvc_def Let_def split: if_splits)+
  with assms show ?thesis by (auto simp: latest_dvc_def)
qed

lemma latest_dvc_Some:
  assumes "latest_dvc l xs = (v, n, Some x)"
  shows "n = dvc_lastOp x" and "v = dvc_lastNormalView x" and "x \<in> set xs"
proof -
  have "foldl later_dvc (v0, n0, m0) ys = (v, n, Some x) \<Longrightarrow>
      (v0, n0, m0) = (v, n, Some x) \<or> n = dvc_lastOp x \<and> v = dvc_lastNormalView x \<and> x \<in> set ys"
    for v0 n0 m0 ys
    by (induction ys arbitrary: v0 n0 m0) (force simp: later_dvc_def Let_def split: if_splits)+
  from this [OF assms [unfolded latest_dvc_def]]
  show "n = dvc_lastOp x" and "v = dvc_lastNormalView x" and "x \<in> set xs" by auto
qed

lemma LastViewstamp_opnum: "vs_opnum (LastViewstamp l) = LastOpnum l"
  by (simp add: LastViewstamp_def LastOpnum_def)

text \<open>
  \<open>dvcs_fit c s ms\<close>: the latest of the messages \<open>ms\<close> fits the log of \<open>s\<close>, and the read through the
  dangling pointer finds it intact.
\<close>

definition dvcs_fit ::
  "'app vr_env \<Rightarrow> 'app vr_replica \<Rightarrow> (int, DoViewChangeMessage) smap \<Rightarrow> bool" where
  "dvcs_fit c s ms \<longleftrightarrow>
     (case latest_dvc (vlog s) (map snd ms) of
        (_, _, None) \<Rightarrow> True
      | (_, _, Some x) \<Rightarrow> dvc_fit s x \<and> dead_dvc c x = Inr x)"

lemma post_BecomeLeader:
  assumes t: "advances s t" and v: "view t \<le> dvc_view m" and fit: "dvcs_fit c t ms"
  shows "post (BecomeLeader c m ms t) (advances s)"
proof -
  obtain lv lop lm where latest: "latest_dvc (vlog t) (map snd ms) = (lv, lop, lm)"
    by (cases "latest_dvc (vlog t) (map snd ms)")
  let ?deref = "case lm of None \<Rightarrow> Inr None | Some x \<Rightarrow> bind_r (dead_dvc c x) (\<lambda>y. Inr (Some y))"
  have deref: "?deref = Inr lm"
    using fit latest by (auto simp: dvcs_fit_def split: option.splits)
  let ?inst = "case lm of None \<Rightarrow> Inr t | Some x \<Rightarrow> install_latest c m x t"
  have inst: "post ?inst (\<lambda>u. \<exists>l. u = t\<lparr>vlog := l\<rparr> \<and> evolves t lop l)"
  proof (cases lm)
    case None
    have "lop = lastOp t"
      using latest_dvc_None latest None evolves_next(1) [OF advances_evolves [OF t]]
      by (auto simp: LastViewstamp_opnum)
    with None advances_evolves [OF t] show ?thesis by (auto intro!: exI [of _ "vlog t"])
  next
    case (Some x)
    have fit': "dvc_fit t x" and lop: "lop = dvc_lastOp x"
      using fit latest Some latest_dvc_Some by (auto simp: dvcs_fit_def)
    show ?thesis
    proof (cases "dvc_entries x")
      case Nil
      with fit' lop advances_evolves [OF t] have "evolves t lop (vlog t)" by (simp add: dvc_fit_def)
      with Nil Some show ?thesis
        by (auto simp: install_latest_def post_assert intro!: exI [of _ "vlog t"])
    next
      case (Cons e es)
      with fit' lop have "entries_fit t lop (dvc_entries x)" by (simp add: dvc_fit_def)
      from evolves_replace [OF advances_evolves [OF t] this, of c] Cons Some lop show ?thesis
        by (auto simp: install_latest_def wp elim!: post_mono)
    qed
  qed
  have adv: "advances s ((EnterView c (dvc_view m) (t\<lparr>vlog := l, startViewChangeQuorum := q\<rparr>))\<lparr>lastOp := lop\<rparr>)"
    if "evolves t lop l" for l q
    by (rule advances_install [OF t, of lop]) (use v that in simp_all)
  have commit: "post (case lm of None \<Rightarrow> Inr u | Some x \<Rightarrow> CommitUpTo c (dvc_lastCommitted x) u) (advances s)"
    if "advances s u" for u
    using that by (auto simp: post_CommitUpTo split: option.split)
  have announce: "post (assert_r b p (bind_r
        (case lm of None \<Rightarrow> Inr u | Some x \<Rightarrow> CommitUpTo c (dvc_lastCommitted x) u) (\<lambda>s5.
          bind_r (Dump c k (vlog s5)) (\<lambda>es. Inr (send (SendMessageToAll (MStartView
            (StartViewMessage (view s5) (lastOp s5) (lastCommitted s5) es))) s5)))))
      (advances s)" if "advances s u" for u b p k
    unfolding post_assert
    by (intro impI post_bindI [OF commit [OF that]]) (auto simp: post_bind intro!: postI)
  show ?thesis
    unfolding BecomeLeader_def latest Let_def prod.case deref bind_r_simps
  proof (rule post_bindI [OF inst], elim exE conjE)
    fix u l assume u: "u = t\<lparr>vlog := l\<rparr>" and ev: "evolves t lop l"
    show "post (case QS_GetMessages (view u) (startViewChangeQuorum u) of (svcs, q) \<Rightarrow>
        bind_r (min_opnum (map (svc_lastCommitted \<circ> snd) svcs)) (\<lambda>minCommittedSVC.
          bind_r (min_opnum (map (dvc_lastCommitted \<circ> snd) ms)) (\<lambda>minCommittedDVC.
            assert_r (nassert c) (AmLeader c (EnterView c (dvc_view m) (u\<lparr>startViewChangeQuorum := q\<rparr>)))
              (bind_r
                (case lm of
                   None \<Rightarrow> Inr ((EnterView c (dvc_view m) (u\<lparr>startViewChangeQuorum := q\<rparr>))\<lparr>lastOp := lop\<rparr>)
                 | Some x \<Rightarrow> CommitUpTo c (dvc_lastCommitted x)
                     ((EnterView c (dvc_view m) (u\<lparr>startViewChangeQuorum := q\<rparr>))\<lparr>lastOp := lop\<rparr>))
                (\<lambda>s5. bind_r (Dump c (min (min minCommittedSVC minCommittedDVC)
                          (lastCommitted (u\<lparr>startViewChangeQuorum := q\<rparr>))) (vlog s5)) (\<lambda>es.
                   Inr (send (SendMessageToAll (MStartView
                     (StartViewMessage (view s5) (lastOp s5) (lastCommitted s5) es))) s5)))))))
        (advances s)"
      unfolding QS_GetMessages_def prod.case u
      by (intro post_bindI [OF post_min_opnum [where Q = "\<lambda>_. True"]] TrueI announce adv ev)
  qed
qed

lemma post_HandleDoViewChange:
  assumes t: "advances s t"
    and fit: "\<And>u q ms. advances s u \<Longrightarrow> view u = dvc_view m \<Longrightarrow> vlog u = vlog t \<Longrightarrow>
      lastCommitted u = lastCommitted t \<Longrightarrow> lastOp u = lastOp t \<Longrightarrow>
      QS_AddAndCheckForQuorum (dvc_view m) (int_of_u32 (dvc_replicaIdx m)) m (doViewChangeQuorum t)
        = (Some ms, q) \<Longrightarrow> dvcs_fit c u ms"
  shows "post (HandleDoViewChange c remote m t) (advances s)"
proof (cases "dvc_view m < view t \<or> dvc_view m = view t \<and> status t \<noteq> STATUS_VIEW_CHANGE")
  case True
  with t show ?thesis by (auto simp: HandleDoViewChange_def)
next
  case False
  let ?t = "if status t \<noteq> STATUS_VIEW_CHANGE \<or> dvc_view m > view t
            then StartViewChange c (dvc_view m) t else t"
  have 1: "advances s ?t" using t False by (simp add: advances_StartViewChange not_less)
  have same: "vlog ?t = vlog t" "lastCommitted ?t = lastCommitted t" "lastOp ?t = lastOp t"
      "doViewChangeQuorum ?t = doViewChangeQuorum t" "view ?t = dvc_view m"
    using False by (auto simp: StartViewChange_def Let_def send_def)
  obtain ms q where add: "QS_AddAndCheckForQuorum (dvc_view m) (int_of_u32 (dvc_replicaIdx m)) m
      (doViewChangeQuorum t) = (ms, q)" by fastforce
  then have q: "QS_ok q"
    using advances_quorums_ok [OF t] by (auto simp: QS_AddAndCheckForQuorum_eq Let_def quorums_ok_def QS_ok_Add)
  let ?u = "?t\<lparr>doViewChangeQuorum := q\<rparr>"
  have u: "advances s ?u" by (intro advances_quorums 1 q)
  have "post (BecomeLeader c m xs ?u) (advances s)" if "ms = Some xs" for xs
  proof (rule post_BecomeLeader [OF u])
    have 2: "view ?u = dvc_view m" "vlog ?u = vlog t" "lastCommitted ?u = lastCommitted t"
        "lastOp ?u = lastOp t" using same by simp_all
    show "dvcs_fit c ?u xs" by (rule fit [OF u 2]) (use add that in simp)
    show "view ?u \<le> dvc_view m" by (simp only: 2 order.refl)
  qed
  then have "post (case ms of None \<Rightarrow> Inr ?u | Some xs \<Rightarrow> BecomeLeader c m xs ?u) (advances s)"
    using u by (simp split: option.split split del: if_split)
  then show ?thesis
    unfolding HandleDoViewChange_def Let_def post_if post_assert same(4) add prod.case
    using t by simp
qed

lemma post_HandleRecovery:
  "advances s t \<Longrightarrow> post (HandleRecovery c remote m t) (advances s)"
  by (auto simp: HandleRecovery_def post_bind intro!: postI)

lemma post_HandleRecoveryResponse:
  assumes t: "advances s t"
    and fit: "\<And>ms q resp. QS_AddAndCheckForQuorum (rr_nonce m) (int_of_u32 (rr_replicaIdx m)) m
        (recoveryResponseQuorum t) = (Some ms, q) \<Longrightarrow>
        map_of ms (GetLeaderIndex (configuration c) (foldl max 0 (map (rr_view \<circ> snd) ms))) = Some resp
        \<Longrightarrow> rr_fit t resp"
  shows "post (HandleRecoveryResponse c remote m t) (advances s)"
proof (cases "status t = STATUS_RECOVERING \<and> rr_nonce m = recoveryNonce t")
  case False
  with t show ?thesis by (auto simp: HandleRecoveryResponse_def)
next
  case True
  obtain ms q where add: "QS_AddAndCheckForQuorum (rr_nonce m) (int_of_u32 (rr_replicaIdx m)) m
      (recoveryResponseQuorum t) = (ms, q)" by fastforce
  then have q: "QS_ok q"
    using advances_quorums_ok [OF t] by (auto simp: QS_AddAndCheckForQuorum_eq Let_def quorums_ok_def QS_ok_Add)
  let ?u = "t\<lparr>recoveryResponseQuorum := q\<rparr>"
  have u: "advances s ?u" by (intro advances_quorums t q)
  have "view t = 0" using t True by (simp add: advances_def vr_inv_def)
  have install: "post (bind_r (Install c (rr_entries resp) (vlog ?u)) (\<lambda>l'.
      CommitUpTo c (rr_lastCommitted resp)
        ((EnterView c (rr_view resp) (?u\<lparr>vlog := l'\<rparr>))\<lparr>lastOp := rr_lastOp resp\<rparr>))) (advances s)"
    if "rr_fit t resp" for resp
  proof (rule post_bindI)
    show "post (Install c (rr_entries resp) (vlog ?u)) (evolves t (rr_lastOp resp))"
    proof (cases "rr_entries resp")
      case Nil
      with that advances_evolves [OF t] show ?thesis by (simp add: rr_fit_def Install_def)
    next
      case (Cons e es)
      with that show ?thesis
        using evolves_install [OF advances_evolves [OF t], of "rr_lastOp resp" "rr_entries resp" c]
        by (simp add: rr_fit_def)
    qed
    fix l' assume ev: "evolves t (rr_lastOp resp) l'"
    show "post (CommitUpTo c (rr_lastCommitted resp)
        ((EnterView c (rr_view resp) (?u\<lparr>vlog := l'\<rparr>))\<lparr>lastOp := rr_lastOp resp\<rparr>)) (advances s)"
      by (rule post_CommitUpTo, rule advances_install [OF t]) (use ev \<open>view t = 0\<close> in simp_all)
  qed
  have fit': "rr_fit t resp" if "ms = Some xs"
      "map_of xs (GetLeaderIndex (configuration c) (foldl max 0 (map (rr_view \<circ> snd) xs))) = Some resp"
    for xs resp
    using fit [of xs q resp] add that by simp
  have "post (case ms of None \<Rightarrow> Inr ?u | Some ms \<Rightarrow>
      let highestView = foldl max 0 (map (rr_view \<circ> snd) ms);
          leader = GetLeaderIndex (configuration c) highestView
      in assert_r (nassert c) (leader \<noteq> replicaIdx c)
           (case map_of ms leader of
              None \<Rightarrow> Inr ?u
            | Some resp \<Rightarrow>
                if rr_view resp \<noteq> highestView then Inr ?u
                else bind_r (Install c (rr_entries resp) (vlog ?u)) (\<lambda>l.
                  let s1 = EnterView c (rr_view resp) (?u\<lparr>vlog := l\<rparr>);
                      s2 = s1\<lparr>lastOp := rr_lastOp resp\<rparr>
                  in CommitUpTo c (rr_lastCommitted resp) s2))) (advances s)"
    unfolding Let_def post_option post_assert post_if
    by (intro conjI impI allI install fit') (simp_all add: u)
  then show ?thesis
    using t unfolding HandleRecoveryResponse_def Let_def add prod.case post_if by simp
qed

section \<open>Events and runs\<close>

text \<open>
  What a message has to satisfy where the code trusts it. In a build with assertions the
  other handlers trust nothing.
\<close>

fun message_fits :: "'app vr_env \<Rightarrow> 'app vr_replica \<Rightarrow> ToReplicaMessage \<Rightarrow> bool" where
  "message_fits c s (MStateTransfer m) = (\<not> nassert c)"
| "message_fits c s (MDoViewChange m) =
     (case fst (QS_AddAndCheckForQuorum (dvc_view m) (int_of_u32 (dvc_replicaIdx m)) m
                  (doViewChangeQuorum s)) of
        None \<Rightarrow> True
      | Some ms \<Rightarrow> dvcs_fit c s ms)"
| "message_fits c s (MStartView m) = sv_fit s m"
| "message_fits c s (MRecoveryResponse m) =
     (case fst (QS_AddAndCheckForQuorum (rr_nonce m) (int_of_u32 (rr_replicaIdx m)) m
                  (recoveryResponseQuorum s)) of
        None \<Rightarrow> True
      | Some ms \<Rightarrow>
          (case map_of ms (GetLeaderIndex (configuration c) (foldl max 0 (map (rr_view \<circ> snd) ms))) of
             None \<Rightarrow> True
           | Some resp \<Rightarrow> rr_fit s resp))"
| "message_fits c s m = True"

lemma dvcs_fit_frame:
  "lastCommitted s = lastCommitted t \<Longrightarrow> vlog s = vlog t \<Longrightarrow> lastOp s = lastOp t \<Longrightarrow>
   dvcs_fit c s = dvcs_fit c t"
  by (intro ext) (simp add: dvcs_fit_def dvc_fit_def entries_fit_frame [of s t] cong: option.case_cong)

lemma post_ReceiveMessage:
  fixes t :: "'app vr_replica"
  assumes t: "advances s t" and fits: "message_fits c t m"
  shows "post (ReceiveMessage c remote m t) (advances s)"
proof (cases m)
  case (MDoViewChange d)
  have "post (HandleDoViewChange c remote d t) (advances s)"
  proof (rule post_HandleDoViewChange [OF t])
    fix u :: "'app vr_replica" and q ms
    assume "vlog u = vlog t" "lastCommitted u = lastCommitted t" "lastOp u = lastOp t"
      "QS_AddAndCheckForQuorum (dvc_view d) (int_of_u32 (dvc_replicaIdx d)) d (doViewChangeQuorum t)
         = (Some ms, q)"
    with fits MDoViewChange dvcs_fit_frame [of u t c] show "dvcs_fit c u ms" by simp
  qed
  with MDoViewChange show ?thesis by simp
next
  case (MRecoveryResponse r)
  have "post (HandleRecoveryResponse c remote r t) (advances s)"
    by (rule post_HandleRecoveryResponse [OF t]) (use fits MRecoveryResponse in simp)
  with MRecoveryResponse show ?thesis by simp
qed (use t fits in \<open>auto intro: post_HandleRequest post_HandleUnloggedRequest post_HandlePrepare
    post_HandlePrepareOK post_HandleCommit post_HandleRequestStateTransfer post_HandleStateTransfer
    post_HandleStartViewChange post_HandleStartView post_HandleRecovery\<close>)

lemma post_timer_callback:
  assumes t: "advances s t" and "k = ViewChangeTimer \<Longrightarrow> view t + 1 \<noteq> 0"
  shows "post (timer_callback c k t) (advances s)"
proof (cases k)
  case ViewChangeTimer
  then have "unat (view t + 1) = Suc (unat (view t))"
    using assms(2) unatSuc [of "view t"] by (simp add: add.commute)
  then have "view t \<le> view t + 1" by (simp add: word_le_nat_alt)
  with t ViewChangeTimer show ?thesis by (simp add: advances_StartViewChange)
next
  case ResendPrepareTimer
  with t ResendPrepareTimer show ?thesis by (simp add: ResendPrepare_def wp)
qed (use t in \<open>auto simp: SendNullCommit_def SendRecoveryMessages_def wp intro: post_CloseBatch\<close>)

end
