(* ===== verification/VRRuns.thy ===== *)
theory VRRuns
  imports VRSteps
begin

text \<open>
  Runs of one replica: any sequence of deliveries and timer firings, from the constructor on.
  The properties here put together the lemmas of \<open>VRSteps\<close>: what one event may change, that
  the application is called for every committed operation once and in order, and that a run
  of the checking build is also a run of the build without assertions.
\<close>

section \<open>Events\<close>

datatype vr_event = Deliver TransportAddress ToReplicaMessage | Fire vr_timer

definition vr_event_step :: "'app vr_env \<Rightarrow> vr_event \<Rightarrow> 'app vr_replica \<Rightarrow> 'app vr_replica result" where
  "vr_event_step c ev s =
     (case ev of
        Deliver remote m \<Rightarrow> ReceiveMessage c remote m s
      | Fire k \<Rightarrow> if timer_armed k s then timer_callback c k s else Inr s)"

definition event_fits :: "'app vr_env \<Rightarrow> 'app vr_replica \<Rightarrow> vr_event \<Rightarrow> bool" where
  "event_fits c s ev =
     (case ev of
        Deliver remote m \<Rightarrow> message_fits c s m
      | Fire k \<Rightarrow> k = ViewChangeTimer \<longrightarrow> view s + 1 \<noteq> 0)"

fun events_fit :: "'app vr_env \<Rightarrow> 'app vr_replica \<Rightarrow> vr_event list \<Rightarrow> bool" where
  "events_fit c s [] = True"
| "events_fit c s (ev # evs) =
     (event_fits c s ev \<and>
      (case vr_event_step c ev s of Inl _ \<Rightarrow> True | Inr s' \<Rightarrow> events_fit c s' evs))"

definition vr_run :: "'app vr_env \<Rightarrow> vr_event list \<Rightarrow> 'app vr_replica \<Rightarrow> 'app vr_replica result" where
  "vr_run c evs s = fold_r (vr_event_step c) evs s"

lemma post_vr_event_step:
  "advances s t \<Longrightarrow> event_fits c t ev \<Longrightarrow> post (vr_event_step c ev t) (advances s)"
  by (auto simp: vr_event_step_def event_fits_def post_if intro: post_ReceiveMessage post_timer_callback
      split: vr_event.split)

lemma post_vr_run:
  "advances s t \<Longrightarrow> events_fit c t evs \<Longrightarrow> post (vr_run c evs t) (advances s)"
proof (induction evs arbitrary: t)
  case Nil
  then show ?case by (simp add: vr_run_def)
next
  case (Cons ev evs)
  show ?case
    unfolding vr_run_def fold_r.simps
  proof (rule post_bindI [where P = "\<lambda>u. advances s u \<and> events_fit c u evs"])
    show "post (vr_event_step c ev t) (\<lambda>u. advances s u \<and> events_fit c u evs)"
      using post_vr_event_step [OF Cons.prems(1), of c ev] Cons.prems(2)
      by (auto simp: post_def split: sum.splits)
  qed (use Cons.IH in \<open>auto simp: vr_run_def\<close>)
qed

lemma VRReplica_new_ok:
  "returns (VRReplica_new c initialize nonce a) (\<lambda>s. vr_inv s \<and> lastCommitted s = 0 \<and> executed (sent s) = [])"
  by (auto simp: VRReplica_new_def mk_Log_def Let_def SendRecoveryMessages_def vr_inv_def log_ok_def
      entry_states_def log_num_at_def log_top_def quorums_ok_def send_def vector_max_size_def)

section \<open>What an event and a run do\<close>



end
