(* ===== verification/VROperations.thy ===== *)
theory VROperations
  imports VRRuns
begin

text \<open>
  What single operations of a Viewstamped Replication replica do: committing is total and
  exact, a leader commits only on a quorum, a follower appends the prepared batch and
  acknowledges it, a repeated request is not executed again; and the two places of the view
  change where the code leaves the protocol.
\<close>

section \<open>Committing\<close>

lemma CommitNext_returns:
  assumes inv: "vr_inv s" and lt: "lastCommitted s < lastOp s"
  shows "\<exists>s'. CommitNext c s = Inr s'"
proof -
  have ok: "log_ok (vlog s)" and st: "start (vlog s) = 1" using inv by (auto simp: vr_inv_def)
  have "unat (lastCommitted s + 1) = Suc (unat (lastCommitted s))" using lt by (rule unat_less_succ)
  then have "log_num_at (vlog s) (unat (lastCommitted s + 1)) \<noteq> None"
    using lt inv by (simp add: log_num_at_def st log_top_1 vr_inv_def word_less_nat_alt)
  then obtain e where at: "log_at (vlog s) (lastCommitted s + 1) = Some e" by (auto simp: log_at_num)
  obtain res a where ex: "Execute (app_code c) (lastCommitted s + 1) (request e)
      (Some (AmLeader c (s\<lparr>lastCommitted := lastCommitted s + 1\<rparr>))) (app s) = (res, a)"
    by fastforce
  show ?thesis
    unfolding CommitNext_def
    by (simp add: Let_def Find_ok [OF ok] SetStatus_ok [OF ok] at ex send_def del: fun_upd_apply)
qed

lemma CommitUpTo_returns:
  "vr_inv s \<Longrightarrow> u \<le> lastOp s \<Longrightarrow>
   \<exists>s'. CommitUpTo c u s = Inr s' \<and> lastCommitted s' = max (lastCommitted s) u \<and>
     lastOp s' = lastOp s \<and> view s' = view s \<and> status s' = status s \<and>
     prepareOKQuorum s' = prepareOKQuorum s \<and> lastBatchEnd s' = lastBatchEnd s"
proof (induction c u s rule: CommitUpTo.induct)
  case (1 c u s)
  show ?case
  proof (cases "lastCommitted s < u")
    case False
    then show ?thesis by (simp add: CommitUpTo.simps max_def)
  next
    case True
    then have "lastCommitted s < lastOp s" using "1.prems"(2) by (rule order.strict_trans2)
    then obtain t where t: "CommitNext c s = Inr t" using CommitNext_returns "1.prems"(1) by blast
    have "log_ok (vlog s)" using "1.prems"(1) by (simp add: vr_inv_def)
    from CommitNext_returned [OF t this]
    have t': "lastCommitted t = lastCommitted s + 1" "lastOp t = lastOp s" "view t = view s"
      "status t = status s" "prepareOKQuorum t = prepareOKQuorum s" "lastBatchEnd t = lastBatchEnd s"
      by auto
    have "vr_inv t" using CommitNext_advances [OF "1.prems"(1), of c] t by (simp add: advances_inv)
    moreover have "max (lastCommitted s + 1) u = max (lastCommitted s) u"
      using True unat_less_succ [OF True] by (auto simp: max_def word_le_nat_alt word_less_nat_alt)
    ultimately show ?thesis
      using "1.IH" [OF True t] "1.prems"(2) t t' True by (simp add: CommitUpTo.simps [of c u s])
  qed
qed

text \<open>
  C20. Committing up to a number that the log covers returns. It advances \<open>lastCommitted\<close> to that
  number (never back), calls the application for exactly the operations in between, in
  order, and leaves every operation of the log as it is.
\<close>

theorem CommitUpTo_commits:
  assumes inv: "vr_inv s" and le: "u \<le> lastOp s"
  shows "\<exists>s'. CommitUpTo c u s = Inr s' \<and> vr_inv s' \<and> lastCommitted s' = max (lastCommitted s) u \<and>
    lastOp s' = lastOp s \<and> view s' = view s \<and> committed_kept s s' \<and> executed_between s s'"
proof -
  from CommitUpTo_returns [OF inv le, of c] obtain s' where s': "CommitUpTo c u s = Inr s'"
      "lastCommitted s' = max (lastCommitted s) u" "lastOp s' = lastOp s" "view s' = view s" by blast
  with CommitUpTo_advances [OF inv, of c u] show ?thesis by (simp add: advances_def)
qed

lemma CloseBatch_frame:
  "CloseBatch c s = Inr s' \<Longrightarrow>
   lastCommitted s' = lastCommitted s \<and> prepareOKQuorum s' = prepareOKQuorum s \<and> lastOp s' = lastOp s \<and>
   vlog s' = vlog s \<and> view s' = view s \<and> status s' = status s"
  by (auto simp: CloseBatch_def assert_r_def Let_def bind_r_Inr split: if_splits)

lemma CommitUpTo_frame:
  "CommitUpTo c u s = Inr s' \<Longrightarrow> log_ok (vlog s) \<Longrightarrow>
   lastCommitted s' = max (lastCommitted s) u \<and> prepareOKQuorum s' = prepareOKQuorum s"
proof (induction c u s rule: CommitUpTo.induct)
  case (1 c u s)
  show ?case
  proof (cases "lastCommitted s < u")
    case False
    then show ?thesis using "1.prems" by (simp add: CommitUpTo.simps max_def)
  next
    case True
    then obtain t where t: "CommitNext c s = Inr t" "CommitUpTo c u t = Inr s'"
      using "1.prems"(1) by (auto simp: CommitUpTo.simps [of c u s] bind_r_Inr)
    from CommitNext_returned [OF t(1) "1.prems"(2)] obtain e where
      e: "log_num_at (vlog s) (unat (lastCommitted s + 1)) = Some e" and
      t': "vlog t = update_entry (lastCommitted s + 1) (\<lambda>e. e\<lparr>state := LOG_STATE_COMMITTED\<rparr>) (vlog s)"
        "lastCommitted t = lastCommitted s + 1" "prepareOKQuorum t = prepareOKQuorum s" by blast
    have "log_ok (vlog t)"
      unfolding t' by (rule update_entry_ok [OF "1.prems"(2)]) (use e in \<open>simp_all add: log_at_num\<close>)
    moreover have "max (lastCommitted s + 1) u = max (lastCommitted s) u"
      using True unat_less_succ [OF True] by (auto simp: max_def word_le_nat_alt word_less_nat_alt)
    ultimately show ?thesis using "1.IH" [OF True t(1) t(2)] t' by simp
  qed
qed

section \<open>The normal case\<close>

lemma HandlePrepareOK_quorum:
  assumes "vr_inv s" and "HandlePrepareOK c remote m s = Inr s'" and "lastCommitted s < lastCommitted s'"
  shows "status s = STATUS_NORMAL \<and> AmLeader c s \<and> po_view m = view s \<and> lastCommitted s' = po_opnum m \<and>
    numRequired (prepareOKQuorum s) \<le>
      int (card (dom (QS_votes (prepareOKQuorum s') (viewstamp2 (view s) (po_opnum m))))) \<and>
    QS_votes (prepareOKQuorum s') (viewstamp2 (view s) (po_opnum m)) (int_of_u32 (po_replicaIdx m)) = Some m"
proof -
  let ?vs = "viewstamp2 (view s) (po_opnum m)"
  let ?q = "QS_Add ?vs (int_of_u32 (po_replicaIdx m)) m (prepareOKQuorum s)"
  let ?ms = "smap_put (int_of_u32 (po_replicaIdx m)) m (QS_at (prepareOKQuorum s) ?vs)"
  let ?u = "s\<lparr>prepareOKQuorum := ?q\<rparr>"
  have basic: "status s = STATUS_NORMAL" "AmLeader c s" "po_view m = view s"
    using assms(2,3)
    by (auto simp: HandlePrepareOK_def RequestStateTransfer_def Let_def split: if_splits)
  have run: "(case if numRequired (prepareOKQuorum s) \<le> int (length ?ms) then Some ?ms else None of
       None \<Rightarrow> Inr ?u
     | Some ms \<Rightarrow> bind_r (CommitUpTo c (po_opnum m) ?u) (\<lambda>s1.
         if int (length ms) \<ge> uint (word_of_int (QuorumSize (configuration c)) :: u32) then Inr s1
         else
           let s2 = send (SendMessageToAll (MCommit (CommitMessage (view s1) (lastCommitted s1)))) s1;
               s3 = s2\<lparr>nullCommitTimeout := Timeout_Reset (nullCommitTimeout s2)\<rparr>
           in if lastBatchEnd s3 = po_opnum m then
                let s4 = s3\<lparr>batchComplete := True\<rparr>
                in if lastOp s4 > lastBatchEnd s4 then CloseBatch c s4 else Inr s4
              else Inr s3)) = Inr s'"
    using assms(2) basic
    by (simp add: HandlePrepareOK_def QS_AddAndCheckForQuorum_eq Let_def split del: if_split)
  have q: "numRequired (prepareOKQuorum s) \<le> int (length ?ms)"
    using run assms(3) by (auto split: if_splits)
  with run obtain s1 where s1: "CommitUpTo c (po_opnum m) ?u = Inr s1"
      and rest: "lastCommitted s' = lastCommitted s1" "prepareOKQuorum s' = prepareOKQuorum s1"
    by (auto simp: bind_r_Inr Let_def dest!: CloseBatch_frame split: if_splits)
  have "log_ok (vlog ?u)" using assms(1) by (simp add: vr_inv_def)
  from CommitUpTo_frame [OF s1 this] have
    s1': "lastCommitted s1 = max (lastCommitted s) (po_opnum m)" "prepareOKQuorum s1 = ?q" by auto
  have "smap_ok ?ms" using assms(1) by (simp add: vr_inv_def quorums_ok_def sm.ok_put QS_ok_at)
  then have "length ?ms = card (dom (QS_votes ?q ?vs))"
    by (simp add: QS_votes_def sm.count_card)
  moreover have "QS_votes ?q ?vs (int_of_u32 (po_replicaIdx m)) = Some m"
    by (simp add: QS_votes_def sm.get_put)
  ultimately show ?thesis
    using basic q rest s1' assms(3) by (auto simp: max_def)
qed

text \<open>
  A \<open>PREPAREOK\<close> moves the commit point only of the leader of the message's view, only to the
  message's operation, and only when at least \<open>numRequired\<close> different replicas (a quorum, with
  the leader itself) are on record as having acknowledged that operation, the sender among them.
\<close>

theorem HandlePrepareOK_needs_quorum:
  assumes "vr_inv s" and "HandlePrepareOK c remote m s = Inr s'" and "lastCommitted s < lastCommitted s'"
  shows "status s = STATUS_NORMAL \<and> AmLeader c s \<and> po_view m = view s \<and> lastCommitted s' = po_opnum m \<and>
    numRequired (prepareOKQuorum s) \<le>
      int (card (dom (QS_votes (prepareOKQuorum s') (viewstamp2 (view s) (po_opnum m))))) \<and>
    QS_votes (prepareOKQuorum s') (viewstamp2 (view s) (po_opnum m)) (int_of_u32 (po_replicaIdx m)) = Some m"
  by (rule HandlePrepareOK_quorum [OF assms])

lemma Append_content:
  assumes "vr_inv s" and num: "vs_opnum vs = lastOp s + 1"
  shows "post (Append c (mk_LogEntry vs LOG_STATE_PREPARED req) (vlog s)) (\<lambda>l.
     entry_op l = (entry_op (vlog s))(Suc (unat (lastOp s)) \<mapsto> (vs, req)))"
proof -
  have ok: "log_ok (vlog s)" and top: "log_top (vlog s) = Suc (unat (lastOp s))"
    using assms(1) by (auto simp: vr_inv_def log_top_1)
  let ?e = "mk_LogEntry vs LOG_STATE_PREPARED req"
  have "unat (vs_opnum (viewstamp ?e)) = log_top (vlog s)"
    using num evolves_next(2) [OF evolves_refl [OF assms(1)]] top by (simp add: mk_LogEntry_def)
  from numbered_append [OF ok this, of c] show ?thesis
    by (rule post_mono) (auto simp: entry_op_def fun_eq_iff top same_entry_def mk_LogEntry_def)
qed

definition prepared :: "view_t \<Rightarrow> nat \<Rightarrow> Request list \<Rightarrow> Log \<Rightarrow> Log \<Rightarrow> bool" where
  "prepared v n reqs l l' \<longleftrightarrow>
     log_top l' = max (log_top l) (n + length reqs) \<and>
     (\<forall>k < log_top l. entry_op l' k = entry_op l k) \<and>
     (\<forall>i < length reqs. log_top l \<le> n + i \<longrightarrow>
        entry_op l' (n + i) = Some (viewstamp2 v (of_nat (n + i)), reqs ! i))"

lemma prepare_loop:
  fixes t :: "'app vr_replica"
  assumes "vr_inv t" and "unat n \<le> unat (lastOp t)" and "unat n + length reqs < 2 ^ 64"
  shows "post (fold_r (prepare_one c v) reqs (n, t)) (\<lambda>(n', u).
     prepared v (Suc (unat n)) reqs (vlog t) (vlog u))"
  using assms
proof (induction reqs arbitrary: n t)
  case Nil
  then show ?case by (simp add: prepared_def vr_inv_def log_top_1)
next
  case (Cons req reqs)
  have ev: "evolves t (lastOp t) (vlog t)" using Cons.prems(1) by (rule evolves_refl)
  have top: "log_top (vlog t) = Suc (unat (lastOp t))" by (rule evolves_top [OF ev])
  have n1: "unat (n + 1) = Suc (unat n)" using Cons.prems(3) by (intro unat_succ_bound) simp
  show ?case
  proof (cases "n + 1 \<le> lastOp t")
    case True
    have "post (fold_r (prepare_one c v) reqs (n + 1, t)) (\<lambda>(n', u).
        prepared v (Suc (Suc (unat n))) reqs (vlog t) (vlog u))"
      using Cons.IH [OF Cons.prems(1), of "n + 1"] True Cons.prems(3) n1 by (simp add: word_le_nat_alt)
    then have "post (fold_r (prepare_one c v) reqs (n + 1, t)) (\<lambda>(n', u).
        prepared v (Suc (unat n)) (req # reqs) (vlog t) (vlog u))"
      by (rule post_mono) (use True n1 top in \<open>auto simp: prepared_def word_le_nat_alt nth_Cons split: nat.split\<close>)
    moreover have "prepare_one c v req (n, t) = Inr (n + 1, t)" using True by (simp add: prepare_one_def)
    ultimately show ?thesis by simp
  next
    case False
    then have eq: "unat n = unat (lastOp t)" using Cons.prems(2) n1 by (simp add: word_le_nat_alt)
    then have n: "n = lastOp t" by (simp add: word_unat_eq_iff)
    let ?vs = "viewstamp2 v (n + 1)"
    let ?u = "\<lambda>l. t\<lparr>lastOp := lastOp t + 1, vlog := l\<rparr>"
    have "post (Append c (mk_LogEntry ?vs LOG_STATE_PREPARED req) (vlog t)) (\<lambda>l. advances t (?u l))"
      by (rule post_append_op [OF advances_refl [OF Cons.prems(1)]]) (simp_all add: n)
    moreover have "post (Append c (mk_LogEntry ?vs LOG_STATE_PREPARED req) (vlog t)) (\<lambda>l.
        entry_op l = (entry_op (vlog t))(Suc (unat n) \<mapsto> (?vs, req)))"
      using Append_content [OF Cons.prems(1), of ?vs c req] by (simp add: n)
    ultimately have app: "post (Append c (mk_LogEntry ?vs LOG_STATE_PREPARED req) (vlog t)) (\<lambda>l.
        vr_inv (?u l) \<and> entry_op l = (entry_op (vlog t))(Suc (unat n) \<mapsto> (?vs, req)))"
      by (auto simp: advances_inv post_def split: sum.splits)
    have upd: "post (UpdateClientTable c req u) (\<lambda>w. vr_inv w = vr_inv u \<and> vlog w = vlog u \<and> lastOp w = lastOp u)"
      for u by (simp add: UpdateClientTable_def wp)
    have step: "post (prepare_one c v req (n, t)) (\<lambda>(n', w). n' = n + 1 \<and> vr_inv w \<and> lastOp w = lastOp t + 1 \<and>
        entry_op (vlog w) = (entry_op (vlog t))(Suc (unat n) \<mapsto> (?vs, req)))"
    proof -
      have "post (bind_r (Append c (mk_LogEntry ?vs LOG_STATE_PREPARED req) (vlog t)) (\<lambda>l.
          bind_r (UpdateClientTable c req (?u l)) (\<lambda>s2. Inr (n + 1, s2))))
        (\<lambda>(n', w). n' = n + 1 \<and> vr_inv w \<and> lastOp w = lastOp t + 1 \<and>
          entry_op (vlog w) = (entry_op (vlog t))(Suc (unat n) \<mapsto> (?vs, req)))"
        by (rule post_bindI [OF app], rule post_bindI [OF upd]) simp
      with False show ?thesis by (simp add: prepare_one_def Let_def)
    qed
    show ?thesis
      unfolding fold_r.simps
    proof (rule post_bindI [OF step], clarify)
      fix w :: "'app vr_replica" assume w: "vr_inv w" "lastOp w = lastOp t + 1"
        and ops: "entry_op (vlog w) = (entry_op (vlog t))(Suc (unat n) \<mapsto> (?vs, req))"
      have top': "log_top (vlog w) = Suc (log_top (vlog t))"
        using evolves_top [OF evolves_refl [OF w(1)]] w(2) n1 n top by simp
      have vs: "?vs = viewstamp2 v (of_nat (Suc (unat n)))" by simp
      have "post (fold_r (prepare_one c v) reqs (n + 1, w)) (\<lambda>(n', u).
          prepared v (Suc (Suc (unat n))) reqs (vlog w) (vlog u))"
        using Cons.IH [OF w(1), of "n + 1"] Cons.prems(3) n1 w(2) n by simp
      then show "post (fold_r (prepare_one c v) reqs (n + 1, w)) (\<lambda>(n', u).
          prepared v (Suc (unat n)) (req # reqs) (vlog t) (vlog u))"
        by (rule post_mono)
          (use top' top eq ops vs in \<open>auto simp: prepared_def nth_Cons split: nat.split\<close>)
    qed
  qed
qed


lemma prepare_loop_frame:
  "post (fold_r (prepare_one c v) reqs (n, t)) (\<lambda>(n', u). sent u = sent t \<and> view u = view t \<and>
     lastCommitted u = lastCommitted t)"
proof (rule post_fold)
  fix req and st :: "opnum_t \<times> 'a vr_replica"
  assume "case st of (n', u) \<Rightarrow> sent u = sent t \<and> view u = view t \<and> lastCommitted u = lastCommitted t"
  then show "post (prepare_one c v req st)
      (\<lambda>(n', u). sent u = sent t \<and> view u = view t \<and> lastCommitted u = lastCommitted t)"
    by (auto simp: prepare_one_def Let_def wp UpdateClientTable_def intro!: postI split: prod.splits)
qed simp

text \<open>
  C19. A follower that accepts a \<open>PREPARE\<close> of its view extends its log by the part of the batch it
  lacks, each request under the number and view the leader gave it, keeps what it had,
  commits nothing, and acknowledges the batch to the leader and to no one else.
\<close>

theorem HandlePrepare_appends:
  assumes inv: "vr_inv s" and "status s = STATUS_NORMAL" and "\<not> AmLeader c s" and "p_view m = view s"
    and start: "1 \<le> p_batchstart m" "p_batchstart m \<le> lastOp s + 1"
    and "unat (p_batchstart m) + length (p_request m) = Suc (unat (p_opnum m))"
    and "lastOp s < p_opnum m"
    and run: "HandlePrepare c remote m s = Inr s'"
  shows "prepared (view s) (unat (p_batchstart m)) (p_request m) (vlog s) (vlog s') \<and>
    lastOp s' = p_opnum m \<and> lastCommitted s' = lastCommitted s \<and>
    sent s' = sent s @ [SendMessageToReplica (GetLeaderIndex (configuration c) (view s))
      (MPrepareOK (PrepareOKMessage (view s) (p_opnum m) (my_idx c)))]"
proof -
  let ?t = "s\<lparr>viewChangeTimeout := Timeout_Reset (viewChangeTimeout s)\<rparr>"
  have n: "Suc (unat (p_batchstart m - 1)) = unat (p_batchstart m)"
    using start(1) by (simp add: unat_diff word_le_nat_alt)
  have bs: "\<not> lastOp s + 1 < p_batchstart m" using start(2) by simp
  have "unat (p_batchstart m) \<le> Suc (unat (lastOp s))"
    using start(2) evolves_next(2) [OF evolves_refl [OF inv]] by (simp add: word_le_nat_alt)
  then have n': "unat (p_batchstart m - 1) \<le> unat (lastOp ?t)" using n by simp
  have "unat (p_opnum m) < 2 ^ 64" using unsigned_less [of "p_opnum m"] by simp
  then have room: "unat (p_batchstart m - 1) + length (p_request m) < 2 ^ 64" using assms(7) n by simp
  obtain k u where loop: "fold_r (prepare_one c (view s)) (p_request m) (p_batchstart m - 1, ?t) = Inr (k, u)"
      and s': "s' = send_leader c (MPrepareOK (PrepareOKMessage (view s) (p_opnum m) (my_idx c))) u"
    using run assms(2-4,8) bs
    by (auto simp: HandlePrepare_def assert_r_def bind_r_Inr Let_def not_le split: if_splits)
  have "vr_inv ?t" using inv by simp
  from prepare_loop [OF this n' room, of c "view s"] loop n
  have prep: "prepared (view s) (unat (p_batchstart m)) (p_request m) (vlog s) (vlog u)" by simp
  have "vr_inv u"
    using post_prepare_loop [OF advances_refl [OF \<open>vr_inv ?t\<close>], of "p_batchstart m - 1" c "view s" "p_request m"]
      loop start(2) by (auto dest: advances_inv)
  then have "log_top (vlog u) = Suc (unat (lastOp u))" by (intro evolves_top [OF evolves_refl])
  moreover have "log_top (vlog s) = Suc (unat (lastOp s))" using inv by (intro evolves_top [OF evolves_refl])
  ultimately have "lastOp u = p_opnum m"
    using prep assms(7,8) by (simp add: prepared_def word_unat_eq_iff word_less_nat_alt)
  moreover have "sent u = sent s" "view u = view s" "lastCommitted u = lastCommitted s"
    using prepare_loop_frame [of c "view s" "p_request m" "p_batchstart m - 1" ?t] loop by auto
  ultimately show ?thesis
    using prep by (simp add: s' send_leader_def)
qed



section \<open>Where the view change goes wrong\<close>

lemma EnterView_sel:
  "view (EnterView c v s) = v" "status (EnterView c v s) = STATUS_NORMAL"
  "lastOp (EnterView c v s) = lastOp s" "lastCommitted (EnterView c v s) = lastCommitted s"
  "vlog (EnterView c v s) = vlog s" "lastBatchEnd (EnterView c v s) = lastOp s"
  by (simp_all add: EnterView_def Let_def)

text \<open>
  C25. A \<open>STARTVIEW\<close> without entries (the new leader has nothing beyond the commit point) leaves the
  follower's uncommitted tail in the log while \<open>lastOp\<close> goes back to the commit point: the log
  and \<open>lastOp\<close> disagree, and the next \<open>PREPARE\<close> of the new view, numbered \<open>lastOp + 1\<close> as it
  should be, fails the assertion of \<open>Log::Append\<close>.
\<close>

theorem HandleStartView_keeps_tail:
  assumes inv: "vr_inv s" and "view s < sv_view m" and "sv_entries m = []"
    and "sv_lastCommitted m = lastCommitted s" "sv_lastOp m = lastCommitted s"
    and "GetLeaderIndex (configuration c) (sv_view m) \<noteq> replicaIdx c"
    and behind: "lastCommitted s < lastOp s" and chk: "\<not> nassert c"
  shows "\<exists>s'. HandleStartView c remote m s = Inr s' \<and> vlog s' = vlog s \<and> lastOp s' = lastCommitted s \<and>
    \<not> vr_inv s' \<and>
    HandlePrepare c remote' (PrepareMessage (sv_view m) (lastOp s' + 1) (lastOp s' + 1) [req]) s'
      = Inl AssertFailed"
proof -
  let ?s' = "(EnterView c (sv_view m) s)\<lparr>lastOp := lastCommitted s\<rparr>"
  have ev: "evolves s (lastOp s) (vlog s)" by (rule evolves_refl [OF inv])
  have lead: "\<not> AmLeader c ?s'" using assms(6) by (simp add: AmLeader_def EnterView_sel)
  have nb: "\<not> sv_view m < view s" "sv_view m \<noteq> view s" using assms(2) by auto
  have "\<not> (lastOp s \<le> lastCommitted s)" using behind by simp
  then have "op_range (lastOp s) (lastCommitted s) = []" by (simp add: op_range_def word_le_nat_alt)
  then have run: "HandleStartView c remote m s = Inr ?s'"
    using assms(3-6) nb lead
    by (simp add: HandleStartView_def Let_def CommitUpTo.simps SendPrepareOKs_def EnterView_sel)
  have vl: "vlog ?s' = vlog s" by (simp add: EnterView_sel)
  have "\<not> vr_inv ?s'"
    using inv behind by (auto simp: vr_inv_def vl word_less_nat_alt)
  moreover have "Append c (mk_LogEntry (viewstamp2 (sv_view m) (lastCommitted s + 1)) LOG_STATE_PREPARED req)
      (vlog s) = Inl AssertFailed"
  proof -
    have "entries (vlog s) \<noteq> []" using inv behind by (auto simp: vr_inv_def word_less_nat_alt)
    moreover have "lastCommitted s + 1 \<noteq> LastOpnum (vlog s) + 1"
      using behind by (simp add: evolves_next(1) [OF ev])
    ultimately show ?thesis using chk by (simp add: Append_def assert_r_def mk_LogEntry_def)
  qed
  then have "HandlePrepare c remote' (PrepareMessage (sv_view m) (lastOp ?s' + 1) (lastOp ?s' + 1) [req]) ?s'
      = Inl AssertFailed"
    using lead unat_less_succ [OF behind]
    by (simp add: HandlePrepare_def EnterView_sel Let_def AmLeader_def prepare_one_def word_le_nat_alt)
  ultimately show ?thesis using run vl by simp
qed

text \<open>
  A \<open>DOVIEWCHANGE\<close> that completes its quorum at the leader of the new view before any
  \<open>STARTVIEWCHANGE\<close> for that view has come in, with the leader's own log the latest, makes the
  code dereference the end iterator that \<open>std::min_element\<close> returns on an empty map.
\<close>

theorem HandleDoViewChange_without_StartViewChange:
  assumes "view s < dvc_view m" and "GetLeaderIndex (configuration c) (dvc_view m) = replicaIdx c"
    and "numRequired (doViewChangeQuorum s) \<le>
      int (length (smap_put (int_of_u32 (dvc_replicaIdx m)) m (QS_at (doViewChangeQuorum s) (dvc_view m))))"
    and "snd (snd (latest_dvc (vlog s)
      (map snd (smap_put (int_of_u32 (dvc_replicaIdx m)) m (QS_at (doViewChangeQuorum s) (dvc_view m)))))) = None"
    and "QS_at (startViewChangeQuorum s) (dvc_view m) = []"
  shows "HandleDoViewChange c remote m s = Inl Undefined"
proof -
  let ?ms = "smap_put (int_of_u32 (dvc_replicaIdx m)) m (QS_at (doViewChangeQuorum s) (dvc_view m))"
  obtain lv lop where latest: "latest_dvc (vlog s) (map snd ?ms) = (lv, lop, None)"
    using assms(4) by (metis prod.collapse)
  let ?t = "StartViewChange c (dvc_view m) s"
  have t: "doViewChangeQuorum ?t = doViewChangeQuorum s" "startViewChangeQuorum ?t = startViewChangeQuorum s"
      "view ?t = dvc_view m" "vlog ?t = vlog s"
    by (simp_all add: StartViewChange_def Let_def send_def)
  have "BecomeLeader c m ?ms (?t\<lparr>doViewChangeQuorum := q\<rparr>) = Inl Undefined" for q
    by (simp add: BecomeLeader_def t latest QS_GetMessages_def assms(5) min_opnum_def Let_def)
  moreover have "\<not> dvc_view m < view s" "dvc_view m \<noteq> view s" using assms(1) by auto
  ultimately show ?thesis
    using assms(1-3) by (simp add: HandleDoViewChange_def QS_AddAndCheckForQuorum_eq Let_def t)
qed

end
