(* ===== verification/VRBuilds.thy ===== *)
theory VRBuilds
  imports VRRuns
begin

text \<open>
  The two builds of \<open>src/Makefile\<close>: with assertions, and without them (\<open>NASSERT\<close>, the
  default). A run of the checking build that returns is, step for step, the run of the other
  build: the assertions of the log and of the replica only ever stop a run.
\<close>

abbreviation bench :: "'e log_env_scheme \<Rightarrow> 'e log_env_scheme" where
  "bench E \<equiv> E\<lparr>nassert := True\<rparr>"

lemma refines_bench_assert [refines_intro]:
  "refines k k' \<Longrightarrow> refines (assert_r b p k) (assert_r (nassert (bench E)) p k')"
  by (auto simp: refines_def assert_r_def split: if_splits)

lemma refines_Let [refines_intro]:
  "(\<And>x. refines (f x) (g x)) \<Longrightarrow> refines (let x = e in f x) (let x = e in g x)"
  by (simp add: Let_def)

lemma refines_option [refines_intro]:
  "refines r q \<Longrightarrow> (\<And>x. refines (f x) (g x)) \<Longrightarrow>
   refines (case v of None \<Rightarrow> r | Some x \<Rightarrow> f x) (case v of None \<Rightarrow> q | Some x \<Rightarrow> g x)"
  by (cases v) auto

lemma refines_list [refines_intro]:
  "refines r q \<Longrightarrow> (\<And>x xs. refines (f x xs) (g x xs)) \<Longrightarrow>
   refines (case v of [] \<Rightarrow> r | x # xs \<Rightarrow> f x xs) (case v of [] \<Rightarrow> q | x # xs \<Rightarrow> g x xs)"
  by (cases v) auto

lemma refines_prod [refines_intro]:
  "(\<And>x y. refines (f x y) (g x y)) \<Longrightarrow>
   refines (case v of (x, y) \<Rightarrow> f x y) (case v of (x, y) \<Rightarrow> g x y)"
  by (cases v) auto

lemma refines_prod_fun [refines_intro]:
  "(\<And>x y. refines (f x y s) (g x y s)) \<Longrightarrow>
   refines ((case v of (x, y) \<Rightarrow> f x y) s) ((case v of (x, y) \<Rightarrow> g x y) s)"
  by (cases v) auto

section \<open>The log\<close>

lemma refines_Find [refines_intro]: "refines (Find E n l) (Find (bench E) n l)"
  unfolding Find_def by (intro refines_intro)

lemma ComputeHash_bench: "ComputeHash (bench E) = ComputeHash E"
  by (intro ext) (simp add: ComputeHash_def)

lemma refines_Append [refines_intro]: "refines (Append E e l) (Append (bench E) e l)"
  unfolding Append_def ComputeHash_bench by (intro refines_intro)

lemma refines_SetStatus [refines_intro]:
  "refines (SetStatus E n st l) (SetStatus (bench E) n st l)"
  unfolding SetStatus_def by (intro refines_intro)

lemma refines_RemoveAfter [refines_intro]:
  "refines (RemoveAfter E n l) (RemoveAfter (bench E) n l)"
  unfolding RemoveAfter_def by (intro refines_intro)

lemma refines_dump_loop [refines_intro]:
  "refines (dump_loop E i n l) (dump_loop (bench E) i n l)"
proof (induction E i n l rule: dump_loop.induct)
  case (1 E i n l)
  show ?case
  proof (cases "i < n")
    case True
    show ?thesis
      unfolding dump_loop.simps [of E i n l] dump_loop.simps [of "bench E" i n l] if_P [OF True]
      by (intro refines_intro "1.IH" [OF True])
  qed (simp add: dump_loop.simps)
qed

lemma refines_Dump [refines_intro]: "refines (Dump E n l) (Dump (bench E) n l)"
  unfolding Dump_def Dump_to_def by (intro refines_intro)

lemma refines_install_skip [refines_intro]:
  "refines (install_skip E its l) (install_skip (bench E) its l)"
  by (induction its) (auto intro!: refines_intro)

lemma refines_Install [refines_intro]: "refines (Install E its l) (Install (bench E) its l)"
  unfolding Install_def install_append_def by (intro refines_intro)

section \<open>The replica\<close>

lemma bench_simps:
  "AmLeader (bench c) = AmLeader c"
  "my_idx (bench c) = my_idx c"
  "send_leader (bench c) = send_leader c"
  "EnterView (bench c) = EnterView c"
  "StartViewChange (bench c) = StartViewChange c"
  "SendRecoveryMessages (bench c) = SendRecoveryMessages c"
  "configuration (bench c) = configuration c"
  "replicaIdx (bench c) = replicaIdx c"
  "batchSize (bench c) = batchSize c"
  "app_code (bench c) = app_code c"
  "dead_dvc (bench c) = dead_dvc c"
  by (simp_all add: fun_eq_iff AmLeader_def my_idx_def send_leader_def EnterView_def StartViewChange_def
      SendRecoveryMessages_def)

lemma refines_CommitNext [refines_intro]: "refines (CommitNext c s) (CommitNext (bench c) s)"
  unfolding CommitNext_def bench_simps by (intro refines_intro)

lemma refines_CommitUpTo [refines_intro]: "refines (CommitUpTo c n s) (CommitUpTo (bench c) n s)"
proof (induction c n s rule: CommitUpTo.induct)
  case (1 c n s)
  show ?case
  proof (cases "lastCommitted s < n")
    case True
    show ?thesis
      unfolding CommitUpTo.simps [of c n s] CommitUpTo.simps [of "bench c" n s] if_P [OF True]
      by (intro refines_intro "1.IH" [OF True])
  qed (simp add: CommitUpTo.simps)
qed

lemma refines_UpdateClientTable [refines_intro]:
  "refines (UpdateClientTable c req s) (UpdateClientTable (bench c) req s)"
  unfolding UpdateClientTable_def by (intro refines_intro)

lemma refines_SendPrepareOKs [refines_intro]:
  "refines (SendPrepareOKs c n s) (SendPrepareOKs (bench c) n s)"
  unfolding SendPrepareOKs_def SendPrepareOK_for_def bench_simps by (intro refines_intro)

lemma refines_CloseBatch [refines_intro]: "refines (CloseBatch c s) (CloseBatch (bench c) s)"
  unfolding CloseBatch_def batch_request_def bench_simps by (intro refines_intro)

lemma refines_HandleRequest [refines_intro]:
  "refines (HandleRequest c r m s) (HandleRequest (bench c) r m s)"
  unfolding HandleRequest_def AcceptRequest_def Let_def bench_simps by (intro refines_intro)

lemma refines_HandlePrepare [refines_intro]:
  "refines (HandlePrepare c r m s) (HandlePrepare (bench c) r m s)"
  unfolding HandlePrepare_def prepare_one_def bench_simps by (intro refines_intro)

lemma refines_HandlePrepareOK [refines_intro]:
  "refines (HandlePrepareOK c r m s) (HandlePrepareOK (bench c) r m s)"
  unfolding HandlePrepareOK_def bench_simps by (intro refines_intro)

lemma refines_HandleCommit [refines_intro]:
  "refines (HandleCommit c r m s) (HandleCommit (bench c) r m s)"
  unfolding HandleCommit_def bench_simps by (intro refines_intro)

lemma refines_HandleStateTransfer [refines_intro]:
  "refines (HandleStateTransfer c r m s) (HandleStateTransfer (bench c) r m s)"
  unfolding HandleStateTransfer_def transfer_entry_def append_new_def bench_simps
  by (intro refines_intro)

lemma refines_HandleStartViewChange [refines_intro]:
  "refines (HandleStartViewChange c r m s) (HandleStartViewChange (bench c) r m s)"
  unfolding HandleStartViewChange_def bench_simps by (intro refines_intro)

lemma refines_BecomeLeader [refines_intro]:
  "refines (BecomeLeader c m ms s) (BecomeLeader (bench c) m ms s)"
  unfolding BecomeLeader_def install_latest_def bench_simps by (intro refines_intro)

lemma refines_HandleDoViewChange [refines_intro]:
  "refines (HandleDoViewChange c r m s) (HandleDoViewChange (bench c) r m s)"
  unfolding HandleDoViewChange_def bench_simps by (intro refines_intro)

lemma refines_HandleStartView [refines_intro]:
  "refines (HandleStartView c r m s) (HandleStartView (bench c) r m s)"
  unfolding HandleStartView_def bench_simps by (intro refines_intro)

lemma refines_HandleRecoveryResponse [refines_intro]:
  "refines (HandleRecoveryResponse c r m s) (HandleRecoveryResponse (bench c) r m s)"
  unfolding HandleRecoveryResponse_def bench_simps by (intro refines_intro)

lemma refines_ReceiveMessage [refines_intro]:
  "refines (ReceiveMessage c r m s) (ReceiveMessage (bench c) r m s)"
proof (cases m)
  case (MUnloggedRequest x)
  show ?thesis unfolding MUnloggedRequest ReceiveMessage.simps HandleUnloggedRequest_def bench_simps
    by (intro refines_intro)
next
  case (MRequestStateTransfer x)
  show ?thesis unfolding MRequestStateTransfer ReceiveMessage.simps HandleRequestStateTransfer_def
    by (intro refines_intro)
next
  case (MRecovery x)
  show ?thesis unfolding MRecovery ReceiveMessage.simps HandleRecovery_def bench_simps
    by (intro refines_intro)
qed (simp_all only: ReceiveMessage.simps, (intro refines_intro)+)

lemma refines_timer_callback [refines_intro]:
  "refines (timer_callback c k s) (timer_callback (bench c) k s)"
  by (cases k) (simp_all only: timer_callback.simps bench_simps SendNullCommit_def ResendPrepare_def,
      (intro refines_intro)+)

section \<open>Runs\<close>

lemma refines_mk_Log [refines_intro]: "refines (mk_Log E b n h) (mk_Log (bench E) b n h)"
  unfolding mk_Log_def by (intro refines_intro)

lemma refines_VRReplica_new [refines_intro]:
  "refines (VRReplica_new c b n a) (VRReplica_new (bench c) b n a)"
  unfolding VRReplica_new_def bench_simps by (intro refines_intro)

lemma refines_vr_event_step [refines_intro]:
  "refines (vr_event_step c ev s) (vr_event_step (bench c) ev s)"
  by (cases ev) (simp_all only: vr_event_step_def vr_event.case, (intro refines_intro)+)


end
