(* ===== verification/VRScenarios.thy ===== *)
theory VRScenarios
  imports VROperations VRBuilds
begin

text \<open>
  A concrete group of three replicas, the runs on it at which the hypotheses of the
  properties are met, and the runs in which the code does not do what it means to.
\<close>

definition env3 :: "bool \<Rightarrow> int \<Rightarrow> unit vr_env" where
  "env3 na i = \<lparr>nassert = na, sha1 = (\<lambda>_. ''''), configuration = conf3, replicaIdx = i, batchSize = 1,
     app_code = default_AppReplica, dead_dvc = Inr\<rparr>"

definition entry0 :: "opnum_t \<Rightarrow> Request \<Rightarrow> MsgLogEntry" where
  "entry0 n r = \<lparr>me_view = 0, me_opnum = n, me_sessnum = 0, me_msgnum = 0, me_shardnum = 0,
     me_request = r, me_state = LOG_STATE_PREPARED, me_hash = ''''\<rparr>"

text \<open>A replica with index \<open>i\<close> that has just started, and its state after a run.\<close>

definition started :: "bool \<Rightarrow> int \<Rightarrow> unit vr_replica" where
  "started na i = projr (VRReplica_new (env3 na i) True 0 ())"

definition after :: "int \<Rightarrow> vr_event list \<Rightarrow> unit vr_replica" where
  "after i evs = projr (vr_run (env3 False i) evs (started False i))"

lemma started_new: "VRReplica_new (env3 na i) True 0 () = Inr (started na i)"
  unfolding started_def
  by (rule not_isl_result) (use VRReplica_new_ok [of "env3 na i" True 0 "()"] in \<open>auto elim: returnsE\<close>)

lemma vr_inv_started: "vr_inv (started na i)"
  using VRReplica_new_ok [of "env3 na i" True 0 "()"] by (simp add: started_new)

lemma vr_inv_after:
  assumes "events_fit (env3 False i) (started False i) evs"
    and "\<not> isl (vr_run (env3 False i) evs (started False i))"
  shows "vr_inv (after i evs)"
  using post_vr_run [OF advances_refl [OF vr_inv_started] assms(1)] not_isl_result [OF assms(2)]
  by (simp add: after_def) (metis advances_inv post_simps(2))

text \<open>The steps at which the properties are applied.\<close>

definition request_a :: vr_event where
  "request_a = Deliver 100 (MRequest (mk_req 7 1 ''a''))"

definition ok_1 :: PrepareOKMessage where
  "ok_1 = PrepareOKMessage 0 1 1"

definition prepare_a :: PrepareMessage where
  "prepare_a = PrepareMessage 0 1 1 [mk_req 7 1 ''a'']"

section \<open>Witnesses\<close>

lemma inv_requested: "vr_inv (after 0 [request_a])"
  by (rule vr_inv_after; code_simp)

lemma inv_prepared: "vr_inv (after 1 [Deliver 0 (MPrepare prepare_a)])"
  by (rule vr_inv_after; code_simp)



theorem CommitUpTo_commits_witness:
  "\<exists>s'. CommitUpTo (env3 False 0) 1 (after 0 [request_a]) = Inr s' \<and> lastCommitted s' = 1 \<and>
     executed_between (after 0 [request_a]) s'"
proof -
  have le: "1 \<le> lastOp (after 0 [request_a])" by code_simp
  have "lastCommitted (after 0 [request_a]) = 0" by code_simp
  with CommitUpTo_commits [OF inv_requested le, of "env3 False 0"] show ?thesis by auto
qed

theorem HandlePrepareOK_needs_quorum_witness:
  "let s = after 0 [request_a]; s' = projr (HandlePrepareOK (env3 False 0) 1 ok_1 s)
   in lastCommitted s' = 1 \<and>
      1 \<le> int (card (dom (QS_votes (prepareOKQuorum s') (viewstamp2 (view s) 1))))"
proof -
  let ?s = "after 0 [request_a]" and ?s' = "projr (HandlePrepareOK (env3 False 0) 1 ok_1 (after 0 [request_a]))"
  have run: "HandlePrepareOK (env3 False 0) 1 ok_1 ?s = Inr ?s'" by (rule not_isl_result) code_simp
  have lt: "lastCommitted ?s < lastCommitted ?s'" by code_simp
  have "numRequired (prepareOKQuorum ?s) = 1" "view ?s = 0" by code_simp+
  with HandlePrepareOK_needs_quorum [OF inv_requested run lt] show ?thesis by (simp add: Let_def ok_1_def)
qed

theorem HandlePrepare_appends_witness:
  "let s = started False 1; s' = projr (HandlePrepare (env3 False 1) 0 prepare_a s)
   in prepared 0 1 [mk_req 7 1 ''a''] (vlog s) (vlog s') \<and> lastOp s' = 1 \<and>
      sent s' = [SendMessageToReplica 0 (MPrepareOK (PrepareOKMessage 0 1 1))]"
proof -
  let ?c = "env3 False 1" and ?s = "started False 1"
  let ?s' = "projr (HandlePrepare ?c 0 prepare_a ?s)"
  have run: "HandlePrepare ?c 0 prepare_a ?s = Inr ?s'" by (rule not_isl_result) code_simp
  have s: "status ?s = STATUS_NORMAL" "\<not> AmLeader ?c ?s" "p_view prepare_a = view ?s"
      "1 \<le> p_batchstart prepare_a" "p_batchstart prepare_a \<le> lastOp ?s + 1"
      "unat (p_batchstart prepare_a) + length (p_request prepare_a) = Suc (unat (p_opnum prepare_a))"
      "lastOp ?s < p_opnum prepare_a"
    by code_simp+
  have "view ?s = 0" "sent ?s = []" "GetLeaderIndex (configuration ?c) 0 = 0" "my_idx ?c = 1" by code_simp+
  with HandlePrepare_appends [OF vr_inv_started s run] show ?thesis by (simp add: Let_def prepare_a_def)
qed


theorem HandleStartView_keeps_tail_witness:
  "let s = after 1 [Deliver 0 (MPrepare prepare_a)] in
   \<exists>s'. HandleStartView (env3 False 1) 2 (StartViewMessage 2 0 0 []) s = Inr s' \<and> lastOp s' = 0 \<and> \<not> vr_inv s' \<and>
     HandlePrepare (env3 False 1) 2 (PrepareMessage 2 1 1 [mk_req 8 1 ''b'']) s' = Inl AssertFailed"
proof -
  let ?s = "after 1 [Deliver 0 (MPrepare prepare_a)]" and ?m = "StartViewMessage 2 0 0 []" and ?c = "env3 False 1"
  have s: "view ?s < sv_view ?m" "sv_entries ?m = []" "sv_lastCommitted ?m = lastCommitted ?s"
      "sv_lastOp ?m = lastCommitted ?s" "GetLeaderIndex (configuration ?c) (sv_view ?m) \<noteq> replicaIdx ?c"
      "lastCommitted ?s < lastOp ?s" "\<not> nassert ?c"
    by code_simp+
  from HandleStartView_keeps_tail [OF inv_prepared s, of 2 2 "mk_req 8 1 ''b''"]
  obtain s' where s': "HandleStartView ?c 2 ?m ?s = Inr s'" "lastOp s' = 0" "\<not> vr_inv s'"
      "HandlePrepare ?c 2 (PrepareMessage 2 (lastOp s' + 1) (lastOp s' + 1) [mk_req 8 1 ''b'']) s' = Inl AssertFailed"
    using s(3) by auto
  then show ?thesis by (auto simp: Let_def)
qed

theorem HandleDoViewChange_without_StartViewChange_witness:
  "HandleDoViewChange (env3 True 1) 2 (DoViewChangeMessage 1 0 0 0 [] 2) (started True 1) = Inl Undefined"
  by (rule HandleDoViewChange_without_StartViewChange; code_simp)

section \<open>A new leader whose log was behind\<close>

text \<open>
  \<open>EnterView\<close> records \<open>lastBatchEnd = lastOp\<close> before \<open>HandleDoViewChange\<close> sets \<open>lastOp\<close> to the end of
  the log it has installed. Replica 1 of three enters view 1 as leader with an operation of
  view 0 it did not have before; the first client request closes a batch that starts in
  view 0, and the assertion \<open>entry->viewstamp.view == view\<close> of \<open>CloseBatch\<close> fails.
\<close>

theorem new_leader_batch_from_old_view:
  "vr_run (env3 False 1)
     [Deliver 2 (MStartViewChange (StartViewChangeMessage 1 2 0)),
      Deliver 2 (MDoViewChange (DoViewChangeMessage 1 0 1 0 [entry0 1 (mk_req 7 1 ''a'')] 2)),
      Deliver 100 (MRequest (mk_req 8 1 ''b''))] (started False 1) = Inl AssertFailed"
  unfolding fails_iff [symmetric] by code_simp

end
