(* ===== verification/VRSystem.thy ===== *)
theory VRSystem
  imports VRScenarios
begin

text \<open>
  The group of replicas: replica \<open>i\<close> of a list runs the code of \<open>VRReplica\<close> with index \<open>i\<close>, and
  any message that has ever been sent may be delivered, late, repeatedly or never, to a
  replica it was sent to (the transport promises nothing more). Replica \<open>i\<close> has address \<open>i\<close>;
  requests may come from any address. \<open>vr_reach c a P\<close> are the states reachable from the
  constructors by events that satisfy \<open>P\<close>.
\<close>

section \<open>The group and its runs\<close>

definition env_at :: "'app vr_env \<Rightarrow> nat \<Rightarrow> 'app vr_env" where
  "env_at c i = c\<lparr>replicaIdx := int i\<rparr>"

text \<open>\<open>carries src dst e m\<close>: the effect \<open>e\<close> of replica \<open>src\<close> sends \<open>m\<close> to replica \<open>dst\<close>.\<close>

fun carries :: "nat \<Rightarrow> nat \<Rightarrow> vr_effect \<Rightarrow> ToReplicaMessage \<Rightarrow> bool" where
  "carries src dst (SendMessageToAll x) m = (x = m \<and> src \<noteq> dst)"
| "carries src dst (SendMessageToReplica k x) m = (x = m \<and> k = int dst)"
| "carries src dst (SendMessage r x) m = (x = m \<and> r = dst)"
| "carries src dst (SendToClient r x) m = False"
| "carries src dst (Executed n b) m = False"

fun from_client :: "ToReplicaMessage \<Rightarrow> bool" where
  "from_client (MRequest m) = True"
| "from_client (MUnloggedRequest m) = True"
| "from_client m = False"

fun enabled :: "'app vr_replica list \<Rightarrow> nat \<Rightarrow> vr_event \<Rightarrow> bool" where
  "enabled rs i (Fire k) = True"
| "enabled rs i (Deliver src m) =
     (from_client m \<or> src < length rs \<and> (\<exists>e \<in> set (sent (rs ! src)). carries src i e m))"

definition vr_initial :: "'app vr_env \<Rightarrow> 'app \<Rightarrow> 'app vr_replica list \<Rightarrow> bool" where
  "vr_initial c a rs \<longleftrightarrow>
     int (length rs) = num_replicas (configuration c) \<and>
     (\<forall>i < length rs. VRReplica_new (env_at c i) True 0 a = Inr (rs ! i))"

inductive vr_reach ::
  "'app vr_env \<Rightarrow> 'app \<Rightarrow> (vr_event \<Rightarrow> bool) \<Rightarrow> 'app vr_replica list \<Rightarrow> bool"
  for c a P where
  initial: "vr_initial c a rs \<Longrightarrow> vr_reach c a P rs"
| event: "vr_reach c a P rs \<Longrightarrow> i < length rs \<Longrightarrow> P ev \<Longrightarrow> enabled rs i ev \<Longrightarrow>
    vr_event_step (env_at c i) ev (rs ! i) = Inr s \<Longrightarrow> vr_reach c a P (rs[i := s])"

text \<open>The same as a function on a schedule, for concrete runs.\<close>

fun group_run :: "'app vr_env \<Rightarrow> (nat \<times> vr_event) list \<Rightarrow> 'app vr_replica list \<Rightarrow> 'app vr_replica list option" where
  "group_run c [] rs = Some rs"
| "group_run c ((i, ev) # evs) rs =
     (if i < length rs \<and> enabled rs i ev then
        case vr_event_step (env_at c i) ev (rs ! i) of
          Inl _ \<Rightarrow> None
        | Inr s \<Rightarrow> group_run c evs (rs[i := s])
      else None)"

lemma group_run_reach:
  "vr_reach c a P rs \<Longrightarrow> (\<forall>(i, ev) \<in> set evs. P ev) \<Longrightarrow> group_run c evs rs = Some rs' \<Longrightarrow> vr_reach c a P rs'"
proof (induction evs arbitrary: rs)
  case (Cons x evs)
  obtain i ev where x: "x = (i, ev)" by (cases x)
  from Cons.prems(3) x obtain s where s: "i < length rs" "enabled rs i ev"
      "vr_event_step (env_at c i) ev (rs ! i) = Inr s" "group_run c evs (rs[i := s]) = Some rs'"
    by (auto split: if_splits sum.splits)
  with Cons.prems x have "vr_reach c a P (rs[i := s])" by (auto intro: vr_reach.event)
  with Cons s(4) show ?case by auto
qed simp

section \<open>A committed operation that is lost\<close>

definition group3 :: "unit vr_replica list" where
  "group3 = map (started False) [0, 1, 2]"

definition svc :: "view_t \<Rightarrow> u32 \<Rightarrow> ToReplicaMessage" where
  "svc v i = MStartViewChange (StartViewChangeMessage v i 0)"

definition entry_in :: "view_t \<Rightarrow> Request \<Rightarrow> MsgLogEntry" where
  "entry_in v r = \<lparr>me_view = v, me_opnum = 1, me_sessnum = 0, me_msgnum = 0, me_shardnum = 0,
     me_request = r, me_state = LOG_STATE_PREPARED, me_hash = EMPTY_HASH\<rparr>"

definition split_schedule :: "(nat \<times> vr_event) list" where
  "split_schedule =
     [(0, Deliver 100 (MRequest (mk_req 7 1 ''a''))),
      (2, Fire ViewChangeTimer), (1, Deliver 2 (svc 1 2)), (2, Deliver 1 (svc 1 1)),
      (1, Deliver 2 (MDoViewChange (DoViewChangeMessage 1 0 0 0 [] 2))),
      (1, Deliver 101 (MRequest (mk_req 8 1 ''b''))),
      (2, Fire ViewChangeTimer), (2, Fire ViewChangeTimer), (0, Deliver 2 (svc 3 2)), (2, Deliver 0 (svc 3 0)),
      (0, Deliver 2 (MDoViewChange (DoViewChangeMessage 3 0 0 0 [] 2))),
      (2, Deliver 0 (MStartView (StartViewMessage 3 1 0 [entry_in 0 (mk_req 7 1 ''a'')]))),
      (0, Deliver 2 (MPrepareOK (PrepareOKMessage 3 1 2))),
      (2, Fire ViewChangeTimer), (1, Deliver 2 (svc 4 2)), (2, Deliver 1 (svc 4 1)),
      (1, Deliver 2 (MDoViewChange (DoViewChangeMessage 4 0 1 0 [entry_in 0 (mk_req 7 1 ''a'')] 2))),
      (2, Deliver 1 (MStartView (StartViewMessage 4 1 0 [entry_in 1 (mk_req 8 1 ''b'')]))),
      (1, Deliver 2 (MPrepareOK (PrepareOKMessage 4 1 2)))]"

lemma split_run:
  "map_option (map (executed \<circ> sent)) (group_run (env3 False 0) split_schedule group3) =
     Some [[(1, ''a'')], [(1, ''b'')], []]"
  by code_simp

lemma env_at_env3: "env_at (env3 na j) i = env3 na (int i)"
  by (simp add: env_at_def env3_def)

lemma group3_initial: "vr_initial (env3 False 0) () group3"
proof -
  have "num_replicas (configuration (env3 False 0)) = 3" by (simp add: env3_def conf3_def)
  then show ?thesis
    by (auto simp: vr_initial_def env_at_env3 group3_def started_new nth_Cons split: nat.split)
qed

text \<open>
  C23. Operations that have been committed and executed can be lost: \<open>HandleStartViewChange\<close> reports
  the view of the last log entry as \<open>lastnormalview\<close>, not the last view in which the replica was
  active, so a log whose last entry is from an old view loses against one that was never
  replicated, even if the old entry has meanwhile been committed in a later view. In a group
  of three, with no crash and no failed assertion, replica 0 executes request \<open>a\<close> as operation 1
  and replica 1 executes request \<open>b\<close> as operation 1.
\<close>

theorem replicas_diverge:
  "\<exists>rs. vr_reach (env3 False 0) () (\<lambda>_. True) rs \<and>
     executed (sent (rs ! 0)) = [(1, ''a'')] \<and> executed (sent (rs ! 1)) = [(1, ''b'')]"
proof -
  obtain rs where rs: "group_run (env3 False 0) split_schedule group3 = Some rs"
      "map (executed \<circ> sent) rs = [[(1, ''a'')], [(1, ''b'')], []]"
    using split_run by auto
  have "vr_reach (env3 False 0) () (\<lambda>_. True) rs"
    by (rule group_run_reach [OF vr_reach.initial [OF group3_initial] _ rs(1)]) simp
  with rs(2) show ?thesis by (cases rs) (auto simp: Cons_eq_map_conv)
qed

end
