(* ===== verification/VRNormalCase.thy ===== *)
theory VRNormalCase
  imports VRSystem
begin

text \<open>
  The normal case, one replica at a time: what the messages of a run without view changes
  promise about the leader's log, and that a follower (\<open>good_follower_event\<close>) and the leader
  (\<open>lead_event\<close>) keep these promises with every message they send. \<open>R\<close> stands for the operations
  of the leader's log, \<open>C\<close> for its commit point; what a replica holds, and every message it
  has ever sent, is judged against them.
\<close>

section \<open>What a message promises\<close>

type_synonym log_ops = "nat \<Rightarrow> (viewstamp_t \<times> Request) option"

definition batch_ok :: "log_ops \<Rightarrow> PrepareMessage \<Rightarrow> bool" where
  "batch_ok R p \<longleftrightarrow>
     p_view p = 0 \<and> 1 \<le> unat (p_batchstart p) \<and>
     unat (p_batchstart p) + length (p_request p) = Suc (unat (p_opnum p)) \<and>
     (\<forall>j < length (p_request p). R (unat (p_batchstart p) + j) =
        Some (viewstamp2 0 (of_nat (unat (p_batchstart p) + j)), p_request p ! j))"

definition item_ok :: "log_ops \<Rightarrow> MsgLogEntry \<Rightarrow> bool" where
  "item_ok R e \<longleftrightarrow> me_view e = 0 \<and> R (unat (me_opnum e)) = Some (viewstamp2 0 (me_opnum e), me_request e)"

fun msg_ok :: "log_ops \<Rightarrow> opnum_t \<Rightarrow> nat \<Rightarrow> opnum_t \<Rightarrow> ToReplicaMessage \<Rightarrow> bool" where
  "msg_ok R C i lo (MPrepare p) = batch_ok R p"
| "msg_ok R C i lo (MPrepareOK x) =
     (po_view x = 0 \<and> i \<noteq> 0 \<and> int_of_u32 (po_replicaIdx x) = int i \<and> po_opnum x \<le> lo)"
| "msg_ok R C i lo (MCommit x) = (c_view x = 0 \<and> c_opnum x \<le> C)"
| "msg_ok R C i lo (MRequestStateTransfer x) = (rst_view x = 0 \<and> i \<noteq> 0)"
| "msg_ok R C i lo (MStateTransfer x) =
     (st_view x = 0 \<and> st_opnum x \<le> C \<and> (\<forall>e \<in> set (st_entries x). item_ok R e))"
| "msg_ok R C i lo (MStartViewChange x) = False"
| "msg_ok R C i lo (MDoViewChange x) = False"
| "msg_ok R C i lo (MStartView x) = False"
| "msg_ok R C i lo m = True"

text \<open>State transfers are only ever sent to followers.\<close>

fun transfer_free :: "ToReplicaMessage \<Rightarrow> bool" where
  "transfer_free (MStateTransfer x) = False"
| "transfer_free m = True"

fun eff_ok :: "log_ops \<Rightarrow> opnum_t \<Rightarrow> nat \<Rightarrow> opnum_t \<Rightarrow> vr_effect \<Rightarrow> bool" where
  "eff_ok R C i lo (SendMessageToAll m) = (msg_ok R C i lo m \<and> transfer_free m)"
| "eff_ok R C i lo (SendMessageToReplica k m) = (msg_ok R C i lo m \<and> transfer_free m)"
| "eff_ok R C i lo (SendMessage r m) = (msg_ok R C i lo m \<and> (transfer_free m \<or> r \<noteq> 0))"
| "eff_ok R C i lo (SendToClient r m) = True"
| "eff_ok R C i lo (Executed n b) = True"

definition good :: "log_ops \<Rightarrow> opnum_t \<Rightarrow> nat \<Rightarrow> 'app vr_replica \<Rightarrow> bool" where
  "good R C i s \<longleftrightarrow>
     status s = STATUS_NORMAL \<and> view s = 0 \<and> entry_op (vlog s) \<subseteq>\<^sub>m R \<and> lastCommitted s \<le> C \<and>
     (\<forall>p \<in> set (pendingPrepares s). batch_ok R (snd p)) \<and>
     (\<forall>e \<in> set (sent s). eff_ok R C i (lastOp s) e)"

text \<open>All of it stays true while the leader's log grows and the commit point advances.\<close>

lemma batch_ok_mono: "batch_ok R p \<Longrightarrow> R \<subseteq>\<^sub>m R' \<Longrightarrow> batch_ok R' p"
  by (auto simp: batch_ok_def map_le_def dom_def)

lemma item_ok_mono: "item_ok R e \<Longrightarrow> R \<subseteq>\<^sub>m R' \<Longrightarrow> item_ok R' e"
  by (auto simp: item_ok_def map_le_def dom_def)

lemma msg_ok_mono:
  assumes "R \<subseteq>\<^sub>m R'" and "C \<le> C'" and "lo \<le> lo'"
  shows "msg_ok R C i lo m \<Longrightarrow> msg_ok R' C' i lo' m"
  using assms by (cases m) (auto intro: batch_ok_mono item_ok_mono)

lemma eff_ok_mono:
  assumes "R \<subseteq>\<^sub>m R'" and "C \<le> C'" and "lo \<le> lo'"
  shows "eff_ok R C i lo e \<Longrightarrow> eff_ok R' C' i lo' e"
  using msg_ok_mono [OF assms] by (cases e) auto

lemma good_mono: "good R C i s \<Longrightarrow> R \<subseteq>\<^sub>m R' \<Longrightarrow> C \<le> C' \<Longrightarrow> good R' C' i s"
  unfolding good_def
  by (auto intro: batch_ok_mono eff_ok_mono [of R R' C C'] map_le_trans [of _ R])

section \<open>Operations every replica has\<close>

lemma CommitNext_sent:
  "post (CommitNext c s) (\<lambda>u. (\<forall>e \<in> set (sent u). e \<in> set (sent s) \<or> (\<forall>R C i lo. eff_ok R C i lo e)) \<and>
     lastPrepare u = lastPrepare s)"
  by (auto simp: CommitNext_def wp notify_client_def send_def intro!: postI split: option.splits)

lemma good_CommitNext:
  assumes inv: "vr_inv s" and good: "good R C i s" and lt: "lastCommitted s < n" and n: "n \<le> C"
    and run: "CommitNext c s = Inr u"
  shows "vr_inv u \<and> good R C i u \<and> entry_op (vlog u) = entry_op (vlog s) \<and> lastOp u = lastOp s \<and>
    lastBatchEnd u = lastBatchEnd s \<and> lastPrepare u = lastPrepare s \<and> prepareOKQuorum u = prepareOKQuorum s"
proof -
  have ok: "log_ok (vlog s)" using inv by (simp add: vr_inv_def)
  from CommitNext_returned [OF run ok] obtain e where
    e: "log_num_at (vlog s) (unat (lastCommitted s + 1)) = Some e" and
    u: "vlog u = update_entry (lastCommitted s + 1) (\<lambda>e. e\<lparr>state := LOG_STATE_COMMITTED\<rparr>) (vlog s)"
      "lastCommitted u = lastCommitted s + 1" "lastOp u = lastOp s" "view u = view s"
      "status u = status s" "prepareOKQuorum u = prepareOKQuorum s"
      "pendingPrepares u = pendingPrepares s" "lastBatchEnd u = lastBatchEnd s" by blast
  have "vr_inv u" using CommitNext_advances [OF inv, of c] run by (simp add: advances_inv)
  moreover have ops: "entry_op (vlog u) = entry_op (vlog s)"
    unfolding u entry_op_def fun_eq_iff by (auto simp: update_entry_num_at [OF e] e)
  moreover have "lastCommitted s + 1 \<le> C"
    using lt n unat_less_succ [OF lt] by (simp add: word_le_nat_alt word_less_nat_alt)
  ultimately show ?thesis
    using good u CommitNext_sent [of c s] run by (auto simp: good_def)
qed

lemma good_CommitUpTo:
  "vr_inv s \<Longrightarrow> good R C i s \<Longrightarrow> n \<le> C \<Longrightarrow>
   post (CommitUpTo c n s) (\<lambda>u. vr_inv u \<and> good R C i u \<and> entry_op (vlog u) = entry_op (vlog s) \<and>
     lastOp u = lastOp s \<and> lastBatchEnd u = lastBatchEnd s \<and> lastPrepare u = lastPrepare s \<and>
     prepareOKQuorum u = prepareOKQuorum s)"
proof (induction c n s rule: CommitUpTo.induct)
  case (1 c n s)
  show ?case
  proof (cases "lastCommitted s < n")
    case False
    then show ?thesis using "1.prems" by (simp add: CommitUpTo.simps)
  next
    case True
    show ?thesis
      unfolding CommitUpTo.simps [of c n s]
    proof (simp only: True if_True post_bind, rule postI)
      fix t assume run: "CommitNext c s = Inr t"
      note t = good_CommitNext [OF "1.prems"(1,2) True "1.prems"(3) run]
      show "post (CommitUpTo c n t) (\<lambda>u. vr_inv u \<and> good R C i u \<and> entry_op (vlog u) = entry_op (vlog s) \<and>
          lastOp u = lastOp s \<and> lastBatchEnd u = lastBatchEnd s \<and> lastPrepare u = lastPrepare s \<and>
          prepareOKQuorum u = prepareOKQuorum s)"
        by (rule post_mono [OF "1.IH" [OF True run]]) (use t "1.prems"(3) in auto)
    qed
  qed
qed

lemma good_RequestStateTransfer: "good R C i s \<Longrightarrow> i \<noteq> 0 \<Longrightarrow> good R C i (RequestStateTransfer s)"
  by (auto simp: good_def RequestStateTransfer_def Let_def)

lemma lastOp_RequestStateTransfer [simp]: "lastOp (RequestStateTransfer s) = lastOp s"
  by (simp add: RequestStateTransfer_def Let_def)

lemma pendingPrepares_RequestStateTransfer [simp]:
  "pendingPrepares (RequestStateTransfer s) = pendingPrepares s"
  by (simp add: RequestStateTransfer_def Let_def)

text \<open>The environment of replica \<open>i\<close> in view 0, whose leader is replica 0.\<close>

lemma env_at_sel [simp]:
  "configuration (env_at c i) = configuration c" "nassert (env_at c i) = nassert c"
  "replicaIdx (env_at c i) = int i" "batchSize (env_at c i) = batchSize c"
  by (simp_all add: env_at_def)

lemma AmLeader_at:
  "0 < num_replicas (configuration c) \<Longrightarrow> num_replicas (configuration c) < 2 ^ 31 \<Longrightarrow> view s = 0 \<Longrightarrow>
   AmLeader (env_at c i) s \<longleftrightarrow> i = 0"
  by (simp add: AmLeader_def leader_of_view_0)

lemma my_idx_at: "i < 2 ^ 31 \<Longrightarrow> int_of_u32 (my_idx (env_at c i)) = int i"
  by (simp add: int_of_u32_def my_idx_def signed_of_nat signed_take_bit_int_eq_self)

text \<open>What a dump contains, wherever it starts.\<close>

lemma Dump_items:
  assumes inv: "vr_inv s" and R: "entry_op (vlog s) \<subseteq>\<^sub>m R"
    and plain: "\<And>k v r. R k = Some (v, r) \<Longrightarrow> v = viewstamp2 0 (of_nat k)"
  shows "post (Dump c n (vlog s)) (\<lambda>es. \<forall>e \<in> set es. item_ok R e)"
proof -
  have ok: "log_ok (vlog s)" and st: "start (vlog s) = 1" using inv by (auto simp: vr_inv_def)
  have "item_ok R (dump_entry e)" if "e \<in> set (entries (vlog s))" for e
  proof -
    from that obtain j where j: "j < length (entries (vlog s))" "e = entries (vlog s) ! j"
      by (auto simp: in_set_conv_nth)
    then have at: "log_num_at (vlog s) (Suc j) = Some e"
      using st by (simp add: log_num_at_def log_top_def)
    then have "entry_op (vlog s) (Suc j) = Some (viewstamp e, request e)" by (simp add: entry_op_def)
    with R have r: "R (Suc j) = Some (viewstamp e, request e)" by (metis domI map_le_def)
    from plain [OF r] have vs: "viewstamp e = viewstamp2 0 (of_nat (Suc j))" .
    have "unat (vs_opnum (viewstamp e)) = Suc j" using lg.at_num [OF ok at] .
    with vs r show ?thesis by (simp add: item_ok_def dump_entry_def viewstamp2_def)
  qed
  then show ?thesis by (auto simp: Dump_ok [OF ok] dest: in_set_dropD)
qed

section \<open>What a follower does\<close>

lemma good_UpdateClientTable:
  "good R C i s \<Longrightarrow> post (UpdateClientTable c req s) (\<lambda>u. good R C i u \<and> lastOp u = lastOp s \<and>
     vlog u = vlog s \<and> lastBatchEnd u = lastBatchEnd s \<and> lastPrepare u = lastPrepare s \<and>
     prepareOKQuorum u = prepareOKQuorum s \<and> lastCommitted u = lastCommitted s)"
  by (simp add: UpdateClientTable_def Let_def post_assert good_def)

lemma op_range_le: "k \<in> set (op_range a b) \<Longrightarrow> k \<le> b"
  by (auto simp: op_range_def word_le_nat_alt unat_of_nat intro: order_trans [OF take_bit_nat_less_eq_self])

lemma good_SendPrepareOKs:
  assumes good: "good R C i s" and i: "0 < i" "i < 2 ^ 31"
  shows "post (SendPrepareOKs (env_at c i) n s) (\<lambda>u. good R C i u \<and> lastOp u = lastOp s)"
  unfolding SendPrepareOKs_def
proof (rule post_fold)
  fix k and t :: "'a vr_replica"
  assume k: "k \<in> set (op_range n (lastOp s))" and t: "good R C i t \<and> lastOp t = lastOp s"
  have le: "k \<le> lastOp s" using op_range_le [OF k] .
  have "post (UpdateClientTable (env_at c i) req t) (\<lambda>u. good R C i (send_leader (env_at c i)
      (MPrepareOK (PrepareOKMessage (view u) k (my_idx (env_at c i)))) u) \<and> lastOp u = lastOp s)" for req
    by (rule post_mono [OF good_UpdateClientTable [of R C i t]])
      (use t le i in \<open>auto simp: good_def send_leader_def my_idx_at\<close>)
  with t show "post (SendPrepareOK_for (env_at c i) k t) (\<lambda>u. good R C i u \<and> lastOp u = lastOp s)"
    by (auto simp: SendPrepareOK_for_def wp send_leader_def)
qed (use good in simp)

text \<open>The loop of \<open>HandlePrepare\<close>: what it leaves, and that it touches nothing else.\<close>

lemma prepare_loop_fields:
  "post (fold_r (prepare_one c v) reqs (n, t)) (\<lambda>(n', u). sent u = sent t \<and> view u = view t \<and>
     lastCommitted u = lastCommitted t \<and> status u = status t \<and> pendingPrepares u = pendingPrepares t)"
proof (rule post_fold)
  fix req and st :: "opnum_t \<times> 'a vr_replica"
  assume "case st of (n', u) \<Rightarrow> sent u = sent t \<and> view u = view t \<and> lastCommitted u = lastCommitted t \<and>
    status u = status t \<and> pendingPrepares u = pendingPrepares t"
  then show "post (prepare_one c v req st) (\<lambda>(n', u). sent u = sent t \<and> view u = view t \<and>
      lastCommitted u = lastCommitted t \<and> status u = status t \<and> pendingPrepares u = pendingPrepares t)"
    by (auto simp: prepare_one_def Let_def wp UpdateClientTable_def intro!: postI split: prod.splits)
qed simp

lemma prepared_ops:
  assumes "prepared 0 n reqs l l'" and "entry_op l \<subseteq>\<^sub>m R" and n: "n \<le> log_top l"
    and R: "\<And>j. j < length reqs \<Longrightarrow> R (n + j) = Some (viewstamp2 0 (of_nat (n + j)), reqs ! j)"
  shows "entry_op l' \<subseteq>\<^sub>m R"
  unfolding map_le_def
proof
  fix k assume "k \<in> dom (entry_op l')"
  then obtain x where x: "entry_op l' k = Some x" by auto
  then have top: "k < log_top l'" by (auto simp: entry_op_def log_num_at_def split: if_splits)
  show "entry_op l' k = R k"
  proof (cases "k < log_top l")
    case True
    with assms(1) have "entry_op l' k = entry_op l k" by (simp add: prepared_def)
    with assms(2) x show ?thesis by (metis domI map_le_def)
  next
    case False
    with top assms(1) n have "n \<le> k" "k - n < length reqs" "log_top l \<le> k"
      by (auto simp: prepared_def)
    moreover from this R [of "k - n"] have "R k = Some (viewstamp2 0 (of_nat k), reqs ! (k - n))" by simp
    ultimately show ?thesis
      using assms(1) by (auto simp: prepared_def dest!: spec [of _ "k - n"])
  qed
qed

lemma good_HandlePrepare:
  assumes inv: "vr_inv s" and good: "good R C i s" and i: "0 < i" "i < 2 ^ 31" and p: "batch_ok R p"
    and lead: "\<not> AmLeader (env_at c i) s"
  shows "post (HandlePrepare (env_at c i) remote p s) (\<lambda>u. vr_inv u \<and> good R C i u \<and> lastOp s \<le> lastOp u)"
proof -
  let ?c = "env_at c i" and ?n = "p_batchstart p - 1"
  let ?s = "s\<lparr>viewChangeTimeout := Timeout_Reset (viewChangeTimeout s)\<rparr>"
  have v: "status s = STATUS_NORMAL" "view s = 0" "p_view p = 0"
    using good p by (auto simp: good_def batch_ok_def)
  have s: "vr_inv ?s" using inv by (simp add: vr_inv_def quorums_ok_def)
  have n: "unat ?n = unat (p_batchstart p) - 1"
    using p by (subst unat_diff) (auto simp: batch_ok_def word_le_nat_alt)
  let ?ok = "MPrepareOK (PrepareOKMessage 0 (p_opnum p) (my_idx ?c))"
  have loop: "post (fold_r (prepare_one ?c 0) (p_request p) (?n, ?s))
      (\<lambda>(m, u). vr_inv u \<and> good R C i (send_leader ?c ?ok u) \<and> lastOp s \<le> lastOp u)"
    if start: "p_batchstart p \<le> lastOp s + 1"
  proof (rule postI, clarify)
    fix m u assume run: "fold_r (prepare_one ?c 0) (p_request p) (?n, ?s) = Inr (m, u)"
    have top1: "unat (lastOp s + 1) = Suc (unat (lastOp s))"
      using evolves_next(2) [OF evolves_refl [OF inv]] .
    have len: "unat ?n + length (p_request p) = unat (p_opnum p)" using p n by (auto simp: batch_ok_def)
    have "unat (p_opnum p) < 2 ^ 64" by (rule less_le_trans [OF unsigned_less]) simp
    then have "prepared 0 (Suc (unat ?n)) (p_request p) (vlog s) (vlog u)"
      using postD [OF prepare_loop [OF s, of ?n "p_request p" ?c 0] run] start n top1 len
      by (simp add: word_le_nat_alt)
    moreover have "advances ?s u"
      using postD [OF post_prepare_loop [OF advances_refl [OF s], of ?n ?c 0 "p_request p"] run] start by simp
    then have u: "vr_inv u" by (rule advances_inv)
    moreover have fields: "sent u = sent s \<and> view u = view s \<and> lastCommitted u = lastCommitted s \<and>
        status u = status s \<and> pendingPrepares u = pendingPrepares s"
      using postD [OF prepare_loop_fields run] by simp
    moreover have "Suc (unat ?n) = unat (p_batchstart p)" using p n by (simp add: batch_ok_def)
    ultimately have ops: "entry_op (vlog u) \<subseteq>\<^sub>m R"
      and top: "log_top (vlog u) = max (log_top (vlog s)) (Suc (unat ?n) + length (p_request p))"
      using prepared_ops [of "unat (p_batchstart p)" "p_request p" "vlog s" "vlog u" R] good p start top1
        evolves_top [OF evolves_refl [OF inv]]
      by (auto simp: vr_inv_def good_def batch_ok_def prepared_def word_le_nat_alt)
    then have lo: "lastOp s \<le> lastOp u" "p_opnum p \<le> lastOp u"
      using evolves_top [OF evolves_refl [OF u]] evolves_top [OF evolves_refl [OF inv]] len
      by (auto simp: word_le_nat_alt)
    then have "good R C i (send_leader ?c ?ok u)"
      using good fields ops i v eff_ok_mono [of R R C C "lastOp s" "lastOp u" i]
      by (auto simp: good_def send_leader_def my_idx_at)
    with u lo show "vr_inv u \<and> good R C i (send_leader ?c ?ok u) \<and> lastOp s \<le> lastOp u" by blast
  qed
  have early: "good R C i ((RequestStateTransfer t)\<lparr>pendingPrepares :=
      pendingPrepares t @ [(remote, p)]\<rparr>)" if "good R C i t" for t :: "'a vr_replica"
    using good_RequestStateTransfer [OF that] i p by (auto simp: good_def)
  have reset: "good R C i ?s" using good by (simp add: good_def)
  have old: "good R C i (send_leader ?c ?ok ?s)" if "p_opnum p \<le> lastOp s"
    using good i v that by (auto simp: good_def send_leader_def my_idx_at)
  have "post (HandlePrepare ?c remote p s) (\<lambda>u. good R C i u \<and> lastOp s \<le> lastOp u)"
    using early [OF good] early [OF reset] lead v old
    by (auto simp: HandlePrepare_def Let_def post_assert post_if post_bind AmLeader_def send_leader_def
        intro!: post_mono [OF loop])
  with post_HandlePrepare [OF advances_refl [OF inv], of ?c remote p] show ?thesis
    by (auto simp: post_def advances_def split: sum.splits)
qed

lemma good_HandleCommit:
  assumes "vr_inv s" and good: "good R C i s" and i: "i \<noteq> 0" and m: "c_view m = 0" "c_opnum m \<le> C"
  shows "post (HandleCommit c remote m s) (\<lambda>u. good R C i u \<and> lastOp s \<le> lastOp u)"
proof -
  let ?s = "s\<lparr>viewChangeTimeout := Timeout_Reset (viewChangeTimeout s)\<rparr>"
  have s: "vr_inv ?s" "good R C i ?s" using assms by (auto simp: vr_inv_def quorums_ok_def good_def)
  have "post (CommitUpTo c (c_opnum m) ?s) (\<lambda>u. good R C i u \<and> lastOp s \<le> lastOp u)"
    by (rule post_mono [OF good_CommitUpTo [OF s m(2)]]) simp
  then show ?thesis
    using good s good_RequestStateTransfer [OF good i] good_RequestStateTransfer [OF s(2) i]
    by (auto simp: HandleCommit_def Let_def post_if)
qed

lemma good_HandleRequestStateTransfer:
  assumes inv: "vr_inv s" and good: "good R C i s" and m: "rst_view m = 0" and r: "remote \<noteq> 0"
    and plain: "\<And>k v r. R k = Some (v, r) \<Longrightarrow> v = viewstamp2 0 (of_nat k)"
  shows "post (HandleRequestStateTransfer c remote m s) (\<lambda>u. good R C i u \<and> lastOp u = lastOp s \<and>
    vlog u = vlog s \<and> lastCommitted u = lastCommitted s \<and> lastBatchEnd u = lastBatchEnd s \<and>
    lastPrepare u = lastPrepare s \<and> prepareOKQuorum u = prepareOKQuorum s)"
proof -
  have "post (Dump c (rst_opnum m + 1) (vlog s)) (\<lambda>es. \<forall>e \<in> set es. item_ok R e)"
    by (rule Dump_items [OF inv _ plain]) (use good in \<open>simp_all add: good_def\<close>)
  then show ?thesis
    using good m r
    by (auto simp: HandleRequestStateTransfer_def good_def post_if post_bind send_def elim!: post_mono)
qed

lemma good_transfer_entry:
  assumes chk: "\<not> nassert c" and inv: "vr_inv s" and good: "good R C i s" and e: "item_ok R e"
  shows "post (transfer_entry c e (n, s)) (\<lambda>(n', u). vr_inv u \<and> good R C i u \<and> lastOp s \<le> lastOp u)"
proof -
  have ok: "log_ok (vlog s)" using inv by (simp add: vr_inv_def)
  have vr: "post (transfer_entry c e (n, s)) (\<lambda>(n', u). vr_inv u)"
    by (rule post_mono [OF post_transfer_entry [OF chk advances_refl [OF inv]]]) (auto simp: advances_inv)
  have same: "vs_view (viewstamp x) = me_view e" if "log_at (vlog s) (me_opnum e) = Some x" for x
  proof -
    have "entry_op (vlog s) (unat (me_opnum e)) = Some (viewstamp x, request x)"
      using that by (simp add: entry_op_def log_at_num)
    with good have "R (unat (me_opnum e)) = Some (viewstamp x, request x)"
      unfolding good_def by (metis domI map_le_def)
    with e show ?thesis by (simp add: item_ok_def viewstamp2_def)
  qed
  have app: "post (append_new c e (vlog s)) (\<lambda>l. good R C i (s\<lparr>lastOp := lastOp s + 1, vlog := l\<rparr>))"
    if new: "me_opnum e = lastOp s + 1"
  proof -
    have top: "unat (lastOp s + 1) = Suc (unat (lastOp s))"
      using evolves_next(2) [OF evolves_refl [OF inv]] .
    then have le: "lastOp s \<le> lastOp s + 1" by (simp add: word_le_nat_alt)
    have R: "R (Suc (unat (lastOp s))) = Some (viewstamp2 (me_view e) (me_opnum e), me_request e)"
      using e new top by (simp add: item_ok_def)
    show ?thesis
      unfolding append_new_def
      by (rule post_mono [OF Append_content [OF inv]])
        (use good R new eff_ok_mono [OF map_le_refl order_refl le] in \<open>auto simp: good_def map_le_def viewstamp2_def\<close>)
  qed
  have "post (transfer_entry c e (n, s)) (\<lambda>(n', u). good R C i u \<and> lastOp s \<le> lastOp u)"
  proof (cases "me_opnum e = lastOp s + 1")
    case True
    have "lastOp s \<le> lastOp s + 1"
      using evolves_next(2) [OF evolves_refl [OF inv]] by (simp add: word_le_nat_alt)
    with True app [OF True] same good chk show ?thesis
      by (auto simp: transfer_entry_def Let_def wp Find_ok [OF ok] elim!: post_mono)
  next
    case False
    with same good chk show ?thesis
      by (auto simp: transfer_entry_def Let_def wp Find_ok [OF ok])
  qed
  with vr show ?thesis by (auto simp: post_def split: sum.splits)
qed

lemma good_HandleStateTransfer:
  assumes chk: "\<not> nassert c" and size: "0 < num_replicas (configuration c)" "num_replicas (configuration c) < 2 ^ 31"
    and inv: "vr_inv s" and good: "good R C i s" and i: "0 < i" "i < 2 ^ 31"
    and m: "msg_ok R C j lo (MStateTransfer m)"
  shows "post (HandleStateTransfer (env_at c i) remote m s) (\<lambda>u. good R C i u \<and> lastOp s \<le> lastOp u)"
proof -
  let ?c = "env_at c i"
  define J where "J u \<longleftrightarrow> vr_inv u \<and> good R C i u \<and> lastOp s \<le> lastOp u" for u :: "'a vr_replica"
  have view: "view u = 0" if "J u" for u using that by (simp add: J_def good_def)
  have loop: "post (fold_r (transfer_entry ?c) (st_entries m) (lastOp s, s)) (\<lambda>(n, u). J u)"
  proof (rule post_fold)
    fix e and st :: "opnum_t \<times> 'a vr_replica"
    assume "e \<in> set (st_entries m)" and "case st of (n, u) \<Rightarrow> J u"
    with good_transfer_entry [of ?c "snd st" R C i e "fst st"] chk m
    show "post (transfer_entry ?c e st) (\<lambda>(n, u). J u)"
      by (auto simp: J_def elim!: post_mono)
  qed (use inv good in \<open>simp add: J_def\<close>)
  have commit: "post (CommitUpTo ?c (st_opnum m) u) J" if "J u" for u
    using good_CommitUpTo [of u R C i "st_opnum m" ?c] that m by (auto simp: J_def elim!: post_mono)
  have oks: "post (SendPrepareOKs ?c n u) J" if "J u" for n u
    using good_SendPrepareOKs [of R C i u c n] post_SendPrepareOKs [OF advances_refl, of u ?c n] that i
    by (auto simp: J_def post_def advances_inv split: sum.splits)
  have pend: "post (fold_r (\<lambda>(r, pm). HandlePrepare ?c r pm) (pendingPrepares u) (u\<lparr>pendingPrepares := []\<rparr>)) J"
    if u: "J u" for u
  proof (rule post_fold)
    show "J (u\<lparr>pendingPrepares := []\<rparr>)" using u by (simp add: J_def good_def vr_inv_def quorums_ok_def)
  next
    fix p and t :: "'a vr_replica" assume p: "p \<in> set (pendingPrepares u)" and t: "J t"
    have "batch_ok R (snd p)" using u p by (simp add: J_def good_def)
    then have "post (HandlePrepare ?c (fst p) (snd p) t) J"
      using good_HandlePrepare [of t R C i "snd p" c "fst p"] t i AmLeader_at [OF size view [OF t], of i]
      by (auto simp: J_def elim!: post_mono)
    then show "post ((\<lambda>(r, pm). HandlePrepare ?c r pm) p t) J" by (simp add: case_prod_beta)
  qed
  have "post (HandleStateTransfer ?c remote m s) J"
    unfolding HandleStateTransfer_def Let_def
  proof (simp only: post_if, intro conjI impI)
    show "post (Inr s) J" using inv good by (simp add: J_def)
    show "post (bind_r (fold_r (transfer_entry ?c) (st_entries m) (lastOp s, s)) (\<lambda>(oldLastOp, s1).
        assert_r (nassert ?c) (st_opnum m \<le> lastOp (if view s1 < st_view m then EnterView ?c (st_view m) s1 else s1))
         (bind_r (CommitUpTo ?c (st_opnum m) (if view s1 < st_view m then EnterView ?c (st_view m) s1 else s1)) (\<lambda>s3.
           bind_r (SendPrepareOKs ?c oldLastOp s3) (\<lambda>s4.
             fold_r (\<lambda>(remote', pm). HandlePrepare ?c remote' pm) (pendingPrepares s4) (s4\<lparr>pendingPrepares := []\<rparr>)))))) J"
      by (rule post_bindI [OF loop]) (use m in \<open>auto simp: post_assert view
          intro!: post_bindI [OF commit] post_bindI [OF oks] pend\<close>)
  qed
  then show ?thesis by (rule post_mono) (simp add: J_def)
qed

text \<open>One event at a follower: the messages it may get, and the timers that may fire.\<close>

lemma good_timer:
  assumes inv: "vr_inv s" and good: "good R C i s" and k: "k \<noteq> ViewChangeTimer" "k \<noteq> CloseBatchTimer"
    and last: "msg_ok R C i (lastOp s) (lastPrepare s) \<and> transfer_free (lastPrepare s) \<or> \<not> nassert c \<and> \<not> AmLeader c s"
  shows "post (timer_callback c k s) (\<lambda>u. good R C i u \<and> lastOp u = lastOp s \<and>
    vlog u = vlog s \<and> lastCommitted u = lastCommitted s \<and> lastBatchEnd u = lastBatchEnd s \<and>
    lastPrepare u = lastPrepare s \<and> prepareOKQuorum u = prepareOKQuorum s)"
  using good k last
  by (cases k) (auto simp: good_def SendNullCommit_def ResendPrepare_def SendRecoveryMessages_def wp send_def)

lemma good_follower_event:
  assumes chk: "\<not> nassert c" and size: "0 < num_replicas (configuration c)" "num_replicas (configuration c) < 2 ^ 31"
    and inv: "vr_inv s" and good: "good R C i s" and i: "0 < i" "i < 2 ^ 31"
    and plain: "\<And>k v r. R k = Some (v, r) \<Longrightarrow> v = viewstamp2 0 (of_nat k)"
    and ev: "ev \<noteq> Fire ViewChangeTimer"
    and msg: "\<And>src m. ev = Deliver src m \<Longrightarrow> msg_ok R C src lo m"
  shows "post (vr_event_step (env_at c i) ev s) (\<lambda>u. good R C i u \<and> lastOp s \<le> lastOp u)"
proof (cases ev)
  case (Fire k)
  have lead: "\<not> AmLeader (env_at c i) s"
    using AmLeader_at [OF size, of s i] good i by (simp add: good_def)
  have "post (timer_callback (env_at c i) k s) (\<lambda>u. good R C i u \<and> lastOp s \<le> lastOp u)" if "k \<noteq> CloseBatchTimer"
    by (rule post_mono [OF good_timer [OF inv good]]) (use that ev Fire lead chk in auto)
  moreover have "post (timer_callback (env_at c i) CloseBatchTimer s) Q" for Q
    using lead chk by (simp add: CloseBatch_def assert_r_def)
  ultimately show ?thesis
    using good Fire by (cases "k = CloseBatchTimer") (auto simp: vr_event_step_def post_if)
next
  case (Deliver src m)
  have lead: "\<not> AmLeader (env_at c i) s" "status s = STATUS_NORMAL" "view s = 0"
    using AmLeader_at [OF size, of s i] good i by (auto simp: good_def)
  have same: "good R C i s \<and> lastOp s \<le> lastOp s" using good by simp
  have m: "msg_ok R C src lo m" using msg Deliver by simp
  have "post (ReceiveMessage (env_at c i) src m s) (\<lambda>u. good R C i u \<and> lastOp s \<le> lastOp u)"
  proof (cases m)
    case (MRequestStateTransfer x)
    with m show ?thesis
      using good_HandleRequestStateTransfer [OF inv good, of x src "env_at c i"] plain by (auto elim: post_mono)
  next
    case (MPrepare x)
    with m show ?thesis
      using good_HandlePrepare [OF inv good i _ lead(1), of x src] by (auto elim!: post_mono)
  next
    case (MUnloggedRequest x)
    then show ?thesis using good by (auto simp: HandleUnloggedRequest_def Let_def good_def split: prod.splits)
  qed (use m same lead good inv i good_HandleCommit [OF inv good]
        good_HandleStateTransfer [OF chk size inv good i] in
      \<open>auto simp: HandleRequest_def HandlePrepareOK_def HandleRecovery_def HandleRecoveryResponse_def good_def
         elim!: post_mono\<close>)
  with Deliver show ?thesis by (simp add: vr_event_step_def)
qed

section \<open>What the leader does\<close>

definition plain_ops :: "log_ops \<Rightarrow> bool" where
  "plain_ops R \<longleftrightarrow> (\<forall>k v r. R k = Some (v, r) \<longrightarrow> v = viewstamp2 0 (of_nat k))"

text \<open>The leader is judged against its own log and commit point.\<close>

definition lead_ok :: "'app vr_replica \<Rightarrow> bool" where
  "lead_ok s \<longleftrightarrow>
     vr_inv s \<and> good (entry_op (vlog s)) (lastCommitted s) 0 s \<and> plain_ops (entry_op (vlog s)) \<and>
     lastBatchEnd s \<le> lastOp s \<and> transfer_free (lastPrepare s) \<and>
     msg_ok (entry_op (vlog s)) (lastCommitted s) 0 (lastOp s) (lastPrepare s)"

definition lead_grows :: "'app vr_replica \<Rightarrow> 'app vr_replica \<Rightarrow> bool" where
  "lead_grows s u \<longleftrightarrow> lead_ok u \<and> entry_op (vlog s) \<subseteq>\<^sub>m entry_op (vlog u) \<and> lastOp s \<le> lastOp u"

lemma lead_grows_refl: "lead_ok s \<Longrightarrow> lead_grows s s"
  by (simp add: lead_grows_def)

lemma lead_grows_trans: "lead_grows s t \<Longrightarrow> lead_grows t u \<Longrightarrow> lead_grows s u"
  by (auto simp: lead_grows_def intro: map_le_trans)

lemma batch_loop:
  assumes ok: "log_ok (vlog s)" and m: "m \<le> 2 ^ 64"
  shows "post (fold_r (batch_request c s) (map of_nat [n..<m]) []) (\<lambda>reqs.
     length reqs = m - n \<and> (\<forall>j < m - n. \<exists>v. entry_op (vlog s) (n + j) = Some (v, reqs ! j)))"
  using m
proof (induction m)
  case (Suc m)
  show ?case
  proof (cases "n \<le> m")
    case True
    have m64: "unat (of_nat m :: u64) = m" using Suc.prems by (simp add: unat_of_nat take_bit_nat_eq_self)
    have IH: "post (fold_r (batch_request c s) (map of_nat [n..<m]) []) (\<lambda>reqs.
        length reqs = m - n \<and> (\<forall>j < m - n. \<exists>v. entry_op (vlog s) (n + j) = Some (v, reqs ! j)))"
      using Suc by simp
    have "post (bind_r (fold_r (batch_request c s) (map of_nat [n..<m]) [])
          (batch_request c s (of_nat m))) (\<lambda>reqs. length reqs = Suc m - n \<and>
        (\<forall>j < Suc m - n. \<exists>v. entry_op (vlog s) (n + j) = Some (v, reqs ! j)))"
      by (rule post_bindI [OF IH])
        (use True in \<open>auto simp: batch_request_def wp Find_ok [OF ok] log_at_num m64 entry_op_def
            nth_append less_Suc_eq Suc_diff_le\<close>)
    moreover have "fold_r (batch_request c s) [of_nat m] = batch_request c s (of_nat m)"
      by (rule ext) (simp add: bind_r_def split: sum.split)
    ultimately show ?thesis using True by (simp add: fold_r_append)
  next
    case False
    then show ?thesis by simp
  qed
qed simp

lemma lead_CloseBatch:
  assumes lead: "lead_ok s" and chk: "\<not> nassert c"
  shows "post (CloseBatch c s) (\<lambda>u. lead_ok u \<and> vlog u = vlog s \<and> lastOp u = lastOp s \<and>
    lastCommitted u = lastCommitted s \<and> prepareOKQuorum u = prepareOKQuorum s)"
proof -
  let ?b = "lastBatchEnd s + 1" and ?R = "entry_op (vlog s)"
  have inv: "vr_inv s" using lead by (simp add: lead_ok_def)
  have loop: "post (fold_r (batch_request c s) (op_range ?b (lastOp s)) []) (\<lambda>reqs.
      batch_ok ?R (PrepareMessage 0 (lastOp s) ?b reqs))" if lt: "lastBatchEnd s < lastOp s"
  proof -
    have b: "unat ?b = Suc (unat (lastBatchEnd s))" by (rule unat_less_succ [OF lt])
    have "Suc (unat (lastOp s)) \<le> 2 ^ 64"
      using unsigned_less [of "lastOp s"] by (simp add: Suc_le_eq)
    moreover have "log_ok (vlog s)" using inv by (simp add: vr_inv_def)
    ultimately have "post (fold_r (batch_request c s) (op_range ?b (lastOp s)) []) (\<lambda>reqs.
        length reqs = Suc (unat (lastOp s)) - unat ?b \<and>
        (\<forall>j < Suc (unat (lastOp s)) - unat ?b. \<exists>v. ?R (unat ?b + j) = Some (v, reqs ! j)))"
      unfolding op_range_def by (intro batch_loop)
    then show ?thesis
    proof (rule post_mono)
      fix reqs assume r: "length reqs = Suc (unat (lastOp s)) - unat ?b \<and>
        (\<forall>j < Suc (unat (lastOp s)) - unat ?b. \<exists>v. ?R (unat ?b + j) = Some (v, reqs ! j))"
      have "?R (unat ?b + j) = Some (viewstamp2 0 (of_nat (unat ?b + j)), reqs ! j)" if "j < length reqs" for j
      proof -
        from r that obtain v where v: "?R (unat ?b + j) = Some (v, reqs ! j)" by auto
        moreover from lead v have "v = viewstamp2 0 (of_nat (unat ?b + j))"
          unfolding lead_ok_def plain_ops_def by blast
        ultimately show ?thesis by simp
      qed
      with r b lt show "batch_ok ?R (PrepareMessage 0 (lastOp s) ?b reqs)"
        by (simp add: batch_ok_def word_less_nat_alt)
    qed
  qed
  have "post (CloseBatch c s) (\<lambda>u. good ?R (lastCommitted s) 0 u \<and> plain_ops ?R \<and> lastBatchEnd u \<le> lastOp u \<and>
      transfer_free (lastPrepare u) \<and> msg_ok ?R (lastCommitted s) 0 (lastOp s) (lastPrepare u) \<and>
      vlog u = vlog s \<and> lastOp u = lastOp s \<and> lastCommitted u = lastCommitted s \<and>
      prepareOKQuorum u = prepareOKQuorum s)"
    using lead chk
    by (auto simp: CloseBatch_def Let_def post_assert post_bind lead_ok_def good_def send_def
        intro!: post_mono [OF loop])
  with post_CloseBatch [OF advances_refl [OF inv], of c] show ?thesis
    by (auto simp: post_def lead_ok_def advances_def split: sum.splits)
qed

lemma lead_append:
  assumes lead: "lead_ok s" and view: "view s = 0"
  shows "post (Append c (mk_LogEntry (viewstamp2 0 (lastOp s + 1)) LOG_STATE_PREPARED req) (vlog s))
    (\<lambda>l. lead_grows s (s\<lparr>app := a, lastOp := lastOp s + 1, vlog := l\<rparr>))"
proof -
  let ?u = "\<lambda>l. s\<lparr>app := a, lastOp := lastOp s + 1, vlog := l\<rparr>" and ?vs = "viewstamp2 0 (lastOp s + 1)"
  let ?R = "entry_op (vlog s)" and ?k = "Suc (unat (lastOp s))"
  have inv: "vr_inv s" using lead by (simp add: lead_ok_def)
  have top: "unat (lastOp s + 1) = ?k" "log_top (vlog s) = ?k"
    using evolves_next(2) [OF evolves_refl [OF inv]] evolves_top [OF evolves_refl [OF inv]] by auto
  have le: "lastOp s \<le> lastOp s + 1" using top by (simp add: word_le_nat_alt)
  have "?R ?k = None" using top by (simp add: entry_op_def log_num_at_def)
  then have R: "?R \<subseteq>\<^sub>m ?R(?k \<mapsto> x)" for x by (auto simp: map_le_def)
  have "post (Append c (mk_LogEntry ?vs LOG_STATE_PREPARED req) (vlog s)) (\<lambda>l. advances s (?u l))"
    by (rule post_append_op [OF advances_refl [OF inv]]) simp_all
  moreover have "post (Append c (mk_LogEntry ?vs LOG_STATE_PREPARED req) (vlog s)) (\<lambda>l.
      entry_op l = ?R(?k \<mapsto> (?vs, req)))"
    by (rule Append_content [OF inv]) simp
  ultimately have "post (Append c (mk_LogEntry ?vs LOG_STATE_PREPARED req) (vlog s)) (\<lambda>l.
      advances s (?u l) \<and> entry_op l = ?R(?k \<mapsto> (?vs, req)))" by (simp add: post_conj)
  then show ?thesis
  proof (rule post_mono, elim conjE)
    fix l assume adv: "advances s (?u l)" and ops: "entry_op l = ?R(?k \<mapsto> (?vs, req))"
    have vs: "?vs = viewstamp2 0 (of_nat ?k)" using top by simp
    have "good (?R(?k \<mapsto> (?vs, req))) (lastCommitted s) 0 s"
      by (rule good_mono [OF _ R order_refl]) (use lead in \<open>simp add: lead_ok_def\<close>)
    then have "good (?R(?k \<mapsto> (?vs, req))) (lastCommitted s) 0 (?u l)"
      using eff_ok_mono [OF map_le_refl order_refl le] by (auto simp: good_def ops)
    moreover have "msg_ok (?R(?k \<mapsto> (?vs, req))) (lastCommitted s) 0 (lastOp s + 1) (lastPrepare s)"
      using lead msg_ok_mono [OF R order_refl le] by (simp add: lead_ok_def)
    moreover have "plain_ops (?R(?k \<mapsto> (?vs, req)))"
      using lead vs by (auto simp: lead_ok_def plain_ops_def)
    ultimately show "lead_grows s (?u l)"
      using lead adv R le by (auto simp: lead_grows_def lead_ok_def ops advances_inv)
  qed
qed

lemma lead_ok_frame:
  assumes "lead_ok s" and "vlog u = vlog s" "lastOp u = lastOp s" "lastCommitted u = lastCommitted s"
    "view u = view s" "status u = status s" "lastBatchEnd u = lastBatchEnd s" "lastPrepare u = lastPrepare s"
    "pendingPrepares u = pendingPrepares s" "sent u = sent s" "quorums_ok u"
  shows "lead_ok u"
  using assms by (auto simp: lead_ok_def good_def vr_inv_def)

lemma lead_quorums_ok: "lead_ok s \<Longrightarrow> quorums_ok s"
  by (simp add: lead_ok_def vr_inv_def)

lemma lead_view: "lead_ok s \<Longrightarrow> view s = 0 \<and> status s = STATUS_NORMAL"
  by (simp add: lead_ok_def good_def)

text \<open>What an event that is not a \<open>PREPAREOK\<close> leaves alone.\<close>

definition keeps_commit :: "'app vr_replica \<Rightarrow> 'app vr_replica \<Rightarrow> bool" where
  "keeps_commit s u \<longleftrightarrow> lastCommitted u = lastCommitted s \<and> prepareOKQuorum u = prepareOKQuorum s"

lemma lead_AcceptRequest:
  assumes lead: "lead_ok s" and chk: "\<not> nassert c"
  shows "post (AcceptRequest c remote req s) (\<lambda>u. lead_grows s u \<and> keeps_commit s u)"
proof -
  obtain replicate res a where up: "app_LeaderUpcall (app_code c) (lastCommitted s) (op req) (app s)
      = ((replicate, res), a)" by (metis prod.exhaust)
  let ?req = "\<lparr>op = res, clientid = clientid req, clientreqid = clientreqid req, ops = [],
      req_sessnum = None, clientaddr = None\<rparr>"
  let ?t = "\<lambda>l. s\<lparr>app := a, lastOp := lastOp s + 1, vlog := l\<rparr>"
  show ?thesis
  proof (cases replicate)
    case False
    then show ?thesis
      using up lead by (simp add: AcceptRequest_def Let_def lead_grows_def keeps_commit_def)
        (auto simp: lead_ok_def good_def vr_inv_def send_def quorums_ok_def)
  next
    case True
    let ?Q = "\<lambda>u. lead_grows s (u\<lparr>nullCommitTimeout := Timeout_Reset (nullCommitTimeout u)\<rparr>) \<and>
        keeps_commit s (u\<lparr>nullCommitTimeout := Timeout_Reset (nullCommitTimeout u)\<rparr>)"
    have reset: "lead_ok u \<Longrightarrow> lead_ok (u\<lparr>nullCommitTimeout := x\<rparr>)" for u :: "'a vr_replica" and x
      by (rule lead_ok_frame [of u]) (auto dest!: lead_quorums_ok simp: quorums_ok_def)
    have start: "lead_ok u \<Longrightarrow> lead_ok (u\<lparr>closeBatchTimeout := x\<rparr>)" for u :: "'a vr_replica" and x
      by (rule lead_ok_frame [of u]) (auto dest!: lead_quorums_ok simp: quorums_ok_def)
    have close: "post (CloseBatch c (?t l)) ?Q" if t: "lead_grows s (?t l)" for l
      by (rule post_mono [OF lead_CloseBatch [OF _ chk]])
        (use t reset in \<open>auto simp: lead_grows_def keeps_commit_def\<close>)
    have wait: "?Q (?t l)" "?Q ((?t l)\<lparr>closeBatchTimeout := x\<rparr>)" if t: "lead_grows s (?t l)" for l x
      using t reset [of "?t l"] reset [OF start, of "?t l"] by (auto simp: lead_grows_def keeps_commit_def)
    show ?thesis
      unfolding AcceptRequest_def using up True lead_view [OF lead]
      by (simp add: Let_def post_bind) (rule post_mono [OF lead_append [OF lead, where a = a]], simp,
          use close wait in \<open>auto simp: post_if\<close>)
  qed
qed

lemma lastPrepare_send [simp]: "lastPrepare (send e s) = lastPrepare s"
  by (simp add: send_def)

lemma lead_UpdateClientTable:
  "lead_ok s \<Longrightarrow> post (UpdateClientTable c req s) (\<lambda>u. lead_ok u \<and> vlog u = vlog s \<and> lastOp u = lastOp s \<and>
     keeps_commit s u)"
  by (auto simp: UpdateClientTable_def Let_def post_assert keeps_commit_def
      intro!: lead_ok_frame [of s] dest: lead_quorums_ok simp: quorums_ok_def)

lemma lead_HandleRequest:
  assumes lead: "lead_ok s" and chk: "\<not> nassert c"
  shows "post (HandleRequest c remote req s) (\<lambda>u. lead_grows s u \<and> keeps_commit s u)"
proof -
  let ?s = "s\<lparr>clientAddresses := (clientAddresses s)(clientid req \<mapsto> remote)\<rparr>"
  have s: "lead_ok ?s" by (rule lead_ok_frame [OF lead]) (use lead_quorums_ok [OF lead] in \<open>auto simp: quorums_ok_def\<close>)
  have rest: "post (AcceptRequest c remote req t) (\<lambda>u. lead_grows s u \<and> keeps_commit s u)"
    if "lead_ok t \<and> vlog t = vlog ?s \<and> lastOp t = lastOp ?s \<and> keeps_commit ?s t" for t
    by (rule post_mono [OF lead_AcceptRequest [OF _ chk]])
      (use that in \<open>auto simp: lead_grows_def keeps_commit_def\<close>)
  have "post (bind_r (UpdateClientTable c req ?s) (AcceptRequest c remote req)) (\<lambda>u. lead_grows s u \<and> keeps_commit s u)"
    by (rule post_bindI [OF lead_UpdateClientTable [OF s] rest])
  moreover have "lead_grows s ?s \<and> keeps_commit s ?s" "lead_grows s s \<and> keeps_commit s s"
    using s lead by (auto simp: lead_grows_def keeps_commit_def)
  moreover have "lead_ok (send (SendToClient remote m) ?s)" for m
    using s by (auto simp: lead_ok_def good_def vr_inv_def)
  ultimately show ?thesis
    by (auto simp: HandleRequest_def Let_def post_if post_option lead_grows_def keeps_commit_def)
qed

lemma lead_CommitUpTo:
  assumes lead: "lead_ok s"
  shows "post (CommitUpTo c n s) (\<lambda>u. lead_ok u \<and> entry_op (vlog u) = entry_op (vlog s) \<and> lastOp u = lastOp s \<and>
    lastBatchEnd u = lastBatchEnd s \<and> prepareOKQuorum u = prepareOKQuorum s)"
proof -
  let ?R = "entry_op (vlog s)" and ?C = "max (lastCommitted s) n"
  have inv: "vr_inv s" using lead by (simp add: lead_ok_def)
  have "good ?R ?C 0 s"
    by (rule good_mono [OF _ map_le_refl, of _ "lastCommitted s"]) (use lead in \<open>simp_all add: lead_ok_def\<close>)
  from good_CommitUpTo [OF inv this, of n c] show ?thesis
  proof (rule post_strengthen)
    fix u assume run: "CommitUpTo c n s = Inr u"
      and u: "vr_inv u \<and> good ?R ?C 0 u \<and> entry_op (vlog u) = ?R \<and> lastOp u = lastOp s \<and>
        lastBatchEnd u = lastBatchEnd s \<and> lastPrepare u = lastPrepare s \<and> prepareOKQuorum u = prepareOKQuorum s"
    have "lastCommitted u = ?C" using CommitUpTo_frame [OF run] inv by (simp add: vr_inv_def)
    with u show "lead_ok u \<and> entry_op (vlog u) = ?R \<and> lastOp u = lastOp s \<and>
        lastBatchEnd u = lastBatchEnd s \<and> prepareOKQuorum u = prepareOKQuorum s"
      using lead msg_ok_mono [OF map_le_refl, of "lastCommitted s" ?C "lastOp s" "lastOp s"]
      by (auto simp: lead_ok_def)
  qed simp
qed

lemma lead_HandlePrepareOK:
  assumes lead: "lead_ok s" and chk: "\<not> nassert c" and m: "po_view m = 0"
  shows "post (HandlePrepareOK c remote m s) (\<lambda>u. lead_grows s u \<and> (keeps_commit s u \<or>
    prepareOKQuorum u = QS_Add (viewstamp2 0 (po_opnum m)) (int_of_u32 (po_replicaIdx m)) m (prepareOKQuorum s)))"
proof -
  define q where "q = QS_Add (viewstamp2 0 (po_opnum m)) (int_of_u32 (po_replicaIdx m)) m (prepareOKQuorum s)"
  obtain msgs where add: "QS_AddAndCheckForQuorum (viewstamp2 0 (po_opnum m)) (int_of_u32 (po_replicaIdx m)) m
      (prepareOKQuorum s) = (msgs, q)"
    by (auto simp: QS_AddAndCheckForQuorum_eq q_def Let_def)
  let ?u = "s\<lparr>prepareOKQuorum := q\<rparr>"
  let ?Q = "\<lambda>u. lead_grows s u \<and> (keeps_commit s u \<or> prepareOKQuorum u = q)"
  have u: "lead_ok ?u"
    by (rule lead_ok_frame [OF lead]) (use lead_quorums_ok [OF lead] in \<open>auto simp: quorums_ok_def q_def QS_ok_Add\<close>)
  have announce: "lead_ok (t\<lparr>sent := sent t @ [SendMessageToAll (MCommit (CommitMessage 0 (lastCommitted t)))],
      nullCommitTimeout := x\<rparr>)" if "lead_ok t" for t :: "'a vr_replica" and x
    using that by (auto simp: lead_ok_def good_def vr_inv_def quorums_ok_def)
  have again: "lead_ok (t\<lparr>batchComplete := True\<rparr>)" if "lead_ok t" for t :: "'a vr_replica"
    by (rule lead_ok_frame [OF that]) (use lead_quorums_ok [OF that] in \<open>auto simp: quorums_ok_def\<close>)
  have close: "post (CloseBatch c t) (\<lambda>u. lead_grows s u \<and> (keeps_commit s u \<or> prepareOKQuorum u = p))"
    if "lead_ok t" "entry_op (vlog t) = entry_op (vlog s)" "lastOp t = lastOp s" "prepareOKQuorum t = p" for t p
    by (rule post_mono [OF lead_CloseBatch [OF that(1) chk]]) (use that in \<open>auto simp: lead_grows_def\<close>)
  note commit = post_mono [OF lead_CommitUpTo [OF u, of c "po_opnum m"]]
  have same: "lead_grows s ?u" "lead_grows s s" "keeps_commit s s"
    using u lead by (auto simp: lead_grows_def keeps_commit_def)
  have "post (HandlePrepareOK c remote m s) ?Q"
    using same m lead_view [OF lead]
    by (auto simp: HandlePrepareOK_def add Let_def post_if post_bind post_option send_def
        lead_grows_def lead_view intro!: commit close [unfolded lead_grows_def conj_assoc] announce again)
  then show ?thesis by (simp add: q_def)
qed

lemma lead_timer:
  assumes lead: "lead_ok s" and k: "k \<noteq> ViewChangeTimer" and chk: "\<not> nassert c"
  shows "post (timer_callback c k s) (\<lambda>u. lead_grows s u \<and> keeps_commit s u)"
proof (cases "k = CloseBatchTimer")
  case True
  then show ?thesis
    by (auto simp: lead_grows_def keeps_commit_def intro!: post_mono [OF lead_CloseBatch [OF lead chk]])
next
  case False
  have inv: "vr_inv s" and adv: "k = ViewChangeTimer \<Longrightarrow> view s + 1 \<noteq> 0" using lead k by (auto simp: lead_ok_def)
  have "post (timer_callback c k s) vr_inv"
    by (rule post_mono [OF post_timer_callback [OF advances_refl [OF inv] adv]]) (auto simp: advances_inv)
  moreover have "post (timer_callback c k s) (\<lambda>u. good (entry_op (vlog s)) (lastCommitted s) 0 u \<and>
      lastOp u = lastOp s \<and> vlog u = vlog s \<and> lastCommitted u = lastCommitted s \<and>
      lastBatchEnd u = lastBatchEnd s \<and> lastPrepare u = lastPrepare s \<and> prepareOKQuorum u = prepareOKQuorum s)"
    by (rule good_timer [OF inv]) (use lead k False in \<open>auto simp: lead_ok_def\<close>)
  ultimately show ?thesis
    using lead by (auto simp: post_def lead_grows_def lead_ok_def keeps_commit_def split: sum.splits)
qed

text \<open>One event at the leader.\<close>

lemma lead_event:
  assumes lead: "lead_ok s" and chk: "\<not> nassert c" and am: "AmLeader c s"
    and ev: "ev \<noteq> Fire ViewChangeTimer"
    and msg: "\<And>src m. ev = Deliver src m \<Longrightarrow> msg_ok R C src lo m \<and> transfer_free m"
  shows "post (vr_event_step c ev s) (\<lambda>u. lead_grows s u \<and> (keeps_commit s u \<or>
    (\<exists>src m. ev = Deliver src (MPrepareOK m) \<and>
       prepareOKQuorum u = QS_Add (viewstamp2 0 (po_opnum m)) (int_of_u32 (po_replicaIdx m)) m (prepareOKQuorum s))))"
proof (cases ev)
  case (Fire k)
  have "post (timer_callback c k s) (\<lambda>u. lead_grows s u \<and> keeps_commit s u)"
    by (rule lead_timer [OF lead _ chk]) (use ev Fire in simp)
  with lead Fire show ?thesis
    by (auto simp: vr_event_step_def post_if lead_grows_refl keeps_commit_def elim!: post_mono)
next
  case (Deliver src m)
  let ?Q = "\<lambda>u. lead_grows s u \<and> (keeps_commit s u \<or> (\<exists>src m. ev = Deliver src (MPrepareOK m) \<and>
       prepareOKQuorum u = QS_Add (viewstamp2 0 (po_opnum m)) (int_of_u32 (po_replicaIdx m)) m (prepareOKQuorum s)))"
  have same: "lead_grows s s" "keeps_commit s s" using lead by (auto simp: lead_grows_refl keeps_commit_def)
  note st = lead_view [OF lead]
  have m: "msg_ok R C src lo m" "transfer_free m" using msg Deliver by auto
  have inv: "vr_inv s" and plain: "plain_ops (entry_op (vlog s))"
    and good: "good (entry_op (vlog s)) (lastCommitted s) 0 s" using lead by (auto simp: lead_ok_def)
  have "post (ReceiveMessage c src m s) ?Q"
  proof (cases m)
    case (MRequest x)
    then show ?thesis using lead_HandleRequest [OF lead chk, of src x] by (auto elim: post_mono)
  next
    case (MUnloggedRequest x)
    have "lead_ok (t\<lparr>app := a, sent := sent t @ [SendToClient r y]\<rparr>)" if "lead_ok t" for t :: "'a vr_replica" and a r y
      using that by (auto simp: lead_ok_def good_def vr_inv_def quorums_ok_def)
    with MUnloggedRequest lead show ?thesis
      by (auto simp: HandleUnloggedRequest_def Let_def send_def lead_grows_def keeps_commit_def split: prod.splits)
  next
    case (MPrepareOK x)
    have "post (HandlePrepareOK c src x s) ?Q"
      by (rule post_mono [OF lead_HandlePrepareOK [OF lead chk]]) (use m Deliver MPrepareOK in auto)
    with MPrepareOK show ?thesis by simp
  next
    case (MRequestStateTransfer x)
    have "post (HandleRequestStateTransfer c src x s) (\<lambda>u. vr_inv u)"
      by (rule post_mono [OF post_HandleRequestStateTransfer [OF advances_refl [OF inv]]]) (auto simp: advances_inv)
    moreover have "post (HandleRequestStateTransfer c src x s) (\<lambda>u. good (entry_op (vlog s)) (lastCommitted s) 0 u \<and>
      lastOp u = lastOp s \<and> vlog u = vlog s \<and> lastCommitted u = lastCommitted s \<and>
      lastBatchEnd u = lastBatchEnd s \<and> lastPrepare u = lastPrepare s \<and> prepareOKQuorum u = prepareOKQuorum s)"
      by (rule good_HandleRequestStateTransfer [OF inv good])
        (use m MRequestStateTransfer plain in \<open>auto simp: plain_ops_def\<close>)
    ultimately have "post (HandleRequestStateTransfer c src x s) (\<lambda>u. lead_grows s u \<and> keeps_commit s u)"
      using lead by (auto simp: post_def lead_grows_def lead_ok_def keeps_commit_def split: sum.splits)
    with MRequestStateTransfer show ?thesis by (auto elim: post_mono)
  next
    case (MRecovery x)
    have "lead_ok (send (SendMessage r (MRecoveryResponse y)) s)" for r y
      using lead by (auto simp: lead_ok_def good_def vr_inv_def)
    with MRecovery same lead show ?thesis
      by (auto simp: HandleRecovery_def wp lead_grows_def keeps_commit_def intro!: postI)
  qed (use m same st am in \<open>auto simp: HandlePrepare_def HandleCommit_def HandleRecoveryResponse_def batch_ok_def\<close>)
  with Deliver show ?thesis by (simp add: vr_event_step_def)
qed

end
