(* ===== verification/VRAgreement.thy ===== *)
theory VRAgreement
  imports VRNormalCase "HOL-Library.Sublist"
begin

text \<open>
  Agreement in the normal case: in runs of the group in which no view change is started (the
  view change timer does not fire), the logs of all replicas are prefixes of the leader's
  log, the replicas execute the same operations in the same order, and what is committed is
  in the logs of a quorum. Messages may be lost, repeated and reordered, gaps are filled by
  state transfer, and prepares that arrive early are kept. The build has its assertions on.
\<close>

section \<open>The group\<close>

definition executed_all :: "'app vr_replica \<Rightarrow> bool" where
  "executed_all s \<longleftrightarrow>
     executed (sent s) = map (\<lambda>n. (of_nat n, op_bytes (vlog s) n)) [1..<Suc (unat (lastCommitted s))]"

definition votes_ok :: "'app vr_replica list \<Rightarrow> bool" where
  "votes_ok rs \<longleftrightarrow> (\<forall>k j. QS_votes (prepareOKQuorum (rs ! 0)) (viewstamp2 0 k) j \<noteq> None \<longrightarrow>
     (\<exists>i. j = int i \<and> 0 < i \<and> i < length rs \<and> k \<le> lastOp (rs ! i)))"

definition holders_of :: "opnum_t \<Rightarrow> 'app vr_replica list \<Rightarrow> nat set" where
  "holders_of n rs = {i. i < length rs \<and> n \<le> lastOp (rs ! i)}"

definition group_ok :: "'app vr_env \<Rightarrow> 'app vr_replica list \<Rightarrow> bool" where
  "group_ok c rs \<longleftrightarrow>
     int (length rs) = num_replicas (configuration c) \<and> lead_ok (rs ! 0) \<and>
     (\<forall>i < length rs. vr_inv (rs ! i) \<and> executed_all (rs ! i) \<and>
        good (entry_op (vlog (rs ! 0))) (lastCommitted (rs ! 0)) i (rs ! i)) \<and>
     votes_ok rs \<and> numRequired (prepareOKQuorum (rs ! 0)) = QuorumSize (configuration c) - 1 \<and>
     (0 < lastCommitted (rs ! 0) \<longrightarrow>
        QuorumSize (configuration c) \<le> int (card (holders_of (lastCommitted (rs ! 0)) rs)))"

lemma executed_all_advances:
  assumes ex: "executed_all s" and adv: "advances s u"
  shows "executed_all u"
proof -
  have le: "unat (lastCommitted s) \<le> unat (lastCommitted u)"
    using adv by (simp add: advances_def word_le_nat_alt)
  have kept: "op_bytes (vlog u) n = op_bytes (vlog s) n" if "n \<le> unat (lastCommitted s)" for n
    using adv that by (simp add: advances_def committed_kept_def op_bytes_def)
  have "[1..<Suc (unat (lastCommitted u))] =
      [1..<Suc (unat (lastCommitted s))] @ [Suc (unat (lastCommitted s))..<Suc (unat (lastCommitted u))]"
    using le upt_add_eq_append [of 1 "Suc (unat (lastCommitted s))" "unat (lastCommitted u) - unat (lastCommitted s)"]
    by simp
  then show ?thesis
    using ex adv kept by (simp add: executed_all_def advances_def executed_between_def del: upt_Suc)
qed

lemma delivered_ok:
  assumes ok: "group_ok c rs" and en: "enabled rs i (Deliver src m)"
  shows "msg_ok (entry_op (vlog (rs ! 0))) (lastCommitted (rs ! 0)) src (lastOp (rs ! src)) m \<and>
    (i = 0 \<longrightarrow> transfer_free m)"
proof (cases "from_client m")
  case True
  then show ?thesis by (cases m) auto
next
  case False
  with en obtain e where e: "src < length rs" "e \<in> set (sent (rs ! src))" "carries src i e m" by auto
  with ok have "eff_ok (entry_op (vlog (rs ! 0))) (lastCommitted (rs ! 0)) src (lastOp (rs ! src)) e"
    by (auto simp: group_ok_def good_def)
  with e(3) show ?thesis by (cases e) auto
qed

text \<open>What one event does to the replica it happens at, message or timer.\<close>

lemma event_advances:
  assumes chk: "\<not> nassert c" and inv: "vr_inv s" and status: "status s = STATUS_NORMAL"
    and ev: "ev \<noteq> Fire ViewChangeTimer"
    and msg: "\<And>src m. ev = Deliver src m \<Longrightarrow> msg_ok R C src lo m"
    and run: "vr_event_step c ev s = Inr u"
  shows "advances s u"
proof (cases "\<exists>src m. ev = Deliver src (MRecoveryResponse m)")
  case True
  with run status have "u = s" by (auto simp: vr_event_step_def HandleRecoveryResponse_def)
  then show ?thesis using inv by (simp add: advances_refl)
next
  case False
  have "event_fits c s ev"
  proof (cases ev)
    case (Deliver src m)
    with False msg chk show ?thesis by (cases m) (auto simp: event_fits_def)
  qed (use ev in \<open>simp add: event_fits_def\<close>)
  from post_vr_event_step [OF advances_refl [OF inv] this] run show ?thesis by simp
qed

lemma votes_ok_mono:
  assumes ok: "votes_ok rs" and q: "prepareOKQuorum (rs' ! 0) = prepareOKQuorum (rs ! 0)"
    and len: "length rs' = length rs" and le: "\<And>i. i < length rs \<Longrightarrow> lastOp (rs ! i) \<le> lastOp (rs' ! i)"
  shows "votes_ok rs'"
  unfolding votes_ok_def q len
proof (intro allI impI)
  fix k j assume "QS_votes (prepareOKQuorum (rs ! 0)) (viewstamp2 0 k) j \<noteq> None"
  with ok obtain i where i: "j = int i" "0 < i" "i < length rs" "k \<le> lastOp (rs ! i)"
    unfolding votes_ok_def by blast
  moreover from i(4) le [OF i(3)] have "k \<le> lastOp (rs' ! i)" by (rule order_trans)
  ultimately show "\<exists>i. j = int i \<and> 0 < i \<and> i < length rs \<and> k \<le> lastOp (rs' ! i)" by blast
qed

lemma votes_ok_add:
  assumes ok: "votes_ok rs" and q: "prepareOKQuorum (rs' ! 0) = QS_Add (viewstamp2 0 n) (int src) m (prepareOKQuorum (rs ! 0))"
    and src: "0 < src" "src < length rs" "n \<le> lastOp (rs ! src)"
    and len: "length rs' = length rs" and le: "\<And>i. i < length rs \<Longrightarrow> lastOp (rs ! i) \<le> lastOp (rs' ! i)"
  shows "votes_ok rs'"
  unfolding votes_ok_def q len
proof (intro allI impI)
  fix k j assume v: "QS_votes (QS_Add (viewstamp2 0 n) (int src) m (prepareOKQuorum (rs ! 0))) (viewstamp2 0 k) j \<noteq> None"
  obtain i where i: "j = int i" "0 < i" "i < length rs" "k \<le> lastOp (rs ! i)"
  proof (cases "k = n \<and> j = int src")
    case True
    with src that show ?thesis by blast
  next
    case False
    with v have "QS_votes (prepareOKQuorum (rs ! 0)) (viewstamp2 0 k) j \<noteq> None"
      by (auto simp: qs.votes_add viewstamp2_def split: if_splits)
    with ok that show ?thesis unfolding votes_ok_def by blast
  qed
  moreover from i(4) le [OF i(3)] have "k \<le> lastOp (rs' ! i)" by (rule order_trans)
  ultimately show "\<exists>i. j = int i \<and> 0 < i \<and> i < length rs \<and> k \<le> lastOp (rs' ! i)" by blast
qed

lemma group_follower_event:
  assumes ok: "group_ok c rs" and chk: "\<not> nassert c" and size: "num_replicas (configuration c) < 2 ^ 31"
    and i: "0 < i" "i < length rs" and ev: "ev \<noteq> Fire ViewChangeTimer" and en: "enabled rs i ev"
    and run: "vr_event_step (env_at c i) ev (rs ! i) = Inr u"
  shows "group_ok c (rs[i := u])"
proof -
  let ?R = "entry_op (vlog (rs ! 0))" and ?C = "lastCommitted (rs ! 0)"
  have n: "int (length rs) = num_replicas (configuration c)" using ok by (simp add: group_ok_def)
  have s: "vr_inv (rs ! i)" "executed_all (rs ! i)" "good ?R ?C i (rs ! i)" using ok i by (auto simp: group_ok_def)
  have plain: "v = viewstamp2 0 (of_nat k)" if "?R k = Some (v, r)" for k v r
    using ok that by (auto simp: group_ok_def lead_ok_def plain_ops_def)
  have bounds: "0 < num_replicas (configuration c)" "i < 2 ^ 31" using n i size by auto
  define lo where "lo = (case ev of Deliver src m \<Rightarrow> lastOp (rs ! src) | Fire k \<Rightarrow> 0)"
  have msg: "msg_ok ?R ?C src lo m" if "ev = Deliver src m" for src m
    using delivered_ok [OF ok, of i src m] en that by (simp add: lo_def)
  have u: "good ?R ?C i u \<and> lastOp (rs ! i) \<le> lastOp u"
    by (rule postD [OF good_follower_event [OF chk bounds(1) size s(1,3) i(1) bounds(2) plain ev msg] run])
  have "status (rs ! i) = STATUS_NORMAL" using s(3) by (simp add: good_def)
  from event_advances [OF _ s(1) this ev msg run] chk have "advances (rs ! i) u" by simp
  then have "vr_inv u" "executed_all u" by (auto intro: advances_inv executed_all_advances [OF s(2)])
  moreover have "votes_ok (rs[i := u])"
    by (rule votes_ok_mono [of rs]) (use ok u i in \<open>auto simp: group_ok_def nth_list_update\<close>)
  moreover have "holders_of ?C rs \<subseteq> holders_of ?C (rs[i := u])"
    using u i by (auto simp: holders_of_def nth_list_update)
  then have "card (holders_of ?C rs) \<le> card (holders_of ?C (rs[i := u]))"
    by (rule card_mono [rotated]) (simp add: holders_of_def)
  ultimately show ?thesis
    using ok u i by (auto simp: group_ok_def nth_list_update)
qed

text \<open>The vote that moves the commit point has a quorum behind it.\<close>

lemma voters_hold:
  assumes votes: "votes_ok rs" and q: "numRequired (prepareOKQuorum (rs ! 0)) = q - 1"
    and voted: "numRequired (prepareOKQuorum (rs ! 0)) \<le>
      int (card (dom (QS_votes (prepareOKQuorum (rs ! 0)) (viewstamp2 0 n))))"
    and lead: "0 < length rs" "n \<le> lastOp (rs ! 0)"
  shows "q \<le> int (card (holders_of n rs))"
proof -
  let ?V = "dom (QS_votes (prepareOKQuorum (rs ! 0)) (viewstamp2 0 n))"
  have "?V \<subseteq> int ` (holders_of n rs - {0})"
    using votes unfolding votes_ok_def holders_of_def by fastforce
  then have "card ?V \<le> card (int ` (holders_of n rs - {0}))"
    by (rule card_mono [rotated]) (simp add: holders_of_def)
  also have "\<dots> = card (holders_of n rs - {0})" by (rule card_image) simp
  also have "\<dots> = card (holders_of n rs) - 1"
    using lead by (intro card_Diff_singleton) (auto simp: holders_of_def)
  finally have "card ?V \<le> card (holders_of n rs) - 1" .
  moreover have "card (holders_of n rs) \<noteq> 0"
    using lead by (auto simp: holders_of_def)
  ultimately show ?thesis using q voted by linarith
qed

lemma group_leader_event:
  assumes ok: "group_ok c rs" and chk: "\<not> nassert c" and size: "num_replicas (configuration c) < 2 ^ 31"
    and n: "0 < length rs" and ev: "ev \<noteq> Fire ViewChangeTimer" and en: "enabled rs 0 ev"
    and run: "vr_event_step (env_at c 0) ev (rs ! 0) = Inr u"
  shows "group_ok c (rs[0 := u])"
proof -
  let ?s = "rs ! 0" and ?rs = "rs[0 := u]"
  let ?R = "entry_op (vlog ?s)" and ?C = "lastCommitted ?s"
  have len: "int (length rs) = num_replicas (configuration c)" using ok by (simp add: group_ok_def)
  have s: "lead_ok ?s" "vr_inv ?s" "executed_all ?s" "votes_ok rs"
    and req: "numRequired (prepareOKQuorum ?s) = QuorumSize (configuration c) - 1"
    using ok n by (auto simp: group_ok_def)
  define lo where "lo = (case ev of Deliver src m \<Rightarrow> lastOp (rs ! src) | Fire k \<Rightarrow> 0)"
  have msg: "msg_ok ?R ?C src lo m \<and> transfer_free m" if "ev = Deliver src m" for src m
    using delivered_ok [OF ok, of 0 src m] en that by (simp add: lo_def)
  have am: "AmLeader (env_at c 0) ?s"
    using AmLeader_at [of c ?s 0] len n size lead_view [OF s(1)] by simp
  have u: "lead_grows ?s u" and q: "keeps_commit ?s u \<or> (\<exists>src m. ev = Deliver src (MPrepareOK m) \<and>
      prepareOKQuorum u = QS_Add (viewstamp2 0 (po_opnum m)) (int_of_u32 (po_replicaIdx m)) m (prepareOKQuorum ?s))"
    using postD [OF lead_event [OF s(1) _ am ev msg] run] chk by auto
  have adv: "advances ?s u"
    by (rule event_advances [OF _ s(2) _ ev _ run, of ?R ?C lo]) (use chk msg lead_view [OF s(1)] in auto)
  have inv: "vr_inv u" "executed_all u" using adv s by (auto intro: advances_inv executed_all_advances)
  have C: "?C \<le> lastCommitted u" using adv by (simp add: advances_def)
  have grow: "?R \<subseteq>\<^sub>m entry_op (vlog u)" "lead_ok u" "lastOp ?s \<le> lastOp u" using u by (auto simp: lead_grows_def)
  have le: "lastOp (rs ! i) \<le> lastOp (?rs ! i)" if "i < length rs" for i
    using grow that n by (auto simp: nth_list_update)
  have votes: "votes_ok ?rs"
    using q
  proof (elim disjE exE conjE)
    assume "keeps_commit ?s u"
    then show ?thesis
      by (intro votes_ok_mono [OF s(4)]) (use le n in \<open>auto simp: keeps_commit_def\<close>)
  next
    fix src m assume e: "ev = Deliver src (MPrepareOK m)" and
      qu: "prepareOKQuorum u = QS_Add (viewstamp2 0 (po_opnum m)) (int_of_u32 (po_replicaIdx m)) m (prepareOKQuorum ?s)"
    have m: "0 < src" "int_of_u32 (po_replicaIdx m) = int src" "po_opnum m \<le> lastOp (rs ! src)" "src < length rs"
      using msg [OF e] en e by (auto simp: lo_def)
    show ?thesis
      by (rule votes_ok_add [OF s(4), of _ "po_opnum m" src m]) (use qu m le n in auto)
  qed
  have req': "numRequired (prepareOKQuorum u) = QuorumSize (configuration c) - 1"
    using q req by (auto simp: keeps_commit_def)
  have durable: "QuorumSize (configuration c) \<le> int (card (holders_of (lastCommitted u) ?rs))" if pos: "0 < lastCommitted u"
  proof (cases "lastCommitted u = ?C")
    case True
    have "holders_of ?C rs \<subseteq> holders_of ?C ?rs"
      using le by (fastforce simp: holders_of_def intro: order_trans)
    then have "card (holders_of ?C rs) \<le> card (holders_of ?C ?rs)"
      by (rule card_mono [rotated]) (simp add: holders_of_def)
    with ok pos True show ?thesis by (simp add: group_ok_def)
  next
    case False
    with C have lt: "?C < lastCommitted u" by simp
    with q obtain src m where e: "ev = Deliver src (MPrepareOK m)" by (auto simp: keeps_commit_def)
    with run have "HandlePrepareOK (env_at c 0) src m ?s = Inr u" by (simp add: vr_event_step_def)
    from HandlePrepareOK_quorum [OF s(2) this lt] have
      "numRequired (prepareOKQuorum ?s) \<le> int (card (dom (QS_votes (prepareOKQuorum u) (viewstamp2 0 (lastCommitted u)))))"
      using lead_view [OF s(1)] by simp
    moreover have "lastCommitted u \<le> lastOp u" using inv by (simp add: vr_inv_def)
    ultimately show ?thesis
      by (intro voters_hold [OF votes]) (use req req' n in auto)
  qed
  show ?thesis
    unfolding group_ok_def
  proof (intro conjI allI impI)
    fix i assume i: "i < length ?rs"
    show "vr_inv (?rs ! i)" "executed_all (?rs ! i)"
      using ok inv i n by (auto simp: group_ok_def nth_list_update)
    show "good (entry_op (vlog (?rs ! 0))) (lastCommitted (?rs ! 0)) i (?rs ! i)"
    proof (cases "i = 0")
      case True
      with grow n show ?thesis by (simp add: lead_ok_def)
    next
      case False
      have "good ?R ?C i (rs ! i)" using ok i by (simp add: group_ok_def)
      from good_mono [OF this grow(1) C] False n show ?thesis by simp
    qed
  qed (use len n grow votes req' durable in simp_all)
qed

lemma VRReplica_new_fields:
  "returns (VRReplica_new c True 0 a) (\<lambda>s. lastOp s = 0 \<and> status s = STATUS_NORMAL \<and>
     view s = 0 \<and> entries (vlog s) = [] \<and> pendingPrepares s = [] \<and> sent s = [] \<and> lastBatchEnd s = 0 \<and>
     lastPrepare s = ReplicaMsgNotSet \<and> prepareOKQuorum s = mk_QuorumSet (QuorumSize (configuration c) - 1))"
  by (simp add: VRReplica_new_def mk_Log_def Let_def)

lemma group_initial:
  assumes init: "vr_initial c a rs" and n: "0 < num_replicas (configuration c)"
  shows "group_ok c rs"
proof -
  have len: "int (length rs) = num_replicas (configuration c)" "0 < length rs"
    using init n by (auto simp: vr_initial_def)
  have new: "VRReplica_new (env_at c i) True 0 a = Inr (rs ! i)" if "i < length rs" for i
    using init that by (simp add: vr_initial_def)
  have fields: "vr_inv (rs ! i) \<and> lastCommitted (rs ! i) = 0 \<and> lastOp (rs ! i) = 0 \<and> status (rs ! i) = STATUS_NORMAL \<and>
      view (rs ! i) = 0 \<and> entries (vlog (rs ! i)) = [] \<and> pendingPrepares (rs ! i) = [] \<and> sent (rs ! i) = [] \<and>
      lastBatchEnd (rs ! i) = 0 \<and> lastPrepare (rs ! i) = ReplicaMsgNotSet \<and>
      prepareOKQuorum (rs ! i) = mk_QuorumSet (QuorumSize (configuration c) - 1)" if "i < length rs" for i
    using VRReplica_new_fields [of "env_at c i" a] VRReplica_new_ok [of "env_at c i" True 0 a]
    by (simp add: new [OF that])
  have empty: "entry_op (vlog (rs ! i)) = Map.empty" if "i < length rs" for i
    using fields [OF that] by (auto simp: entry_op_def log_num_at_def log_top_def)
  have "votes_ok rs"
    using fields [OF len(2)] by (simp add: votes_ok_def QS_votes_def QS_at_def mk_QuorumSet_def)
  moreover have "lead_ok (rs ! 0)"
    using fields [OF len(2)] empty [OF len(2)] by (simp add: lead_ok_def good_def plain_ops_def)
  ultimately show ?thesis
    using len fields empty by (auto simp: group_ok_def executed_all_def good_def mk_QuorumSet_def)
qed

lemma group_reach:
  assumes reach: "vr_reach c a (\<lambda>ev. ev \<noteq> Fire ViewChangeTimer) rs" and chk: "\<not> nassert c"
    and n: "0 < num_replicas (configuration c)" "num_replicas (configuration c) < 2 ^ 31"
  shows "group_ok c rs"
  using reach
proof induction
  case (initial rs)
  then show ?case using n by (intro group_initial)
next
  case (event rs i ev s)
  show ?case
  proof (cases "i = 0")
    case True
    have "group_ok c (rs[0 := s])"
      by (rule group_leader_event [OF event.IH chk n(2)]) (use event True in auto)
    with True show ?thesis by simp
  next
    case False
    show ?thesis
      by (rule group_follower_event [OF event.IH chk n(2)]) (use event False in auto)
  qed
qed

section \<open>Agreement and durability\<close>

lemma executed_prefix:
  assumes ok: "group_ok c rs" and i: "i < length rs"
  shows "prefix (executed (sent (rs ! i))) (executed (sent (rs ! 0)))"
proof -
  let ?k = "unat (lastCommitted (rs ! i))" and ?K = "unat (lastCommitted (rs ! 0))"
  have 0: "0 < length rs" using i by linarith
  have s: "vr_inv (rs ! i)" "executed_all (rs ! i)" "executed_all (rs ! 0)"
    and good: "good (entry_op (vlog (rs ! 0))) (lastCommitted (rs ! 0)) i (rs ! i)"
    using ok i 0 by (auto simp: group_ok_def)
  have le: "?k \<le> ?K" using good by (simp add: good_def word_le_nat_alt)
  have same: "op_bytes (vlog (rs ! i)) n = op_bytes (vlog (rs ! 0)) n" if "1 \<le> n" "n \<le> ?k" for n
  proof -
    have "start (vlog (rs ! i)) = 1" "?k \<le> length (entries (vlog (rs ! i)))"
      using s(1) by (auto simp: vr_inv_def word_le_nat_alt)
    then have "n \<in> dom (entry_op (vlog (rs ! i)))"
      using that by (auto simp: entry_op_def log_num_at_def log_top_def)
    with good have "entry_op (vlog (rs ! i)) n = entry_op (vlog (rs ! 0)) n" by (auto simp: good_def map_le_def)
    then show ?thesis by (simp add: op_bytes_def)
  qed
  have "[1..<Suc ?K] = [1..<Suc ?k] @ [Suc ?k..<Suc ?K]"
    using le upt_add_eq_append [of 1 "Suc ?k" "?K - ?k"] by simp
  with s(2,3) same show ?thesis
    by (simp add: executed_all_def prefix_def del: upt_Suc)
qed

text \<open>
  C2. Agreement: however messages are lost, delayed, repeated and reordered, and whichever timers fire
  (view changes apart), any two replicas of the group have called their applications with the
  same operations in the same order, one of them possibly having got further.
\<close>

theorem replicas_agree:
  assumes "vr_reach c a (\<lambda>ev. ev \<noteq> Fire ViewChangeTimer) rs" and "\<not> nassert c"
    and "0 < num_replicas (configuration c)" and "num_replicas (configuration c) < 2 ^ 31"
    and "i < length rs" and "j < length rs"
  shows "prefix (executed (sent (rs ! i))) (executed (sent (rs ! j))) \<or>
    prefix (executed (sent (rs ! j))) (executed (sent (rs ! i)))"
  using executed_prefix [OF group_reach [OF assms(1-4)]] assms(5,6) by (metis prefix_same_cases)


text \<open>A run with a committed operation, for both.\<close>

definition normal_schedule :: "(nat \<times> vr_event) list" where
  "normal_schedule =
     [(0, Deliver 100 (MRequest (mk_req 7 1 ''a''))), (1, Deliver 0 (MPrepare prepare_a)),
      (0, Deliver 1 (MPrepareOK ok_1)), (1, Deliver 0 (MCommit (CommitMessage 0 1)))]"

lemma normal_run:
  "map_option (map (\<lambda>s. (executed (sent s), lastCommitted s))) (group_run (env3 False 0) normal_schedule group3) =
     Some [([(1, ''a'')], 1), ([(1, ''a'')], 1), ([], 0)]"
  by code_simp

lemma normal_state:
  obtains rs where "vr_reach (env3 False 0) () (\<lambda>ev. ev \<noteq> Fire ViewChangeTimer) rs"
    "length rs = 3" "executed (sent (rs ! 0)) = [(1, ''a'')]" "executed (sent (rs ! 2)) = []" "lastCommitted (rs ! 1) = 1"
proof -
  obtain rs where rs: "group_run (env3 False 0) normal_schedule group3 = Some rs"
      "map (\<lambda>s. (executed (sent s), lastCommitted s)) rs = [([(1, ''a'')], 1), ([(1, ''a'')], 1), ([], 0)]"
    using normal_run by auto
  have "vr_reach (env3 False 0) () (\<lambda>ev. ev \<noteq> Fire ViewChangeTimer) rs"
    by (rule group_run_reach [OF vr_reach.initial [OF group3_initial] _ rs(1)]) (simp add: normal_schedule_def)
  with rs(2) that show ?thesis by (auto simp: Cons_eq_map_conv)
qed

lemma env3_size: "num_replicas (configuration (env3 na i)) = 3" "\<not> nassert (env3 False i)"
  "QuorumSize (configuration (env3 na i)) = 2"
  by (simp_all add: env3_def conf3_def QuorumSize_def)

theorem replicas_agree_witness:
  "\<exists>rs. vr_reach (env3 False 0) () (\<lambda>ev. ev \<noteq> Fire ViewChangeTimer) rs \<and> executed (sent (rs ! 0)) \<noteq> [] \<and>
     (prefix (executed (sent (rs ! 0))) (executed (sent (rs ! 2))) \<or>
      prefix (executed (sent (rs ! 2))) (executed (sent (rs ! 0))))"
proof -
  obtain rs where rs: "vr_reach (env3 False 0) () (\<lambda>ev. ev \<noteq> Fire ViewChangeTimer) rs"
    "length rs = 3" "executed (sent (rs ! 0)) = [(1, ''a'')]" by (rule normal_state)
  then show ?thesis
    using replicas_agree [OF rs(1), of 0 2] by (intro exI [of _ rs]) (simp add: env3_size)
qed


end
