(* ===== verification/VRClient.thy ===== *)
theory VRClient
  imports VRTypes
begin

text \<open>
  \<open>src/replication/vr/client.cc\<close>, \<open>client.h\<close> and the base class \<open>src/common/client.h\<close>: a client of
  a Viewstamped Replication group, one pending request at a time, next to one pending
  unlogged request.

  A continuation is a name \<open>'k\<close> (or \<open>None\<close>, the empty \<open>std::function\<close>, whose call throws); that
  the code calls it is an effect. The code touches no field after calling a continuation, so
  whatever the continuation invokes on the client is the next operation of the run.
\<close>

section \<open>State\<close>

record 'k PendingRequest =
  pr_request :: bytes
  pr_clientReqId :: u64
  pr_continuation :: "'k option"
  pr_timeoutContinuation :: "'k option"

datatype 'k client_effect =
    ClientSendToAll ToReplicaMessage
  | ClientSendToReplica int ToReplicaMessage
  | Continuation 'k bytes bytes
  | TimeoutContinuation 'k bytes

record 'k vr_client =
  cl_clientid :: u64
  cl_lastReqId :: u64
  pendingRequest :: "'k PendingRequest option"
  pendingUnloggedRequest :: "'k PendingRequest option"
  requestTimeout :: Timeout
  unloggedRequestTimeout :: Timeout
  cl_effects :: "'k client_effect list"

definition cl_emit :: "'k client_effect \<Rightarrow> 'k vr_client \<Rightarrow> 'k vr_client" where
  "cl_emit e s = s\<lparr>cl_effects := cl_effects s @ [e]\<rparr>"

definition client_request :: "'k vr_client \<Rightarrow> bytes \<Rightarrow> u64 \<Rightarrow> Request" where
  "client_request s b rid =
     \<lparr>op = b, clientid = cl_clientid s, clientreqid = rid, ops = [], req_sessnum = None, clientaddr = None\<rparr>"

section \<open>Operations\<close>

text \<open>The constructor; a client identifier of 0 is replaced by a random one before (\<open>cid \<noteq> 0\<close>).\<close>

definition VRClient_new :: "u64 \<Rightarrow> 'k vr_client" where
  "VRClient_new cid =
     \<lparr>cl_clientid = cid, cl_lastReqId = 0, pendingRequest = None, pendingUnloggedRequest = None,
      requestTimeout = mk_Timeout 7000, unloggedRequestTimeout = mk_Timeout 1000, cl_effects = []\<rparr>"

definition SendRequest :: "'k vr_client \<Rightarrow> 'k vr_client result" where
  "SendRequest s =
     deref_r (pendingRequest s) (\<lambda>p.
       let s1 = cl_emit (ClientSendToAll (MRequest (client_request s (pr_request p) (pr_clientReqId p)))) s
       in Inr (s1\<lparr>requestTimeout := Timeout_Reset (requestTimeout s1)\<rparr>))"

definition ResendRequest :: "'k vr_client \<Rightarrow> 'k vr_client result" where
  "ResendRequest s = SendRequest s"

definition Invoke :: "bytes \<Rightarrow> 'k option \<Rightarrow> 'k vr_client \<Rightarrow> 'k vr_client result" where
  "Invoke r continuation s =
     (if pendingRequest s \<noteq> None then Inl Panicked
      else
        let reqId = cl_lastReqId s + 1;
            p = \<lparr>pr_request = r, pr_clientReqId = reqId, pr_continuation = continuation,
                 pr_timeoutContinuation = None\<rparr>
        in SendRequest (s\<lparr>cl_lastReqId := reqId, pendingRequest := Some p\<rparr>))"

definition InvokeUnlogged ::
  "bool \<Rightarrow> int \<Rightarrow> bytes \<Rightarrow> 'k option \<Rightarrow> 'k option \<Rightarrow> u32 \<Rightarrow> 'k vr_client \<Rightarrow> 'k vr_client result" where
  "InvokeUnlogged na idx r continuation timeoutContinuation timeout s =
     (if pendingUnloggedRequest s \<noteq> None then Inl Panicked
      else
        let reqId = cl_lastReqId s + 1;
            p = \<lparr>pr_request = r, pr_clientReqId = reqId, pr_continuation = continuation,
                 pr_timeoutContinuation = timeoutContinuation\<rparr>;
            m = MUnloggedRequest \<lparr>uop = r, uclientid = cl_clientid s, uclientreqid = reqId\<rparr>;
            s1 = s\<lparr>cl_lastReqId := reqId, pendingUnloggedRequest := Some p\<rparr>
        in assert_r na (\<not> Timeout_Active (unloggedRequestTimeout s1))
             (bind_r (Timeout_SetTimeout na (ucast timeout) (unloggedRequestTimeout s1)) (\<lambda>t.
                Inr (cl_emit (ClientSendToReplica idx m) (s1\<lparr>unloggedRequestTimeout := Timeout_Start t\<rparr>)))))"

definition InvokeAsync :: "bytes \<Rightarrow> 'k vr_client \<Rightarrow> 'k vr_client result" where
  "InvokeAsync r s =
     (if pendingRequest s \<noteq> None then Inl Panicked
      else
        let s1 = s\<lparr>cl_lastReqId := cl_lastReqId s + 1\<rparr>
        in Inr (cl_emit (ClientSendToAll (MRequest (client_request s1 r (cl_lastReqId s1)))) s1))"

text \<open>Calling a continuation.\<close>

definition call_continuation :: "'k option \<Rightarrow> ('k \<Rightarrow> 'k client_effect) \<Rightarrow> 'k vr_client \<Rightarrow> 'k vr_client result" where
  "call_continuation k e s = (case k of None \<Rightarrow> Inl BadFunctionCall | Some k' \<Rightarrow> Inr (cl_emit (e k') s))"

definition HandleReply :: "ReplyMessage \<Rightarrow> 'k vr_client \<Rightarrow> 'k vr_client result" where
  "HandleReply msg s =
     (case pendingRequest s of
        None \<Rightarrow> Inr s
      | Some p \<Rightarrow>
          if rp_clientreqid msg \<noteq> pr_clientReqId p then Inr s
          else
            let s1 = s\<lparr>requestTimeout := Timeout_Stop (requestTimeout s), pendingRequest := None\<rparr>
            in call_continuation (pr_continuation p)
                 (\<lambda>k. Continuation k (pr_request p) (rp_reply msg)) s1)"

definition HandleUnloggedReply :: "bytes \<Rightarrow> 'k vr_client \<Rightarrow> 'k vr_client result" where
  "HandleUnloggedReply rep s =
     (case pendingUnloggedRequest s of
        None \<Rightarrow> Inr s
      | Some p \<Rightarrow>
          let s1 = s\<lparr>unloggedRequestTimeout := Timeout_Stop (unloggedRequestTimeout s),
                     pendingUnloggedRequest := None\<rparr>
          in call_continuation (pr_continuation p) (\<lambda>k. Continuation k (pr_request p) rep) s1)"

definition UnloggedRequestTimeoutCallback :: "'k vr_client \<Rightarrow> 'k vr_client result" where
  "UnloggedRequestTimeoutCallback s =
     (let req = pendingUnloggedRequest s;
          s1 = s\<lparr>pendingUnloggedRequest := None,
                 unloggedRequestTimeout := Timeout_Stop (unloggedRequestTimeout s)\<rparr>
      in deref_r req (\<lambda>p.
           call_continuation (pr_timeoutContinuation p) (\<lambda>k. TimeoutContinuation k (pr_request p)) s1))"

fun Client_ReceiveMessage :: "ToClientMessage \<Rightarrow> 'k vr_client \<Rightarrow> 'k vr_client result" where
  "Client_ReceiveMessage (MReply m) s = HandleReply m s"
| "Client_ReceiveMessage (MUnloggedReply r) s = HandleUnloggedReply r s"
| "Client_ReceiveMessage ClientMsgNotSet s = Inl Panicked"

section \<open>Runs\<close>

datatype 'k client_event =
    CInvoke bytes "'k option"
  | CInvokeUnlogged int bytes "'k option" "'k option" u32
  | CInvokeAsync bytes
  | CReceive ToClientMessage
  | CRequestTimer
  | CUnloggedTimer

fun client_step :: "bool \<Rightarrow> 'k client_event \<Rightarrow> 'k vr_client \<Rightarrow> 'k vr_client result" where
  "client_step na (CInvoke r k) s = Invoke r k s"
| "client_step na (CInvokeUnlogged i r k t to) s = InvokeUnlogged na i r k t to s"
| "client_step na (CInvokeAsync r) s = InvokeAsync r s"
| "client_step na (CReceive m) s = Client_ReceiveMessage m s"
| "client_step na CRequestTimer s = (if armed (requestTimeout s) then ResendRequest s else Inr s)"
| "client_step na CUnloggedTimer s =
     (if armed (unloggedRequestTimeout s) then UnloggedRequestTimeoutCallback s else Inr s)"

definition client_run :: "bool \<Rightarrow> 'k client_event list \<Rightarrow> 'k vr_client \<Rightarrow> 'k vr_client result" where
  "client_run na evs s = fold_r (client_step na) evs s"

section \<open>The invariant\<close>

text \<open>A timer is armed exactly while its request is pending; so no callback meets a null request.\<close>

definition client_inv :: "'k vr_client \<Rightarrow> bool" where
  "client_inv s \<longleftrightarrow>
     armed (requestTimeout s) = (pendingRequest s \<noteq> None) \<and>
     armed (unloggedRequestTimeout s) = (pendingUnloggedRequest s \<noteq> None)"

text \<open>The answers given so far, and the requests still open, by continuation.\<close>

definition answered :: "'k vr_client \<Rightarrow> nat" where
  "answered s = length (filter (\<lambda>e. case e of
     Continuation _ _ _ \<Rightarrow> True | TimeoutContinuation _ _ \<Rightarrow> True | _ \<Rightarrow> False) (cl_effects s))"

definition opened :: "'k vr_client \<Rightarrow> nat" where
  "opened s = (if pendingRequest s = None then 0 else 1) + (if pendingUnloggedRequest s = None then 0 else 1)"

definition invokes :: "'k client_event \<Rightarrow> bool" where
  "invokes ev = (case ev of CInvoke _ _ \<Rightarrow> True | CInvokeUnlogged _ _ _ _ _ \<Rightarrow> True | _ \<Rightarrow> False)"

lemmas client_defs = Invoke_def SendRequest_def ResendRequest_def InvokeUnlogged_def InvokeAsync_def
  HandleReply_def HandleUnloggedReply_def UnloggedRequestTimeoutCallback_def call_continuation_def
  cl_emit_def Let_def

lemma client_step_account:
  assumes "client_inv s"
  shows "post (client_step na ev s) (\<lambda>s'. client_inv s' \<and>
    answered s' + opened s' = answered s + opened s + (if invokes ev then 1 else 0))"
proof (cases ev)
  case (CReceive m)
  with assms show ?thesis
    by (cases m) (auto simp: client_defs wp client_inv_def answered_def opened_def invokes_def)
qed (use assms in \<open>auto simp: client_defs wp client_inv_def answered_def opened_def invokes_def
    Timeout_SetTimeout_def\<close>)

lemma client_run_account:
  "client_inv s \<Longrightarrow> post (client_run na evs s) (\<lambda>s'. client_inv s' \<and>
    answered s' + opened s' = answered s + opened s + length (filter invokes evs))"
proof (induction evs arbitrary: s)
  case Nil
  then show ?case by (simp add: client_run_def)
next
  case (Cons ev evs)
  show ?case
    unfolding client_run_def fold_r.simps
    by (rule post_bindI [OF client_step_account [OF Cons.prems, of na ev]], elim conjE,
        rule post_mono [OF Cons.IH [unfolded client_run_def]]) auto
qed

lemma client_inv_new: "client_inv (VRClient_new cid)"
  by (simp add: client_inv_def VRClient_new_def)

text \<open>
  C39. Every request gets at most one answer: after any run from the constructor, the continuations
  called (replies and timeouts) and the requests still pending together are exactly the
  requests invoked, and the timers are armed exactly while their requests are pending.
\<close>

theorem client_answers_once:
  assumes "client_run na evs (VRClient_new cid) = Inr s"
  shows "answered s + opened s = length (filter invokes evs) \<and> client_inv s"
proof -
  have "answered (VRClient_new cid) = 0" "opened (VRClient_new cid) = 0"
    by (simp_all add: answered_def opened_def VRClient_new_def)
  with client_run_account [OF client_inv_new, of na evs cid] assms show ?thesis by simp
qed

theorem client_answers_once_witness:
  "let s = projr (client_run False [CInvoke ''a'' (Some (0::nat)), CRequestTimer,
        CReceive (MReply (ReplyMessage 0 1 ''ok'' 1)), CReceive (MReply (ReplyMessage 0 1 ''ok'' 1)),
        CInvoke ''b'' (Some 1)] (VRClient_new 7))
   in answered s + opened s = 2 \<and> client_inv s"
proof -
  let ?evs = "[CInvoke ''a'' (Some (0::nat)), CRequestTimer,
        CReceive (MReply (ReplyMessage 0 1 ''ok'' 1)), CReceive (MReply (ReplyMessage 0 1 ''ok'' 1)),
        CInvoke ''b'' (Some 1)]"
  have "client_run False ?evs (VRClient_new 7) = Inr (projr (client_run False ?evs (VRClient_new 7)))"
    by (rule not_isl_result) code_simp
  from client_answers_once [OF this] show ?thesis by (simp add: Let_def invokes_def)
qed

section \<open>Where unlogged requests go wrong\<close>

text \<open>
  An unlogged reply carries no request number and is not matched: after request \<open>a\<close> has timed
  out and \<open>b\<close> has been invoked, the late reply to \<open>a\<close> is handed to the continuation of \<open>b\<close> as
  the answer to \<open>b\<close>, whatever the client's state was.
\<close>

theorem unlogged_reply_mixed_up:
  assumes "client_inv s" and "pendingUnloggedRequest s = None"
  shows "\<exists>s'. client_run na [CInvokeUnlogged i a (Some ka) (Some ta) to, CUnloggedTimer,
      CInvokeUnlogged i b (Some kb) (Some tb) to, CReceive (MUnloggedReply answer_to_a)] s = Inr s' \<and>
    cl_effects s' = cl_effects s @
      [ClientSendToReplica i (MUnloggedRequest \<lparr>uop = a, uclientid = cl_clientid s, uclientreqid = cl_lastReqId s + 1\<rparr>),
       TimeoutContinuation ta a,
       ClientSendToReplica i (MUnloggedRequest \<lparr>uop = b, uclientid = cl_clientid s, uclientreqid = cl_lastReqId s + 2\<rparr>),
       Continuation kb b answer_to_a]"
  using assms
  by (simp add: client_run_def client_defs client_inv_def Timeout_SetTimeout_def Timeout_Active_def
      add.assoc)

theorem unlogged_reply_mixed_up_witness:
  "\<exists>s'. client_run False [CInvokeUnlogged 0 ''a'' (Some (1::nat)) (Some 2) 1000, CUnloggedTimer,
      CInvokeUnlogged 0 ''b'' (Some 3) (Some 4) 1000, CReceive (MUnloggedReply ''A'')] (VRClient_new 7) = Inr s' \<and>
    last (cl_effects s') = Continuation 3 ''b'' ''A''"
proof -
  have "pendingUnloggedRequest (VRClient_new 7 :: nat vr_client) = None" by (simp add: VRClient_new_def)
  from unlogged_reply_mixed_up [OF client_inv_new this, of False 0 "''a''" 1 2 1000 "''b''" 3 4 "''A''"]
  show ?thesis by auto
qed

text \<open>
  \<open>InvokeUnlogged\<close> takes the timeout continuation as an optional argument with the default
  \<open>nullptr\<close>, but the timeout calls it without a test: an unlogged request invoked with the
  default ends in an uncaught \<open>std::bad_function_call\<close> when it times out.
\<close>

theorem default_timeout_continuation_throws:
  assumes "client_inv s" and "pendingUnloggedRequest s = None"
  shows "client_run na [CInvokeUnlogged i r k None to, CUnloggedTimer] s = Inl BadFunctionCall"
  using assms
  by (simp add: client_run_def client_defs client_inv_def Timeout_SetTimeout_def Timeout_Active_def)

theorem default_timeout_continuation_throws_witness:
  "client_run False [CInvokeUnlogged 0 ''a'' (Some (1::nat)) None 1000, CUnloggedTimer] (VRClient_new 7)
     = Inl BadFunctionCall"
  by (rule default_timeout_continuation_throws [OF client_inv_new]) (simp add: VRClient_new_def)

end
