(* ===== verification/LockServer.thy ===== *)
theory LockServer
  imports Prelude
begin

text \<open>
  \<open>src/transaction/common/backend/lockserver.cc\<close>, \<open>lockserver.h\<close>: the multi-reader, single-writer
  lock server of the transactional store, with its queue of waiters per key.

  \<open>TryAcquireForWaiters\<close> calls \<open>waitQ.front()\<close> after the queue may have become empty. What such a
  read finds is not the code's to say: it is the parameter \<open>stale_front\<close> of the model
  (\<open>None\<close> stops the model as undefined behaviour). The unordered set of holders is a set, the map of waiters a map.
\<close>

section \<open>State\<close>

record lock_env =
  ls_nassert :: bool
  stale_front :: "u64 option"

datatype LockState = UNLOCKED | LOCKED_FOR_READ | LOCKED_FOR_WRITE | LOCKED_FOR_READ_WRITE

record Waiter =
  w_read :: bool
  w_write :: bool

definition mk_Waiter :: "bool \<Rightarrow> Waiter" where
  "mk_Waiter w = \<lparr>w_read = (\<not> w), w_write = w\<rparr>"

record Lock =
  l_state :: LockState
  holders :: "u64 set"
  waitQ :: "u64 list"
  waiters :: "u64 \<rightharpoonup> Waiter"

definition new_Lock :: Lock where
  "new_Lock = \<lparr>l_state = UNLOCKED, holders = {}, waitQ = [], waiters = Map.empty\<rparr>"

record LockServer =
  retryLock :: bool
  locks :: "bytes \<rightharpoonup> Lock"
  readers :: u64
  writers :: u64

definition LockServer_new :: "bool \<Rightarrow> LockServer" where
  "LockServer_new retry = \<lparr>retryLock = retry, locks = Map.empty, readers = 0, writers = 0\<rparr>"

text \<open>\<open>locks[lock]\<close>, default-constructed if absent, and writing through that reference.\<close>

definition lock_at :: "LockServer \<Rightarrow> bytes \<Rightarrow> Lock" where
  "lock_at s name = (case locks s name of None \<Rightarrow> new_Lock | Some l \<Rightarrow> l)"

definition put_lock :: "bytes \<Rightarrow> Lock \<Rightarrow> LockServer \<Rightarrow> LockServer" where
  "put_lock name l s = s\<lparr>locks := (locks s)(name \<mapsto> l)\<rparr>"

section \<open>One lock\<close>

definition waitForLock :: "u64 \<Rightarrow> bool \<Rightarrow> Lock \<Rightarrow> Lock" where
  "waitForLock requester wr l =
     (case waiters l requester of
        Some w \<Rightarrow> l\<lparr>waiters := (waiters l)(requester \<mapsto>
                   (if wr then w\<lparr>w_write := True\<rparr> else w\<lparr>w_read := True\<rparr>))\<rparr>
      | None \<Rightarrow> l\<lparr>waiters := (waiters l)(requester \<mapsto> mk_Waiter wr), waitQ := waitQ l @ [requester]\<rparr>)"

definition tryAcquireLock :: "bool \<Rightarrow> u64 \<Rightarrow> bool \<Rightarrow> Lock \<Rightarrow> (bool \<times> Lock) result" where
  "tryAcquireLock na requester wr l =
     (case waitQ l of
        [] \<Rightarrow> Inr (True, l)
      | x # q \<Rightarrow>
          if x = requester then
            assert_r na (waiters l requester \<noteq> None)
              (Inr (True, l\<lparr>waitQ := q, waiters := (waiters l)(requester := None)\<rparr>))
          else Inr (False, waitForLock requester wr l))"

definition isWriteNext :: "bool \<Rightarrow> Lock \<Rightarrow> (bool \<times> Lock) result" where
  "isWriteNext na l =
     (case waitQ l of
        [] \<Rightarrow> Inr (False, l)
      | x # _ \<Rightarrow>
          assert_r na (waiters l x \<noteq> None)
            (let w = (case waiters l x of None \<Rightarrow> mk_Waiter False | Some w \<Rightarrow> w)
             in Inr (w_write w, l\<lparr>waiters := (waiters l)(x \<mapsto> w)\<rparr>)))"

section \<open>Acquiring\<close>

definition lockForRead :: "lock_env \<Rightarrow> bytes \<Rightarrow> u64 \<Rightarrow> LockServer \<Rightarrow> (bool \<times> LockServer) result" where
  "lockForRead c name requester s =
     (let l = lock_at s name
      in case l_state l of
           UNLOCKED \<Rightarrow>
             bind_r (tryAcquireLock (ls_nassert c) requester False l) (\<lambda>(got, l1).
               if got then
                 assert_r (ls_nassert c) (card (holders l1) = 0)
                   (Inr (True, (put_lock name
                      (l1\<lparr>l_state := LOCKED_FOR_READ, holders := insert requester (holders l1)\<rparr>) s)
                      \<lparr>readers := readers s + 1\<rparr>))
               else Inr (False, put_lock name l1 s))
         | LOCKED_FOR_READ \<Rightarrow>
             if requester \<in> holders l then Inr (True, put_lock name l s)
             else bind_r (isWriteNext (ls_nassert c) l) (\<lambda>(wnext, l1).
               if wnext then Inr (False, put_lock name (waitForLock requester False l1) s)
               else Inr (True, (put_lock name (l1\<lparr>holders := insert requester (holders l1)\<rparr>) s)
                      \<lparr>readers := readers s + 1\<rparr>))
         | _ \<Rightarrow>
             if requester \<in> holders l then
               Inr (True, (put_lock name (l\<lparr>l_state := LOCKED_FOR_READ_WRITE\<rparr>) s)
                 \<lparr>readers := (if l_state l = LOCKED_FOR_WRITE then readers s + 1 else readers s)\<rparr>)
             else assert_r (ls_nassert c) (card (holders l) = 1)
               (Inr (False, put_lock name (waitForLock requester False l) s)))"

definition lockForWrite :: "lock_env \<Rightarrow> bytes \<Rightarrow> u64 \<Rightarrow> LockServer \<Rightarrow> (bool \<times> LockServer) result" where
  "lockForWrite c name requester s =
     (let l = lock_at s name
      in case l_state l of
           UNLOCKED \<Rightarrow>
             bind_r (tryAcquireLock (ls_nassert c) requester True l) (\<lambda>(got, l1).
               if got then
                 assert_r (ls_nassert c) (card (holders l1) = 0)
                   (Inr (True, (put_lock name
                      (l1\<lparr>l_state := LOCKED_FOR_WRITE, holders := insert requester (holders l1)\<rparr>) s)
                      \<lparr>writers := writers s + 1\<rparr>))
               else Inr (False, put_lock name l1 s))
         | LOCKED_FOR_READ \<Rightarrow>
             if card (holders l) = 1 \<and> requester \<in> holders l then
               Inr (True, (put_lock name (l\<lparr>l_state := LOCKED_FOR_READ_WRITE\<rparr>) s)
                 \<lparr>writers := writers s + 1\<rparr>)
             else Inr (False, put_lock name (waitForLock requester True l) s)
         | _ \<Rightarrow>
             assert_r (ls_nassert c) (card (holders l) = 1)
               (if requester \<in> holders l then Inr (True, put_lock name l s)
                else Inr (False, put_lock name (waitForLock requester True l) s)))"

section \<open>Releasing\<close>

text \<open>
  The end of a round of the loop of \<open>TryAcquireForWaiters\<close>: the head of the queue, which has
  acquired the lock, is removed if it is still there.
\<close>

definition remove_head ::
  "lock_env \<Rightarrow> bytes \<Rightarrow> u64 \<Rightarrow> LockServer \<Rightarrow> (bool \<times> LockServer) result" where
  "remove_head c name waiter s =
     (let l = lock_at s name
      in deref_r (case waitQ l of [] \<Rightarrow> stale_front c | x # _ \<Rightarrow> Some x) (\<lambda>front.
           if front = waiter then
             (case waitQ l of
                [] \<Rightarrow> Inl Undefined
              | _ # q \<Rightarrow>
                  assert_r (ls_nassert c) (waiters l waiter \<noteq> None)
                    (Inr (True, put_lock name (l\<lparr>waitQ := q, waiters := (waiters l)(waiter := None)\<rparr>) s)))
           else Inr (True, s)))"

text \<open>A round: whether the head acquired the lock.\<close>

definition acquire_head ::
  "lock_env \<Rightarrow> bytes \<Rightarrow> u64 \<Rightarrow> LockServer \<Rightarrow> (bool \<times> LockServer) result" where
  "acquire_head c name waiter s =
     assert_r (ls_nassert c) (waiters (lock_at s name) waiter \<noteq> None)
       (at_r (waiters (lock_at s name) waiter) (\<lambda>w.
         bind_r (if w_write w then lockForWrite c name waiter s else Inr (True, s)) (\<lambda>(got1, s1).
         bind_r (if w_read w then lockForRead c name waiter s1 else Inr (True, s1)) (\<lambda>(got2, s2).
           if got1 \<and> got2 then remove_head c name waiter s2 else Inr (False, s2)))))"

lemma lock_at_put [simp]:
  "lock_at (put_lock name l s) name' = (if name' = name then l else lock_at s name')"
  by (simp add: lock_at_def put_lock_def)

lemma lock_at_counters [simp]:
  "lock_at (s\<lparr>readers := n\<rparr>) name = lock_at s name"
  "lock_at (s\<lparr>writers := n\<rparr>) name = lock_at s name"
  by (simp_all add: lock_at_def)

lemma waitQ_update [simp]:
  "waitQ (waitForLock r wr l) = (if waiters l r = None then waitQ l @ [r] else waitQ l)"
  by (simp add: waitForLock_def split: option.split)

lemma put_lock_counters:
  "put_lock name l (s\<lparr>readers := n\<rparr>) = (put_lock name l s)\<lparr>readers := n\<rparr>"
  "put_lock name l (s\<lparr>writers := n\<rparr>) = (put_lock name l s)\<lparr>writers := n\<rparr>"
  by (simp_all add: put_lock_def)

lemma waitForLock_frame [simp]:
  "holders (waitForLock r wr l) = holders l" "l_state (waitForLock r wr l) = l_state l"
  by (simp_all add: waitForLock_def split: option.split)

text \<open>A lock call that succeeds never adds to the queue.\<close>

lemma lockForRead_waitQ:
  "lockForRead c name r s = Inr (True, s') \<Longrightarrow>
   waitQ (lock_at s' name) = waitQ (lock_at s name) \<or> waitQ (lock_at s name) = r # waitQ (lock_at s' name)"
  by (auto simp: lockForRead_def tryAcquireLock_def isWriteNext_def Let_def assert_r_def bind_r_Inr
      split: LockState.splits list.splits if_splits)

lemma lockForWrite_waitQ:
  "lockForWrite c name r s = Inr (True, s') \<Longrightarrow>
   waitQ (lock_at s' name) = waitQ (lock_at s name) \<or> waitQ (lock_at s name) = r # waitQ (lock_at s' name)"
  by (auto simp: lockForWrite_def tryAcquireLock_def Let_def assert_r_def bind_r_Inr
      split: LockState.splits list.splits if_splits)

lemma remove_head_waitQ:
  "remove_head c name x s = Inr (b, s') \<Longrightarrow>
   waitQ (lock_at s' name) = waitQ (lock_at s name) \<and> (waitQ (lock_at s name) = [] \<or> hd (waitQ (lock_at s name)) \<noteq> x) \<or>
   waitQ (lock_at s name) = x # waitQ (lock_at s' name)"
  by (cases "waitQ (lock_at s name)")
    (auto simp: remove_head_def Let_def deref_r_def assert_r_def split: if_splits option.splits)

text \<open>What a successful round has done: the two lock calls, then the removal from the queue.\<close>

lemma acquire_head_cases:
  assumes "acquire_head c name x s = Inr (True, s')"
  obtains w s1 s2 where "waiters (lock_at s name) x = Some w"
    "w_write w \<longrightarrow> lockForWrite c name x s = Inr (True, s1)" "\<not> w_write w \<longrightarrow> s1 = s"
    "w_read w \<longrightarrow> lockForRead c name x s1 = Inr (True, s2)" "\<not> w_read w \<longrightarrow> s2 = s1"
    "remove_head c name x s2 = Inr (True, s')"
proof -
  from assms obtain w where w: "waiters (lock_at s name) x = Some w"
    and r: "bind_r (if w_write w then lockForWrite c name x s else Inr (True, s)) (\<lambda>(got1, s1).
         bind_r (if w_read w then lockForRead c name x s1 else Inr (True, s1)) (\<lambda>(got2, s2).
           if got1 \<and> got2 then remove_head c name x s2 else Inr (False, s2))) = Inr (True, s')"
    unfolding acquire_head_def assert_r_def at_r_def by (auto split: option.splits if_splits)
  then show thesis
    by (cases "w_write w"; cases "w_read w") (auto simp: bind_r_Inr split: if_splits intro: that [OF w])
qed

lemma lockForRead_holders:
  "lockForRead c name r s = Inr (b, s') \<Longrightarrow> holders (lock_at s name) \<subseteq> holders (lock_at s' name)"
  by (auto simp: lockForRead_def tryAcquireLock_def isWriteNext_def Let_def assert_r_def bind_r_Inr
      split: LockState.splits list.splits if_splits)

lemma lockForWrite_holders:
  "lockForWrite c name r s = Inr (b, s') \<Longrightarrow> holders (lock_at s name) \<subseteq> holders (lock_at s' name)"
  by (auto simp: lockForWrite_def tryAcquireLock_def Let_def assert_r_def bind_r_Inr
      split: LockState.splits list.splits if_splits)

lemma remove_head_holders:
  "remove_head c name x s = Inr (b, s') \<Longrightarrow> holders (lock_at s' name) = holders (lock_at s name)"
  by (auto simp: remove_head_def Let_def deref_r_def assert_r_def
      split: if_splits option.splits list.splits)

lemma acquire_head_holders:
  assumes run: "acquire_head c name x s = Inr (b, s')"
  shows "holders (lock_at s name) \<subseteq> holders (lock_at s' name)"
proof -
  let ?P = "\<lambda>(g :: bool, u). holders (lock_at s name) \<subseteq> holders (lock_at u name)"
  have wr: "post (if w_write w then lockForWrite c name x s else Inr (True, s)) ?P" for w
    by (auto simp: post_if intro!: postI dest: lockForWrite_holders)
  have rd: "post (if w_read w then lockForRead c name x u else Inr (True, u)) ?P" if "?P (g, u)" for w g u
    using that by (auto simp: post_if intro!: postI dest!: lockForRead_holders)
  have rest: "post (if g \<and> g' then remove_head c name x u else Inr (False, u)) ?P" if "?P (g, u)" for g g' u
    using that by (auto simp: post_if intro!: postI dest!: remove_head_holders)
  have "post (acquire_head c name x s) ?P"
    unfolding acquire_head_def post_assert post_at
    by (intro impI allI, rule post_bindI [OF wr], clarify, rule post_bindI [OF rd], simp, clarify,
        rule rest, simp)
  with run show ?thesis by simp
qed

lemma acquire_head_shorter:
  assumes "acquire_head c name x s = Inr (True, s')" and "waitQ (lock_at s name) = x # q"
  shows "length (waitQ (lock_at s' name)) < length (waitQ (lock_at s name))"
proof (rule acquire_head_cases [OF assms(1)])
  fix w s1 s2
  assume 1: "w_write w \<longrightarrow> lockForWrite c name x s = Inr (True, s1)" "\<not> w_write w \<longrightarrow> s1 = s"
    and 2: "w_read w \<longrightarrow> lockForRead c name x s1 = Inr (True, s2)" "\<not> w_read w \<longrightarrow> s2 = s1"
    and r: "remove_head c name x s2 = Inr (True, s')"
  have q1: "waitQ (lock_at s1 name) = x # q \<or> waitQ (lock_at s1 name) = q"
    using 1 assms(2) lockForWrite_waitQ [of c name x s s1] by (cases "w_write w") auto
  have "waitQ (lock_at s2 name) = waitQ (lock_at s1 name) \<or> waitQ (lock_at s1 name) = x # waitQ (lock_at s2 name)"
    using 2 lockForRead_waitQ [of c name x s1 s2] by (cases "w_read w") auto
  with q1 have "waitQ (lock_at s2 name) = x # q \<or> length (waitQ (lock_at s2 name)) \<le> length q"
    by auto
  with remove_head_waitQ [OF r] assms(2) show ?thesis by auto
qed

function TryAcquireForWaiters ::
  "lock_env \<Rightarrow> bytes \<Rightarrow> u64 set \<Rightarrow> LockServer \<Rightarrow> (u64 set \<times> LockServer) result" where
  "TryAcquireForWaiters c name newholders s =
     (case waitQ (lock_at s name) of
        [] \<Rightarrow> Inr (newholders, put_lock name (lock_at s name) s)
      | waiter # q \<Rightarrow>
          bind_r (acquire_head c name waiter s) (\<lambda>(acquired, s').
            if acquired then TryAcquireForWaiters c name (insert waiter newholders) s'
            else Inr (newholders, s')))"
  by pat_completeness auto
termination
  by (relation "measure (\<lambda>(c, name, nh, s). length (waitQ (lock_at s name)))")
    (auto dest: acquire_head_shorter)

declare TryAcquireForWaiters.simps [simp del]

definition releaseForRead ::
  "lock_env \<Rightarrow> bytes \<Rightarrow> u64 \<Rightarrow> u64 set \<Rightarrow> LockServer \<Rightarrow> (u64 set \<times> LockServer) result" where
  "releaseForRead c name holder newholders s =
     (case locks s name of
        None \<Rightarrow> Inr (newholders, s)
      | Some l \<Rightarrow>
          if holder \<notin> holders l then Inr (newholders, s)
          else (case l_state l of
            LOCKED_FOR_READ \<Rightarrow>
              (let hs = holders l - {holder};
                   s1 = s\<lparr>readers := readers s - 1\<rparr>
               in if hs = {} then
                    (let s2 = put_lock name (l\<lparr>holders := hs, l_state := UNLOCKED\<rparr>) s1
                     in if retryLock s2 then Inr (newholders, s2)
                        else TryAcquireForWaiters c name newholders s2)
                  else Inr (newholders, put_lock name (l\<lparr>holders := hs\<rparr>) s1))
          | LOCKED_FOR_READ_WRITE \<Rightarrow>
              Inr (newholders, put_lock name (l\<lparr>l_state := LOCKED_FOR_WRITE\<rparr>) (s\<lparr>readers := readers s - 1\<rparr>))
          | _ \<Rightarrow> Inr (newholders, s)))"

definition releaseForWrite ::
  "lock_env \<Rightarrow> bytes \<Rightarrow> u64 \<Rightarrow> u64 set \<Rightarrow> LockServer \<Rightarrow> (u64 set \<times> LockServer) result" where
  "releaseForWrite c name holder newholders s =
     (case locks s name of
        None \<Rightarrow> Inr (newholders, s)
      | Some l \<Rightarrow>
          let s1 = s\<lparr>writers := writers s - 1\<rparr>;
              finish = (\<lambda>s2. if retryLock s2 then Inr (newholders, s2)
                             else TryAcquireForWaiters c name newholders s2)
          in if holder \<notin> holders l then Inr (newholders, s)
             else (case l_state l of
               LOCKED_FOR_WRITE \<Rightarrow>
                 (let hs = holders l - {holder}
                  in assert_r (ls_nassert c) (card hs = 0)
                    (finish (put_lock name (l\<lparr>holders := hs, l_state := UNLOCKED\<rparr>) s1)))
             | LOCKED_FOR_READ_WRITE \<Rightarrow>
                 assert_r (ls_nassert c) (card (holders l) = 1)
                   (finish (put_lock name (l\<lparr>l_state := LOCKED_FOR_READ\<rparr>) s1))
             | _ \<Rightarrow> Inr (newholders, s)))"

section \<open>The invariant\<close>

text \<open>
  The state of a lock says how many hold it, and the queue and the map of waiters have the same
  members, each waiting for something.
\<close>

definition lock_ok :: "Lock \<Rightarrow> bool" where
  "lock_ok l \<longleftrightarrow>
     finite (holders l) \<and>
     (case l_state l of
        UNLOCKED \<Rightarrow> holders l = {}
      | LOCKED_FOR_READ \<Rightarrow> holders l \<noteq> {}
      | _ \<Rightarrow> card (holders l) = 1) \<and>
     distinct (waitQ l) \<and> set (waitQ l) = dom (waiters l) \<and>
     (\<forall>r w. waiters l r = Some w \<longrightarrow> w_read w \<or> w_write w)"

definition server_ok :: "LockServer \<Rightarrow> bool" where
  "server_ok s \<longleftrightarrow> (\<forall>name l. locks s name = Some l \<longrightarrow> lock_ok l)"

lemma lock_ok_new [simp]: "lock_ok new_Lock"
  by (simp add: lock_ok_def new_Lock_def)

lemma lock_ok_at: "server_ok s \<Longrightarrow> lock_ok (lock_at s name)"
  by (simp add: server_ok_def lock_at_def split: option.split)

lemma server_ok_put: "server_ok s \<Longrightarrow> lock_ok l \<Longrightarrow> server_ok (put_lock name l s)"
  by (simp add: server_ok_def put_lock_def)

lemma server_ok_counters [simp]:
  "server_ok (s\<lparr>readers := n\<rparr>) = server_ok s"
  "server_ok (s\<lparr>writers := n\<rparr>) = server_ok s"
  by (simp_all add: server_ok_def)

lemma waitForLock_ok: "lock_ok l \<Longrightarrow> lock_ok (waitForLock r wr l)"
  by (cases "waiters l r")
    (auto simp: lock_ok_def waitForLock_def mk_Waiter_def dom_def split: LockState.splits if_splits)

lemma tryAcquireLock_ok:
  "lock_ok l \<Longrightarrow> safe (tryAcquireLock na r wr l) (\<lambda>(got, l'). lock_ok l' \<and>
     holders l' = holders l \<and> l_state l' = l_state l)"
  by (cases "waitQ l")
    (auto simp: tryAcquireLock_def wp waitForLock_ok, auto simp: lock_ok_def split: LockState.splits)

lemma isWriteNext_ok:
  "lock_ok l \<Longrightarrow> safe (isWriteNext na l) (\<lambda>(b, l'). l' = l)"
proof (cases "waitQ l")
  case (Cons x q)
  assume "lock_ok l"
  then have "set (waitQ l) = dom (waiters l)" by (simp add: lock_ok_def)
  with Cons have "x \<in> dom (waiters l)" by auto
  then obtain w where "waiters l x = Some w" by auto
  with Cons show ?thesis by (simp add: isWriteNext_def fun_upd_idem)
qed (simp add: isWriteNext_def)

text \<open>The lock a call leaves behind: the caller that got it is a holder.\<close>

definition granted :: "u64 \<Rightarrow> bytes \<Rightarrow> bool \<Rightarrow> LockServer \<Rightarrow> bool" where
  "granted r name wr s \<longleftrightarrow>
     (if wr then holders (lock_at s name) = {r} \<and>
             l_state (lock_at s name) \<in> {LOCKED_FOR_WRITE, LOCKED_FOR_READ_WRITE}
      else r \<in> holders (lock_at s name) \<and>
             l_state (lock_at s name) \<in> {LOCKED_FOR_READ, LOCKED_FOR_READ_WRITE})"

lemma lockForRead_ok:
  assumes "server_ok s"
  shows "safe (lockForRead c name r s) (\<lambda>(got, s'). server_ok s' \<and> (got \<longrightarrow> granted r name False s'))"
proof -
  let ?l = "lock_at s name"
  have ok: "lock_ok ?l" by (rule lock_ok_at [OF assms])
  show ?thesis
  proof (cases "l_state ?l")
    case UNLOCKED
    have "safe (tryAcquireLock (ls_nassert c) r False ?l) (\<lambda>(got, l'). lock_ok l' \<and>
        holders l' = {} \<and> l_state l' = UNLOCKED)"
      by (rule safe_mono [OF tryAcquireLock_ok [OF ok]]) (use ok UNLOCKED in \<open>auto simp: lock_ok_def\<close>)
    then show ?thesis
      using UNLOCKED assms
      by (auto simp: lockForRead_def Let_def granted_def wp elim!: safe_mono intro!: server_ok_put)
        (auto simp: lock_ok_def)
  next
    case LOCKED_FOR_READ
    have ins: "lock_ok (?l\<lparr>holders := insert r (holders ?l)\<rparr>)"
      using ok LOCKED_FOR_READ by (simp add: lock_ok_def)
    show ?thesis
    proof (cases "r \<in> holders ?l")
      case True
      with LOCKED_FOR_READ assms ok show ?thesis
        by (simp add: lockForRead_def Let_def granted_def server_ok_put)
    next
      case False
      with LOCKED_FOR_READ show ?thesis
        by (auto simp: lockForRead_def Let_def wp granted_def assms ins server_ok_put waitForLock_ok ok
            intro!: safe_mono [OF isWriteNext_ok [OF ok]])
    qed
  next
    case LOCKED_FOR_WRITE
    with assms ok show ?thesis
      by (auto simp: lockForRead_def Let_def wp granted_def intro!: server_ok_put waitForLock_ok)
        (auto simp: lock_ok_def)
  next
    case LOCKED_FOR_READ_WRITE
    with assms ok show ?thesis
      by (auto simp: lockForRead_def Let_def wp granted_def intro!: server_ok_put waitForLock_ok)
        (auto simp: lock_ok_def)
  qed
qed

lemma card_1_member: "card A = Suc 0 \<Longrightarrow> x \<in> A \<Longrightarrow> A = {x}"
  by (auto simp: card_1_singleton_iff)

lemma lockForWrite_ok:
  assumes "server_ok s"
  shows "safe (lockForWrite c name r s) (\<lambda>(got, s'). server_ok s' \<and> (got \<longrightarrow> granted r name True s'))"
proof -
  let ?l = "lock_at s name"
  have ok: "lock_ok ?l" by (rule lock_ok_at [OF assms])
  show ?thesis
  proof (cases "l_state ?l")
    case UNLOCKED
    have "safe (tryAcquireLock (ls_nassert c) r True ?l) (\<lambda>(got, l'). lock_ok l' \<and>
        holders l' = {} \<and> l_state l' = UNLOCKED)"
      by (rule safe_mono [OF tryAcquireLock_ok [OF ok]]) (use ok UNLOCKED in \<open>auto simp: lock_ok_def\<close>)
    then show ?thesis
      using UNLOCKED assms
      by (auto simp: lockForWrite_def Let_def granted_def wp elim!: safe_mono intro!: server_ok_put)
        (auto simp: lock_ok_def)
  next
    case LOCKED_FOR_READ
    have "lock_ok (?l\<lparr>l_state := LOCKED_FOR_READ_WRITE\<rparr>)" if "card (holders ?l) = 1"
      using ok that by (simp add: lock_ok_def)
    with LOCKED_FOR_READ assms ok show ?thesis
      by (auto simp: lockForWrite_def Let_def granted_def server_ok_put waitForLock_ok dest: card_1_member)
  next
    case LOCKED_FOR_WRITE
    then have "card (holders ?l) = 1" using ok by (simp add: lock_ok_def)
    with LOCKED_FOR_WRITE assms ok show ?thesis
      by (auto simp: lockForWrite_def Let_def wp granted_def server_ok_put waitForLock_ok dest: card_1_member)
  next
    case LOCKED_FOR_READ_WRITE
    then have "card (holders ?l) = 1" using ok by (simp add: lock_ok_def)
    with LOCKED_FOR_READ_WRITE assms ok show ?thesis
      by (auto simp: lockForWrite_def Let_def wp granted_def server_ok_put waitForLock_ok dest: card_1_member)
  qed
qed

lemma remove_head_ok:
  assumes "server_ok s"
  shows "safe (remove_head c name x s) (\<lambda>(b, s'). server_ok s' \<and>
    holders (lock_at s' name) = holders (lock_at s name))"
proof -
  have ok: "lock_ok (lock_at s name)" by (rule lock_ok_at [OF assms])
  show ?thesis
  proof (cases "waitQ (lock_at s name)")
    case Nil
    then show ?thesis using assms by (auto simp: remove_head_def Let_def wp)
  next
    case (Cons y q)
    have "y \<in> dom (waiters (lock_at s name))" using ok Cons by (auto simp: lock_ok_def)
    moreover have "lock_ok ((lock_at s name)\<lparr>waitQ := q, waiters := (waiters (lock_at s name))(y := None)\<rparr>)"
      using ok Cons by (auto simp: lock_ok_def split: LockState.splits if_splits)
    ultimately show ?thesis
      using Cons assms by (auto simp: remove_head_def Let_def wp server_ok_put)
  qed
qed

lemma acquire_head_ok:
  assumes "server_ok s" and "waitQ (lock_at s name) = x # q"
  shows "safe (acquire_head c name x s) (\<lambda>(got, s'). server_ok s' \<and>
    (got \<longrightarrow> x \<in> holders (lock_at s' name)))"
proof -
  have ok: "lock_ok (lock_at s name)" by (rule lock_ok_at [OF assms(1)])
  then have "set (waitQ (lock_at s name)) = dom (waiters (lock_at s name))" by (simp add: lock_ok_def)
  with assms(2) have "x \<in> dom (waiters (lock_at s name))" by auto
  then obtain w where w: "waiters (lock_at s name) x = Some w" by auto
  then have some: "w_read w \<or> w_write w" using ok by (auto simp: lock_ok_def)
  have rd: "safe (if w_read w then lockForRead c name x u else Inr (True, u))
      (\<lambda>(got2, v). server_ok v \<and> (got2 \<and> w_read w \<longrightarrow> x \<in> holders (lock_at v name)) \<and> (\<not> w_read w \<longrightarrow> v = u))"
    if "server_ok u" for u
    using safe_mono [OF lockForRead_ok [OF that, of c name x]] that by (auto simp: granted_def)
  have wr: "safe (if w_write w then lockForWrite c name x s else Inr (True, s))
      (\<lambda>(got1, u). server_ok u \<and> (got1 \<and> w_write w \<longrightarrow> x \<in> holders (lock_at u name)))"
    using safe_mono [OF lockForWrite_ok [OF assms(1), of c name x]] assms(1) by (auto simp: granted_def)
  have rest: "safe (if got1 \<and> got2 then remove_head c name x v else Inr (False, v))
      (\<lambda>(got, s'). server_ok s' \<and> (got \<longrightarrow> x \<in> holders (lock_at s' name)))"
    if "server_ok v" "x \<in> holders (lock_at v name) \<or> \<not> (got1 \<and> got2)" for got1 got2 v
    using safe_mono [OF remove_head_ok [OF that(1), of c name x]] that by auto
  have "safe (bind_r (if w_write w then lockForWrite c name x s else Inr (True, s)) (\<lambda>(got1, s1).
         bind_r (if w_read w then lockForRead c name x s1 else Inr (True, s1)) (\<lambda>(got2, s2).
           if got1 \<and> got2 then remove_head c name x s2 else Inr (False, s2))))
      (\<lambda>(got, s'). server_ok s' \<and> (got \<longrightarrow> x \<in> holders (lock_at s' name)))"
  proof (rule safe_bindI [OF wr], clarify)
    fix got1 u assume u: "server_ok u" "got1 \<and> w_write w \<longrightarrow> x \<in> holders (lock_at u name)"
    show "safe (bind_r (if w_read w then lockForRead c name x u else Inr (True, u)) (\<lambda>(got2, s2).
           if got1 \<and> got2 then remove_head c name x s2 else Inr (False, s2)))
      (\<lambda>(got, s'). server_ok s' \<and> (got \<longrightarrow> x \<in> holders (lock_at s' name)))"
      by (rule safe_bindI [OF rd [OF u(1)]], clarify, rule rest) (use u some in auto)
  qed
  with w show ?thesis by (simp add: acquire_head_def wp)
qed

lemma TryAcquireForWaiters_ok:
  "server_ok s \<Longrightarrow> safe (TryAcquireForWaiters c name nh s) (\<lambda>(nh', s'). server_ok s' \<and> nh \<subseteq> nh')"
proof (induction c name nh s rule: TryAcquireForWaiters.induct)
  case (1 c name nh s)
  show ?case
  proof (cases "waitQ (lock_at s name)")
    case Nil
    then show ?thesis
      using "1.prems" by (subst TryAcquireForWaiters.simps) (simp add: server_ok_put lock_ok_at)
  next
    case (Cons x q)
    have "safe (bind_r (acquire_head c name x s) (\<lambda>(acquired, s').
        if acquired then TryAcquireForWaiters c name (insert x nh) s' else Inr (nh, s')))
      (\<lambda>(nh', s'). server_ok s' \<and> nh \<subseteq> nh')"
      unfolding safe_bind
    proof (rule safe_strengthen [OF acquire_head_ok [OF "1.prems" Cons, of c]], clarify)
      fix got t assume run: "acquire_head c name x s = Inr (got, t)" and t: "server_ok t"
      have "safe (TryAcquireForWaiters c name (insert x nh) t) (\<lambda>(nh', s'). server_ok s' \<and> insert x nh \<subseteq> nh')"
        if got
        using "1.IH" [OF Cons run refl that t] by simp
      then show "safe (if got then TryAcquireForWaiters c name (insert x nh) t else Inr (nh, t))
          (\<lambda>(nh', s'). server_ok s' \<and> nh \<subseteq> nh')"
        using t by (auto elim!: safe_mono)
    qed
    with Cons show ?thesis by (subst TryAcquireForWaiters.simps) simp
  qed
qed

lemma server_ok_release:
  "server_ok s \<Longrightarrow> locks s name = Some l \<Longrightarrow> lock_ok l"
  by (simp add: server_ok_def)

lemma releaseForRead_ok:
  assumes "server_ok s"
  shows "safe (releaseForRead c name h nh s) (\<lambda>(nh', s'). server_ok s' \<and> nh \<subseteq> nh')"
proof (cases "locks s name")
  case (Some l)
  have ok: "lock_ok l" by (rule server_ok_release [OF assms Some])
  have 1: "holders l \<subseteq> {h} \<Longrightarrow> lock_ok (l\<lparr>holders := holders l - {h}, l_state := UNLOCKED\<rparr>)"
    and 2: "l_state l = LOCKED_FOR_READ \<Longrightarrow> holders l - {h} \<noteq> {} \<Longrightarrow> lock_ok (l\<lparr>holders := holders l - {h}\<rparr>)"
    and 3: "l_state l = LOCKED_FOR_READ_WRITE \<Longrightarrow> lock_ok (l\<lparr>l_state := LOCKED_FOR_WRITE\<rparr>)"
    using ok by (auto simp: lock_ok_def)
  with Some assms show ?thesis
    by (auto simp: releaseForRead_def Let_def server_ok_put put_lock_counters
        intro!: TryAcquireForWaiters_ok split: LockState.split)
qed (simp add: releaseForRead_def assms)

lemma releaseForWrite_ok:
  assumes "server_ok s"
  shows "safe (releaseForWrite c name h nh s) (\<lambda>(nh', s'). server_ok s' \<and> nh \<subseteq> nh')"
proof (cases "locks s name")
  case (Some l)
  have ok: "lock_ok l" by (rule server_ok_release [OF assms Some])
  have 1: "lock_ok (l\<lparr>holders := {}, l_state := UNLOCKED\<rparr>)"
    using ok by (auto simp: lock_ok_def)
  have 2: "holders l = {h}" if "h \<in> holders l" "l_state l = LOCKED_FOR_WRITE \<or> l_state l = LOCKED_FOR_READ_WRITE"
    using ok that by (auto simp: lock_ok_def card_1_singleton_iff)
  have 3: "lock_ok (l\<lparr>l_state := LOCKED_FOR_READ\<rparr>)" if "h \<in> holders l"
    using ok that by (auto simp: lock_ok_def)
  show ?thesis
    using Some assms 1 2 3
    by (auto simp: releaseForWrite_def Let_def wp server_ok_put put_lock_counters
        intro!: TryAcquireForWaiters_ok split: LockState.split)
qed (simp add: releaseForWrite_def assms)

text \<open>Every waiter reported as a new holder holds the lock, and no holder loses it.\<close>

lemma TryAcquireForWaiters_holders:
  "server_ok s \<Longrightarrow> TryAcquireForWaiters c name nh s = Inr (nh', s') \<Longrightarrow>
   nh' \<subseteq> nh \<union> holders (lock_at s' name) \<and> holders (lock_at s name) \<subseteq> holders (lock_at s' name)"
proof (induction c name nh s arbitrary: nh' s' rule: TryAcquireForWaiters.induct)
  case (1 c name nh s)
  show ?case
  proof (cases "waitQ (lock_at s name)")
    case Nil
    then show ?thesis using "1.prems" by (simp add: TryAcquireForWaiters.simps [of c name nh s]) auto
  next
    case (Cons x q)
    with "1.prems"(2) obtain got t where run: "acquire_head c name x s = Inr (got, t)"
      and rest: "(if got then TryAcquireForWaiters c name (insert x nh) t else Inr (nh, t)) = Inr (nh', s')"
      by (auto simp: TryAcquireForWaiters.simps [of c name nh s] bind_r_Inr)
    have t: "server_ok t" "got \<Longrightarrow> x \<in> holders (lock_at t name)"
      using acquire_head_ok [OF "1.prems"(1) Cons, of c] run by auto
    have le: "holders (lock_at s name) \<subseteq> holders (lock_at t name)" by (rule acquire_head_holders [OF run])
    show ?thesis
    proof (cases got)
      case True
      with rest have "TryAcquireForWaiters c name (insert x nh) t = Inr (nh', s')" by simp
      from "1.IH" [OF Cons run refl True t(1) this] t(2) [OF True] le show ?thesis by auto
    qed (use rest le in auto)
  qed
qed

section \<open>What the lock server guarantees\<close>

datatype lock_op =
    LockForRead bytes u64
  | LockForWrite bytes u64
  | ReleaseForRead bytes u64
  | ReleaseForWrite bytes u64

fun lock_step :: "lock_env \<Rightarrow> lock_op \<Rightarrow> LockServer \<Rightarrow> LockServer result" where
  "lock_step c (LockForRead name r) s = bind_r (lockForRead c name r s) (\<lambda>(_, s'). Inr s')"
| "lock_step c (LockForWrite name r) s = bind_r (lockForWrite c name r s) (\<lambda>(_, s'). Inr s')"
| "lock_step c (ReleaseForRead name r) s = bind_r (releaseForRead c name r {} s) (\<lambda>(_, s'). Inr s')"
| "lock_step c (ReleaseForWrite name r) s = bind_r (releaseForWrite c name r {} s) (\<lambda>(_, s'). Inr s')"

definition lock_run :: "lock_env \<Rightarrow> bool \<Rightarrow> lock_op list \<Rightarrow> LockServer result" where
  "lock_run c retry ops = fold_r (lock_step c) ops (LockServer_new retry)"

lemma lock_step_ok: "server_ok s \<Longrightarrow> safe (lock_step c x s) server_ok"
  by (cases x)
    (auto simp: wp case_prod_beta intro: safe_mono [OF lockForRead_ok] safe_mono [OF lockForWrite_ok]
      safe_mono [OF releaseForRead_ok] safe_mono [OF releaseForWrite_ok])

text \<open>
  C35. Whatever sequence of lock and release calls the server is given, from its construction on,
  for any number of keys and clients: no assertion of the code fails, and every lock is
  well-formed afterwards; in particular a lock held for writing has exactly one holder, a
  free one none, and the queue and the map of its waiters agree.
\<close>

theorem lock_server_safe: "safe (lock_run c retry ops) server_ok"
  unfolding lock_run_def
  by (rule safe_fold) (auto simp: LockServer_new_def server_ok_def intro: lock_step_ok)

text \<open>
  C36. A lock call that is granted makes the caller a holder in the mode it asked for, and for
  writing the only one; a call that is refused leaves holders and mode as they are and the
  caller in the queue.
\<close>

theorem lock_granted_or_queued:
  assumes "server_ok s"
    and "(if wr then lockForWrite c name r s else lockForRead c name r s) = Inr (got, s')"
  shows "if got then granted r name wr s'
    else holders (lock_at s' name) = holders (lock_at s name) \<and>
         l_state (lock_at s' name) = l_state (lock_at s name) \<and> r \<in> set (waitQ (lock_at s' name))"
proof (cases got)
  case True
  with assms show ?thesis
    using lockForRead_ok [OF assms(1), of c name r] lockForWrite_ok [OF assms(1), of c name r]
    by (auto split: if_splits)
next
  case False
  have ok: "lock_ok (lock_at s name)" by (rule lock_ok_at [OF assms(1)])
  then have q: "r \<in> set (waitQ (waitForLock r w (lock_at s name)))" for w
    by (auto simp: lock_ok_def waitForLock_def split: option.split)
  show ?thesis
  proof (cases wr)
    case True
    with False assms(2) q show ?thesis
      by (auto simp: lockForWrite_def tryAcquireLock_def Let_def assert_r_def bind_r_Inr
          simp del: waitQ_update split: LockState.splits list.splits if_splits)
  next
    case wr: False
    have nxt: "l1 = lock_at s name" if "isWriteNext (ls_nassert c) (lock_at s name) = Inr (b, l1)" for b l1
      using isWriteNext_ok [OF ok, of "ls_nassert c"] that by simp
    from wr False assms(2) q show ?thesis
      by (auto simp: lockForRead_def tryAcquireLock_def Let_def assert_r_def bind_r_Inr
          simp del: waitQ_update dest!: nxt split: LockState.splits list.splits if_splits)
  qed
qed

text \<open>
  A release reports as new holders only clients that do hold the lock when it returns.
\<close>

theorem release_newholders:
  assumes "server_ok s"
    and "(if wr then releaseForWrite c name h {} s else releaseForRead c name h {} s) = Inr (nh, s')"
  shows "nh \<subseteq> holders (lock_at s' name)"
proof -
  have "nh = {} \<or> (\<exists>u. server_ok u \<and> TryAcquireForWaiters c name {} u = Inr (nh, s'))"
  proof (cases "locks s name")
    case None
    with assms(2) show ?thesis by (auto simp: releaseForRead_def releaseForWrite_def split: if_splits)
  next
    case (Some l)
    have ok: "lock_ok l" by (rule server_ok_release [OF assms(1) Some])
    have 1: "holders l \<subseteq> {h} \<Longrightarrow> lock_ok (l\<lparr>holders := holders l - {h}, l_state := UNLOCKED\<rparr>)"
      using ok by (auto simp: lock_ok_def)
    have 2: "holders l = {h}" if "h \<in> holders l" "l_state l = LOCKED_FOR_WRITE"
      using ok that by (auto simp: lock_ok_def card_1_singleton_iff)
    have 3: "lock_ok (l\<lparr>l_state := LOCKED_FOR_READ\<rparr>)" if "h \<in> holders l"
      using ok that by (auto simp: lock_ok_def)
    show ?thesis
      using Some assms 1 2 3
      by (cases "l_state l")
        (auto simp: releaseForRead_def releaseForWrite_def Let_def assert_r_def server_ok_put put_lock_counters
          split: if_splits)
  qed
  with TryAcquireForWaiters_holders [of _ c name "{}" nh s'] show ?thesis by auto
qed

section \<open>The last waiter\<close>

text \<open>
  When a write lock is released and exactly one client is waiting (and \<open>retryLock\<close> is off),
  \<open>TryAcquireForWaiters\<close> lets that client have the lock, which empties the queue, and then calls
  \<open>waitQ.front()\<close> on the empty queue: undefined behaviour, in both builds.
\<close>

theorem last_waiter_undefined:
  assumes "server_ok s" and "locks s name = Some l" and "l_state l = LOCKED_FOR_WRITE"
    and "h \<in> holders l" and "waitQ l = [w]" and "\<not> retryLock s" and "stale_front c = None"
  shows "releaseForWrite c name h nh s = Inl Undefined"
proof -
  have ok: "lock_ok l" by (rule server_ok_release [OF assms(1,2)])
  then have hs: "holders l = {h}" using assms(3,4) by (auto simp: lock_ok_def card_1_singleton_iff)
  have "w \<in> dom (waiters l)" using ok assms(5) by (auto simp: lock_ok_def)
  then obtain e where e: "waiters l w = Some e" by auto
  then have some: "w_read e \<or> w_write e" using ok by (auto simp: lock_ok_def)
  let ?l = "l\<lparr>holders := {}, l_state := UNLOCKED\<rparr>"
  let ?s = "put_lock name ?l (s\<lparr>writers := writers s - 1\<rparr>)"
  have "acquire_head c name w ?s = Inl Undefined"
    using some assms(5,7) e
    by (cases "w_write e"; cases "w_read e")
      (simp_all add: acquire_head_def lockForWrite_def lockForRead_def tryAcquireLock_def Let_def
        remove_head_def)
  then have "TryAcquireForWaiters c name nh ?s = Inl Undefined"
    using assms(5) by (simp add: TryAcquireForWaiters.simps)
  then show ?thesis
    using assms(2-4,6) hs by (simp add: releaseForWrite_def Let_def put_lock_def)
qed

section \<open>Witnesses\<close>

definition checking_env :: lock_env where
  "checking_env = \<lparr>ls_nassert = False, stale_front = None\<rparr>"

definition locked :: "lock_op list \<Rightarrow> LockServer" where
  "locked ops = projr (lock_run checking_env False ops)"

lemma server_ok_locked: "\<not> isl (lock_run checking_env False ops) \<Longrightarrow> server_ok (locked ops)"
  using lock_step_ok safe_fold [of server_ok "LockServer_new False" ops "lock_step checking_env"]
  by (cases "lock_run checking_env False ops")
    (auto simp: lock_run_def locked_def LockServer_new_def server_ok_def)

theorem lock_granted_or_queued_witness:
  "let s = locked [LockForRead ''x'' 1]; s' = projr (map_sum id snd (lockForWrite checking_env ''x'' 2 s))
   in holders (lock_at s' ''x'') = holders (lock_at s ''x'') \<and> 2 \<in> set (waitQ (lock_at s' ''x''))"
proof -
  let ?s = "locked [LockForRead ''x'' 1]" and ?r = "lockForWrite checking_env ''x'' 2 (locked [LockForRead ''x'' 1])"
  have ok: "server_ok ?s" by (rule server_ok_locked) code_simp
  have "\<not> isl ?r" "\<not> fst (projr ?r)" by code_simp+
  then obtain s' where r: "?r = Inr (False, s')" by (cases ?r) auto
  from lock_granted_or_queued [OF ok, of True checking_env "''x''" 2 False s'] r
  show ?thesis by (simp add: Let_def)
qed

theorem release_newholders_witness:
  "let r = projr (releaseForWrite checking_env ''x'' 1 {}
        (locked [LockForWrite ''x'' 1, LockForRead ''x'' 2, LockForRead ''x'' 3]))
   in fst r \<subseteq> holders (lock_at (snd r) ''x'') \<and> fst r = {2, 3}"
proof -
  let ?s = "locked [LockForWrite ''x'' 1, LockForRead ''x'' 2, LockForRead ''x'' 3]"
  let ?r = "releaseForWrite checking_env ''x'' 1 {} ?s"
  have ok: "server_ok ?s" by (rule server_ok_locked) code_simp
  have "\<not> isl ?r" by code_simp
  then obtain nh s' where r: "?r = Inr (nh, s')" by (cases ?r) auto
  have "fst (projr ?r) = {2, 3}" by code_simp
  with release_newholders [OF ok, of True checking_env "''x''" 1 nh s'] r
  show ?thesis by (simp add: Let_def)
qed

theorem last_waiter_undefined_witness:
  "releaseForWrite checking_env ''x'' 1 {} (locked [LockForWrite ''x'' 1, LockForRead ''x'' 2]) = Inl Undefined"
proof -
  let ?s = "locked [LockForWrite ''x'' 1, LockForRead ''x'' 2]"
  have ok: "server_ok ?s" by (rule server_ok_locked) code_simp
  have "locks ?s ''x'' \<noteq> None" by code_simp
  then have l: "locks ?s ''x'' = Some (lock_at ?s ''x'')" by (auto simp: lock_at_def)
  have "l_state (lock_at ?s ''x'') = LOCKED_FOR_WRITE" "1 \<in> holders (lock_at ?s ''x'')"
      "waitQ (lock_at ?s ''x'') = [2]" "\<not> retryLock ?s" "stale_front checking_env = None"
    by code_simp+
  with last_waiter_undefined [OF ok l] show ?thesis by blast
qed

end
