(* ===== verification/VersionStore.thy ===== *)
theory VersionStore
  imports StdMap
begin

text \<open>
  \<open>src/transaction/common/backend/versionstore.cc\<close>, \<open>versionstore.h\<close> and
  \<open>src/transaction/common/timestamp.cc\<close>, \<open>timestamp.h\<close>: the multi-version key-value store of the
  transactional back ends, and its timestamps.

  A \<open>std::set<VersionedValue>\<close> is the association list of its elements in the order of their
  write timestamps, on which alone they are compared; an iterator into it is an index, the
  length standing for \<open>end()\<close>. The locale \<open>multi_version\<close> is what a transaction relies on.
\<close>

section \<open>Timestamps\<close>

datatype Timestamp = Timestamp (ts_timestamp: u64) (ts_id: u64)

definition Timestamp_less :: "Timestamp \<Rightarrow> Timestamp \<Rightarrow> bool" where
  "Timestamp_less a b =
     (if ts_timestamp a = ts_timestamp b then ts_id a < ts_id b else ts_timestamp a < ts_timestamp b)"

definition Timestamp_le :: "Timestamp \<Rightarrow> Timestamp \<Rightarrow> bool" where
  "Timestamp_le a b =
     (if ts_timestamp a = ts_timestamp b then ts_id a \<le> ts_id b else ts_timestamp a \<le> ts_timestamp b)"

definition Timestamp_eq :: "Timestamp \<Rightarrow> Timestamp \<Rightarrow> bool" where
  "Timestamp_eq a b = (ts_timestamp a = ts_timestamp b \<and> ts_id a = ts_id b)"

definition Timestamp_isValid :: "Timestamp \<Rightarrow> bool" where
  "Timestamp_isValid t = (ts_timestamp t > 0 \<and> ts_id t > 0)"

lemma Timestamp_eq_iff: "Timestamp_eq a b \<longleftrightarrow> a = b"
  by (cases a; cases b) (simp add: Timestamp_eq_def)

instantiation Timestamp :: linorder
begin

definition less_Timestamp :: "Timestamp \<Rightarrow> Timestamp \<Rightarrow> bool" where
  "less_Timestamp = Timestamp_less"

definition less_eq_Timestamp :: "Timestamp \<Rightarrow> Timestamp \<Rightarrow> bool" where
  "less_eq_Timestamp = Timestamp_le"

instance
proof
  fix a b c :: Timestamp
  show "(a < b) = (a \<le> b \<and> \<not> b \<le> a)"
    by (auto simp: less_Timestamp_def less_eq_Timestamp_def Timestamp_less_def Timestamp_le_def)
  show "a \<le> a"
    by (simp add: less_eq_Timestamp_def Timestamp_le_def)
  show "a \<le> b \<Longrightarrow> b \<le> c \<Longrightarrow> a \<le> c"
    unfolding less_eq_Timestamp_def Timestamp_le_def by (auto split: if_splits)
  show "a \<le> b \<Longrightarrow> b \<le> a \<Longrightarrow> a = b"
    by (cases a; cases b) (auto simp: less_eq_Timestamp_def Timestamp_le_def split: if_splits)
  show "a \<le> b \<or> b \<le> a"
    by (auto simp: less_eq_Timestamp_def Timestamp_le_def)
qed

end

section \<open>The store\<close>

type_synonym versions = "(Timestamp, bytes) smap"

record VersionedKVStore =
  store :: "bytes \<rightharpoonup> versions"
  lastReads :: "bytes \<rightharpoonup> (Timestamp, Timestamp) smap"

definition VersionedKVStore_new :: VersionedKVStore where
  "VersionedKVStore_new = \<lparr>store = Map.empty, lastReads = Map.empty\<rparr>"

definition store_at :: "VersionedKVStore \<Rightarrow> bytes \<Rightarrow> versions" where
  "store_at s key = (case store s key of None \<Rightarrow> [] | Some vs \<Rightarrow> vs)"

definition inStore :: "bytes \<Rightarrow> VersionedKVStore \<Rightarrow> bool" where
  "inStore key s = (store s key \<noteq> None \<and> length (store_at s key) > 0)"

text \<open>\<open>upper_bound(t)\<close>: the first element with a write timestamp above \<open>t\<close>.\<close>

definition upper_bound :: "Timestamp \<Rightarrow> versions \<Rightarrow> nat" where
  "upper_bound t vs = length (takeWhile (\<lambda>(w, _). \<not> t < w) vs)"

definition getValue :: "bytes \<Rightarrow> Timestamp \<Rightarrow> VersionedKVStore \<Rightarrow> nat" where
  "getValue key t s =
     (let vs = store_at s key; it = upper_bound t vs
      in if it = 0 then length vs else it - 1)"

definition get_latest :: "bytes \<Rightarrow> VersionedKVStore \<Rightarrow> (Timestamp \<times> bytes) option" where
  "get_latest key s = (if inStore key s then Some (last (store_at s key)) else None)"

definition get_at :: "bytes \<Rightarrow> Timestamp \<Rightarrow> VersionedKVStore \<Rightarrow> (Timestamp \<times> bytes) option" where
  "get_at key t s =
     (if inStore key s then
        let it = getValue key t s
        in if it \<noteq> length (store_at s key) then Some (store_at s key ! it) else None
      else None)"

text \<open>\<open>range.second\<close> is only written when there is a next version.\<close>

definition getRange ::
  "bytes \<Rightarrow> Timestamp \<Rightarrow> VersionedKVStore \<Rightarrow> (Timestamp \<times> Timestamp option) option" where
  "getRange key t s =
     (if inStore key s then
        let vs = store_at s key; it = getValue key t s
        in if it \<noteq> length vs
           then Some (fst (vs ! it), if it + 1 \<noteq> length vs then Some (fst (vs ! (it + 1))) else None)
           else None
      else None)"

text \<open>\<open>std::set::insert\<close>: an element with that key already there stays.\<close>

definition insert_version :: "Timestamp \<Rightarrow> bytes \<Rightarrow> versions \<Rightarrow> versions" where
  "insert_version t v vs = (if map_of vs t = None then smap_put t v vs else vs)"

definition put :: "bytes \<Rightarrow> bytes \<Rightarrow> Timestamp \<Rightarrow> VersionedKVStore \<Rightarrow> VersionedKVStore" where
  "put key value t s = s\<lparr>store := (store s)(key \<mapsto> insert_version t value (store_at s key))\<rparr>"

definition commitGet :: "bytes \<Rightarrow> Timestamp \<Rightarrow> Timestamp \<Rightarrow> VersionedKVStore \<Rightarrow> VersionedKVStore" where
  "commitGet key readTime commit s =
     (if inStore key s then
        let it = getValue key readTime s
        in if it \<noteq> length (store_at s key) then
             let w = fst (store_at s key ! it)
             in case lastReads s key of
                  None \<Rightarrow> s
                | Some lr \<Rightarrow>
                    (case map_of lr w of
                       None \<Rightarrow> s
                     | Some r \<Rightarrow>
                         if r < commit then s\<lparr>lastReads := (lastReads s)(key \<mapsto> smap_put w commit lr)\<rparr> else s)
           else s
      else s)"

definition lastRead_of :: "VersionedKVStore \<Rightarrow> bytes \<Rightarrow> Timestamp \<Rightarrow> Timestamp option" where
  "lastRead_of s key w = (case lastReads s key of None \<Rightarrow> None | Some lr \<Rightarrow> map_of lr w)"

definition getLastRead :: "bytes \<Rightarrow> VersionedKVStore \<Rightarrow> Timestamp option" where
  "getLastRead key s =
     (if inStore key s then lastRead_of s key (fst (last (store_at s key))) else None)"

text \<open>The version valid at \<open>t\<close>; the assertion that there is one guards the dereference.\<close>

definition getLastRead_at :: "bool \<Rightarrow> bytes \<Rightarrow> Timestamp \<Rightarrow> VersionedKVStore \<Rightarrow> Timestamp option result" where
  "getLastRead_at na key t s =
     (if inStore key s then
        let it = getValue key t s; vs = store_at s key
        in assert_r na (it \<noteq> length vs)
             (case lastReads s key of
                None \<Rightarrow> Inr None
              | Some lr \<Rightarrow>
                  if it = length vs then Inl Undefined else Inr (map_of lr (fst (vs ! it))))
      else Inr None)"

section \<open>What a transaction relies on\<close>

text \<open>
  A reader at time \<open>t\<close> sees the latest version written at or before \<open>t\<close>; a writer adds a version
  that was not there.
\<close>

locale multi_version =
  fixes versions :: "'s \<Rightarrow> 'k \<Rightarrow> 't::linorder \<rightharpoonup> 'v"
    and wr :: "'k \<Rightarrow> 'v \<Rightarrow> 't \<Rightarrow> 's \<Rightarrow> 's"
    and read :: "'k \<Rightarrow> 't \<Rightarrow> 's \<Rightarrow> ('t \<times> 'v) option"
    and ok :: "'s \<Rightarrow> bool"
  assumes ok_write: "ok s \<Longrightarrow> ok (wr k v w s)"
    and versions_write: "ok s \<Longrightarrow> versions (wr k v w s) k' w' =
      (if k' = k \<and> w' = w \<and> versions s k w = None then Some v else versions s k' w')"
    and read_Some: "ok s \<Longrightarrow> read k t s = Some (w, v) \<longleftrightarrow>
      versions s k w = Some v \<and> w \<le> t \<and> (\<forall>w'. w < w' \<and> w' \<le> t \<longrightarrow> versions s k w' = None)"
begin

text \<open>A snapshot does not move: writes after \<open>t\<close> or to other keys leave a read at \<open>t\<close> alone.\<close>

lemma read_write_other:
  assumes "ok s" and "k' \<noteq> k \<or> t < w"
  shows "read k' t (wr k v w s) = read k' t s"
proof -
  have "versions (wr k v w s) k' w' = versions s k' w'" if "w' \<le> t" for w'
    using assms that by (auto simp: versions_write)
  then have "read k' t (wr k v w s) = Some (x, y) \<longleftrightarrow> read k' t s = Some (x, y)" for x y
    using assms(1) by (auto simp: read_Some ok_write)
  then show ?thesis by (cases "read k' t s"; cases "read k' t (wr k v w s)") auto
qed

text \<open>A reader sees a write that no later version hides.\<close>

lemma read_write_same:
  assumes "ok s" and "versions s k w = None" and "w \<le> t"
    and "\<forall>w'. w < w' \<and> w' \<le> t \<longrightarrow> versions s k w' = None"
  shows "read k t (wr k v w s) = Some (w, v)"
  using assms by (auto simp: read_Some ok_write versions_write)

lemma read_None:
  assumes "ok s" and "finite (dom (versions s k))"
  shows "read k t s = None \<longleftrightarrow> (\<forall>w. w \<le> t \<longrightarrow> versions s k w = None)"
proof
  assume none: "read k t s = None"
  show "\<forall>w. w \<le> t \<longrightarrow> versions s k w = None"
  proof (rule ccontr)
    let ?W = "{w. w \<le> t \<and> versions s k w \<noteq> None}"
    assume "\<not> (\<forall>w. w \<le> t \<longrightarrow> versions s k w = None)"
    then have "?W \<noteq> {}" by auto
    moreover have "finite ?W" by (rule finite_subset [OF _ assms(2)]) auto
    ultimately obtain m where m: "m \<in> ?W" "\<And>w. w \<in> ?W \<Longrightarrow> w \<le> m"
      by (meson Max_in Max_ge)
    then obtain v where v: "versions s k m = Some v" "m \<le> t" by auto
    have "versions s k w' = None" if "m < w'" "w' \<le> t" for w'
      using m(2) [of w'] that by (cases "versions s k w'") auto
    with v assms(1) have "read k t s = Some (m, v)" by (simp add: read_Some)
    with none show False by simp
  qed
next
  assume all: "\<forall>w. w \<le> t \<longrightarrow> versions s k w = None"
  show "read k t s = None"
  proof (rule ccontr)
    assume "read k t s \<noteq> None"
    then obtain w v where "read k t s = Some (w, v)" by auto
    with assms(1) all show False by (auto simp: read_Some)
  qed
qed

end

definition store_ok :: "VersionedKVStore \<Rightarrow> bool" where
  "store_ok s \<longleftrightarrow> (\<forall>key vs. store s key = Some vs \<longrightarrow> smap_ok vs)"

definition store_versions :: "VersionedKVStore \<Rightarrow> bytes \<Rightarrow> Timestamp \<rightharpoonup> bytes" where
  "store_versions s key = map_of (store_at s key)"

lemma smap_ok_store_at: "store_ok s \<Longrightarrow> smap_ok (store_at s key)"
  by (simp add: store_ok_def store_at_def smap_ok_Nil split: option.split)

lemma smap_ok_nth_less: "smap_ok vs \<Longrightarrow> i < j \<Longrightarrow> j < length vs \<Longrightarrow> fst (vs ! i) < fst (vs ! j)"
  by (auto simp: smap_ok_def sorted_wrt_iff_nth_less)

lemma map_of_nth_smap:
  "smap_ok vs \<Longrightarrow> i < length vs \<Longrightarrow> map_of vs (fst (vs ! i)) = Some (snd (vs ! i))"
  by (simp add: smap_ok_def strict_sorted_iff map_of_eq_Some_iff)

text \<open>In an ordered list, \<open>upper_bound\<close> separates the versions up to \<open>t\<close> from the later ones.\<close>

lemma upper_bound_spec:
  assumes "smap_ok vs"
  shows "upper_bound t vs \<le> length vs" and "i < length vs \<Longrightarrow> (fst (vs ! i) \<le> t) = (i < upper_bound t vs)"
proof -
  let ?P = "\<lambda>(w, _ :: bytes). \<not> t < w"
  show le: "upper_bound t vs \<le> length vs" by (simp add: upper_bound_def length_takeWhile_le)
  assume i: "i < length vs"
  show "(fst (vs ! i) \<le> t) = (i < upper_bound t vs)"
  proof (cases "i < upper_bound t vs")
    case True
    then have "takeWhile ?P vs ! i \<in> set (takeWhile ?P vs)" by (simp add: upper_bound_def)
    then have "?P (takeWhile ?P vs ! i)" by (rule set_takeWhileD [THEN conjunct2])
    then have "?P (vs ! i)" using True by (simp add: upper_bound_def takeWhile_nth)
    with True show ?thesis by (simp add: case_prod_beta not_less)
  next
    case False
    then have "upper_bound t vs < length vs" using i by linarith
    then have "\<not> ?P (vs ! upper_bound t vs)"
      unfolding upper_bound_def by (rule nth_length_takeWhile)
    then have "t < fst (vs ! upper_bound t vs)" by (simp add: case_prod_beta)
    moreover have "fst (vs ! upper_bound t vs) \<le> fst (vs ! i)"
      using False i smap_ok_nth_less [OF assms, of "upper_bound t vs" i]
      by (cases "i = upper_bound t vs") auto
    ultimately show ?thesis using False by (auto dest: order.strict_trans2)
  qed
qed

lemma get_at_Some:
  assumes ok: "store_ok s"
  shows "get_at k t s = Some (w, v) \<longleftrightarrow> store_versions s k w = Some v \<and> w \<le> t \<and>
    (\<forall>w'. w < w' \<and> w' \<le> t \<longrightarrow> store_versions s k w' = None)"
proof -
  let ?vs = "store_at s k" and ?b = "upper_bound t (store_at s k)"
  have vs: "smap_ok ?vs" by (rule smap_ok_store_at [OF ok])
  note le = upper_bound_spec(1) [OF vs, of t] and sep = upper_bound_spec(2) [OF vs, of _ t]
  have get: "get_at k t s = (if ?b = 0 then None else Some (?vs ! (?b - 1)))"
    using le by (auto simp: get_at_def getValue_def Let_def inStore_def store_at_def split: option.splits)
  have key: "\<exists>i < length ?vs. fst (?vs ! i) = w'" if "store_versions s k w' \<noteq> None" for w'
    using that by (auto simp: store_versions_def in_set_conv_nth dest!: map_of_SomeD) (metis fst_conv)
  show ?thesis
  proof (cases "?b = 0")
    case True
    have "store_versions s k w' = None" if "w' \<le> t" for w'
    proof (rule ccontr)
      assume "store_versions s k w' \<noteq> None"
      then obtain i where "i < length ?vs" "fst (?vs ! i) = w'" using key by blast
      with sep [of i] that True show False by simp
    qed
    with get True show ?thesis by auto
  next
    case False
    let ?i = "?b - 1"
    have i: "?i < length ?vs" "?i < ?b" using le False by auto
    have top: "store_versions s k (fst (?vs ! ?i)) = Some (snd (?vs ! ?i))" "fst (?vs ! ?i) \<le> t"
      using map_of_nth_smap [OF vs i(1)] sep [OF i(1)] i(2) by (simp_all add: store_versions_def)
    have none: "store_versions s k w' = None" if "fst (?vs ! ?i) < w'" "w' \<le> t" for w'
    proof (rule ccontr)
      assume "store_versions s k w' \<noteq> None"
      with key obtain j where j: "j < length ?vs" "fst (?vs ! j) = w'" by blast
      then have "j \<le> ?i" using sep [OF j(1)] that(2) by simp
      then have "fst (?vs ! j) \<le> fst (?vs ! ?i)"
        using smap_ok_nth_less [OF vs, of j ?i] i(1) by (cases "j = ?i") auto
      with j that(1) show False by simp
    qed
    show ?thesis
    proof
      assume "get_at k t s = Some (w, v)"
      then have wv: "?vs ! ?i = (w, v)" using get False by simp
      with top none show "store_versions s k w = Some v \<and> w \<le> t \<and>
          (\<forall>w'. w < w' \<and> w' \<le> t \<longrightarrow> store_versions s k w' = None)" by (simp add: wv)
    next
      assume r: "store_versions s k w = Some v \<and> w \<le> t \<and>
          (\<forall>w'. w < w' \<and> w' \<le> t \<longrightarrow> store_versions s k w' = None)"
      then have "\<not> w < fst (?vs ! ?i)" using top by auto
      moreover have "\<not> fst (?vs ! ?i) < w" using none r by auto
      ultimately have "w = fst (?vs ! ?i)" by simp
      with r top have "v = snd (?vs ! ?i)" by simp
      with \<open>w = fst (?vs ! ?i)\<close> get False show "get_at k t s = Some (w, v)" by simp
    qed
  qed
qed

lemma store_at_put: "store_at (put k v t s) k' = (if k' = k then insert_version t v (store_at s k) else store_at s k')"
  by (simp add: put_def store_at_def)

lemma store_ok_put: "store_ok s \<Longrightarrow> store_ok (put k v t s)"
  using smap_ok_store_at [of s k]
  by (auto simp: store_ok_def put_def insert_version_def sm.ok_put split: if_splits)

interpretation mv: multi_version store_versions put get_at store_ok
proof unfold_locales
  show "store_ok s \<Longrightarrow> store_ok (put k v w s)" for s k v w
    by (rule store_ok_put)
  show "store_versions (put k v w s) k' w' =
      (if k' = k \<and> w' = w \<and> store_versions s k w = None then Some v else store_versions s k' w')" for s k v w k' w'
    by (auto simp: store_versions_def store_at_put insert_version_def sm.get_put)
qed (rule get_at_Some)

section \<open>Properties\<close>

datatype version_op = Put bytes bytes Timestamp | CommitGet bytes Timestamp Timestamp

fun version_step :: "version_op \<Rightarrow> VersionedKVStore \<Rightarrow> VersionedKVStore" where
  "version_step (Put k v t) s = put k v t s"
| "version_step (CommitGet k r c) s = commitGet k r c s"

lemma store_commitGet [simp]: "store (commitGet k r c s) = store s"
  by (simp add: commitGet_def Let_def split: option.split)

lemma store_ok_fold: "store_ok s \<Longrightarrow> store_ok (fold version_step xs s)"
proof (induction xs arbitrary: s)
  case (Cons x xs)
  have "store_ok (version_step x s)"
  proof (cases x)
    case (CommitGet k r c)
    with Cons.prems show ?thesis by (simp add: store_ok_def)
  qed (use Cons.prems in \<open>simp add: store_ok_put\<close>)
  with Cons.IH show ?case by simp
qed simp

lemma store_ok_new: "store_ok VersionedKVStore_new"
  by (simp add: store_ok_def VersionedKVStore_new_def)

text \<open>
  C37. After any sequence of writes and read commits, a read at time \<open>t\<close> returns exactly the version
  with the greatest write timestamp not above \<open>t\<close>.
\<close>

theorem get_at_latest_version:
  "get_at k t (fold version_step xs VersionedKVStore_new) = Some (w, v) \<longleftrightarrow>
     (let s = fold version_step xs VersionedKVStore_new in
      store_versions s k w = Some v \<and> w \<le> t \<and>
      (\<forall>w'. w < w' \<and> w' \<le> t \<longrightarrow> store_versions s k w' = None))"
  using get_at_Some [OF store_ok_fold [OF store_ok_new]] by (simp add: Let_def)

theorem get_at_latest_version_witness:
  "get_at ''k'' (Timestamp 5 0) (fold version_step
     [Put ''k'' ''c'' (Timestamp 9 1), Put ''k'' ''a'' (Timestamp 2 1), Put ''k'' ''b'' (Timestamp 4 2)]
     VersionedKVStore_new) = Some (Timestamp 4 2, ''b'') \<and>
   store_versions (fold version_step
     [Put ''k'' ''c'' (Timestamp 9 1), Put ''k'' ''a'' (Timestamp 2 1), Put ''k'' ''b'' (Timestamp 4 2)]
     VersionedKVStore_new) ''k'' (Timestamp 4 2) = Some ''b''"
proof -
  let ?xs = "[Put ''k'' ''c'' (Timestamp 9 1), Put ''k'' ''a'' (Timestamp 2 1), Put ''k'' ''b'' (Timestamp 4 2)]"
  have "get_at ''k'' (Timestamp 5 0) (fold version_step ?xs VersionedKVStore_new) = Some (Timestamp 4 2, ''b'')"
    by code_simp
  with get_at_latest_version [of "''k''" "Timestamp 5 0" ?xs "Timestamp 4 2" "''b''"] show ?thesis by (simp add: Let_def)
qed

text \<open>
  Snapshots do not move: writing a version above \<open>t\<close>, or to another key, leaves every read at
  \<open>t\<close> what it was.
\<close>

theorem snapshot_stable:
  assumes "k' \<noteq> k \<or> t < w"
  shows "get_at k' t (put k v w (fold version_step xs VersionedKVStore_new)) =
    get_at k' t (fold version_step xs VersionedKVStore_new)"
  by (rule mv.read_write_other [OF store_ok_fold [OF store_ok_new] assms])

theorem snapshot_stable_witness:
  "get_at ''k'' (Timestamp 5 0) (put ''k'' ''z'' (Timestamp 6 1)
     (fold version_step [Put ''k'' ''a'' (Timestamp 2 1)] VersionedKVStore_new)) = Some (Timestamp 2 1, ''a'')"
proof -
  have "Timestamp 5 0 < Timestamp 6 1" by (simp add: less_Timestamp_def Timestamp_less_def)
  moreover have "get_at ''k'' (Timestamp 5 0)
      (fold version_step [Put ''k'' ''a'' (Timestamp 2 1)] VersionedKVStore_new) = Some (Timestamp 2 1, ''a'')"
    by code_simp
  ultimately show ?thesis
    using snapshot_stable [of "''k''" "''k''" "Timestamp 5 0" "Timestamp 6 1" "''z''"
        "[Put ''k'' ''a'' (Timestamp 2 1)]"] by simp
qed

text \<open>
  Reads are never recorded: \<open>commitGet\<close> only updates an entry of \<open>lastReads\<close> that is already
  there, and nothing ever creates one. So after any sequence of operations both forms of
  \<open>getLastRead\<close> report that no version has been read, whatever was committed.
\<close>

theorem reads_never_recorded:
  "lastReads (fold version_step xs VersionedKVStore_new) = Map.empty \<and>
   getLastRead k (fold version_step xs VersionedKVStore_new) = None \<and>
   post (getLastRead_at na k t (fold version_step xs VersionedKVStore_new)) (\<lambda>r. r = None)"
proof -
  have keep: "lastReads (version_step x s) = Map.empty" if "lastReads s = Map.empty" for x s
    using that by (cases x) (auto simp: put_def commitGet_def Let_def)
  have "lastReads (fold version_step xs s) = Map.empty" if "lastReads s = Map.empty" for s
    using that by (induction xs arbitrary: s) (auto simp: keep)
  then have "lastReads (fold version_step xs VersionedKVStore_new) = Map.empty"
    by (simp add: VersionedKVStore_new_def)
  then show ?thesis
    by (simp add: getLastRead_def lastRead_of_def getLastRead_at_def Let_def wp)
qed

end
