(* ===== verification/Unreplicated.thy ===== *)
theory Unreplicated
  imports Transport
begin

text \<open>
  The unreplicated protocol: \<open>src/replication/unreplicated/replica.cc\<close>, \<open>replica.h\<close>, \<open>client.cc\<close>,
  \<open>client.h\<close> and \<open>unreplicated-proto.proto\<close>. One server executes every request in the order of
  arrival; its client table answers a repeated request with the stored reply. What the server
  sends, and its calls of the application, are appended to \<open>un_effects\<close> in order; what a client
  sends, and the continuations it calls, to \<open>uc_effects\<close>.
\<close>

section \<open>Messages\<close>

datatype UReplyMessage = UReplyMessage
  (ur_view: u64) (ur_opnum: u64) (ur_req: Request) (ur_reply: bytes)

datatype UToReplicaMessage =
    UReplicaMsgNotSet
  | URequest Request
  | UUnloggedRequest UnloggedRequest

datatype UToClientMessage =
    UClientMsgNotSet
  | UReply UReplyMessage
  | UUnloggedReply bytes

section \<open>The server\<close>

datatype unrep_effect =
    UnSend TransportAddress UToClientMessage
  | UnExecuted opnum_t Request
  | UnUnlogged UnloggedRequest

record 'app unrep_env = log_env +
  un_code :: "'app AppReplica"

record UClientTableEntry =
  ue_lastReqId :: u64
  ue_reply :: UToClientMessage

record 'app unrep_replica =
  un_status :: ReplicaStatus
  un_last_op :: opnum_t
  un_log :: Log
  un_table :: "u64 \<rightharpoonup> UClientTableEntry"
  un_app :: 'app
  un_effects :: "unrep_effect list"

definition un_emit :: "unrep_effect \<Rightarrow> 'app unrep_replica \<Rightarrow> 'app unrep_replica" where
  "un_emit e s = s\<lparr>un_effects := un_effects s @ [e]\<rparr>"

text \<open>The constructor; \<open>Log(false)\<close> starts at 1 with the empty hash.\<close>

definition UnreplicatedReplica_new :: "'app unrep_env \<Rightarrow> bool \<Rightarrow> 'app \<Rightarrow> 'app unrep_replica result" where
  "UnreplicatedReplica_new E initialize a =
     bind_r (mk_Log E False 1 EMPTY_HASH) (\<lambda>l.
       if \<not> initialize then Inl Panicked
       else Inr \<lparr>un_status = STATUS_NORMAL, un_last_op = 0, un_log = l, un_table = Map.empty,
                 un_app = a, un_effects = []\<rparr>)"

text \<open>\<open>clientTable[id]\<close>: the entry, value-initialised if absent.\<close>

definition un_entry :: "(u64 \<rightharpoonup> UClientTableEntry) \<Rightarrow> u64 \<Rightarrow> UClientTableEntry" where
  "un_entry t cid =
     (case t cid of None \<Rightarrow> \<lparr>ue_lastReqId = 0, ue_reply = UClientMsgNotSet\<rparr> | Some e \<Rightarrow> e)"

definition un_UpdateClientTable ::
  "'app unrep_env \<Rightarrow> Request \<Rightarrow> UToClientMessage \<Rightarrow> 'app unrep_replica \<Rightarrow> 'app unrep_replica result" where
  "un_UpdateClientTable E req m s =
     (let entry = un_entry (un_table s) (clientid req)
      in assert_r (nassert E) (ue_lastReqId entry \<le> clientreqid req)
        (let entry' = (if ue_lastReqId entry = clientreqid req then entry
                       else \<lparr>ue_lastReqId = clientreqid req, ue_reply = m\<rparr>)
         in Inr (s\<lparr>un_table := (un_table s)(clientid req \<mapsto> entry')\<rparr>)))"

text \<open>The part of \<open>HandleRequest\<close> after the test of the client table.\<close>

definition un_execute ::
  "'app unrep_env \<Rightarrow> TransportAddress \<Rightarrow> Request \<Rightarrow> 'app unrep_replica \<Rightarrow> 'app unrep_replica result" where
  "un_execute E remote req s0 =
     (let s = s0\<lparr>un_last_op := un_last_op s0 + 1\<rparr>;
          n = un_last_op s
      in bind_r (Append E (mk_LogEntry (viewstamp2 0 n) LOG_STATE_RECEIVED req) (un_log s)) (\<lambda>l.
        let (res, a) = Execute (un_code E) n req None (un_app s);
            s1 = un_emit (UnExecuted n req) (s\<lparr>un_log := l, un_app := a\<rparr>);
            m = UReply (UReplyMessage 0 n req res);
            s2 = un_emit (UnSend remote m) s1
        in un_UpdateClientTable E req m s2))"

definition un_HandleRequest ::
  "'app unrep_env \<Rightarrow> TransportAddress \<Rightarrow> Request \<Rightarrow> 'app unrep_replica \<Rightarrow> 'app unrep_replica result" where
  "un_HandleRequest E remote req s =
     (case un_table s (clientid req) of
        None \<Rightarrow> un_execute E remote req s
      | Some entry \<Rightarrow>
          if clientreqid req < ue_lastReqId entry then Inr s
          else if clientreqid req = ue_lastReqId entry then Inr (un_emit (UnSend remote (ue_reply entry)) s)
          else un_execute E remote req s)"

definition un_HandleUnloggedRequest ::
  "'app unrep_env \<Rightarrow> TransportAddress \<Rightarrow> UnloggedRequest \<Rightarrow> 'app unrep_replica \<Rightarrow> 'app unrep_replica" where
  "un_HandleUnloggedRequest E remote req s =
     (let (res, a) = ExecuteUnlogged (un_code E) req (un_app s)
      in un_emit (UnSend remote (UUnloggedReply res)) (un_emit (UnUnlogged req) (s\<lparr>un_app := a\<rparr>)))"

fun un_ReceiveMessage ::
  "'app unrep_env \<Rightarrow> TransportAddress \<Rightarrow> UToReplicaMessage \<Rightarrow> 'app unrep_replica \<Rightarrow> 'app unrep_replica result" where
  "un_ReceiveMessage E remote (URequest req) s = un_HandleRequest E remote req s"
| "un_ReceiveMessage E remote (UUnloggedRequest req) s = Inr (un_HandleUnloggedRequest E remote req s)"
| "un_ReceiveMessage E remote UReplicaMsgNotSet s = Inl Panicked"

section \<open>The client\<close>

record 'k UPendingRequest =
  up_request :: bytes
  up_clientreqid :: u64
  up_continuation :: "'k option"

datatype 'k unrep_client_effect =
    UcSend int UToReplicaMessage
  | UcContinuation 'k bytes bytes
  | UcUnloggedContinuation 'k bytes bytes

record 'k unrep_client =
  uc_clientid :: u64
  uc_lastReqId :: u64
  uc_pending :: "'k UPendingRequest option"
  uc_pendingUnlogged :: "'k UPendingRequest option"
  uc_timeout :: Timeout
  uc_effects :: "'k unrep_client_effect list"

definition uc_emit :: "'k unrep_client_effect \<Rightarrow> 'k unrep_client \<Rightarrow> 'k unrep_client" where
  "uc_emit e s = s\<lparr>uc_effects := uc_effects s @ [e]\<rparr>"

definition UnreplicatedClient_new :: "u64 \<Rightarrow> 'k unrep_client" where
  "UnreplicatedClient_new cid =
     \<lparr>uc_clientid = cid, uc_lastReqId = 0, uc_pending = None, uc_pendingUnlogged = None,
      uc_timeout = mk_Timeout 1000, uc_effects = []\<rparr>"

text \<open>The number in the request is \<open>lastReqId\<close>, not the one of the pending request.\<close>

definition uc_SendRequest :: "'k unrep_client \<Rightarrow> 'k unrep_client result" where
  "uc_SendRequest s =
     deref_r (uc_pending s) (\<lambda>p.
       let m = URequest \<lparr>op = up_request p, clientid = uc_clientid s, clientreqid = uc_lastReqId s,
                         ops = [], req_sessnum = None, clientaddr = None\<rparr>;
           s1 = uc_emit (UcSend 0 m) s
       in Inr (s1\<lparr>uc_timeout := Timeout_Reset (uc_timeout s1)\<rparr>))"

definition uc_ResendRequest :: "'k unrep_client \<Rightarrow> 'k unrep_client result" where
  "uc_ResendRequest s = uc_SendRequest s"

definition uc_Invoke :: "bytes \<Rightarrow> 'k option \<Rightarrow> 'k unrep_client \<Rightarrow> 'k unrep_client result" where
  "uc_Invoke r continuation s =
     (if uc_pending s \<noteq> None then Inl Panicked
      else
        let reqId = uc_lastReqId s + 1;
            p = \<lparr>up_request = r, up_clientreqid = reqId, up_continuation = continuation\<rparr>
        in uc_SendRequest (s\<lparr>uc_lastReqId := reqId, uc_pending := Some p\<rparr>))"

text \<open>The timeout and its continuation are ignored, and an index other than 0 panics.\<close>

definition uc_InvokeUnlogged ::
  "int \<Rightarrow> bytes \<Rightarrow> 'k option \<Rightarrow> 'k option \<Rightarrow> u32 \<Rightarrow> 'k unrep_client \<Rightarrow> 'k unrep_client result" where
  "uc_InvokeUnlogged idx r continuation timeoutContinuation timeout s =
     (if uc_pendingUnlogged s \<noteq> None then Inl Panicked
      else
        let p = \<lparr>up_request = r, up_clientreqid = 0, up_continuation = continuation\<rparr>;
            m = UUnloggedRequest \<lparr>uop = r, uclientid = uc_clientid s, uclientreqid = 0\<rparr>;
            s1 = s\<lparr>uc_pendingUnlogged := Some p\<rparr>
        in if idx \<noteq> 0 then Inl Panicked else Inr (uc_emit (UcSend 0 m) s1))"

definition uc_call :: "'k option \<Rightarrow> ('k \<Rightarrow> 'k unrep_client_effect) \<Rightarrow> 'k unrep_client \<Rightarrow> 'k unrep_client result" where
  "uc_call k e s = (case k of None \<Rightarrow> Inl BadFunctionCall | Some k' \<Rightarrow> Inr (uc_emit (e k') s))"

definition uc_HandleReply :: "UReplyMessage \<Rightarrow> 'k unrep_client \<Rightarrow> 'k unrep_client result" where
  "uc_HandleReply m s =
     (case uc_pending s of
        None \<Rightarrow> Inr s
      | Some p \<Rightarrow>
          if clientreqid (ur_req m) \<noteq> up_clientreqid p then Inr s
          else uc_call (up_continuation p) (\<lambda>k. UcContinuation k (up_request p) (ur_reply m))
                 (s\<lparr>uc_timeout := Timeout_Stop (uc_timeout s), uc_pending := None\<rparr>))"

text \<open>No early return when nothing is pending: the null pointer is followed.\<close>

definition uc_HandleUnloggedReply :: "bytes \<Rightarrow> 'k unrep_client \<Rightarrow> 'k unrep_client result" where
  "uc_HandleUnloggedReply rep s =
     (let req = uc_pendingUnlogged s;
          s1 = s\<lparr>uc_pendingUnlogged := None\<rparr>
      in deref_r req (\<lambda>p. uc_call (up_continuation p) (\<lambda>k. UcUnloggedContinuation k (up_request p) rep) s1))"

fun uc_ReceiveMessage :: "UToClientMessage \<Rightarrow> 'k unrep_client \<Rightarrow> 'k unrep_client result" where
  "uc_ReceiveMessage (UReply m) s = uc_HandleReply m s"
| "uc_ReceiveMessage (UUnloggedReply r) s = uc_HandleUnloggedReply r s"
| "uc_ReceiveMessage UClientMsgNotSet s = Inl Panicked"

datatype 'k unrep_client_call =
    UInvoke bytes "'k option"
  | UInvokeUnlogged int bytes "'k option" "'k option" u32
  | UTimer

definition uc_do :: "'k unrep_client_call \<Rightarrow> 'k unrep_client \<Rightarrow> 'k unrep_client result" where
  "uc_do c s =
     (case c of
        UInvoke r k \<Rightarrow> uc_Invoke r k s
      | UInvokeUnlogged i r k tk to \<Rightarrow> uc_InvokeUnlogged i r k tk to s
      | UTimer \<Rightarrow> if armed (uc_timeout s) then uc_ResendRequest s else Inr s)"

section \<open>Server and clients together\<close>

text \<open>
  The client with identifier \<open>c\<close> has the address \<open>unat c\<close>. The network delivers any message sent
  so far, any number of times and in any order: \<open>un_requests\<close> are the messages sent by clients,
  and the replies are the effects of the server.
\<close>

record ('app, 'k) unrep_system =
  un_server :: "'app unrep_replica"
  un_clients :: "u64 \<Rightarrow> 'k unrep_client"
  un_requests :: "(u64 \<times> UToReplicaMessage) list"

datatype 'k unrep_event =
    ClientCall u64 "'k unrep_client_call"
  | ToServer nat
  | ToClient nat

definition sends_of :: "u64 \<Rightarrow> 'k unrep_client_effect list \<Rightarrow> (u64 \<times> UToReplicaMessage) list" where
  "sends_of cid es = concat (map (\<lambda>e. case e of UcSend i m \<Rightarrow> [(cid, m)] | _ \<Rightarrow> []) es)"

definition put_client :: "u64 \<Rightarrow> 'k unrep_client \<Rightarrow> ('app, 'k) unrep_system \<Rightarrow> ('app, 'k) unrep_system" where
  "put_client cid c' S =
     S\<lparr>un_clients := (un_clients S)(cid := c'),
       un_requests := un_requests S @ sends_of cid (drop (length (uc_effects (un_clients S cid))) (uc_effects c'))\<rparr>"

definition unrep_step :: "'app unrep_env \<Rightarrow> 'k unrep_event \<Rightarrow> ('app, 'k) unrep_system \<Rightarrow> ('app, 'k) unrep_system result" where
  "unrep_step E ev S =
     (case ev of
        ClientCall cid call \<Rightarrow> bind_r (uc_do call (un_clients S cid)) (\<lambda>c'. Inr (put_client cid c' S))
      | ToServer i \<Rightarrow>
          if i < length (un_requests S) then
            (let (cid, m) = un_requests S ! i
             in bind_r (un_ReceiveMessage E (unat cid) m (un_server S)) (\<lambda>r. Inr (S\<lparr>un_server := r\<rparr>)))
          else Inr S
      | ToClient i \<Rightarrow>
          if i < length (un_effects (un_server S)) then
            (case un_effects (un_server S) ! i of
               UnSend a m \<Rightarrow> bind_r (uc_ReceiveMessage m (un_clients S (of_nat a))) (\<lambda>c'.
                 Inr (put_client (of_nat a) c' S))
             | _ \<Rightarrow> Inr S)
          else Inr S)"

definition unrep_run :: "'app unrep_env \<Rightarrow> 'k unrep_event list \<Rightarrow> ('app, 'k) unrep_system \<Rightarrow> ('app, 'k) unrep_system result" where
  "unrep_run E evs S = fold_r (unrep_step E) evs S"

definition unrep_start :: "'app unrep_env \<Rightarrow> 'app \<Rightarrow> ('app, 'k) unrep_system" where
  "unrep_start E a =
     \<lparr>un_server = projr (UnreplicatedReplica_new E True a), un_clients = UnreplicatedClient_new, un_requests = []\<rparr>"

text \<open>No client wraps its 64-bit request numbers.\<close>

fun no_wrap :: "'app unrep_env \<Rightarrow> 'k unrep_event list \<Rightarrow> ('app, 'k) unrep_system \<Rightarrow> bool" where
  "no_wrap E [] S = True"
| "no_wrap E (ev # evs) S =
     ((case ev of ClientCall cid (UInvoke r k) \<Rightarrow> uc_lastReqId (un_clients S cid) + 1 \<noteq> 0 | _ \<Rightarrow> True) \<and>
      (case unrep_step E ev S of Inl e \<Rightarrow> True | Inr S' \<Rightarrow> no_wrap E evs S'))"

end
