(* ===== verification/UnrepSystem.thy ===== *)
theory UnrepSystem
  imports Unreplicated
begin

text \<open>
  The unreplicated protocol as a whole: clients, a network that loses, repeats and reorders
  messages, and the server. Every answer a client gets is the result of executing its request
  at one point of the server's sequence of upcalls, and no request is executed twice; and a
  pending request can be answered from every reachable state.
\<close>

section \<open>The sequential specification\<close>

text \<open>The application state after a sequence of upcalls, and what an execution in it answers.\<close>

fun upcall_after :: "'app AppReplica \<Rightarrow> unrep_effect \<Rightarrow> 'app \<Rightarrow> 'app" where
  "upcall_after A (UnExecuted n req) a = snd (Execute A n req None a)"
| "upcall_after A (UnUnlogged req) a = snd (ExecuteUnlogged A req a)"
| "upcall_after A (UnSend x m) a = a"

definition app_after :: "'app AppReplica \<Rightarrow> unrep_effect list \<Rightarrow> 'app \<Rightarrow> 'app" where
  "app_after A es a = fold (upcall_after A) es a"

lemma app_after_simps [simp]:
  "app_after A [] a = a"
  "app_after A (es @ es') a = app_after A es' (app_after A es a)"
  "app_after A (e # es) a = app_after A es (upcall_after A e a)"
  by (simp_all add: app_after_def)

definition answers :: "'app AppReplica \<Rightarrow> 'app \<Rightarrow> unrep_effect list \<Rightarrow> Request \<Rightarrow> bytes \<Rightarrow> bool" where
  "answers A a es req rep \<longleftrightarrow> (\<exists>pre n post. es = pre @ UnExecuted n req # post \<and>
     rep = fst (Execute A n req None (app_after A pre a)))"

lemma answers_mono: "answers A a es req rep \<Longrightarrow> answers A a (es @ es') req rep"
  by (fastforce simp: answers_def)

lemma answers_last:
  "answers A a (es @ UnExecuted n req # es') req (fst (Execute A n req None (app_after A es a)))"
  by (auto simp: answers_def)

lemma answers_executed: "answers A a es req rep \<Longrightarrow> \<exists>n. UnExecuted n req \<in> set es"
  by (auto simp: answers_def)

text \<open>The requests executed, by client and number.\<close>

definition executions :: "unrep_effect list \<Rightarrow> (u64 \<times> u64) list" where
  "executions es = concat (map (\<lambda>e. case e of UnExecuted n req \<Rightarrow> [(clientid req, clientreqid req)] | _ \<Rightarrow> []) es)"

lemma executions_simps [simp]:
  "executions [] = []"
  "executions (es @ es') = executions es @ executions es'"
  "executions (UnExecuted n req # es) = (clientid req, clientreqid req) # executions es"
  "executions (UnUnlogged u # es) = executions es"
  "executions (UnSend x m # es) = executions es"
  by (simp_all add: executions_def)

lemma in_executions: "(c, i) \<in> set (executions es) \<longleftrightarrow> (\<exists>n req. UnExecuted n req \<in> set es \<and> clientid req = c \<and> clientreqid req = i)"
  by (fastforce simp: executions_def split: unrep_effect.splits)

section \<open>The server's invariant\<close>

definition entry_ok :: "'app unrep_env \<Rightarrow> 'app \<Rightarrow> unrep_effect list \<Rightarrow> u64 \<Rightarrow> UClientTableEntry \<Rightarrow> bool" where
  "entry_ok E a es c e \<longleftrightarrow> (\<exists>m. ue_reply e = UReply m \<and> answers (un_code E) a es (ur_req m) (ur_reply m) \<and>
     clientid (ur_req m) = c \<and> clientreqid (ur_req m) = ue_lastReqId e)"

definition server_ok :: "'app unrep_env \<Rightarrow> 'app \<Rightarrow> 'app unrep_replica \<Rightarrow> bool" where
  "server_ok E a s \<longleftrightarrow>
     un_app s = app_after (un_code E) (un_effects s) a \<and>
     log_ok (un_log s) \<and> log_top (un_log s) = Suc (unat (un_last_op s)) \<and>
     (\<forall>c e. un_table s c = Some e \<longrightarrow> entry_ok E a (un_effects s) c e) \<and>
     (\<forall>n req. UnExecuted n req \<in> set (un_effects s) \<longrightarrow>
        (\<exists>e. un_table s (clientid req) = Some e \<and> clientreqid req \<le> ue_lastReqId e)) \<and>
     distinct (executions (un_effects s)) \<and>
     (\<forall>x m. UnSend x (UReply m) \<in> set (un_effects s) \<longrightarrow>
        answers (un_code E) a (un_effects s) (ur_req m) (ur_reply m) \<and> x = unat (clientid (ur_req m))) \<and>
     UClientMsgNotSet \<notin> {m. \<exists>x. UnSend x m \<in> set (un_effects s)}"

lemma entry_ok_mono: "entry_ok E a es c e \<Longrightarrow> entry_ok E a (es @ es') c e"
  by (auto simp: entry_ok_def answers_mono)

lemma server_ok_new: "server_ok E a (projr (UnreplicatedReplica_new E True a))"
  by (simp add: server_ok_def UnreplicatedReplica_new_def mk_Log_def log_ok_def log_top_def vector_max_size_def)

lemma server_entry: "server_ok E a s \<Longrightarrow> un_table s c = Some e \<Longrightarrow> entry_ok E a (un_effects s) c e"
  by (simp add: server_ok_def)

lemma server_sent:
  "server_ok E a s \<Longrightarrow> UnSend x (UReply m) \<in> set (un_effects s) \<Longrightarrow>
   answers (un_code E) a (un_effects s) (ur_req m) (ur_reply m) \<and> x = unat (clientid (ur_req m))"
  by (simp add: server_ok_def)

lemma unat_last_op_Suc:
  "server_ok E a s \<Longrightarrow> unat (un_last_op s + 1) = Suc (unat (un_last_op s))"
  using log_ok_bound [of "un_log s"] by (intro unat_succ_bound) (simp add: server_ok_def)

lemma next_op:
  assumes "server_ok E a s"
  shows "un_last_op s + 1 = LastOpnum (un_log s) + 1"
proof -
  have "LastOpnum (un_log s) = un_last_op s"
    using assms unat_LastOpnum [of "un_log s"] by (simp add: server_ok_def word_unat_eq_iff)
  then show ?thesis by simp
qed

text \<open>Executing a request that the table has not seen, with a number that is not 0.\<close>

lemma un_execute_effect:
  assumes ok: "server_ok E a s" and new: "ue_lastReqId (un_entry (un_table s) (clientid req)) < clientreqid req"
  shows "post (un_execute E x req s) (\<lambda>s'. \<exists>l m.
    m = UReplyMessage 0 (un_last_op s + 1) req (fst (Execute (un_code E) (un_last_op s + 1) req None (un_app s))) \<and>
    log_ok l \<and> log_top l = Suc (log_top (un_log s)) \<and>
    s' = \<lparr>un_status = un_status s, un_last_op = un_last_op s + 1, un_log = l,
          un_table = (un_table s)(clientid req \<mapsto> \<lparr>ue_lastReqId = clientreqid req, ue_reply = UReply m\<rparr>),
          un_app = snd (Execute (un_code E) (un_last_op s + 1) req None (un_app s)),
          un_effects = un_effects s @ [UnExecuted (un_last_op s + 1) req, UnSend x (UReply m)]\<rparr>)"
proof -
  let ?e = "mk_LogEntry (viewstamp2 0 (un_last_op s + 1)) LOG_STATE_RECEIVED req"
  have lok: "log_ok (un_log s)" and num: "vs_opnum (viewstamp ?e) = LastOpnum (un_log s) + 1"
    using ok next_op [OF ok] by (simp_all add: server_ok_def mk_LogEntry_def viewstamp2_def)
  have app: "post (Append E ?e (un_log s)) (\<lambda>l. log_ok l \<and> log_top l = Suc (log_top (un_log s)))"
  proof (rule postI)
    fix l assume l: "Append E ?e (un_log s) = Inr l"
    have "length (entries (un_log s)) < vector_max_size"
      using Append_returned [OF lok l] num by blast
    from Append_ok [OF lok num this, of E] l show "log_ok l \<and> log_top l = Suc (log_top (un_log s))"
      by (auto simp: log_top_def)
  qed
  have "ue_lastReqId (un_entry (un_table s) (clientid req)) \<noteq> clientreqid req" using new by simp
  with new show ?thesis
    by (cases "Append E ?e (un_log s)")
      (use app in \<open>auto simp: un_execute_def Let_def case_prod_beta un_UpdateClientTable_def un_emit_def wp
        intro!: exI simp del: less_imp_not_eq\<close>)
qed

text \<open>What a request does to the server: nothing, an answer out of the table, or one execution.\<close>

definition grows :: "Request \<Rightarrow> unrep_effect list \<Rightarrow> unrep_effect list \<Rightarrow> bool" where
  "grows req es es' \<longleftrightarrow> (\<exists>fresh. es' = es @ fresh \<and> (\<forall>n r. UnExecuted n r \<in> set fresh \<longrightarrow> r = req))"

lemma server_HandleRequest:
  assumes ok: "server_ok E a s" and num: "clientreqid req \<noteq> 0"
  shows "post (un_HandleRequest E (unat (clientid req)) req s)
    (\<lambda>s'. server_ok E a s' \<and> grows req (un_effects s) (un_effects s'))"
proof -
  let ?n = "un_last_op s + 1" and ?c = "clientid req"
  let ?m = "UReplyMessage 0 ?n req (fst (Execute (un_code E) ?n req None (un_app s)))"
  have again: "server_ok E a (un_emit (UnSend (unat ?c) (ue_reply e)) s) \<and>
      grows req (un_effects s) (un_effects (un_emit (UnSend (unat ?c) (ue_reply e)) s))"
    if e: "un_table s ?c = Some e" for e
  proof -
    obtain m where m: "ue_reply e = UReply m" "answers (un_code E) a (un_effects s) (ur_req m) (ur_reply m)"
        "clientid (ur_req m) = ?c"
      using server_entry [OF ok e] by (auto simp: entry_ok_def)
    then show ?thesis
      using ok by (auto simp: server_ok_def un_emit_def grows_def answers_mono entry_ok_mono)
  qed
  have exec: "post (un_execute E (unat ?c) req s) (\<lambda>s'. server_ok E a s' \<and> grows req (un_effects s) (un_effects s'))"
    if new: "ue_lastReqId (un_entry (un_table s) ?c) < clientreqid req"
  proof (rule post_mono [OF un_execute_effect [OF ok new]], elim exE conjE, simp only:)
    fix s' l m
    assume l: "log_ok l" "log_top l = Suc (log_top (un_log s))"
    let ?es = "un_effects s @ [UnExecuted ?n req, UnSend (unat ?c) (UReply ?m)]"
    let ?t = "(un_table s)(?c \<mapsto> \<lparr>ue_lastReqId = clientreqid req, ue_reply = UReply ?m\<rparr>)"
    let ?s = "\<lparr>un_status = un_status s, un_last_op = ?n, un_log = l, un_table = ?t,
          un_app = snd (Execute (un_code E) ?n req None (un_app s)), un_effects = ?es\<rparr>"
    have app: "un_app s = app_after (un_code E) (un_effects s) a" using ok by (simp add: server_ok_def)
    have ans: "answers (un_code E) a ?es req (ur_reply ?m)"
      using answers_last [of "un_code E" a "un_effects s" ?n req "[UnSend (unat ?c) (UReply ?m)]"] app by simp
    have top: "log_top l = Suc (unat ?n)" using l ok unat_last_op_Suc [OF ok] by (simp add: server_ok_def)
    have below: "clientreqid r < clientreqid req" if "UnExecuted k r \<in> set (un_effects s)" "clientid r = ?c" for k r
      using ok that new by (fastforce simp: server_ok_def un_entry_def)
    then have fresh: "(?c, clientreqid req) \<notin> set (executions (un_effects s))"
      unfolding in_executions by (meson less_irrefl below [THEN less_imp_neq])
    have "entry_ok E a ?es c e" if "?t c = Some e" for c e
    proof (cases "c = ?c")
      case True
      with that ans show ?thesis by (auto simp: entry_ok_def)
    next
      case False
      with that show ?thesis using entry_ok_mono [OF server_entry [OF ok, of c e]] by simp
    qed
    moreover have "\<forall>k r. UnExecuted k r \<in> set ?es \<longrightarrow> (\<exists>e. ?t (clientid r) = Some e \<and> clientreqid r \<le> ue_lastReqId e)"
      using ok below by (fastforce simp: server_ok_def less_imp_le)
    moreover have "\<forall>x m. UnSend x (UReply m) \<in> set ?es \<longrightarrow>
        answers (un_code E) a ?es (ur_req m) (ur_reply m) \<and> x = unat (clientid (ur_req m))"
      using ok ans by (auto simp: server_ok_def answers_mono)
    ultimately show "server_ok E a ?s \<and> grows req (un_effects s) (un_effects ?s)"
      using ok app l top fresh by (auto simp: server_ok_def grows_def)
  qed
  show ?thesis
  proof (cases "un_table s ?c")
    case None
    then have "ue_lastReqId (un_entry (un_table s) ?c) < clientreqid req"
      using num by (simp add: un_entry_def word_neq_0_conv)
    with None exec show ?thesis by (simp add: un_HandleRequest_def)
  next
    case (Some e)
    moreover have "ue_lastReqId (un_entry (un_table s) ?c) = ue_lastReqId e" using Some by (simp add: un_entry_def)
    ultimately show ?thesis
      using exec again [OF Some] ok by (auto simp: un_HandleRequest_def grows_def not_less)
  qed
qed

lemma server_HandleUnloggedRequest:
  assumes "server_ok E a s"
  shows "server_ok E a (un_HandleUnloggedRequest E x req s) \<and>
    grows r (un_effects s) (un_effects (un_HandleUnloggedRequest E x req s))"
  using assms
  by (auto simp: un_HandleUnloggedRequest_def Let_def case_prod_beta un_emit_def server_ok_def grows_def
      answers_mono entry_ok_mono)

section \<open>The clients' invariant\<close>

definition client_ok :: "u64 \<Rightarrow> 'k unrep_client \<Rightarrow> bool" where
  "client_ok c u \<longleftrightarrow> uc_clientid u = c \<and> armed (uc_timeout u) = (uc_pending u \<noteq> None) \<and>
     (\<forall>p. uc_pending u = Some p \<longrightarrow> up_clientreqid p = uc_lastReqId u \<and> uc_lastReqId u \<noteq> 0)"

lemma client_ok_new: "client_ok c (UnreplicatedClient_new c)"
  by (simp add: client_ok_def UnreplicatedClient_new_def mk_Timeout_def)

text \<open>What a call adds: at most a message with the pending request, under its number.\<close>

lemma client_call:
  assumes ok: "client_ok c u" and wrap: "\<And>r k. call = UInvoke r k \<Longrightarrow> uc_lastReqId u + 1 \<noteq> 0"
  shows "post (uc_do call u) (\<lambda>u'. client_ok c u' \<and> uc_lastReqId u \<le> uc_lastReqId u' \<and>
    (uc_pending u' = uc_pending u \<or> uc_lastReqId u < uc_lastReqId u') \<and>
    (\<exists>i m. uc_effects u' = uc_effects u \<or> uc_effects u' = uc_effects u @ [UcSend i m] \<and>
       (\<forall>req. m = URequest req \<longrightarrow> clientid req = c \<and> clientreqid req = uc_lastReqId u' \<and>
          (\<exists>p. uc_pending u' = Some p \<and> op req = up_request p))))"
proof (cases call)
  case (UInvoke r k)
  have "uc_lastReqId u < uc_lastReqId u + 1"
    by (rule word_less_succ) (rule wrap [OF UInvoke])
  then show ?thesis
    using ok wrap [OF UInvoke] UInvoke
    by (auto simp: uc_do_def uc_Invoke_def uc_SendRequest_def uc_emit_def client_ok_def Let_def wp)
next
  case (UInvokeUnlogged i r k tk to)
  then show ?thesis
    using ok by (auto simp: uc_do_def uc_InvokeUnlogged_def uc_emit_def client_ok_def Let_def wp)
next
  case UTimer
  then show ?thesis
    using ok by (auto simp: uc_do_def uc_ResendRequest_def uc_SendRequest_def uc_emit_def client_ok_def Let_def wp)
qed

text \<open>What a reply adds: at most the answer to the pending request.\<close>

lemma client_reply:
  assumes ok: "client_ok c u"
  shows "post (uc_ReceiveMessage m u) (\<lambda>u'. client_ok c u' \<and> uc_lastReqId u' = uc_lastReqId u \<and>
    (uc_pending u' = uc_pending u \<or> uc_pending u' = None) \<and>
    (uc_effects u' = uc_effects u \<or>
     (\<exists>k r rep. uc_effects u' = uc_effects u @ [UcUnloggedContinuation k r rep]) \<or>
     (\<exists>k p x. uc_effects u' = uc_effects u @ [UcContinuation k (up_request p) (ur_reply x)] \<and>
        m = UReply x \<and> uc_pending u = Some p \<and> clientreqid (ur_req x) = up_clientreqid p)))"
proof (cases m)
  case (UReply x)
  with ok show ?thesis
    by (auto simp: uc_HandleReply_def uc_call_def uc_emit_def client_ok_def wp)
next
  case (UUnloggedReply r)
  with ok show ?thesis
    by (auto simp: uc_HandleUnloggedReply_def uc_call_def uc_emit_def client_ok_def Let_def wp)
qed simp

section \<open>The invariant of the system\<close>

definition request_ok :: "'k unrep_client \<Rightarrow> u64 \<Rightarrow> Request \<Rightarrow> bool" where
  "request_ok u c req \<longleftrightarrow> clientid req = c \<and> clientreqid req \<noteq> 0 \<and> clientreqid req \<le> uc_lastReqId u \<and>
     (\<forall>p. uc_pending u = Some p \<and> clientreqid req = up_clientreqid p \<longrightarrow> op req = up_request p)"

definition linearized :: "'app unrep_env \<Rightarrow> 'app \<Rightarrow> unrep_effect list \<Rightarrow> u64 \<Rightarrow> 'k unrep_client_effect list \<Rightarrow> bool" where
  "linearized E a es c us \<longleftrightarrow> (\<forall>k r rep. UcContinuation k r rep \<in> set us \<longrightarrow>
     (\<exists>req. op req = r \<and> clientid req = c \<and> answers (un_code E) a es req rep))"

lemma linearized_mono: "linearized E a es c us \<Longrightarrow> linearized E a (es @ es') c us"
  unfolding linearized_def by (meson answers_mono)

lemma linearized_new: "linearized E a es c (uc_effects (UnreplicatedClient_new c))"
  by (simp add: UnreplicatedClient_new_def linearized_def)

definition sys_ok :: "'app unrep_env \<Rightarrow> 'app \<Rightarrow> ('app, 'k) unrep_system \<Rightarrow> bool" where
  "sys_ok E a S \<longleftrightarrow>
     server_ok E a (un_server S) \<and>
     (\<forall>n req. UnExecuted n req \<in> set (un_effects (un_server S)) \<longrightarrow> (clientid req, URequest req) \<in> set (un_requests S)) \<and>
     (\<forall>c req. (c, URequest req) \<in> set (un_requests S) \<longrightarrow> request_ok (un_clients S c) c req) \<and>
     (\<forall>c. client_ok c (un_clients S c)) \<and>
     (\<forall>c. linearized E a (un_effects (un_server S)) c (uc_effects (un_clients S c)))"

lemma sys_ok_linearized:
  "sys_ok E a S \<Longrightarrow> linearized E a (un_effects (un_server S)) c (uc_effects (un_clients S c))"
  by (simp add: sys_ok_def)

lemma sys_ok_request: "sys_ok E a S \<Longrightarrow> (c, URequest req) \<in> set (un_requests S) \<Longrightarrow> request_ok (un_clients S c) c req"
  by (simp add: sys_ok_def)

lemma sys_ok_executed:
  "sys_ok E a S \<Longrightarrow> UnExecuted n req \<in> set (un_effects (un_server S)) \<Longrightarrow> (clientid req, URequest req) \<in> set (un_requests S)"
  by (auto simp: sys_ok_def)

lemma sys_ok_start: "sys_ok E a (unrep_start E a)"
proof -
  have "un_effects (projr (UnreplicatedReplica_new E True a)) = []"
    by (simp add: UnreplicatedReplica_new_def mk_Log_def)
  then show ?thesis
    using server_ok_new [of E a] by (simp add: sys_ok_def unrep_start_def client_ok_new linearized_new)
qed

lemma sys_ok_server:
  assumes ok: "sys_ok E a S" and s': "server_ok E a s'" "grows req (un_effects (un_server S)) (un_effects s')"
    and req: "(clientid req, URequest req) \<in> set (un_requests S)"
  shows "sys_ok E a (S\<lparr>un_server := s'\<rparr>)"
proof -
  obtain fresh where es: "un_effects s' = un_effects (un_server S) @ fresh"
      "\<forall>n r. UnExecuted n r \<in> set fresh \<longrightarrow> r = req"
    using s'(2) by (auto simp: grows_def)
  have "linearized E a (un_effects s') c (uc_effects (un_clients S c))" for c
    using linearized_mono [OF sys_ok_linearized [OF ok]] es(1) by simp
  then show ?thesis
    using ok s'(1) req es by (auto simp: sys_ok_def)
qed

lemma sends_of_simps [simp]:
  "sends_of c [] = []"
  "sends_of c (UcSend i m # es) = (c, m) # sends_of c es"
  "sends_of c (UcContinuation k r rep # es) = sends_of c es"
  "sends_of c (UcUnloggedContinuation k r rep # es) = sends_of c es"
  by (simp_all add: sends_of_def)

lemma sys_ok_client:
  assumes ok: "sys_ok E a S" and u': "client_ok c u'"
    and last: "uc_lastReqId (un_clients S c) \<le> uc_lastReqId u'"
    and pend: "uc_pending u' = uc_pending (un_clients S c) \<or> uc_pending u' = None \<or>
      uc_lastReqId (un_clients S c) < uc_lastReqId u'"
    and es: "uc_effects u' = uc_effects (un_clients S c) @ es"
    and sent: "\<And>req. (c, URequest req) \<in> set (sends_of c es) \<Longrightarrow> request_ok u' c req"
    and lin: "linearized E a (un_effects (un_server S)) c es"
  shows "sys_ok E a (put_client c u' S)"
proof -
  have old: "request_ok u' c req" if "(c, URequest req) \<in> set (un_requests S)" for req
  proof -
    have r: "request_ok (un_clients S c) c req" by (rule sys_ok_request [OF ok that])
    moreover have "op req = up_request p" if p: "uc_pending u' = Some p" "clientreqid req = up_clientreqid p" for p
    proof -
      have "up_clientreqid p = uc_lastReqId u'" using u' p by (simp add: client_ok_def)
      then have "\<not> uc_lastReqId (un_clients S c) < uc_lastReqId u'" using r p by (auto simp: request_ok_def)
      with pend p r show ?thesis by (auto simp: request_ok_def)
    qed
    ultimately show ?thesis using last by (auto simp: request_ok_def)
  qed
  have other: "(c', m) \<in> set (sends_of c es) \<Longrightarrow> c' = c" for c' m
    by (auto simp: sends_of_def split: unrep_client_effect.splits)
  have "request_ok (((un_clients S)(c := u')) c') c' req"
    if "(c', URequest req) \<in> set (un_requests S @ sends_of c es)" for c' req
    using that old sent other ok by (auto simp: sys_ok_def)
  then show ?thesis
    using ok u' lin by (auto simp: sys_ok_def put_client_def es linearized_def)
qed

lemma sys_ok_step:
  assumes ok: "sys_ok E a S"
    and wrap: "\<And>c r k. ev = ClientCall c (UInvoke r k) \<Longrightarrow> uc_lastReqId (un_clients S c) + 1 \<noteq> 0"
  shows "post (unrep_step E ev S) (sys_ok E a)"
proof (cases ev)
  case (ClientCall c call)
  have u: "client_ok c (un_clients S c)" using ok by (simp add: sys_ok_def)
  have "post (uc_do call (un_clients S c)) (\<lambda>u'. sys_ok E a (put_client c u' S))"
  proof (rule post_mono [OF client_call [OF u]], goal_cases)
    case (1 r k)
    with wrap ClientCall show ?case by blast
  next
    case (2 u')
    then obtain i m where eff: "uc_effects u' = uc_effects (un_clients S c) \<or>
        uc_effects u' = uc_effects (un_clients S c) @ [UcSend i m] \<and>
        (\<forall>req. m = URequest req \<longrightarrow> clientid req = c \<and> clientreqid req = uc_lastReqId u' \<and>
          (\<exists>p. uc_pending u' = Some p \<and> op req = up_request p))" by blast
    have u': "client_ok c u'" using 2 by blast
    have le: "uc_lastReqId (un_clients S c) \<le> uc_lastReqId u'" using 2 by blast
    have pend: "uc_pending u' = uc_pending (un_clients S c) \<or> uc_pending u' = None \<or>
      uc_lastReqId (un_clients S c) < uc_lastReqId u'" using 2 by blast
    show ?case
    proof (cases "uc_effects u' = uc_effects (un_clients S c)")
      case True
      show ?thesis
        by (rule sys_ok_client [OF ok u' le pend, of "[]"]) (simp_all add: True linearized_def)
    next
      case False
      with eff have es: "uc_effects u' = uc_effects (un_clients S c) @ [UcSend i m]"
        and m: "\<And>req. m = URequest req \<Longrightarrow> clientid req = c \<and> clientreqid req = uc_lastReqId u' \<and>
          (\<exists>p. uc_pending u' = Some p \<and> op req = up_request p)" by blast+
      show ?thesis
      proof (rule sys_ok_client [OF ok u' le pend es])
        fix req assume "(c, URequest req) \<in> set (sends_of c [UcSend i m])"
        then have "m = URequest req" by simp
        from m [OF this] obtain p where p: "clientid req = c" "clientreqid req = uc_lastReqId u'"
            "uc_pending u' = Some p" "op req = up_request p" by blast
        moreover have "uc_lastReqId u' \<noteq> 0" using u' p(3) by (simp add: client_ok_def)
        ultimately show "request_ok u' c req" by (simp add: request_ok_def)
      qed (simp add: linearized_def)
    qed
  qed
  with ClientCall show ?thesis by (simp add: unrep_step_def wp)
next
  case (ToServer i)
  show ?thesis
  proof (cases "i < length (un_requests S)")
    case True
    obtain c m where m: "un_requests S ! i = (c, m)" by (cases "un_requests S ! i")
    with True have sent: "(c, m) \<in> set (un_requests S)" by (metis nth_mem)
    have sv: "server_ok E a (un_server S)" using ok by (simp add: sys_ok_def)
    have "post (un_ReceiveMessage E (unat c) m (un_server S)) (\<lambda>s'. sys_ok E a (S\<lparr>un_server := s'\<rparr>))"
    proof (cases m)
      case (URequest req)
      with sent ok have r: "request_ok (un_clients S c) c req" by (auto intro: sys_ok_request)
      then have c: "clientid req = c" "clientreqid req \<noteq> 0" by (auto simp: request_ok_def)
      show ?thesis
        using server_HandleRequest [OF sv c(2)] sent URequest c(1)
        by (auto elim!: post_mono intro: sys_ok_server [OF ok])
    next
      case (UUnloggedRequest req)
      let ?s' = "un_HandleUnloggedRequest E (unat c) req (un_server S)"
      have s': "server_ok E a ?s'" "un_effects ?s' = un_effects (un_server S) @
          [UnUnlogged req, UnSend (unat c) (UUnloggedReply (fst (ExecuteUnlogged (un_code E) req (un_app (un_server S)))))]"
        using server_HandleUnloggedRequest [OF sv]
        by (simp_all add: un_HandleUnloggedRequest_def Let_def case_prod_beta un_emit_def)
      have "linearized E a (un_effects ?s') c' (uc_effects (un_clients S c'))" for c'
        using linearized_mono [OF sys_ok_linearized [OF ok]] s'(2) by simp
      with s' ok show ?thesis by (auto simp: UUnloggedRequest sys_ok_def)
    qed simp
    with True m ToServer show ?thesis by (simp add: unrep_step_def wp)
  qed (use ok ToServer in \<open>simp add: unrep_step_def\<close>)
next
  case (ToClient i)
  show ?thesis
  proof (cases "i < length (un_effects (un_server S)) \<and> (\<exists>x m. un_effects (un_server S) ! i = UnSend x m)")
    case True
    then obtain x m where m: "un_effects (un_server S) ! i = UnSend x m" by blast
    with True have sent: "UnSend x m \<in> set (un_effects (un_server S))" by (metis nth_mem)
    let ?c = "of_nat x :: u64"
    have u: "client_ok ?c (un_clients S ?c)" using ok by (simp add: sys_ok_def)
    have "post (uc_ReceiveMessage m (un_clients S ?c)) (\<lambda>u'. sys_ok E a (put_client ?c u' S))"
    proof (rule post_mono [OF client_reply [OF u]])
      fix u' assume h: "client_ok ?c u' \<and> uc_lastReqId u' = uc_lastReqId (un_clients S ?c) \<and>
        (uc_pending u' = uc_pending (un_clients S ?c) \<or> uc_pending u' = None) \<and>
        (uc_effects u' = uc_effects (un_clients S ?c) \<or>
         (\<exists>k r rep. uc_effects u' = uc_effects (un_clients S ?c) @ [UcUnloggedContinuation k r rep]) \<or>
         (\<exists>k p x. uc_effects u' = uc_effects (un_clients S ?c) @ [UcContinuation k (up_request p) (ur_reply x)] \<and>
            m = UReply x \<and> uc_pending (un_clients S ?c) = Some p \<and> clientreqid (ur_req x) = up_clientreqid p))"
      have u': "client_ok ?c u'" "uc_lastReqId (un_clients S ?c) \<le> uc_lastReqId u'" using h by simp_all
      have pend: "uc_pending u' = uc_pending (un_clients S ?c) \<or> uc_pending u' = None \<or>
          uc_lastReqId (un_clients S ?c) < uc_lastReqId u'" using h by blast
      note step = sys_ok_client [OF ok u' pend]
      consider "uc_effects u' = uc_effects (un_clients S ?c)"
        | k r rep where "uc_effects u' = uc_effects (un_clients S ?c) @ [UcUnloggedContinuation k r rep]"
        | k p y where "uc_effects u' = uc_effects (un_clients S ?c) @ [UcContinuation k (up_request p) (ur_reply y)]"
            "m = UReply y" "uc_pending (un_clients S ?c) = Some p" "clientreqid (ur_req y) = up_clientreqid p"
        using h by blast
      then show "sys_ok E a (put_client ?c u' S)"
      proof cases
        case 1
        then show ?thesis by (intro step [of "[]"]) (simp_all add: linearized_def)
      next
        case 2
        show ?thesis
        proof (rule step [OF 2])
          show "linearized E a (un_effects (un_server S)) ?c [UcUnloggedContinuation k r rep]"
            by (simp add: linearized_def)
        qed simp
      next
        case 3
        have sv: "server_ok E a (un_server S)" using ok by (simp add: sys_ok_def)
        have y: "answers (un_code E) a (un_effects (un_server S)) (ur_req y) (ur_reply y)" "x = unat (clientid (ur_req y))"
          using server_sent [OF sv] sent 3(2) by auto
        then have c: "clientid (ur_req y) = ?c" by simp
        obtain n where "UnExecuted n (ur_req y) \<in> set (un_effects (un_server S))"
          using answers_executed [OF y(1)] by blast
        then have "request_ok (un_clients S ?c) ?c (ur_req y)"
          using sys_ok_request [OF ok sys_ok_executed [OF ok]] c by metis
        then have "op (ur_req y) = up_request p" using 3 by (auto simp: request_ok_def)
        with y c have "linearized E a (un_effects (un_server S)) ?c [UcContinuation k (up_request p) (ur_reply y)]"
          by (auto simp: linearized_def)
        then show ?thesis by (intro step [OF 3(1)]) simp_all
      qed
    qed
    with True m ToClient show ?thesis by (simp add: unrep_step_def wp)
  qed (use ok ToClient in \<open>auto simp: unrep_step_def split: unrep_effect.split\<close>)
qed

lemma sys_ok_run:
  "sys_ok E a S \<Longrightarrow> no_wrap E evs S \<Longrightarrow> post (unrep_run E evs S) (sys_ok E a)"
proof (induction evs arbitrary: S)
  case (Cons ev evs)
  have "post (unrep_step E ev S) (sys_ok E a)"
    by (rule sys_ok_step) (use Cons.prems in auto)
  with Cons show ?case by (cases "unrep_step E ev S") (auto simp: unrep_run_def)
qed (simp add: unrep_run_def)

section \<open>Answers\<close>

text \<open>With room in the log, the server answers a request that its table has not overtaken.\<close>

lemma server_answers:
  assumes ok: "server_ok E a s" and room: "length (entries (un_log s)) < vector_max_size"
    and num: "clientreqid req \<noteq> 0" and le: "ue_lastReqId (un_entry (un_table s) (clientid req)) \<le> clientreqid req"
  shows "\<exists>s' es m. un_HandleRequest E x req s = Inr s' \<and> un_effects s' = es @ [UnSend x (UReply m)] \<and>
    clientreqid (ur_req m) = clientreqid req"
proof (cases "ue_lastReqId (un_entry (un_table s) (clientid req)) = clientreqid req")
  case True
  with num obtain e where e: "un_table s (clientid req) = Some e"
    by (auto simp: un_entry_def split: option.splits)
  with True obtain m where "ue_reply e = UReply m" "clientreqid (ur_req m) = clientreqid req"
    using server_entry [OF ok e] by (auto simp: entry_ok_def un_entry_def)
  with True e show ?thesis by (simp add: un_HandleRequest_def un_entry_def un_emit_def)
next
  case False
  with le have new: "ue_lastReqId (un_entry (un_table s) (clientid req)) < clientreqid req" by simp
  let ?e = "mk_LogEntry (viewstamp2 0 (un_last_op s + 1)) LOG_STATE_RECEIVED req"
  have "log_ok (un_log s)" "vs_opnum (viewstamp ?e) = LastOpnum (un_log s) + 1"
    using ok next_op [OF ok] by (simp_all add: server_ok_def mk_LogEntry_def viewstamp2_def)
  from Append_ok(1) [OF this room, of E] have "\<not> isl (un_execute E x req s)"
    using new le by (simp add: un_execute_def Let_def case_prod_beta un_UpdateClientTable_def un_emit_def assert_r_def)
  with un_execute_effect [OF ok new, of x] obtain s' n m where
      "un_execute E x req s = Inr s'" "un_effects s' = un_effects s @ [UnExecuted n req, UnSend x (UReply m)]"
      "clientreqid (ur_req m) = clientreqid req"
    by (cases "un_execute E x req s") auto
  moreover have "un_HandleRequest E x req s = un_execute E x req s"
    using new by (auto simp: un_HandleRequest_def un_entry_def split: option.splits)
  ultimately show ?thesis
    by (intro exI [of _ s'] exI [of _ "un_effects s @ [UnExecuted n req]"] exI [of _ m]) simp
qed


definition counter :: "nat AppReplica" where
  "counter = default_AppReplica\<lparr>app_ReplicaUpcall := (\<lambda>n s arg a. (s @ replicate a CHR ''x'', Suc a))\<rparr>"

definition unrep_env0 :: "nat unrep_env" where
  "unrep_env0 = \<lparr>nassert = False, sha1 = id, un_code = counter\<rparr>"

text \<open>A request that is sent twice, and both replies delivered.\<close>

definition unrep_events0 :: "nat unrep_event list" where
  "unrep_events0 = [ClientCall 1 (UInvoke ''a'' (Some 7)), ClientCall 1 UTimer, ToServer 0, ToServer 1, ToClient 1,
     ToClient 2, ClientCall 1 (UInvoke ''b'' (Some 8)), ToServer 0, ToServer 2, ToClient 5]"

lemma unrep_example:
  "no_wrap unrep_env0 unrep_events0 (unrep_start unrep_env0 0)"
  "case unrep_run unrep_env0 unrep_events0 (unrep_start unrep_env0 0) of
     Inl e \<Rightarrow> False
   | Inr S \<Rightarrow> uc_effects (un_clients S 1) ! 2 = UcContinuation 7 ''a'' ''a'' \<and> length (uc_effects (un_clients S 1)) = 5"
  by code_simp+


text \<open>
  C18. No pending request is stuck: from every reachable state in which a client's request is
  pending and the log has room, three steps give the answer, whatever was lost before: the
  client's timer fires, the message it sends is delivered, and the last message of the server is
  delivered back. The client then calls the continuation of that request.
\<close>

theorem unrep_pending_answered:
  assumes "no_wrap E evs (unrep_start E a)" and "unrep_run E evs (unrep_start E a) = Inr S"
    and p: "uc_pending (un_clients S c) = Some p" and k: "up_continuation p = Some k"
    and room: "length (entries (un_log (un_server S))) < vector_max_size"
  shows "\<exists>j S' m rep. unrep_run E [ClientCall c UTimer, ToServer (length (un_requests S)), ToClient j] S = Inr S' \<and>
    uc_pending (un_clients S' c) = None \<and>
    uc_effects (un_clients S' c) = uc_effects (un_clients S c) @ [m, UcContinuation k (up_request p) rep]"
proof -
  have ok: "sys_ok E a S" using sys_ok_run [OF sys_ok_start assms(1)] assms(2) by simp
  then have sv: "server_ok E a (un_server S)" and u: "client_ok c (un_clients S c)"
    by (simp_all add: sys_ok_def)
  let ?u = "un_clients S c"
  have pid: "up_clientreqid p = uc_lastReqId ?u" "uc_lastReqId ?u \<noteq> 0" "armed (uc_timeout ?u)" "uc_clientid ?u = c"
    using u p by (auto simp: client_ok_def)
  define req where "req = \<lparr>op = up_request p, clientid = c, clientreqid = uc_lastReqId ?u,
      ops = [], req_sessnum = None, clientaddr = None\<rparr>"
  define u1 where "u1 = ?u\<lparr>uc_effects := uc_effects ?u @ [UcSend 0 (URequest req)],
      uc_timeout := Timeout_Reset (uc_timeout ?u)\<rparr>"
  define S1 where "S1 = put_client c u1 S"
  have t1: "unrep_step E (ClientCall c UTimer) S = Inr S1"
    using p pid by (simp add: unrep_step_def uc_do_def uc_ResendRequest_def uc_SendRequest_def uc_emit_def
        Let_def S1_def u1_def req_def)
  have S1: "un_requests S1 = un_requests S @ [(c, URequest req)]" "un_server S1 = un_server S" "un_clients S1 c = u1"
    by (simp_all add: S1_def put_client_def u1_def)
  have "ue_lastReqId (un_entry (un_table (un_server S)) (clientid req)) \<le> clientreqid req"
  proof (cases "un_table (un_server S) c")
    case (Some e)
    then obtain m where m: "answers (un_code E) a (un_effects (un_server S)) (ur_req m) (ur_reply m)"
        "clientid (ur_req m) = c" "clientreqid (ur_req m) = ue_lastReqId e"
      using server_entry [OF sv Some] by (auto simp: entry_ok_def)
    then have "request_ok ?u c (ur_req m)"
      using answers_executed [OF m(1)] sys_ok_request [OF ok sys_ok_executed [OF ok]] by metis
    with Some m show ?thesis by (simp add: un_entry_def request_ok_def req_def)
  qed (simp add: un_entry_def req_def)
  then obtain s' es m where s': "un_HandleRequest E (unat c) req (un_server S) = Inr s'"
      "un_effects s' = es @ [UnSend (unat c) (UReply m)]" "clientreqid (ur_req m) = uc_lastReqId ?u"
    using server_answers [OF sv room, of req "unat c"] pid by (auto simp: req_def)
  define S2 where "S2 = S1\<lparr>un_server := s'\<rparr>"
  have t2: "unrep_step E (ToServer (length (un_requests S))) S1 = Inr S2"
    using s' S1 by (simp add: unrep_step_def S2_def)
  define u3 where "u3 = u1\<lparr>uc_timeout := Timeout_Stop (uc_timeout u1), uc_pending := None,
      uc_effects := uc_effects u1 @ [UcContinuation k (up_request p) (ur_reply m)]\<rparr>"
  have "uc_HandleReply m u1 = Inr u3"
    using s'(3) p k pid by (simp add: uc_HandleReply_def u1_def u3_def uc_call_def uc_emit_def)
  then have t3: "unrep_step E (ToClient (length es)) S2 = Inr (put_client c u3 S2)"
    using s'(2) S1 by (simp add: unrep_step_def S2_def nth_append)
  have "uc_pending u3 = None \<and> uc_effects u3 =
      uc_effects ?u @ [UcSend 0 (URequest req), UcContinuation k (up_request p) (ur_reply m)]"
    by (simp add: u3_def u1_def)
  then show ?thesis
    using t1 t2 t3
    by (intro exI [of _ "length es"] exI [of _ "put_client c u3 S2"]) (auto simp: unrep_run_def put_client_def)
qed

lemma unrep_pending_answered_witness:
  "let S = projr (unrep_run unrep_env0 [ClientCall 1 (UInvoke ''a'' (Some 7))] (unrep_start unrep_env0 0) :: (nat, nat) unrep_system result)
   in \<exists>j S' m rep. unrep_run unrep_env0 [ClientCall 1 UTimer, ToServer (length (un_requests S)), ToClient j] S = Inr S' \<and>
    uc_pending (un_clients S' 1) = None \<and>
    uc_effects (un_clients S' 1) = uc_effects (un_clients S 1) @ [m, UcContinuation 7 ''a'' rep]"
proof -
  let ?evs = "[ClientCall 1 (UInvoke ''a'' (Some (7 :: nat)))]"
  let ?S = "projr (unrep_run unrep_env0 ?evs (unrep_start unrep_env0 0))"
  let ?p = "\<lparr>up_request = ''a'', up_clientreqid = 1, up_continuation = Some 7\<rparr>"
  have run: "unrep_run unrep_env0 ?evs (unrep_start unrep_env0 0) = Inr ?S"
    by (rule not_isl_result) code_simp
  have wrap: "no_wrap unrep_env0 ?evs (unrep_start unrep_env0 0)" by code_simp
  have p: "uc_pending (un_clients ?S 1) = Some ?p"
    by (simp add: unrep_run_def unrep_step_def unrep_start_def uc_do_def uc_Invoke_def uc_SendRequest_def
        UnreplicatedClient_new_def uc_emit_def put_client_def)
  have log: "entries (un_log (un_server ?S)) = []"
    by (simp add: unrep_run_def unrep_step_def unrep_start_def uc_do_def uc_Invoke_def uc_SendRequest_def
        UnreplicatedClient_new_def uc_emit_def put_client_def UnreplicatedReplica_new_def mk_Log_def)
  from unrep_pending_answered [OF wrap run p _ , of 7] log show ?thesis
    by (simp add: Let_def vector_max_size_def)
qed

lemma timers_keep_unlogged:
  "client_ok c u \<Longrightarrow> uc_pendingUnlogged u \<noteq> None \<Longrightarrow>
   \<exists>v. fold_r uc_do (replicate n UTimer) u = Inr v \<and> uc_pendingUnlogged v \<noteq> None"
proof (induction n arbitrary: u)
  case (Suc n)
  obtain v where "uc_do UTimer u = Inr v" "client_ok c v" "uc_pendingUnlogged v \<noteq> None"
    using Suc.prems
    by (cases "uc_pending u") (auto simp: uc_do_def uc_ResendRequest_def uc_SendRequest_def uc_emit_def client_ok_def Let_def)
  with Suc.IH [of v] show ?case by simp
qed simp

text \<open>
  The client does not survive two ordinary faults of the network. A second unlogged reply is
  not discarded: the handler only warns that nothing is pending and follows the null pointer.
  And a lost unlogged request (or reply) blocks the client for good, as there is no timeout: the
  next \<open>InvokeUnlogged\<close> panics, however often the client's timer has fired in between.
\<close>

theorem unlogged_faults_crash_client:
  assumes "uc_pendingUnlogged u = None" and "client_ok c u"
  shows "bind_r (uc_do (UInvokeUnlogged 0 r (Some k) tk to) u) (\<lambda>u1.
       bind_r (uc_ReceiveMessage (UUnloggedReply x) u1) (uc_ReceiveMessage (UUnloggedReply x))) = Inl Undefined
   \<and> bind_r (uc_do (UInvokeUnlogged 0 r (Some k) tk to) u) (\<lambda>u1.
       bind_r (fold_r uc_do (replicate n UTimer) u1) (uc_do (UInvokeUnlogged 0 r' k' tk' to'))) = Inl Panicked"
proof -
  let ?p = "\<lparr>up_request = r, up_clientreqid = 0, up_continuation = Some k\<rparr>"
  let ?u = "u\<lparr>uc_pendingUnlogged := Some ?p,
      uc_effects := uc_effects u @ [UcSend 0 (UUnloggedRequest \<lparr>uop = r, uclientid = uc_clientid u, uclientreqid = 0\<rparr>)]\<rparr>"
  have sent: "uc_do (UInvokeUnlogged 0 r (Some k) tk to) u = Inr ?u"
    using assms(1) by (simp add: uc_do_def uc_InvokeUnlogged_def uc_emit_def Let_def)
  have "client_ok c ?u" using assms(2) by (simp add: client_ok_def)
  then obtain v where v: "fold_r uc_do (replicate n UTimer) ?u = Inr v" "uc_pendingUnlogged v \<noteq> None"
    using timers_keep_unlogged [of c ?u n] by auto
  from sent v show ?thesis
    by (auto simp: uc_do_def uc_InvokeUnlogged_def uc_HandleUnloggedReply_def uc_call_def uc_emit_def Let_def)
qed

lemma unlogged_faults_crash_client_witness:
  "bind_r (uc_do (UInvokeUnlogged 0 ''a'' (Some (1 :: nat)) (Some 2) 1000) (UnreplicatedClient_new 9)) (\<lambda>u1.
       bind_r (uc_ReceiveMessage (UUnloggedReply ''x'') u1) (uc_ReceiveMessage (UUnloggedReply ''x''))) = Inl Undefined"
proof -
  have "uc_pendingUnlogged (UnreplicatedClient_new 9 :: nat unrep_client) = None"
    by (simp add: UnreplicatedClient_new_def)
  from unlogged_faults_crash_client [OF this client_ok_new, of "''a''" 1 "Some 2" 1000 "''x''"] show ?thesis
    by blast
qed

end
