(* ===== verification/NiVersionedKV.thy ===== *)
theory NiVersionedKV
  imports Viewstamp StdMap "HOL-Library.Char_ord" "HOL-Library.List_Lexorder"
begin

text \<open>
  The versioned store of \<open>src/nistore/versionedKVStore.cc\<close>: for every key a list of versions,
  the newest first, each with its timestamp. Nothing iterates over the keys, so the
  \<open>unordered_map\<close> is a map. Calling \<open>front()\<close> or \<open>pop_front()\<close> on an empty list is undefined.
\<close>

section \<open>Operations\<close>

type_synonym vlist = "(u64 \<times> bytes) list"

record NiVersionedKVStore =
  nstore :: "bytes \<rightharpoonup> vlist"

definition NiVersionedKVStore_new :: NiVersionedKVStore where
  "NiVersionedKVStore_new = \<lparr>nstore = Map.empty\<rparr>"

definition vkv_get :: "bytes \<Rightarrow> NiVersionedKVStore \<Rightarrow> (u64 \<times> bytes) option result" where
  "vkv_get key s =
     (case nstore s key of
        None \<Rightarrow> Inr None
      | Some [] \<Rightarrow> Inl Undefined
      | Some (x # _) \<Rightarrow> Inr (Some x))"

text \<open>The first version in the list that is not newer than \<open>timestamp\<close>.\<close>

definition vkv_get_at :: "bytes \<Rightarrow> u64 \<Rightarrow> NiVersionedKVStore \<Rightarrow> bytes option" where
  "vkv_get_at key timestamp s =
     (case nstore s key of
        None \<Rightarrow> None
      | Some l \<Rightarrow> map_option snd (List.find (\<lambda>(t, _). t \<le> timestamp) l))"

text \<open>
  The loop that inserts an older version: before the first one that is older still; when
  there is none, the new version is not inserted.
\<close>

fun insert_older :: "u64 \<Rightarrow> bytes \<Rightarrow> vlist \<Rightarrow> vlist" where
  "insert_older timestamp v [] = []"
| "insert_older timestamp v ((t, w) # l) =
     (if timestamp > t then (timestamp, v) # (t, w) # l else (t, w) # insert_older timestamp v l)"

definition vkv_put :: "bytes \<Rightarrow> bytes \<Rightarrow> u64 \<Rightarrow> NiVersionedKVStore \<Rightarrow> (bool \<times> NiVersionedKVStore) result" where
  "vkv_put key v timestamp s =
     (case nstore s key of
        None \<Rightarrow> Inr (True, s\<lparr>nstore := (nstore s)(key \<mapsto> [(timestamp, v)])\<rparr>)
      | Some [] \<Rightarrow> Inl Undefined
      | Some ((t, w) # l) \<Rightarrow>
          if timestamp > t then Inr (True, s\<lparr>nstore := (nstore s)(key \<mapsto> (timestamp, v) # (t, w) # l)\<rparr>)
          else Inr (True, s\<lparr>nstore := (nstore s)(key \<mapsto> insert_older timestamp v ((t, w) # l))\<rparr>))"

definition vkv_remove :: "bytes \<Rightarrow> NiVersionedKVStore \<Rightarrow> ((u64 \<times> bytes) option \<times> NiVersionedKVStore) result" where
  "vkv_remove key s =
     (case nstore s key of
        None \<Rightarrow> Inr (None, s)
      | Some [] \<Rightarrow> Inl Undefined
      | Some (x # l) \<Rightarrow> Inr (Some x, s\<lparr>nstore := (nstore s)(key \<mapsto> l)\<rparr>))"

section \<open>Well-formed stores\<close>

text \<open>Versions are strictly descending in time, and a key that is present has one.\<close>

definition versions_ok :: "vlist \<Rightarrow> bool" where
  "versions_ok l \<longleftrightarrow> l \<noteq> [] \<and> sorted_wrt (\<lambda>x y. fst y < fst x) l"

definition vkv_ok :: "NiVersionedKVStore \<Rightarrow> bool" where
  "vkv_ok s \<longleftrightarrow> (\<forall>k l. nstore s k = Some l \<longrightarrow> versions_ok l)"

text \<open>The current version of a key, and the map of current values.\<close>

definition latest :: "NiVersionedKVStore \<Rightarrow> bytes \<Rightarrow> (u64 \<times> bytes) option" where
  "latest s k = (case nstore s k of Some (x # _) \<Rightarrow> Some x | _ \<Rightarrow> None)"

definition current :: "NiVersionedKVStore \<Rightarrow> bytes \<rightharpoonup> bytes" where
  "current s k = map_option snd (latest s k)"

lemma vkv_ok_new [simp]: "vkv_ok NiVersionedKVStore_new"
  by (simp add: vkv_ok_def NiVersionedKVStore_new_def)

lemma latest_new [simp]: "latest NiVersionedKVStore_new k = None"
  by (simp add: latest_def NiVersionedKVStore_new_def)

lemma vkv_get_ok: "vkv_ok s \<Longrightarrow> vkv_get k s = Inr (latest s k)"
  by (auto simp: vkv_get_def latest_def vkv_ok_def versions_ok_def split: option.split list.split)

text \<open>Reading at the time of the current version gives the current version.\<close>

lemma vkv_get_at_latest: "latest s k = Some (t, v) \<Longrightarrow> vkv_get_at k t s = Some v"
  by (auto simp: vkv_get_at_def latest_def split: option.splits list.splits)

lemma fst_insert_older: "fst ` set (insert_older t v l) \<subseteq> insert t (fst ` set l)"
  by (induction t v l rule: insert_older.induct) auto

lemma insert_older_sorted:
  "sorted_wrt (\<lambda>x y. fst y < fst x) l \<Longrightarrow> t \<notin> fst ` set l \<Longrightarrow>
   sorted_wrt (\<lambda>x y. fst y < fst x) (insert_older t v l)"
proof (induction t v l rule: insert_older.induct)
  case (2 t v t' w l)
  have "fst x < t'" if "x \<in> set (insert_older t v l)" "\<not> t' < t" for x
  proof -
    from that(1) have "fst x = t \<or> fst x \<in> fst ` set l" using fst_insert_older [of t v l] by blast
    with 2 that(2) show ?thesis by auto
  qed
  with 2 show ?case by force
qed simp

text \<open>A write that is newer than the current version becomes the current version.\<close>

lemma vkv_put_newer:
  assumes ok: "vkv_ok s" and new: "\<And>t w. latest s k = Some (t, w) \<Longrightarrow> t < ts"
  shows "\<exists>s'. vkv_put k v ts s = Inr (True, s') \<and> vkv_ok s' \<and> latest s' = (latest s)(k \<mapsto> (ts, v))"
proof (cases "nstore s k")
  case None
  with ok show ?thesis
    by (auto simp: vkv_put_def vkv_ok_def versions_ok_def latest_def fun_eq_iff)
next
  case (Some l)
  with ok have "versions_ok l" by (simp add: vkv_ok_def)
  then obtain t w r where l: "l = (t, w) # r" "sorted_wrt (\<lambda>x y. fst y < fst x) l"
    by (cases l) (auto simp: versions_ok_def)
  with Some have "t < ts" by (intro new [of t w]) (simp add: latest_def)
  with ok Some l show ?thesis
    by (force simp: vkv_put_def vkv_ok_def versions_ok_def latest_def fun_eq_iff)
qed

text \<open>Removing the newest version undoes such a write, if the key had a version before.\<close>

lemma vkv_remove_put:
  assumes "vkv_ok s" and "latest s k = Some (t, w)" and "t < ts"
  shows "\<exists>s'. vkv_put k v ts s = Inr (True, s') \<and> vkv_remove k s' = Inr (Some (ts, v), s)"
proof (cases "nstore s k")
  case (Some l)
  with assms obtain r where l: "l = (t, w) # r"
    by (cases l) (auto simp: latest_def)
  with Some assms(3) show ?thesis
    by (auto simp: vkv_put_def vkv_remove_def intro!: NiVersionedKVStore.equality)
next
  case None
  with assms(2) show ?thesis by (simp add: latest_def)
qed

end
