(* ===== verification/TxnStore.thy ===== *)
theory TxnStore
  imports Viewstamp StdMap "HOL-Library.Char_ord" "HOL-Library.List_Lexorder"
begin

text \<open>
  The interface \<open>src/nistore/txnstore.h\<close> of a transactional store: the calls a server makes, runs of
  calls, and serializability as a contract. \<open>OCCStore\<close> and \<open>LockStore\<close> implement the interface;
  the locale \<open>serial_store\<close> is what makes an implementation serializable, proved once here.
\<close>

section \<open>Calls and runs\<close>

datatype txn_call =
    Begin u64 | Get u64 bytes | Put u64 bytes bytes
  | Prepare u64 opnum_t | Commit u64 u64 opnum_t | Abort u64 opnum_t

text \<open>
  What the clients observe: the reads that returned a value and the writes of a transaction,
  since it began, while it runs (\<open>acting\<close>) and when it is prepared (\<open>ready\<close>), and those of the
  committed transactions in commit order.
\<close>

datatype action = Saw bytes bytes | Wrote bytes bytes

record observed =
  acting :: "u64 \<Rightarrow> action list"
  ready :: "u64 \<Rightarrow> action list"
  committed :: "action list list"

definition observed_new :: observed where
  "observed_new = \<lparr>acting = (\<lambda>i. []), ready = (\<lambda>i. []), committed = []\<rparr>"

definition act :: "u64 \<Rightarrow> action list \<Rightarrow> observed \<Rightarrow> observed" where
  "act i as g = g\<lparr>acting := (acting g)(i := as)\<rparr>"

text \<open>\<open>r\<close> and \<open>v\<close> are the status and the value the call returned; a status other than 0 is a failure.\<close>

definition observe :: "txn_call \<Rightarrow> int \<Rightarrow> bytes option \<Rightarrow> observed \<Rightarrow> observed" where
  "observe c r v g =
     (case c of
        Begin i \<Rightarrow> act i [] g
      | Get i key \<Rightarrow>
          (case v of
             Some x \<Rightarrow> if r = 0 then act i (acting g i @ [Saw key x]) g else g
           | None \<Rightarrow> g)
      | Put i key x \<Rightarrow> if r = 0 then act i (acting g i @ [Wrote key x]) g else g
      | Prepare i opn \<Rightarrow>
          act i [] (if r = 0 then g\<lparr>ready := (ready g)(i := acting g i)\<rparr> else g)
      | Commit i ts opn \<Rightarrow> g\<lparr>committed := committed g @ [ready g i]\<rparr>
      | Abort i opn \<Rightarrow> act i [] g)"

type_synonym 's txn_step = "txn_call \<Rightarrow> 's \<Rightarrow> (int \<times> bytes option \<times> 's) result"

fun txn_run :: "'s txn_step \<Rightarrow> txn_call list \<Rightarrow> 's \<times> observed \<Rightarrow> ('s \<times> observed) result" where
  "txn_run step [] (s, g) = Inr (s, g)"
| "txn_run step (c # cs) (s, g) =
     bind_r (step c s) (\<lambda>(r, v, s'). txn_run step cs (s', observe c r v g))"

text \<open>What the callers get back: the status and the value of every call.\<close>

fun txn_replies :: "'s txn_step \<Rightarrow> txn_call list \<Rightarrow> 's \<Rightarrow> (int \<times> bytes option) list result" where
  "txn_replies step [] s = Inr []"
| "txn_replies step (c # cs) s =
     bind_r (step c s) (\<lambda>(r, v, s'). bind_r (txn_replies step cs s') (\<lambda>rs. Inr ((r, v) # rs)))"

text \<open>Every call of the run is one the callers may make in the state it meets.\<close>

fun fits_run :: "(txn_call \<Rightarrow> 's \<Rightarrow> bool) \<Rightarrow> 's txn_step \<Rightarrow> txn_call list \<Rightarrow> 's \<Rightarrow> bool" where
  "fits_run fits step [] s = True"
| "fits_run fits step (c # cs) s =
     (fits c s \<and> (case step c s of Inl e \<Rightarrow> True | Inr (r, v, s') \<Rightarrow> fits_run fits step cs s'))"

lemma txn_run_returns: "isl (txn_run step cs (s, g)) = isl (txn_replies step cs s)"
proof (induction cs arbitrary: s g)
  case (Cons c cs)
  show ?case
  proof (cases "step c s")
    case (Inr x)
    obtain r v u where "x = (r, v, u)" by (cases x)
    with Inr Cons [of u "observe c r v g"] show ?thesis
      by (cases "txn_replies step cs u") simp_all
  qed simp
qed simp

lemma txn_run_projr:
  "\<not> isl (txn_replies step cs s) \<Longrightarrow>
   txn_run step cs (s, g) = Inr (fst (projr (txn_run step cs (s, g))), snd (projr (txn_run step cs (s, g))))"
  by (metis not_isl_result prod.collapse txn_run_returns)

section \<open>Write sets\<close>

text \<open>\<open>back()\<close> of a list of written values.\<close>

definition last_written :: "bytes list \<Rightarrow> bytes result" where
  "last_written ws = (case ws of [] \<Rightarrow> Inl Undefined | _ \<Rightarrow> Inr (last ws))"

text \<open>The values written to a key.\<close>

definition written :: "(bytes, bytes list) smap \<Rightarrow> bytes \<Rightarrow> bytes list" where
  "written ws key = (case map_of ws key of None \<Rightarrow> [] | Some vs \<Rightarrow> vs)"

lemma last_written_ok [simp]: "ws \<noteq> [] \<Longrightarrow> last_written ws = Inr (last ws)"
  by (cases ws) (auto simp: last_written_def)

text \<open>The effect of a write set: the last value written to each of its keys.\<close>

definition write_all :: "(bytes, bytes list) smap \<Rightarrow> (bytes \<rightharpoonup> bytes) \<Rightarrow> bytes \<rightharpoonup> bytes" where
  "write_all ws m = (\<lambda>k. case map_of ws k of None \<Rightarrow> m k | Some vs \<Rightarrow> Some (last vs))"

lemma write_all_Nil [simp]: "write_all [] m = m"
  by (simp add: write_all_def)

lemma write_all_put [simp]: "write_all (smap_put k (vs @ [v]) ws) m = (write_all ws m)(k \<mapsto> v)"
  by (auto simp: write_all_def sm.get_put fun_eq_iff)

section \<open>Serial execution\<close>

text \<open>The serial execution of transactions on a map; \<open>None\<close> when a read sees another value.\<close>

fun execute :: "action list \<Rightarrow> (bytes \<rightharpoonup> bytes) \<Rightarrow> (bytes \<rightharpoonup> bytes) option" where
  "execute [] m = Some m"
| "execute (Saw k v # as) m = (if m k = Some v then execute as m else None)"
| "execute (Wrote k v # as) m = execute as (m(k \<mapsto> v))"

fun serial :: "action list list \<Rightarrow> (bytes \<rightharpoonup> bytes) \<Rightarrow> (bytes \<rightharpoonup> bytes) option" where
  "serial [] m = Some m"
| "serial (t # ts) m = (case execute t m of None \<Rightarrow> None | Some m' \<Rightarrow> serial ts m')"

lemma execute_append: "execute (as @ bs) m = (case execute as m of None \<Rightarrow> None | Some m' \<Rightarrow> execute bs m')"
proof (induction as arbitrary: m)
  case (Cons a as)
  then show ?case by (cases a) (simp_all add: fun_upd_def)
qed simp

lemma serial_append: "serial (ts @ us) m = (case serial ts m of None \<Rightarrow> None | Some m' \<Rightarrow> serial us m')"
  by (induction ts m rule: serial.induct) (auto split: option.splits)

section \<open>The contract\<close>

text \<open>
  An implementation is serializable if it keeps a relation between its state and what the
  clients have observed, under which the committed transactions are a serial execution that
  ends in the contents of the store.
\<close>

locale serial_store =
  fixes step :: "'s txn_step"
    and init :: "'s"
    and contents :: "'s \<Rightarrow> bytes \<rightharpoonup> bytes"
    and fits :: "txn_call \<Rightarrow> 's \<Rightarrow> bool"
    and inv :: "'s \<Rightarrow> observed \<Rightarrow> bool"
  assumes inv_init: "inv init observed_new"
    and inv_step: "inv s g \<Longrightarrow> fits c s \<Longrightarrow> post (step c s) (\<lambda>(r, v, s'). inv s' (observe c r v g))"
    and inv_serial: "inv s g \<Longrightarrow> serial (committed g) Map.empty = Some (contents s)"
begin

lemma inv_run: "inv s g \<Longrightarrow> fits_run fits step cs s \<Longrightarrow> post (txn_run step cs (s, g)) (\<lambda>(u, h). inv u h)"
proof (induction cs arbitrary: s g)
  case (Cons c cs)
  have "post (step c s) (\<lambda>(r, v, u). inv u (observe c r v g))"
    by (rule inv_step) (use Cons.prems in auto)
  with Cons show ?case by (cases "step c s") auto
qed simp

lemma serializable:
  "fits_run fits step cs init \<Longrightarrow> txn_run step cs (init, observed_new) = Inr (s, g) \<Longrightarrow>
   serial (committed g) Map.empty = Some (contents s)"
  using inv_run [OF inv_init] by (fastforce intro: inv_serial)

end

end
