(* ===== verification/OCCStore.thy ===== *)
theory OCCStore
  imports NiVersionedKV TxnStore
begin

text \<open>
  The optimistic store of \<open>src/nistore/occstore.cc\<close>. A transaction collects a read set (with
  the time of the version it saw) and a write set; \<open>prepare\<close> validates it against the store
  and the prepared transactions; \<open>commit\<close> writes its last values. Every operation has an undo
  for speculative execution. \<open>std::map\<close>s that are iterated over are ordered association lists.
  \<open>na\<close> says that assertions are compiled out.
\<close>

section \<open>State\<close>

record OCCTransaction =
  txn_id :: u64
  readSet :: "(bytes, u64 \<times> int) smap"
  writeSet :: "(bytes, bytes list) smap"

definition OCCTransaction_new :: "u64 \<Rightarrow> OCCTransaction" where
  "OCCTransaction_new i = \<lparr>txn_id = i, readSet = [], writeSet = []\<rparr>"

datatype RetiredState = COMMITTED | ABORTED_PREPARED | ABORTED_RUNNING

record OCCStore =
  occ_store :: NiVersionedKVStore
  running :: "(u64, OCCTransaction) smap"
  prepared_txns :: "(u64, OCCTransaction) smap"
  retired :: "(opnum_t \<times> OCCTransaction \<times> RetiredState) list"

definition OCCStore_new :: OCCStore where
  "OCCStore_new = \<lparr>occ_store = NiVersionedKVStore_new, running = [], prepared_txns = [], retired = []\<rparr>"

section \<open>Operations\<close>

definition getPreparedWrites :: "OCCStore \<Rightarrow> bytes set" where
  "getPreparedWrites s = (\<Union>t \<in> set (prepared_txns s). fst ` set (writeSet (snd t)))"

definition getPreparedReadWrites :: "OCCStore \<Rightarrow> bytes set" where
  "getPreparedReadWrites s =
     (\<Union>t \<in> set (prepared_txns s). fst ` set (writeSet (snd t)) \<union> fst ` set (readSet (snd t)))"

definition put_running :: "u64 \<Rightarrow> OCCTransaction \<Rightarrow> OCCStore \<Rightarrow> OCCStore" where
  "put_running i t s = s\<lparr>running := smap_put i t (running s)\<rparr>"

definition put_prepared :: "u64 \<Rightarrow> OCCTransaction \<Rightarrow> OCCStore \<Rightarrow> OCCStore" where
  "put_prepared i t s = s\<lparr>prepared_txns := smap_put i t (prepared_txns s)\<rparr>"

definition drop_running :: "u64 \<Rightarrow> OCCStore \<Rightarrow> OCCStore" where
  "drop_running i s = s\<lparr>running := smap_erase i (running s)\<rparr>"

definition drop_prepared :: "u64 \<Rightarrow> OCCStore \<Rightarrow> OCCStore" where
  "drop_prepared i s = s\<lparr>prepared_txns := smap_erase i (prepared_txns s)\<rparr>"

definition push_retired :: "opnum_t \<Rightarrow> OCCTransaction \<Rightarrow> RetiredState \<Rightarrow> OCCStore \<Rightarrow> OCCStore" where
  "push_retired opn t st s = s\<lparr>retired := retired s @ [(opn, t, st)]\<rparr>"

text \<open>The running transaction of a client, created if there is none, and the store with it.\<close>

definition getTxn :: "bool \<Rightarrow> u64 \<Rightarrow> OCCStore \<Rightarrow> (OCCTransaction \<times> OCCStore) result" where
  "getTxn na i s =
     (case map_of (running s) i of
        None \<Rightarrow> Inr (OCCTransaction_new i, put_running i (OCCTransaction_new i) s)
      | Some t \<Rightarrow> assert_r na (txn_id t = i) (Inr (t, s)))"

definition last_retired :: "OCCStore \<Rightarrow> (opnum_t \<times> OCCTransaction \<times> RetiredState) result" where
  "last_retired s = (case retired s of [] \<Rightarrow> Inl Undefined | _ \<Rightarrow> Inr (last (retired s)))"

definition getRetiredTxn ::
  "bool \<Rightarrow> opnum_t \<Rightarrow> u64 \<Rightarrow> RetiredState \<Rightarrow> OCCStore \<Rightarrow> (OCCTransaction \<times> OCCStore) result" where
  "getRetiredTxn na opn i st s =
     bind_r (last_retired s) (\<lambda>(o', t, st').
       assert_r na (o' = opn) (assert_r na (txn_id t = i) (assert_r na (st' = st)
         (Inr (t, s\<lparr>retired := butlast (retired s)\<rparr>)))))"

definition occ_begin :: "u64 \<Rightarrow> OCCStore \<Rightarrow> OCCStore" where
  "occ_begin i s = put_running i (OCCTransaction_new i) s"

definition occ_unbegin :: "u64 \<Rightarrow> OCCStore \<Rightarrow> OCCStore" where
  "occ_unbegin i s = drop_running i s"

text \<open>The status and the value written to the result parameter, if any.\<close>

definition read_in_txn ::
  "bool \<Rightarrow> u64 \<Rightarrow> bytes \<Rightarrow> OCCTransaction \<Rightarrow> OCCStore \<Rightarrow> (int \<times> bytes option \<times> OCCStore) result" where
  "read_in_txn na i key t s =
     (case map_of (writeSet t) key of
        Some ws \<Rightarrow> bind_r (last_written ws) (\<lambda>v. Inr (0, Some v, s))
      | None \<Rightarrow>
        (case map_of (readSet t) key of
           Some (ts, n) \<Rightarrow>
             let found = vkv_get_at key ts (occ_store s)
             in assert_r na (found \<noteq> None)
               (Inr (0, Some (case found of None \<Rightarrow> '''' | Some v \<Rightarrow> v),
                     put_running i (t\<lparr>readSet := smap_put key (ts, n + 1) (readSet t)\<rparr>) s))
         | None \<Rightarrow>
             bind_r (vkv_get key (occ_store s)) (\<lambda>found.
               case found of
                 Some (ts, v) \<Rightarrow>
                   Inr (0, Some v, put_running i (t\<lparr>readSet := smap_put key (ts, 1) (readSet t)\<rparr>) s)
               | None \<Rightarrow> Inr (-1, None, s))))"

definition occ_get :: "bool \<Rightarrow> u64 \<Rightarrow> bytes \<Rightarrow> OCCStore \<Rightarrow> (int \<times> bytes option \<times> OCCStore) result" where
  "occ_get na i key s0 = bind_r (getTxn na i s0) (\<lambda>(t, s). read_in_txn na i key t s)"

definition occ_unget :: "bool \<Rightarrow> u64 \<Rightarrow> bytes \<Rightarrow> OCCStore \<Rightarrow> OCCStore result" where
  "occ_unget na i key s0 =
     bind_r (getTxn na i s0) (\<lambda>(t, s).
       case map_of (readSet t) key of
         None \<Rightarrow> Inr s
       | Some (ts, n) \<Rightarrow>
           Inr (put_running i (t\<lparr>readSet := (if n > 1 then smap_put key (ts, n - 1) (readSet t)
                                             else smap_erase key (readSet t))\<rparr>) s))"

definition occ_put :: "bool \<Rightarrow> u64 \<Rightarrow> bytes \<Rightarrow> bytes \<Rightarrow> OCCStore \<Rightarrow> (int \<times> OCCStore) result" where
  "occ_put na i key v s0 =
     bind_r (getTxn na i s0) (\<lambda>(t, s).
       Inr (0, put_running i (t\<lparr>writeSet := smap_put key (written (writeSet t) key @ [v]) (writeSet t)\<rparr>) s))"

definition occ_unput :: "bool \<Rightarrow> u64 \<Rightarrow> bytes \<Rightarrow> bytes \<Rightarrow> OCCStore \<Rightarrow> OCCStore result" where
  "occ_unput na i key v s0 =
     bind_r (getTxn na i s0) (\<lambda>(t, s).
       assert_r na (map_of (writeSet t) key \<noteq> None)
         (let vs = written (writeSet t) key
          in assert_r na (vs \<noteq> [])
            (if vs = [] then Inl Undefined
             else assert_r na (last vs = v)
               (Inr (put_running i (t\<lparr>writeSet := smap_put key (butlast vs) (writeSet t)\<rparr>) s)))))"

definition abortTxn :: "u64 \<Rightarrow> opnum_t \<Rightarrow> OCCStore \<Rightarrow> OCCStore result" where
  "abortTxn i opn s =
     (case map_of (running s) i of
        Some t \<Rightarrow> Inr (drop_running i (push_retired opn t ABORTED_RUNNING s))
      | None \<Rightarrow>
          (case map_of (prepared_txns s) i of
             Some t \<Rightarrow> Inr (drop_prepared i (push_retired opn t ABORTED_PREPARED s))
           | None \<Rightarrow> Inl Panicked))"

text \<open>The two validation loops of \<open>prepare\<close>: whether they run to the end.\<close>

fun valid_reads ::
  "bool \<Rightarrow> NiVersionedKVStore \<Rightarrow> bytes set \<Rightarrow> (bytes \<times> u64 \<times> int) list \<Rightarrow> bool result" where
  "valid_reads na st pWrites [] = Inr True"
| "valid_reads na st pWrites ((key, ts, n) # rs) =
     bind_r (vkv_get key st) (\<lambda>cur.
       assert_r na (cur \<noteq> None)
         (let (cts, cv) = (case cur of None \<Rightarrow> (0, '''') | Some x \<Rightarrow> x)
          in if cts \<noteq> ts then Inr False
             else if key \<in> pWrites then Inr False
             else valid_reads na st pWrites rs))"

definition valid_writes :: "bytes set \<Rightarrow> (bytes \<times> bytes list) list \<Rightarrow> bool" where
  "valid_writes pRW ws = list_all (\<lambda>(key, vs). key \<notin> pRW) ws"

definition occ_prepare :: "bool \<Rightarrow> u64 \<Rightarrow> opnum_t \<Rightarrow> OCCStore \<Rightarrow> (int \<times> OCCStore) result" where
  "occ_prepare na i opn s =
     (case map_of (running s) i of
        None \<Rightarrow> Inr (-1, s)
      | Some t \<Rightarrow>
          bind_r (valid_reads na (occ_store s) (getPreparedWrites s) (readSet t)) (\<lambda>rok.
            if rok \<and> valid_writes (getPreparedReadWrites s) (writeSet t)
            then Inr (0, put_prepared i t (drop_running i s))
            else bind_r (abortTxn i opn s) (\<lambda>s'. Inr (-1, s'))))"

definition occ_unprepare :: "bool \<Rightarrow> u64 \<Rightarrow> opnum_t \<Rightarrow> OCCStore \<Rightarrow> OCCStore result" where
  "occ_unprepare na i opn s =
     (case map_of (prepared_txns s) i of
        Some t \<Rightarrow> Inr (drop_prepared i (put_running i t s))
      | None \<Rightarrow> bind_r (getRetiredTxn na opn i ABORTED_RUNNING s) (\<lambda>(t, s'). Inr (put_running i t s')))"

definition commit_write ::
  "bool \<Rightarrow> u64 \<Rightarrow> bytes \<times> bytes list \<Rightarrow> NiVersionedKVStore \<Rightarrow> NiVersionedKVStore result" where
  "commit_write na timestamp w st =
     bind_r (last_written (snd w)) (\<lambda>v.
       bind_r (vkv_put (fst w) v timestamp st) (\<lambda>(ret, st'). assert_r na ret (Inr st')))"

text \<open>Without assertions \<open>prepared[id]\<close> creates a transaction with id 0 if there is none.\<close>

definition occ_commit :: "bool \<Rightarrow> u64 \<Rightarrow> u64 \<Rightarrow> opnum_t \<Rightarrow> OCCStore \<Rightarrow> OCCStore result" where
  "occ_commit na i timestamp opn s =
     assert_r na (map_of (prepared_txns s) i \<noteq> None)
       (let t = (case map_of (prepared_txns s) i of None \<Rightarrow> OCCTransaction_new 0 | Some t \<Rightarrow> t)
        in assert_r na (txn_id t = i)
          (bind_r (fold_r (commit_write na timestamp) (writeSet t) (occ_store s)) (\<lambda>st.
             Inr (push_retired opn t COMMITTED (drop_prepared i (s\<lparr>occ_store := st\<rparr>))))))"

definition uncommit_write ::
  "bool \<Rightarrow> u64 \<Rightarrow> bytes \<times> bytes list \<Rightarrow> NiVersionedKVStore \<Rightarrow> NiVersionedKVStore result" where
  "uncommit_write na timestamp w st =
     bind_r (vkv_remove (fst w) st) (\<lambda>(found, st').
       assert_r na (found \<noteq> None)
         (let (ts, v) = (case found of None \<Rightarrow> (0, '''') | Some x \<Rightarrow> x)
          in assert_r na (ts = timestamp)
            (if na then Inr st'
             else bind_r (last_written (snd w)) (\<lambda>v'. assert_r na (v = v') (Inr st')))))"

definition occ_uncommit :: "bool \<Rightarrow> u64 \<Rightarrow> u64 \<Rightarrow> opnum_t \<Rightarrow> OCCStore \<Rightarrow> OCCStore result" where
  "occ_uncommit na i timestamp opn s0 =
     bind_r (getRetiredTxn na opn i COMMITTED s0) (\<lambda>(t, s).
       bind_r (fold_r (uncommit_write na timestamp) (writeSet t) (occ_store s)) (\<lambda>st.
         assert_r na (map_of (prepared_txns s) i = None)
           (Inr (put_prepared i t (s\<lparr>occ_store := st\<rparr>)))))"

definition occ_unabort :: "bool \<Rightarrow> u64 \<Rightarrow> opnum_t \<Rightarrow> OCCStore \<Rightarrow> OCCStore result" where
  "occ_unabort na i opn s =
     bind_r (last_retired s) (\<lambda>(o', t, st).
       assert_r na (o' = opn) (assert_r na (txn_id t = i)
         (assert_r na (st = ABORTED_PREPARED \<or> st = ABORTED_RUNNING)
           (bind_r
             (if st = ABORTED_PREPARED then
                assert_r na (map_of (prepared_txns s) i = None) (Inr (put_prepared i t s))
              else if st = ABORTED_RUNNING then
                assert_r na (map_of (running s) i = None) (Inr (put_running i t s))
              else Inr s)
             (\<lambda>s'. Inr (s'\<lparr>retired := butlast (retired s')\<rparr>))))))"

definition occ_specCommit :: "opnum_t \<Rightarrow> OCCStore \<Rightarrow> OCCStore" where
  "occ_specCommit opn s = s\<lparr>retired := dropWhile (\<lambda>r. fst r \<le> opn) (retired s)\<rparr>"

end
