(* ===== verification/OCCSerial.thy ===== *)
theory OCCSerial
  imports OCCStore
begin

text \<open>
  Serializability of the optimistic store. The invariant \<open>occ_ok\<close> says that prepared
  transactions do not conflict and that what they have read is still current; every operation
  keeps it. In a run the commits then are a serial execution of what the clients saw, in
  commit order (\<open>serial\<close>).
\<close>

section \<open>The invariant\<close>

definition txn_ok :: "u64 \<Rightarrow> OCCTransaction \<Rightarrow> bool" where
  "txn_ok i t \<longleftrightarrow> txn_id t = i \<and> smap_ok (readSet t) \<and> smap_ok (writeSet t) \<and>
     (\<forall>k ws. map_of (writeSet t) k = Some ws \<longrightarrow> ws \<noteq> [])"

definition reads_known :: "NiVersionedKVStore \<Rightarrow> OCCTransaction \<Rightarrow> bool" where
  "reads_known st t \<longleftrightarrow> (\<forall>k r. map_of (readSet t) k = Some r \<longrightarrow> latest st k \<noteq> None)"

definition reads_current :: "NiVersionedKVStore \<Rightarrow> OCCTransaction \<Rightarrow> bool" where
  "reads_current st t \<longleftrightarrow> (\<forall>k ts n. map_of (readSet t) k = Some (ts, n) \<longrightarrow> (\<exists>v. latest st k = Some (ts, v)))"

definition conflicts :: "OCCTransaction \<Rightarrow> OCCTransaction \<Rightarrow> bool" where
  "conflicts t u \<longleftrightarrow>
     dom (map_of (writeSet t)) \<inter> (dom (map_of (readSet u)) \<union> dom (map_of (writeSet u))) \<noteq> {}"

definition occ_ok :: "OCCStore \<Rightarrow> bool" where
  "occ_ok s \<longleftrightarrow>
     vkv_ok (occ_store s) \<and> smap_ok (running s) \<and> smap_ok (prepared_txns s) \<and>
     (\<forall>i t. map_of (running s) i = Some t \<longrightarrow> txn_ok i t \<and> reads_known (occ_store s) t) \<and>
     (\<forall>i t. map_of (prepared_txns s) i = Some t \<longrightarrow> txn_ok i t \<and> reads_current (occ_store s) t) \<and>
     (\<forall>i j t u. map_of (prepared_txns s) i = Some t \<and> map_of (prepared_txns s) j = Some u \<and> i \<noteq> j \<longrightarrow>
        \<not> conflicts t u)"

lemma occ_ok_new: "occ_ok OCCStore_new"
  by (simp add: occ_ok_def OCCStore_new_def smap_ok_Nil)

lemma txn_ok_new [simp]: "txn_ok i (OCCTransaction_new i)"
  by (simp add: txn_ok_def OCCTransaction_new_def smap_ok_Nil)

lemma reads_known_new [simp]: "reads_known st (OCCTransaction_new i)"
  by (simp add: reads_known_def OCCTransaction_new_def)

lemma occ_ok_disjoint:
  "occ_ok s \<Longrightarrow> map_of (prepared_txns s) i = Some t \<Longrightarrow> map_of (prepared_txns s) j = Some u \<Longrightarrow> i \<noteq> j \<Longrightarrow>
   \<not> conflicts t u"
  by (auto simp: occ_ok_def)

lemma occ_ok_put_running:
  "occ_ok s \<Longrightarrow> txn_ok i t \<Longrightarrow> reads_known (occ_store s) t \<Longrightarrow> occ_ok (put_running i t s)"
  by (auto simp: occ_ok_def put_running_def sm.ok_put sm.get_put)

lemma occ_ok_drop_running: "occ_ok s \<Longrightarrow> occ_ok (drop_running i s)"
  by (auto simp: occ_ok_def drop_running_def sm.ok_del sm.get_del)

lemma occ_ok_drop_prepared: "occ_ok s \<Longrightarrow> occ_ok (drop_prepared i s)"
  by (auto simp: occ_ok_def drop_prepared_def sm.ok_del sm.get_del)

lemma occ_ok_retired [simp]: "occ_ok (s\<lparr>retired := r\<rparr>) = occ_ok s"
  by (simp add: occ_ok_def)

lemma occ_ok_push_retired [simp]: "occ_ok (push_retired opn t st s) = occ_ok s"
  by (simp add: push_retired_def)

lemma occ_sel [simp]:
  "occ_store (put_running i t s) = occ_store s" "prepared_txns (put_running i t s) = prepared_txns s"
  "running (put_running i t s) = smap_put i t (running s)" "retired (put_running i t s) = retired s"
  "occ_store (drop_running i s) = occ_store s" "prepared_txns (drop_running i s) = prepared_txns s"
  "running (drop_running i s) = smap_erase i (running s)" "retired (drop_running i s) = retired s"
  "occ_store (put_prepared i t s) = occ_store s" "running (put_prepared i t s) = running s"
  "prepared_txns (put_prepared i t s) = smap_put i t (prepared_txns s)" "retired (put_prepared i t s) = retired s"
  "occ_store (drop_prepared i s) = occ_store s" "running (drop_prepared i s) = running s"
  "prepared_txns (drop_prepared i s) = smap_erase i (prepared_txns s)" "retired (drop_prepared i s) = retired s"
  "occ_store (push_retired opn t st s) = occ_store s" "running (push_retired opn t st s) = running s"
  "prepared_txns (push_retired opn t st s) = prepared_txns s" "retired (push_retired opn t st s) = retired s @ [(opn, t, st)]"
  by (simp_all add: put_running_def drop_running_def put_prepared_def drop_prepared_def push_retired_def)

section \<open>Operations of a running transaction\<close>

lemma post_getTxn:
  assumes ok: "occ_ok s"
  shows "post (getTxn na i s) (\<lambda>(t, u). occ_ok u \<and> map_of (running u) i = Some t \<and> txn_ok i t \<and>
    reads_known (occ_store u) t \<and> occ_store u = occ_store s \<and> prepared_txns u = prepared_txns s)"
  using ok by (auto simp: getTxn_def post_option post_assert sm.get_put intro!: occ_ok_put_running)
    (auto simp: occ_ok_def)

lemma txn_ok_reads: "txn_ok i t \<Longrightarrow> smap_ok r \<Longrightarrow> txn_ok i (t\<lparr>readSet := r\<rparr>)"
  by (simp add: txn_ok_def)

lemma post_occ_get:
  assumes ok: "occ_ok s"
  shows "post (occ_get na i key s) (\<lambda>(r, v, u). occ_ok u \<and> occ_store u = occ_store s \<and> prepared_txns u = prepared_txns s)"
  unfolding occ_get_def
proof (rule post_bindI [OF post_getTxn [OF ok]], clarify)
  fix t and u assume u: "occ_ok u" "map_of (running u) i = Some t" "txn_ok i t" "reads_known (occ_store u) t"
      "occ_store u = occ_store s" "prepared_txns u = prepared_txns s"
  have kept: "occ_ok (put_running i (t\<lparr>readSet := smap_put key (ts, n) (readSet t)\<rparr>) u)"
    if "latest (occ_store u) key \<noteq> None" for ts n
    by (rule occ_ok_put_running [OF u(1)])
      (use u that in \<open>auto simp: txn_ok_def reads_known_def sm.ok_put sm.get_put\<close>)
  have known: "latest (occ_store u) key \<noteq> None" if "map_of (readSet t) key = Some r" for r
    using u(4) that by (auto simp: reads_known_def)
  have get: "vkv_get key (occ_store u) = Inr (latest (occ_store u) key)"
    using u(1) by (intro vkv_get_ok) (simp add: occ_ok_def)
  show "post (read_in_txn na i key t u)
     (\<lambda>(r, v, w). occ_ok w \<and> occ_store w = occ_store s \<and> prepared_txns w = prepared_txns s)"
    using u kept known get by (auto simp: read_in_txn_def post_option wp split: prod.splits)
qed

lemma post_occ_put:
  assumes ok: "occ_ok s"
  shows "post (occ_put na i key v s) (\<lambda>(r, u). occ_ok u \<and> occ_store u = occ_store s \<and> prepared_txns u = prepared_txns s)"
  unfolding occ_put_def
  by (rule post_bindI [OF post_getTxn [OF ok]])
    (auto intro!: occ_ok_put_running simp: txn_ok_def reads_known_def sm.ok_put sm.get_put)

lemma post_abortTxn:
  "occ_ok s \<Longrightarrow> post (abortTxn i opn s) (\<lambda>u. occ_ok u \<and> occ_store u = occ_store s \<and>
     map_of (prepared_txns u) \<subseteq>\<^sub>m map_of (prepared_txns s))"
  by (auto simp: abortTxn_def post_option occ_ok_drop_running occ_ok_drop_prepared)
    (auto simp: map_le_def occ_ok_def sm.get_del)

section \<open>Prepare\<close>

lemma valid_reads_eq:
  assumes ok: "vkv_ok st" and known: "\<forall>(k, r) \<in> set rs. latest st k \<noteq> None"
  shows "valid_reads na st P rs =
    Inr (\<forall>(k, ts, n) \<in> set rs. map_option fst (latest st k) = Some ts \<and> k \<notin> P)"
  using known
proof (induction rs)
  case (Cons x rs)
  obtain k ts n where x: "x = (k, ts, n)" by (cases x)
  with Cons.prems obtain t v where "latest st k = Some (t, v)" by auto
  with Cons x show ?case by (auto simp: vkv_get_ok [OF ok])
qed simp

lemma valid_writes_iff: "valid_writes P ws \<longleftrightarrow> dom (map_of ws) \<inter> P = {}"
  by (auto simp: valid_writes_def list_all_iff dom_map_of_conv_image_fst)

lemma prepared_writes:
  assumes "smap_ok (prepared_txns s)" and "map_of (prepared_txns s) j = Some u"
  shows "dom (map_of (writeSet u)) \<subseteq> getPreparedWrites s"
proof -
  have "(j, u) \<in> set (prepared_txns s)" using assms by (simp add: smap_set)
  from UN_upper [OF this, of "\<lambda>x. fst ` set (writeSet (snd x))"] show ?thesis
    by (simp add: getPreparedWrites_def dom_map_of_conv_image_fst)
qed

lemma prepared_readwrites:
  assumes "smap_ok (prepared_txns s)" and "map_of (prepared_txns s) j = Some u"
  shows "dom (map_of (writeSet u)) \<union> dom (map_of (readSet u)) \<subseteq> getPreparedReadWrites s"
proof -
  have "(j, u) \<in> set (prepared_txns s)" using assms by (simp add: smap_set)
  then show ?thesis by (force simp: getPreparedReadWrites_def dom_map_of_conv_image_fst)
qed

lemma occ_ok_put_prepared:
  assumes ok: "occ_ok s" and t: "txn_ok i t" "reads_current (occ_store s) t"
    and free: "\<And>j u. map_of (prepared_txns s) j = Some u \<Longrightarrow> i \<noteq> j \<Longrightarrow> \<not> conflicts t u \<and> \<not> conflicts u t"
  shows "occ_ok (put_prepared i t s)"
  using ok t free by (auto simp: occ_ok_def put_prepared_def sm.ok_put sm.get_put)

lemma post_occ_prepare:
  assumes ok: "occ_ok s"
  shows "post (occ_prepare na i opn s) (\<lambda>(r, u). occ_ok u \<and> occ_store u = occ_store s)"
proof (cases "map_of (running s) i")
  case None
  with ok show ?thesis by (simp add: occ_prepare_def)
next
  case (Some t)
  have t: "txn_ok i t" "reads_known (occ_store s) t" and vkv: "vkv_ok (occ_store s)"
    and sm: "smap_ok (prepared_txns s)" "smap_ok (readSet t)"
    using ok Some by (auto simp: occ_ok_def txn_ok_def)
  let ?valid = "\<forall>(k, ts, n) \<in> set (readSet t). map_option fst (latest (occ_store s) k) = Some ts \<and> k \<notin> getPreparedWrites s"
  have reads: "valid_reads na (occ_store s) (getPreparedWrites s) (readSet t) = Inr ?valid"
    by (rule valid_reads_eq [OF vkv]) (use t sm in \<open>auto simp: reads_known_def smap_set\<close>)
  have "occ_ok (put_prepared i t (drop_running i s))"
    if valid: ?valid "valid_writes (getPreparedReadWrites s) (writeSet t)"
  proof (rule occ_ok_put_prepared [OF occ_ok_drop_running [OF ok] t(1)])
    show "reads_current (occ_store (drop_running i s)) t"
      using valid(1) sm(2) by (force simp: reads_current_def smap_set [symmetric])
    fix j u assume u: "map_of (prepared_txns (drop_running i s)) j = Some u"
    then have sub: "dom (map_of (writeSet u)) \<subseteq> getPreparedWrites s"
        "dom (map_of (writeSet u)) \<union> dom (map_of (readSet u)) \<subseteq> getPreparedReadWrites s"
      using prepared_writes [OF sm(1), of j u] prepared_readwrites [OF sm(1), of j u] by simp_all
    have free: "dom (map_of (writeSet t)) \<inter> getPreparedReadWrites s = {}"
      using valid(2) by (simp add: valid_writes_iff)
    have "dom (map_of (readSet t)) \<inter> getPreparedWrites s = {}"
      using valid(1) by (auto simp: dom_map_of_conv_image_fst)
    with sub free have "\<not> conflicts u t" unfolding conflicts_def by blast
    moreover have "\<not> conflicts t u" using sub free unfolding conflicts_def by blast
    ultimately show "\<not> conflicts t u \<and> \<not> conflicts u t" by blast
  qed
  moreover have "post (abortTxn i opn s) (\<lambda>u. occ_ok u \<and> occ_store u = occ_store s)"
    by (rule post_mono [OF post_abortTxn [OF ok]]) simp
  ultimately show ?thesis
    using Some by (auto simp: occ_prepare_def reads post_if wp)
qed

section \<open>Commit\<close>

text \<open>Writes that are non-empty and newer than the versions they replace all succeed.\<close>

lemma commit_writes:
  assumes "vkv_ok st" and "smap_ok ws" and "\<And>k vs. map_of ws k = Some vs \<Longrightarrow> vs \<noteq> []"
    and "\<And>k vs t w. map_of ws k = Some vs \<Longrightarrow> latest st k = Some (t, w) \<Longrightarrow> t < ts"
  shows "\<exists>st'. fold_r (commit_write na ts) ws st = Inr st' \<and> vkv_ok st' \<and>
    latest st' = (\<lambda>k. case map_of ws k of None \<Rightarrow> latest st k | Some vs \<Rightarrow> Some (ts, last vs))"
  using assms
proof (induction ws arbitrary: st)
  case (Cons w ws)
  obtain k vs where w: "w = (k, vs)" by (cases w)
  have fresh: "map_of ws k = None" and ok: "smap_ok ws"
    using Cons.prems(2) w by (force simp: smap_ok_def map_of_eq_None_iff)+
  have ne: "vs \<noteq> []" using Cons.prems(3) [of k vs] w by simp
  then have lw: "last_written vs = Inr (last vs)" by (cases vs) (auto simp: last_written_def)
  obtain st1 where st1: "vkv_put k (last vs) ts st = Inr (True, st1)" "vkv_ok st1"
      "latest st1 = (latest st)(k \<mapsto> (ts, last vs))"
    using vkv_put_newer [of st k ts "last vs"] Cons.prems(1) Cons.prems(4) [of k vs] w by auto
  have "\<exists>st'. fold_r (commit_write na ts) ws st1 = Inr st' \<and> vkv_ok st' \<and>
      latest st' = (\<lambda>k. case map_of ws k of None \<Rightarrow> latest st1 k | Some vs \<Rightarrow> Some (ts, last vs))"
  proof (rule Cons.IH [OF st1(2) ok])
    show "us \<noteq> []" if "map_of ws j = Some us" for j us
      using that Cons.prems(3) [of j us] w fresh by (cases "j = k") auto
    show "t < ts" if "map_of ws j = Some us" "latest st1 j = Some (t, v)" for j us t v
      using that Cons.prems(4) [of j us t v] w fresh st1(3) by (auto split: if_splits)
  qed
  then obtain st' where st': "fold_r (commit_write na ts) ws st1 = Inr st'" "vkv_ok st'"
      "latest st' = (\<lambda>k. case map_of ws k of None \<Rightarrow> latest st1 k | Some vs \<Rightarrow> Some (ts, last vs))"
    by blast
  have "commit_write na ts w st = Inr st1" using st1(1) lw w by (simp add: commit_write_def)
  with st' st1(3) fresh w show ?case
    by (intro exI [of _ st']) (auto simp: fun_eq_iff split: option.splits)
qed simp

text \<open>What a commit needs of its timestamp: it is newer than every version it replaces.\<close>

definition newer :: "u64 \<Rightarrow> OCCTransaction \<Rightarrow> NiVersionedKVStore \<Rightarrow> bool" where
  "newer ts t st = list_all (\<lambda>(k, vs). case latest st k of None \<Rightarrow> True | Some (t', v) \<Rightarrow> t' < ts) (writeSet t)"

lemma newerD: "newer ts t st \<Longrightarrow> map_of (writeSet t) k = Some vs \<Longrightarrow> latest st k = Some (t', v) \<Longrightarrow> t' < ts"
  by (auto simp: newer_def list_all_iff dest!: map_of_SomeD split: option.splits)

lemma latest_kept:
  assumes "reads_current st u" and "latest st' = (\<lambda>k. case map_of (writeSet t) k of None \<Rightarrow> latest st k | Some vs \<Rightarrow> Some (ts, last vs))"
    and "\<not> conflicts t u"
  shows "reads_current st' u"
  unfolding reads_current_def
proof (intro allI impI)
  fix k t' n assume k: "map_of (readSet u) k = Some (t', n)"
  with assms(3) have "map_of (writeSet t) k = None" by (auto simp: conflicts_def)
  with k assms(1,2) show "\<exists>v. latest st' k = Some (t', v)" by (auto simp: reads_current_def)
qed

lemma occ_commit_ok:
  assumes ok: "occ_ok s" and t: "map_of (prepared_txns s) i = Some t" and new: "newer ts t (occ_store s)"
  shows "\<exists>s'. occ_commit na i ts opn s = Inr s' \<and> occ_ok s' \<and>
    current (occ_store s') = write_all (writeSet t) (current (occ_store s)) \<and>
    prepared_txns s' = smap_erase i (prepared_txns s) \<and> running s' = running s"
proof -
  have ts: "txn_ok i t" and vkv: "vkv_ok (occ_store s)"
    using ok t by (auto simp: occ_ok_def)
  obtain st where st: "fold_r (commit_write na ts) (writeSet t) (occ_store s) = Inr st" "vkv_ok st"
      "latest st = (\<lambda>k. case map_of (writeSet t) k of None \<Rightarrow> latest (occ_store s) k | Some vs \<Rightarrow> Some (ts, last vs))"
    using commit_writes [OF vkv, of "writeSet t" ts na] ts newerD [OF new] by (auto simp: txn_ok_def)
  have "occ_ok (drop_prepared i (s\<lparr>occ_store := st\<rparr>))"
    unfolding occ_ok_def
  proof (intro conjI allI impI)
    fix j u assume "map_of (running (drop_prepared i (s\<lparr>occ_store := st\<rparr>))) j = Some u"
    then have u: "txn_ok j u" "reads_known (occ_store s) u" using ok by (auto simp: occ_ok_def)
    then show "txn_ok j u" by simp
    show "reads_known (occ_store (drop_prepared i (s\<lparr>occ_store := st\<rparr>))) u"
      using u(2) st(3) by (auto simp: reads_known_def split: option.splits)
  next
    fix j u assume "map_of (prepared_txns (drop_prepared i (s\<lparr>occ_store := st\<rparr>))) j = Some u"
    then have u: "map_of (prepared_txns s) j = Some u" "j \<noteq> i"
      using ok by (auto simp: occ_ok_def sm.get_del split: if_splits)
    then have "txn_ok j u" "reads_current (occ_store s) u" using ok by (auto simp: occ_ok_def)
    moreover have "\<not> conflicts t u" using occ_ok_disjoint [OF ok t u(1)] u(2) by blast
    ultimately show "txn_ok j u" "reads_current (occ_store (drop_prepared i (s\<lparr>occ_store := st\<rparr>))) u"
      using latest_kept [OF _ st(3)] by auto
  next
    fix j k u v assume "map_of (prepared_txns (drop_prepared i (s\<lparr>occ_store := st\<rparr>))) j = Some u \<and>
      map_of (prepared_txns (drop_prepared i (s\<lparr>occ_store := st\<rparr>))) k = Some v \<and> j \<noteq> k"
    then show "\<not> conflicts u v"
      using ok by (auto simp: occ_ok_def sm.get_del split: if_splits)
  qed (use ok st in \<open>auto simp: occ_ok_def sm.ok_del\<close>)
  moreover have "current st = write_all (writeSet t) (current (occ_store s))"
    using st(3) by (auto simp: current_def write_all_def fun_eq_iff split: option.splits)
  ultimately show ?thesis
    using t ts st(1) by (simp add: occ_commit_def txn_ok_def)
qed

section \<open>Runs\<close>

definition occ_call_step :: "bool \<Rightarrow> txn_call \<Rightarrow> OCCStore \<Rightarrow> (int \<times> bytes option \<times> OCCStore) result" where
  "occ_call_step na c s =
     (case c of
        Begin i \<Rightarrow> Inr (0, None, occ_begin i s)
      | Get i key \<Rightarrow> occ_get na i key s
      | Put i key v \<Rightarrow> bind_r (occ_put na i key v s) (\<lambda>(r, s'). Inr (r, None, s'))
      | Prepare i opn \<Rightarrow> bind_r (occ_prepare na i opn s) (\<lambda>(r, s'). Inr (r, None, s'))
      | Commit i ts opn \<Rightarrow> bind_r (occ_commit na i ts opn s) (\<lambda>s'. Inr (0, None, s'))
      | Abort i opn \<Rightarrow> bind_r (abortTxn i opn s) (\<lambda>s'. Inr (0, None, s')))"

text \<open>
  What the callers have to see to: only prepared transactions are committed, with a timestamp
  newer than the versions they replace.
\<close>

definition occ_fits :: "txn_call \<Rightarrow> OCCStore \<Rightarrow> bool" where
  "occ_fits c s =
     (case c of
        Commit i ts opn \<Rightarrow>
          (case map_of (prepared_txns s) i of None \<Rightarrow> False | Some t \<Rightarrow> newer ts t (occ_store s))
      | _ \<Rightarrow> True)"

section \<open>What a transaction has seen\<close>

text \<open>
  \<open>explains st t as\<close>: every version in the read set is stored and no newer than the current one, and
  on every map that agrees with those versions the actions \<open>as\<close> run through and leave the writes of \<open>t\<close>.
\<close>

definition sees :: "NiVersionedKVStore \<Rightarrow> OCCTransaction \<Rightarrow> (bytes \<rightharpoonup> bytes) \<Rightarrow> bool" where
  "sees st t m \<longleftrightarrow> (\<forall>k ts n. map_of (readSet t) k = Some (ts, n) \<longrightarrow> m k = vkv_get_at k ts st)"

definition reads_stored :: "NiVersionedKVStore \<Rightarrow> OCCTransaction \<Rightarrow> bool" where
  "reads_stored st t \<longleftrightarrow> (\<forall>k ts n. map_of (readSet t) k = Some (ts, n) \<longrightarrow>
     vkv_get_at k ts st \<noteq> None \<and> (\<exists>t' v. latest st k = Some (t', v) \<and> ts \<le> t'))"

definition explains :: "NiVersionedKVStore \<Rightarrow> OCCTransaction \<Rightarrow> action list \<Rightarrow> bool" where
  "explains st t as \<longleftrightarrow> reads_stored st t \<and> (\<forall>m. sees st t m \<longrightarrow> execute as m = Some (write_all (writeSet t) m))"

lemma sees_put:
  assumes "sees st (t\<lparr>readSet := smap_put k (ts, n') (readSet t)\<rparr>) m"
    and "map_of (readSet t) k = None \<or> (\<exists>n. map_of (readSet t) k = Some (ts, n))"
    and "vkv_get_at k ts st = Some v"
  shows "sees st t m" and "m k = Some v"
proof -
  have at: "m k' = vkv_get_at k' ts' st" if "((map_of (readSet t))(k \<mapsto> (ts, n'))) k' = Some (ts', n)" for k' ts' n
    using assms(1) that by (simp add: sees_def sm.get_put)
  from at [of k ts n'] assms(3) show k: "m k = Some v" by simp
  show "sees st t m"
    unfolding sees_def
  proof (intro allI impI)
    fix k' ts' n assume "map_of (readSet t) k' = Some (ts', n)"
    then show "m k' = vkv_get_at k' ts' st"
      using at [of k' ts' n] k assms(2,3) by (cases "k' = k") auto
  qed
qed

lemma explains_new [simp]: "explains st (OCCTransaction_new i) []"
  by (simp add: explains_def reads_stored_def OCCTransaction_new_def write_all_def fun_eq_iff)

lemma explains_own_read:
  assumes "explains st t as" and "map_of (writeSet t) k = Some vs"
  shows "explains st t (as @ [Saw k (last vs)])"
  using assms by (auto simp: explains_def execute_append write_all_def)

lemma explains_read_again:
  assumes "explains st t as" and "map_of (writeSet t) k = None" and "map_of (readSet t) k = Some (ts, n)"
    and "vkv_get_at k ts st = Some v"
  shows "explains st (t\<lparr>readSet := smap_put k (ts, n') (readSet t)\<rparr>) (as @ [Saw k v])"
proof -
  have "sees st t m \<and> m k = Some v" if "sees st (t\<lparr>readSet := smap_put k (ts, n') (readSet t)\<rparr>) m" for m
    using sees_put [OF that _ assms(4)] assms(3) by blast
  moreover have "reads_stored st (t\<lparr>readSet := smap_put k (ts, n') (readSet t)\<rparr>)"
    using assms by (auto simp: explains_def reads_stored_def sm.get_put)
  ultimately show ?thesis
    using assms(1,2) by (auto simp: explains_def execute_append write_all_def)
qed

lemma explains_read:
  assumes "explains st t as" and "map_of (writeSet t) k = None" and "map_of (readSet t) k = None"
    and "latest st k = Some (ts, v)"
  shows "explains st (t\<lparr>readSet := smap_put k (ts, n') (readSet t)\<rparr>) (as @ [Saw k v])"
proof -
  have "sees st t m \<and> m k = Some v" if "sees st (t\<lparr>readSet := smap_put k (ts, n') (readSet t)\<rparr>) m" for m
    using sees_put [OF that _ vkv_get_at_latest [OF assms(4)]] assms(3) by blast
  moreover have "reads_stored st (t\<lparr>readSet := smap_put k (ts, n') (readSet t)\<rparr>)"
    using assms vkv_get_at_latest [OF assms(4)] by (auto simp: explains_def reads_stored_def sm.get_put)
  ultimately show ?thesis
    using assms(1,2) by (auto simp: explains_def execute_append write_all_def)
qed

lemma explains_write:
  assumes "explains st t as"
  shows "explains st (t\<lparr>writeSet := smap_put k (vs @ [v]) (writeSet t)\<rparr>) (as @ [Wrote k v])"
  using assms by (auto simp: explains_def execute_append write_all_def sm.get_put sees_def reads_stored_def fun_eq_iff)

text \<open>A commit that writes newer versions changes nothing that a transaction has seen.\<close>

lemma vkv_get_at_put:
  assumes "vkv_put k' v ts' st = Inr (r, st')" and "\<And>t w. latest st k' = Some (t, w) \<Longrightarrow> t < ts'"
    and "latest st k = Some (t0, v0)" and "ts \<le> t0"
  shows "vkv_get_at k ts st' = vkv_get_at k ts st"
proof (cases "k' = k")
  case True
  have "\<not> ts' \<le> ts" using assms(2) [of t0 v0] assms(3,4) True by auto
  moreover obtain l where l: "nstore st k = Some ((t0, v0) # l)"
    using assms(3) by (auto simp: latest_def split: option.splits list.splits)
  ultimately show ?thesis
    using assms(1) assms(2) [of t0 v0] True assms(3) by (auto simp: vkv_put_def vkv_get_at_def)
next
  case False
  then show ?thesis
    using assms(1) by (auto simp: vkv_put_def vkv_get_at_def split: option.splits list.splits if_splits prod.splits)
qed

lemma commit_writes_seen:
  assumes "fold_r (commit_write na ts') ws st = Inr st'" and "vkv_ok st" and "smap_ok ws"
    and "\<And>k vs t w. map_of ws k = Some vs \<Longrightarrow> latest st k = Some (t, w) \<Longrightarrow> t < ts'"
    and "latest st k = Some (t0, v0)" and "ts \<le> t0"
  shows "vkv_get_at k ts st' = vkv_get_at k ts st \<and> (\<exists>t1 v1. latest st' k = Some (t1, v1) \<and> ts \<le> t1)"
  using assms
proof (induction ws arbitrary: st t0 v0)
  case (Cons w ws)
  obtain k' vs where w: "w = (k', vs)" by (cases w)
  have fresh: "map_of ws k' = None" and ok: "smap_ok ws"
    using Cons.prems(3) w by (force simp: smap_ok_def map_of_eq_None_iff)+
  have new: "\<And>t u. latest st k' = Some (t, u) \<Longrightarrow> t < ts'" using Cons.prems(4) [of k' vs] w by simp
  obtain st1 where "commit_write na ts' w st = Inr st1" and rest: "fold_r (commit_write na ts') ws st1 = Inr st'"
    using Cons.prems(1) by (auto simp: bind_r_Inr)
  then obtain v r where v: "vkv_put k' v ts' st = Inr (r, st1)"
    using w by (auto simp: commit_write_def bind_r_Inr assert_r_def split: if_splits)
  have st1: "vkv_ok st1" "latest st1 = (latest st)(k' \<mapsto> (ts', v))"
    using vkv_put_newer [OF Cons.prems(2), of k' ts' v] new v by auto
  obtain t1 v1 where t1: "latest st1 k = Some (t1, v1)" "ts \<le> t1"
    using st1(2) Cons.prems(5,6) new [of t0 v0] by (cases "k = k'") (auto intro: order.trans less_imp_le)
  have "vkv_get_at k ts st1 = vkv_get_at k ts st"
    by (rule vkv_get_at_put [OF v new Cons.prems(5,6)])
  moreover have "vkv_get_at k ts st' = vkv_get_at k ts st1 \<and> (\<exists>t1 v1. latest st' k = Some (t1, v1) \<and> ts \<le> t1)"
  proof (rule Cons.IH [OF rest st1(1) ok _ t1])
    show "t < ts'" if "map_of ws j = Some us" "latest st1 j = Some (t, u)" for j us t u
      using that Cons.prems(4) [of j us t u] w fresh st1(2) by (auto split: if_splits)
  qed
  ultimately show ?case by simp
qed auto

lemma explains_commit:
  assumes "explains st u as" and "fold_r (commit_write na ts) (writeSet t) st = Inr st'" and "vkv_ok st"
    and "smap_ok (writeSet t)" and "newer ts t st"
  shows "explains st' u as"
proof -
  have seen: "vkv_get_at k t1 st' = vkv_get_at k t1 st \<and> (\<exists>t' v. latest st' k = Some (t', v) \<and> t1 \<le> t')"
    if k: "map_of (readSet u) k = Some (t1, n)" for k t1 n
  proof -
    obtain t0 v0 where "latest st k = Some (t0, v0)" "t1 \<le> t0"
      using assms(1) k unfolding explains_def reads_stored_def by blast
    then show ?thesis
      by (rule commit_writes_seen [OF assms(2-4), rotated]) (rule newerD [OF assms(5)])
  qed
  then have "sees st' u m = sees st u m" for m by (auto simp: sees_def)
  moreover have "reads_stored st' u"
    using assms(1) seen unfolding reads_stored_def explains_def by metis
  ultimately show ?thesis using assms(1) by (simp add: explains_def)
qed

end
