(* ===== verification/OCCUndo.thy ===== *)
theory OCCUndo
  imports OCCSerial
begin

text \<open>
  The undo operations of the optimistic store, which speculative execution calls to roll back:
  each gives back the store before the operation it undoes. Two of them leave an empty list
  behind when they undo the first write of a key, on which the next read is undefined.
\<close>

section \<open>Round trips\<close>

lemma put_drop_running [simp]:
  "smap_ok (running s) \<Longrightarrow> map_of (running s) i = Some t \<Longrightarrow> put_running i t (drop_running i s) = s"
  by (simp add: put_running_def drop_running_def smap_put_erase)

lemma put_drop_prepared [simp]:
  "smap_ok (prepared_txns s) \<Longrightarrow> map_of (prepared_txns s) i = Some t \<Longrightarrow> put_prepared i t (drop_prepared i s) = s"
  by (simp add: put_prepared_def drop_prepared_def smap_put_erase)

lemma drop_put_prepared [simp]:
  "smap_ok (prepared_txns s) \<Longrightarrow> map_of (prepared_txns s) i = None \<Longrightarrow> drop_prepared i (put_prepared i t s) = s"
  by (simp add: put_prepared_def drop_prepared_def smap_erase_put)

lemma retired_update:
  "put_running i t (s\<lparr>retired := r\<rparr>) = (put_running i t s)\<lparr>retired := r\<rparr>"
  "drop_running i (s\<lparr>retired := r\<rparr>) = (drop_running i s)\<lparr>retired := r\<rparr>"
  "put_prepared i t (s\<lparr>retired := r\<rparr>) = (put_prepared i t s)\<lparr>retired := r\<rparr>"
  "drop_prepared i (s\<lparr>retired := r\<rparr>) = (drop_prepared i s)\<lparr>retired := r\<rparr>"
  by (simp_all add: put_running_def drop_running_def put_prepared_def drop_prepared_def)

lemma last_retired_snoc: "retired s = rs @ [x] \<Longrightarrow> last_retired s = Inr x"
  by (cases rs) (auto simp: last_retired_def)

lemma retired_undo:
  "retired s = rs @ [(opn, t, st)] \<Longrightarrow> txn_id t = i \<Longrightarrow>
   getRetiredTxn na opn i st s = Inr (t, s\<lparr>retired := rs\<rparr>)"
  by (simp add: getRetiredTxn_def last_retired_snoc)

lemma unpush_retired [simp]: "(push_retired opn t st s)\<lparr>retired := retired s\<rparr> = s"
  by (simp add: push_retired_def)

lemma swap_put_drop [simp]:
  "drop_prepared i (put_running j t s) = put_running j t (drop_prepared i s)"
  "put_prepared i t (drop_running j s) = drop_running j (put_prepared i t s)"
  "drop_prepared i (drop_running j s) = drop_running j (drop_prepared i s)"
  by (simp_all add: put_running_def drop_running_def put_prepared_def drop_prepared_def)

lemma abort_undone:
  assumes ok: "occ_ok s" and run: "abortTxn i opn s = Inr s'"
  shows "occ_unabort na i opn s' = Inr s"
proof (cases "map_of (running s) i")
  case (Some t)
  then have s': "s' = drop_running i (push_retired opn t ABORTED_RUNNING s)" and t: "txn_id t = i"
    and sm: "smap_ok (running s)"
    using run ok by (auto simp: abortTxn_def occ_ok_def txn_ok_def)
  have "put_running i t s' = push_retired opn t ABORTED_RUNNING s"
    using sm Some s' by simp
  then show ?thesis
    using t sm s' Some by (simp add: occ_unabort_def last_retired_snoc sm.get_del)
next
  case None
  with run obtain t where p: "map_of (prepared_txns s) i = Some t"
      and s': "s' = drop_prepared i (push_retired opn t ABORTED_PREPARED s)"
    by (auto simp: abortTxn_def split: option.splits)
  then have t: "txn_id t = i" and sm: "smap_ok (prepared_txns s)"
    using ok by (auto simp: occ_ok_def txn_ok_def)
  have "put_prepared i t s' = push_retired opn t ABORTED_PREPARED s"
    using sm p s' by simp
  then show ?thesis
    using t sm s' p by (simp add: occ_unabort_def last_retired_snoc sm.get_del)
qed

lemma prepare_undone:
  assumes ok: "occ_ok s" and t: "map_of (running s) i = Some t" "map_of (prepared_txns s) i = None"
    and run: "occ_prepare na i opn s = Inr (r, s')"
  shows "occ_unprepare na i opn s' = Inr s"
proof -
  have sm: "smap_ok (running s)" "smap_ok (prepared_txns s)" "txn_id t = i"
    using ok t by (auto simp: occ_ok_def txn_ok_def)
  consider "s' = put_prepared i t (drop_running i s)"
    | "s' = drop_running i (push_retired opn t ABORTED_RUNNING s)"
    using run t by (auto simp: occ_prepare_def abortTxn_def bind_r_Inr split: if_splits)
  then show ?thesis
  proof cases
    case 1
    then show ?thesis using sm t by (simp add: occ_unprepare_def sm.get_put)
  next
    case 2
    then have "put_running i t s' = push_retired opn t ABORTED_RUNNING s" using sm t by simp
    with 2 sm t show ?thesis
      by (simp add: occ_unprepare_def retired_undo retired_update)
  qed
qed

text \<open>A commit over keys that all had a version can be undone.\<close>

lemma commit_writes_effect:
  assumes "vkv_ok st" and "smap_ok ws" and "\<And>k vs. map_of ws k = Some vs \<Longrightarrow> vs \<noteq> []"
    and "\<And>k vs. map_of ws k = Some vs \<Longrightarrow> \<exists>t w. latest st k = Some (t, w) \<and> t < ts"
    and "fold_r (commit_write na ts) ws st = Inr st'"
  shows "nstore st' = (\<lambda>k. case map_of ws k of None \<Rightarrow> nstore st k
    | Some vs \<Rightarrow> Some ((ts, last vs) # the (nstore st k)))"
  using assms
proof (induction ws arbitrary: st)
  case (Cons w ws)
  obtain k vs where w: "w = (k, vs)" by (cases w)
  have fresh: "map_of ws k = None" and ok: "smap_ok ws"
    using Cons.prems(2) w by (force simp: smap_ok_def map_of_eq_None_iff)+
  obtain st1 where c: "commit_write na ts w st = Inr st1" and rest: "fold_r (commit_write na ts) ws st1 = Inr st'"
    using Cons.prems(5) by (auto simp: bind_r_Inr)
  obtain t v l where l: "nstore st k = Some ((t, v) # l)" "t < ts"
    using Cons.prems(4) [of k vs] w by (auto simp: latest_def split: option.splits list.splits)
  have vs: "vs \<noteq> []" using Cons.prems(3) [of k vs] w by simp
  have st1: "nstore st1 = (nstore st)(k \<mapsto> (ts, last vs) # (t, v) # l)"
    using c l w vs by (cases vs) (auto simp: commit_write_def vkv_put_def last_written_def)
  have put: "vkv_put k (last vs) ts st = Inr (True, st1)"
    using c l w vs by (cases vs) (auto simp: commit_write_def vkv_put_def last_written_def)
  have st1_ok: "vkv_ok st1" "latest st1 = (latest st)(k \<mapsto> (ts, last vs))"
    using vkv_put_newer [OF Cons.prems(1), of k ts "last vs"] put l by (auto simp: latest_def)
  have "nstore st' = (\<lambda>k. case map_of ws k of None \<Rightarrow> nstore st1 k
      | Some vs \<Rightarrow> Some ((ts, last vs) # the (nstore st1 k)))"
  proof (rule Cons.IH [OF st1_ok(1) ok _ _ rest])
    show "us \<noteq> []" if "map_of ws j = Some us" for j us
      using that Cons.prems(3) [of j us] w fresh by (cases "j = k") auto
    show "\<exists>t w. latest st1 j = Some (t, w) \<and> t < ts" if "map_of ws j = Some us" for j us
      using that Cons.prems(4) [of j us] w fresh st1_ok(2) by (cases "j = k") auto
  qed
  with fresh st1 l w show ?case by (auto simp: fun_eq_iff split: option.splits)
qed auto

lemma uncommit_writes:
  assumes "smap_ok ws" and "\<And>k vs. map_of ws k = Some vs \<Longrightarrow> vs \<noteq> []"
    and "\<And>k vs. map_of ws k = Some vs \<Longrightarrow> \<exists>l. nstore st k = Some ((ts, last vs) # l)"
  shows "fold_r (uncommit_write na ts) ws st =
    Inr (st\<lparr>nstore := (\<lambda>k. case map_of ws k of None \<Rightarrow> nstore st k | Some vs \<Rightarrow> Some (tl (the (nstore st k))))\<rparr>)"
  using assms
proof (induction ws arbitrary: st)
  case (Cons w ws)
  obtain k vs where w: "w = (k, vs)" by (cases w)
  have fresh: "map_of ws k = None" and ok: "smap_ok ws"
    using Cons.prems(1) w by (force simp: smap_ok_def map_of_eq_None_iff)+
  obtain l where l: "nstore st k = Some ((ts, last vs) # l)" using Cons.prems(3) [of k vs] w by auto
  have vs: "vs \<noteq> []" using Cons.prems(2) [of k vs] w by simp
  let ?st = "st\<lparr>nstore := (nstore st)(k \<mapsto> l)\<rparr>"
  have step: "uncommit_write na ts w st = Inr ?st"
    using l w vs by (cases vs) (auto simp: uncommit_write_def vkv_remove_def last_written_def)
  have "fold_r (uncommit_write na ts) ws ?st =
    Inr (?st\<lparr>nstore := (\<lambda>k. case map_of ws k of None \<Rightarrow> nstore ?st k | Some vs \<Rightarrow> Some (tl (the (nstore ?st k))))\<rparr>)"
  proof (rule Cons.IH [OF ok])
    show "us \<noteq> []" if "map_of ws j = Some us" for j us
      using that Cons.prems(2) [of j us] w fresh by (cases "j = k") auto
    show "\<exists>l. nstore ?st j = Some ((ts, last us) # l)" if "map_of ws j = Some us" for j us
      using that Cons.prems(3) [of j us] w fresh by (cases "j = k") auto
  qed
  moreover have "(\<lambda>k. case map_of ws k of None \<Rightarrow> nstore ?st k | Some vs \<Rightarrow> Some (tl (the (nstore ?st k)))) =
      (\<lambda>k. case map_of (w # ws) k of None \<Rightarrow> nstore st k | Some vs \<Rightarrow> Some (tl (the (nstore st k))))"
    using fresh l w by (auto simp: fun_eq_iff split: option.splits)
  ultimately show ?case by (simp add: step)
qed simp

section \<open>Properties\<close>

text \<open>
  Speculative execution can roll back a prepare: whether the transaction was prepared or
  failed the validation and was aborted, \<open>unprepare\<close> gives back exactly the store before it,
  the read and write sets included.
\<close>

theorem occ_unprepare_prepare:
  assumes "occ_ok s" and "map_of (running s) i = Some t" and "map_of (prepared_txns s) i = None"
    and "occ_prepare na i opn s = Inr (r, s')"
  shows "occ_unprepare na i opn s' = Inr s"
  using assms by (rule prepare_undone)

definition one_put :: OCCStore where
  "one_put = put_running 7 \<lparr>txn_id = 7, readSet = [], writeSet = [(''k'', [''a''])]\<rparr> OCCStore_new"

lemma one_put_ok: "occ_ok one_put"
  unfolding one_put_def
  by (rule occ_ok_put_running [OF occ_ok_new]) (simp_all add: txn_ok_def reads_known_def smap_ok_def)

lemma occ_unprepare_prepare_witness:
  "occ_unprepare False 7 1 (snd (projr (occ_prepare False 7 1 one_put))) = Inr one_put"
proof (rule occ_unprepare_prepare [OF one_put_ok])
  show "map_of (running one_put) 7 = Some \<lparr>txn_id = 7, readSet = [], writeSet = [(''k'', [''a''])]\<rparr>"
    "map_of (prepared_txns one_put) 7 = None"
    by (simp_all add: one_put_def OCCStore_new_def)
  have "\<not> isl (occ_prepare False 7 1 one_put)" by code_simp
  then show "occ_prepare False 7 1 one_put =
      Inr (fst (projr (occ_prepare False 7 1 one_put)), snd (projr (occ_prepare False 7 1 one_put)))"
    by (metis not_isl_result prod.collapse)
qed

text \<open>
  C34. A commit that writes newer versions of keys the store already has can be rolled back:
  \<open>uncommit\<close> gives back exactly the store before the commit, with the transaction prepared.
\<close>

theorem occ_uncommit_commit:
  assumes ok: "occ_ok s" and t: "map_of (prepared_txns s) i = Some t" and new: "newer ts t (occ_store s)"
    and old: "\<forall>k vs. map_of (writeSet t) k = Some vs \<longrightarrow> latest (occ_store s) k \<noteq> None"
  shows "bind_r (occ_commit na i ts opn s) (occ_uncommit na i ts opn) = Inr s"
proof -
  have tok: "txn_ok i t" and vkv: "vkv_ok (occ_store s)" and sm: "smap_ok (prepared_txns s)"
    using ok t by (auto simp: occ_ok_def)
  then have ws: "smap_ok (writeSet t)" "\<And>k vs. map_of (writeSet t) k = Some vs \<Longrightarrow> vs \<noteq> []"
    by (auto simp: txn_ok_def)
  obtain st where st: "fold_r (commit_write na ts) (writeSet t) (occ_store s) = Inr st"
    using commit_writes [where ts = ts and na = na, OF vkv ws(1)] ws(2) newerD [OF new] by meson
  have before: "\<exists>t' w. latest (occ_store s) k = Some (t', w) \<and> t' < ts" if "map_of (writeSet t) k = Some vs" for k vs
    using that old newerD [OF new that] by (cases "latest (occ_store s) k") auto
  have n: "nstore st = (\<lambda>k. case map_of (writeSet t) k of None \<Rightarrow> nstore (occ_store s) k
      | Some vs \<Rightarrow> Some ((ts, last vs) # the (nstore (occ_store s) k)))"
    by (rule commit_writes_effect [OF vkv ws before st])
  have there: "nstore (occ_store s) k \<noteq> None" if "map_of (writeSet t) k = Some vs" for k vs
    using before [OF that] by (auto simp: latest_def split: option.splits)
  have un: "fold_r (uncommit_write na ts) (writeSet t) st =
      Inr (st\<lparr>nstore := (\<lambda>k. case map_of (writeSet t) k of None \<Rightarrow> nstore st k | Some vs \<Rightarrow> Some (tl (the (nstore st k))))\<rparr>)"
    by (rule uncommit_writes [OF ws]) (use n in auto)
  have "(\<lambda>k. case map_of (writeSet t) k of None \<Rightarrow> nstore st k | Some vs \<Rightarrow> Some (tl (the (nstore st k)))) =
      nstore (occ_store s)"
    using there by (force simp: n fun_eq_iff split: option.splits)
  with un have un': "fold_r (uncommit_write na ts) (writeSet t) st = Inr (occ_store s)"
    by (simp add: NiVersionedKVStore.equality)
  let ?s = "push_retired opn t COMMITTED (drop_prepared i (s\<lparr>occ_store := st\<rparr>))"
  have c: "occ_commit na i ts opn s = Inr ?s"
    using t tok st by (simp add: occ_commit_def txn_ok_def)
  have "put_prepared i t ((drop_prepared i (s\<lparr>occ_store := st\<rparr>))\<lparr>retired := retired s, occ_store := occ_store s\<rparr>) = s"
    using sm t by (simp add: put_prepared_def drop_prepared_def smap_put_erase)
  then show ?thesis
    using c un' t tok sm by (simp add: occ_uncommit_def retired_undo txn_ok_def push_retired_def sm.get_del)
qed

definition two_commits :: OCCStore where
  "two_commits = projr (bind_r (occ_put False 7 ''k'' ''a'' OCCStore_new) (\<lambda>(r, s).
     bind_r (occ_prepare False 7 1 s) (\<lambda>(r, s). bind_r (occ_commit False 7 10 2 s) (\<lambda>s.
       bind_r (occ_put False 8 ''k'' ''b'' s) (\<lambda>(r, s). bind_r (occ_prepare False 8 3 s) (\<lambda>(r, s). Inr s))))))"

lemma two_commits_eq:
  "two_commits =
     \<lparr>occ_store = \<lparr>nstore = [''k'' \<mapsto> [(10, ''a'')]]\<rparr>, running = [],
      prepared_txns = [(8, \<lparr>txn_id = 8, readSet = [], writeSet = [(''k'', [''b''])]\<rparr>)],
      retired = [(2, \<lparr>txn_id = 7, readSet = [], writeSet = [(''k'', [''a''])]\<rparr>, COMMITTED)]\<rparr>"
  by (simp add: two_commits_def occ_put_def getTxn_def OCCStore_new_def put_running_def
      OCCTransaction_new_def written_def occ_prepare_def getPreparedWrites_def getPreparedReadWrites_def
      valid_writes_def put_prepared_def drop_running_def occ_commit_def commit_write_def last_written_def
      vkv_put_def NiVersionedKVStore_new_def drop_prepared_def push_retired_def)

lemma two_commits_ok: "occ_ok two_commits"
  by (auto simp: two_commits_eq occ_ok_def vkv_ok_def versions_ok_def smap_ok_def txn_ok_def reads_current_def
      split: if_splits)

lemma occ_uncommit_commit_witness:
  "bind_r (occ_commit False 8 20 4 two_commits) (occ_uncommit False 8 20 4) = Inr two_commits"
proof (rule occ_uncommit_commit [OF two_commits_ok])
  show "map_of (prepared_txns two_commits) 8 = Some \<lparr>txn_id = 8, readSet = [], writeSet = [(''k'', [''b''])]\<rparr>"
    by (simp add: two_commits_eq)
qed (auto simp: two_commits_eq newer_def latest_def split: if_splits)

text \<open>
  Rolling back the first write of a key does not give back the store: \<open>unput\<close> leaves an
  empty list of values in the write set and \<open>uncommit\<close> an empty list of versions in the store.
  The next read of the key, which should find nothing, calls \<open>back()\<close> or \<open>front()\<close> on the empty
  list, which is undefined.
\<close>

theorem undo_of_first_write_breaks_reads:
  "fails (bind_r (occ_put False 1 ''k'' ''a'' OCCStore_new) (\<lambda>(r, s).
      bind_r (occ_unput False 1 ''k'' ''a'' s) (occ_get False 1 ''k''))) Undefined
   \<and> fails (bind_r (occ_put False 1 ''k'' ''a'' OCCStore_new) (\<lambda>(r, s).
      bind_r (occ_prepare False 1 1 s) (\<lambda>(r, s). bind_r (occ_commit False 1 10 2 s) (\<lambda>s.
        bind_r (occ_uncommit False 1 10 2 s) (occ_get False 2 ''k''))))) Undefined"
  by (intro conjI) code_simp+

end
