(* ===== verification/OCCRuns.thy ===== *)
theory OCCRuns
  imports OCCSerial
begin

text \<open>
  Runs of the optimistic store: every operation keeps the store well formed and keeps what
  the clients have observed explained by the read and write sets, so the committed
  transactions of a run are serializable in commit order. A read of a key that is not
  stored is not recorded, and is the one thing the validation misses.
\<close>

section \<open>The invariant of a run\<close>

fun matched :: "NiVersionedKVStore \<Rightarrow> OCCTransaction option \<Rightarrow> action list \<Rightarrow> bool" where
  "matched st None as = (as = [])"
| "matched st (Some t) as = explains st t as"

definition told :: "OCCStore \<Rightarrow> observed \<Rightarrow> bool" where
  "told s g \<longleftrightarrow>
     (\<forall>i. matched (occ_store s) (map_of (running s) i) (acting g i)) \<and>
     (\<forall>i t. map_of (prepared_txns s) i = Some t \<longrightarrow> explains (occ_store s) t (ready g i)) \<and>
     serial (committed g) Map.empty = Some (current (occ_store s))"

lemma told_new: "told OCCStore_new observed_new"
  by (simp add: told_def OCCStore_new_def observed_new_def fun_eq_iff current_def)

lemma told_running:
  "told s g \<Longrightarrow> map_of (running s) i = Some t \<Longrightarrow> explains (occ_store s) t (acting g i)"
  by (metis told_def matched.simps(2))

lemma told_idle: "told s g \<Longrightarrow> map_of (running s) i = None \<Longrightarrow> acting g i = []"
  by (metis told_def matched.simps(1))

lemma told_put_running:
  "told s g \<Longrightarrow> explains (occ_store s) t as \<Longrightarrow>
   told (put_running i t s) (g\<lparr>acting := (acting g)(i := as)\<rparr>)"
  by (auto simp: told_def sm.get_put)

lemma told_drop_running:
  "told s g \<Longrightarrow> smap_ok (running s) \<Longrightarrow>
   told (drop_running i s) (g\<lparr>acting := (acting g)(i := [])\<rparr>)"
  by (auto simp: told_def sm.get_del)

lemma told_retired [simp]: "told (push_retired opn t st s) g = told s g"
  by (simp add: told_def push_retired_def)

lemma told_serial: "told s g \<Longrightarrow> serial (committed g) Map.empty = Some (current (occ_store s))"
  by (simp add: told_def)

section \<open>Each call keeps it\<close>

text \<open>\<open>getTxn\<close> gives the transaction that explains the client's actions.\<close>

lemma told_getTxn:
  assumes "told s g"
  shows "post (getTxn na i s) (\<lambda>(t, u). told u g \<and> explains (occ_store u) t (acting g i))"
proof (cases "map_of (running s) i")
  case None
  with told_idle [OF assms] have "acting g i = []" by blast
  then show ?thesis
    using None told_put_running [OF assms explains_new, of i i] by (simp add: getTxn_def fun_upd_idem)
next
  case (Some t)
  then show ?thesis
    using assms told_running [OF assms Some] by (simp add: getTxn_def wp)
qed

lemma told_put:
  assumes "told s g"
  shows "post (occ_put na i key v s) (\<lambda>(r, u). told u (observe (Put i key v) r None g))"
  unfolding occ_put_def
  by (rule post_bindI [OF told_getTxn [OF assms]]) (auto simp: observe_def act_def intro!: told_put_running explains_write)

lemma told_read_in_txn:
  assumes u: "told u g" "explains (occ_store u) t (acting g i)" "occ_ok u" "txn_ok i t" "map_of (running u) i = Some t"
  shows "post (read_in_txn na i key t u) (\<lambda>(r, v, w). told w (observe (Get i key) r v g))"
proof -
  have own: "last_written ws = Inr (last ws)" if "map_of (writeSet t) key = Some ws" for ws
    using u(4) that by (cases ws) (auto simp: txn_ok_def last_written_def)
  have get: "vkv_get key (occ_store u) = Inr (latest (occ_store u) key)"
    using u(3) by (intro vkv_get_ok) (simp add: occ_ok_def)
  have again: "\<exists>v. vkv_get_at key ts (occ_store u) = Some v" if "map_of (readSet t) key = Some (ts, n)" for ts n
    using u(2) that unfolding explains_def reads_stored_def by blast
  have same: "told u (g\<lparr>acting := (acting g)(i := acting g i @ [Saw key x])\<rparr>)"
    if "explains (occ_store u) t (acting g i @ [Saw key x])" for x
    using u(1,5) that by (auto simp: told_def)
  show ?thesis
  proof (cases "map_of (writeSet t) key")
    case (Some ws)
    then show ?thesis
      using own same explains_own_read [OF u(2)] by (simp add: read_in_txn_def observe_def act_def)
  next
    case ws: None
    show ?thesis
    proof (cases "map_of (readSet t) key")
      case (Some r)
      obtain ts n where r: "r = (ts, n)" by (cases r)
      with Some again obtain v where "vkv_get_at key ts (occ_store u) = Some v" by blast
      with Some r ws show ?thesis
        using told_put_running [OF u(1) explains_read_again [OF u(2) ws]]
        by (simp add: read_in_txn_def observe_def act_def Let_def)
    next
      case None
      with ws get show ?thesis
        using told_put_running [OF u(1) explains_read [OF u(2) ws None]] u(1)
        by (auto simp: read_in_txn_def observe_def act_def post_option)
    qed
  qed
qed

lemma told_get:
  assumes "occ_ok s" and "told s g"
  shows "post (occ_get na i key s) (\<lambda>(r, v, u). told u (observe (Get i key) r v g))"
  unfolding occ_get_def
  by (rule post_bindI [OF post_conj [THEN iffD2, OF conjI [OF told_getTxn [OF assms(2)] post_getTxn [OF assms(1)]]]])
    (auto intro!: told_read_in_txn)

lemma told_begin: "told s g \<Longrightarrow> told (occ_begin i s) (observe (Begin i) r v g)"
  by (simp add: occ_begin_def observe_def act_def told_put_running)

lemma told_drop_prepared: "told s g \<Longrightarrow> smap_ok (prepared_txns s) \<Longrightarrow> told (drop_prepared i s) g"
  by (auto simp: told_def sm.get_del)

lemma told_abort:
  assumes ok: "occ_ok s" and told: "told s g"
  shows "post (abortTxn i opn s) (\<lambda>u. told u (observe (Abort i opn) r v g))"
proof (cases "map_of (running s) i")
  case None
  with told_idle [OF told None] ok told show ?thesis
    by (auto simp: abortTxn_def observe_def act_def fun_upd_idem post_option occ_ok_def told_drop_prepared)
next
  case (Some t)
  with ok told show ?thesis
    by (auto simp: abortTxn_def observe_def act_def occ_ok_def told_drop_running)
qed

lemma told_prepare:
  assumes ok: "occ_ok s" and told: "told s g"
  shows "post (occ_prepare na i opn s) (\<lambda>(r, u). told u (observe (Prepare i opn) r None g))"
proof (cases "map_of (running s) i")
  case None
  with told told_idle [OF told None] show ?thesis
    by (simp add: occ_prepare_def observe_def act_def fun_upd_idem)
next
  case (Some t)
  have sm: "smap_ok (running s)" using ok by (simp add: occ_ok_def)
  have moved: "told (put_prepared i t (drop_running i s))
      (g\<lparr>ready := (ready g)(i := acting g i), acting := (acting g)(i := [])\<rparr>)"
    using told told_running [OF told Some] sm by (auto simp: told_def sm.get_put sm.get_del)
  have "abortTxn i opn s = Inr (drop_running i (push_retired opn t ABORTED_RUNNING s))"
    using Some by (simp add: abortTxn_def)
  with Some moved told_drop_running [of "push_retired opn t ABORTED_RUNNING s" g i] told sm show ?thesis
    by (auto simp: occ_prepare_def observe_def act_def wp)
qed

lemma told_commit:
  assumes ok: "occ_ok s" and told: "told s g"
    and t: "map_of (prepared_txns s) i = Some t" and new: "newer ts t (occ_store s)"
  shows "post (occ_commit na i ts opn s) (\<lambda>u. occ_ok u \<and> told u (observe (Commit i ts opn) 0 None g))"
proof -
  have tok: "txn_ok i t" and vkv: "vkv_ok (occ_store s)" using ok t by (auto simp: occ_ok_def)
  obtain s' where s': "occ_commit na i ts opn s = Inr s'" "occ_ok s'"
      "current (occ_store s') = write_all (writeSet t) (current (occ_store s))"
      "prepared_txns s' = smap_erase i (prepared_txns s)" "running s' = running s"
    using occ_commit_ok [OF ok t new] by blast
  have writes: "fold_r (commit_write na ts) (writeSet t) (occ_store s) = Inr (occ_store s')"
    using s'(1) t tok by (auto simp: occ_commit_def txn_ok_def bind_r_Inr)
  have kept: "explains (occ_store s') u as" if "explains (occ_store s) u as" for u as
    using that writes vkv _ new by (rule explains_commit) (use tok in \<open>simp add: txn_ok_def\<close>)
  have seen: "sees (occ_store s) t (current (occ_store s))"
    using ok t unfolding sees_def current_def
    by (fastforce simp: occ_ok_def reads_current_def dest: vkv_get_at_latest)
  have "execute (ready g i) (current (occ_store s)) = Some (current (occ_store s'))"
    using told t seen s'(3) by (simp add: told_def explains_def)
  moreover have "matched (occ_store s') (map_of (running s) j) (acting g j)" for j
    using told kept by (cases "map_of (running s) j") (auto simp: told_def dest: spec [of _ j])
  moreover have "explains (occ_store s') u (ready g j)" if "map_of (prepared_txns s') j = Some u" for j u
    using that told kept ok s'(4) by (auto simp: told_def occ_ok_def sm.get_del split: if_splits)
  ultimately have "told s' (observe (Commit i ts opn) 0 None g)"
    using told s'(5) by (simp add: told_def observe_def act_def serial_append)
  with s' show ?thesis by simp
qed

section \<open>Serializability\<close>

lemma told_step:
  assumes "occ_ok s" and "told s g" and "occ_fits c s"
  shows "post (occ_call_step na c s) (\<lambda>(r, v, u). occ_ok u \<and> told u (observe c r v g))"
proof (cases c)
  case (Begin i)
  with assms told_begin [OF assms(2), of i 0 None] show ?thesis
    by (simp add: occ_call_step_def occ_begin_def occ_ok_put_running)
next
  case (Get i key)
  have "post (occ_get na i key s) (\<lambda>(r, v, u). occ_ok u)"
    by (rule post_mono [OF post_occ_get [OF assms(1)]]) auto
  with Get told_get [OF assms(1,2), of na i key] show ?thesis
    by (cases "occ_get na i key s") (auto simp: occ_call_step_def)
next
  case (Put i key v)
  have "post (occ_put na i key v s) (\<lambda>(r, u). occ_ok u)"
    by (rule post_mono [OF post_occ_put [OF assms(1)]]) auto
  with Put told_put [OF assms(2), of na i key v] show ?thesis
    by (cases "occ_put na i key v s") (auto simp: occ_call_step_def)
next
  case (Prepare i opn)
  have "post (occ_prepare na i opn s) (\<lambda>(r, u). occ_ok u)"
    by (rule post_mono [OF post_occ_prepare [OF assms(1)]]) auto
  with Prepare told_prepare [OF assms(1,2), of na i opn] show ?thesis
    by (cases "occ_prepare na i opn s") (auto simp: occ_call_step_def)
next
  case (Commit i ts opn)
  with assms(3) obtain t where "map_of (prepared_txns s) i = Some t" "newer ts t (occ_store s)"
    by (auto simp: occ_fits_def split: option.splits)
  from told_commit [OF assms(1,2) this, of na opn] Commit show ?thesis
    by (cases "occ_commit na i ts opn s") (auto simp: occ_call_step_def)
next
  case (Abort i opn)
  have "post (abortTxn i opn s) (\<lambda>u. occ_ok u)"
    by (rule post_mono [OF post_abortTxn [OF assms(1)]]) auto
  with Abort told_abort [OF assms(1,2), of i opn 0 None] show ?thesis
    by (cases "abortTxn i opn s") (auto simp: occ_call_step_def)
qed

definition occ_inv :: "OCCStore \<Rightarrow> observed \<Rightarrow> bool" where
  "occ_inv s g \<longleftrightarrow> occ_ok s \<and> told s g"

interpretation occ: serial_store "occ_call_step na" OCCStore_new "\<lambda>s. current (occ_store s)" occ_fits occ_inv
  by unfold_locales (auto simp: occ_inv_def occ_ok_new told_new told_serial intro: told_step)


definition occ_example :: "txn_call list" where
  "occ_example =
     [Begin 1, Put 1 ''x'' ''1'', Prepare 1 1, Commit 1 10 2,
      Begin 2, Get 2 ''x'', Begin 3, Get 3 ''x'', Put 2 ''x'' ''2'', Put 3 ''x'' ''3'',
      Prepare 2 3, Prepare 3 4, Commit 2 20 5]"


text \<open>
  A read of a key that has no value is not validated, as \<open>get\<close> enters nothing into the read
  set when it returns -1: a transaction that finds \<open>a\<close> missing and writes \<open>b\<close> and one that
  finds \<open>b\<close> missing and writes \<open>a\<close> both prepare and commit when they are interleaved, although
  in either serial order the second one reads the other's value.
\<close>

theorem missing_read_not_validated:
  "txn_replies (occ_call_step False)
     [Begin 1, Get 1 ''a'', Put 1 ''b'' ''1'', Begin 2, Get 2 ''b'', Put 2 ''a'' ''2'',
      Prepare 1 1, Prepare 2 2, Commit 1 10 3, Commit 2 20 4] OCCStore_new =
   Inr [(0, None), (-1, None), (0, None), (0, None), (-1, None), (0, None), (0, None), (0, None), (0, None), (0, None)]
   \<and> txn_replies (occ_call_step False)
     [Begin 1, Get 1 ''a'', Put 1 ''b'' ''1'', Prepare 1 1, Commit 1 10 3,
      Begin 2, Get 2 ''b'', Put 2 ''a'' ''2'', Prepare 2 2, Commit 2 20 4] OCCStore_new =
   Inr [(0, None), (-1, None), (0, None), (0, None), (0, None), (0, None), (0, Some ''1''), (0, None), (0, None), (0, None)]
   \<and> txn_replies (occ_call_step False)
     [Begin 2, Get 2 ''b'', Put 2 ''a'' ''2'', Prepare 2 2, Commit 2 20 4,
      Begin 1, Get 1 ''a'', Put 1 ''b'' ''1'', Prepare 1 1, Commit 1 30 3] OCCStore_new =
   Inr [(0, None), (-1, None), (0, None), (0, None), (0, None), (0, None), (0, Some ''2''), (0, None), (0, None), (0, None)]"
  by (intro conjI) code_simp+

end
