(* ===== verification/NiLockServer.thy ===== *)
theory NiLockServer
  imports Prelude
begin

text \<open>
  The lock server of \<open>src/nistore/lockserver.cc\<close> and \<open>lockserver.h\<close>: a multi-reader, single-writer
  lock per key, with a queue in which a waiter keeps its place for \<open>LOCK_WAIT_TIMEOUT\<close>
  microseconds. \<open>gettimeofday\<close> is a clock: reading number \<open>n\<close> of the run gives \<open>clock n\<close>, and the
  server's state counts the readings. A waiter that the map does not hold has an uninitialised
  time; to read it is undefined.
\<close>

section \<open>State\<close>

record timeval =
  tv_sec :: int
  tv_usec :: int

record ni_lock_env =
  ni_nassert :: bool
  clock :: "nat \<Rightarrow> timeval"

datatype NiLockState = NI_UNLOCKED | NI_LOCKED_FOR_READ | NI_LOCKED_FOR_WRITE | NI_LOCKED_FOR_READ_WRITE

record NiWaiter =
  nw_write :: bool
  nw_waitTime :: timeval

record NiLock =
  nl_state :: NiLockState
  nl_holders :: "u64 set"
  nl_waitQ :: "u64 list"
  nl_waiters :: "u64 \<rightharpoonup> NiWaiter"

definition new_NiLock :: NiLock where
  "new_NiLock = \<lparr>nl_state = NI_UNLOCKED, nl_holders = {}, nl_waitQ = [], nl_waiters = Map.empty\<rparr>"

record NiLockServer =
  ni_locks :: "bytes \<rightharpoonup> NiLock"
  ni_readers :: u64
  ni_writers :: u64
  ni_ticks :: nat

definition NiLockServer_new :: NiLockServer where
  "NiLockServer_new = \<lparr>ni_locks = Map.empty, ni_readers = 0, ni_writers = 0, ni_ticks = 0\<rparr>"

text \<open>\<open>locks[lock]\<close>, default-constructed if absent, and writing through that reference.\<close>

definition ni_lock_at :: "NiLockServer \<Rightarrow> bytes \<Rightarrow> NiLock" where
  "ni_lock_at s name = (case ni_locks s name of None \<Rightarrow> new_NiLock | Some l \<Rightarrow> l)"

definition ni_put :: "bytes \<Rightarrow> NiLock \<Rightarrow> nat \<Rightarrow> NiLockServer \<Rightarrow> NiLockServer" where
  "ni_put name l n s = s\<lparr>ni_locks := (ni_locks s)(name \<mapsto> l), ni_ticks := n\<rparr>"

section \<open>Waiting\<close>

definition LOCK_WAIT_TIMEOUT :: int where
  "LOCK_WAIT_TIMEOUT = 5000"

definition checkTimeout :: "bool \<Rightarrow> timeval \<Rightarrow> NiWaiter \<Rightarrow> bool result" where
  "checkTimeout na now w =
     (if tv_sec now > tv_sec (nw_waitTime w) then Inr True
      else assert_r na (tv_usec now > tv_usec (nw_waitTime w) \<and> tv_sec now = tv_sec (nw_waitTime w))
        (Inr (tv_usec now - tv_usec (nw_waitTime w) > LOCK_WAIT_TIMEOUT)))"

text \<open>The new waiter reads the clock; \<open>n\<close> counts the readings.\<close>

definition ni_waitForLock :: "ni_lock_env \<Rightarrow> u64 \<Rightarrow> bool \<Rightarrow> NiLock \<Rightarrow> nat \<Rightarrow> NiLock \<times> nat" where
  "ni_waitForLock c requester wr l n =
     (case nl_waiters l requester of
        Some w \<Rightarrow> (l, n)
      | None \<Rightarrow>
          (l\<lparr>nl_waiters := (nl_waiters l)(requester \<mapsto> \<lparr>nw_write = wr, nw_waitTime = clock c n\<rparr>),
             nl_waitQ := nl_waitQ l @ [requester]\<rparr>, n + 1))"

text \<open>The loop that prunes old requests out of a queue that is not empty.\<close>

fun ni_prune :: "bool \<Rightarrow> timeval \<Rightarrow> u64 list \<Rightarrow> (u64 \<rightharpoonup> NiWaiter) \<Rightarrow> (u64 list \<times> (u64 \<rightharpoonup> NiWaiter)) result" where
  "ni_prune na now [] ws = Inr ([], ws)"
| "ni_prune na now (w # q) ws =
     deref_r (ws w) (\<lambda>e.
       bind_r (checkTimeout na now e) (\<lambda>old.
         if \<not> old then Inr (w # q, ws)
         else if q = [] then Inr ([], ws(w := None))
         else assert_r na ((ws(w := None)) (hd q) \<noteq> None) (ni_prune na now q (ws(w := None)))))"

definition ni_tryAcquireLock ::
  "ni_lock_env \<Rightarrow> u64 \<Rightarrow> bool \<Rightarrow> NiLock \<Rightarrow> nat \<Rightarrow> (bool \<times> NiLock \<times> nat) result" where
  "ni_tryAcquireLock c requester wr l n =
     (if nl_waitQ l = [] then Inr (True, l, n)
      else bind_r (ni_prune (ni_nassert c) (clock c n) (nl_waitQ l) (nl_waiters l)) (\<lambda>(q, ws).
        let l' = l\<lparr>nl_waitQ := q, nl_waiters := ws\<rparr>
        in if q = [] then Inr (True, l', n + 1)
           else if hd q = requester then
             assert_r (ni_nassert c) (ws requester \<noteq> None)
               (assert_r (ni_nassert c) (map_option nw_write (ws requester) = Some wr)
                 (Inr (True, l\<lparr>nl_waitQ := tl q, nl_waiters := ws(requester := None)\<rparr>, n + 1)))
           else
             (case ni_waitForLock c requester wr l' (n + 1) of (l'', n') \<Rightarrow> Inr (False, l'', n'))))"

definition ni_isWriteNext :: "ni_lock_env \<Rightarrow> NiLock \<Rightarrow> nat \<Rightarrow> (bool \<times> NiLock \<times> nat) result" where
  "ni_isWriteNext c l n =
     (if nl_waitQ l = [] then Inr (False, l, n)
      else bind_r (ni_prune (ni_nassert c) (clock c n) (nl_waitQ l) (nl_waiters l)) (\<lambda>(q, ws).
        let l' = l\<lparr>nl_waitQ := q, nl_waiters := ws\<rparr>
        in if q = [] then Inr (False, l', n + 1)
           else assert_r (ni_nassert c) (ws (hd q) \<noteq> None)
             (deref_r (ws (hd q)) (\<lambda>e. Inr (nw_write e, l', n + 1)))))"

section \<open>Locking and releasing\<close>

definition ni_wait :: "ni_lock_env \<Rightarrow> bytes \<Rightarrow> u64 \<Rightarrow> bool \<Rightarrow> NiLock \<Rightarrow> nat \<Rightarrow> NiLockServer \<Rightarrow> bool \<times> NiLockServer" where
  "ni_wait c name requester wr l n s = (case ni_waitForLock c requester wr l n of (l', n') \<Rightarrow> (False, ni_put name l' n' s))"

definition ni_lockForRead :: "ni_lock_env \<Rightarrow> bytes \<Rightarrow> u64 \<Rightarrow> NiLockServer \<Rightarrow> (bool \<times> NiLockServer) result" where
  "ni_lockForRead c name requester s =
     (let l = ni_lock_at s name; n = ni_ticks s
      in case nl_state l of
           NI_UNLOCKED \<Rightarrow>
             bind_r (ni_tryAcquireLock c requester False l n) (\<lambda>(got, l1, n1).
               if got then
                 assert_r (ni_nassert c) (card (nl_holders l1) = 0)
                   (Inr (True, (ni_put name
                      (l1\<lparr>nl_state := NI_LOCKED_FOR_READ, nl_holders := insert requester (nl_holders l1)\<rparr>) n1 s)
                      \<lparr>ni_readers := ni_readers s + 1\<rparr>))
               else Inr (False, ni_put name l1 n1 s))
         | NI_LOCKED_FOR_READ \<Rightarrow>
             if requester \<in> nl_holders l then Inr (True, ni_put name l n s)
             else bind_r (ni_isWriteNext c l n) (\<lambda>(wnext, l1, n1).
               if wnext then Inr (ni_wait c name requester False l1 n1 s)
               else Inr (True, (ni_put name (l1\<lparr>nl_holders := insert requester (nl_holders l1)\<rparr>) n1 s)
                      \<lparr>ni_readers := ni_readers s + 1\<rparr>))
         | _ \<Rightarrow>
             if requester \<in> nl_holders l then
               Inr (True, (ni_put name (l\<lparr>nl_state := NI_LOCKED_FOR_READ_WRITE\<rparr>) n s)\<lparr>ni_readers := ni_readers s + 1\<rparr>)
             else assert_r (ni_nassert c) (card (nl_holders l) = 1)
               (Inr (ni_wait c name requester False l n s)))"

definition ni_lockForWrite :: "ni_lock_env \<Rightarrow> bytes \<Rightarrow> u64 \<Rightarrow> NiLockServer \<Rightarrow> (bool \<times> NiLockServer) result" where
  "ni_lockForWrite c name requester s =
     (let l = ni_lock_at s name; n = ni_ticks s
      in case nl_state l of
           NI_UNLOCKED \<Rightarrow>
             bind_r (ni_tryAcquireLock c requester True l n) (\<lambda>(got, l1, n1).
               if got then
                 assert_r (ni_nassert c) (card (nl_holders l1) = 0)
                   (Inr (True, (ni_put name
                      (l1\<lparr>nl_state := NI_LOCKED_FOR_WRITE, nl_holders := insert requester (nl_holders l1)\<rparr>) n1 s)
                      \<lparr>ni_writers := ni_writers s + 1\<rparr>))
               else Inr (False, ni_put name l1 n1 s))
         | NI_LOCKED_FOR_READ \<Rightarrow>
             if card (nl_holders l) = 1 \<and> requester \<in> nl_holders l then
               Inr (True, (ni_put name (l\<lparr>nl_state := NI_LOCKED_FOR_READ_WRITE\<rparr>) n s)\<lparr>ni_writers := ni_writers s + 1\<rparr>)
             else Inr (ni_wait c name requester True l n s)
         | _ \<Rightarrow>
             assert_r (ni_nassert c) (card (nl_holders l) = 1)
               (if requester \<in> nl_holders l then Inr (True, ni_put name l n s)
                else Inr (ni_wait c name requester True l n s)))"

definition ni_releaseForRead :: "bytes \<Rightarrow> u64 \<Rightarrow> NiLockServer \<Rightarrow> NiLockServer" where
  "ni_releaseForRead name holder s =
     (case ni_locks s name of
        None \<Rightarrow> s
      | Some l \<Rightarrow>
          if holder \<notin> nl_holders l then s
          else
            (case nl_state l of
               NI_LOCKED_FOR_READ \<Rightarrow>
                 let hs = nl_holders l - {holder}
                 in (ni_put name (l\<lparr>nl_holders := hs, nl_state := (if hs = {} then NI_UNLOCKED else nl_state l)\<rparr>)
                      (ni_ticks s) s)\<lparr>ni_readers := ni_readers s - 1\<rparr>
             | NI_LOCKED_FOR_READ_WRITE \<Rightarrow>
                 (ni_put name (l\<lparr>nl_state := NI_LOCKED_FOR_WRITE\<rparr>) (ni_ticks s) s)\<lparr>ni_readers := ni_readers s - 1\<rparr>
             | _ \<Rightarrow> s))"

definition ni_releaseForWrite :: "bool \<Rightarrow> bytes \<Rightarrow> u64 \<Rightarrow> NiLockServer \<Rightarrow> NiLockServer result" where
  "ni_releaseForWrite na name holder s =
     (case ni_locks s name of
        None \<Rightarrow> Inr s
      | Some l \<Rightarrow>
          if holder \<notin> nl_holders l then Inr s
          else
            (case nl_state l of
               NI_LOCKED_FOR_WRITE \<Rightarrow>
                 let hs = nl_holders l - {holder}
                 in assert_r na (card hs = 0)
                      (Inr ((ni_put name (l\<lparr>nl_holders := hs, nl_state := NI_UNLOCKED\<rparr>) (ni_ticks s) s)
                        \<lparr>ni_writers := ni_writers s - 1\<rparr>))
             | NI_LOCKED_FOR_READ_WRITE \<Rightarrow>
                 assert_r na (card (nl_holders l) = 1)
                   (Inr ((ni_put name (l\<lparr>nl_state := NI_LOCKED_FOR_READ\<rparr>) (ni_ticks s) s)
                     \<lparr>ni_writers := ni_writers s - 1\<rparr>))
             | _ \<Rightarrow> Inr s))"

section \<open>The invariant\<close>

fun ni_state_ok :: "NiLockState \<Rightarrow> u64 set \<Rightarrow> bool" where
  "ni_state_ok NI_UNLOCKED hs = (hs = {})"
| "ni_state_ok NI_LOCKED_FOR_READ hs = (hs \<noteq> {})"
| "ni_state_ok NI_LOCKED_FOR_WRITE hs = (card hs = 1)"
| "ni_state_ok NI_LOCKED_FOR_READ_WRITE hs = (card hs = 1)"

definition ni_lock_ok :: "NiLock \<Rightarrow> bool" where
  "ni_lock_ok l \<longleftrightarrow>
     finite (nl_holders l) \<and> distinct (nl_waitQ l) \<and> set (nl_waitQ l) = dom (nl_waiters l) \<and>
     ni_state_ok (nl_state l) (nl_holders l)"

definition ni_ok :: "NiLockServer \<Rightarrow> bool" where
  "ni_ok s \<longleftrightarrow> (\<forall>name l. ni_locks s name = Some l \<longrightarrow> ni_lock_ok l)"

definition holds_read :: "u64 \<Rightarrow> bytes \<Rightarrow> NiLockServer \<Rightarrow> bool" where
  "holds_read r name s \<longleftrightarrow> r \<in> nl_holders (ni_lock_at s name)"

definition holds_write :: "u64 \<Rightarrow> bytes \<Rightarrow> NiLockServer \<Rightarrow> bool" where
  "holds_write r name s \<longleftrightarrow> r \<in> nl_holders (ni_lock_at s name) \<and>
     nl_state (ni_lock_at s name) \<in> {NI_LOCKED_FOR_WRITE, NI_LOCKED_FOR_READ_WRITE}"

text \<open>Nobody but \<open>h\<close> loses a lock from \<open>s\<close> to \<open>s'\<close>.\<close>

definition keeps_locks :: "u64 set \<Rightarrow> NiLockServer \<Rightarrow> NiLockServer \<Rightarrow> bool" where
  "keeps_locks H s s' \<longleftrightarrow> (\<forall>r name. r \<notin> H \<longrightarrow>
     (holds_read r name s \<longrightarrow> holds_read r name s') \<and> (holds_write r name s \<longrightarrow> holds_write r name s'))"

lemma keeps_refl [simp]: "keeps_locks H s s"
  by (simp add: keeps_locks_def)

lemma keeps_trans: "keeps_locks H s t \<Longrightarrow> keeps_locks H t u \<Longrightarrow> keeps_locks H s u"
  by (simp add: keeps_locks_def)

lemma ni_ok_new [simp]: "ni_ok NiLockServer_new"
  by (simp add: ni_ok_def NiLockServer_new_def)

lemma ni_lock_at_put [simp]:
  "ni_lock_at (ni_put name l n s) name' = (if name' = name then l else ni_lock_at s name')"
  "ni_lock_at (s\<lparr>ni_readers := x\<rparr>) name' = ni_lock_at s name'"
  "ni_lock_at (s\<lparr>ni_writers := x\<rparr>) name' = ni_lock_at s name'"
  by (simp_all add: ni_lock_at_def ni_put_def)

lemma ni_ok_put: "ni_ok s \<Longrightarrow> ni_lock_ok l \<Longrightarrow> ni_ok (ni_put name l n s)"
  by (simp add: ni_ok_def ni_put_def)

lemma ni_ok_counters [simp]:
  "ni_ok (s\<lparr>ni_readers := x\<rparr>) = ni_ok s" "ni_ok (s\<lparr>ni_writers := x\<rparr>) = ni_ok s"
  by (simp_all add: ni_ok_def)

lemma ni_lock_ok_at: "ni_ok s \<Longrightarrow> ni_lock_ok (ni_lock_at s name)"
  by (auto simp: ni_ok_def ni_lock_at_def ni_lock_ok_def new_NiLock_def split: option.split)

lemma ni_locks_at: "ni_locks s name = Some l \<Longrightarrow> ni_lock_at s name = l"
  by (simp add: ni_lock_at_def)

text \<open>A write lock excludes every other holder.\<close>

lemma write_excludes:
  assumes "ni_ok s" and "holds_write r name s" and "holds_read r' name s"
  shows "r' = r"
proof -
  have "card (nl_holders (ni_lock_at s name)) = 1"
    using ni_lock_ok_at [OF assms(1), of name] assms(2) by (auto simp: ni_lock_ok_def holds_write_def)
  then show ?thesis using assms(2,3) by (auto simp: holds_write_def holds_read_def card_1_singleton_iff)
qed

section \<open>Each operation keeps it\<close>

lemma ni_waitForLock_ok:
  assumes "ni_lock_ok l"
  shows "ni_lock_ok (fst (ni_waitForLock c r wr l n))"
    and "nl_holders (fst (ni_waitForLock c r wr l n)) = nl_holders l"
    and "nl_state (fst (ni_waitForLock c r wr l n)) = nl_state l"
proof -
  have "r \<notin> set (nl_waitQ l)" if "nl_waiters l r = None"
    using assms that by (auto simp: ni_lock_ok_def)
  then show "ni_lock_ok (fst (ni_waitForLock c r wr l n))"
    using assms by (cases "nl_waiters l r") (auto simp: ni_waitForLock_def ni_lock_ok_def)
qed (simp_all add: ni_waitForLock_def split: option.split)

lemma ni_prune_ok:
  "distinct q \<Longrightarrow> set q = dom ws \<Longrightarrow>
   post (ni_prune na now q ws) (\<lambda>(q', ws'). distinct q' \<and> set q' = dom ws')"
proof (induction q arbitrary: ws)
  case (Cons w q)
  have "distinct q" "set q = dom (ws(w := None))" using Cons.prems by auto
  from Cons.IH [OF this] Cons.prems this show ?case
    by (cases "ws w"; cases "checkTimeout na now (the (ws w))") (auto simp: wp fun_upd_def)
qed simp

lemma ni_try_ok:
  assumes ok: "ni_lock_ok l"
  shows "post (ni_tryAcquireLock c r wr l n) (\<lambda>(got, l', n'). ni_lock_ok l' \<and>
    nl_holders l' = nl_holders l \<and> nl_state l' = nl_state l)"
proof (cases "nl_waitQ l = []")
  case True
  with ok show ?thesis by (simp add: ni_tryAcquireLock_def)
next
  case False
  have p: "post (ni_prune (ni_nassert c) (clock c n) (nl_waitQ l) (nl_waiters l)) (\<lambda>(q', ws'). distinct q' \<and> set q' = dom ws')"
    using ok by (intro ni_prune_ok) (auto simp: ni_lock_ok_def)
  have l1: "ni_lock_ok (l\<lparr>nl_waitQ := q, nl_waiters := ws\<rparr>)" if "distinct q" "set q = dom ws" for q ws
    using ok that by (simp add: ni_lock_ok_def)
  have l2: "ni_lock_ok (l\<lparr>nl_waitQ := tl q, nl_waiters := ws(hd q := None)\<rparr>)" if "distinct q" "set q = dom ws" "q \<noteq> []" for q ws
    using l1 [of "tl q" "ws(hd q := None)"] that by (cases q) auto
  show ?thesis
    using False p l1 l2 ni_waitForLock_ok [OF l1, of _ _ c r wr "n + 1"]
    by (cases "ni_prune (ni_nassert c) (clock c n) (nl_waitQ l) (nl_waiters l)")
      (auto simp: ni_tryAcquireLock_def Let_def wp case_prod_beta)
qed

lemma ni_isWriteNext_ok:
  assumes ok: "ni_lock_ok l"
  shows "post (ni_isWriteNext c l n) (\<lambda>(w, l', n'). ni_lock_ok l' \<and>
    nl_holders l' = nl_holders l \<and> nl_state l' = nl_state l)"
proof (cases "nl_waitQ l = []")
  case True
  with ok show ?thesis by (simp add: ni_isWriteNext_def)
next
  case False
  have p: "post (ni_prune (ni_nassert c) (clock c n) (nl_waitQ l) (nl_waiters l)) (\<lambda>(q', ws'). distinct q' \<and> set q' = dom ws')"
    using ok by (intro ni_prune_ok) (auto simp: ni_lock_ok_def)
  have l1: "ni_lock_ok (l\<lparr>nl_waitQ := q, nl_waiters := ws\<rparr>)" if "distinct q" "set q = dom ws" for q ws
    using ok that by (simp add: ni_lock_ok_def)
  show ?thesis
    using False p l1
    by (cases "ni_prune (ni_nassert c) (clock c n) (nl_waitQ l) (nl_waiters l)")
      (auto simp: ni_isWriteNext_def Let_def wp case_prod_beta)
qed

text \<open>A lock call: nobody loses a lock, and a call that returns true has given the lock.\<close>

lemma keeps_put:
  "(\<And>r. r \<notin> H \<Longrightarrow> r \<in> nl_holders (ni_lock_at s name) \<Longrightarrow> r \<in> nl_holders l) \<Longrightarrow>
   (\<And>r. r \<notin> H \<Longrightarrow> r \<in> nl_holders (ni_lock_at s name) \<Longrightarrow>
      nl_state (ni_lock_at s name) \<in> {NI_LOCKED_FOR_WRITE, NI_LOCKED_FOR_READ_WRITE} \<Longrightarrow>
      nl_state l \<in> {NI_LOCKED_FOR_WRITE, NI_LOCKED_FOR_READ_WRITE}) \<Longrightarrow>
   keeps_locks H s (ni_put name l n s)"
  by (auto simp: keeps_locks_def holds_read_def holds_write_def)

lemma keeps_counters [simp]:
  "keeps_locks H s (t\<lparr>ni_readers := x\<rparr>) = keeps_locks H s t"
  "keeps_locks H s (t\<lparr>ni_writers := x\<rparr>) = keeps_locks H s t"
  by (simp_all add: keeps_locks_def holds_read_def holds_write_def)

definition granted_read :: "u64 \<Rightarrow> bytes \<Rightarrow> NiLockServer \<Rightarrow> bool \<Rightarrow> NiLockServer \<Rightarrow> bool" where
  "granted_read r name s got s' \<longleftrightarrow> ni_ok s' \<and> keeps_locks {} s s' \<and> (got \<longrightarrow> holds_read r name s')"

definition granted_write :: "u64 \<Rightarrow> bytes \<Rightarrow> NiLockServer \<Rightarrow> bool \<Rightarrow> NiLockServer \<Rightarrow> bool" where
  "granted_write r name s got s' \<longleftrightarrow> ni_ok s' \<and> keeps_locks {} s s' \<and> (got \<longrightarrow> holds_write r name s')"

lemma keeps_same:
  "nl_holders l = nl_holders (ni_lock_at s name) \<Longrightarrow> nl_state l = nl_state (ni_lock_at s name) \<Longrightarrow>
   keeps_locks H s (ni_put name l n s)"
  by (rule keeps_put) auto

lemma ni_wait_ok:
  assumes "ni_ok s" and "ni_lock_ok l" and "nl_holders l = nl_holders (ni_lock_at s name)"
    and "nl_state l = nl_state (ni_lock_at s name)"
  shows "\<exists>s'. ni_wait c name r wr l n s = (False, s') \<and> ni_ok s' \<and> keeps_locks H s s'"
  using assms ni_waitForLock_ok [OF assms(2), of c r wr n]
  by (auto simp: ni_wait_def ni_ok_put keeps_same split: prod.split)

lemma ni_lockForRead_ok:
  assumes ok: "ni_ok s"
  shows "post (ni_lockForRead c name r s) (\<lambda>(got, s'). granted_read r name s got s')"
proof -
  let ?l = "ni_lock_at s name"
  have l: "ni_lock_ok ?l" by (rule ni_lock_ok_at [OF ok])
  have w: "\<exists>s'. ni_wait c name r False l n s = (False, s') \<and> ni_ok s' \<and> keeps_locks {} s s'"
    if "ni_lock_ok l" "nl_holders l = nl_holders ?l" "nl_state l = nl_state ?l" for l n
    by (rule ni_wait_ok [OF ok that])
  show ?thesis
  proof (cases "nl_state ?l")
    case NI_UNLOCKED
    have free: "nl_holders ?l = {}" using l NI_UNLOCKED by (simp add: ni_lock_ok_def)
    show ?thesis
      unfolding ni_lockForRead_def Let_def NI_UNLOCKED NiLockState.case
      by (rule post_bindI [OF ni_try_ok [OF l]])
        (auto simp: granted_read_def wp NI_UNLOCKED free ni_lock_ok_def holds_read_def
          intro!: ni_ok_put ok keeps_put)
  next
    case NI_LOCKED_FOR_READ
    show ?thesis
    proof (cases "r \<in> nl_holders ?l")
      case True
      with NI_LOCKED_FOR_READ ok l show ?thesis
        by (simp add: ni_lockForRead_def Let_def granted_read_def ni_ok_put keeps_same holds_read_def)
    next
      case False
      have grant: "granted_read r name s True ((ni_put name (l1\<lparr>nl_holders := insert r (nl_holders l1)\<rparr>) n1 s)
          \<lparr>ni_readers := ni_readers s + 1\<rparr>)"
        if "ni_lock_ok l1" "nl_holders l1 = nl_holders ?l" "nl_state l1 = nl_state ?l" for l1 n1
        using that NI_LOCKED_FOR_READ
        by (auto simp: granted_read_def ni_lock_ok_def holds_read_def intro!: ni_ok_put ok keeps_put)
      have refuse: "case ni_wait c name r False l1 n1 s of (got, s') \<Rightarrow> granted_read r name s got s'"
        if "ni_lock_ok l1" "nl_holders l1 = nl_holders ?l" "nl_state l1 = nl_state ?l" for l1 n1
        using w [OF that, of n1] by (auto simp: granted_read_def)
      show ?thesis
        unfolding ni_lockForRead_def Let_def NI_LOCKED_FOR_READ NiLockState.case if_not_P [OF False]
        by (rule post_bindI [OF ni_isWriteNext_ok [OF l]]) (use grant refuse in auto)
    qed
  next
    case NI_LOCKED_FOR_WRITE
    with w [OF l refl refl, of "ni_ticks s"] l ok show ?thesis
      by (auto simp: ni_lockForRead_def Let_def granted_read_def wp ni_lock_ok_def holds_read_def
          intro!: ni_ok_put keeps_put)
  next
    case NI_LOCKED_FOR_READ_WRITE
    with w [OF l refl refl, of "ni_ticks s"] l ok show ?thesis
      by (auto simp: ni_lockForRead_def Let_def granted_read_def wp ni_lock_ok_def holds_read_def
          intro!: ni_ok_put keeps_put)
  qed
qed

lemma ni_lockForWrite_ok:
  assumes ok: "ni_ok s"
  shows "post (ni_lockForWrite c name r s) (\<lambda>(got, s'). granted_write r name s got s')"
proof -
  let ?l = "ni_lock_at s name"
  have l: "ni_lock_ok ?l" by (rule ni_lock_ok_at [OF ok])
  have w: "\<exists>s'. ni_wait c name r True ?l (ni_ticks s) s = (False, s') \<and> ni_ok s' \<and> keeps_locks {} s s'"
    by (rule ni_wait_ok [OF ok l refl refl])
  show ?thesis
  proof (cases "nl_state ?l")
    case NI_UNLOCKED
    have free: "nl_holders ?l = {}" using l NI_UNLOCKED by (simp add: ni_lock_ok_def)
    show ?thesis
      unfolding ni_lockForWrite_def Let_def NI_UNLOCKED NiLockState.case
      by (rule post_bindI [OF ni_try_ok [OF l]])
        (auto simp: granted_write_def wp NI_UNLOCKED free ni_lock_ok_def holds_write_def
          intro!: ni_ok_put ok keeps_put)
  next
    case NI_LOCKED_FOR_READ
    with w l ok show ?thesis
      by (auto simp: ni_lockForWrite_def Let_def granted_write_def wp ni_lock_ok_def holds_write_def
          intro!: ni_ok_put keeps_put)
  next
    case NI_LOCKED_FOR_WRITE
    with w l ok show ?thesis
      by (auto simp: ni_lockForWrite_def Let_def granted_write_def wp holds_write_def
          intro!: ni_ok_put keeps_put)
  next
    case NI_LOCKED_FOR_READ_WRITE
    with w l ok show ?thesis
      by (auto simp: ni_lockForWrite_def Let_def granted_write_def wp holds_write_def
          intro!: ni_ok_put keeps_put)
  qed
qed

text \<open>A release: only the releasing client may lose a lock.\<close>

lemma ni_releaseForRead_ok:
  assumes ok: "ni_ok s"
  shows "ni_ok (ni_releaseForRead name h s) \<and> keeps_locks {h} s (ni_releaseForRead name h s)"
proof (cases "ni_locks s name")
  case (Some l)
  have l: "ni_lock_ok l" "ni_lock_at s name = l"
    using ni_lock_ok_at [OF ok, of name] ni_locks_at [OF Some] by simp_all
  then show ?thesis
    using Some ok
    by (cases "nl_state l")
      (auto simp: ni_releaseForRead_def Let_def ni_lock_ok_def intro!: ni_ok_put keeps_put)
qed (simp add: ni_releaseForRead_def ok)

lemma ni_releaseForWrite_ok:
  assumes ok: "ni_ok s"
  shows "\<exists>s'. ni_releaseForWrite na name h s = Inr s' \<and> ni_ok s' \<and> keeps_locks {h} s s'"
proof (cases "ni_locks s name")
  case (Some l)
  have l: "ni_lock_ok l" "ni_lock_at s name = l"
    using ni_lock_ok_at [OF ok, of name] ni_locks_at [OF Some] by simp_all
  have one: "nl_holders l = {h}" if "h \<in> nl_holders l" "card (nl_holders l) = 1"
    using that by (auto simp: card_1_singleton_iff)
  show ?thesis
    using Some ok l one
    by (cases "nl_state l")
      (auto simp: ni_releaseForWrite_def Let_def ni_lock_ok_def intro!: ni_ok_put keeps_put)
qed (simp add: ni_releaseForWrite_def ok)

end
