(* ===== verification/NiLockStore.thy ===== *)
theory NiLockStore
  imports NiLockServer TxnStore
begin

text \<open>
  The locking store of \<open>src/nistore/lockstore.cc\<close> over \<open>kvstore.cc\<close> and the lock server: a
  transaction takes a read or write lock on every key it touches, keeps its writes to itself, and
  writes them at commit, when it drops its locks. As in the optimistic store every operation has
  an undo for speculative execution.
\<close>

section \<open>The key-value store\<close>

text \<open>\<open>kvstore.cc\<close>: for every key the list of its values, the newest last.\<close>

record KVStore =
  kv_store :: "bytes \<rightharpoonup> bytes list"

definition KVStore_new :: KVStore where
  "KVStore_new = \<lparr>kv_store = Map.empty\<rparr>"

definition kv_get :: "bytes \<Rightarrow> KVStore \<Rightarrow> bytes option" where
  "kv_get key s = (case kv_store s key of None \<Rightarrow> None | Some [] \<Rightarrow> None | Some vs \<Rightarrow> Some (last vs))"

definition kv_put :: "bytes \<Rightarrow> bytes \<Rightarrow> KVStore \<Rightarrow> bool \<times> KVStore" where
  "kv_put key v s =
     (True, s\<lparr>kv_store := (kv_store s)(key \<mapsto> (case kv_store s key of None \<Rightarrow> [] | Some vs \<Rightarrow> vs) @ [v])\<rparr>)"

text \<open>The reference parameter \<open>value\<close> is not assigned: the caller's \<open>value0\<close> comes back.\<close>

definition kv_remove :: "bytes \<Rightarrow> bytes \<Rightarrow> KVStore \<Rightarrow> bool \<times> bytes \<times> KVStore" where
  "kv_remove key value0 s =
     (case kv_store s key of
        None \<Rightarrow> (False, value0, s)
      | Some [] \<Rightarrow> (False, value0, s)
      | Some vs \<Rightarrow> (True, value0, s\<lparr>kv_store := (kv_store s)(key \<mapsto> butlast vs)\<rparr>))"

section \<open>State of the locking store\<close>

record NiTransaction =
  lt_id :: u64
  lt_readSet :: "(bytes, int) smap"
  lt_writeSet :: "(bytes, bytes list) smap"

definition NiTransaction_new :: "u64 \<Rightarrow> NiTransaction" where
  "NiTransaction_new i = \<lparr>lt_id = i, lt_readSet = [], lt_writeSet = []\<rparr>"

datatype NiRetiredState = NI_COMMITTED | NI_ABORTED_PREPARED | NI_ABORTED_RUNNING

record LockStore =
  lk_store :: KVStore
  lk_locks :: NiLockServer
  lk_running :: "(u64, NiTransaction) smap"
  lk_prepared :: "(u64, NiTransaction) smap"
  lk_retired :: "(opnum_t \<times> NiTransaction \<times> NiRetiredState) list"

definition LockStore_new :: LockStore where
  "LockStore_new = \<lparr>lk_store = KVStore_new, lk_locks = NiLockServer_new, lk_running = [], lk_prepared = [], lk_retired = []\<rparr>"

definition lk_put_running :: "u64 \<Rightarrow> NiTransaction \<Rightarrow> LockStore \<Rightarrow> LockStore" where
  "lk_put_running i t s = s\<lparr>lk_running := smap_put i t (lk_running s)\<rparr>"

definition lk_put_prepared :: "u64 \<Rightarrow> NiTransaction \<Rightarrow> LockStore \<Rightarrow> LockStore" where
  "lk_put_prepared i t s = s\<lparr>lk_prepared := smap_put i t (lk_prepared s)\<rparr>"

definition lk_drop_running :: "u64 \<Rightarrow> LockStore \<Rightarrow> LockStore" where
  "lk_drop_running i s = s\<lparr>lk_running := smap_erase i (lk_running s)\<rparr>"

definition lk_drop_prepared :: "u64 \<Rightarrow> LockStore \<Rightarrow> LockStore" where
  "lk_drop_prepared i s = s\<lparr>lk_prepared := smap_erase i (lk_prepared s)\<rparr>"

definition lk_retire :: "opnum_t \<Rightarrow> NiTransaction \<Rightarrow> NiRetiredState \<Rightarrow> LockStore \<Rightarrow> LockStore" where
  "lk_retire opn t st s = s\<lparr>lk_retired := lk_retired s @ [(opn, t, st)]\<rparr>"

section \<open>Transactions and locks\<close>

definition lk_getTxn :: "bool \<Rightarrow> u64 \<Rightarrow> LockStore \<Rightarrow> (NiTransaction \<times> LockStore) result" where
  "lk_getTxn na i s =
     (case map_of (lk_running s) i of
        None \<Rightarrow> Inr (NiTransaction_new i, lk_put_running i (NiTransaction_new i) s)
      | Some t \<Rightarrow> assert_r na (lt_id t = i) (Inr (t, s)))"

definition lk_last_retired :: "LockStore \<Rightarrow> (opnum_t \<times> NiTransaction \<times> NiRetiredState) result" where
  "lk_last_retired s = (case lk_retired s of [] \<Rightarrow> Inl Undefined | _ \<Rightarrow> Inr (last (lk_retired s)))"

definition lk_getRetiredTxn ::
  "bool \<Rightarrow> opnum_t \<Rightarrow> u64 \<Rightarrow> NiRetiredState \<Rightarrow> LockStore \<Rightarrow> (NiTransaction \<times> LockStore) result" where
  "lk_getRetiredTxn na opn i st s =
     bind_r (lk_last_retired s) (\<lambda>(o', t, st').
       assert_r na (o' = opn) (assert_r na (lt_id t = i) (assert_r na (st' = st)
         (Inr (t, s\<lparr>lk_retired := butlast (lk_retired s)\<rparr>)))))"

definition dropLocks :: "bool \<Rightarrow> NiTransaction \<Rightarrow> NiLockServer \<Rightarrow> NiLockServer result" where
  "dropLocks na t L =
     bind_r (fold_r (\<lambda>(key, vs) L. ni_releaseForWrite na key (lt_id t) L) (lt_writeSet t) L) (\<lambda>L.
       fold_r (\<lambda>(key, n) L. Inr (ni_releaseForRead key (lt_id t) L)) (lt_readSet t) L)"

definition getLocks :: "ni_lock_env \<Rightarrow> NiTransaction \<Rightarrow> NiLockServer \<Rightarrow> NiLockServer result" where
  "getLocks c t L =
     bind_r (fold_r (\<lambda>(key, vs) L. bind_r (ni_lockForWrite c key (lt_id t) L) (\<lambda>(got, L').
         assert_r (ni_nassert c) got (Inr L'))) (lt_writeSet t) L) (\<lambda>L.
       fold_r (\<lambda>(key, n) L. bind_r (ni_lockForRead c key (lt_id t) L) (\<lambda>(got, L').
         assert_r (ni_nassert c) got (Inr L'))) (lt_readSet t) L)"

section \<open>Operations\<close>

definition lk_begin :: "u64 \<Rightarrow> LockStore \<Rightarrow> LockStore" where
  "lk_begin i s = lk_put_running i (NiTransaction_new i) s"

definition lk_unbegin :: "u64 \<Rightarrow> LockStore \<Rightarrow> LockStore" where
  "lk_unbegin i s = lk_drop_running i s"

text \<open>The status, and the value written to the result parameter, if any.\<close>

definition lk_get :: "ni_lock_env \<Rightarrow> u64 \<Rightarrow> bytes \<Rightarrow> LockStore \<Rightarrow> (int \<times> bytes option \<times> LockStore) result" where
  "lk_get c i key s0 =
     bind_r (lk_getTxn (ni_nassert c) i s0) (\<lambda>(t, s).
       case map_of (lt_writeSet t) key of
         Some ws \<Rightarrow> bind_r (last_written ws) (\<lambda>v. Inr (0, Some v, s))
       | None \<Rightarrow>
         (case kv_get key (lk_store s) of
            None \<Rightarrow> Inr (-1, None, s)
          | Some v \<Rightarrow>
              (case map_of (lt_readSet t) key of
                 Some n \<Rightarrow> Inr (0, Some v, lk_put_running i (t\<lparr>lt_readSet := smap_put key (n + 1) (lt_readSet t)\<rparr>) s)
               | None \<Rightarrow>
                   bind_r (ni_lockForRead c key i (lk_locks s)) (\<lambda>(got, L).
                     if got then
                       Inr (0, Some v, lk_put_running i (t\<lparr>lt_readSet := smap_put key 1 (lt_readSet t)\<rparr>) (s\<lparr>lk_locks := L\<rparr>))
                     else Inr (-2, Some v, s\<lparr>lk_locks := L\<rparr>)))))"

definition lk_unget :: "u64 \<Rightarrow> bytes \<Rightarrow> LockStore \<Rightarrow> LockStore result" where
  "lk_unget i key s =
     (case map_of (lk_running s) i of
        None \<Rightarrow> Inl Panicked
      | Some t \<Rightarrow>
          (case map_of (lt_readSet t) key of
             None \<Rightarrow> Inr s
           | Some n \<Rightarrow>
               if n > 1 then Inr (lk_put_running i (t\<lparr>lt_readSet := smap_put key (n - 1) (lt_readSet t)\<rparr>) s)
               else Inr (lk_put_running i (t\<lparr>lt_readSet := smap_erase key (lt_readSet t)\<rparr>)
                      (s\<lparr>lk_locks := ni_releaseForRead key i (lk_locks s)\<rparr>))))"

definition lk_put :: "ni_lock_env \<Rightarrow> u64 \<Rightarrow> bytes \<Rightarrow> bytes \<Rightarrow> LockStore \<Rightarrow> (int \<times> LockStore) result" where
  "lk_put c i key v s0 =
     bind_r (lk_getTxn (ni_nassert c) i s0) (\<lambda>(t, s).
       bind_r (ni_lockForWrite c key i (lk_locks s)) (\<lambda>(got, L).
         if got then
           Inr (0, lk_put_running i (t\<lparr>lt_writeSet := smap_put key (written (lt_writeSet t) key @ [v]) (lt_writeSet t)\<rparr>)
                  (s\<lparr>lk_locks := L\<rparr>))
         else Inr (-2, s\<lparr>lk_locks := L\<rparr>)))"

definition lk_unput :: "bool \<Rightarrow> u64 \<Rightarrow> bytes \<Rightarrow> bytes \<Rightarrow> LockStore \<Rightarrow> LockStore result" where
  "lk_unput na i key v s =
     (case map_of (lk_running s) i of
        None \<Rightarrow> Inl Panicked
      | Some t \<Rightarrow>
          (case map_of (lt_writeSet t) key of
             None \<Rightarrow> Inl Panicked
           | Some vs \<Rightarrow>
               bind_r (last_written vs) (\<lambda>w.
                 if w = v then
                   (let s' = lk_put_running i (t\<lparr>lt_writeSet := smap_put key (butlast vs) (lt_writeSet t)\<rparr>) s
                    in if butlast vs = [] then
                         bind_r (ni_releaseForWrite na key i (lk_locks s')) (\<lambda>L. Inr (s'\<lparr>lk_locks := L\<rparr>))
                       else Inr s')
                 else Inl Panicked)))"

definition lk_prepare :: "u64 \<Rightarrow> LockStore \<Rightarrow> int \<times> LockStore" where
  "lk_prepare i s =
     (case map_of (lk_running s) i of
        None \<Rightarrow> (-1, s)
      | Some t \<Rightarrow> (0, lk_put_prepared i t (lk_drop_running i s)))"

definition lk_unprepare :: "bool \<Rightarrow> u64 \<Rightarrow> opnum_t \<Rightarrow> LockStore \<Rightarrow> LockStore result" where
  "lk_unprepare na i opn s =
     (case map_of (lk_prepared s) i of
        Some t \<Rightarrow> Inr (lk_drop_prepared i (lk_put_running i t s))
      | None \<Rightarrow> bind_r (lk_getRetiredTxn na opn i NI_ABORTED_RUNNING s) (\<lambda>(t, s'). Inr (lk_put_running i t s')))"

definition lk_commit_write :: "bool \<Rightarrow> bytes \<times> bytes list \<Rightarrow> KVStore \<Rightarrow> KVStore result" where
  "lk_commit_write na w st =
     bind_r (last_written (snd w)) (\<lambda>v. case kv_put (fst w) v st of (ret, st') \<Rightarrow> assert_r na ret (Inr st'))"

text \<open>Without assertions \<open>prepared[id]\<close> creates a transaction with id 0 if there is none.\<close>

definition lk_commit :: "bool \<Rightarrow> u64 \<Rightarrow> u64 \<Rightarrow> opnum_t \<Rightarrow> LockStore \<Rightarrow> LockStore result" where
  "lk_commit na i timestamp opn s =
     assert_r na (map_of (lk_prepared s) i \<noteq> None)
       (let t = (case map_of (lk_prepared s) i of None \<Rightarrow> NiTransaction_new 0 | Some t \<Rightarrow> t)
        in assert_r na (lt_id t = i)
          (bind_r (fold_r (lk_commit_write na) (lt_writeSet t) (lk_store s)) (\<lambda>st.
             bind_r (dropLocks na t (lk_locks s)) (\<lambda>L.
               Inr (lk_retire opn t NI_COMMITTED (lk_drop_prepared i (s\<lparr>lk_store := st, lk_locks := L\<rparr>)))))))"

definition lk_uncommit_write :: "bool \<Rightarrow> bytes \<times> bytes list \<Rightarrow> KVStore \<Rightarrow> KVStore result" where
  "lk_uncommit_write na w st =
     (case kv_remove (fst w) '''' st of (ret, v, st') \<Rightarrow>
        assert_r na ret
          (if na then Inr st' else bind_r (last_written (snd w)) (\<lambda>v'. assert_r na (v = v') (Inr st'))))"

definition lk_uncommit :: "ni_lock_env \<Rightarrow> u64 \<Rightarrow> u64 \<Rightarrow> opnum_t \<Rightarrow> LockStore \<Rightarrow> LockStore result" where
  "lk_uncommit c i timestamp opn s0 =
     bind_r (lk_getRetiredTxn (ni_nassert c) opn i NI_COMMITTED s0) (\<lambda>(t, s).
       bind_r (fold_r (lk_uncommit_write (ni_nassert c)) (lt_writeSet t) (lk_store s)) (\<lambda>st.
         bind_r (getLocks c t (lk_locks s)) (\<lambda>L.
           assert_r (ni_nassert c) (map_of (lk_prepared s) i = None)
             (Inr (lk_put_prepared i t (s\<lparr>lk_store := st, lk_locks := L\<rparr>))))))"

definition lk_abortTxn :: "bool \<Rightarrow> u64 \<Rightarrow> opnum_t \<Rightarrow> LockStore \<Rightarrow> LockStore result" where
  "lk_abortTxn na i opn s =
     (case map_of (lk_running s) i of
        Some t \<Rightarrow>
          bind_r (dropLocks na t (lk_locks s)) (\<lambda>L.
            Inr (lk_drop_running i (lk_retire opn t NI_ABORTED_RUNNING (s\<lparr>lk_locks := L\<rparr>))))
      | None \<Rightarrow>
          (case map_of (lk_prepared s) i of
             Some t \<Rightarrow>
               bind_r (dropLocks na t (lk_locks s)) (\<lambda>L.
                 Inr (lk_drop_prepared i (lk_retire opn t NI_ABORTED_PREPARED (s\<lparr>lk_locks := L\<rparr>))))
           | None \<Rightarrow> Inl Panicked))"

definition lk_unabort :: "ni_lock_env \<Rightarrow> u64 \<Rightarrow> opnum_t \<Rightarrow> LockStore \<Rightarrow> LockStore result" where
  "lk_unabort c i opn s =
     bind_r (lk_last_retired s) (\<lambda>(o', t, st).
       assert_r (ni_nassert c) (o' = opn) (assert_r (ni_nassert c) (lt_id t = i)
         (assert_r (ni_nassert c) (st = NI_ABORTED_PREPARED \<or> st = NI_ABORTED_RUNNING)
           (bind_r
             (if st = NI_ABORTED_PREPARED then
                assert_r (ni_nassert c) (map_of (lk_prepared s) i = None) (Inr (lk_put_prepared i t s))
              else if st = NI_ABORTED_RUNNING then
                assert_r (ni_nassert c) (map_of (lk_running s) i = None) (Inr (lk_put_running i t s))
              else Inr s)
             (\<lambda>s'. bind_r (getLocks c t (lk_locks s')) (\<lambda>L.
                Inr (s'\<lparr>lk_locks := L, lk_retired := butlast (lk_retired s')\<rparr>)))))))"

definition lk_specCommit :: "opnum_t \<Rightarrow> LockStore \<Rightarrow> LockStore" where
  "lk_specCommit opn s = s\<lparr>lk_retired := dropWhile (\<lambda>r. fst r \<le> opn) (lk_retired s)\<rparr>"

definition lk_call_step :: "ni_lock_env \<Rightarrow> LockStore txn_step" where
  "lk_call_step c call s =
     (case call of
        Begin i \<Rightarrow> Inr (0, None, lk_begin i s)
      | Get i key \<Rightarrow> lk_get c i key s
      | Put i key v \<Rightarrow> bind_r (lk_put c i key v s) (\<lambda>(r, s'). Inr (r, None, s'))
      | Prepare i opn \<Rightarrow> (case lk_prepare i s of (r, s') \<Rightarrow> Inr (r, None, s'))
      | Commit i ts opn \<Rightarrow> bind_r (lk_commit (ni_nassert c) i ts opn s) (\<lambda>s'. Inr (0, None, s'))
      | Abort i opn \<Rightarrow> bind_r (lk_abortTxn (ni_nassert c) i opn s) (\<lambda>s'. Inr (0, None, s')))"

end
