(* ===== verification/NiLockSerial.thy ===== *)
theory NiLockSerial
  imports NiLockStore
begin

text \<open>
  Serializability of the locking store: a transaction holds a lock on everything it has read or
  written, so nobody changes what it has read before it commits. The undo operations, in
  contrast, do not bring back what a commit gave up.
\<close>

section \<open>The invariant\<close>

definition kv_contents :: "KVStore \<Rightarrow> bytes \<rightharpoonup> bytes" where
  "kv_contents s k = kv_get k s"

lemma kv_get_eq: "kv_get k s = (case kv_store s k of None \<Rightarrow> None | Some vs \<Rightarrow> if vs = [] then None else Some (last vs))"
  by (auto simp: kv_get_def split: option.split list.split)

lemma kv_contents_put: "kv_contents (snd (kv_put k v s)) = (kv_contents s)(k \<mapsto> v)"
  by (auto simp: kv_contents_def kv_get_eq kv_put_def fun_eq_iff)

text \<open>Two-phase locking: a lock for every key of the sets, for writing if it is written.\<close>

definition locked_by :: "u64 \<Rightarrow> NiTransaction \<Rightarrow> NiLockServer \<Rightarrow> bool" where
  "locked_by i t L \<longleftrightarrow> lt_id t = i \<and> smap_ok (lt_readSet t) \<and> smap_ok (lt_writeSet t) \<and>
     (\<forall>k vs. map_of (lt_writeSet t) k = Some vs \<longrightarrow> vs \<noteq> [] \<and> holds_write i k L) \<and>
     (\<forall>k n. map_of (lt_readSet t) k = Some n \<longrightarrow> holds_read i k L)"

text \<open>On every map that agrees with the store on the read set the actions run through.\<close>

definition sees_locked :: "KVStore \<Rightarrow> NiTransaction \<Rightarrow> (bytes \<rightharpoonup> bytes) \<Rightarrow> bool" where
  "sees_locked st t m \<longleftrightarrow> (\<forall>k n. map_of (lt_readSet t) k = Some n \<longrightarrow> m k = kv_contents st k)"

definition accounts :: "KVStore \<Rightarrow> NiTransaction \<Rightarrow> action list \<Rightarrow> bool" where
  "accounts st t as \<longleftrightarrow> (\<forall>m. sees_locked st t m \<longrightarrow> execute as m = Some (write_all (lt_writeSet t) m))"

definition lk_ok :: "LockStore \<Rightarrow> bool" where
  "lk_ok s \<longleftrightarrow>
     ni_ok (lk_locks s) \<and> smap_ok (lk_running s) \<and> smap_ok (lk_prepared s) \<and>
     (\<forall>i t. map_of (lk_running s) i = Some t \<longrightarrow> locked_by i t (lk_locks s) \<and> map_of (lk_prepared s) i = None) \<and>
     (\<forall>i t. map_of (lk_prepared s) i = Some t \<longrightarrow> locked_by i t (lk_locks s))"

fun accounts_opt :: "KVStore \<Rightarrow> NiTransaction option \<Rightarrow> action list \<Rightarrow> bool" where
  "accounts_opt st None as = (as = [])"
| "accounts_opt st (Some t) as = accounts st t as"

definition lk_told :: "LockStore \<Rightarrow> observed \<Rightarrow> bool" where
  "lk_told s g \<longleftrightarrow>
     (\<forall>i. accounts_opt (lk_store s) (map_of (lk_running s) i) (acting g i)) \<and>
     (\<forall>i t. map_of (lk_prepared s) i = Some t \<longrightarrow> accounts (lk_store s) t (ready g i)) \<and>
     serial (committed g) Map.empty = Some (kv_contents (lk_store s))"

definition lk_inv :: "LockStore \<Rightarrow> observed \<Rightarrow> bool" where
  "lk_inv s g \<longleftrightarrow> lk_ok s \<and> lk_told s g"

text \<open>
  What the callers have to see to: only prepared transactions are committed, and a prepared
  transaction is not continued before it has been committed or aborted.
\<close>

definition lk_fits :: "txn_call \<Rightarrow> LockStore \<Rightarrow> bool" where
  "lk_fits c s =
     (case c of
        Begin i \<Rightarrow> map_of (lk_prepared s) i = None
      | Get i key \<Rightarrow> map_of (lk_prepared s) i = None
      | Put i key v \<Rightarrow> map_of (lk_prepared s) i = None
      | Prepare i opn \<Rightarrow> True
      | Commit i ts opn \<Rightarrow> map_of (lk_prepared s) i \<noteq> None
      | Abort i opn \<Rightarrow> True)"

lemma lk_inv_new: "lk_inv LockStore_new observed_new"
  by (simp add: lk_inv_def lk_ok_def lk_told_def LockStore_new_def observed_new_def KVStore_new_def
      smap_ok_Nil fun_eq_iff kv_contents_def kv_get_def)

lemma lk_inv_serial: "lk_inv s g \<Longrightarrow> serial (committed g) Map.empty = Some (kv_contents (lk_store s))"
  by (simp add: lk_inv_def lk_told_def)

lemma lk_sel [simp]:
  "lk_store (lk_put_running i t s) = lk_store s" "lk_prepared (lk_put_running i t s) = lk_prepared s"
  "lk_running (lk_put_running i t s) = smap_put i t (lk_running s)" "lk_locks (lk_put_running i t s) = lk_locks s"
  "lk_store (lk_drop_running i s) = lk_store s" "lk_prepared (lk_drop_running i s) = lk_prepared s"
  "lk_running (lk_drop_running i s) = smap_erase i (lk_running s)" "lk_locks (lk_drop_running i s) = lk_locks s"
  "lk_store (lk_put_prepared i t s) = lk_store s" "lk_running (lk_put_prepared i t s) = lk_running s"
  "lk_prepared (lk_put_prepared i t s) = smap_put i t (lk_prepared s)" "lk_locks (lk_put_prepared i t s) = lk_locks s"
  "lk_store (lk_drop_prepared i s) = lk_store s" "lk_running (lk_drop_prepared i s) = lk_running s"
  "lk_prepared (lk_drop_prepared i s) = smap_erase i (lk_prepared s)" "lk_locks (lk_drop_prepared i s) = lk_locks s"
  "lk_store (lk_retire opn t st s) = lk_store s" "lk_running (lk_retire opn t st s) = lk_running s"
  "lk_prepared (lk_retire opn t st s) = lk_prepared s" "lk_locks (lk_retire opn t st s) = lk_locks s"
  by (simp_all add: lk_put_running_def lk_drop_running_def lk_put_prepared_def lk_drop_prepared_def lk_retire_def)

lemma locked_by_new [simp]: "locked_by i (NiTransaction_new i) L"
  by (simp add: locked_by_def NiTransaction_new_def smap_ok_Nil)

lemma accounts_new [simp]: "accounts st (NiTransaction_new i) []"
  by (simp add: accounts_def NiTransaction_new_def)

lemma locked_by_kept: "locked_by i t L \<Longrightarrow> keeps_locks H L L' \<Longrightarrow> i \<notin> H \<Longrightarrow> locked_by i t L'"
  by (auto simp: locked_by_def keeps_locks_def)

lemma lk_running_ok: "lk_ok s \<Longrightarrow> map_of (lk_running s) i = Some t \<Longrightarrow> locked_by i t (lk_locks s) \<and> map_of (lk_prepared s) i = None"
  by (simp add: lk_ok_def)

lemma lk_prepared_ok: "lk_ok s \<Longrightarrow> map_of (lk_prepared s) i = Some t \<Longrightarrow> locked_by i t (lk_locks s)"
  by (simp add: lk_ok_def)

lemma lk_ok_put_running:
  "lk_ok s \<Longrightarrow> locked_by i t (lk_locks s) \<Longrightarrow> map_of (lk_prepared s) i = None \<Longrightarrow> lk_ok (lk_put_running i t s)"
  by (auto simp: lk_ok_def sm.ok_put sm.get_put)

lemma lk_ok_locks:
  "lk_ok s \<Longrightarrow> ni_ok L \<Longrightarrow> keeps_locks {} (lk_locks s) L \<Longrightarrow> lk_ok (s\<lparr>lk_locks := L\<rparr>)"
  using locked_by_kept [of _ _ "lk_locks s" "{}" L] by (simp add: lk_ok_def)

text \<open>The locks separate what a transaction writes from what the others have read or written.\<close>

lemma locks_separate:
  assumes "ni_ok L" and "locked_by i t L" and "locked_by j u L" and "i \<noteq> j" and "map_of (lt_writeSet t) k = Some vs"
  shows "map_of (lt_readSet u) k = None"
proof (rule ccontr)
  assume "map_of (lt_readSet u) k \<noteq> None"
  then have "holds_read j k L" using assms(3) by (auto simp: locked_by_def)
  moreover have "holds_write i k L" using assms(2,5) by (auto simp: locked_by_def)
  ultimately show False using write_excludes [OF assms(1)] assms(4) by blast
qed

section \<open>What a transaction has seen\<close>

lemma accounts_own_read:
  assumes "accounts st t as" and "map_of (lt_writeSet t) k = Some vs"
  shows "accounts st t (as @ [Saw k (last vs)])"
  using assms by (auto simp: accounts_def execute_append write_all_def)

lemma accounts_read:
  assumes "accounts st t as" and "map_of (lt_writeSet t) k = None" and "kv_get k st = Some v"
  shows "accounts st (t\<lparr>lt_readSet := smap_put k n (lt_readSet t)\<rparr>) (as @ [Saw k v])"
proof -
  have "sees_locked st t m \<and> m k = Some v" if "sees_locked st (t\<lparr>lt_readSet := smap_put k n (lt_readSet t)\<rparr>) m" for m
  proof -
    have all: "m k' = kv_contents st k'" if "((map_of (lt_readSet t))(k \<mapsto> n)) k' = Some n'" for k' n'
      using \<open>sees_locked st (t\<lparr>lt_readSet := smap_put k n (lt_readSet t)\<rparr>) m\<close> that
      by (simp add: sees_locked_def sm.get_put)
    have "m k = Some v" using all [of k n] assms(3) by (simp add: kv_contents_def)
    moreover have "sees_locked st t m"
      unfolding sees_locked_def
    proof (intro allI impI)
      fix k' n' assume "map_of (lt_readSet t) k' = Some n'"
      then show "m k' = kv_contents st k'" using all [of k' n] all [of k' n'] by (cases "k' = k") auto
    qed
    ultimately show ?thesis by blast
  qed
  then show ?thesis
    using assms(1,2) by (auto simp: accounts_def execute_append write_all_def)
qed

lemma accounts_write:
  assumes "accounts st t as"
  shows "accounts st (t\<lparr>lt_writeSet := smap_put k (vs @ [v]) (lt_writeSet t)\<rparr>) (as @ [Wrote k v])"
  using assms by (auto simp: accounts_def execute_append sees_locked_def)

lemma accounts_other:
  assumes "accounts st u as" and "\<And>k n. map_of (lt_readSet u) k = Some n \<Longrightarrow> kv_contents st' k = kv_contents st k"
  shows "accounts st' u as"
proof -
  have "sees_locked st u m" if "sees_locked st' u m" for m
    using that assms(2) unfolding sees_locked_def by metis
  with assms(1) show ?thesis by (auto simp: accounts_def)
qed

section \<open>Each call keeps it\<close>

lemma lk_told_running:
  "lk_told s g \<Longrightarrow> map_of (lk_running s) i = Some t \<Longrightarrow> accounts (lk_store s) t (acting g i)"
  by (metis lk_told_def accounts_opt.simps(2))

lemma lk_told_idle: "lk_told s g \<Longrightarrow> map_of (lk_running s) i = None \<Longrightarrow> acting g i = []"
  by (metis lk_told_def accounts_opt.simps(1))

lemma lk_told_put_running:
  "lk_told s g \<Longrightarrow> accounts (lk_store s) t as \<Longrightarrow> lk_told (lk_put_running i t s) (act i as g)"
  by (simp add: lk_told_def sm.get_put act_def)

lemma lk_told_drop_running: "lk_told s g \<Longrightarrow> smap_ok (lk_running s) \<Longrightarrow> lk_told (lk_drop_running i s) (act i [] g)"
  by (simp add: lk_told_def sm.get_del act_def)

lemma lk_told_same: "lk_told s g \<Longrightarrow> map_of (lk_running s) i = Some t \<Longrightarrow> accounts (lk_store s) t as \<Longrightarrow> lk_told s (act i as g)"
  by (simp add: lk_told_def act_def)

lemma lk_told_locks [simp]: "lk_told (s\<lparr>lk_locks := L\<rparr>) g = lk_told s g"
  by (simp add: lk_told_def)

lemma act_same: "acting g i = as \<Longrightarrow> act i as g = g"
  by (simp add: act_def fun_upd_idem)

lemma lk_inv_getTxn:
  assumes inv: "lk_inv s g" and free: "map_of (lk_prepared s) i = None"
  shows "post (lk_getTxn na i s) (\<lambda>(t, u). lk_inv u g \<and> map_of (lk_running u) i = Some t \<and>
    map_of (lk_prepared u) i = None \<and> locked_by i t (lk_locks u) \<and> accounts (lk_store u) t (acting g i))"
proof (cases "map_of (lk_running s) i")
  case None
  have told: "lk_told s g" and ok: "lk_ok s" using inv by (simp_all add: lk_inv_def)
  have idle: "acting g i = []" by (rule lk_told_idle [OF told None])
  have "lk_told (lk_put_running i (NiTransaction_new i) s) g"
    using lk_told_put_running [OF told accounts_new, of i i] by (simp add: act_same [OF idle])
  with None idle free ok show ?thesis
    by (simp add: lk_getTxn_def lk_inv_def lk_ok_put_running sm.get_put)
next
  case (Some t)
  with inv free show ?thesis
    using lk_running_ok [of s i t] lk_told_running [of s g i t] by (simp add: lk_getTxn_def lk_inv_def wp)
qed

lemma locked_by_more:
  "locked_by i t L \<Longrightarrow> keeps_locks {} L L' \<Longrightarrow> holds_read i k L' \<Longrightarrow>
   locked_by i (t\<lparr>lt_readSet := smap_put k n (lt_readSet t)\<rparr>) L'"
  "locked_by i t L \<Longrightarrow> keeps_locks {} L L' \<Longrightarrow> holds_write i k L' \<Longrightarrow>
   locked_by i (t\<lparr>lt_writeSet := smap_put k (vs @ [v]) (lt_writeSet t)\<rparr>) L'"
  by (auto simp: locked_by_def keeps_locks_def sm.get_put sm.ok_put)

text \<open>Installing a changed transaction after a lock call.\<close>

lemma lk_inv_update:
  assumes inv: "lk_inv s g" and free: "map_of (lk_prepared s) i = None" and L: "ni_ok L" "keeps_locks {} (lk_locks s) L"
    and t: "locked_by i t L" "accounts (lk_store s) t as"
  shows "lk_inv (lk_put_running i t (s\<lparr>lk_locks := L\<rparr>)) (act i as g)"
proof -
  have "lk_ok (s\<lparr>lk_locks := L\<rparr>)" using inv L by (intro lk_ok_locks) (simp_all add: lk_inv_def)
  then show ?thesis
    using inv free t by (auto simp: lk_inv_def intro!: lk_ok_put_running lk_told_put_running)
qed

lemma lk_inv_locks: "lk_inv s g \<Longrightarrow> ni_ok L \<Longrightarrow> keeps_locks {} (lk_locks s) L \<Longrightarrow> lk_inv (s\<lparr>lk_locks := L\<rparr>) g"
  by (simp add: lk_inv_def lk_ok_locks)

lemma lk_inv_get:
  assumes "lk_inv s g" and "map_of (lk_prepared s) i = None"
  shows "post (lk_get c i key s) (\<lambda>(r, v, u). lk_inv u (observe (Get i key) r v g))"
  unfolding lk_get_def
proof (rule post_bindI [OF lk_inv_getTxn [OF assms]], clarify)
  fix t u
  assume inv: "lk_inv u g" and run: "map_of (lk_running u) i = Some t" and free: "map_of (lk_prepared u) i = None"
    and lk: "locked_by i t (lk_locks u)" and acc: "accounts (lk_store u) t (acting g i)"
  have L: "ni_ok (lk_locks u)" using inv by (simp add: lk_inv_def lk_ok_def)
  let ?Q = "\<lambda>(r, v, w). lk_inv w (observe (Get i key) r v g)"
  have own: "post (bind_r (last_written ws) (\<lambda>v. Inr (0, Some v, u))) ?Q"
    if ws: "map_of (lt_writeSet t) key = Some ws" for ws
  proof -
    have "ws \<noteq> []" using lk ws by (simp add: locked_by_def)
    with inv lk_told_same [OF _ run accounts_own_read [OF acc ws]] show ?thesis
      by (simp add: observe_def lk_inv_def)
  qed
  have again: "?Q (0, Some v, lk_put_running i (t\<lparr>lt_readSet := smap_put key (n + 1) (lt_readSet t)\<rparr>) u)"
    if "map_of (lt_writeSet t) key = None" "kv_get key (lk_store u) = Some v" "map_of (lt_readSet t) key = Some n" for v n
  proof -
    have "holds_read i key (lk_locks u)" using lk that(3) by (simp add: locked_by_def)
    from locked_by_more(1) [OF lk keeps_refl this] lk_inv_update [OF inv free L keeps_refl]
    show ?thesis using accounts_read [OF acc that(1,2)] by (simp add: observe_def)
  qed
  have first: "post (bind_r (ni_lockForRead c key i (lk_locks u)) (\<lambda>(got, L).
       if got then Inr (0, Some v, lk_put_running i (t\<lparr>lt_readSet := smap_put key 1 (lt_readSet t)\<rparr>) (u\<lparr>lk_locks := L\<rparr>))
       else Inr (-2, Some v, u\<lparr>lk_locks := L\<rparr>))) ?Q"
    if "map_of (lt_writeSet t) key = None" "kv_get key (lk_store u) = Some v" for v
    by (rule post_bindI [OF ni_lockForRead_ok [OF L]])
      (auto simp: granted_read_def observe_def accounts_read [OF acc that]
        intro!: lk_inv_update [OF inv free] lk_inv_locks [OF inv] locked_by_more(1) [OF lk])
  show "post (case map_of (lt_writeSet t) key of
       Some ws \<Rightarrow> bind_r (last_written ws) (\<lambda>v. Inr (0, Some v, u))
     | None \<Rightarrow>
       (case kv_get key (lk_store u) of
          None \<Rightarrow> Inr (-1, None, u)
        | Some v \<Rightarrow>
            (case map_of (lt_readSet t) key of
               Some n \<Rightarrow> Inr (0, Some v, lk_put_running i (t\<lparr>lt_readSet := smap_put key (n + 1) (lt_readSet t)\<rparr>) u)
             | None \<Rightarrow>
                 bind_r (ni_lockForRead c key i (lk_locks u)) (\<lambda>(got, L).
                   if got then
                     Inr (0, Some v, lk_put_running i (t\<lparr>lt_readSet := smap_put key 1 (lt_readSet t)\<rparr>) (u\<lparr>lk_locks := L\<rparr>))
                   else Inr (-2, Some v, u\<lparr>lk_locks := L\<rparr>))))) ?Q"
    using own again first inv by (auto simp: observe_def split: option.split)
qed

lemma lk_inv_put:
  assumes "lk_inv s g" and "map_of (lk_prepared s) i = None"
  shows "post (lk_put c i key v s) (\<lambda>(r, u). lk_inv u (observe (Put i key v) r None g))"
  unfolding lk_put_def
proof (rule post_bindI [OF lk_inv_getTxn [OF assms]], clarify)
  fix t u
  assume inv: "lk_inv u g" and free: "map_of (lk_prepared u) i = None"
    and lk: "locked_by i t (lk_locks u)" and acc: "accounts (lk_store u) t (acting g i)"
  have L: "ni_ok (lk_locks u)" using inv by (simp add: lk_inv_def lk_ok_def)
  show "post (bind_r (ni_lockForWrite c key i (lk_locks u)) (\<lambda>(got, L).
         if got then
           Inr (0, lk_put_running i (t\<lparr>lt_writeSet := smap_put key (written (lt_writeSet t) key @ [v]) (lt_writeSet t)\<rparr>)
                  (u\<lparr>lk_locks := L\<rparr>))
         else Inr (-2, u\<lparr>lk_locks := L\<rparr>))) (\<lambda>(r, w). lk_inv w (observe (Put i key v) r None g))"
    by (rule post_bindI [OF ni_lockForWrite_ok [OF L]])
      (auto simp: granted_write_def observe_def accounts_write [OF acc]
        intro!: lk_inv_update [OF inv free] lk_inv_locks [OF inv] locked_by_more(2) [OF lk])
qed

text \<open>Dropping the locks of a transaction takes nothing from the others.\<close>

lemma dropLocks_ok:
  assumes "ni_ok L"
  shows "\<exists>L'. dropLocks na t L = Inr L' \<and> ni_ok L' \<and> keeps_locks {lt_id t} L L'"
proof -
  let ?w = "\<lambda>(key, vs) L. ni_releaseForWrite na key (lt_id t) L"
  let ?r = "\<lambda>(key, n) L. Inr (ni_releaseForRead key (lt_id t) L) :: NiLockServer result"
  have w: "ni_ok M \<Longrightarrow> \<exists>M'. fold_r ?w ws M = Inr M' \<and> ni_ok M' \<and> keeps_locks {lt_id t} M M'" for ws :: "(bytes \<times> bytes list) list" and M
  proof (induction ws arbitrary: M)
    case (Cons x ws)
    obtain key vs where x: "x = (key, vs)" by (cases x)
    obtain M1 where M1: "ni_releaseForWrite na key (lt_id t) M = Inr M1" "ni_ok M1" "keeps_locks {lt_id t} M M1"
      using ni_releaseForWrite_ok [OF Cons.prems] by blast
    obtain M2 where "fold_r ?w ws M1 = Inr M2" "ni_ok M2" "keeps_locks {lt_id t} M1 M2"
      using Cons.IH [OF M1(2)] by blast
    with M1 x show ?case by (auto intro: keeps_trans)
  qed simp
  have r: "ni_ok M \<Longrightarrow> \<exists>M'. fold_r ?r rs M = Inr M' \<and> ni_ok M' \<and> keeps_locks {lt_id t} M M'" for rs :: "(bytes \<times> int) list" and M
  proof (induction rs arbitrary: M)
    case (Cons x rs)
    obtain key n where x: "x = (key, n)" by (cases x)
    let ?M = "ni_releaseForRead key (lt_id t) M"
    have M: "ni_ok ?M" "keeps_locks {lt_id t} M ?M" using ni_releaseForRead_ok [OF Cons.prems] by simp_all
    obtain M2 where "fold_r ?r rs ?M = Inr M2" "ni_ok M2" "keeps_locks {lt_id t} ?M M2"
      using Cons.IH [OF M(1)] by blast
    with M x show ?case by (auto intro: keeps_trans)
  qed simp
  obtain L1 where L1: "fold_r ?w (lt_writeSet t) L = Inr L1" "ni_ok L1" "keeps_locks {lt_id t} L L1"
    using w [OF assms] by blast
  obtain L2 where "fold_r ?r (lt_readSet t) L1 = Inr L2" "ni_ok L2" "keeps_locks {lt_id t} L1 L2"
    using r [OF L1(2)] by blast
  with L1 show ?thesis by (auto simp: dropLocks_def intro: keeps_trans)
qed

lemma lk_inv_prepare:
  assumes inv: "lk_inv s g"
  shows "case lk_prepare i s of (r, u) \<Rightarrow> lk_inv u (observe (Prepare i opn) r None g)"
proof (cases "map_of (lk_running s) i")
  case None
  with inv lk_told_idle [of s g i] show ?thesis
    by (simp add: lk_prepare_def observe_def lk_inv_def act_same)
next
  case (Some t)
  have ok: "lk_ok s" and told: "lk_told s g" using inv by (simp_all add: lk_inv_def)
  have lk: "locked_by i t (lk_locks s)" and sm: "smap_ok (lk_running s)" "smap_ok (lk_prepared s)"
    using ok Some by (auto simp: lk_ok_def)
  have "lk_ok (lk_put_prepared i t (lk_drop_running i s))"
    using ok lk sm by (auto simp: lk_ok_def sm.ok_put sm.ok_del sm.get_put sm.get_del)
  moreover have "lk_told (lk_put_prepared i t (lk_drop_running i s)) (act i [] (g\<lparr>ready := (ready g)(i := acting g i)\<rparr>))"
    using told lk_told_running [OF told Some] sm by (auto simp: lk_told_def sm.get_put sm.get_del act_def)
  ultimately show ?thesis using Some by (simp add: lk_prepare_def observe_def lk_inv_def)
qed

text \<open>Ending a transaction: its locks are dropped, and it leaves the table it was in.\<close>

lemma lk_ok_end:
  assumes ok: "lk_ok s" and L: "ni_ok L" "keeps_locks {i} (lk_locks s) L"
  shows "map_of (lk_prepared s) i = None \<Longrightarrow> lk_ok (lk_drop_running i (s\<lparr>lk_locks := L\<rparr>))"
    and "map_of (lk_running s) i = None \<Longrightarrow> lk_ok (lk_drop_prepared i (s\<lparr>lk_locks := L\<rparr>))"
proof -
  have kept: "locked_by j t L" if "locked_by j t (lk_locks s)" "j \<noteq> i" for j t
    using locked_by_kept [OF that(1) L(2)] that(2) by simp
  have p: "locked_by j t L" if "map_of (lk_prepared s) j = Some t" "j \<noteq> i" for j t
    using kept [OF lk_prepared_ok [OF ok that(1)] that(2)] .
  have r: "locked_by j t L \<and> map_of (lk_prepared s) j = None" if "map_of (lk_running s) j = Some t" "j \<noteq> i" for j t
    using kept [OF _ that(2)] lk_running_ok [OF ok that(1)] by blast
  have sm: "smap_ok (lk_running s)" "smap_ok (lk_prepared s)" using ok by (simp_all add: lk_ok_def)
  show "lk_ok (lk_drop_running i (s\<lparr>lk_locks := L\<rparr>))" if "map_of (lk_prepared s) i = None"
  proof -
    have "locked_by j t L" if "map_of (lk_prepared s) j = Some t" for j t
      using p [OF that] that \<open>map_of (lk_prepared s) i = None\<close> by (cases "j = i") auto
    then show ?thesis using L(1) r sm by (auto simp: lk_ok_def sm.ok_del sm.get_del)
  qed
  show "lk_ok (lk_drop_prepared i (s\<lparr>lk_locks := L\<rparr>))" if "map_of (lk_running s) i = None"
  proof -
    have "locked_by j t L \<and> map_of (lk_prepared s) j = None" if "map_of (lk_running s) j = Some t" for j t
      using r [OF that] that \<open>map_of (lk_running s) i = None\<close> by (cases "j = i") auto
    then show ?thesis using L(1) p sm by (auto simp: lk_ok_def sm.ok_del sm.get_del)
  qed
qed

lemma lk_retired_irrelevant [simp]:
  "lk_ok (lk_drop_running i (lk_retire opn t st s)) = lk_ok (lk_drop_running i s)"
  "lk_ok (lk_drop_prepared i (lk_retire opn t st s)) = lk_ok (lk_drop_prepared i s)"
  "lk_ok (lk_retire opn t st s) = lk_ok s"
  "lk_told (lk_drop_running i (lk_retire opn t st s)) g = lk_told (lk_drop_running i s) g"
  "lk_told (lk_drop_prepared i (lk_retire opn t st s)) g = lk_told (lk_drop_prepared i s) g"
  "lk_told (lk_retire opn t st s) g = lk_told s g"
  by (simp_all add: lk_ok_def lk_told_def)

lemma lk_inv_abort:
  assumes inv: "lk_inv s g"
  shows "post (lk_abortTxn na i opn s) (\<lambda>u. lk_inv u (observe (Abort i opn) r v g))"
proof -
  have ok: "lk_ok s" and told: "lk_told s g" and L0: "ni_ok (lk_locks s)"
    and sm: "smap_ok (lk_running s)" "smap_ok (lk_prepared s)"
    using inv by (simp_all add: lk_inv_def lk_ok_def)
  show ?thesis
  proof (cases "map_of (lk_running s) i")
    case (Some t)
    then have t: "lt_id t = i" "map_of (lk_prepared s) i = None"
      using lk_running_ok [OF ok Some] by (auto simp: locked_by_def)
    obtain L where L: "dropLocks na t (lk_locks s) = Inr L" "ni_ok L" "keeps_locks {i} (lk_locks s) L"
      using dropLocks_ok [OF L0, of na t] t(1) by blast
    have "lk_told (lk_drop_running i (s\<lparr>lk_locks := L\<rparr>)) (act i [] g)"
      using told sm by (intro lk_told_drop_running) simp_all
    with Some L lk_ok_end(1) [OF ok L(2,3) t(2)] show ?thesis
      by (simp add: lk_abortTxn_def observe_def lk_inv_def)
  next
    case run: None
    show ?thesis
    proof (cases "map_of (lk_prepared s) i")
      case None
      with run show ?thesis by (simp add: lk_abortTxn_def)
    next
      case (Some t)
      then have t: "lt_id t = i" using lk_prepared_ok [OF ok Some] by (auto simp: locked_by_def)
      obtain L where L: "dropLocks na t (lk_locks s) = Inr L" "ni_ok L" "keeps_locks {i} (lk_locks s) L"
        using dropLocks_ok [OF L0, of na t] t by blast
      have "lk_told (lk_drop_prepared i (s\<lparr>lk_locks := L\<rparr>)) g"
        using told sm by (auto simp: lk_told_def sm.get_del)
      with run Some L lk_ok_end(2) [OF ok L(2,3) run] lk_told_idle [OF told run] show ?thesis
        by (simp add: lk_abortTxn_def observe_def lk_inv_def act_same)
    qed
  qed
qed

lemma lk_commit_writes:
  assumes "smap_ok ws" and "\<And>k vs. map_of ws k = Some vs \<Longrightarrow> vs \<noteq> []"
  shows "\<exists>st'. fold_r (lk_commit_write na) ws st = Inr st' \<and> kv_contents st' = write_all ws (kv_contents st)"
  using assms
proof (induction ws arbitrary: st)
  case (Cons w ws)
  obtain k vs where w: "w = (k, vs)" by (cases w)
  have fresh: "map_of ws k = None" and ok: "smap_ok ws"
    using Cons.prems(1) w by (force simp: smap_ok_def map_of_eq_None_iff)+
  have vs: "vs \<noteq> []" using Cons.prems(2) [of k vs] w by simp
  let ?st = "snd (kv_put k (last vs) st)"
  have step: "lk_commit_write na w st = Inr ?st"
    using vs w by (simp add: lk_commit_write_def kv_put_def)
  have "us \<noteq> []" if "map_of ws j = Some us" for j us
    using that Cons.prems(2) [of j us] w fresh by (cases "j = k") auto
  with Cons.IH [OF ok] obtain st' where "fold_r (lk_commit_write na) ws ?st = Inr st'"
      "kv_contents st' = write_all ws (kv_contents ?st)" by blast
  moreover have "write_all ws (kv_contents ?st) = write_all (w # ws) (kv_contents st)"
    using fresh w by (auto simp: kv_contents_put write_all_def fun_eq_iff split: option.split)
  ultimately show ?case using step by simp
qed simp

lemma lk_inv_commit:
  assumes inv: "lk_inv s g" and t: "map_of (lk_prepared s) i = Some t"
  shows "post (lk_commit na i ts opn s) (\<lambda>u. lk_inv u (observe (Commit i ts opn) 0 None g))"
proof -
  have ok: "lk_ok s" and told: "lk_told s g" and L0: "ni_ok (lk_locks s)" and sm: "smap_ok (lk_prepared s)"
    using inv by (simp_all add: lk_inv_def lk_ok_def)
  have lk: "locked_by i t (lk_locks s)" by (rule lk_prepared_ok [OF ok t])
  have run: "map_of (lk_running s) i = None"
    using lk_running_ok [OF ok, of i] t by (cases "map_of (lk_running s) i") auto
  obtain L where L: "dropLocks na t (lk_locks s) = Inr L" "ni_ok L" "keeps_locks {i} (lk_locks s) L"
    using dropLocks_ok [OF L0, of na t] lk by (auto simp: locked_by_def)
  obtain st where st: "fold_r (lk_commit_write na) (lt_writeSet t) (lk_store s) = Inr st"
      "kv_contents st = write_all (lt_writeSet t) (kv_contents (lk_store s))"
    using lk_commit_writes [of "lt_writeSet t" na "lk_store s"] lk by (auto simp: locked_by_def)
  let ?u = "lk_drop_prepared i (s\<lparr>lk_store := st, lk_locks := L\<rparr>)"
  have kept: "accounts st u as"
    if "locked_by j u (lk_locks s)" "j \<noteq> i" "accounts (lk_store s) u as" for j u as
  proof (rule accounts_other [OF that(3)])
    fix k n assume k: "map_of (lt_readSet u) k = Some n"
    have "map_of (lt_writeSet t) k = None"
    proof (cases "map_of (lt_writeSet t) k")
      case (Some vs)
      from locks_separate [OF L0 lk that(1) that(2) [symmetric] this] k show ?thesis by simp
    qed simp
    then show "kv_contents st k = kv_contents (lk_store s) k" by (simp add: st(2) write_all_def)
  qed
  have "lk_ok ?u"
    using lk_ok_end(2) [OF ok L(2,3) run] by (simp add: lk_ok_def)
  moreover have "execute (ready g i) (kv_contents (lk_store s)) = Some (kv_contents st)"
    using told t st(2) by (auto simp: lk_told_def accounts_def sees_locked_def)
  then have "lk_told ?u (observe (Commit i ts opn) 0 None g)"
  proof -
    assume ex: "execute (ready g i) (kv_contents (lk_store s)) = Some (kv_contents st)"
    have "accounts_opt st (map_of (lk_running s) j) (acting g j)" for j
    proof (cases "map_of (lk_running s) j")
      case None
      with lk_told_idle [OF told None] show ?thesis by simp
    next
      case (Some u)
      then have "j \<noteq> i" using run by auto
      with kept [OF _ this lk_told_running [OF told Some]] lk_running_ok [OF ok Some] Some show ?thesis by simp
    qed
    moreover have "accounts st u (ready g j)" if "map_of (lk_prepared s) j = Some u" "j \<noteq> i" for j u
      using kept [OF lk_prepared_ok [OF ok that(1)] that(2)] told that(1) by (simp add: lk_told_def)
    ultimately show ?thesis
      using told ex sm by (auto simp: lk_told_def observe_def serial_append sm.get_del)
  qed
  ultimately show ?thesis
    using t lk st(1) L(1) by (simp add: lk_commit_def locked_by_def lk_inv_def)
qed

section \<open>Properties\<close>

lemma lk_inv_step:
  assumes inv: "lk_inv s g" and fits: "lk_fits call s"
  shows "post (lk_call_step c call s) (\<lambda>(r, v, u). lk_inv u (observe call r v g))"
proof (cases call)
  case (Begin i)
  have "lk_inv (lk_put_running i (NiTransaction_new i) s) (act i [] g)"
    using inv fits Begin
    by (auto simp: lk_inv_def lk_fits_def intro!: lk_ok_put_running lk_told_put_running)
  then show ?thesis by (simp add: Begin lk_call_step_def lk_begin_def observe_def)
next
  case (Get i key)
  with lk_inv_get [OF inv, of i c key] fits show ?thesis by (simp add: lk_call_step_def lk_fits_def)
next
  case (Put i key v)
  with lk_inv_put [OF inv, of i c key v] fits show ?thesis
    by (cases "lk_put c i key v s") (auto simp: lk_call_step_def lk_fits_def)
next
  case (Prepare i opn)
  with lk_inv_prepare [OF inv, of i opn] show ?thesis
    by (auto simp: lk_call_step_def)
next
  case (Commit i ts opn)
  with fits obtain t where "map_of (lk_prepared s) i = Some t" by (auto simp: lk_fits_def)
  from lk_inv_commit [OF inv this, of "ni_nassert c" ts opn] Commit show ?thesis
    by (cases "lk_commit (ni_nassert c) i ts opn s") (auto simp: lk_call_step_def)
next
  case (Abort i opn)
  with lk_inv_abort [OF inv, of "ni_nassert c" i opn 0 None] show ?thesis
    by (cases "lk_abortTxn (ni_nassert c) i opn s") (auto simp: lk_call_step_def)
qed

interpretation lk: serial_store "lk_call_step c" LockStore_new "\<lambda>s. kv_contents (lk_store s)" lk_fits lk_inv
  by unfold_locales (rule lk_inv_new, erule (1) lk_inv_step, erule lk_inv_serial)


definition ticking :: ni_lock_env where
  "ticking = \<lparr>ni_nassert = False, clock = (\<lambda>n. \<lparr>tv_sec = 0, tv_usec = int n + 1\<rparr>)\<rparr>"

text \<open>A reader that waits for a writer, and reads what it has committed.\<close>

definition lk_example :: "txn_call list" where
  "lk_example =
     [Begin 1, Put 1 ''x'' ''1'', Prepare 1 1, Commit 1 10 2,
      Begin 2, Put 2 ''x'' ''2'', Begin 3, Get 3 ''x'', Prepare 2 3, Commit 2 20 4,
      Get 3 ''x'', Put 3 ''y'' ''3'', Prepare 3 5, Commit 3 30 6]"


text \<open>
  A client that waits for a lock in one mode and then asks for it in the other stops a
  checking build: when the lock has become free, the client is next in the queue, and its place
  has not timed out, \<open>tryAcquireLock\<close> asserts that the modes agree.
\<close>

theorem other_mode_asserts:
  assumes "\<not> ni_nassert c" and "nl_waitQ (ni_lock_at s name) = r # q" and "nl_state (ni_lock_at s name) = NI_UNLOCKED"
    and "nl_waiters (ni_lock_at s name) r = Some w"
    and "checkTimeout False (clock c (ni_ticks s)) w = Inr False"
  shows "(if nw_write w then ni_lockForRead c name r s else ni_lockForWrite c name r s) = Inl AssertFailed"
  using assms by (simp add: ni_lockForRead_def ni_lockForWrite_def ni_tryAcquireLock_def Let_def assert_r_def)

definition reserved_for_writer :: NiLockServer where
  "reserved_for_writer = projr (bind_r (ni_lockForWrite ticking ''k'' 1 NiLockServer_new) (\<lambda>(b, s).
     bind_r (ni_lockForWrite ticking ''k'' 2 s) (\<lambda>(b, s). ni_releaseForWrite False ''k'' 1 s)))"

lemma other_mode_asserts_witness: "ni_lockForRead ticking ''k'' 2 reserved_for_writer = Inl AssertFailed"
proof -
  let ?w = "\<lparr>nw_write = True, nw_waitTime = clock ticking 0\<rparr>"
  have "\<not> ni_nassert ticking" "nl_waitQ (ni_lock_at reserved_for_writer ''k'') = [2]"
      "nl_state (ni_lock_at reserved_for_writer ''k'') = NI_UNLOCKED" by code_simp+
  moreover have "nl_waiters (ni_lock_at reserved_for_writer ''k'') 2 = Some ?w"
    by (simp add: reserved_for_writer_def ni_lockForWrite_def NiLockServer_new_def ni_lock_at_def new_NiLock_def
        ni_tryAcquireLock_def ni_put_def ni_wait_def ni_waitForLock_def ni_releaseForWrite_def)
  moreover have "checkTimeout False (clock ticking (ni_ticks reserved_for_writer)) ?w = Inr False" by code_simp
  ultimately show ?thesis
    using other_mode_asserts [of ticking reserved_for_writer "''k''" 2 "[]" ?w] by simp
qed

text \<open>
  Rolling back a commit of the locking store does not work. In a checking build \<open>uncommit\<close>
  stops at once, because \<open>KVStore::remove\<close> never hands out the value it removes. Without
  assertions, when another client waits for the lock, the rolled-back transaction is prepared
  again but without its lock (``should be able to pick up all locks again''), and the other
  client then gets the lock.
\<close>

theorem uncommit_fails_or_loses_lock:
  "fails (bind_r (lk_put ticking 1 ''k'' ''a'' LockStore_new) (\<lambda>(r, s).
     bind_r (lk_commit False 1 10 2 (snd (lk_prepare 1 s))) (lk_uncommit ticking 1 10 2))) AssertFailed
   \<and> (case bind_r (lk_put (ticking\<lparr>ni_nassert := True\<rparr>) 1 ''k'' ''a'' LockStore_new) (\<lambda>(r, s).
       bind_r (lk_put (ticking\<lparr>ni_nassert := True\<rparr>) 2 ''k'' ''b'' s) (\<lambda>(r, s).
       bind_r (lk_commit True 1 10 2 (snd (lk_prepare 1 s))) (\<lambda>s.
       bind_r (lk_uncommit (ticking\<lparr>ni_nassert := True\<rparr>) 1 10 2 s) (\<lambda>s.
       bind_r (lk_put (ticking\<lparr>ni_nassert := True\<rparr>) 2 ''k'' ''b'' s) (\<lambda>(r, s). Inr (r, s)))))) of
     Inl e \<Rightarrow> False
   | Inr (r, s) \<Rightarrow> r = 0 \<and> map_of (lk_prepared s) 1 \<noteq> None \<and> nl_holders (ni_lock_at (lk_locks s) ''k'') = {2})"
  by (intro conjI) code_simp+

end
