(* ===== verification/NiServer.thy ===== *)
theory NiServer
  imports Configuration OCCRuns NiLockSerial
begin

text \<open>
  The replicated server of \<open>src/nistore/server.h\<close> and \<open>server.cc\<close>: it parses a request, calls the
  transactional store, and serialises the reply; on a rollback it calls the undo operations in
  descending order. The upcalls are modelled over any store behind the interface \<open>TxnStore\<close>.
  The server's own field is an object of the base class of \<open>txnstore.cc\<close>, so assigning an
  \<open>OCCStore\<close> or a \<open>LockStore\<close> to it copies nothing, and every call is the base class's.

  Protobuf's parser and serialiser are parameters. Requests are of \<open>proto2\<close>: an operation other
  than the six of the enumeration is not parsed, so the default branches are not reached.
\<close>

section \<open>Requests and replies\<close>

datatype NiOperation = NI_BEGIN | NI_GET | NI_PUT | NI_PREPARE | NI_COMMIT | NI_ABORT

record NiRequest =
  nr_op :: NiOperation
  nr_txnid :: u64
  nr_arg0 :: bytes
  nr_arg1 :: bytes

record NiReply =
  ny_status :: int
  ny_value :: "bytes option"

text \<open>\<open>ns_status\<close> is what the uninitialised local variable \<open>status\<close> of \<open>ReplicaUpcall\<close> holds.\<close>

record ni_server_env =
  ns_parse :: "bytes \<Rightarrow> NiRequest"
  ns_serialize :: "NiReply \<Rightarrow> bytes"
  ns_status :: int

text \<open>\<open>std::stol\<close> in base 10.\<close>

definition stol :: "bytes \<Rightarrow> int result" where
  "stol s =
     (let s1 = dropWhile isspace (c_str s);
          neg = (take 1 s1 = ''-'');
          s2 = (if neg \<or> take 1 s1 = ''+'' then drop 1 s1 else s1);
          ds = takeWhile (is_digit_in 10) s2;
          v = (if neg then - digits_value 10 ds else digits_value 10 ds)
      in if ds = [] then Inl InvalidArgument
         else if v < - (2 ^ 63) \<or> 2 ^ 63 \<le> v then Inl OutOfRange
         else Inr v)"

section \<open>The store behind the server\<close>

datatype undo_call =
    Unbegin u64 | Unget u64 bytes | Unput u64 bytes bytes
  | Unprepare u64 opnum_t | Uncommit u64 u64 opnum_t | Unabort u64 opnum_t

record 's store_ops =
  so_step :: "'s txn_step"
  so_undo :: "undo_call \<Rightarrow> 's \<Rightarrow> 's result"
  so_specCommit :: "opnum_t \<Rightarrow> 's \<Rightarrow> 's"

text \<open>The base class: no state, \<open>get\<close> leaves the result parameter as it is, every status is 0.\<close>

definition base_store :: "unit store_ops" where
  "base_store = \<lparr>so_step = (\<lambda>c s. Inr (0, None, s)), so_undo = (\<lambda>c s. Inr s), so_specCommit = (\<lambda>opn s. s)\<rparr>"

definition occ_undo :: "bool \<Rightarrow> undo_call \<Rightarrow> OCCStore \<Rightarrow> OCCStore result" where
  "occ_undo na c s =
     (case c of
        Unbegin i \<Rightarrow> Inr (occ_unbegin i s)
      | Unget i key \<Rightarrow> occ_unget na i key s
      | Unput i key v \<Rightarrow> occ_unput na i key v s
      | Unprepare i opn \<Rightarrow> occ_unprepare na i opn s
      | Uncommit i ts opn \<Rightarrow> occ_uncommit na i ts opn s
      | Unabort i opn \<Rightarrow> occ_unabort na i opn s)"

definition occ_ops :: "bool \<Rightarrow> OCCStore store_ops" where
  "occ_ops na = \<lparr>so_step = occ_call_step na, so_undo = occ_undo na, so_specCommit = occ_specCommit\<rparr>"

definition lk_undo :: "ni_lock_env \<Rightarrow> undo_call \<Rightarrow> LockStore \<Rightarrow> LockStore result" where
  "lk_undo c u s =
     (case u of
        Unbegin i \<Rightarrow> Inr (lk_unbegin i s)
      | Unget i key \<Rightarrow> lk_unget i key s
      | Unput i key v \<Rightarrow> lk_unput (ni_nassert c) i key v s
      | Unprepare i opn \<Rightarrow> lk_unprepare (ni_nassert c) i opn s
      | Uncommit i ts opn \<Rightarrow> lk_uncommit c i ts opn s
      | Unabort i opn \<Rightarrow> lk_unabort c i opn s)"

definition lk_ops :: "ni_lock_env \<Rightarrow> LockStore store_ops" where
  "lk_ops c = \<lparr>so_step = lk_call_step c, so_undo = lk_undo c, so_specCommit = lk_specCommit\<rparr>"

section \<open>The upcalls\<close>

text \<open>The last assignment of the status wins, also for \<open>BEGIN\<close>, whose branch sets no \<open>status\<close>.\<close>

definition ReplicaUpcall ::
  "'s store_ops \<Rightarrow> ni_server_env \<Rightarrow> opnum_t \<Rightarrow> bytes \<Rightarrow> 's \<Rightarrow> (bytes \<times> 's) result" where
  "ReplicaUpcall S E opnum str1 s =
     (let req = ns_parse E str1; i = nr_txnid req;
          answer = (\<lambda>status v s'. Inr (ns_serialize E \<lparr>ny_status = status, ny_value = v\<rparr>, s'))
      in case nr_op req of
           NI_BEGIN \<Rightarrow>
             bind_r (so_step S (Begin i) s) (\<lambda>(r, v, s'). answer (ns_status E) None s')
         | NI_GET \<Rightarrow>
             bind_r (so_step S (Get i (nr_arg0 req)) s) (\<lambda>(r, v, s').
               answer r (Some (case v of None \<Rightarrow> '''' | Some x \<Rightarrow> x)) s')
         | NI_PUT \<Rightarrow>
             bind_r (so_step S (Put i (nr_arg0 req) (nr_arg1 req)) s) (\<lambda>(r, v, s'). answer r None s')
         | NI_PREPARE \<Rightarrow>
             bind_r (so_step S (Prepare i opnum) s) (\<lambda>(r, v, s'). answer r None s')
         | NI_COMMIT \<Rightarrow>
             bind_r (stol (nr_arg0 req)) (\<lambda>timestamp.
               bind_r (so_step S (Commit i (word_of_int timestamp) opnum) s) (\<lambda>(r, v, s'). answer 0 None s'))
         | NI_ABORT \<Rightarrow>
             bind_r (so_step S (Abort i opnum) s) (\<lambda>(r, v, s'). answer 0 None s'))"

definition undo_request :: "'s store_ops \<Rightarrow> ni_server_env \<Rightarrow> opnum_t \<times> bytes \<Rightarrow> 's \<Rightarrow> 's result" where
  "undo_request S E e s =
     (case e of (opnum, str) \<Rightarrow>
       let req = ns_parse E str; i = nr_txnid req
       in case nr_op req of
            NI_BEGIN \<Rightarrow> so_undo S (Unbegin i) s
          | NI_GET \<Rightarrow> so_undo S (Unget i (nr_arg0 req)) s
          | NI_PUT \<Rightarrow> so_undo S (Unput i (nr_arg0 req) (nr_arg1 req)) s
          | NI_PREPARE \<Rightarrow> so_undo S (Unprepare i opnum) s
          | NI_COMMIT \<Rightarrow>
              bind_r (stol (nr_arg0 req)) (\<lambda>timestamp. so_undo S (Uncommit i (word_of_int timestamp) opnum) s)
          | NI_ABORT \<Rightarrow> so_undo S (Unabort i opnum) s)"

definition RollbackUpcall :: "'s store_ops \<Rightarrow> ni_server_env \<Rightarrow> (opnum_t \<times> bytes) list \<Rightarrow> 's \<Rightarrow> 's result" where
  "RollbackUpcall S E opMap s = fold_r (undo_request S E) (rev opMap) s"

definition CommitUpcall :: "'s store_ops \<Rightarrow> opnum_t \<Rightarrow> 's \<Rightarrow> 's" where
  "CommitUpcall S opnum s = so_specCommit S opnum s"

text \<open>The reply of the last of a sequence of upcalls, numbered from \<open>n\<close> on.\<close>

fun upcalls :: "'s store_ops \<Rightarrow> ni_server_env \<Rightarrow> opnum_t \<Rightarrow> bytes list \<Rightarrow> 's \<Rightarrow> (bytes list \<times> 's) result" where
  "upcalls S E n [] s = Inr ([], s)"
| "upcalls S E n (x # xs) s =
     bind_r (ReplicaUpcall S E n x s) (\<lambda>(r, s'). bind_r (upcalls S E (n + 1) xs s') (\<lambda>(rs, s''). Inr (r # rs, s'')))"

section \<open>The server that is started\<close>

datatype NiProto =
    PROTO_UNKNOWN | PROTO_VR_LOCKING | PROTO_SPEC_LOCKING | PROTO_VR_OCC | PROTO_SPEC_OCC | PROTO_FAST_OCC
  | PROTO_PBFT | PROTO_MINBFT | PROTO_HOTSTUFF | PROTO_TOMBFT | PROTO_TOMBFT_HMAC

fun proto_value :: "NiProto \<Rightarrow> int" where
  "proto_value PROTO_UNKNOWN = 0"
| "proto_value PROTO_VR_LOCKING = 1"
| "proto_value PROTO_SPEC_LOCKING = 2"
| "proto_value PROTO_VR_OCC = 3"
| "proto_value PROTO_SPEC_OCC = 4"
| "proto_value PROTO_FAST_OCC = 5"
| "proto_value PROTO_PBFT = 6"
| "proto_value PROTO_MINBFT = 7"
| "proto_value PROTO_HOTSTUFF = 8"
| "proto_value PROTO_TOMBFT = 9"
| "proto_value PROTO_TOMBFT_HMAC = 10"

text \<open>The argument \<open>locking\<close> with which \<open>main\<close> constructs the server; the test is of a constant.\<close>

fun server_locking :: "NiProto \<Rightarrow> bool result" where
  "server_locking PROTO_VR_LOCKING = Inr (if proto_value PROTO_VR_LOCKING \<noteq> 0 then True else False)"
| "server_locking PROTO_VR_OCC = Inr (if proto_value PROTO_VR_LOCKING \<noteq> 0 then True else False)"
| "server_locking PROTO_SPEC_LOCKING = Inr (if proto_value PROTO_SPEC_LOCKING \<noteq> 0 then True else False)"
| "server_locking PROTO_SPEC_OCC = Inr (if proto_value PROTO_SPEC_LOCKING \<noteq> 0 then True else False)"
| "server_locking PROTO_FAST_OCC = Inr False"
| "server_locking PROTO_UNKNOWN = Inl Panicked"
| "server_locking _ = Inr True"

section \<open>What the server answers\<close>

definition replies_of :: "'s store_ops \<Rightarrow> ni_server_env \<Rightarrow> bytes list \<Rightarrow> 's \<Rightarrow> bytes list result" where
  "replies_of S E xs s = bind_r (upcalls S E 1 xs s) (\<lambda>(rs, s'). Inr rs)"

lemmas upcall_defs = ReplicaUpcall_def replies_of_def Let_def

lemma base_replies:
  assumes "ns_parse E p = \<lparr>nr_op = NI_PUT, nr_txnid = i, nr_arg0 = k, nr_arg1 = v\<rparr>"
    and "ns_parse E q = \<lparr>nr_op = NI_PREPARE, nr_txnid = i, nr_arg0 = x, nr_arg1 = y\<rparr>"
    and "ns_parse E c = \<lparr>nr_op = NI_COMMIT, nr_txnid = i, nr_arg0 = t, nr_arg1 = z\<rparr>" and "stol t = Inr ts"
    and "ns_parse E g = \<lparr>nr_op = NI_GET, nr_txnid = j, nr_arg0 = k, nr_arg1 = w\<rparr>"
  shows "replies_of base_store E [p, q, c, g] () =
    Inr (map (ns_serialize E) (replicate 3 \<lparr>ny_status = 0, ny_value = None\<rparr> @ [\<lparr>ny_status = 0, ny_value = Some ''''\<rparr>]))"
  using assms by (simp add: upcall_defs base_store_def numeral_3_eq_3)

lemma occ_replies_value:
  assumes "ns_parse E p = \<lparr>nr_op = NI_PUT, nr_txnid = i, nr_arg0 = k, nr_arg1 = v\<rparr>"
    and "ns_parse E q = \<lparr>nr_op = NI_PREPARE, nr_txnid = i, nr_arg0 = x, nr_arg1 = y\<rparr>"
    and "ns_parse E c = \<lparr>nr_op = NI_COMMIT, nr_txnid = i, nr_arg0 = t, nr_arg1 = z\<rparr>" and "stol t = Inr ts"
    and "ns_parse E g = \<lparr>nr_op = NI_GET, nr_txnid = j, nr_arg0 = k, nr_arg1 = w\<rparr>"
  shows "replies_of (occ_ops na) E [p, q, c, g] OCCStore_new =
    Inr (map (ns_serialize E) (replicate 3 \<lparr>ny_status = 0, ny_value = None\<rparr> @ [\<lparr>ny_status = 0, ny_value = Some v\<rparr>]))"
  using assms
  by (simp add: upcall_defs occ_ops_def numeral_3_eq_3 occ_call_step_def occ_put_def getTxn_def OCCStore_new_def
      OCCTransaction_new_def put_running_def written_def occ_prepare_def getPreparedWrites_def
      getPreparedReadWrites_def valid_writes_def put_prepared_def drop_running_def occ_commit_def commit_write_def
      vkv_put_def NiVersionedKVStore_new_def drop_prepared_def push_retired_def occ_get_def read_in_txn_def vkv_get_def)

lemma lk_replies_value:
  assumes "ns_parse E p = \<lparr>nr_op = NI_PUT, nr_txnid = i, nr_arg0 = k, nr_arg1 = v\<rparr>"
    and "ns_parse E q = \<lparr>nr_op = NI_PREPARE, nr_txnid = i, nr_arg0 = x, nr_arg1 = y\<rparr>"
    and "ns_parse E c = \<lparr>nr_op = NI_COMMIT, nr_txnid = i, nr_arg0 = t, nr_arg1 = z\<rparr>" and "stol t = Inr ts"
    and "ns_parse E g = \<lparr>nr_op = NI_GET, nr_txnid = j, nr_arg0 = k, nr_arg1 = w\<rparr>"
  shows "replies_of (lk_ops L) E [p, q, c, g] LockStore_new =
    Inr (map (ns_serialize E) (replicate 3 \<lparr>ny_status = 0, ny_value = None\<rparr> @ [\<lparr>ny_status = 0, ny_value = Some v\<rparr>]))"
  using assms
  by (simp add: upcall_defs lk_ops_def numeral_3_eq_3 lk_call_step_def lk_put_def lk_getTxn_def LockStore_new_def
      NiTransaction_new_def lk_put_running_def written_def lk_prepare_def lk_put_prepared_def lk_drop_running_def
      lk_commit_def lk_commit_write_def kv_put_def KVStore_new_def dropLocks_def lk_retire_def lk_drop_prepared_def
      lk_get_def kv_get_def ni_lockForWrite_def ni_lockForRead_def NiLockServer_new_def ni_lock_at_def new_NiLock_def
      ni_tryAcquireLock_def ni_put_def ni_releaseForWrite_def)


text \<open>A parser of one-letter requests: \<open>p\<close>, \<open>q\<close> and \<open>c\<close> of transaction 1, \<open>g\<close> of transaction 2.\<close>

definition letters :: ni_server_env where
  "letters = \<lparr>ns_parse = (\<lambda>s. if s = ''p'' then \<lparr>nr_op = NI_PUT, nr_txnid = 1, nr_arg0 = ''k'', nr_arg1 = ''v''\<rparr>
       else if s = ''q'' then \<lparr>nr_op = NI_PREPARE, nr_txnid = 1, nr_arg0 = '''', nr_arg1 = ''''\<rparr>
       else if s = ''c'' then \<lparr>nr_op = NI_COMMIT, nr_txnid = 1, nr_arg0 = ''10'', nr_arg1 = ''''\<rparr>
       else if s = ''g'' then \<lparr>nr_op = NI_GET, nr_txnid = 2, nr_arg0 = ''k'', nr_arg1 = ''''\<rparr>
       else \<lparr>nr_op = NI_BEGIN, nr_txnid = 1, nr_arg0 = '''', nr_arg1 = ''''\<rparr>),
     ns_serialize = (\<lambda>r. case ny_value r of None \<Rightarrow> ''-'' | Some v \<Rightarrow> ''+'' @ v), ns_status = 77\<rparr>"


text \<open>
  \<open>main\<close> tests the constant \<open>PROTO_VR_LOCKING\<close> (or \<open>PROTO_SPEC_LOCKING\<close>) instead of the selected
  mode, so the modes \<open>vr-occ\<close> and \<open>spec-occ\<close> construct the locking server; and the reply to a
  \<open>BEGIN\<close> carries whatever the uninitialised variable \<open>status\<close> holds, not the 0 it was set to.
\<close>

theorem server_modes_and_begin:
  "server_locking PROTO_VR_OCC = server_locking PROTO_VR_LOCKING
   \<and> server_locking PROTO_SPEC_OCC = server_locking PROTO_SPEC_LOCKING
   \<and> (nr_op (ns_parse E x) = NI_BEGIN \<longrightarrow>
       ReplicaUpcall base_store E n x () = Inr (ns_serialize E \<lparr>ny_status = ns_status E, ny_value = None\<rparr>, ()))"
  by (simp add: upcall_defs base_store_def)

end
