(* ===== verification/NOTypes.thy ===== *)
theory NOTypes
  imports Configuration QuorumSets Transport
begin

text \<open>
  The messages of \<open>src/replication/nopaxos/nopaxos-proto.proto\<close> and the state of a
  Network-Ordered Paxos replica (\<open>src/replication/nopaxos/replica.h\<close>).

  As for Viewstamped Replication, a handler returns the new state, and what it sends and the
  upcalls it makes are appended to the field \<open>np_sent\<close>, in order.
\<close>

section \<open>Messages\<close>

datatype NOReplyMessage = NOReplyMessage
  (nrp_view: view_t) (nrp_sessnum: sessnum_t) (nrp_opnum: opnum_t) (nrp_clientreqid: u64)
  (nrp_replicaidx: u32) (nrp_reply: "bytes option")

datatype NOToClientMessage =
    NOClientMsgNotSet
  | NReply NOReplyMessage
  | NUnloggedReply bytes

datatype NORequestMessage = NORequestMessage
  (rq_sessnum: sessnum_t) (rq_msgnum: msgnum_t) (rq_req: Request)

datatype NOGapRequestMessage = NOGapRequestMessage
  (gr_view: view_t) (gr_sessnum: sessnum_t) (gr_opnum: opnum_t)

datatype NOGapReplyMessage = NOGapReplyMessage
  (gp_view: view_t) (gp_sessnum: sessnum_t) (gp_opnum: opnum_t) (gp_isfound: bool) (gp_isgap: bool)
  (gp_replicaidx: u32) (gp_req: "Request option")

datatype NOStateTransferRequestMessage = NOStateTransferRequestMessage
  (sr_sessnum: sessnum_t) (sr_view: view_t) (sr_begin: opnum_t) (sr_end: opnum_t)

datatype NOStateTransferReplyMessage = NOStateTransferReplyMessage
  (sy_sessnum: sessnum_t) (sy_view: view_t) (sy_begin: opnum_t) (sy_end: opnum_t)
  (sy_entries: "MsgLogEntry list")

datatype NOGapCommitMessage = NOGapCommitMessage
  (gc_sessnum: sessnum_t) (gc_view: view_t) (gc_opnum: opnum_t)

datatype NOGapCommitReplyMessage = NOGapCommitReplyMessage
  (gcr_sessnum: sessnum_t) (gcr_view: view_t) (gcr_opnum: opnum_t) (gcr_replicaidx: u32)

datatype NOViewChangeRequestMessage = NOViewChangeRequestMessage
  (vcr_sessnum: sessnum_t) (vcr_view: view_t)

datatype NOViewChangeMessage = NOViewChangeMessage
  (vc_sessnum: sessnum_t) (vc_view: view_t) (vc_lastnormalsessnum: sessnum_t)
  (vc_lastnormalview: view_t) (vc_lastop: opnum_t) (vc_committedgaps: "opnum_t list")
  (vc_replicaidx: u32)

datatype NOStartViewMessage = NOStartViewMessage
  (nsv_sessnum: sessnum_t) (nsv_view: view_t) (nsv_lastnormalsessnum: sessnum_t)
  (nsv_lastnormalview: view_t) (nsv_lastop: opnum_t) (nsv_committedgaps: "opnum_t list")

datatype NOStartViewReplyMessage = NOStartViewReplyMessage
  (svr_sessnum: sessnum_t) (svr_view: view_t) (svr_replicaidx: u32)

datatype NOSyncPrepareRequestMessage = NOSyncPrepareRequestMessage
  (spr_sessnum: sessnum_t) (spr_view: view_t)

datatype NOSyncPrepareMessage = NOSyncPrepareMessage
  (sp_sessnum: sessnum_t) (sp_view: view_t) (sp_lastop: opnum_t) (sp_committedgaps: "opnum_t list")

datatype NOSyncPrepareReplyMessage = NOSyncPrepareReplyMessage
  (spp_sessnum: sessnum_t) (spp_view: view_t) (spp_syncpoint: opnum_t) (spp_replicaidx: u32)

datatype NOSyncCommitMessage = NOSyncCommitMessage
  (sc_sessnum: sessnum_t) (sc_view: view_t) (sc_syncpoint: opnum_t)

datatype NOToReplicaMessage =
    NOReplicaMsgNotSet
  | NRequest NORequestMessage
  | NUnloggedRequest UnloggedRequest
  | NGapRequest NOGapRequestMessage
  | NGapReply NOGapReplyMessage
  | NStateTransferRequest NOStateTransferRequestMessage
  | NStateTransferReply NOStateTransferReplyMessage
  | NGapCommit NOGapCommitMessage
  | NGapCommitReply NOGapCommitReplyMessage
  | NViewChangeRequest NOViewChangeRequestMessage
  | NViewChange NOViewChangeMessage
  | NStartView NOStartViewMessage
  | NStartViewReply NOStartViewReplyMessage
  | NSyncPrepareRequest NOSyncPrepareRequestMessage
  | NSyncPrepare NOSyncPrepareMessage
  | NSyncPrepareReply NOSyncPrepareReplyMessage
  | NSyncCommit NOSyncCommitMessage

text \<open>What a replica does to its surroundings.\<close>

datatype no_effect =
    NSendToAll NOToReplicaMessage
  | NSendToReplica int NOToReplicaMessage
  | NSend TransportAddress NOToReplicaMessage
  | NSendToClient TransportAddress NOToClientMessage
  | NExecuted opnum_t bytes

section \<open>The surroundings and the state of a replica\<close>

text \<open>\<open>ne_lookup\<close> is the transport's \<open>LookupAddress\<close>.\<close>

record 'app no_env = log_env +
  ne_config :: Configuration
  ne_idx :: int
  ne_app_code :: "'app AppReplica"
  ne_lookup :: "ReplicaAddress \<Rightarrow> TransportAddress"

record NOClientTableEntry =
  ne_lastReqId :: u64
  ne_reply :: NOReplyMessage

text \<open>What the code assigns to the \<open>std::function\<close> that completes a state transfer.\<close>

datatype no_callback = NoCallback | EnterViewCallback | SyncPrepareCallback opnum_t

record 'app no_replica =
  np_status :: ReplicaStatus
  np_log :: Log
  np_view :: view_t
  np_sessnum :: sessnum_t
  np_lastOp :: opnum_t
  np_nextMsgnum :: msgnum_t
  np_lastNormalView :: view_t
  np_lastNormalSessnum :: sessnum_t
  np_lastCommittedOp :: opnum_t
  np_lastExecutedOp :: opnum_t
  np_clientTable :: "u64 \<rightharpoonup> NOClientTableEntry"
  np_pendingRequests :: "NORequestMessage list"
  np_pendingRequestsSorted :: bool
  np_gapReplyQuorum :: "(opnum_t, NOGapReplyMessage) QuorumSet"
  np_gapCommitQuorum :: "(opnum_t, NOGapCommitReplyMessage) QuorumSet"
  np_viewChangeQuorum :: "(sessnum_t \<times> view_t, NOViewChangeMessage) QuorumSet"
  np_startViewQuorum :: "(sessnum_t \<times> view_t, NOStartViewReplyMessage) QuorumSet"
  np_syncPrepareQuorum :: "(opnum_t, NOSyncPrepareReplyMessage) QuorumSet"
  np_committedGaps :: "opnum_t list"
  np_gapRequestTimeout :: Timeout
  np_gapCommitTimeout :: Timeout
  np_viewChangeTimeout :: Timeout
  np_stateTransferTimeout :: Timeout
  np_startViewTimeout :: Timeout
  np_syncTimeout :: Timeout
  np_leaderSyncHeardTimeout :: Timeout
  np_stateTransferOpBegin :: opnum_t
  np_stateTransferOpEnd :: opnum_t
  np_stateTransferReplicaIdx :: u32
  np_stateTransferCallback :: no_callback
  np_startViewLastNormalSessnum :: sessnum_t
  np_startViewLastNormalView :: view_t
  np_startViewLastOp :: opnum_t
  np_startViewCommittedGaps :: "opnum_t list"
  np_leaderLastSyncPreparePoint :: opnum_t
  np_leaderLastSyncCommittedGaps :: "opnum_t list"
  np_receivedSyncPreparePoints :: "opnum_t list"
  np_receivedSyncCommitPoints :: "opnum_t list"
  np_app :: 'app
  np_sent :: "no_effect list"

definition MAX_SYNC_TRANSFER_OPS :: opnum_t where
  "MAX_SYNC_TRANSFER_OPS = 10"

definition np_emit :: "no_effect \<Rightarrow> 'app no_replica \<Rightarrow> 'app no_replica" where
  "np_emit e s = s\<lparr>np_sent := np_sent s @ [e]\<rparr>"

text \<open>A request no field of which has been set.\<close>

definition empty_Request :: Request where
  "empty_Request = \<lparr>op = '''', clientid = 0, clientreqid = 0, ops = [], req_sessnum = None, clientaddr = None\<rparr>"

end
