(* ===== verification/NOReplica.thy ===== *)
theory NOReplica
  imports NOTypes "HOL-Library.Product_Lexorder"
begin

text \<open>
  \<open>src/replication/nopaxos/replica.cc\<close>: a Network-Ordered Paxos replica, one definition per
  function. The sequencer in the network stamps every client request with its session and the
  number of the message in the session; replicas log requests in that order, agree on a gap
  (\<open>NOOP\<close>) for a request that is lost, and synchronise with the leader at intervals, up to
  where operations are committed. Only the leader of the view executes at once.
\<close>

section \<open>Sending\<close>

definition np_AmLeader :: "'app no_env \<Rightarrow> 'app no_replica \<Rightarrow> bool" where
  "np_AmLeader c s = (GetLeaderIndex (ne_config c) (np_view s) = ne_idx c)"

definition ne_u32 :: "'app no_env \<Rightarrow> u32" where
  "ne_u32 c = word_of_int (ne_idx c)"

text \<open>\<open>SendMessageToReplica(this, configuration.GetLeaderIndex(view), m)\<close>\<close>

definition np_to_leader :: "'app no_env \<Rightarrow> NOToReplicaMessage \<Rightarrow> 'app no_replica \<Rightarrow> 'app no_replica" where
  "np_to_leader c m s = np_emit (NSendToReplica (GetLeaderIndex (ne_config c) (np_view s)) m) s"

text \<open>\<open>SendMessage(this, *LookupAddress(ReplicaAddress(request.clientaddr())), m)\<close>\<close>

definition np_to_client :: "'app no_env \<Rightarrow> Request \<Rightarrow> NOReplyMessage \<Rightarrow> 'app no_replica \<Rightarrow> 'app no_replica" where
  "np_to_client c req r s =
     (let addr = (case clientaddr req of None \<Rightarrow> '''' | Some a \<Rightarrow> a)
      in np_emit (NSendToClient (ne_lookup c (parse_ReplicaAddress addr)) (NReply r)) s)"

definition np_SendGapRequest :: "'app no_env \<Rightarrow> 'app no_replica \<Rightarrow> 'app no_replica" where
  "np_SendGapRequest c s =
     (let m = NGapRequest (NOGapRequestMessage (np_view s) (np_sessnum s) (np_lastOp s + 1));
          s1 = (if \<not> np_AmLeader c s then np_to_leader c m s else np_emit (NSendToAll m) s)
      in s1\<lparr>np_gapRequestTimeout := Timeout_Reset (np_gapRequestTimeout s1)\<rparr>)"

definition np_SendGapCommit :: "'app no_env \<Rightarrow> 'app no_replica \<Rightarrow> 'app no_replica result" where
  "np_SendGapCommit c s =
     assert_r (nassert c) (np_AmLeader c s)
       (assert_r (nassert c) (np_status s = STATUS_GAP_COMMIT)
         (let s1 = np_emit (NSendToAll (NGapCommit
                     (NOGapCommitMessage (np_sessnum s) (np_view s) (np_lastOp s)))) s
          in Inr (s1\<lparr>np_gapCommitTimeout := Timeout_Reset (np_gapCommitTimeout s1)\<rparr>)))"

definition np_SendViewChange :: "'app no_env \<Rightarrow> 'app no_replica \<Rightarrow> 'app no_replica" where
  "np_SendViewChange c s =
     (let s1 = np_emit (NSendToAll (NViewChangeRequest
                 (NOViewChangeRequestMessage (np_sessnum s) (np_view s)))) s;
          s2 = (if \<not> np_AmLeader c s1 then
                  np_to_leader c (NViewChange (NOViewChangeMessage (np_sessnum s1) (np_view s1)
                    (np_lastNormalSessnum s1) (np_lastNormalView s1) (np_lastOp s1)
                    (np_committedGaps s1) (ne_u32 c))) s1
                else s1)
      in s2\<lparr>np_viewChangeTimeout := Timeout_Reset (np_viewChangeTimeout s2)\<rparr>)"

definition np_SendStateTransferRequest :: "'app no_replica \<Rightarrow> 'app no_replica" where
  "np_SendStateTransferRequest s =
     (let s1 = np_emit (NSendToReplica (int_of_u32 (np_stateTransferReplicaIdx s))
                 (NStateTransferRequest (NOStateTransferRequestMessage (np_sessnum s) (np_view s)
                    (np_stateTransferOpBegin s) (np_stateTransferOpEnd s)))) s
      in s1\<lparr>np_stateTransferTimeout := Timeout_Reset (np_stateTransferTimeout s1)\<rparr>)"

definition np_startViewMessage :: "'app no_replica \<Rightarrow> NOToReplicaMessage" where
  "np_startViewMessage s =
     NStartView (NOStartViewMessage (np_sessnum s) (np_view s) (np_startViewLastNormalSessnum s)
       (np_startViewLastNormalView s) (np_startViewLastOp s) (np_startViewCommittedGaps s))"

definition np_SendStartView :: "'app no_env \<Rightarrow> 'app no_replica \<Rightarrow> 'app no_replica result" where
  "np_SendStartView c s =
     assert_r (nassert c) (np_AmLeader c s)
       (let s1 = np_emit (NSendToAll (np_startViewMessage s)) s
        in Inr (s1\<lparr>np_startViewTimeout := Timeout_Reset (np_startViewTimeout s1)\<rparr>))"

definition np_SendStartViewReply :: "'app no_env \<Rightarrow> 'app no_replica \<Rightarrow> 'app no_replica result" where
  "np_SendStartViewReply c s =
     assert_r (nassert c) (\<not> np_AmLeader c s)
       (assert_r (nassert c) (np_status s \<noteq> STATUS_VIEW_CHANGE)
         (Inr (np_to_leader c (NStartViewReply
            (NOStartViewReplyMessage (np_sessnum s) (np_view s) (ne_u32 c))) s)))"

definition np_SendSyncPrepare :: "'app no_env \<Rightarrow> 'app no_replica \<Rightarrow> 'app no_replica result" where
  "np_SendSyncPrepare c s =
     assert_r (nassert c) (np_AmLeader c s)
       (let s1 = s\<lparr>np_leaderLastSyncPreparePoint := np_lastOp s,
                   np_leaderLastSyncCommittedGaps := np_committedGaps s\<rparr>
        in Inr (np_emit (NSendToAll (NSyncPrepare (NOSyncPrepareMessage (np_sessnum s1) (np_view s1)
             (np_lastOp s1) (np_leaderLastSyncCommittedGaps s1)))) s1))"

definition np_SendSyncCommit :: "'app no_env \<Rightarrow> 'app no_replica \<Rightarrow> 'app no_replica result" where
  "np_SendSyncCommit c s =
     assert_r (nassert c) (np_AmLeader c s)
       (Inr (np_emit (NSendToAll (NSyncCommit
          (NOSyncCommitMessage (np_sessnum s) (np_view s) (np_lastCommittedOp s)))) s))"

section \<open>Executing and committing\<close>

text \<open>\<open>clientTable[id]\<close> creates an entry with number 0 and an empty reply.\<close>

definition np_UpdateClientTable ::
  "'app no_env \<Rightarrow> Request \<Rightarrow> NOReplyMessage \<Rightarrow> 'app no_replica \<Rightarrow> 'app no_replica result" where
  "np_UpdateClientTable c req reply s =
     (let entry = (case np_clientTable s (clientid req) of
                     None \<Rightarrow> \<lparr>ne_lastReqId = 0, ne_reply = NOReplyMessage 0 0 0 0 0 None\<rparr>
                   | Some e \<Rightarrow> e)
      in assert_r (nassert c) (ne_lastReqId entry \<le> clientreqid req)
        (let entry' = (if ne_lastReqId entry = clientreqid req then entry
                       else let e = entry\<lparr>ne_lastReqId := clientreqid req\<rparr>
                            in if np_AmLeader c s then e\<lparr>ne_reply := reply\<rparr> else e)
         in Inr (s\<lparr>np_clientTable := (np_clientTable s)(clientid req \<mapsto> entry')\<rparr>)))"

text \<open>
  The body of the loop of \<open>ExecuteUptoOp\<close>: the entry's reply, found in the client table for a
  repeated request (\<open>None\<close>: a stale request, which is skipped), else by executing it, and the
  answer to the client.
\<close>

definition np_recorded_reply :: "Request \<Rightarrow> 'app no_replica \<Rightarrow> bytes option" where
  "np_recorded_reply req s =
     (case np_clientTable s (clientid req) of
        None \<Rightarrow> None
      | Some e \<Rightarrow>
          if clientreqid req = ne_lastReqId e
          then Some (case nrp_reply (ne_reply e) of None \<Rightarrow> '''' | Some x \<Rightarrow> x) else None)"

definition np_stale :: "Request \<Rightarrow> 'app no_replica \<Rightarrow> bool" where
  "np_stale req s =
     (case np_clientTable s (clientid req) of
        None \<Rightarrow> False | Some e \<Rightarrow> clientreqid req < ne_lastReqId e)"

definition np_answer ::
  "'app no_env \<Rightarrow> opnum_t \<Rightarrow> LogEntry \<Rightarrow> bytes option \<Rightarrow> 'app no_replica \<Rightarrow> 'app no_replica result" where
  "np_answer c opn entry reply s =
     (if GetLeaderIndex (ne_config c) (vs_view (viewstamp entry)) = ne_idx c then
        assert_r (nassert c) (reply \<noteq> None)
          (Inr (np_to_client c (request entry)
             (NOReplyMessage (vs_view (viewstamp entry)) (vs_sessnum (viewstamp entry)) opn
                (clientreqid (request entry)) (ne_u32 c) reply) s))
      else Inr s)"

definition np_ExecuteEntry :: "'app no_env \<Rightarrow> opnum_t \<Rightarrow> LogEntry \<Rightarrow> 'app no_replica \<Rightarrow> 'app no_replica result" where
  "np_ExecuteEntry c opn entry s =
     (let req = request entry
      in if np_stale req s then Inr s
         else case np_recorded_reply req s of
                Some r \<Rightarrow> np_answer c opn entry (Some r) s
              | None \<Rightarrow>
                  let (res, a) = Execute (ne_app_code c) opn req None (np_app s);
                      s1 = np_emit (NExecuted opn (op req)) (s\<lparr>np_app := a\<rparr>)
                  in bind_r (np_UpdateClientTable c req (NOReplyMessage 0 0 0 0 0 (Some res)) s1)
                       (np_answer c opn entry (Some res)))"

definition np_ExecuteOp :: "'app no_env \<Rightarrow> opnum_t \<Rightarrow> 'app no_replica \<Rightarrow> 'app no_replica result" where
  "np_ExecuteOp c opn s0 =
     assert_r (nassert c) (opn \<le> np_lastOp s0)
       (bind_r (Find c opn (np_log s0)) (\<lambda>found.
          deref_r found (\<lambda>entry.
            assert_r (nassert c) (opn = vs_opnum (viewstamp entry))
              (let s = s0\<lparr>np_lastExecutedOp := opn\<rparr>
               in if state entry = LOG_STATE_RECEIVED then np_ExecuteEntry c opn entry s else Inr s))))"

definition np_ExecuteUptoOp :: "'app no_env \<Rightarrow> opnum_t \<Rightarrow> 'app no_replica \<Rightarrow> 'app no_replica result" where
  "np_ExecuteUptoOp c opnum s =
     (if opnum \<le> np_lastExecutedOp s then Inr s
      else if opnum > np_lastOp s then Inl Panicked
      else fold_r (np_ExecuteOp c) (op_range (np_lastExecutedOp s + 1) opnum) s)"

definition np_CommitUptoOp :: "'app no_env \<Rightarrow> opnum_t \<Rightarrow> 'app no_replica \<Rightarrow> 'app no_replica result" where
  "np_CommitUptoOp c opnum s =
     (if opnum \<le> np_lastCommittedOp s then Inr s
      else if opnum > np_lastOp s then Inl Panicked
      else
        let s1 = s\<lparr>np_lastCommittedOp := opnum\<rparr>
        in bind_r (if np_AmLeader c s1 then np_SendSyncCommit c s1 else Inr s1) (np_ExecuteUptoOp c opnum))"

section \<open>Views\<close>

definition np_ClearTimeoutAndQuorums :: "'app no_replica \<Rightarrow> 'app no_replica" where
  "np_ClearTimeoutAndQuorums s =
     s\<lparr>np_gapRequestTimeout := Timeout_Stop (np_gapRequestTimeout s),
       np_gapReplyQuorum := QS_ClearAll (np_gapReplyQuorum s),
       np_gapCommitTimeout := Timeout_Stop (np_gapCommitTimeout s),
       np_gapCommitQuorum := QS_ClearAll (np_gapCommitQuorum s),
       np_viewChangeTimeout := Timeout_Stop (np_viewChangeTimeout s),
       np_viewChangeQuorum := QS_ClearAll (np_viewChangeQuorum s),
       np_stateTransferTimeout := Timeout_Stop (np_stateTransferTimeout s),
       np_startViewTimeout := Timeout_Stop (np_startViewTimeout s),
       np_startViewQuorum := QS_ClearAll (np_startViewQuorum s),
       np_syncTimeout := Timeout_Stop (np_syncTimeout s),
       np_syncPrepareQuorum := QS_ClearAll (np_syncPrepareQuorum s),
       np_leaderSyncHeardTimeout := Timeout_Stop (np_leaderSyncHeardTimeout s),
       np_receivedSyncPreparePoints := [],
       np_receivedSyncCommitPoints := [],
       np_stateTransferOpBegin := 0,
       np_stateTransferOpEnd := 0\<rparr>"

text \<open>The loop of \<open>StartViewChange\<close> removes the committed gaps beyond the log, from the last one on.\<close>

definition np_drop_late_gaps :: "opnum_t \<Rightarrow> opnum_t list \<Rightarrow> opnum_t list" where
  "np_drop_late_gaps lastOp gaps = rev (dropWhile (\<lambda>g. g > lastOp) (rev gaps))"

definition np_StartViewChange ::
  "'app no_env \<Rightarrow> sessnum_t \<Rightarrow> view_t \<Rightarrow> 'app no_replica \<Rightarrow> 'app no_replica result" where
  "np_StartViewChange c newsessnum newview s0 =
     assert_r (nassert c) (newsessnum > np_sessnum s0 \<or> newview > np_view s0)
       (let ns = (if newsessnum > np_sessnum s0 then newsessnum else np_sessnum s0);
            nv = (if newview > np_view s0 then newview else np_view s0);
            s1 = np_ClearTimeoutAndQuorums s0;
            s2 = s1\<lparr>np_sessnum := ns, np_view := nv\<rparr>;
            s3 = (if ns > vs_sessnum (LastViewstamp (np_log s2)) then s2\<lparr>np_nextMsgnum := 1\<rparr> else s2);
            s4 = s3\<lparr>np_status := STATUS_VIEW_CHANGE,
                    np_committedGaps := np_drop_late_gaps (np_lastOp s3) (np_committedGaps s3)\<rparr>
        in Inr (np_SendViewChange c s4))"

definition np_EnterView ::
  "'app no_env \<Rightarrow> sessnum_t \<Rightarrow> view_t \<Rightarrow> 'app no_replica \<Rightarrow> 'app no_replica result" where
  "np_EnterView c newsessnum newview s0 =
     assert_r (nassert c) (newsessnum \<ge> np_sessnum s0)
       (assert_r (nassert c) (newview \<ge> np_view s0)
         (let s1 = (if newsessnum > vs_sessnum (LastViewstamp (np_log s0)) then s0\<lparr>np_nextMsgnum := 1\<rparr> else s0);
              s2 = s1\<lparr>np_sessnum := newsessnum, np_view := newview,
                      np_lastNormalSessnum := newsessnum, np_lastNormalView := newview,
                      np_status := STATUS_NORMAL\<rparr>;
              s3 = np_ClearTimeoutAndQuorums s2
          in if np_AmLeader c s3 then
               bind_r (np_ExecuteUptoOp c (np_lastOp s3) s3) (\<lambda>s4.
                 let s5 = s4\<lparr>np_syncTimeout := Timeout_Start (np_syncTimeout s4)\<rparr>
                 in assert_r (nassert c) (np_leaderLastSyncPreparePoint s5 \<le> np_lastOp s5)
                      (np_SendStartView c (s5\<lparr>np_leaderLastSyncPreparePoint := np_lastOp s5,
                         np_leaderLastSyncCommittedGaps := np_committedGaps s5\<rparr>)))
             else
               np_SendStartViewReply c (s3\<lparr>
                 np_leaderSyncHeardTimeout := Timeout_Start (np_leaderSyncHeardTimeout s3),
                 np_receivedSyncPreparePoints :=
                   sset_insert (np_lastOp s3) (np_receivedSyncPreparePoints s3)\<rparr>)))"

definition np_ProcessSyncPrepare :: "'app no_env \<Rightarrow> opnum_t \<Rightarrow> 'app no_replica \<Rightarrow> 'app no_replica result" where
  "np_ProcessSyncPrepare c syncpoint s =
     assert_r (nassert c) (\<not> np_AmLeader c s)
       (if syncpoint \<in> set (np_receivedSyncCommitPoints s) then
          bind_r (np_CommitUptoOp c syncpoint s) (\<lambda>s1.
            Inr (s1\<lparr>np_receivedSyncPreparePoints := sset_erase syncpoint (np_receivedSyncPreparePoints s1),
                    np_receivedSyncCommitPoints := sset_erase syncpoint (np_receivedSyncCommitPoints s1)\<rparr>))
        else
          Inr (np_to_leader c (NSyncPrepareReply
            (NOSyncPrepareReplyMessage (np_sessnum s) (np_view s) syncpoint (ne_u32 c))) s))"

definition np_callback :: "'app no_env \<Rightarrow> 'app no_replica \<Rightarrow> 'app no_replica result" where
  "np_callback c s =
     (case np_stateTransferCallback s of
        NoCallback \<Rightarrow> Inl BadFunctionCall
      | EnterViewCallback \<Rightarrow> np_EnterView c (np_sessnum s) (np_view s) s
      | SyncPrepareCallback syncpoint \<Rightarrow> np_ProcessSyncPrepare c syncpoint s)"

section \<open>The next operation\<close>

text \<open>\<open>ProcessNextOperation\<close> up to its last step, in which it calls itself for a gap that is already known.\<close>

text \<open>The pieces: cancel a gap request, settle the new entry, complete a state transfer.\<close>

definition np_StopGapRequest :: "'app no_replica \<Rightarrow> 'app no_replica" where
  "np_StopGapRequest s =
     (if Timeout_Active (np_gapRequestTimeout s)
      then s\<lparr>np_gapRequestTimeout := Timeout_Stop (np_gapRequestTimeout s),
             np_gapReplyQuorum := QS_ClearAll (np_gapReplyQuorum s)\<rparr>
      else s)"

definition np_SettleEntry ::
  "'app no_env \<Rightarrow> Request \<Rightarrow> viewstamp_t \<Rightarrow> LogEntryState \<Rightarrow> 'app no_replica \<Rightarrow> 'app no_replica result" where
  "np_SettleEntry c req vs st s =
     (if st = LOG_STATE_NOOP
      then Inr (s\<lparr>np_committedGaps := sset_insert (np_lastOp s) (np_committedGaps s)\<rparr>)
      else if st = LOG_STATE_RECEIVED then
        (if GetLeaderIndex (ne_config c) (vs_view vs) = ne_idx c
         then np_ExecuteUptoOp c (vs_opnum vs) s
         else Inr (np_to_client c req (NOReplyMessage (vs_view vs) (vs_sessnum vs) (vs_opnum vs)
                     (clientreqid req) (ne_u32 c) None) s))
      else Inr s)"

definition np_TransferDone :: "'app no_env \<Rightarrow> opnum_t \<Rightarrow> 'app no_replica \<Rightarrow> 'app no_replica result" where
  "np_TransferDone c opn s =
     (if opn = np_stateTransferOpEnd s
      then np_callback c (s\<lparr>np_stateTransferTimeout := Timeout_Stop (np_stateTransferTimeout s)\<rparr>)
      else Inr s)"

definition np_AppendOperation ::
  "'app no_env \<Rightarrow> Request \<Rightarrow> viewstamp_t \<Rightarrow> LogEntryState \<Rightarrow> 'app no_replica \<Rightarrow> 'app no_replica result" where
  "np_AppendOperation c req vs st0 s0 =
     assert_r (nassert c) (vs_opnum vs = np_lastOp s0 + 1)
       (let s = s0\<lparr>np_lastOp := vs_opnum vs, np_nextMsgnum := vs_msgnum vs + 1\<rparr>;
            st = (if vs_opnum vs \<in> set (np_committedGaps s) then LOG_STATE_NOOP else st0)
        in bind_r (Append c (mk_LogEntry vs st req) (np_log s)) (\<lambda>l.
             bind_r (np_SettleEntry c req vs st (np_StopGapRequest (s\<lparr>np_log := l\<rparr>)))
               (np_TransferDone c (vs_opnum vs))))"

subsection \<open>Nothing but \<open>Append\<close> changes the log there\<close>

text \<open>\<open>keeps s s'\<close>: the log, its end, the committed gaps and the pending requests are as before.\<close>

definition np_keeps :: "'app no_replica \<Rightarrow> 'app no_replica \<Rightarrow> bool" where
  "np_keeps s s' \<longleftrightarrow> np_log s' = np_log s \<and> np_lastOp s' = np_lastOp s \<and>
     np_committedGaps s' = np_committedGaps s \<and> np_pendingRequests s' = np_pendingRequests s"

lemma np_keeps_refl [simp]: "np_keeps s s"
  by (simp add: np_keeps_def)

lemma np_keeps_trans [trans]: "np_keeps s t \<Longrightarrow> np_keeps t u \<Longrightarrow> np_keeps s u"
  by (simp add: np_keeps_def)

text \<open>Executing changes only how far it has got, the client table, the application and what is sent.\<close>

definition np_executes :: "'app no_replica \<Rightarrow> 'app no_replica \<Rightarrow> bool" where
  "np_executes s s' \<longleftrightarrow> (\<exists>le ct a es. s' = s\<lparr>np_lastExecutedOp := le, np_clientTable := ct, np_app := a, np_sent := es\<rparr>)"

lemma np_executes_refl: "np_executes s s"
  unfolding np_executes_def
  by (rule exI [of _ "np_lastExecutedOp s"], rule exI [of _ "np_clientTable s"], rule exI [of _ "np_app s"],
      rule exI [of _ "np_sent s"]) simp

lemma np_executes_update:
  assumes "np_executes s t"
  shows "np_executes s (t\<lparr>np_lastExecutedOp := le'\<rparr>)" and "np_executes s (t\<lparr>np_clientTable := ct'\<rparr>)"
    and "np_executes s (t\<lparr>np_app := a'\<rparr>)" and "np_executes s (np_emit e t)"
proof -
  from assms obtain le ct a es where t: "t = s\<lparr>np_lastExecutedOp := le, np_clientTable := ct, np_app := a, np_sent := es\<rparr>"
    by (auto simp: np_executes_def)
  have "t\<lparr>np_lastExecutedOp := le'\<rparr> = s\<lparr>np_lastExecutedOp := le', np_clientTable := ct, np_app := a, np_sent := es\<rparr>"
    "t\<lparr>np_clientTable := ct'\<rparr> = s\<lparr>np_lastExecutedOp := le, np_clientTable := ct', np_app := a, np_sent := es\<rparr>"
    "t\<lparr>np_app := a'\<rparr> = s\<lparr>np_lastExecutedOp := le, np_clientTable := ct, np_app := a', np_sent := es\<rparr>"
    "np_emit e t = s\<lparr>np_lastExecutedOp := le, np_clientTable := ct, np_app := a, np_sent := es @ [e]\<rparr>"
    by (simp_all add: t np_emit_def)
  then show "np_executes s (t\<lparr>np_lastExecutedOp := le'\<rparr>)" and "np_executes s (t\<lparr>np_clientTable := ct'\<rparr>)"
    and "np_executes s (t\<lparr>np_app := a'\<rparr>)" and "np_executes s (np_emit e t)"
    unfolding np_executes_def by blast+
qed

lemma np_executes_UpdateClientTable:
  "np_executes s t \<Longrightarrow> post (np_UpdateClientTable c req r t) (np_executes s)"
  by (auto simp: np_UpdateClientTable_def wp Let_def intro: np_executes_update)

lemma np_executes_answer: "np_executes s t \<Longrightarrow> post (np_answer c opn entry r t) (np_executes s)"
  by (auto simp: np_answer_def np_to_client_def wp Let_def intro: np_executes_update)

lemma np_executes_ExecuteEntry:
  assumes "np_executes s t"
  shows "post (np_ExecuteEntry c opn entry t) (np_executes s)"
  unfolding np_ExecuteEntry_def Let_def post_if post_option post_prod
  by (auto intro!: assms np_executes_answer post_bindI [OF np_executes_UpdateClientTable] np_executes_update)

lemma np_executes_ExecuteOp: "np_executes s t \<Longrightarrow> post (np_ExecuteOp c opn t) (np_executes s)"
  unfolding np_ExecuteOp_def post_assert post_bind post_deref Let_def post_if
  by (auto intro!: postI) (metis np_executes_ExecuteEntry np_executes_update(1) postD)+

lemma np_executes_ExecuteUptoOp: "post (np_ExecuteUptoOp c opn s) (np_executes s)"
  by (auto simp: np_ExecuteUptoOp_def wp np_executes_refl intro: post_fold np_executes_ExecuteOp)

lemma np_executes_keeps: "np_executes s t \<Longrightarrow> np_keeps s t"
  by (auto simp: np_executes_def np_keeps_def)

lemma np_keeps_ExecuteUptoOp: "np_keeps s t \<Longrightarrow> post (np_ExecuteUptoOp c opn t) (np_keeps s)"
  using np_executes_ExecuteUptoOp by (rule post_mono) (use np_executes_keeps np_keeps_trans in blast)

lemma np_keeps_CommitUptoOp: "np_keeps s t \<Longrightarrow> post (np_CommitUptoOp c opn t) (np_keeps s)"
  by (auto simp: np_CommitUptoOp_def np_SendSyncCommit_def np_emit_def wp
      intro!: np_keeps_ExecuteUptoOp) (simp_all add: np_keeps_def)

lemma np_keeps_EnterView: "post (np_EnterView c ns nv s) (np_keeps s)"
proof -
  have "post (np_ExecuteUptoOp c opn t) (\<lambda>u. post (bind_r (Inr u) f) (np_keeps s))"
    if "np_keeps s t" "\<And>u. np_keeps s u \<Longrightarrow> post (f u) (np_keeps s)" for opn t f
    using np_keeps_ExecuteUptoOp [OF that(1)] by (rule post_mono) (simp add: that(2))
  then show ?thesis
    unfolding np_EnterView_def Let_def wp
    by (auto simp: np_SendStartView_def np_SendStartViewReply_def np_to_leader_def np_emit_def wp Let_def
        intro!: post_mono [OF np_keeps_ExecuteUptoOp])
      (simp_all add: np_keeps_def np_ClearTimeoutAndQuorums_def)
qed

lemma np_keeps_callback: "post (np_callback c s) (np_keeps s)"
  unfolding np_callback_def
  by (auto simp: np_keeps_EnterView np_ProcessSyncPrepare_def np_to_leader_def np_emit_def wp
      intro!: post_mono [OF np_keeps_CommitUptoOp [OF np_keeps_refl]] split: no_callback.split)
    (simp_all add: np_keeps_def)

text \<open>\<open>np_frame\<close>: as \<open>np_keeps\<close>, but for the committed gaps.\<close>

definition np_frame :: "'app no_replica \<Rightarrow> 'app no_replica \<Rightarrow> bool" where
  "np_frame s s' \<longleftrightarrow> np_log s' = np_log s \<and> np_lastOp s' = np_lastOp s \<and>
     np_pendingRequests s' = np_pendingRequests s"

lemma np_keeps_frame: "np_keeps s t \<Longrightarrow> np_frame s t"
  by (simp add: np_keeps_def np_frame_def)

lemma np_frame_trans: "np_frame s t \<Longrightarrow> np_frame t u \<Longrightarrow> np_frame s u"
  by (simp add: np_frame_def)

lemma np_frame_StopGapRequest: "np_frame s (np_StopGapRequest s)"
  by (simp add: np_StopGapRequest_def np_frame_def)

lemma np_frame_SettleEntry: "post (np_SettleEntry c req vs st s) (np_frame s)"
proof -
  have "post (np_ExecuteUptoOp c opn s) (np_frame s)" for opn
    using np_keeps_ExecuteUptoOp [OF np_keeps_refl] by (rule post_mono) (rule np_keeps_frame)
  then show ?thesis
    by (simp add: np_SettleEntry_def post_if np_to_client_def np_emit_def np_frame_def Let_def)
qed

lemma np_keeps_TransferDone: "post (np_TransferDone c opn s) (np_keeps s)"
proof -
  have "post (np_callback c (s\<lparr>np_stateTransferTimeout := t\<rparr>)) (np_keeps s)" for t
    using np_keeps_callback by (rule post_mono) (simp add: np_keeps_def)
  then show ?thesis by (simp add: np_TransferDone_def post_if)
qed

lemma np_frame_after_Append:
  "post (bind_r (np_SettleEntry c req vs st (np_StopGapRequest s)) (np_TransferDone c opn)) (np_frame s)"
proof (rule post_bindI)
  show "post (np_SettleEntry c req vs st (np_StopGapRequest s)) (np_frame s)"
    using np_frame_SettleEntry
    by (rule post_mono) (rule np_frame_trans [OF np_frame_StopGapRequest])
  show "post (np_TransferDone c opn t) (np_frame s)" if "np_frame s t" for t
    using np_keeps_TransferDone by (rule post_mono) (use that np_keeps_frame np_frame_trans in blast)
qed

lemma np_AppendOperation_log:
  "post (np_AppendOperation c req vs st s) (\<lambda>s'. np_lastOp s' = vs_opnum vs \<and>
     length (entries (np_log s')) = Suc (length (entries (np_log s))) \<and>
     length (entries (np_log s)) < vector_max_size \<and> np_pendingRequests s' = np_pendingRequests s)"
  unfolding np_AppendOperation_def Let_def post_assert post_bind [of "Append _ _ _"]
proof (intro impI, rule post_mono [where P = "\<lambda>l. length (entries l) = Suc (length (entries (np_log s))) \<and>
    length (entries (np_log s)) < vector_max_size"])
  show "post (Append c e (np_log (s\<lparr>np_lastOp := o', np_nextMsgnum := m\<rparr>))) (\<lambda>l.
      length (entries l) = Suc (length (entries (np_log s))) \<and> length (entries (np_log s)) < vector_max_size)" for e o' m
    by (auto simp: Append_def Let_def wp vector_full_iff)
qed (rule post_mono [OF np_frame_after_Append], simp add: np_frame_def)

function np_ProcessNextOperation ::
  "'app no_env \<Rightarrow> Request \<Rightarrow> viewstamp_t \<Rightarrow> LogEntryState \<Rightarrow> 'app no_replica \<Rightarrow> 'app no_replica result" where
  "np_ProcessNextOperation c req vs st s =
     bind_r (np_AppendOperation c req vs st s) (\<lambda>s'.
       if np_lastOp s' + 1 \<in> set (np_committedGaps s')
       then np_ProcessNextOperation c req
              (Viewstamp (vs_view vs) (np_lastOp s' + 1) (vs_sessnum vs) (np_nextMsgnum s') (vs_shardnum vs))
              LOG_STATE_NOOP s'
       else Inr s')"
  by pat_completeness auto
termination
proof (relation "measure (\<lambda>(c, req, vs, st, s). vector_max_size - length (entries (np_log s)))", simp)
  fix c req vs st and s s' :: "'a no_replica"
  assume "np_AppendOperation c req vs st s = Inr s'"
  with np_AppendOperation_log [of c req vs st s]
  show "((c, req, Viewstamp (vs_view vs) (np_lastOp s' + 1) (vs_sessnum vs) (np_nextMsgnum s') (vs_shardnum vs),
        LOG_STATE_NOOP, s'), c, req, vs, st, s)
      \<in> measure (\<lambda>(c, req, vs, st, s). vector_max_size - length (entries (np_log s)))"
    by auto
qed

declare np_ProcessNextOperation.simps [simp del]

end
