(* ===== verification/NOHandlers.thy ===== *)
theory NOHandlers
  imports NOReplica
begin

text \<open>
  \<open>src/replication/nopaxos/replica.cc\<close>, continued: gap agreement, the message handlers, the
  timers and the constructor.
\<close>

section \<open>Gaps\<close>

definition np_RewindLogToOpnum :: "'app no_env \<Rightarrow> opnum_t \<Rightarrow> 'app no_replica \<Rightarrow> 'app no_replica result" where
  "np_RewindLogToOpnum c opnum s =
     assert_r (nassert c) (opnum \<ge> np_lastCommittedOp s)
       (if opnum < np_lastExecutedOp s then Inl Panicked
        else bind_r (RemoveAfter c opnum (np_log s)) (\<lambda>l.
          Inr (s\<lparr>np_lastOp := opnum, np_log := l, np_nextMsgnum := vs_msgnum (LastViewstamp l) + 1\<rparr>)))"

text \<open>The body of the loop of \<open>InstallCommittedGaps\<close>.\<close>

definition np_InstallGap :: "'app no_env \<Rightarrow> opnum_t \<Rightarrow> 'app no_replica \<Rightarrow> 'app no_replica result" where
  "np_InstallGap c gap s =
     (if gap \<in> set (np_committedGaps s) then Inr s
      else
        let s1 = s\<lparr>np_committedGaps := sset_insert gap (np_committedGaps s)\<rparr>
        in bind_r
             (if np_lastOp s1 + 1 = gap then
                let v = LastViewstamp (np_log s1)
                in np_ProcessNextOperation c empty_Request
                     (Viewstamp (vs_view v) (np_lastOp s1 + 1) (vs_sessnum v) (np_nextMsgnum s1) (vs_shardnum v))
                     LOG_STATE_NOOP s1
              else Inr s1)
             (\<lambda>s2. if np_lastOp s2 \<ge> gap then
                bind_r (Find c gap (np_log s2)) (\<lambda>found. deref_r found (\<lambda>entry.
                  if state entry \<noteq> LOG_STATE_NOOP then
                    assert_r (nassert c) (np_lastCommittedOp s2 < gap)
                      (if np_lastExecutedOp s2 \<ge> gap then Inl Panicked
                       else bind_r (SetStatus c gap LOG_STATE_NOOP (np_log s2)) (\<lambda>(_, l).
                         Inr (s2\<lparr>np_log := l\<rparr>)))
                  else Inr s2))
              else Inr s2))"

definition np_InstallCommittedGaps :: "'app no_env \<Rightarrow> opnum_t list \<Rightarrow> 'app no_replica \<Rightarrow> 'app no_replica result" where
  "np_InstallCommittedGaps c gaps s = fold_r (np_InstallGap c) gaps s"

definition np_StartGapAgreement :: "'app no_env \<Rightarrow> 'app no_replica \<Rightarrow> 'app no_replica result" where
  "np_StartGapAgreement c s =
     assert_r (nassert c) (np_AmLeader c s)
       (let s1 = s\<lparr>np_gapReplyQuorum := QS_ClearAll (np_gapReplyQuorum s),
                   np_gapRequestTimeout := Timeout_Stop (np_gapRequestTimeout s),
                   np_status := STATUS_GAP_COMMIT,
                   np_gapCommitQuorum := QS_ClearAll (np_gapCommitQuorum s)\<rparr>
        in bind_r (np_ProcessNextOperation c empty_Request
                     (Viewstamp (np_view s1) (np_lastOp s1 + 1) (np_sessnum s1) (np_nextMsgnum s1) 0)
                     LOG_STATE_NOOP s1)
             (np_SendGapCommit c))"

text \<open>\<open>False\<close>: the message is not for the current view, or a view change is under way.\<close>

definition np_CheckViewNumAndStatus ::
  "'app no_env \<Rightarrow> sessnum_t \<Rightarrow> view_t \<Rightarrow> 'app no_replica \<Rightarrow> (bool \<times> 'app no_replica) result" where
  "np_CheckViewNumAndStatus c msess mview s =
     (if msess < np_sessnum s \<or> mview < np_view s then Inr (False, s)
      else if msess > np_sessnum s \<or> mview > np_view s then
        bind_r (np_StartViewChange c msess mview s) (\<lambda>s1. Inr (False, s1))
      else Inr (np_status s \<noteq> STATUS_VIEW_CHANGE, s))"

text \<open>\<open>if (!CheckViewNumAndStatus(...)) return;\<close>\<close>

definition np_checked ::
  "'app no_env \<Rightarrow> sessnum_t \<Rightarrow> view_t \<Rightarrow> ('app no_replica \<Rightarrow> 'app no_replica result)
    \<Rightarrow> 'app no_replica \<Rightarrow> 'app no_replica result" where
  "np_checked c msess mview k s =
     bind_r (np_CheckViewNumAndStatus c msess mview s) (\<lambda>(ok, s1). if ok then k s1 else Inr s1)"

section \<open>Client requests\<close>

definition np_AddPendingRequest :: "NORequestMessage \<Rightarrow> 'app no_replica \<Rightarrow> 'app no_replica" where
  "np_AddPendingRequest msg s =
     (if rq_sessnum msg \<ge> np_sessnum s \<and> rq_msgnum msg \<ge> np_nextMsgnum s
      then s\<lparr>np_pendingRequests := np_pendingRequests s @ [msg], np_pendingRequestsSorted := False\<rparr>
      else s)"

text \<open>\<open>True\<close>: the request has been processed or is to be ignored.\<close>

definition np_TryProcessClientRequest ::
  "'app no_env \<Rightarrow> NORequestMessage \<Rightarrow> 'app no_replica \<Rightarrow> (bool \<times> 'app no_replica) result" where
  "np_TryProcessClientRequest c msg s =
     (if np_status s \<noteq> STATUS_NORMAL then Inr (False, s)
      else if rq_sessnum msg < np_sessnum s then Inr (True, s)
      else if rq_sessnum msg > np_sessnum s then
        bind_r (np_StartViewChange c (rq_sessnum msg) (np_view s) s) (\<lambda>s1. Inr (False, s1))
      else if rq_msgnum msg < np_nextMsgnum s then Inr (True, s)
      else if rq_msgnum msg > np_nextMsgnum s then
        Inr (False, if \<not> Timeout_Active (np_gapRequestTimeout s) \<and> \<not> Timeout_Active (np_gapCommitTimeout s)
                    then np_SendGapRequest c s else s)
      else
        bind_r (np_ProcessNextOperation c (rq_req msg)
                  (Viewstamp (np_view s) (np_lastOp s + 1) (rq_sessnum msg) (rq_msgnum msg) 0)
                  LOG_STATE_RECEIVED s)
          (\<lambda>s1. Inr (True, s1)))"

lemma np_pending_ProcessNextOperation:
  "post (np_ProcessNextOperation c req vs st s) (\<lambda>s'. np_pendingRequests s' = np_pendingRequests s)"
proof (induction c req vs st s rule: np_ProcessNextOperation.induct)
  case (1 c req vs st s)
  show ?case
    unfolding np_ProcessNextOperation.simps [of c req vs st s]
  proof (rule post_bindI [where P = "\<lambda>t. np_pendingRequests t = np_pendingRequests s \<and>
      np_AppendOperation c req vs st s = Inr t"])
    show "post (np_AppendOperation c req vs st s) (\<lambda>t. np_pendingRequests t = np_pendingRequests s \<and>
        np_AppendOperation c req vs st s = Inr t)"
      using np_AppendOperation_log by (rule post_strengthen) simp
  qed (use "1.IH" in auto)
qed

lemma np_pending_StartViewChange:
  "post (np_StartViewChange c ns nv s) (\<lambda>s'. np_pendingRequests s' = np_pendingRequests s)"
  by (simp add: np_StartViewChange_def post_assert Let_def np_SendViewChange_def np_to_leader_def np_emit_def
      np_ClearTimeoutAndQuorums_def)

lemma np_pending_TryProcess:
  "post (np_TryProcessClientRequest c msg s) (\<lambda>(b, s'). np_pendingRequests s' = np_pendingRequests s)"
  using np_pending_ProcessNextOperation [of c] np_pending_StartViewChange [of c]
  by (simp add: np_TryProcessClientRequest_def wp np_SendGapRequest_def np_to_leader_def np_emit_def Let_def)

text \<open>The loop of \<open>ProcessPendingRequests\<close>.\<close>

function np_pending_loop :: "'app no_env \<Rightarrow> 'app no_replica \<Rightarrow> 'app no_replica result" where
  "np_pending_loop c s =
     (case np_pendingRequests s of
        [] \<Rightarrow> Inr s
      | msg # _ \<Rightarrow>
          bind_r (np_TryProcessClientRequest c msg s) (\<lambda>r.
            if fst r
            then np_pending_loop c ((snd r)\<lparr>np_pendingRequests := tl (np_pendingRequests (snd r))\<rparr>)
            else Inr (snd r)))"
  by pat_completeness auto
termination
proof (relation "measure (\<lambda>(c, s). length (np_pendingRequests s))", simp)
  fix c and s :: "'a no_replica" and msg rest r
  assume "np_pendingRequests s = msg # rest" and "np_TryProcessClientRequest c msg s = Inr r"
  with np_pending_TryProcess [of c msg s]
  show "((c, (snd r)\<lparr>np_pendingRequests := tl (np_pendingRequests (snd r))\<rparr>), c, s)
      \<in> measure (\<lambda>(c, s). length (np_pendingRequests s))"
    by (auto simp: case_prod_beta)
qed

declare np_pending_loop.simps [simp del]

text \<open>\<open>ComparePendingRequests\<close> orders by session, then message number; \<open>std::list::sort\<close> is stable.\<close>

definition np_ProcessPendingRequests :: "'app no_env \<Rightarrow> 'app no_replica \<Rightarrow> 'app no_replica result" where
  "np_ProcessPendingRequests c s =
     (if np_status s \<noteq> STATUS_NORMAL then Inr s
      else if np_pendingRequests s = [] then Inr s
      else np_pending_loop c
        (if np_pendingRequestsSorted s then s
         else s\<lparr>np_pendingRequests := sort_key (\<lambda>r. (rq_sessnum r, rq_msgnum r)) (np_pendingRequests s),
                np_pendingRequestsSorted := True\<rparr>))"

definition np_HandleClientRequest ::
  "'app no_env \<Rightarrow> TransportAddress \<Rightarrow> NORequestMessage \<Rightarrow> 'app no_replica \<Rightarrow> 'app no_replica result" where
  "np_HandleClientRequest c remote msg s =
     (if rq_sessnum msg = 0 \<and> rq_msgnum msg = 0 then Inl Panicked
      else bind_r (np_TryProcessClientRequest c msg s) (\<lambda>(done, s1).
        Inr (if done then s1 else np_AddPendingRequest msg s1)))"

definition np_HandleUnloggedRequest ::
  "'app no_env \<Rightarrow> TransportAddress \<Rightarrow> UnloggedRequest \<Rightarrow> 'app no_replica \<Rightarrow> 'app no_replica result" where
  "np_HandleUnloggedRequest c remote msg s =
     (let (res, a) = ExecuteUnlogged (ne_app_code c) msg (np_app s)
      in Inr (np_emit (NSendToClient remote (NUnloggedReply res)) (s\<lparr>np_app := a\<rparr>)))"

section \<open>Gap agreement\<close>

definition np_HandleGapRequest ::
  "'app no_env \<Rightarrow> TransportAddress \<Rightarrow> NOGapRequestMessage \<Rightarrow> 'app no_replica \<Rightarrow> 'app no_replica result" where
  "np_HandleGapRequest c remote msg =
     np_checked c (gr_sessnum msg) (gr_view msg) (\<lambda>s.
       let answer = (\<lambda>found gap req. Inr (np_emit (NSend remote (NGapReply
             (NOGapReplyMessage (np_view s) (np_sessnum s) (gr_opnum msg) found gap (ne_u32 c) req))) s))
       in bind_r (Find c (gr_opnum msg) (np_log s)) (\<lambda>found.
         case found of
           Some entry \<Rightarrow>
             (if state entry = LOG_STATE_RECEIVED then answer True False (Some (request entry))
              else if state entry = LOG_STATE_NOOP then answer True True None
              else Inl Panicked)
         | None \<Rightarrow>
             if Timeout_Active (np_gapRequestTimeout s) \<and> np_lastOp s + 1 = gr_opnum msg
             then answer False False None
             else Inr s))"

definition np_HandleGapReply ::
  "'app no_env \<Rightarrow> TransportAddress \<Rightarrow> NOGapReplyMessage \<Rightarrow> 'app no_replica \<Rightarrow> 'app no_replica result" where
  "np_HandleGapReply c remote msg =
     np_checked c (gp_sessnum msg) (gp_view msg) (\<lambda>s.
       if gp_opnum msg = np_lastOp s + 1 then
         if np_status s = STATUS_GAP_COMMIT then assert_r (nassert c) (np_AmLeader c s) (Inr s)
         else if gp_isfound msg then
           np_ProcessNextOperation c
             (case gp_req msg of None \<Rightarrow> empty_Request | Some r \<Rightarrow> r)
             (Viewstamp (np_view s) (np_lastOp s + 1) (np_sessnum s) (np_nextMsgnum s) 0)
             (if gp_isgap msg then LOG_STATE_NOOP else LOG_STATE_RECEIVED) s
         else if np_AmLeader c s then
           let (msgs, q) = QS_AddAndCheckForQuorum (np_lastOp s + 1) (int_of_u32 (gp_replicaidx msg)) msg
                             (np_gapReplyQuorum s);
               s1 = s\<lparr>np_gapReplyQuorum := q\<rparr>
           in (if msgs \<noteq> None then np_StartGapAgreement c s1 else Inr s1)
         else Inr s
       else Inr s)"

definition np_HandleGapCommit ::
  "'app no_env \<Rightarrow> TransportAddress \<Rightarrow> NOGapCommitMessage \<Rightarrow> 'app no_replica \<Rightarrow> 'app no_replica result" where
  "np_HandleGapCommit c remote msg =
     np_checked c (gc_sessnum msg) (gc_view msg) (\<lambda>s.
       assert_r (nassert c) (\<not> np_AmLeader c s)
         (if np_lastOp s + 1 < gc_opnum msg then
            Inr (s\<lparr>np_committedGaps := sset_insert (gc_opnum msg) (np_committedGaps s)\<rparr>)
          else
            bind_r
              (if np_lastOp s \<ge> gc_opnum msg then
                 bind_r (SetStatus c (gc_opnum msg) LOG_STATE_NOOP (np_log s)) (\<lambda>(_, l).
                   Inr (s\<lparr>np_committedGaps := sset_insert (gc_opnum msg) (np_committedGaps s), np_log := l\<rparr>))
               else
                 assert_r (nassert c) (np_lastOp s + 1 = gc_opnum msg)
                   (np_ProcessNextOperation c empty_Request
                      (Viewstamp (np_view s) (np_lastOp s + 1) (np_sessnum s) (np_nextMsgnum s) 0)
                      LOG_STATE_NOOP s))
              (\<lambda>s1. Inr (np_emit (NSend remote (NGapCommitReply
                 (NOGapCommitReplyMessage (np_sessnum s1) (np_view s1) (gc_opnum msg) (ne_u32 c)))) s1))))"

definition np_HandleGapCommitReply ::
  "'app no_env \<Rightarrow> TransportAddress \<Rightarrow> NOGapCommitReplyMessage \<Rightarrow> 'app no_replica \<Rightarrow> 'app no_replica result" where
  "np_HandleGapCommitReply c remote msg =
     np_checked c (gcr_sessnum msg) (gcr_view msg) (\<lambda>s.
       if np_status s \<noteq> STATUS_GAP_COMMIT \<or> \<not> np_AmLeader c s then Inr s
       else if gcr_opnum msg = np_lastOp s then
         let (msgs, q) = QS_AddAndCheckForQuorum (gcr_opnum msg) (int_of_u32 (gcr_replicaidx msg)) msg
                           (np_gapCommitQuorum s);
             s1 = s\<lparr>np_gapCommitQuorum := q\<rparr>
         in Inr (if msgs \<noteq> None
                 then s1\<lparr>np_status := STATUS_NORMAL,
                         np_gapCommitQuorum := QS_ClearAll (np_gapCommitQuorum s1),
                         np_gapCommitTimeout := Timeout_Stop (np_gapCommitTimeout s1)\<rparr>
                 else s1)
       else Inr s)"

section \<open>State transfer\<close>

definition np_HandleStateTransferRequest ::
  "'app no_env \<Rightarrow> TransportAddress \<Rightarrow> NOStateTransferRequestMessage \<Rightarrow> 'app no_replica \<Rightarrow> 'app no_replica result"
where
  "np_HandleStateTransferRequest c remote msg s =
     (if sr_sessnum msg \<noteq> np_sessnum s \<or> sr_view msg \<noteq> np_view s then Inr s
      else if sr_begin msg > np_lastOp s \<or> sr_end msg > np_lastOp s + 1 then Inr s
      else bind_r (Dump_to c (sr_begin msg) (sr_end msg) (np_log s)) (\<lambda>es.
        Inr (np_emit (NSend remote (NStateTransferReply (NOStateTransferReplyMessage
          (np_sessnum s) (np_view s) (sr_begin msg) (sr_end msg) es))) s)))"

text \<open>The body of the loop of \<open>HandleStateTransferReply\<close>.\<close>

definition np_InstallEntry :: "'app no_env \<Rightarrow> MsgLogEntry \<Rightarrow> 'app no_replica \<Rightarrow> 'app no_replica result" where
  "np_InstallEntry c e s =
     assert_r (nassert c) (me_opnum e = np_lastOp s + 1)
       (np_ProcessNextOperation c (me_request e)
          (Viewstamp (me_view e) (me_opnum e) (me_sessnum e) (me_msgnum e) 0) (me_state e) s)"

text \<open>
  The assertions read the first and the last entry (undefined if there is none); the index of the
  first entry to install is an \<open>int\<close>, and reading at a negative index is undefined.
\<close>

definition np_HandleStateTransferReply ::
  "'app no_env \<Rightarrow> TransportAddress \<Rightarrow> NOStateTransferReplyMessage \<Rightarrow> 'app no_replica \<Rightarrow> 'app no_replica result"
where
  "np_HandleStateTransferReply c remote msg s =
     (if sy_sessnum msg \<noteq> np_sessnum s \<or> sy_view msg \<noteq> np_view s then Inr s
      else if sy_end msg - 1 \<le> np_lastOp s then Inr s
      else
        let es = sy_entries msg; i = int_of_u64 (np_lastOp s + 1 - sy_begin msg)
        in if \<not> nassert c \<and> es = [] then Inl Undefined
           else assert_r (nassert c) (me_opnum (hd es) = sy_begin msg)
             (assert_r (nassert c) (me_opnum (last es) = sy_end msg - 1)
               (if i < int (length es) \<and> i < 0 then Inl Undefined
                else fold_r (np_InstallEntry c) (drop (nat i) es) s)))"

section \<open>View changes\<close>

definition np_HandleViewChangeRequest ::
  "'app no_env \<Rightarrow> TransportAddress \<Rightarrow> NOViewChangeRequestMessage \<Rightarrow> 'app no_replica \<Rightarrow> 'app no_replica result"
where
  "np_HandleViewChangeRequest c remote msg s =
     (if vcr_sessnum msg > np_sessnum s \<or> vcr_view msg > np_view s
      then np_StartViewChange c (vcr_sessnum msg) (vcr_view msg) s else Inr s)"

text \<open>The first loop of \<open>HandleViewChange\<close>: the latest session and view in which a replica was normal.\<close>

definition np_latest_normal ::
  "NOViewChangeMessage \<Rightarrow> sessnum_t \<times> view_t \<times> opnum_t \<Rightarrow> sessnum_t \<times> view_t \<times> opnum_t" where
  "np_latest_normal x st =
     (let (ls, lv, lo) = st;
          (ls1, lo1) = (if vc_lastnormalsessnum x > ls then (vc_lastnormalsessnum x, 0) else (ls, lo));
          (lv2, lo2) = (if vc_lastnormalview x > lv then (vc_lastnormalview x, 0) else (lv, lo1))
      in (ls1, lv2, lo2))"

text \<open>
  The second loop merges gaps and finds the last operation. It iterates over the messages in
  the quorum set, so it is undefined if a step of it clears the set.
\<close>

definition np_merge_view_change ::
  "'app no_env \<Rightarrow> sessnum_t \<times> view_t \<Rightarrow> sessnum_t \<Rightarrow> view_t \<Rightarrow> NOViewChangeMessage
    \<Rightarrow> opnum_t \<times> int \<times> 'app no_replica \<Rightarrow> (opnum_t \<times> int \<times> 'app no_replica) result" where
  "np_merge_view_change c key ls lv x st =
     (let (lo, idx, s) = st
      in assert_r (nassert c) (vc_lastnormalsessnum x \<le> ls)
        (assert_r (nassert c) (vc_lastnormalview x \<le> lv)
          (if vc_lastnormalsessnum x = ls \<and> vc_lastnormalview x = lv then
             bind_r (np_InstallCommittedGaps c (vc_committedgaps x) s) (\<lambda>s1.
               if messages (np_viewChangeQuorum s1) key = None then Inl Undefined
               else if vc_lastop x > lo then Inr (vc_lastop x, int_of_u32 (vc_replicaidx x), s1)
               else Inr (lo, idx, s1))
           else Inr (lo, idx, s))))"

text \<open>What \<open>HandleViewChange\<close> does once it has a quorum of messages.\<close>

definition np_MergeLogs ::
  "'app no_env \<Rightarrow> sessnum_t \<times> view_t \<Rightarrow> NOViewChangeMessage list \<Rightarrow> 'app no_replica \<Rightarrow> 'app no_replica result" where
  "np_MergeLogs c key xs s =
     (let (ls, lv, lo) = fold np_latest_normal xs (np_lastNormalSessnum s, np_lastNormalView s, np_lastOp s)
      in bind_r
           (if np_lastNormalSessnum s < ls \<or> np_lastNormalView s < lv then
              bind_r (np_RewindLogToOpnum c (np_lastCommittedOp s) s) (\<lambda>s1.
                Inr (s1\<lparr>np_committedGaps := []\<rparr>))
            else Inr s)
           (\<lambda>s1. bind_r (fold_r (np_merge_view_change c key ls lv) xs (lo, -1, s1)) (\<lambda>(lo2, idx, s2).
              assert_r (nassert c) (np_committedGaps s2 \<noteq> [] \<longrightarrow> last (np_committedGaps s2) \<le> lo2)
                (let s3 = s2\<lparr>np_startViewLastNormalSessnum := ls, np_startViewLastNormalView := lv,
                             np_startViewLastOp := lo2, np_startViewCommittedGaps := np_committedGaps s2\<rparr>
                 in if idx \<noteq> -1 then
                      assert_r (nassert c) (lo2 > np_lastOp s3)
                        (Inr (np_SendStateTransferRequest (s3\<lparr>np_stateTransferOpBegin := np_lastOp s3 + 1,
                           np_stateTransferOpEnd := lo2 + 1, np_stateTransferReplicaIdx := word_of_int idx,
                           np_stateTransferCallback := EnterViewCallback\<rparr>)))
                    else
                      assert_r (nassert c) (lo2 = np_lastOp s3)
                        (np_EnterView c (np_sessnum s3) (np_view s3) s3)))))"

definition np_HandleViewChange ::
  "'app no_env \<Rightarrow> TransportAddress \<Rightarrow> NOViewChangeMessage \<Rightarrow> 'app no_replica \<Rightarrow> 'app no_replica result" where
  "np_HandleViewChange c remote msg s0 =
     bind_r (if vc_sessnum msg > np_sessnum s0 \<or> vc_view msg > np_view s0
             then np_StartViewChange c (vc_sessnum msg) (vc_view msg) s0 else Inr s0)
       (\<lambda>s. if vc_sessnum msg < np_sessnum s \<or> vc_view msg < np_view s then Inr s
         else
           assert_r (nassert c) (vc_sessnum msg = np_sessnum s \<and> vc_view msg = np_view s)
             (assert_r (nassert c) (np_AmLeader c s)
               (if np_status s \<noteq> STATUS_VIEW_CHANGE then Inr (np_emit (NSend remote (np_startViewMessage s)) s)
                else
                  let key = (vc_sessnum msg, vc_view msg);
                      (msgs, q) = QS_AddAndCheckForQuorum key (int_of_u32 (vc_replicaidx msg)) msg
                                    (np_viewChangeQuorum s);
                      s1 = s\<lparr>np_viewChangeQuorum := q\<rparr>
                  in case msgs of
                       None \<Rightarrow> Inr s1
                     | Some ms \<Rightarrow> np_MergeLogs c key (map snd ms) s1)))"

text \<open>\<open>HandleStartView\<close> up to where it knows what is missing: bring the log in line with the new view's.\<close>

definition np_AlignLog :: "'app no_env \<Rightarrow> NOStartViewMessage \<Rightarrow> 'app no_replica \<Rightarrow> 'app no_replica result" where
  "np_AlignLog c msg s =
     bind_r
       (if np_lastNormalSessnum s < nsv_lastnormalsessnum msg \<or> np_lastNormalView s < nsv_lastnormalview msg
        then np_RewindLogToOpnum c (np_lastCommittedOp s) s
        else
          assert_r (nassert c) (np_lastNormalSessnum s = nsv_lastnormalsessnum msg)
            (assert_r (nassert c) (np_lastNormalView s = nsv_lastnormalview msg)
              (if np_lastOp s > nsv_lastop msg then np_RewindLogToOpnum c (nsv_lastop msg) s else Inr s)))
       (\<lambda>s1. bind_r
          (if np_lastNormalSessnum s1 = nsv_lastnormalsessnum msg \<and> np_lastNormalView s1 = nsv_lastnormalview msg
              \<and> np_committedGaps s1 \<noteq> [] \<and> nsv_committedgaps msg \<noteq> []
              \<and> last (nsv_committedgaps msg) < last (np_committedGaps s1)
           then np_RewindLogToOpnum c (last (np_committedGaps s1) - 1) s1
           else Inr s1)
          (\<lambda>s2. np_InstallCommittedGaps c (nsv_committedgaps msg) (s2\<lparr>np_committedGaps := []\<rparr>)))"

definition np_HandleStartView ::
  "'app no_env \<Rightarrow> TransportAddress \<Rightarrow> NOStartViewMessage \<Rightarrow> 'app no_replica \<Rightarrow> 'app no_replica result" where
  "np_HandleStartView c remote msg s0 =
     (if nsv_sessnum msg < np_sessnum s0 \<or> nsv_view msg < np_view s0 then Inr s0
      else if nsv_sessnum msg = np_sessnum s0 \<and> nsv_view msg = np_view s0 \<and> np_status s0 \<noteq> STATUS_VIEW_CHANGE
      then np_SendStartViewReply c s0
      else
        assert_r (nassert c) (GetLeaderIndex (ne_config c) (nsv_view msg) \<noteq> ne_idx c)
          (bind_r (np_AlignLog c msg s0) (\<lambda>s.
             if np_lastOp s < nsv_lastop msg then
               let s1 = np_ClearTimeoutAndQuorums (s\<lparr>np_sessnum := nsv_sessnum msg, np_view := nsv_view msg,
                          np_status := STATUS_VIEW_CHANGE\<rparr>)
               in Inr (np_SendStateTransferRequest (s1\<lparr>np_stateTransferOpBegin := np_lastOp s1 + 1,
                    np_stateTransferOpEnd := nsv_lastop msg + 1,
                    np_stateTransferReplicaIdx := word_of_int (GetLeaderIndex (ne_config c) (nsv_view msg)),
                    np_stateTransferCallback := EnterViewCallback\<rparr>))
             else np_EnterView c (nsv_sessnum msg) (nsv_view msg) s)))"

definition np_HandleStartViewReply ::
  "'app no_env \<Rightarrow> TransportAddress \<Rightarrow> NOStartViewReplyMessage \<Rightarrow> 'app no_replica \<Rightarrow> 'app no_replica result" where
  "np_HandleStartViewReply c remote msg s =
     (if svr_sessnum msg \<noteq> np_sessnum s \<or> svr_view msg \<noteq> np_view s then Inr s
      else
        assert_r (nassert c) (np_status s = STATUS_NORMAL)
          (assert_r (nassert c) (np_AmLeader c s)
            (if Timeout_Active (np_startViewTimeout s) then
               let (msgs, q) = QS_AddAndCheckForQuorum (svr_sessnum msg, svr_view msg)
                                 (int_of_u32 (svr_replicaidx msg)) msg (np_startViewQuorum s);
                   s1 = s\<lparr>np_startViewQuorum := q\<rparr>
               in if msgs \<noteq> None then
                    bind_r (np_CommitUptoOp c (np_startViewLastOp s1) s1) (\<lambda>s2.
                      Inr (s2\<lparr>np_startViewTimeout := Timeout_Stop (np_startViewTimeout s2),
                              np_startViewQuorum := QS_ClearAll (np_startViewQuorum s2)\<rparr>))
                  else Inr s1
             else Inr s)))"

section \<open>Synchronisation\<close>

definition np_HandleSyncPrepare ::
  "'app no_env \<Rightarrow> TransportAddress \<Rightarrow> NOSyncPrepareMessage \<Rightarrow> 'app no_replica \<Rightarrow> 'app no_replica result" where
  "np_HandleSyncPrepare c remote msg =
     np_checked c (sp_sessnum msg) (sp_view msg) (\<lambda>s0.
       let s = s0\<lparr>np_leaderSyncHeardTimeout := Timeout_Reset (np_leaderSyncHeardTimeout s0)\<rparr>
       in if np_lastCommittedOp s \<ge> sp_lastop msg then Inr s
          else
            assert_r (nassert c) (np_sessnum s = sp_sessnum msg \<and> np_view s = sp_view msg)
              (assert_r (nassert c) (\<not> np_AmLeader c s)
                (bind_r (np_InstallCommittedGaps c (sp_committedgaps msg)
                           (s\<lparr>np_receivedSyncPreparePoints :=
                                sset_insert (sp_lastop msg) (np_receivedSyncPreparePoints s)\<rparr>))
                  (\<lambda>s1. if np_lastOp s1 < sp_lastop msg then
                     let s2 = s1\<lparr>np_stateTransferOpBegin := np_lastOp s1 + 1,
                        np_stateTransferOpEnd := sp_lastop msg + 1,
                        np_stateTransferReplicaIdx := word_of_int (GetLeaderIndex (ne_config c) (sp_view msg)),
                        np_stateTransferCallback := SyncPrepareCallback (sp_lastop msg)\<rparr>
                     in Inr (if sp_lastop msg - np_lastOp s2 \<le> MAX_SYNC_TRANSFER_OPS
                             then np_SendStateTransferRequest s2 else s2)
                   else np_ProcessSyncPrepare c (sp_lastop msg) s1))))"

definition np_HandleSyncPrepareReply ::
  "'app no_env \<Rightarrow> TransportAddress \<Rightarrow> NOSyncPrepareReplyMessage \<Rightarrow> 'app no_replica \<Rightarrow> 'app no_replica result" where
  "np_HandleSyncPrepareReply c remote msg =
     np_checked c (spp_sessnum msg) (spp_view msg) (\<lambda>s.
       assert_r (nassert c) (np_AmLeader c s)
         (if np_lastCommittedOp s \<ge> spp_syncpoint msg then Inr s
          else if spp_syncpoint msg \<noteq> np_leaderLastSyncPreparePoint s then Inr s
          else
            let (msgs, q) = QS_AddAndCheckForQuorum (spp_syncpoint msg) (int_of_u32 (spp_replicaidx msg)) msg
                              (np_syncPrepareQuorum s);
                s1 = s\<lparr>np_syncPrepareQuorum := q\<rparr>
            in if msgs \<noteq> None then np_CommitUptoOp c (spp_syncpoint msg) s1 else Inr s1))"

definition np_HandleSyncCommit ::
  "'app no_env \<Rightarrow> TransportAddress \<Rightarrow> NOSyncCommitMessage \<Rightarrow> 'app no_replica \<Rightarrow> 'app no_replica result" where
  "np_HandleSyncCommit c remote msg =
     np_checked c (sc_sessnum msg) (sc_view msg) (\<lambda>s0.
       assert_r (nassert c) (\<not> np_AmLeader c s0)
         (if np_lastCommittedOp s0 \<ge> sc_syncpoint msg then Inr s0
          else
            assert_r (nassert c) (np_sessnum s0 = sc_sessnum msg \<and> np_view s0 = sc_view msg)
              (let p = sc_syncpoint msg;
                   s = s0\<lparr>np_receivedSyncCommitPoints := sset_insert p (np_receivedSyncCommitPoints s0)\<rparr>
               in if p \<in> set (np_receivedSyncPreparePoints s) then
                    (if np_lastOp s \<ge> p then
                       bind_r (np_CommitUptoOp c p s) (\<lambda>s1.
                         Inr (s1\<lparr>np_receivedSyncPreparePoints := sset_erase p (np_receivedSyncPreparePoints s1),
                                 np_receivedSyncCommitPoints := sset_erase p (np_receivedSyncCommitPoints s1)\<rparr>))
                     else Inr s)
                  else
                    Inr (np_to_leader c (NSyncPrepareRequest
                      (NOSyncPrepareRequestMessage (np_sessnum s) (np_view s))) s))))"

definition np_HandleSyncPrepareRequest ::
  "'app no_env \<Rightarrow> TransportAddress \<Rightarrow> NOSyncPrepareRequestMessage \<Rightarrow> 'app no_replica \<Rightarrow> 'app no_replica result"
where
  "np_HandleSyncPrepareRequest c remote msg =
     np_checked c (spr_sessnum msg) (spr_view msg) (\<lambda>s.
       assert_r (nassert c) (np_AmLeader c s)
         (let s1 = np_emit (NSend remote (NSyncPrepare (NOSyncPrepareMessage (np_sessnum s) (np_view s)
                     (np_leaderLastSyncPreparePoint s) (np_leaderLastSyncCommittedGaps s)))) s
          in Inr (if np_lastCommittedOp s1 \<ge> np_leaderLastSyncPreparePoint s1
                  then np_emit (NSend remote (NSyncCommit (NOSyncCommitMessage (np_sessnum s1) (np_view s1)
                         (np_leaderLastSyncPreparePoint s1)))) s1
                  else s1)))"

section \<open>Deliveries, timers, construction\<close>

fun np_dispatch ::
  "'app no_env \<Rightarrow> TransportAddress \<Rightarrow> NOToReplicaMessage \<Rightarrow> 'app no_replica \<Rightarrow> 'app no_replica result" where
  "np_dispatch c remote (NRequest m) s = np_HandleClientRequest c remote m s"
| "np_dispatch c remote (NUnloggedRequest m) s = np_HandleUnloggedRequest c remote m s"
| "np_dispatch c remote (NGapRequest m) s = np_HandleGapRequest c remote m s"
| "np_dispatch c remote (NGapReply m) s = np_HandleGapReply c remote m s"
| "np_dispatch c remote (NStateTransferRequest m) s = np_HandleStateTransferRequest c remote m s"
| "np_dispatch c remote (NStateTransferReply m) s = np_HandleStateTransferReply c remote m s"
| "np_dispatch c remote (NGapCommit m) s = np_HandleGapCommit c remote m s"
| "np_dispatch c remote (NGapCommitReply m) s = np_HandleGapCommitReply c remote m s"
| "np_dispatch c remote (NViewChangeRequest m) s = np_HandleViewChangeRequest c remote m s"
| "np_dispatch c remote (NViewChange m) s = np_HandleViewChange c remote m s"
| "np_dispatch c remote (NStartView m) s = np_HandleStartView c remote m s"
| "np_dispatch c remote (NStartViewReply m) s = np_HandleStartViewReply c remote m s"
| "np_dispatch c remote (NSyncPrepareRequest m) s = np_HandleSyncPrepareRequest c remote m s"
| "np_dispatch c remote (NSyncPrepare m) s = np_HandleSyncPrepare c remote m s"
| "np_dispatch c remote (NSyncPrepareReply m) s = np_HandleSyncPrepareReply c remote m s"
| "np_dispatch c remote (NSyncCommit m) s = np_HandleSyncCommit c remote m s"
| "np_dispatch c remote NOReplicaMsgNotSet s = Inl Panicked"

definition np_ReceiveMessage ::
  "'app no_env \<Rightarrow> TransportAddress \<Rightarrow> NOToReplicaMessage \<Rightarrow> 'app no_replica \<Rightarrow> 'app no_replica result" where
  "np_ReceiveMessage c remote m s = bind_r (np_dispatch c remote m s) (np_ProcessPendingRequests c)"

datatype no_timer =
    GapRequestTimer | GapCommitTimer | NViewChangeTimer | NStateTransferTimer | StartViewTimer
  | SyncTimer | LeaderSyncHeardTimer

fun np_timer_armed :: "no_timer \<Rightarrow> 'app no_replica \<Rightarrow> bool" where
  "np_timer_armed GapRequestTimer s = armed (np_gapRequestTimeout s)"
| "np_timer_armed GapCommitTimer s = armed (np_gapCommitTimeout s)"
| "np_timer_armed NViewChangeTimer s = armed (np_viewChangeTimeout s)"
| "np_timer_armed NStateTransferTimer s = armed (np_stateTransferTimeout s)"
| "np_timer_armed StartViewTimer s = armed (np_startViewTimeout s)"
| "np_timer_armed SyncTimer s = armed (np_syncTimeout s)"
| "np_timer_armed LeaderSyncHeardTimer s = armed (np_leaderSyncHeardTimeout s)"

fun np_timer_callback :: "'app no_env \<Rightarrow> no_timer \<Rightarrow> 'app no_replica \<Rightarrow> 'app no_replica result" where
  "np_timer_callback c GapRequestTimer s =
     (if np_AmLeader c s then np_StartGapAgreement c s else Inr (np_SendGapRequest c s))"
| "np_timer_callback c GapCommitTimer s = np_SendGapCommit c s"
| "np_timer_callback c NViewChangeTimer s = Inr (np_SendViewChange c s)"
| "np_timer_callback c NStateTransferTimer s = Inr (np_SendStateTransferRequest s)"
| "np_timer_callback c StartViewTimer s = np_SendStartView c s"
| "np_timer_callback c SyncTimer s = np_SendSyncPrepare c s"
| "np_timer_callback c LeaderSyncHeardTimer s = np_StartViewChange c (np_sessnum s) (np_view s + 1) s"

definition NOPaxosReplica_new :: "'app no_env \<Rightarrow> 'app \<Rightarrow> 'app no_replica result" where
  "NOPaxosReplica_new c a =
     bind_r (mk_Log c False 1 EMPTY_HASH) (\<lambda>l.
       let q = QuorumSize (ne_config c) - 1;
           s = \<lparr>np_status = STATUS_NORMAL, np_log = l, np_view = 0, np_sessnum = 0, np_lastOp = 0, np_nextMsgnum = 1,
                np_lastNormalView = 0, np_lastNormalSessnum = 0, np_lastCommittedOp = 0, np_lastExecutedOp = 0,
                np_clientTable = Map.empty, np_pendingRequests = [], np_pendingRequestsSorted = False,
                np_gapReplyQuorum = mk_QuorumSet (num_replicas (ne_config c) - 1),
                np_gapCommitQuorum = mk_QuorumSet q, np_viewChangeQuorum = mk_QuorumSet q,
                np_startViewQuorum = mk_QuorumSet q, np_syncPrepareQuorum = mk_QuorumSet q,
                np_committedGaps = [],
                np_gapRequestTimeout = mk_Timeout 10, np_gapCommitTimeout = mk_Timeout 50,
                np_viewChangeTimeout = mk_Timeout 100, np_stateTransferTimeout = mk_Timeout 100,
                np_startViewTimeout = mk_Timeout 100, np_syncTimeout = mk_Timeout 1000,
                np_leaderSyncHeardTimeout = mk_Timeout 2000,
                np_stateTransferOpBegin = 0, np_stateTransferOpEnd = 0, np_stateTransferReplicaIdx = 0,
                np_stateTransferCallback = NoCallback, np_startViewLastNormalSessnum = 0,
                np_startViewLastNormalView = 0, np_startViewLastOp = 0, np_startViewCommittedGaps = [],
                np_leaderLastSyncPreparePoint = 0, np_leaderLastSyncCommittedGaps = [],
                np_receivedSyncPreparePoints = [], np_receivedSyncCommitPoints = [], np_app = a, np_sent = []\<rparr>
       in Inr (if np_AmLeader c s
               then s\<lparr>np_syncTimeout := Timeout_Start (np_syncTimeout s)\<rparr>
               else s\<lparr>np_leaderSyncHeardTimeout := Timeout_Start (np_leaderSyncHeardTimeout s)\<rparr>))"

datatype no_event = NDeliver TransportAddress NOToReplicaMessage | NFire no_timer

definition no_event_step :: "'app no_env \<Rightarrow> no_event \<Rightarrow> 'app no_replica \<Rightarrow> 'app no_replica result" where
  "no_event_step c ev s =
     (case ev of
        NDeliver remote m \<Rightarrow> np_ReceiveMessage c remote m s
      | NFire k \<Rightarrow> if np_timer_armed k s then np_timer_callback c k s else Inr s)"

end
