(* ===== verification/NOSystem.thy ===== *)
theory NOSystem
  imports NOHandlers
begin

text \<open>
  The group of replicas, the sequencer of session 0 and the network. The sequencer numbers the
  requests that pass it (\<open>ns_stamped\<close>, from 1 on) and sends each to all replicas; any message that
  has been sent may be delivered, late, repeatedly or never, to a replica it was sent to. Replica
  \<open>i\<close> has address \<open>i\<close>. \<open>no_reach c a P\<close> are the states reachable by replica events that satisfy \<open>P\<close>.
\<close>

section \<open>The system and its runs\<close>

record 'app no_system =
  ns_replicas :: "'app no_replica list"
  ns_stamped :: "Request list"

definition ne_at :: "'app no_env \<Rightarrow> nat \<Rightarrow> 'app no_env" where
  "ne_at c i = c\<lparr>ne_idx := int i\<rparr>"

text \<open>\<open>is_req S k r\<close>: the sequencer has given request \<open>r\<close> the number \<open>k\<close>.\<close>

definition is_req :: "Request list \<Rightarrow> nat \<Rightarrow> Request \<Rightarrow> bool" where
  "is_req S k r \<longleftrightarrow> 1 \<le> k \<and> k \<le> length S \<and> S ! (k - 1) = r"

fun no_carries :: "nat \<Rightarrow> nat \<Rightarrow> no_effect \<Rightarrow> NOToReplicaMessage \<Rightarrow> bool" where
  "no_carries src dst (NSendToAll x) m = (x = m \<and> src \<noteq> dst)"
| "no_carries src dst (NSendToReplica k x) m = (x = m \<and> k = int dst)"
| "no_carries src dst (NSend r x) m = (x = m \<and> r = dst)"
| "no_carries src dst (NSendToClient r x) m = False"
| "no_carries src dst (NExecuted n b) m = False"

fun no_from_client :: "Request list \<Rightarrow> NOToReplicaMessage \<Rightarrow> bool" where
  "no_from_client S (NRequest m) = (rq_sessnum m = 0 \<and> is_req S (unat (rq_msgnum m)) (rq_req m))"
| "no_from_client S (NUnloggedRequest m) = True"
| "no_from_client S m = False"

fun no_enabled :: "'app no_system \<Rightarrow> nat \<Rightarrow> no_event \<Rightarrow> bool" where
  "no_enabled S i (NFire k) = True"
| "no_enabled S i (NDeliver src m) =
     (no_from_client (ns_stamped S) m \<or>
      src < length (ns_replicas S) \<and> (\<exists>e \<in> set (np_sent (ns_replicas S ! src)). no_carries src i e m))"

definition no_initial :: "'app no_env \<Rightarrow> 'app \<Rightarrow> 'app no_system \<Rightarrow> bool" where
  "no_initial c a S \<longleftrightarrow>
     int (length (ns_replicas S)) = num_replicas (ne_config c) \<and> ns_stamped S = [] \<and>
     (\<forall>i < length (ns_replicas S). NOPaxosReplica_new (ne_at c i) a = Inr (ns_replicas S ! i))"

text \<open>A step is a request that passes the sequencer, or an event at a replica.\<close>

datatype no_action = Stamp Request | At nat no_event

fun no_allowed :: "(no_event \<Rightarrow> bool) \<Rightarrow> 'app no_system \<Rightarrow> no_action \<Rightarrow> bool" where
  "no_allowed P S (Stamp r) = (int (length (ns_stamped S)) < 2 ^ 64 - 1)"
| "no_allowed P S (At i ev) = (i < length (ns_replicas S) \<and> P ev \<and> no_enabled S i ev)"

fun no_act :: "'app no_env \<Rightarrow> no_action \<Rightarrow> 'app no_system \<Rightarrow> 'app no_system result" where
  "no_act c (Stamp r) S = Inr (S\<lparr>ns_stamped := ns_stamped S @ [r]\<rparr>)"
| "no_act c (At i ev) S =
     bind_r (no_event_step (ne_at c i) ev (ns_replicas S ! i)) (\<lambda>s.
       Inr (S\<lparr>ns_replicas := (ns_replicas S)[i := s]\<rparr>))"

inductive no_reach :: "'app no_env \<Rightarrow> 'app \<Rightarrow> (no_event \<Rightarrow> bool) \<Rightarrow> 'app no_system \<Rightarrow> bool"
  for c a P where
  initial: "no_initial c a S \<Longrightarrow> no_reach c a P S"
| action: "no_reach c a P S \<Longrightarrow> no_allowed P S x \<Longrightarrow> no_act c x S = Inr S' \<Longrightarrow> no_reach c a P S'"

text \<open>The same as a function on a schedule; \<open>None\<close> if an action of it is not possible.\<close>

fun no_run :: "'app no_env \<Rightarrow> no_action list \<Rightarrow> 'app no_system \<Rightarrow> 'app no_system result option" where
  "no_run c [] S = Some (Inr S)"
| "no_run c (x # xs) S =
     (if no_allowed (\<lambda>_. True) S x then
        case no_act c x S of Inl e \<Rightarrow> if xs = [] then Some (Inl e) else None | Inr S' \<Rightarrow> no_run c xs S'
      else None)"

definition stays_in_view :: "no_event \<Rightarrow> bool" where
  "stays_in_view ev \<longleftrightarrow> ev \<noteq> NFire LeaderSyncHeardTimer"

lemma no_run_reach:
  "no_reach c a P S \<Longrightarrow> (\<forall>i ev. At i ev \<in> set xs \<longrightarrow> P ev) \<Longrightarrow> no_run c xs S = Some (Inr S') \<Longrightarrow> no_reach c a P S'"
proof (induction xs arbitrary: S)
  case (Cons x xs)
  from Cons.prems(3) obtain T where T: "no_allowed (\<lambda>_. True) S x" "no_act c x S = Inr T" "no_run c xs T = Some (Inr S')"
    by (auto split: if_splits sum.splits)
  with Cons.prems(2) have "no_allowed P S x" by (cases x) auto
  with Cons.prems(1) T(2) have "no_reach c a P T" by (auto intro: no_reach.action)
  with Cons T(3) show ?case by auto
qed simp

text \<open>What a replica has executed.\<close>

definition no_executed :: "no_effect list \<Rightarrow> (opnum_t \<times> bytes) list" where
  "no_executed es = concat (map (\<lambda>e. case e of NExecuted n b \<Rightarrow> [(n, b)] | _ \<Rightarrow> []) es)"

lemma no_executed_simps [simp]:
  "no_executed [] = []"
  "no_executed (es @ fs) = no_executed es @ no_executed fs"
  "no_executed [NExecuted n b] = [(n, b)]"
  "no_executed [NSendToAll m] = []" "no_executed [NSendToReplica k m] = []" "no_executed [NSend r m] = []"
  "no_executed [NSendToClient r cm] = []"
  by (simp_all add: no_executed_def)

section \<open>A group of three\<close>

definition no_env3 :: "bool \<Rightarrow> unit no_env" where
  "no_env3 na = \<lparr>nassert = na, sha1 = (\<lambda>_. ''''), ne_config = conf3, ne_idx = 0,
     ne_app_code = default_AppReplica, ne_lookup = (\<lambda>_. 100)\<rparr>"

definition no_start3 :: "bool \<Rightarrow> unit no_system" where
  "no_start3 na = \<lparr>ns_replicas = map (\<lambda>i. projr (NOPaxosReplica_new (ne_at (no_env3 na) i) ())) [0, 1, 2], ns_stamped = []\<rparr>"

text \<open>Request \<open>k\<close> is \<open>req_k k\<close>; \<open>stamped_to i k\<close> delivers it, with its stamp, to replica \<open>i\<close>.\<close>

definition req_k :: "u64 \<Rightarrow> Request" where
  "req_k k = mk_req 7 k [char_of (96 + unat k)]"

definition stamped_to :: "nat \<Rightarrow> u64 \<Rightarrow> no_action" where
  "stamped_to i k = At i (NDeliver 100 (NRequest (NORequestMessage 0 k (req_k k))))"

text \<open>What the replicas of a run have executed.\<close>

definition no_outcome :: "unit no_system result option \<Rightarrow> (failure + (opnum_t \<times> bytes) list list) option" where
  "no_outcome r = map_option (map_sum id (\<lambda>S. map (no_executed \<circ> np_sent) (ns_replicas S))) r"

text \<open>Request 2 is lost; the leader agrees with replica 2 on a gap, while replica 1 hears nothing.\<close>

definition gap_agreed :: "no_action list" where
  "gap_agreed =
     [Stamp (req_k 1), Stamp (req_k 2), Stamp (req_k 3), Stamp (req_k 4),
      stamped_to 0 1, stamped_to 2 1, stamped_to 0 3, At 0 (NFire GapRequestTimer),
      At 2 (NDeliver 0 (NGapCommit (NOGapCommitMessage 0 0 2))),
      At 0 (NDeliver 2 (NGapCommitReply (NOGapCommitReplyMessage 0 0 2 2)))]"

text \<open>Replica 1 is brought up to date by a synchronisation.\<close>

definition transferred :: "MsgLogEntry list" where
  "transferred =
     map (\<lambda>(k, st, r). \<lparr>me_view = 0, me_opnum = k, me_sessnum = 0, me_msgnum = k, me_shardnum = 0, me_request = r,
        me_state = st, me_hash = EMPTY_HASH\<rparr>)
       [(1, LOG_STATE_RECEIVED, req_k 1), (2, LOG_STATE_NOOP, empty_Request), (3, LOG_STATE_RECEIVED, req_k 3)]"

definition gap_synchronised :: "no_action list" where
  "gap_synchronised = gap_agreed @
     [At 0 (NFire SyncTimer), At 1 (NDeliver 0 (NSyncPrepare (NOSyncPrepareMessage 0 0 3 [2]))),
      At 0 (NDeliver 1 (NStateTransferRequest (NOStateTransferRequestMessage 0 0 1 4))),
      At 1 (NDeliver 0 (NStateTransferReply (NOStateTransferReplyMessage 0 0 1 4 transferred)))]"

text \<open>Two more synchronisations commit operations 1 to 4 everywhere.\<close>

definition sync_round :: "opnum_t \<Rightarrow> no_action list" where
  "sync_round p =
     [At 0 (NFire SyncTimer), At 1 (NDeliver 0 (NSyncPrepare (NOSyncPrepareMessage 0 0 p [2]))),
      At 0 (NDeliver 1 (NSyncPrepareReply (NOSyncPrepareReplyMessage 0 0 p 1))),
      At 1 (NDeliver 0 (NSyncCommit (NOSyncCommitMessage 0 0 p)))]"

definition gap_committed :: "no_action list" where
  "gap_committed = gap_synchronised @ [stamped_to 0 4, stamped_to 1 4] @ sync_round 4"

section \<open>State transfer over a gap\<close>


end
