(* ===== verification/NOViewChange.thy ===== *)
theory NOViewChange
  imports NOSystem
begin

text \<open>
  Two errors that make every view change of \<open>src/replication/nopaxos/replica.cc\<close> fail that has to
  transfer or to remove operations: \<open>ProcessNextOperation\<close> compares the operation with the end of
  the range that is being transferred, which is exclusive, and \<open>RewindLogToOpnum\<close> takes the argument of
  \<open>RemoveAfter\<close> for the last operation to keep, when it is the first to remove.
\<close>

section \<open>A state transfer that never completes\<close>

text \<open>\<open>np_waiting e s\<close>: in a view change, the operations before \<open>e\<close> are being transferred.\<close>

definition np_waiting :: "opnum_t \<Rightarrow> 'app no_replica \<Rightarrow> bool" where
  "np_waiting e s \<longleftrightarrow> np_status s = STATUS_VIEW_CHANGE \<and> np_stateTransferOpEnd s = e \<and>
     (\<forall>g \<in> set (np_committedGaps s). g < e)"

lemma np_waiting_executes: "np_waiting e s \<Longrightarrow> np_executes s t \<Longrightarrow> np_waiting e t"
  by (auto simp: np_waiting_def np_executes_def)

lemma np_executes_lastOp: "np_executes s t \<Longrightarrow> np_lastOp t = np_lastOp s"
  by (auto simp: np_executes_def)

lemma np_waiting_SettleEntry:
  assumes "np_waiting e s" and "np_lastOp s < e"
  shows "post (np_SettleEntry c req vs st s) (\<lambda>s'. np_waiting e s' \<and> np_lastOp s' = np_lastOp s)"
proof -
  have "post (np_ExecuteUptoOp c opn s) (\<lambda>s'. np_waiting e s' \<and> np_lastOp s' = np_lastOp s)" for opn
    using np_executes_ExecuteUptoOp
    by (rule post_mono) (use assms in \<open>auto intro: np_waiting_executes dest: np_executes_lastOp\<close>)
  with assms show ?thesis
    by (auto simp: np_SettleEntry_def np_to_client_def np_emit_def np_waiting_def Let_def)
qed

lemma np_waiting_AppendOperation:
  assumes wait: "np_waiting e s" and before: "vs_opnum vs < e"
  shows "post (np_AppendOperation c req vs st s) (\<lambda>s'. np_waiting e s' \<and> np_lastOp s' = vs_opnum vs)"
proof -
  have complete: "post (np_TransferDone c (vs_opnum vs) t) (\<lambda>s'. np_waiting e s' \<and> np_lastOp s' = vs_opnum vs)"
    if "np_waiting e t \<and> np_lastOp t = vs_opnum vs" for t
    using that before by (auto simp: np_TransferDone_def np_waiting_def)
  have settle: "post (np_SettleEntry c req vs st' (np_StopGapRequest
      (s\<lparr>np_lastOp := vs_opnum vs, np_nextMsgnum := m, np_log := l\<rparr>))) (\<lambda>t. np_waiting e t \<and> np_lastOp t = vs_opnum vs)"
    for st' m l
  proof -
    let ?t = "np_StopGapRequest (s\<lparr>np_lastOp := vs_opnum vs, np_nextMsgnum := m, np_log := l\<rparr>)"
    have "np_waiting e ?t" "np_lastOp ?t = vs_opnum vs"
      using wait by (auto simp: np_waiting_def np_StopGapRequest_def)
    with np_waiting_SettleEntry [of e ?t c req vs st'] before show ?thesis by simp
  qed
  show ?thesis
    unfolding np_AppendOperation_def Let_def post_assert
    by (intro impI post_bindI [OF post_True] post_bindI [OF settle] complete)
qed

lemma np_waiting_ProcessNextOperation:
  "np_waiting e s \<Longrightarrow> vs_opnum vs < e \<Longrightarrow> post (np_ProcessNextOperation c req vs st s) (np_waiting e)"
proof (induction c req vs st s rule: np_ProcessNextOperation.induct)
  case (1 c req vs st s)
  show ?case
    unfolding np_ProcessNextOperation.simps [of c req vs st s] post_bind
  proof (rule post_strengthen [OF np_waiting_AppendOperation [OF "1.prems"]])
    fix t assume t: "np_AppendOperation c req vs st s = Inr t" "np_waiting e t \<and> np_lastOp t = vs_opnum vs"
    show "post (if np_lastOp t + 1 \<in> set (np_committedGaps t)
        then np_ProcessNextOperation c req (Viewstamp (vs_view vs) (np_lastOp t + 1) (vs_sessnum vs)
               (np_nextMsgnum t) (vs_shardnum vs)) LOG_STATE_NOOP t
        else Inr t) (np_waiting e)"
    proof (cases "np_lastOp t + 1 \<in> set (np_committedGaps t)")
      case True
      then have "np_lastOp t + 1 < e" using t(2) by (auto simp: np_waiting_def)
      with "1.IH" [OF t(1) True] t(2) True show ?thesis by simp
    qed (use t(2) in simp)
  qed
qed

text \<open>Replies that transfer operations before \<open>e\<close>, and the timer that asks for them again.\<close>

fun np_transfers :: "opnum_t \<Rightarrow> no_event \<Rightarrow> bool" where
  "np_transfers e (NDeliver remote (NStateTransferReply m)) = (\<forall>x \<in> set (sy_entries m). me_opnum x < e)"
| "np_transfers e (NFire k) = (k = NStateTransferTimer)"
| "np_transfers e ev = False"

lemma np_waiting_event:
  fixes s :: "'app no_replica"
  assumes wait: "np_waiting e s" and ev: "np_transfers e ev"
  shows "post (no_event_step c ev s) (np_waiting e)"
proof (cases "(e, ev)" rule: np_transfers.cases)
  case (1 e' remote m)
  then have ev': "ev = NDeliver remote (NStateTransferReply m)" "\<forall>x \<in> set (sy_entries m). me_opnum x < e"
    using ev by auto
  have "post (fold_r (np_InstallEntry c) (drop k (sy_entries m)) s) (np_waiting e)" for k
  proof (rule post_fold [where I = "np_waiting e", OF wait])
    fix x and t :: "'app no_replica" assume x: "x \<in> set (drop k (sy_entries m))" "np_waiting e t"
    then have "x \<in> set (sy_entries m)" by (meson in_set_dropD)
    with ev'(2) x(2) show "post (np_InstallEntry c x t) (np_waiting e)"
      by (auto simp: np_InstallEntry_def post_assert intro!: np_waiting_ProcessNextOperation)
  qed
  then have "post (np_HandleStateTransferReply c remote m s) (np_waiting e)"
    using wait by (auto simp: np_HandleStateTransferReply_def wp Let_def)
  then show ?thesis
    unfolding ev' no_event_step_def np_ReceiveMessage_def no_event.case np_dispatch.simps
    by (rule post_bindI) (simp add: np_ProcessPendingRequests_def np_waiting_def)
qed (use assms in \<open>auto simp: no_event_step_def np_SendStateTransferRequest_def np_emit_def np_waiting_def Let_def\<close>)

text \<open>What the code answers to a request for the operations before \<open>e\<close> is such a reply.\<close>

lemma Dump_to_before:
  assumes ok: "log_ok l" and top: "unat e \<le> log_top l"
  shows "post (Dump_to E b e l) (\<lambda>es. \<forall>x \<in> set es. me_opnum x < e)"
proof -
  let ?i = "max b (start l)"
  let ?es = "take (unat e - unat ?i) (drop (unat ?i - unat (start l)) (entries l))"
  have "vs_opnum (viewstamp x) < e" if "x \<in> set ?es" for x
  proof -
    from that obtain j where j: "j < length ?es" "x = ?es ! j" by (metis in_set_conv_nth)
    then have "x = entries l ! (unat ?i - unat (start l) + j)"
        "unat ?i - unat (start l) + j < length (entries l)" "j < unat e - unat ?i" by auto
    moreover have "unat (start l) \<le> unat ?i" by (metis max.cobounded2 word_le_nat_alt)
    ultimately show ?thesis using log_ok_nth [OF ok] by (simp add: word_less_nat_alt)
  qed
  moreover have "dump_loop E ?i e l = Inr (map dump_entry ?es)"
    using top by (intro dump_loop_ok [OF ok]) simp_all
  ultimately show ?thesis by (auto simp: Dump_to_def post_assert dump_entry_def)
qed

definition no_events :: "'app no_env \<Rightarrow> no_event list \<Rightarrow> 'app no_replica \<Rightarrow> 'app no_replica result" where
  "no_events c evs s = fold_r (no_event_step c) evs s"

text \<open>
  C29. A view change that has to transfer operations never ends by transferring them. A replica
  that waits, in a view change, for the operations before \<open>e\<close> is still in the view change after any
  number of replies with operations before \<open>e\<close>, and repeated requests for them: it enters the view
  only when it processes operation \<open>e\<close> itself, which the reply does not hold.
\<close>

theorem transfer_never_completes:
  assumes "np_status s = STATUS_VIEW_CHANGE" and "np_stateTransferOpEnd s = e"
    and "\<forall>g \<in> set (np_committedGaps s). g < e" and "\<forall>ev \<in> set evs. np_transfers e ev"
  shows "post (no_events c evs s) (\<lambda>s'. np_status s' = STATUS_VIEW_CHANGE)"
proof -
  have "post (fold_r (no_event_step c) evs s) (np_waiting e)"
  proof (rule post_fold)
    show "np_waiting e s" using assms by (simp add: np_waiting_def)
    show "post (no_event_step c ev t) (np_waiting e)" if "ev \<in> set evs" "np_waiting e t" for ev t
      using that assms(4) by (intro np_waiting_event) auto
  qed
  then show ?thesis
    unfolding no_events_def by (rule post_mono) (simp add: np_waiting_def)
qed

text \<open>
  Replica 1, the leader of view 1, learns from replica 2 that there is an operation it does not
  have, asks for it, gets it twice, and asks again.
\<close>

definition transfer_pending :: "unit no_replica" where
  "transfer_pending = projr (bind_r (NOPaxosReplica_new (ne_at (no_env3 False) 1) ())
     (no_events (ne_at (no_env3 False) 1) [NDeliver 2 (NViewChange (NOViewChangeMessage 0 1 0 0 1 [] 2))]))"

definition transfer_events :: "no_event list" where
  "transfer_events =
     (let m = NDeliver 2 (NStateTransferReply (NOStateTransferReplyMessage 0 1 1 2 (take 1 transferred)))
      in [m, NFire NStateTransferTimer, m])"

lemma transfer_pending_state:
  "(np_status transfer_pending, np_stateTransferOpEnd transfer_pending, np_committedGaps transfer_pending) =
     (STATUS_VIEW_CHANGE, 2, [])"
  by code_simp

lemma transfer_run:
  "map_sum id np_lastOp (no_events (ne_at (no_env3 False) 1) transfer_events transfer_pending) = Inr 1"
  by code_simp

theorem transfer_never_completes_witness:
  "\<exists>s'. no_events (ne_at (no_env3 False) 1) transfer_events transfer_pending = Inr s' \<and>
     np_status s' = STATUS_VIEW_CHANGE \<and> np_lastOp s' = 1"
proof -
  have "\<forall>ev \<in> set transfer_events. np_transfers 2 ev"
    by (simp add: transfer_events_def transferred_def Let_def)
  then have "post (no_events (ne_at (no_env3 False) 1) transfer_events transfer_pending)
      (\<lambda>s'. np_status s' = STATUS_VIEW_CHANGE)"
    using transfer_pending_state by (intro transfer_never_completes) auto
  with transfer_run show ?thesis
    by (cases "no_events (ne_at (no_env3 False) 1) transfer_events transfer_pending") auto
qed

section \<open>A rewind that removes one operation too many\<close>

text \<open>
  \<open>RewindLogToOpnum\<close> leaves the log one operation short. After a rewind to \<open>n\<close> the replica takes
  \<open>n\<close> for its last operation, but its log ends at \<open>n - 1\<close>, so the assertion of the next append fails;
  and a rewind to 0, which is where a replica that has committed nothing rewinds to, fails at once.
\<close>

theorem rewind_removes_too_much:
  assumes ok: "log_ok (np_log s)" and st: "start (np_log s) = 1" and chk: "\<not> nassert c"
    and le: "np_lastCommittedOp s \<le> n" "np_lastExecutedOp s \<le> n" and top: "unat n < log_top (np_log s)"
    and vs: "vs_opnum vs = n + 1"
  shows "if n = 0 then np_RewindLogToOpnum c n s = Inl AssertFailed
    else returns (np_RewindLogToOpnum c n s) (\<lambda>s'. np_lastOp s' = n \<and> LastOpnum (np_log s') = n - 1 \<and>
           np_ProcessNextOperation c req vs st' s' = Inl AssertFailed)"
proof (cases "n = 0")
  case True
  have "unat (LastOpnum (np_log s)) = length (entries (np_log s))"
    using unat_LastOpnum [OF ok] st by (simp add: log_top_def)
  moreover have "length (entries (np_log s)) < 2 ^ 60" using ok by (simp add: log_ok_def vector_max_size_def)
  moreover have "unat (- 1 :: u64) = 2 ^ 64 - 1" by (simp add: unsigned_minus_1_eq_mask mask_eq_exp_minus_1)
  ultimately have "RemoveAfter c 0 (np_log s) = Inl AssertFailed"
    using chk st by (simp add: RemoveAfter_def assert_r_def word_less_nat_alt unat_of_nat take_bit_nat_eq_self)
  with True chk le show ?thesis by (simp add: np_RewindLogToOpnum_def)
next
  case False
  then have pos: "0 < unat n" by (simp add: unat_gt_0)
  let ?l = "(np_log s)\<lparr>entries := take (unat n - 1) (entries (np_log s))\<rparr>"
  have cut: "RemoveAfter c n (np_log s) = Inr ?l" and ok': "log_ok ?l"
    using RemoveAfter_ok [OF ok, where opn = n] st pos by (simp_all add: word_le_nat_alt)
  have len: "length (entries ?l) = unat n - 1" using top st by (simp add: log_top_def)
  then have "unat (LastOpnum ?l) = unat n - 1" using unat_LastOpnum [OF ok'] st by (simp add: log_top_def)
  then have last: "LastOpnum ?l = n - 1" using pos by (simp add: word_unat_eq_iff unat_diff word_le_nat_alt)
  have "n + 1 \<noteq> start ?l" using st False by simp
  with last chk vs have "Append c (mk_LogEntry vs x req) ?l = Inl AssertFailed" for x
    by (simp add: Append_def assert_r_def mk_LogEntry_def)
  then have "np_ProcessNextOperation c req vs st' (s\<lparr>np_lastOp := n, np_log := ?l, np_nextMsgnum := m\<rparr>) = Inl AssertFailed" for m
    using chk vs by (simp add: np_ProcessNextOperation.simps np_AppendOperation_def Let_def)
  with False chk le cut last show ?thesis by (simp add: np_RewindLogToOpnum_def not_less)
qed

text \<open>A replica that has two operations and committed none rewinds to the first.\<close>

definition two_entries :: "unit no_replica" where
  "two_entries = (projr (NOPaxosReplica_new (no_env3 False) ()))
     \<lparr>np_log := \<lparr>entries = map (\<lambda>k. mk_LogEntry (Viewstamp 0 k 0 k 0) LOG_STATE_RECEIVED (req_k k)) [1, 2],
        initialHash = EMPTY_HASH, start = 1, useHash = False\<rparr>, np_lastOp := 2, np_nextMsgnum := 3\<rparr>"

theorem rewind_removes_too_much_witness:
  "returns (np_RewindLogToOpnum (no_env3 False) 1 two_entries) (\<lambda>s'. np_lastOp s' = 1 \<and> LastOpnum (np_log s') = 0 \<and>
     np_ProcessNextOperation (no_env3 False) (req_k 2) (Viewstamp 0 2 0 2 0) LOG_STATE_RECEIVED s' = Inl AssertFailed)"
proof -
  have log: "log_ok (np_log two_entries)" "start (np_log two_entries) = 1" "log_top (np_log two_entries) = 3"
    by (auto simp: two_entries_def log_ok_def log_top_def vector_max_size_def mk_LogEntry_def less_Suc_eq)
  have zero: "np_lastCommittedOp two_entries = 0" "np_lastExecutedOp two_entries = 0" "\<not> nassert (no_env3 False)"
    by code_simp+
  show ?thesis
    using rewind_removes_too_much [OF log(1,2), where c = "no_env3 False" and n = 1 and vs = "Viewstamp 0 2 0 2 0"
        and req = "req_k 2" and st' = LOG_STATE_RECEIVED]
      log(3) zero by simp
qed

end
