(* ===== verification/NOPromises.thy ===== *)
theory NOPromises
  imports NOSystem "HOL-Library.Sublist"
begin

text \<open>
  The normal case of Network-Ordered Paxos (no view change, one session): what a replica's state
  and the messages it sends promise. They are judged against four things that only ever grow: the
  slots of the leader's log \<open>gR\<close> (a request, or \<open>None\<close> for a gap), the requests the sequencer has
  numbered \<open>gS\<close>, the leader's commit point \<open>gC\<close>, and the synchronisation points \<open>gA j p\<close> that
  replica \<open>j\<close> has reached. A follower may be ahead of the leader, and may hold a request where
  the leader has agreed on a gap; it learns of every gap up to a point before it executes to there.
\<close>

section \<open>Slots\<close>

lemma unat_of_nat_le:
  assumes "k \<le> unat (p :: 'a::len word)"
  shows "unat (of_nat k :: 'a word) = k"
proof -
  have "k < 2 ^ LENGTH('a)" by (rule le_less_trans [OF assms unsigned_less])
  then show ?thesis by (simp add: unat_of_nat take_bit_nat_eq_self)
qed

type_synonym slots = "nat \<rightharpoonup> Request option"

definition slot :: "Log \<Rightarrow> slots" where
  "slot l k = map_option (\<lambda>e. if state e = LOG_STATE_NOOP then None else Some (request e)) (log_num_at l k)"

record no_ghost =
  gR :: slots
  gS :: "Request list"
  gC :: opnum_t
  gA :: "nat \<Rightarrow> opnum_t \<Rightarrow> bool"

definition grow :: "no_ghost \<Rightarrow> no_ghost \<Rightarrow> bool" where
  "grow g g' \<longleftrightarrow> gR g \<subseteq>\<^sub>m gR g' \<and> (\<exists>xs. gS g' = gS g @ xs) \<and> gC g \<le> gC g' \<and> (\<forall>j p. gA g j p \<longrightarrow> gA g' j p)"

text \<open>\<open>known R G p\<close>: the leader's log reaches \<open>p\<close>, and its gaps up to \<open>p\<close> are in \<open>G\<close>.\<close>

definition known :: "slots \<Rightarrow> opnum_t set \<Rightarrow> opnum_t \<Rightarrow> bool" where
  "known R G p \<longleftrightarrow> (\<forall>k. 1 \<le> k \<and> k \<le> unat p \<longrightarrow> R k \<noteq> None \<and> (R k = Some None \<longrightarrow> of_nat k \<in> G))"

text \<open>The abstract application: what executing the slots up to \<open>n\<close> calls, and the last request of each client.\<close>

fun exec_upto :: "slots \<Rightarrow> nat \<Rightarrow> (opnum_t \<times> bytes) list \<times> (u64 \<rightharpoonup> u64)" where
  "exec_upto R 0 = ([], Map.empty)"
| "exec_upto R (Suc n) =
     (let (xs, t) = exec_upto R n
      in case R (Suc n) of
           Some (Some r) \<Rightarrow>
             if t (clientid r) = None \<or> the (t (clientid r)) < clientreqid r
             then (xs @ [(of_nat (Suc n), op r)], t(clientid r \<mapsto> clientreqid r)) else (xs, t)
         | _ \<Rightarrow> (xs, t))"

lemma exec_upto_cong: "(\<And>k. 1 \<le> k \<Longrightarrow> k \<le> n \<Longrightarrow> R k = R' k) \<Longrightarrow> exec_upto R n = exec_upto R' n"
  by (induction n) (auto split: option.splits prod.splits)

lemma exec_upto_prefix: "m \<le> n \<Longrightarrow> prefix (fst (exec_upto R m)) (fst (exec_upto R n))"
proof (induction n)
  case (Suc n)
  have step: "prefix (fst (exec_upto R n)) (fst (exec_upto R (Suc n)))"
    by (auto simp: Let_def split: option.splits prod.splits)
  show ?case
  proof (cases "m = Suc n")
    case False
    with Suc have "prefix (fst (exec_upto R m)) (fst (exec_upto R n))" by simp
    then show ?thesis using step prefix_order.trans by blast
  qed simp
qed simp

section \<open>What a message promises\<close>

definition item_ok :: "no_ghost \<Rightarrow> MsgLogEntry \<Rightarrow> bool" where
  "item_ok g e \<longleftrightarrow> me_view e = 0 \<and> me_sessnum e = 0 \<and> me_msgnum e = me_opnum e \<and>
     (me_state e = LOG_STATE_NOOP \<and> gR g (unat (me_opnum e)) = Some None \<or>
      me_state e = LOG_STATE_RECEIVED \<and> is_req (gS g) (unat (me_opnum e)) (me_request e))"

definition sync_ok :: "slots \<Rightarrow> opnum_t \<Rightarrow> opnum_t set \<Rightarrow> bool" where
  "sync_ok R p G \<longleftrightarrow> known R G p \<and> (\<forall>x \<in> G. R (unat x) = Some None)"

text \<open>\<open>B r p\<close> stands for what a \<open>SyncPrepareReply\<close> of replica \<open>r\<close> for point \<open>p\<close> promises.\<close>

fun no_msg_ok :: "no_ghost \<Rightarrow> (int \<Rightarrow> opnum_t \<Rightarrow> bool) \<Rightarrow> NOToReplicaMessage \<Rightarrow> bool" where
  "no_msg_ok g B (NRequest m) = (rq_sessnum m = 0 \<and> is_req (gS g) (unat (rq_msgnum m)) (rq_req m))"
| "no_msg_ok g B (NGapRequest m) = (gr_view m = 0 \<and> gr_sessnum m = 0)"
| "no_msg_ok g B (NGapReply m) = (gp_view m = 0 \<and> gp_sessnum m = 0 \<and> (gp_isfound m \<longrightarrow>
     (if gp_isgap m then gR g (unat (gp_opnum m)) = Some None
      else \<exists>r. gp_req m = Some r \<and> is_req (gS g) (unat (gp_opnum m)) r)))"
| "no_msg_ok g B (NStateTransferReply m) = (\<forall>e \<in> set (sy_entries m). item_ok g e)"
| "no_msg_ok g B (NGapCommit m) = (gc_view m = 0 \<and> gc_sessnum m = 0 \<and> gR g (unat (gc_opnum m)) = Some None)"
| "no_msg_ok g B (NGapCommitReply m) = (gcr_view m = 0 \<and> gcr_sessnum m = 0)"
| "no_msg_ok g B (NSyncPrepareRequest m) = (spr_view m = 0 \<and> spr_sessnum m = 0)"
| "no_msg_ok g B (NSyncPrepare m) =
     (sp_view m = 0 \<and> sp_sessnum m = 0 \<and> sync_ok (gR g) (sp_lastop m) (set (sp_committedgaps m)))"
| "no_msg_ok g B (NSyncPrepareReply m) =
     (spp_view m = 0 \<and> spp_sessnum m = 0 \<and> B (int_of_u32 (spp_replicaidx m)) (spp_syncpoint m))"
| "no_msg_ok g B (NSyncCommit m) = (sc_view m = 0 \<and> sc_sessnum m = 0 \<and> sc_syncpoint m \<le> gC g)"
| "no_msg_ok g B (NViewChangeRequest m) = False"
| "no_msg_ok g B (NViewChange m) = False"
| "no_msg_ok g B (NStartView m) = False"
| "no_msg_ok g B (NStartViewReply m) = False"
| "no_msg_ok g B m = True"

definition req_addr :: "'app no_env \<Rightarrow> Request \<Rightarrow> TransportAddress" where
  "req_addr c r = ne_lookup c (parse_ReplicaAddress (case clientaddr r of None \<Rightarrow> '''' | Some a \<Rightarrow> a))"

text \<open>
  A reply names the slot the request is in. From the leader that is for good; another replica may
  yet have to replace the request by a gap.
\<close>

definition reply_ok :: "'app no_env \<Rightarrow> no_ghost \<Rightarrow> nat \<Rightarrow> opnum_t \<Rightarrow> TransportAddress \<Rightarrow> NOReplyMessage \<Rightarrow> bool" where
  "reply_ok c g i lo a m \<longleftrightarrow> nrp_view m = 0 \<and> nrp_sessnum m = 0 \<and> int_of_u32 (nrp_replicaidx m) = int i \<and>
     nrp_opnum m \<le> lo \<and>
     (\<exists>r. is_req (gS g) (unat (nrp_opnum m)) r \<and> clientreqid r = nrp_clientreqid m \<and> req_addr c r = a \<and>
        (i = 0 \<longrightarrow> gR g (unat (nrp_opnum m)) = Some (Some r)))"

fun to_client_ok :: "'app no_env \<Rightarrow> no_ghost \<Rightarrow> nat \<Rightarrow> opnum_t \<Rightarrow> TransportAddress \<Rightarrow> NOToClientMessage \<Rightarrow> bool" where
  "to_client_ok c g i lo a (NReply m) = reply_ok c g i lo a m"
| "to_client_ok c g i lo a m = True"

definition reached :: "slots \<Rightarrow> nat \<Rightarrow> opnum_t \<Rightarrow> opnum_t set \<Rightarrow> int \<Rightarrow> opnum_t \<Rightarrow> bool" where
  "reached R i lo G r p \<longleftrightarrow> r = int i \<and> i \<noteq> 0 \<and> p \<le> lo \<and> known R G p"

text \<open>The leader asks for no state transfer, and so gets none.\<close>

fun routed :: "nat \<Rightarrow> int \<Rightarrow> NOToReplicaMessage \<Rightarrow> bool" where
  "routed src dst (NStateTransferRequest m) = (src \<noteq> 0)"
| "routed src dst (NStateTransferReply m) = (dst \<noteq> 0)"
| "routed src dst m = True"

fun no_eff_ok :: "'app no_env \<Rightarrow> no_ghost \<Rightarrow> nat \<Rightarrow> opnum_t \<Rightarrow> opnum_t set \<Rightarrow> no_effect \<Rightarrow> bool" where
  "no_eff_ok c g i lo G (NSendToAll m) = (no_msg_ok g (reached (gR g) i lo G) m \<and> routed i 0 m)"
| "no_eff_ok c g i lo G (NSendToReplica k m) = (no_msg_ok g (reached (gR g) i lo G) m \<and> routed i k m)"
| "no_eff_ok c g i lo G (NSend r m) = (no_msg_ok g (reached (gR g) i lo G) m \<and> routed i (int r) m)"
| "no_eff_ok c g i lo G (NSendToClient a m) = to_client_ok c g i lo a m"
| "no_eff_ok c g i lo G (NExecuted n b) = True"

section \<open>What a replica's state promises\<close>

definition entry_ok :: "Request list \<Rightarrow> nat \<Rightarrow> LogEntry \<Rightarrow> bool" where
  "entry_ok S k e \<longleftrightarrow> vs_view (viewstamp e) = 0 \<and> vs_sessnum (viewstamp e) = 0 \<and> vs_msgnum (viewstamp e) = of_nat k \<and>
     (state e = LOG_STATE_NOOP \<or> state e = LOG_STATE_RECEIVED \<and> is_req S k (request e))"

definition no_wf :: "'app no_env \<Rightarrow> no_ghost \<Rightarrow> bool" where
  "no_wf c g \<longleftrightarrow> gR g 0 = None \<and> (\<forall>k r. gR g k = Some (Some r) \<longrightarrow> is_req (gS g) k r) \<and>
     (\<forall>j p. gA g j p \<longrightarrow> 0 < j \<and> int j < num_replicas (ne_config c))"

definition log_fits :: "no_ghost \<Rightarrow> Log \<Rightarrow> opnum_t \<Rightarrow> opnum_t set \<Rightarrow> bool" where
  "log_fits g l lo G \<longleftrightarrow> log_ok l \<and> start l = 1 \<and> log_top l = Suc (unat lo) \<and>
     (\<forall>k e. log_num_at l k = Some e \<longrightarrow> entry_ok (gS g) k e) \<and>
     (\<forall>x \<in> G. gR g (unat x) = Some None \<and> (x \<le> lo \<longrightarrow> slot l (unat x) = Some None)) \<and>
     (\<forall>k. slot l k = Some None \<longrightarrow> of_nat k \<in> G)"

definition executed_fits :: "no_ghost \<Rightarrow> opnum_t set \<Rightarrow> 'app no_replica \<Rightarrow> bool" where
  "executed_fits g G s \<longleftrightarrow> np_lastExecutedOp s \<le> np_lastOp s \<and> known (gR g) G (np_lastExecutedOp s) \<and>
     exec_upto (gR g) (unat (np_lastExecutedOp s)) =
       (no_executed (np_sent s), \<lambda>cid. map_option ne_lastReqId (np_clientTable s cid))"

definition callback_ok :: "slots \<Rightarrow> opnum_t set \<Rightarrow> opnum_t \<Rightarrow> no_callback \<Rightarrow> bool" where
  "callback_ok R G e cb \<longleftrightarrow>
     (case cb of
        NoCallback \<Rightarrow> e = 0
      | EnterViewCallback \<Rightarrow> False
      | SyncPrepareCallback p \<Rightarrow> e = p + 1 \<and> known R G p)"

definition committed_fits :: "no_ghost \<Rightarrow> nat \<Rightarrow> opnum_t set \<Rightarrow> 'app no_replica \<Rightarrow> bool" where
  "committed_fits g i G s \<longleftrightarrow>
     np_lastCommittedOp s \<le> gC g \<and> np_lastCommittedOp s \<le> np_lastOp s \<and> known (gR g) G (np_lastCommittedOp s) \<and>
     (i \<noteq> 0 \<longrightarrow> np_lastExecutedOp s \<le> np_lastCommittedOp s) \<and>
     callback_ok (gR g) G (np_stateTransferOpEnd s) (np_stateTransferCallback s) \<and>
     (\<forall>p \<in> set (np_receivedSyncCommitPoints s). p \<le> gC g)"

definition points_fit :: "no_ghost \<Rightarrow> 'app no_replica \<Rightarrow> bool" where
  "points_fit g s \<longleftrightarrow> (\<forall>p \<in> set (np_receivedSyncPreparePoints s). known (gR g) (set (np_committedGaps s)) p)"

definition votes_fit :: "'app no_env \<Rightarrow> no_ghost \<Rightarrow> (opnum_t, NOSyncPrepareReplyMessage) QuorumSet \<Rightarrow> bool" where
  "votes_fit c g q \<longleftrightarrow> QS_ok q \<and> numRequired q = QuorumSize (ne_config c) - 1 \<and>
     (\<forall>p r. r \<in> dom (QS_votes q p) \<longrightarrow> (\<exists>j. r = int j \<and> gA g j p))"

definition leader_fits :: "'app no_env \<Rightarrow> no_ghost \<Rightarrow> 'app no_replica \<Rightarrow> bool" where
  "leader_fits c g s \<longleftrightarrow> gR g = slot (np_log s) \<and> gC g = np_lastCommittedOp s \<and>
     np_status s \<in> {STATUS_NORMAL, STATUS_GAP_COMMIT} \<and>
     sync_ok (gR g) (np_leaderLastSyncPreparePoint s) (set (np_leaderLastSyncCommittedGaps s)) \<and>
     np_leaderLastSyncPreparePoint s \<le> np_lastOp s \<and> \<not> armed (np_stateTransferTimeout s) \<and>
     votes_fit c g (np_syncPrepareQuorum s) \<and>
     (np_lastCommittedOp s = 0 \<or> QuorumSize (ne_config c) - 1 \<le> int (card {j. gA g j (np_lastCommittedOp s)}))"

text \<open>
  All but the points at which a synchronisation has been announced, and that the leader is at the
  gap it is committing.
\<close>

definition no_core :: "'app no_env \<Rightarrow> no_ghost \<Rightarrow> nat \<Rightarrow> 'app no_replica \<Rightarrow> bool" where
  "no_core c g i s \<longleftrightarrow>
     no_wf c g \<and> np_view s = 0 \<and> np_sessnum s = 0 \<and> np_nextMsgnum s = np_lastOp s + 1 \<and>
     log_fits g (np_log s) (np_lastOp s) (set (np_committedGaps s)) \<and>
     executed_fits g (set (np_committedGaps s)) s \<and> committed_fits g i (set (np_committedGaps s)) s \<and>
     (\<forall>m \<in> set (np_pendingRequests s). no_msg_ok g (\<lambda>_ _. True) (NRequest m)) \<and>
     (\<forall>e \<in> set (np_sent s). no_eff_ok c g i (np_lastOp s) (set (np_committedGaps s)) e) \<and>
     \<not> armed (np_viewChangeTimeout s) \<and> \<not> armed (np_startViewTimeout s) \<and>
     (if i = 0 then leader_fits c g s else np_status s = STATUS_NORMAL)"

definition no_fits :: "'app no_env \<Rightarrow> no_ghost \<Rightarrow> nat \<Rightarrow> 'app no_replica \<Rightarrow> bool" where
  "no_fits c g i s \<longleftrightarrow> no_core c g i s \<and> points_fit g s \<and>
     (np_status s = STATUS_GAP_COMMIT \<longrightarrow> np_lastOp s \<in> set (np_committedGaps s))"

section \<open>Promises last\<close>

lemma grow_refl [simp]: "grow g g"
  by (simp add: grow_def)

lemma grow_trans: "grow g g' \<Longrightarrow> grow g' g'' \<Longrightarrow> grow g g''"
  unfolding grow_def by (meson append_assoc map_le_trans order_trans) (metis append_assoc)

lemma is_req_append: "is_req S k r \<Longrightarrow> is_req (S @ xs) k r"
  by (auto simp: is_req_def nth_append)

lemma is_req_unique: "is_req S k r \<Longrightarrow> is_req S k r' \<Longrightarrow> r = r'"
  by (simp add: is_req_def)

lemma grow_req: "grow g g' \<Longrightarrow> is_req (gS g) k r \<Longrightarrow> is_req (gS g') k r"
  by (auto simp: grow_def is_req_append)

lemma grow_slot: "grow g g' \<Longrightarrow> gR g k = Some v \<Longrightarrow> gR g' k = Some v"
  by (auto simp: grow_def map_le_def dom_def)

lemma known_grow: "grow g g' \<Longrightarrow> G \<subseteq> G' \<Longrightarrow> known (gR g) G p \<Longrightarrow> known (gR g') G' p"
  unfolding known_def by (metis grow_slot not_None_eq option.inject subsetD)

lemma known_0 [simp]: "known R G 0"
  by (simp add: known_def)

lemma known_mono: "known R G p \<Longrightarrow> q \<le> p \<Longrightarrow> known R G q"
  by (auto simp: known_def word_le_nat_alt)

lemma item_ok_grow: "grow g g' \<Longrightarrow> item_ok g e \<Longrightarrow> item_ok g' e"
  by (auto simp: item_ok_def grow_req grow_slot)

lemma sync_ok_grow: "grow g g' \<Longrightarrow> sync_ok (gR g) p G \<Longrightarrow> sync_ok (gR g') p G"
  by (auto simp: sync_ok_def grow_slot intro: known_grow)

lemma no_msg_ok_grow:
  assumes g: "grow g g'" and B: "\<And>r p. B r p \<Longrightarrow> B' r p"
  shows "no_msg_ok g B m \<Longrightarrow> no_msg_ok g' B' m"
proof (cases m)
  case (NSyncCommit x)
  assume "no_msg_ok g B m"
  with NSyncCommit g show ?thesis by (auto simp: grow_def)
qed (use B in \<open>auto simp: grow_req [OF g] grow_slot [OF g] item_ok_grow [OF g] sync_ok_grow [OF g] split: if_splits\<close>)

lemma no_eff_ok_grow:
  assumes g: "grow g g'" and lo: "lo \<le> lo'" and G: "G \<subseteq> G'"
  shows "no_eff_ok c g i lo G e \<Longrightarrow> no_eff_ok c g' i lo' G' e"
proof -
  have r: "reached (gR g) i lo G r p \<Longrightarrow> reached (gR g') i lo' G' r p" for r p
    using lo known_grow [OF g G] by (auto simp: reached_def)
  have c: "to_client_ok c g i lo a m \<Longrightarrow> to_client_ok c g' i lo' a m" for a m
    using lo by (cases m) (auto simp: reply_ok_def intro: grow_req [OF g] grow_slot [OF g])
  show "no_eff_ok c g i lo G e \<Longrightarrow> no_eff_ok c g' i lo' G' e"
    using no_msg_ok_grow [OF g r] c by (cases e) auto
qed

end
