(* ===== verification/NONormal.thy ===== *)
theory NONormal
  imports NOPromises
begin

text \<open>
  The operations of a replica in the normal case keep the promises of \<open>NOPromises\<close>: executing,
  committing, and processing the next operation.
\<close>

section \<open>Changes that do not matter\<close>

lemma ne_at_sel [simp]:
  "nassert (ne_at c i) = nassert c" "ne_config (ne_at c i) = ne_config c" "ne_idx (ne_at c i) = int i"
  "ne_lookup (ne_at c i) = ne_lookup c" "ne_app_code (ne_at c i) = ne_app_code c"
  by (simp_all add: ne_at_def)

lemmas fits_defs = no_core_def executed_fits_def committed_fits_def leader_fits_def

lemma no_core_upd [simp]:
  "no_core c g i (s\<lparr>np_gapRequestTimeout := t\<rparr>) = no_core c g i s"
  "no_core c g i (s\<lparr>np_gapReplyQuorum := q1\<rparr>) = no_core c g i s"
  "no_core c g i (s\<lparr>np_gapCommitTimeout := t\<rparr>) = no_core c g i s"
  "no_core c g i (s\<lparr>np_gapCommitQuorum := q2\<rparr>) = no_core c g i s"
  "no_core c g i (s\<lparr>np_syncTimeout := t\<rparr>) = no_core c g i s"
  "no_core c g i (s\<lparr>np_leaderSyncHeardTimeout := t\<rparr>) = no_core c g i s"
  "no_core c g i (s\<lparr>np_stateTransferOpBegin := n\<rparr>) = no_core c g i s"
  "no_core c g i (s\<lparr>np_stateTransferReplicaIdx := k\<rparr>) = no_core c g i s"
  "no_core c g i (s\<lparr>np_pendingRequestsSorted := b\<rparr>) = no_core c g i s"
  "no_core c g i (s\<lparr>np_app := a\<rparr>) = no_core c g i s"
  "no_core c g i (s\<lparr>np_receivedSyncPreparePoints := ps\<rparr>) = no_core c g i s"
  by (simp_all add: fits_defs)

lemma no_core_transfer_timer:
  "no_core c g i s \<Longrightarrow> i \<noteq> 0 \<or> \<not> armed t \<Longrightarrow> no_core c g i (s\<lparr>np_stateTransferTimeout := t\<rparr>)"
  by (auto simp: fits_defs)

lemma no_core_emit:
  "no_core c g i s \<Longrightarrow> no_eff_ok c g i (np_lastOp s) (set (np_committedGaps s)) e \<Longrightarrow> no_executed [e] = [] \<Longrightarrow>
   no_core c g i (np_emit e s)"
  by (auto simp: fits_defs np_emit_def)

text \<open>What an operation may do besides: committed gaps and the log grow, announced points may go.\<close>

definition np_later :: "'app no_replica \<Rightarrow> 'app no_replica \<Rightarrow> bool" where
  "np_later s t \<longleftrightarrow> np_status t = np_status s \<and> np_lastOp s \<le> np_lastOp t \<and>
     set (np_committedGaps s) \<subseteq> set (np_committedGaps t) \<and>
     set (np_receivedSyncPreparePoints t) \<subseteq> set (np_receivedSyncPreparePoints s)"

lemma np_later_refl [simp]: "np_later s s"
  by (simp add: np_later_def)

lemma np_later_trans: "np_later s t \<Longrightarrow> np_later t u \<Longrightarrow> np_later s u"
  by (auto simp: np_later_def)

lemma np_later_executes: "np_executes s t \<Longrightarrow> np_later s t"
  by (auto simp: np_later_def np_executes_def)

lemma np_later_emit [simp]: "np_later s (np_emit e t) = np_later s t"
  by (simp add: np_later_def np_emit_def)

lemma points_fit_later:
  "points_fit g s \<Longrightarrow> grow g g' \<Longrightarrow> np_later s t \<Longrightarrow> points_fit g' t"
  by (auto simp: points_fit_def np_later_def intro: known_grow)

section \<open>Slots and known points\<close>

lemma log_fits_bound: "log_fits g l lo G \<Longrightarrow> unat lo < 2 ^ 63"
  using log_ok_bound [of l] by (auto simp: log_fits_def)

lemma slot_known:
  assumes wf: "no_wf c g" and fits: "log_fits g l lo G" and p: "known (gR g) G p" "p \<le> lo" and k: "1 \<le> k" "k \<le> unat p"
  shows "slot l k = gR g k" and "gR g k \<noteq> None"
proof -
  have k': "unat (of_nat k :: opnum_t) = k"
    using k(2) by (rule unat_of_nat_le)
  have "k \<le> unat lo" using k(2) p(2) by (simp add: word_le_nat_alt)
  then have "log_num_at l k \<noteq> None" using fits k by (simp add: log_fits_def log_num_at_def)
  then obtain e where e: "log_num_at l k = Some e" by blast
  show "gR g k \<noteq> None" using p k by (simp add: known_def)
  then obtain v where v: "gR g k = Some v" by blast
  show "slot l k = gR g k"
  proof (cases v)
    case None
    then have "of_nat k \<in> G" using v p k by (simp add: known_def)
    moreover have "(of_nat k :: opnum_t) \<le> lo" using \<open>k \<le> unat lo\<close> k' by (simp add: word_le_nat_alt)
    ultimately show ?thesis using fits v None k' unfolding log_fits_def by metis
  next
    case (Some r)
    have "of_nat k \<notin> G" using fits v Some k' unfolding log_fits_def by force
    then have "slot l k \<noteq> Some None" using fits unfolding log_fits_def by blast
    then have "state e \<noteq> LOG_STATE_NOOP" using e by (auto simp: slot_def)
    moreover have "entry_ok (gS g) k e" using fits e by (simp add: log_fits_def)
    moreover have "is_req (gS g) k r" using wf v Some by (simp add: no_wf_def)
    ultimately show ?thesis using e v Some by (auto simp: slot_def entry_ok_def dest: is_req_unique)
  qed
qed

lemma log_fits_entry:
  assumes "log_fits g l lo G" and "1 \<le> unat p" and "p \<le> lo"
  shows "\<exists>e. Find E p l = Inr (Some e) \<and> log_num_at l (unat p) = Some e \<and> vs_opnum (viewstamp e) = p \<and>
    entry_ok (gS g) (unat p) e"
proof -
  have ok: "log_ok l" using assms(1) by (simp add: log_fits_def)
  have "log_num_at l (unat p) \<noteq> None"
    using assms by (simp add: log_fits_def log_num_at_def word_le_nat_alt)
  then obtain e where "log_num_at l (unat p) = Some e" by blast
  moreover from this have "log_at l p = Some e" by (simp add: log_at_num)
  ultimately show ?thesis
    using assms(1) ok log_at_opnum [OF ok] by (auto simp: Find_ok [OF ok] log_fits_def)
qed

section \<open>Executing\<close>

abbreviation last_reqs :: "'app no_replica \<Rightarrow> u64 \<rightharpoonup> u64" where
  "last_reqs s \<equiv> (\<lambda>cid. map_option ne_lastReqId (np_clientTable s cid))"

lemma no_core_executes:
  assumes "no_core c g i s" and "np_executes s t" and "executed_fits g (set (np_committedGaps s)) t"
    and "i \<noteq> 0 \<Longrightarrow> np_lastExecutedOp t \<le> np_lastCommittedOp s"
    and "\<forall>e \<in> set (np_sent t). no_eff_ok c g i (np_lastOp s) (set (np_committedGaps s)) e"
  shows "no_core c g i t"
proof -
  from assms(2) obtain le ct a es where
    t: "t = s\<lparr>np_lastExecutedOp := le, np_clientTable := ct, np_app := a, np_sent := es\<rparr>"
    by (auto simp: np_executes_def)
  show ?thesis using assms unfolding t by (auto simp: no_core_def committed_fits_def leader_fits_def)
qed

lemma np_to_client_eq: "np_to_client (ne_at c i) r m s = np_emit (NSendToClient (req_addr c r) (NReply m)) s"
  by (simp add: np_to_client_def req_addr_def Let_def)

lemma ne_u32_at: "i < 2 ^ 31 \<Longrightarrow> int_of_u32 (ne_u32 (ne_at c i)) = int i"
  by (simp add: ne_u32_def int_of_u32_def signed_of_nat signed_take_bit_int_eq_self)

text \<open>The group is as the configuration says, replica \<open>i\<close> is one of it, and assertions are checked.\<close>

definition no_member :: "'app no_env \<Rightarrow> nat \<Rightarrow> bool" where
  "no_member c i \<longleftrightarrow> int i < num_replicas (ne_config c) \<and> num_replicas (ne_config c) < 2 ^ 31 \<and> \<not> nassert c"

lemma no_member_leader: "no_member c i \<Longrightarrow> GetLeaderIndex (ne_config c) 0 = 0"
  by (simp add: no_member_def leader_of_view_0)

lemma no_member_u32: "no_member c i \<Longrightarrow> int_of_u32 (ne_u32 (ne_at c i)) = int i"
  by (rule ne_u32_at) (simp add: no_member_def)

lemma np_AmLeader_at: "no_member c i \<Longrightarrow> np_view s = 0 \<Longrightarrow> np_AmLeader (ne_at c i) s \<longleftrightarrow> i = 0"
  by (auto simp: np_AmLeader_def no_member_leader)

text \<open>Executing the request of the next slot makes the abstract application's next step.\<close>

lemma ExecuteEntry_step:
  assumes mem: "no_member c i" and upto: "exec_upto R n = (no_executed (np_sent s), last_reqs s)"
    and slot: "R (Suc n) = Some (Some (request e))" and opn: "unat opn = Suc n" "opn \<le> lo"
    and e: "vs_view (viewstamp e) = 0" "vs_sessnum (viewstamp e) = 0" and req: "is_req (gS g) (Suc n) (request e)"
    and R: "R = gR g"
  shows "post (np_ExecuteEntry (ne_at c i) opn e s) (\<lambda>t. exec_upto R (Suc n) = (no_executed (np_sent t), last_reqs t) \<and>
    np_lastExecutedOp t = np_lastExecutedOp s \<and>
    (\<exists>es. np_sent t = np_sent s @ es \<and> (\<forall>x \<in> set es. no_eff_ok c g i lo G x)))"
proof -
  have answer: "post (np_answer (ne_at c i) opn e r t) (\<lambda>u. no_executed (np_sent u) = no_executed (np_sent t) \<and>
      last_reqs u = last_reqs t \<and> np_lastExecutedOp u = np_lastExecutedOp t \<and>
      (\<exists>es. np_sent u = np_sent t @ es \<and> (\<forall>x \<in> set es. no_eff_ok c g i lo G x)))" for r t
    using e req opn slot R no_member_u32 [OF mem]
    by (auto simp: np_answer_def np_to_client_eq np_emit_def post_assert reply_ok_def)
  let ?r = "request e" and ?c = "np_clientTable s (clientid (request e))"
  have num: "1 + of_nat n = opn"
    using opn(1) unat_of_nat_le [of "Suc n" opn] by (simp add: word_unat_eq_iff)
  have nxt: "exec_upto R (Suc n) =
      (if ?c = None \<or> ne_lastReqId (the ?c) < clientreqid ?r
       then (no_executed (np_sent s) @ [(opn, op ?r)], (last_reqs s)(clientid ?r \<mapsto> clientreqid ?r))
       else (no_executed (np_sent s), last_reqs s))"
    using slot upto opn(1) by (cases ?c) (auto simp: num)
  show ?thesis
  proof (cases "?c = None \<or> ne_lastReqId (the ?c) < clientreqid ?r")
    case True
    obtain res a where res: "Execute (ne_app_code c) opn ?r None (np_app s) = (res, a)" by fastforce
    define t where "t = np_emit (NExecuted opn (op ?r)) (s\<lparr>np_app := a\<rparr>)"
    have "post (np_UpdateClientTable (ne_at c i) ?r m t) (\<lambda>u. np_sent u = np_sent t \<and>
        np_lastExecutedOp u = np_lastExecutedOp t \<and> last_reqs u = (last_reqs t)(clientid ?r \<mapsto> clientreqid ?r))" for m
      by (auto simp: np_UpdateClientTable_def post_assert Let_def fun_eq_iff)
    then have "post (bind_r (np_UpdateClientTable (ne_at c i) ?r m t) (np_answer (ne_at c i) opn e x))
        (\<lambda>u. exec_upto R (Suc n) = (no_executed (np_sent u), last_reqs u) \<and>
          np_lastExecutedOp u = np_lastExecutedOp s \<and>
          (\<exists>es. np_sent u = np_sent s @ es \<and> (\<forall>x \<in> set es. no_eff_ok c g i lo G x)))" for m x
    proof (rule post_bindI, goal_cases)
      case (1 u)
      show ?case
        using answer by (rule post_mono) (use 1 True nxt in \<open>auto simp: t_def np_emit_def\<close>)
    qed
    moreover have "\<not> np_stale ?r s" "np_recorded_reply ?r s = None"
      using True by (auto simp: np_stale_def np_recorded_reply_def split: option.split)
    ultimately show ?thesis by (simp add: np_ExecuteEntry_def res t_def Let_def)
  next
    case False
    then have "np_stale ?r s \<or> (\<exists>x. \<not> np_stale ?r s \<and> np_recorded_reply ?r s = Some x)"
      by (auto simp: np_stale_def np_recorded_reply_def)
    then show ?thesis
    proof (elim disjE exE conjE)
      fix x assume "\<not> np_stale ?r s" "np_recorded_reply ?r s = Some x"
      then show ?thesis
        unfolding np_ExecuteEntry_def
        using post_mono [OF answer [of "Some x" s]] False nxt by auto
    qed (use False nxt in \<open>simp add: np_ExecuteEntry_def\<close>)
  qed
qed

lemma core_ExecuteOp:
  assumes mem: "no_member c i" and core: "no_core c g i s"
    and nxt: "np_lastExecutedOp s < opn" "opn = np_lastExecutedOp s + 1"
    and le: "opn \<le> np_lastOp s" "i \<noteq> 0 \<Longrightarrow> opn \<le> np_lastCommittedOp s"
    and kn: "known (gR g) (set (np_committedGaps s)) opn"
  shows "post (np_ExecuteOp (ne_at c i) opn s) (\<lambda>t. no_core c g i t \<and> np_executes s t \<and> np_lastExecutedOp t = opn)"
proof -
  let ?G = "set (np_committedGaps s)" and ?n = "unat (np_lastExecutedOp s)"
  have fits: "log_fits g (np_log s) (np_lastOp s) ?G" and wf: "no_wf c g" using core by (auto simp: no_core_def)
  have n: "unat opn = Suc ?n" using unat_less_succ [OF nxt(1)] nxt by simp
  then obtain e where e: "Find (ne_at c i) opn (np_log s) = Inr (Some e)" "log_num_at (np_log s) (unat opn) = Some e"
      "vs_opnum (viewstamp e) = opn" "entry_ok (gS g) (unat opn) e"
    using log_fits_entry [OF fits, of opn] le(1) by auto
  have slot: "gR g (Suc ?n) = Some (if state e = LOG_STATE_NOOP then None else Some (request e))"
    using slot_known(1) [OF wf fits kn le(1), of "Suc ?n"] n e(2) by (simp add: slot_def)
  have upto: "exec_upto (gR g) ?n = (no_executed (np_sent s), last_reqs s)"
    and sent: "\<forall>x \<in> set (np_sent s). no_eff_ok c g i (np_lastOp s) ?G x"
    using core by (auto simp: no_core_def executed_fits_def)
  let ?s = "s\<lparr>np_lastExecutedOp := opn\<rparr>"
  have "post (if state e = LOG_STATE_RECEIVED then np_ExecuteEntry (ne_at c i) opn e ?s else Inr ?s)
      (\<lambda>t. exec_upto (gR g) (Suc ?n) = (no_executed (np_sent t), last_reqs t) \<and> np_lastExecutedOp t = opn \<and>
        (\<exists>es. np_sent t = np_sent s @ es \<and> (\<forall>x \<in> set es. no_eff_ok c g i (np_lastOp s) ?G x)))"
  proof (cases "state e = LOG_STATE_RECEIVED")
    case True
    then show ?thesis
      using ExecuteEntry_step [OF mem, of "gR g" ?n ?s e opn "np_lastOp s" g ?G] upto slot n e(4) le(1)
      by (simp add: entry_ok_def)
  next
    case False
    then show ?thesis using slot e(4) upto by (auto simp: entry_ok_def)
  qed
  moreover have "post (if state e = LOG_STATE_RECEIVED then np_ExecuteEntry (ne_at c i) opn e ?s else Inr ?s) (np_executes s)"
    using np_executes_ExecuteEntry [OF np_executes_update(1) [OF np_executes_refl]] np_executes_update(1) [OF np_executes_refl]
    by (auto simp: post_if)
  ultimately have "post (if state e = LOG_STATE_RECEIVED then np_ExecuteEntry (ne_at c i) opn e ?s else Inr ?s)
      (\<lambda>t. no_core c g i t \<and> np_executes s t \<and> np_lastExecutedOp t = opn)"
  proof (rule post_mono [OF post_conj [THEN iffD2], OF conjI], elim conjE exE)
    fix t es
    assume t: "exec_upto (gR g) (Suc ?n) = (no_executed (np_sent t), last_reqs t)" "np_lastExecutedOp t = opn"
      "np_sent t = np_sent s @ es" "\<forall>x \<in> set es. no_eff_ok c g i (np_lastOp s) ?G x" "np_executes s t"
    have "executed_fits g ?G t"
      using t n kn le(1) np_executes_keeps [OF t(5)] by (simp add: executed_fits_def np_keeps_def)
    then have "no_core c g i t"
      using t sent le(2) by (intro no_core_executes [OF core t(5)]) auto
    with t show "no_core c g i t \<and> np_executes s t \<and> np_lastExecutedOp t = opn" by simp
  qed
  then show ?thesis
    using e le(1) by (simp add: np_ExecuteOp_def Let_def)
qed

lemma np_executes_trans: "np_executes s t \<Longrightarrow> np_executes t u \<Longrightarrow> np_executes s u"
  by (auto simp: np_executes_def) metis

lemma core_Execute_loop:
  assumes mem: "no_member c i"
  shows "no_core c g i s \<Longrightarrow> unat (np_lastExecutedOp s) = a \<Longrightarrow> p \<le> np_lastOp s \<Longrightarrow>
    (i \<noteq> 0 \<Longrightarrow> p \<le> np_lastCommittedOp s) \<Longrightarrow> known (gR g) (set (np_committedGaps s)) p \<Longrightarrow>
    post (fold_r (np_ExecuteOp (ne_at c i)) (map of_nat [Suc a..<Suc (unat p)]) s) (\<lambda>t. no_core c g i t \<and> np_executes s t)"
proof (induction "unat p - a" arbitrary: a s)
  case 0
  then show ?case by (simp add: np_executes_refl)
next
  case (Suc m)
  then have lt: "a < unat p" by linarith
  let ?o = "of_nat (Suc a) :: opnum_t"
  have o: "unat ?o = Suc a" using lt unat_of_nat_le [of "Suc a" p] by simp
  then have o': "np_lastExecutedOp s < ?o" "?o \<le> p" using Suc.prems(2) lt by (auto simp: word_less_nat_alt word_le_nat_alt)
  have eq: "?o = np_lastExecutedOp s + 1" using Suc.prems(2) by (metis of_nat_Suc of_nat_unat add.commute ucast_id)
  have list: "map of_nat [Suc a..<Suc (unat p)] = ?o # map of_nat [Suc (Suc a)..<Suc (unat p)]"
    using lt by (simp add: upt_conv_Cons del: upt_Suc of_nat_Suc)
  show ?case
    unfolding list fold_r.simps
  proof (rule post_bindI)
    show "post (np_ExecuteOp (ne_at c i) ?o s) (\<lambda>t. no_core c g i t \<and> np_executes s t \<and> np_lastExecutedOp t = ?o)"
      using Suc.prems o' by (intro core_ExecuteOp [OF mem Suc.prems(1) o'(1) eq]) (auto intro: known_mono)
    fix t assume t: "no_core c g i t \<and> np_executes s t \<and> np_lastExecutedOp t = ?o"
    then have k: "np_lastOp t = np_lastOp s" "np_lastCommittedOp t = np_lastCommittedOp s"
        "np_committedGaps t = np_committedGaps s"
      by (auto simp: np_executes_def)
    have "post (fold_r (np_ExecuteOp (ne_at c i)) (map of_nat [Suc (Suc a)..<Suc (unat p)]) t)
        (\<lambda>u. no_core c g i u \<and> np_executes t u)"
      using Suc.hyps(2) t o k Suc.prems by (intro Suc.hyps(1)) auto
    then show "post (fold_r (np_ExecuteOp (ne_at c i)) (map of_nat [Suc (Suc a)..<Suc (unat p)]) t)
        (\<lambda>u. no_core c g i u \<and> np_executes s u)"
      by (rule post_mono) (use t np_executes_trans in blast)
  qed
qed

lemma core_ExecuteUptoOp:
  assumes "no_member c i" and "no_core c g i s" and "i \<noteq> 0 \<Longrightarrow> p \<le> np_lastCommittedOp s"
    and "known (gR g) (set (np_committedGaps s)) p"
  shows "post (np_ExecuteUptoOp (ne_at c i) p s) (\<lambda>t. no_core c g i t \<and> np_executes s t)"
proof -
  have "post (fold_r (np_ExecuteOp (ne_at c i)) (op_range (np_lastExecutedOp s + 1) p) s)
      (\<lambda>t. no_core c g i t \<and> np_executes s t)"
    if "np_lastExecutedOp s < p" "p \<le> np_lastOp s"
    unfolding op_range_def unat_less_succ [OF that(1)]
    by (rule core_Execute_loop [OF assms(1,2)]) (use that assms in auto)
  with assms show ?thesis by (auto simp: np_ExecuteUptoOp_def np_executes_refl not_less not_le)
qed

section \<open>Committing\<close>

lemma core_CommitUptoOp:
  assumes mem: "no_member c i" and core: "no_core c g i s" and i: "i \<noteq> 0"
    and p: "p \<le> gC g" "known (gR g) (set (np_committedGaps s)) p"
  shows "post (np_CommitUptoOp (ne_at c i) p s) (\<lambda>t. no_core c g i t \<and> np_later s t)"
proof -
  let ?s = "s\<lparr>np_lastCommittedOp := p\<rparr>"
  have later: "np_later s ?s" by (simp add: np_later_def)
  have view: "np_view s = 0" using core by (simp add: no_core_def)
  then have follower: "\<not> np_AmLeader (ne_at c i) ?s" using np_AmLeader_at [OF mem] i by simp
  have "no_core c g i ?s" if "np_lastCommittedOp s < p" "p \<le> np_lastOp s"
    using core p i that by (auto simp: no_core_def executed_fits_def committed_fits_def)
  then have "post (np_ExecuteUptoOp (ne_at c i) p ?s) (\<lambda>t. no_core c g i t \<and> np_later s t)"
    if "np_lastCommittedOp s < p" "p \<le> np_lastOp s"
    using core_ExecuteUptoOp [OF mem, of g ?s p] p that
    by (auto elim!: post_mono intro: np_later_trans [OF later] np_later_executes)
  then show ?thesis
    using core follower by (auto simp: np_CommitUptoOp_def Let_def post_if not_le not_less)
qed

lemma core_erase_points:
  "no_core c g i s \<Longrightarrow> no_core c g i (s\<lparr>np_receivedSyncPreparePoints := ps,
     np_receivedSyncCommitPoints := sset_erase p (np_receivedSyncCommitPoints s)\<rparr>)"
  by (auto simp: fits_defs)

lemma np_later_erase_points:
  "np_later s t \<Longrightarrow> np_later s (t\<lparr>np_receivedSyncPreparePoints := sset_erase p (np_receivedSyncPreparePoints t),
     np_receivedSyncCommitPoints := qs\<rparr>)"
  by (auto simp: np_later_def)

lemma core_ProcessSyncPrepare:
  assumes mem: "no_member c i" and core: "no_core c g i s"
    and p: "p \<le> np_lastOp s" "known (gR g) (set (np_committedGaps s)) p"
  shows "post (np_ProcessSyncPrepare (ne_at c i) p s) (\<lambda>t. no_core c g i t \<and> np_later s t)"
proof (cases "i = 0")
  case True
  have "np_AmLeader (ne_at c i) s" using core True np_AmLeader_at [OF mem] by (simp add: no_core_def)
  with mem show ?thesis by (simp add: np_ProcessSyncPrepare_def post_assert no_member_def)
next
  case False
  have commit: "post (np_CommitUptoOp (ne_at c i) p s) (\<lambda>t. no_core c g i t \<and> np_later s t)"
    if "p \<in> set (np_receivedSyncCommitPoints s)"
    using that core p False by (intro core_CommitUptoOp [OF mem]) (auto simp: fits_defs)
  have "no_core c g i (np_to_leader (ne_at c i) (NSyncPrepareReply
      (NOSyncPrepareReplyMessage 0 0 p (ne_u32 (ne_at c i)))) s)"
    unfolding np_to_leader_def
    using p False no_member_u32 [OF mem] by (intro no_core_emit [OF core]) (auto simp: reached_def)
  moreover have "np_view s = 0" "np_sessnum s = 0" using core by (auto simp: no_core_def)
  ultimately show ?thesis
    unfolding np_ProcessSyncPrepare_def post_assert post_if post_bind
    by (auto simp: np_to_leader_def core_erase_points np_later_erase_points intro!: post_mono [OF commit])
qed

section \<open>The next operation\<close>

lemma core_TransferDone:
  assumes mem: "no_member c i" and core: "no_core c g i s" and opn: "opn = np_lastOp s" "opn \<noteq> 0"
  shows "post (np_TransferDone (ne_at c i) opn s) (\<lambda>t. no_core c g i t \<and> np_later s t)"
proof (cases "opn = np_stateTransferOpEnd s")
  case True
  let ?s = "s\<lparr>np_stateTransferTimeout := Timeout_Stop (np_stateTransferTimeout s)\<rparr>"
  have "callback_ok (gR g) (set (np_committedGaps s)) opn (np_stateTransferCallback s)"
    using core True by (simp add: fits_defs)
  with opn(2) obtain p where p: "np_stateTransferCallback s = SyncPrepareCallback p" "opn = p + 1"
      "known (gR g) (set (np_committedGaps s)) p"
    by (auto simp: callback_ok_def split: no_callback.splits)
  have "p \<le> opn" using p(2) opn(2) word_less_succ [of p] by simp
  then have "post (np_ProcessSyncPrepare (ne_at c i) p ?s) (\<lambda>t. no_core c g i t \<and> np_later ?s t)"
    using core opn(1) p(3)
    by (intro core_ProcessSyncPrepare [OF mem]) (auto intro: no_core_transfer_timer simp: Timeout_Stop_def)
  then show ?thesis
    using True p(1) by (auto simp: np_TransferDone_def np_callback_def np_later_def elim!: post_mono)
qed (use core in \<open>simp add: np_TransferDone_def\<close>)

text \<open>\<open>gext i\<close>: only the leader's own steps change its log and its commit point.\<close>

definition gext :: "nat \<Rightarrow> no_ghost \<Rightarrow> no_ghost \<Rightarrow> bool" where
  "gext i g g' \<longleftrightarrow> grow g g' \<and> gS g' = gS g \<and> gA g' = gA g \<and> (i \<noteq> 0 \<longrightarrow> g' = g)"

lemma gext_refl [simp]: "gext i g g"
  by (simp add: gext_def)

lemma gext_trans: "gext i g g' \<Longrightarrow> gext i g' g'' \<Longrightarrow> gext i g g''"
  by (auto simp: gext_def intro: grow_trans)

lemma gext_grow: "gext i g g' \<Longrightarrow> grow g g'"
  by (simp add: gext_def)

text \<open>The log with one more entry.\<close>

definition extended :: "no_ghost \<Rightarrow> nat \<Rightarrow> opnum_t \<Rightarrow> Request option \<Rightarrow> no_ghost" where
  "extended g i opn v = (if i = 0 then g\<lparr>gR := (gR g)(unat opn \<mapsto> v)\<rparr> else g)"

lemma log_fits_append:
  assumes wf: "no_wf c g" and fits: "log_fits g l lo G" and opn: "opn = lo + 1"
    and apd: "Append E (mk_LogEntry vs st req) l = Inr l'"
    and vs: "vs_opnum vs = opn" "vs_view vs = 0" "vs_sessnum vs = 0" "vs_msgnum vs = opn"
    and st: "st = LOG_STATE_NOOP \<and> v = None \<and> G' = insert opn G \<or>
      st = LOG_STATE_RECEIVED \<and> is_req (gS g) (unat opn) req \<and> v = Some req \<and> G' = G \<and> opn \<notin> G"
    and R: "i = 0 \<longrightarrow> gR g = slot l" "i \<noteq> 0 \<longrightarrow> v = None \<longrightarrow> gR g (unat opn) = Some None"
  defines "g' \<equiv> extended g i opn v"
  shows "unat opn = Suc (unat lo)" and "gext i g g'" and "no_wf c g'" and "log_fits g' l' opn G'"
    and "slot l' = (slot l)(unat opn \<mapsto> v)"
proof -
  have ok: "log_ok l" "log_top l = Suc (unat lo)" "start l = 1" using fits by (auto simp: log_fits_def)
  show n: "unat opn = Suc (unat lo)"
    unfolding opn using log_fits_bound [OF fits] by (intro unat_succ_bound) simp
  then have top: "unat opn = log_top l" using ok by simp
  have "unat (vs_opnum (viewstamp (mk_LogEntry vs st req))) = log_top l" using vs top by (simp add: mk_LogEntry_def)
  from numbered_append [OF ok(1) this, of E] apd obtain e where
    l': "log_ok l'" "unat (start l') = unat (start l)" "log_top l' = Suc (log_top l)"
      "\<forall>k. k \<noteq> log_top l \<longrightarrow> log_num_at l' k = log_num_at l k" and
    e: "log_num_at l' (log_top l) = Some e" "same_entry (mk_LogEntry vs st req) e"
    by auto
  have e': "viewstamp e = vs" "state e = st" "request e = req" using e(2) by (auto simp: same_entry_def mk_LogEntry_def)
  show slot: "slot l' = (slot l)(unat opn \<mapsto> v)"
    using l'(4) e e' st by (auto simp: slot_def fun_eq_iff top)
  have beyond: "slot l (unat opn) = None" by (simp add: slot_def log_num_at_def top)
  show gext: "gext i g g'"
    using R(1) beyond by (auto simp: g'_def extended_def gext_def grow_def map_le_def)
  have sS: "gS g' = gS g" "gA g' = gA g" using gext by (auto simp: gext_def)
  show "no_wf c g'"
    using wf st n by (auto simp: no_wf_def g'_def extended_def split: if_splits)
  have oid: "of_nat (unat opn) = opn" by simp
  have entries: "entry_ok (gS g') k x" if "log_num_at l' k = Some x" for k x
  proof (cases "k = log_top l")
    case True
    then have "x = e" and "of_nat k = opn" using that e oid top by auto
    with e' vs st True top sS show ?thesis by (auto simp: entry_ok_def)
  next
    case False
    with that l'(4) fits sS show ?thesis by (simp add: log_fits_def)
  qed
  have gR': "gR g' (unat x) = Some None" if "x \<in> G" for x
    using that fits gext by (auto simp: log_fits_def intro: grow_slot gext_grow)
  have new: "gR g' (unat opn) = Some None" if "v = None"
    using that R(2) by (cases "i = 0") (auto simp: g'_def extended_def)
  have gaps: "gR g' (unat x) = Some None \<and> (x \<le> opn \<longrightarrow> slot l' (unat x) = Some None)" if "x \<in> G'" for x
  proof (cases "x = opn")
    case True
    with that st new slot show ?thesis by auto
  next
    case False
    then have "x \<in> G" using that st by auto
    moreover have "x \<le> lo" if "x \<le> opn"
      using that False n by (auto simp: word_le_nat_alt word_unat_eq_iff)
    moreover have "unat x \<noteq> unat opn" using False by (simp add: word_unat_eq_iff)
    ultimately show ?thesis using gR' fits slot by (auto simp: log_fits_def)
  qed
  have noop: "of_nat k \<in> G'" if "slot l' k = Some None" for k
    using that slot st fits oid by (auto simp: log_fits_def split: if_splits)
  show "log_fits g' l' opn G'"
    unfolding log_fits_def using l' ok n entries gaps noop by (auto simp: word_unat_eq_iff)
qed


lemma exec_upto_grow:
  assumes "grow g g'" and "known (gR g) G p"
  shows "exec_upto (gR g') (unat p) = exec_upto (gR g) (unat p)"
proof (rule exec_upto_cong)
  fix k assume "1 \<le> k" and "k \<le> unat p"
  then obtain v where "gR g k = Some v" using assms(2) by (auto simp: known_def)
  then show "gR g' k = gR g k" using grow_slot [OF assms(1)] by simp
qed

lemma executed_fits_grow:
  assumes "executed_fits g G s" and "grow g g'" and "G \<subseteq> G'" and "np_lastOp s \<le> np_lastOp t"
    and "np_lastExecutedOp t = np_lastExecutedOp s" and "np_sent t = np_sent s" and "np_clientTable t = np_clientTable s"
  shows "executed_fits g' G' t"
  using assms known_grow [OF assms(2,3)] exec_upto_grow [OF assms(2)] by (auto simp: executed_fits_def)

lemma callback_ok_grow: "grow g g' \<Longrightarrow> G \<subseteq> G' \<Longrightarrow> callback_ok (gR g) G e cb \<Longrightarrow> callback_ok (gR g') G' e cb"
  by (auto simp: callback_ok_def intro: known_grow split: no_callback.splits)

lemma committed_fits_grow:
  assumes "committed_fits g i G s" and "grow g g'" and "G \<subseteq> G'" and "np_lastOp s \<le> np_lastOp t"
    and "np_lastCommittedOp t = np_lastCommittedOp s" and "np_lastExecutedOp t = np_lastExecutedOp s"
    and "np_stateTransferOpEnd t = np_stateTransferOpEnd s" and "np_stateTransferCallback t = np_stateTransferCallback s"
    and "np_receivedSyncCommitPoints t = np_receivedSyncCommitPoints s"
  shows "committed_fits g' i G' t"
proof -
  have "gC g \<le> gC g'" using assms(2) by (simp add: grow_def)
  then show ?thesis
    using assms known_grow [OF assms(2,3)] callback_ok_grow [OF assms(2,3)] by (force simp: committed_fits_def)
qed

lemma core_extend:
  assumes core: "no_core c g i s" and opn: "opn = np_lastOp s + 1"
    and apd: "Append E (mk_LogEntry vs st req) (np_log s) = Inr l'"
    and vs: "vs_opnum vs = opn" "vs_view vs = 0" "vs_sessnum vs = 0" "vs_msgnum vs = opn"
    and st: "st = LOG_STATE_NOOP \<and> v = None \<and> gaps = sset_insert opn (np_committedGaps s) \<or>
      st = LOG_STATE_RECEIVED \<and> is_req (gS g) (unat opn) req \<and> v = Some req \<and> gaps = np_committedGaps s \<and>
        opn \<notin> set (np_committedGaps s)"
    and R: "i \<noteq> 0 \<longrightarrow> v = None \<longrightarrow> gR g (unat opn) = Some None"
  defines "g' \<equiv> extended g i opn v"
  defines "t \<equiv> s\<lparr>np_lastOp := opn, np_nextMsgnum := opn + 1, np_log := l', np_committedGaps := gaps\<rparr>"
  shows "gext i g g'" and "no_core c g' i t" and "np_later s t"
proof -
  let ?G = "set (np_committedGaps s)"
  have fits: "log_fits g (np_log s) (np_lastOp s) ?G" and wf: "no_wf c g"
    and R0: "i = 0 \<longrightarrow> gR g = slot (np_log s)"
    using core by (auto simp: fits_defs)
  have st': "st = LOG_STATE_NOOP \<and> v = None \<and> set gaps = insert opn ?G \<or>
      st = LOG_STATE_RECEIVED \<and> is_req (gS g) (unat opn) req \<and> v = Some req \<and> set gaps = ?G \<and> opn \<notin> ?G"
    using st by auto
  note ext = log_fits_append [OF wf fits opn apd vs st' R0 R, folded g'_def]
  show gext: "gext i g g'" by (rule ext(2))
  then have grow: "grow g g'" and S: "gS g' = gS g" "gA g' = gA g" "gC g' = gC g"
    by (auto simp: gext_def g'_def extended_def)
  have G: "?G \<subseteq> set gaps" using st by auto
  have lo: "np_lastOp s \<le> opn" using ext(1) by (simp add: word_le_nat_alt)
  then show "np_later s t" using G by (simp add: np_later_def t_def)
  have ex: "executed_fits g ?G s" and co: "committed_fits g i ?G s" using core by (simp_all add: no_core_def)
  have "executed_fits g' (set gaps) t"
    using lo by (intro executed_fits_grow [OF ex grow G]) (simp_all add: t_def)
  moreover have "committed_fits g' i (set gaps) t"
    using lo by (intro committed_fits_grow [OF co grow G]) (simp_all add: t_def)
  moreover have "no_eff_ok c g' i opn (set gaps) e" if "e \<in> set (np_sent s)" for e
    using core that by (intro no_eff_ok_grow [OF grow lo G]) (simp add: no_core_def)
  moreover have "leader_fits c g' t" if "i = 0"
  proof -
    have "leader_fits c g s" using core that by (simp add: no_core_def)
    moreover have "gR g' = slot l'" using that ext(5) R0 by (simp add: g'_def extended_def)
    ultimately show ?thesis
      using S lo sync_ok_grow [OF grow] by (auto simp: leader_fits_def t_def votes_fit_def)
  qed
  ultimately show "no_core c g' i t"
    using core ext(3,4) S by (auto simp: no_core_def t_def)
qed

lemma gap_beyond_leader:
  assumes "no_core c g 0 s" and "opn = np_lastOp s + 1"
  shows "opn \<notin> set (np_committedGaps s)"
proof
  assume "opn \<in> set (np_committedGaps s)"
  then have "slot (np_log s) (unat opn) = Some None" using assms(1) by (auto simp: fits_defs log_fits_def)
  moreover have fits: "log_fits g (np_log s) (np_lastOp s) (set (np_committedGaps s))" using assms(1) by (simp add: no_core_def)
  moreover have "unat opn = Suc (unat (np_lastOp s))"
    unfolding assms(2) using log_fits_bound [OF fits] by (intro unat_succ_bound) simp
  ultimately show False by (simp add: slot_def log_num_at_def log_fits_def)
qed

lemma no_core_StopGapRequest [simp]: "no_core c g i (np_StopGapRequest s) = no_core c g i s"
  by (simp add: np_StopGapRequest_def)

lemma np_StopGapRequest_sel [simp]:
  "np_lastOp (np_StopGapRequest s) = np_lastOp s" "np_committedGaps (np_StopGapRequest s) = np_committedGaps s"
  "np_later s (np_StopGapRequest t) = np_later s t"
  by (simp_all add: np_StopGapRequest_def np_later_def)

lemma leader_known:
  assumes "no_core c g 0 s" and "p \<le> np_lastOp s"
  shows "known (gR g) (set (np_committedGaps s)) p"
  unfolding known_def
proof (intro allI impI, elim conjE)
  fix k assume k: "1 \<le> k" "k \<le> unat p"
  have R: "gR g = slot (np_log s)" and fits: "log_fits g (np_log s) (np_lastOp s) (set (np_committedGaps s))"
    using assms(1) by (auto simp: fits_defs)
  have "k \<le> unat (np_lastOp s)" using k(2) assms(2) by (simp add: word_le_nat_alt)
  then have "log_num_at (np_log s) k \<noteq> None" using fits k by (simp add: log_fits_def log_num_at_def)
  then show "gR g k \<noteq> None \<and> (gR g k = Some None \<longrightarrow> of_nat k \<in> set (np_committedGaps s))"
    using fits by (simp add: R slot_def log_fits_def)
qed

lemma core_SettleEntry:
  assumes mem: "no_member c i" and core: "no_core c g i s" and opn: "np_lastOp s = vs_opnum vs"
    and vs: "vs_view vs = 0" "vs_sessnum vs = 0" and req: "is_req (gS g) (unat (vs_opnum vs)) req"
  shows "post (np_SettleEntry (ne_at c i) req vs LOG_STATE_RECEIVED s) (\<lambda>t. no_core c g i t \<and> np_later s t)"
proof (cases "i = 0")
  case True
  then have "known (gR g) (set (np_committedGaps s)) (vs_opnum vs)"
    using core opn leader_known [of c g s "vs_opnum vs"] by simp
  with core True have "post (np_ExecuteUptoOp (ne_at c i) (vs_opnum vs) s) (\<lambda>t. no_core c g i t \<and> np_executes s t)"
    by (intro core_ExecuteUptoOp [OF mem]) auto
  then show ?thesis
    using True vs no_member_leader [OF mem] by (auto simp: np_SettleEntry_def np_later_executes elim!: post_mono)
next
  case False
  have "no_core c g i (np_to_client (ne_at c i) req (NOReplyMessage (vs_view vs) (vs_sessnum vs) (vs_opnum vs)
      (clientreqid req) (ne_u32 (ne_at c i)) None) s)"
    unfolding np_to_client_eq using False vs opn req no_member_u32 [OF mem]
    by (intro no_core_emit [OF core]) (auto simp: reply_ok_def)
  then show ?thesis
    using False vs no_member_leader [OF mem] by (simp add: np_SettleEntry_def np_to_client_eq)
qed

lemma core_AppendOperation:
  assumes mem: "no_member c i" and core: "no_core c g i s"
    and vs: "vs_view vs = 0" "vs_sessnum vs = 0" "vs_msgnum vs = vs_opnum vs"
    and st: "st = LOG_STATE_RECEIVED \<and> is_req (gS g) (unat (vs_opnum vs)) req \<or>
      st = LOG_STATE_NOOP \<and> (i \<noteq> 0 \<longrightarrow> gR g (unat (vs_opnum vs)) = Some None)"
  shows "post (np_AppendOperation (ne_at c i) req vs st s) (\<lambda>t. \<exists>g'. gext i g g' \<and> no_core c g' i t \<and> np_later s t \<and>
    (st = LOG_STATE_NOOP \<longrightarrow> vs_opnum vs \<in> set (np_committedGaps t)))"
proof -
  let ?o = "vs_opnum vs" and ?G = "set (np_committedGaps s)"
  let ?st = "if ?o \<in> ?G then LOG_STATE_NOOP else st"
  let ?x = "\<lambda>l'. s\<lparr>np_lastOp := ?o, np_nextMsgnum := vs_msgnum vs + 1, np_log := l'\<rparr>"
  have "post (bind_r (np_SettleEntry (ne_at c i) req vs ?st (np_StopGapRequest (?x l'))) (np_TransferDone (ne_at c i) ?o))
      (\<lambda>t. \<exists>g'. gext i g g' \<and> no_core c g' i t \<and> np_later s t \<and> (st = LOG_STATE_NOOP \<longrightarrow> ?o \<in> set (np_committedGaps t)))"
    if opn: "?o = np_lastOp s + 1" and apd: "Append (ne_at c i) (mk_LogEntry vs ?st req) (np_log s) = Inr l'" for l'
  proof -
    define v where "v = (if ?st = LOG_STATE_NOOP then None else Some req)"
    define gaps where "gaps = (if ?st = LOG_STATE_NOOP then sset_insert ?o (np_committedGaps s) else np_committedGaps s)"
    define g' where "g' = extended g i ?o v"
    define t where "t = s\<lparr>np_lastOp := ?o, np_nextMsgnum := ?o + 1, np_log := l', np_committedGaps := gaps\<rparr>"
    have st': "?st = LOG_STATE_NOOP \<and> v = None \<and> gaps = sset_insert ?o (np_committedGaps s) \<or>
      ?st = LOG_STATE_RECEIVED \<and> is_req (gS g) (unat ?o) req \<and> v = Some req \<and> gaps = np_committedGaps s \<and> ?o \<notin> ?G"
      using st by (auto simp: v_def gaps_def)
    have R: "i \<noteq> 0 \<longrightarrow> v = None \<longrightarrow> gR g (unat ?o) = Some None"
      using st core by (auto simp: v_def fits_defs log_fits_def split: if_splits)
    note ext = core_extend [OF core opn apd refl vs(1,2,3) st' R, folded g'_def t_def]
    have S: "gS g' = gS g" using ext(1) by (simp add: gext_def)
    have settled: "post (np_SettleEntry (ne_at c i) req vs ?st (np_StopGapRequest (?x l'))) (\<lambda>u. no_core c g' i u \<and> np_later t u)"
    proof (cases "?st = LOG_STATE_NOOP")
      case True
      have "np_SettleEntry (ne_at c i) req vs LOG_STATE_NOOP (np_StopGapRequest (?x l')) = Inr (np_StopGapRequest t)"
        using True vs by (simp add: np_SettleEntry_def np_StopGapRequest_def t_def gaps_def)
      then show ?thesis using ext True by simp
    next
      case False
      then have "?x l' = t" "?st = LOG_STATE_RECEIVED" "is_req (gS g') (unat ?o) req"
        using st st' vs S by (auto simp: t_def gaps_def)
      moreover have "np_later t u" if "np_later (np_StopGapRequest t) u" for u
        using that by (simp add: np_StopGapRequest_def np_later_def split: if_splits)
      moreover have "post (np_SettleEntry (ne_at c i) req vs LOG_STATE_RECEIVED (np_StopGapRequest t))
          (\<lambda>u. no_core c g' i u \<and> np_later (np_StopGapRequest t) u)"
        using ext(2) vs calculation(3) by (intro core_SettleEntry [OF mem]) (simp_all add: t_def)
      ultimately show ?thesis by (auto elim!: post_mono)
    qed
    have "post (np_SettleEntry (ne_at c i) req vs ?st (np_StopGapRequest (?x l'))) (\<lambda>u. np_lastOp u = ?o)"
      using np_frame_SettleEntry by (rule post_mono) (simp add: np_frame_def)
    with settled show ?thesis
    proof (rule post_bindI [OF post_conj [THEN iffD2], OF conjI], elim conjE)
      fix u assume u: "no_core c g' i u" "np_later t u" "np_lastOp u = ?o"
      have "np_lastOp s \<le> ?o" using ext(3) by (simp add: np_later_def t_def)
      then have "?o \<noteq> 0" using opn by auto
      then have "post (np_TransferDone (ne_at c i) ?o u) (\<lambda>w. no_core c g' i w \<and> np_later u w)"
        using u by (intro core_TransferDone [OF mem]) auto
      then show "post (np_TransferDone (ne_at c i) ?o u) (\<lambda>t. \<exists>g'. gext i g g' \<and> no_core c g' i t \<and>
          np_later s t \<and> (st = LOG_STATE_NOOP \<longrightarrow> ?o \<in> set (np_committedGaps t)))"
      proof (rule post_mono, elim conjE)
        fix w assume w: "no_core c g' i w" "np_later u w"
        then have "np_later t w" using u(2) np_later_trans by blast
        moreover from this have "st = LOG_STATE_NOOP \<longrightarrow> ?o \<in> set (np_committedGaps w)"
          by (auto simp: np_later_def t_def gaps_def)
        ultimately show "\<exists>g'. gext i g g' \<and> no_core c g' i w \<and> np_later s w \<and>
            (st = LOG_STATE_NOOP \<longrightarrow> ?o \<in> set (np_committedGaps w))"
          using ext(1,3) w(1) np_later_trans by blast
      qed
    qed
  qed
  then show ?thesis
    using mem by (auto simp: np_AppendOperation_def Let_def post_assert post_bind no_member_def intro!: postI)
qed

lemma np_lastOp_AppendOperation: "post (np_AppendOperation c req vs st s) (\<lambda>t. np_lastOp t = vs_opnum vs)"
  using np_AppendOperation_log by (rule post_mono) simp

lemma core_ProcessNextOperation:
  assumes mem: "no_member c i"
  shows "no_core c g i s \<Longrightarrow> vs_view vs = 0 \<Longrightarrow> vs_sessnum vs = 0 \<Longrightarrow> vs_msgnum vs = vs_opnum vs \<Longrightarrow>
    st = LOG_STATE_RECEIVED \<and> is_req (gS g) (unat (vs_opnum vs)) req \<or>
      st = LOG_STATE_NOOP \<and> (i \<noteq> 0 \<longrightarrow> gR g (unat (vs_opnum vs)) = Some None) \<Longrightarrow>
    post (np_ProcessNextOperation (ne_at c i) req vs st s) (\<lambda>t. \<exists>g'. gext i g g' \<and> no_core c g' i t \<and> np_later s t \<and>
      vs_opnum vs \<le> np_lastOp t \<and> (st = LOG_STATE_NOOP \<longrightarrow> vs_opnum vs \<in> set (np_committedGaps t)) \<and>
      (i = 0 \<longrightarrow> np_lastOp t = vs_opnum vs))"
proof (induction "ne_at c i" req vs st s arbitrary: g rule: np_ProcessNextOperation.induct)
  case (1 req vs st s)
  let ?P = "\<lambda>t. (\<exists>g'. gext i g g' \<and> no_core c g' i t \<and> np_later s t \<and>
    (st = LOG_STATE_NOOP \<longrightarrow> vs_opnum vs \<in> set (np_committedGaps t))) \<and> np_lastOp t = vs_opnum vs"
  have "post (np_AppendOperation (ne_at c i) req vs st s) ?P"
    using core_AppendOperation [OF mem 1(2-6)] np_lastOp_AppendOperation by (simp add: post_conj)
  then have first: "post (np_AppendOperation (ne_at c i) req vs st s) (\<lambda>t. ?P t \<and> np_AppendOperation (ne_at c i) req vs st s = Inr t)"
    by (rule post_strengthen) simp
  show ?case
    unfolding np_ProcessNextOperation.simps [of "ne_at c i" req vs st s]
  proof (rule post_bindI [OF first], elim conjE exE)
    fix t g1
    assume t: "np_AppendOperation (ne_at c i) req vs st s = Inr t" "np_lastOp t = vs_opnum vs" "gext i g g1"
      "no_core c g1 i t" "np_later s t" "st = LOG_STATE_NOOP \<longrightarrow> vs_opnum vs \<in> set (np_committedGaps t)"
    let ?vs = "Viewstamp (vs_view vs) (np_lastOp t + 1) (vs_sessnum vs) (np_nextMsgnum t) (vs_shardnum vs)"
    have "post (np_ProcessNextOperation (ne_at c i) req ?vs LOG_STATE_NOOP t) (\<lambda>u. \<exists>g'. gext i g1 g' \<and> no_core c g' i u \<and>
        np_later t u \<and> vs_opnum vs \<le> np_lastOp u)"
      if gap: "np_lastOp t + 1 \<in> set (np_committedGaps t)" "i \<noteq> 0"
    proof -
      have "gR g1 (unat (np_lastOp t + 1)) = Some None" "np_nextMsgnum t = np_lastOp t + 1"
        using t(4) gap(1) by (auto simp: no_core_def log_fits_def)
      then have "post (np_ProcessNextOperation (ne_at c i) req ?vs LOG_STATE_NOOP t) (\<lambda>u. \<exists>g'. gext i g1 g' \<and>
          no_core c g' i u \<and> np_later t u \<and> vs_opnum ?vs \<le> np_lastOp u \<and>
          (LOG_STATE_NOOP = LOG_STATE_NOOP \<longrightarrow> vs_opnum ?vs \<in> set (np_committedGaps u)) \<and>
          (i = 0 \<longrightarrow> np_lastOp u = vs_opnum ?vs))"
        using 1(3,4) t gap by (intro 1(1) [OF t(1) gap(1) t(4)]) simp_all
      then show ?thesis by (rule post_mono) (use t(2) in \<open>auto simp: np_later_def\<close>)
    qed
    moreover have "i \<noteq> 0" if "np_lastOp t + 1 \<in> set (np_committedGaps t)"
      using gap_beyond_leader that t(4) by metis
    ultimately have rest: "post (np_ProcessNextOperation (ne_at c i) req ?vs LOG_STATE_NOOP t)
        (\<lambda>u. i \<noteq> 0 \<and> (\<exists>g'. gext i g1 g' \<and> no_core c g' i u \<and> np_later t u \<and> vs_opnum vs \<le> np_lastOp u))"
      if "np_lastOp t + 1 \<in> set (np_committedGaps t)"
      using that by (simp add: post_conj)
    show "post (if np_lastOp t + 1 \<in> set (np_committedGaps t)
         then np_ProcessNextOperation (ne_at c i) req ?vs LOG_STATE_NOOP t else Inr t)
       (\<lambda>t. \<exists>g'. gext i g g' \<and> no_core c g' i t \<and> np_later s t \<and> vs_opnum vs \<le> np_lastOp t \<and>
         (st = LOG_STATE_NOOP \<longrightarrow> vs_opnum vs \<in> set (np_committedGaps t)) \<and> (i = 0 \<longrightarrow> np_lastOp t = vs_opnum vs))"
    proof (cases "np_lastOp t + 1 \<in> set (np_committedGaps t)")
      case True
      have "\<exists>g'. gext i g g' \<and> no_core c g' i u \<and> np_later s u \<and> vs_opnum vs \<le> np_lastOp u \<and>
          (st = LOG_STATE_NOOP \<longrightarrow> vs_opnum vs \<in> set (np_committedGaps u)) \<and> (i = 0 \<longrightarrow> np_lastOp u = vs_opnum vs)"
        if u: "i \<noteq> 0" "gext i g1 g2" "no_core c g2 i u" "np_later t u" "vs_opnum vs \<le> np_lastOp u" for u g2
      proof (intro exI conjI)
        show "gext i g g2" using t(3) u(2) by (rule gext_trans)
        show "np_later s u" using t(5) u(4) by (rule np_later_trans)
      qed (use u t(6) in \<open>auto simp: np_later_def\<close>)
      with rest [OF True] True show ?thesis by (auto elim!: post_mono)
    qed (use t in auto)
  qed
qed

end
