(* ===== verification/NOSteps.thy ===== *)
theory NOSteps
  imports NONormal
begin

text \<open>
  Every handler and timer of a replica in the normal case keeps the promises of \<open>NOPromises\<close>, when
  the message it handles keeps its own.
\<close>

section \<open>Steps\<close>

definition np_grows :: "'app no_replica \<Rightarrow> 'app no_replica \<Rightarrow> bool" where
  "np_grows s t \<longleftrightarrow> np_lastOp s \<le> np_lastOp t \<and> set (np_committedGaps s) \<subseteq> set (np_committedGaps t)"

lemma np_grows_refl [simp]: "np_grows s s"
  by (simp add: np_grows_def)

lemma np_grows_trans: "np_grows s t \<Longrightarrow> np_grows t u \<Longrightarrow> np_grows s u"
  by (auto simp: np_grows_def)

lemma np_later_grows: "np_later s t \<Longrightarrow> np_grows s t"
  by (simp add: np_later_def np_grows_def)

text \<open>\<open>fits_step c g i s r\<close>: if the step \<open>r\<close> from \<open>s\<close> returns, the promises are kept, and only grow.\<close>

definition fits_step :: "'app no_env \<Rightarrow> no_ghost \<Rightarrow> nat \<Rightarrow> 'app no_replica \<Rightarrow> 'app no_replica result \<Rightarrow> bool" where
  "fits_step c g i s r \<longleftrightarrow> post r (\<lambda>t. \<exists>g'. gext i g g' \<and> no_fits c g' i t \<and> np_grows s t)"

lemma fits_step_Inr: "no_fits c g i t \<Longrightarrow> np_grows s t \<Longrightarrow> fits_step c g i s (Inr t)"
  unfolding fits_step_def by (auto intro: gext_refl)

lemma fits_step_Inl [simp]: "fits_step c g i s (Inl e)"
  by (simp add: fits_step_def)

lemma fits_step_if [wp]: "fits_step c g i s (if b then r else r') = ((b \<longrightarrow> fits_step c g i s r) \<and> (\<not> b \<longrightarrow> fits_step c g i s r'))"
  by simp

lemma fits_step_assert [wp]: "fits_step c g i s (assert_r na p r) = (na \<or> p \<longrightarrow> fits_step c g i s r)"
  by (simp add: fits_step_def post_assert)

lemma fits_step_trans: "fits_step c g' i t r \<Longrightarrow> gext i g g' \<Longrightarrow> np_grows s t \<Longrightarrow> fits_step c g i s r"
  unfolding fits_step_def by (erule post_mono) (use gext_trans np_grows_trans in blast)

lemma fits_step_bind:
  assumes "fits_step c g i s r"
    and "\<And>t g'. r = Inr t \<Longrightarrow> gext i g g' \<Longrightarrow> no_fits c g' i t \<Longrightarrow> fits_step c g' i t (f t)"
  shows "fits_step c g i s (bind_r r f)"
  unfolding fits_step_def
proof (rule post_bindI)
  show "post r (\<lambda>t. (\<exists>g'. gext i g g' \<and> no_fits c g' i t \<and> np_grows s t) \<and> r = Inr t)"
    using assms(1) unfolding fits_step_def by (rule post_strengthen) simp
  fix t assume "(\<exists>g'. gext i g g' \<and> no_fits c g' i t \<and> np_grows s t) \<and> r = Inr t"
  then obtain g' where g': "gext i g g'" "no_fits c g' i t" "np_grows s t" "r = Inr t" by blast
  then show "post (f t) (\<lambda>u. \<exists>g'. gext i g g' \<and> no_fits c g' i u \<and> np_grows s u)"
    using assms(2) fits_step_trans unfolding fits_step_def by blast
qed

text \<open>What \<open>fits_step\<close> needs of a step within which only \<open>np_later\<close> holds.\<close>

lemma later_fits:
  assumes "no_fits c g i s" and "gext i g g'" and "no_core c g' i t" and "np_later s t"
    and "np_status t = STATUS_GAP_COMMIT \<longrightarrow> np_lastOp t \<in> set (np_committedGaps t)"
  shows "no_fits c g' i t"
  using assms points_fit_later [OF _ gext_grow] by (auto simp: no_fits_def)

lemma no_fits_status: "no_fits c g i s \<Longrightarrow> np_status s \<in> {STATUS_NORMAL, STATUS_GAP_COMMIT}"
  by (auto simp: no_fits_def no_core_def leader_fits_def split: if_splits)

lemma fits_no_view_change: "no_fits c g i s \<Longrightarrow> np_status s \<noteq> STATUS_VIEW_CHANGE"
  using no_fits_status [of c g i s] by auto

text \<open>Messages are for the view the replica is in, so \<open>CheckViewNumAndStatus\<close> lets them pass.\<close>

lemma np_checked_fits:
  assumes "no_fits c g i s"
  shows "np_checked E 0 0 k s = k s"
proof -
  have "np_view s = 0" "np_sessnum s = 0" using assms by (auto simp: no_fits_def no_core_def)
  then show ?thesis
    using fits_no_view_change [OF assms] by (simp add: np_checked_def np_CheckViewNumAndStatus_def)
qed

lemma fits_emit:
  "no_fits c g i s \<Longrightarrow> no_eff_ok c g i (np_lastOp s) (set (np_committedGaps s)) e \<Longrightarrow> no_executed [e] = [] \<Longrightarrow>
   no_fits c g i (np_emit e s)"
  using no_core_emit [of c g i s e] by (simp add: no_fits_def points_fit_def) (simp add: np_emit_def)

lemma np_grows_emit [simp]: "np_grows s (np_emit e t) = np_grows s t"
  by (simp add: np_grows_def np_emit_def)

lemma fits_PNO:
  assumes mem: "no_member c i" and fits: "no_fits c g i s" and normal: "np_status s = STATUS_NORMAL"
    and vs: "vs_view vs = 0" "vs_sessnum vs = 0" "vs_msgnum vs = vs_opnum vs"
    and st: "st = LOG_STATE_RECEIVED \<and> is_req (gS g) (unat (vs_opnum vs)) req \<or>
      st = LOG_STATE_NOOP \<and> (i \<noteq> 0 \<longrightarrow> gR g (unat (vs_opnum vs)) = Some None)"
  shows "fits_step c g i s (np_ProcessNextOperation (ne_at c i) req vs st s)"
proof -
  have core: "no_core c g i s" using fits by (simp add: no_fits_def)
  show ?thesis
    unfolding fits_step_def
  proof (rule post_mono [OF core_ProcessNextOperation [OF mem core vs st]], elim exE conjE)
    fix t g' assume t: "gext i g g'" "no_core c g' i t" "np_later s t"
    then have "np_status t = STATUS_NORMAL" using normal by (simp add: np_later_def)
    with t show "\<exists>g'. gext i g g' \<and> no_fits c g' i t \<and> np_grows s t"
      using later_fits [OF fits t] np_later_grows by auto
  qed
qed

section \<open>Gaps\<close>

text \<open>A gap beyond the log.\<close>

lemma core_late_gap:
  assumes core: "no_core c g i s" and R: "gR g (unat gap) = Some None" and gap: "np_lastOp s < gap"
  shows "no_core c g i (s\<lparr>np_committedGaps := sset_insert gap (np_committedGaps s)\<rparr>)" (is "no_core c g i ?s")
proof -
  let ?G = "set (np_committedGaps s)" and ?H = "insert gap (set (np_committedGaps s))"
  have G: "?G \<subseteq> ?H" by auto
  have parts: "executed_fits g ?G s" "committed_fits g i ?G s" "log_fits g (np_log s) (np_lastOp s) ?G"
    using core by (simp_all add: no_core_def)
  have "executed_fits g ?H ?s" by (rule executed_fits_grow [OF parts(1) grow_refl G]) simp_all
  moreover have "committed_fits g i ?H ?s" by (rule committed_fits_grow [OF parts(2) grow_refl G]) simp_all
  moreover have "log_fits g (np_log s) (np_lastOp s) ?H"
    using parts(3) R gap by (auto simp: log_fits_def)
  moreover have "no_eff_ok c g i (np_lastOp s) ?H e" if "e \<in> set (np_sent s)" for e
    using core that by (intro no_eff_ok_grow [OF grow_refl order_refl G]) (simp_all add: no_core_def)
  moreover have "leader_fits c g ?s = leader_fits c g s" by (simp add: leader_fits_def)
  ultimately show ?thesis
    using core by (simp add: no_core_def)
qed

text \<open>A gap in the log: the entry there becomes a \<open>NOOP\<close>.\<close>

lemma core_known_gap:
  assumes core: "no_core c g i s" and i: "i \<noteq> 0" and R: "gR g (unat gap) = Some None" and gap: "gap \<le> np_lastOp s"
    and l: "SetStatus E gap LOG_STATE_NOOP (np_log s) = Inr (b, l)"
  shows "no_core c g i (s\<lparr>np_committedGaps := sset_insert gap (np_committedGaps s), np_log := l\<rparr>)" (is "no_core c g i ?s")
    and "no_core c g i (s\<lparr>np_log := l, np_committedGaps := sset_insert gap (np_committedGaps s)\<rparr>)"
proof -
  let ?G = "set (np_committedGaps s)" and ?H = "insert gap (set (np_committedGaps s))"
  have G: "?G \<subseteq> ?H" by auto
  have parts: "executed_fits g ?G s" "committed_fits g i ?G s" "log_fits g (np_log s) (np_lastOp s) ?G" "no_wf c g"
    using core by (simp_all add: no_core_def)
  have ok: "log_ok (np_log s)" using parts(3) by (simp add: log_fits_def)
  have pos: "1 \<le> unat gap" using R parts(4) by (cases "unat gap") (auto simp: no_wf_def)
  obtain e where e: "log_num_at (np_log s) (unat gap) = Some e" "entry_ok (gS g) (unat gap) e"
    using log_fits_entry [OF parts(3) pos gap] by blast
  then have at: "log_at (np_log s) gap = Some e" by (simp add: log_at_num)
  let ?l = "update_entry gap (\<lambda>e. e\<lparr>state := LOG_STATE_NOOP\<rparr>) (np_log s)"
  have l': "l = ?l" using l at by (simp add: SetStatus_ok [OF ok])
  have num: "log_num_at ?l = (log_num_at (np_log s))(unat gap \<mapsto> e\<lparr>state := LOG_STATE_NOOP\<rparr>)"
    by (rule update_entry_num_at [OF e(1)])
  have upd: "log_ok ?l" "log_top ?l = log_top (np_log s)"
    using update_entry_ok [OF ok at, of "\<lambda>e. e\<lparr>state := LOG_STATE_NOOP\<rparr>"] by simp_all
  have start: "start ?l = start (np_log s)" by (simp add: update_entry_def Let_def)
  have slot: "slot ?l = (slot (np_log s))(unat gap \<mapsto> None)"
    by (simp add: slot_def num fun_eq_iff)
  have "entry_ok (gS g) k x" if "log_num_at ?l k = Some x" for k x
    using that e parts(3) by (auto simp: num log_fits_def entry_ok_def split: if_splits)
  moreover have "gR g (unat x) = Some None \<and> (x \<le> np_lastOp s \<longrightarrow> slot ?l (unat x) = Some None)" if "x \<in> ?H" for x
    using that R parts(3) by (auto simp: slot log_fits_def)
  moreover have "of_nat k \<in> ?H" if "slot ?l k = Some None" for k
    using that parts(3) by (auto simp: slot log_fits_def split: if_splits)
  ultimately have "log_fits g l (np_lastOp s) ?H"
    using parts(3) upd start by (simp add: log_fits_def l')
  moreover have "executed_fits g ?H ?s" by (rule executed_fits_grow [OF parts(1) grow_refl G]) simp_all
  moreover have "committed_fits g i ?H ?s" by (rule committed_fits_grow [OF parts(2) grow_refl G]) simp_all
  moreover have "no_eff_ok c g i (np_lastOp s) ?H e" if "e \<in> set (np_sent s)" for e
    using core that by (intro no_eff_ok_grow [OF grow_refl order_refl G]) (simp_all add: no_core_def)
  ultimately show core': "no_core c g i ?s"
    using core i by (simp add: no_core_def)
  have "s\<lparr>np_log := l, np_committedGaps := sset_insert gap (np_committedGaps s)\<rparr> = ?s" by simp
  with core' show "no_core c g i (s\<lparr>np_log := l, np_committedGaps := sset_insert gap (np_committedGaps s)\<rparr>)" by metis
qed

lemma log_fits_LastViewstamp:
  assumes "log_fits g l lo G"
  shows "vs_view (LastViewstamp l) = 0" and "vs_sessnum (LastViewstamp l) = 0"
proof -
  have "vs_view (LastViewstamp l) = 0 \<and> vs_sessnum (LastViewstamp l) = 0"
  proof (cases "entries l = []")
    case False
    then have "log_num_at l (unat (start l) + (length (entries l) - 1)) = Some (last (entries l))"
      by (simp add: log_num_at_def log_top_def last_conv_nth)
    then have "entry_ok (gS g) (unat (start l) + (length (entries l) - 1)) (last (entries l))"
      using assms by (simp add: log_fits_def)
    with False show ?thesis by (simp add: LastViewstamp_def entry_ok_def)
  qed (simp add: LastViewstamp_def viewstamp2_def)
  then show "vs_view (LastViewstamp l) = 0" and "vs_sessnum (LastViewstamp l) = 0" by auto
qed

lemma core_succ:
  assumes "no_core c g i s"
  shows "np_lastOp s < np_lastOp s + 1" and "np_lastOp s < x \<longleftrightarrow> np_lastOp s + 1 \<le> x"
    and "x < np_lastOp s + 1 \<longleftrightarrow> x \<le> np_lastOp s"
proof -
  have "unat (np_lastOp s) < 2 ^ 63" using assms log_fits_bound by (auto simp: no_core_def)
  then have n: "unat (np_lastOp s + 1) = Suc (unat (np_lastOp s))" by (intro unat_succ_bound) simp
  then show "np_lastOp s < np_lastOp s + 1" by (simp add: word_less_nat_alt)
  show "np_lastOp s < x \<longleftrightarrow> np_lastOp s + 1 \<le> x" using n by (auto simp: word_less_nat_alt word_le_nat_alt)
  show "x < np_lastOp s + 1 \<longleftrightarrow> x \<le> np_lastOp s" using n by (auto simp: word_less_nat_alt word_le_nat_alt)
qed

lemma known_entry:
  assumes core: "no_core c g i s" and R: "gR g (unat gap) = Some None" and gap: "gap \<le> np_lastOp s"
  obtains e where "Find E gap (np_log s) = Inr (Some e)"
    and "state e = LOG_STATE_NOOP \<longleftrightarrow> gap \<in> set (np_committedGaps s)"
proof -
  have fits: "log_fits g (np_log s) (np_lastOp s) (set (np_committedGaps s))" and wf: "no_wf c g"
    using core by (simp_all add: no_core_def)
  have "1 \<le> unat gap" using R wf by (cases "unat gap") (auto simp: no_wf_def)
  from log_fits_entry [OF fits this gap, of E] obtain e where
    e: "Find E gap (np_log s) = Inr (Some e)" "log_num_at (np_log s) (unat gap) = Some e" by blast
  have slot: "slot (np_log s) (unat gap) = Some (if state e = LOG_STATE_NOOP then None else Some (request e))"
    using e(2) by (simp add: slot_def)
  have "of_nat (unat gap) = gap" by simp
  then have "state e = LOG_STATE_NOOP \<Longrightarrow> gap \<in> set (np_committedGaps s)"
    using fits slot unfolding log_fits_def by metis
  moreover have "gap \<in> set (np_committedGaps s) \<Longrightarrow> state e = LOG_STATE_NOOP"
    using fits slot gap by (auto simp: log_fits_def split: if_splits)
  ultimately show ?thesis using that e(1) by blast
qed

lemma core_InstallGap:
  assumes mem: "no_member c i" and core: "no_core c g i s" and i: "i \<noteq> 0" and R: "gR g (unat gap) = Some None"
  shows "post (np_InstallGap (ne_at c i) gap s) (\<lambda>t. no_core c g i t \<and> np_later s t \<and> gap \<in> set (np_committedGaps t))"
proof (cases "gap \<in> set (np_committedGaps s)")
  case False
  let ?s = "s\<lparr>np_committedGaps := sset_insert gap (np_committedGaps s)\<rparr>"
  have later: "np_later s ?s" by (auto simp: np_later_def)
  show ?thesis
  proof (cases "gap \<le> np_lastOp s")
    case True
    then have "np_lastOp s + 1 \<noteq> gap" using core_succ(3) [OF core, of gap] by auto
    moreover obtain e where "Find (ne_at c i) gap (np_log s) = Inr (Some e)" "state e \<noteq> LOG_STATE_NOOP"
      using known_entry [OF core R True] False by metis
    ultimately show ?thesis
      using False True core_known_gap(1) [OF core i R True]
      by (auto simp: np_InstallGap_def Let_def wp np_later_def intro!: postI)
  next
    case beyond: False
    then have core': "no_core c g i ?s" using core_late_gap [OF core R] by simp
    show ?thesis
    proof (cases "np_lastOp s + 1 = gap")
      case True
      have view: "vs_view (LastViewstamp (np_log s)) = 0" "vs_sessnum (LastViewstamp (np_log s)) = 0"
          "np_nextMsgnum s = np_lastOp s + 1"
        using core log_fits_LastViewstamp by (auto simp: no_core_def)
      let ?vs = "Viewstamp (vs_view (LastViewstamp (np_log s))) gap (vs_sessnum (LastViewstamp (np_log s)))
          (np_nextMsgnum s) (vs_shardnum (LastViewstamp (np_log s)))"
      have "post (np_ProcessNextOperation (ne_at c i) empty_Request ?vs LOG_STATE_NOOP ?s)
          (\<lambda>t. \<exists>g'. gext i g g' \<and> no_core c g' i t \<and> np_later ?s t \<and> vs_opnum ?vs \<le> np_lastOp t \<and>
            (LOG_STATE_NOOP = LOG_STATE_NOOP \<longrightarrow> vs_opnum ?vs \<in> set (np_committedGaps t)) \<and>
            (i = 0 \<longrightarrow> np_lastOp t = vs_opnum ?vs))"
        using True view R by (intro core_ProcessNextOperation [OF mem core']) auto
      then have "post (np_ProcessNextOperation (ne_at c i) empty_Request ?vs LOG_STATE_NOOP ?s)
          (\<lambda>t. no_core c g i t \<and> np_later s t \<and> gap \<le> np_lastOp t \<and> gap \<in> set (np_committedGaps t))"
        by (rule post_mono) (use i later np_later_trans in \<open>auto simp: gext_def\<close>)
      then have "post (bind_r (np_ProcessNextOperation (ne_at c i) empty_Request ?vs LOG_STATE_NOOP ?s) (\<lambda>s2.
          if np_lastOp s2 \<ge> gap then
            bind_r (Find (ne_at c i) gap (np_log s2)) (\<lambda>found. deref_r found (\<lambda>entry.
              if state entry \<noteq> LOG_STATE_NOOP then
                assert_r (nassert (ne_at c i)) (np_lastCommittedOp s2 < gap)
                  (if np_lastExecutedOp s2 \<ge> gap then Inl Panicked
                   else bind_r (SetStatus (ne_at c i) gap LOG_STATE_NOOP (np_log s2)) (\<lambda>(_, l).
                     Inr (s2\<lparr>np_log := l\<rparr>)))
              else Inr s2))
          else Inr s2)) (\<lambda>t. no_core c g i t \<and> np_later s t \<and> gap \<in> set (np_committedGaps t))"
      proof (rule post_bindI, elim conjE)
        fix t assume t: "no_core c g i t" "np_later s t" "gap \<le> np_lastOp t" "gap \<in> set (np_committedGaps t)"
        then obtain e where "Find (ne_at c i) gap (np_log t) = Inr (Some e)" "state e = LOG_STATE_NOOP"
          using known_entry [OF t(1) R t(3)] by metis
        with t show "post (if np_lastOp t \<ge> gap then
            bind_r (Find (ne_at c i) gap (np_log t)) (\<lambda>found. deref_r found (\<lambda>entry.
              if state entry \<noteq> LOG_STATE_NOOP then
                assert_r (nassert (ne_at c i)) (np_lastCommittedOp t < gap)
                  (if np_lastExecutedOp t \<ge> gap then Inl Panicked
                   else bind_r (SetStatus (ne_at c i) gap LOG_STATE_NOOP (np_log t)) (\<lambda>(_, l).
                     Inr (t\<lparr>np_log := l\<rparr>)))
              else Inr t))
          else Inr t) (\<lambda>t. no_core c g i t \<and> np_later s t \<and> gap \<in> set (np_committedGaps t))"
          by simp
      qed
      then show ?thesis using False True by (simp add: np_InstallGap_def Let_def)
    qed (use False beyond core' later in \<open>simp add: np_InstallGap_def Let_def\<close>)
  qed
qed (use core in \<open>simp add: np_InstallGap_def\<close>)

lemma core_InstallCommittedGaps:
  assumes mem: "no_member c i" and i: "i \<noteq> 0"
  shows "no_core c g i s \<Longrightarrow> \<forall>x \<in> set gaps. gR g (unat x) = Some None \<Longrightarrow>
    post (np_InstallCommittedGaps (ne_at c i) gaps s) (\<lambda>t. no_core c g i t \<and> np_later s t \<and> set gaps \<subseteq> set (np_committedGaps t))"
proof (induction gaps arbitrary: s)
  case (Cons x xs)
  have "post (np_InstallGap (ne_at c i) x s) (\<lambda>t. no_core c g i t \<and> np_later s t \<and> x \<in> set (np_committedGaps t))"
    using Cons.prems by (intro core_InstallGap [OF mem _ i]) auto
  then show ?case
    unfolding np_InstallCommittedGaps_def fold_r.simps
  proof (rule post_bindI, elim conjE)
    fix t assume t: "no_core c g i t" "np_later s t" "x \<in> set (np_committedGaps t)"
    have "post (fold_r (np_InstallGap (ne_at c i)) xs t) (\<lambda>u. no_core c g i u \<and> np_later t u \<and> set xs \<subseteq> set (np_committedGaps u))"
      using Cons.IH [OF t(1)] Cons.prems(2) by (simp add: np_InstallCommittedGaps_def)
    then show "post (fold_r (np_InstallGap (ne_at c i)) xs t)
        (\<lambda>u. no_core c g i u \<and> np_later s u \<and> set (x # xs) \<subseteq> set (np_committedGaps u))"
      by (rule post_mono) (use t np_later_trans in \<open>auto simp: np_later_def\<close>)
  qed
qed (simp add: np_InstallCommittedGaps_def)

section \<open>Client requests\<close>

lemma no_fits_upd [simp]:
  "no_fits c g i (s\<lparr>np_gapRequestTimeout := t\<rparr>) = no_fits c g i s"
  "no_fits c g i (s\<lparr>np_gapReplyQuorum := q1\<rparr>) = no_fits c g i s"
  "no_fits c g i (s\<lparr>np_gapCommitTimeout := t\<rparr>) = no_fits c g i s"
  "no_fits c g i (s\<lparr>np_gapCommitQuorum := q2\<rparr>) = no_fits c g i s"
  "no_fits c g i (s\<lparr>np_syncTimeout := t\<rparr>) = no_fits c g i s"
  "no_fits c g i (s\<lparr>np_leaderSyncHeardTimeout := t\<rparr>) = no_fits c g i s"
  "no_fits c g i (s\<lparr>np_stateTransferOpBegin := n\<rparr>) = no_fits c g i s"
  "no_fits c g i (s\<lparr>np_stateTransferReplicaIdx := k\<rparr>) = no_fits c g i s"
  "no_fits c g i (s\<lparr>np_pendingRequestsSorted := b\<rparr>) = no_fits c g i s"
  "no_fits c g i (s\<lparr>np_app := a\<rparr>) = no_fits c g i s"
  by (simp_all add: no_fits_def points_fit_def)

lemma np_grows_upd [simp]:
  "np_grows s (t\<lparr>np_gapRequestTimeout := to\<rparr>) = np_grows s t"
  "np_grows s (t\<lparr>np_gapReplyQuorum := q1\<rparr>) = np_grows s t"
  "np_grows s (t\<lparr>np_gapCommitTimeout := to\<rparr>) = np_grows s t"
  "np_grows s (t\<lparr>np_gapCommitQuorum := q2\<rparr>) = np_grows s t"
  "np_grows s (t\<lparr>np_syncTimeout := to\<rparr>) = np_grows s t"
  "np_grows s (t\<lparr>np_leaderSyncHeardTimeout := to\<rparr>) = np_grows s t"
  "np_grows s (t\<lparr>np_pendingRequests := ms\<rparr>) = np_grows s t"
  "np_grows s (t\<lparr>np_pendingRequestsSorted := b\<rparr>) = np_grows s t"
  "np_grows s (t\<lparr>np_app := a\<rparr>) = np_grows s t"
  by (simp_all add: np_grows_def)

lemma fits_pending:
  "no_fits c g i s \<Longrightarrow> \<forall>m \<in> set ms. no_msg_ok g (\<lambda>_ _. True) (NRequest m) \<Longrightarrow>
   no_fits c g i (s\<lparr>np_pendingRequests := ms\<rparr>)"
  by (auto simp: no_fits_def points_fit_def no_core_def leader_fits_def executed_fits_def committed_fits_def)

lemma fits_pendingD: "no_fits c g i s \<Longrightarrow> \<forall>m \<in> set (np_pendingRequests s). no_msg_ok g (\<lambda>_ _. True) (NRequest m)"
  by (simp add: no_fits_def no_core_def)

lemma fits_view: "no_fits c g i s \<Longrightarrow> np_view s = 0 \<and> np_sessnum s = 0 \<and> np_nextMsgnum s = np_lastOp s + 1"
  by (simp add: no_fits_def no_core_def)

lemma fits_SendGapRequest:
  assumes "no_fits c g i s"
  shows "no_fits c g i (np_SendGapRequest E s)" and "np_grows s (np_SendGapRequest E s)"
  using fits_view [OF assms]
  by (auto simp: np_SendGapRequest_def Let_def np_to_leader_def intro!: fits_emit [OF assms])

lemma fits_TryProcess:
  assumes mem: "no_member c i" and fits: "no_fits c g i s" and m: "no_msg_ok g B (NRequest m)"
  shows "post (np_TryProcessClientRequest (ne_at c i) m s) (\<lambda>(b, t). \<exists>g'. gext i g g' \<and> no_fits c g' i t \<and> np_grows s t)"
proof -
  have "fits_step c g i s (np_ProcessNextOperation (ne_at c i) (rq_req m)
      (Viewstamp (np_view s) (np_lastOp s + 1) (rq_sessnum m) (rq_msgnum m) 0) LOG_STATE_RECEIVED s)"
    if "np_status s = STATUS_NORMAL" "rq_msgnum m = np_nextMsgnum s"
    using that fits_view [OF fits] m by (intro fits_PNO [OF mem fits]) auto
  moreover have "\<exists>g'. gext i g g' \<and> no_fits c g' i s \<and> np_grows s s"
    using fits gext_refl np_grows_refl by blast
  moreover have "\<exists>g'. gext i g g' \<and> no_fits c g' i (np_SendGapRequest (ne_at c i) s) \<and> np_grows s (np_SendGapRequest (ne_at c i) s)"
    using fits_SendGapRequest [OF fits] gext_refl by blast
  ultimately show ?thesis
    using fits_view [OF fits] m
    by (auto simp: np_TryProcessClientRequest_def post_if post_bind fits_step_def not_less)
qed

lemma msg_ok_later: "gext i g g' \<Longrightarrow> no_msg_ok g B m \<Longrightarrow> no_msg_ok g' B m"
  using no_msg_ok_grow [OF gext_grow, of i g g' B B m] by simp

lemma fits_HandleClientRequest:
  assumes mem: "no_member c i" and fits: "no_fits c g i s" and m: "no_msg_ok g B (NRequest m)"
  shows "fits_step c g i s (np_HandleClientRequest (ne_at c i) remote m s)"
proof -
  have "no_fits c g' i (np_AddPendingRequest m t)" if "gext i g g'" "no_fits c g' i t" for g' t
  proof -
    have "\<forall>x \<in> set (np_pendingRequests t @ [m]). no_msg_ok g' (\<lambda>_ _. True) (NRequest x)"
      using msg_ok_later [OF that(1) m] that(2) by (auto simp: no_fits_def no_core_def)
    then show ?thesis using fits_pending [OF that(2)] that(2) by (simp add: np_AddPendingRequest_def)
  qed
  moreover have "np_grows s (np_AddPendingRequest m t) = np_grows s t" for t
    by (simp add: np_AddPendingRequest_def)
  ultimately have "post (np_TryProcessClientRequest (ne_at c i) m s)
      (\<lambda>r. \<exists>g'. gext i g g' \<and> no_fits c g' i (if fst r then snd r else np_AddPendingRequest m (snd r)) \<and>
        np_grows s (if fst r then snd r else np_AddPendingRequest m (snd r)))"
    by (intro post_mono [OF fits_TryProcess [OF mem fits m]]) (auto split: prod.splits)
  then show ?thesis
    unfolding np_HandleClientRequest_def fits_step_def post_if post_bind case_prod_beta post_simps by blast
qed

lemma set_tl_subset: "set (tl xs) \<subseteq> set xs"
  by (cases xs) auto

lemma fits_pending_loop:
  assumes mem: "no_member c i"
  shows "no_fits c g i s \<Longrightarrow> fits_step c g i s (np_pending_loop (ne_at c i) s)"
proof (induction "ne_at c i" s arbitrary: g rule: np_pending_loop.induct)
  case (1 s)
  show ?case
  proof (cases "np_pendingRequests s")
    case Nil
    then show ?thesis using 1(2) by (subst np_pending_loop.simps) (simp add: fits_step_Inr)
  next
    case (Cons m ms)
    then have m: "no_msg_ok g (\<lambda>_ _. True) (NRequest m)" using 1(2) by (simp add: no_fits_def no_core_def)
    have attempt: "post (np_TryProcessClientRequest (ne_at c i) m s) (\<lambda>r.
        (\<exists>g'. gext i g g' \<and> no_fits c g' i (snd r) \<and> np_grows s (snd r)) \<and> np_TryProcessClientRequest (ne_at c i) m s = Inr r)"
      by (rule post_strengthen [OF fits_TryProcess [OF mem 1(2) m]]) auto
    show ?thesis
      unfolding fits_step_def
    proof (subst np_pending_loop.simps, unfold Cons list.case, rule post_bindI [OF attempt], elim conjE exE)
      fix r g' assume r: "gext i g g'" "no_fits c g' i (snd r)" "np_grows s (snd r)"
        "np_TryProcessClientRequest (ne_at c i) m s = Inr r"
      let ?t = "(snd r)\<lparr>np_pendingRequests := tl (np_pendingRequests (snd r))\<rparr>"
      have t: "no_fits c g' i ?t" "np_grows s ?t"
        using r(3) set_tl_subset [of "np_pendingRequests (snd r)"] fits_pendingD [OF r(2)] by (auto intro!: fits_pending [OF r(2)])
      have "fits_step c g' i ?t (np_pending_loop (ne_at c i) ?t)" if "fst r"
        by (rule 1(1) [OF Cons r(4) that t(1)])
      then have "fits_step c g i s (np_pending_loop (ne_at c i) ?t)" if "fst r"
        using that fits_step_trans r(1) t(2) by blast
      then show "post (if fst r then np_pending_loop (ne_at c i) ?t else Inr (snd r))
          (\<lambda>t. \<exists>g'. gext i g g' \<and> no_fits c g' i t \<and> np_grows s t)"
        using r(1-3) by (auto simp: fits_step_def)
    qed
  qed
qed

lemma fits_ProcessPendingRequests:
  assumes mem: "no_member c i" and fits: "no_fits c g i s"
  shows "fits_step c g i s (np_ProcessPendingRequests (ne_at c i) s)"
proof -
  let ?s = "s\<lparr>np_pendingRequests := sort_key (\<lambda>r. (rq_sessnum r, rq_msgnum r)) (np_pendingRequests s),
    np_pendingRequestsSorted := True\<rparr>"
  have s: "no_fits c g i ?s"
    using fits_pendingD [OF fits] fits_pending [OF fits, of "sort_key (\<lambda>r. (rq_sessnum r, rq_msgnum r)) (np_pendingRequests s)"] by simp
  have "fits_step c g i s (np_pending_loop (ne_at c i) ?s)"
    using fits_pending_loop [OF mem s] by (simp add: fits_step_def np_grows_def)
  then show ?thesis
    using fits fits_pending_loop [OF mem fits] by (simp add: np_ProcessPendingRequests_def fits_step_Inr)
qed

end
