(* ===== verification/NOHandled.thy ===== *)
theory NOHandled
  imports NOSteps
begin

text \<open>
  The handlers and timers of a replica in the normal case, one by one: what \<open>NOSteps\<close> announces.
\<close>

abbreviation votes_of :: "no_ghost \<Rightarrow> int \<Rightarrow> opnum_t \<Rightarrow> bool" where
  "votes_of g r p \<equiv> (\<exists>j. r = int j \<and> gA g j p)"

section \<open>Gap agreement\<close>

lemma fits_HandleUnloggedRequest:
  assumes "no_fits c g i s"
  shows "fits_step c g i s (np_HandleUnloggedRequest (ne_at c i) remote m s)"
proof -
  have "no_fits c g i (np_emit (NSendToClient remote (NUnloggedReply r)) (s\<lparr>np_app := a\<rparr>))" for r a
    using assms by (intro fits_emit) simp_all
  then show ?thesis
    by (auto simp: np_HandleUnloggedRequest_def intro!: fits_step_Inr split: prod.split)
qed

lemma fits_entry:
  assumes "no_fits c g i s" and "log_at (np_log s) opn = Some e"
  shows "entry_ok (gS g) (unat opn) e" and "state e = LOG_STATE_NOOP \<Longrightarrow> gR g (unat opn) = Some None"
proof -
  have fits: "log_fits g (np_log s) (np_lastOp s) (set (np_committedGaps s))" using assms(1) by (simp add: no_fits_def no_core_def)
  have at: "log_num_at (np_log s) (unat opn) = Some e" using assms(2) by (simp add: log_at_num)
  then show "entry_ok (gS g) (unat opn) e" using fits by (simp add: log_fits_def)
  assume "state e = LOG_STATE_NOOP"
  then have "slot (np_log s) (unat opn) = Some None" using at by (simp add: slot_def)
  moreover have "of_nat (unat opn) = opn" by simp
  ultimately have "opn \<in> set (np_committedGaps s)" using fits unfolding log_fits_def by metis
  then show "gR g (unat opn) = Some None" using fits by (simp add: log_fits_def)
qed

lemma fits_log_ok: "no_fits c g i s \<Longrightarrow> log_ok (np_log s)"
  by (simp add: no_fits_def no_core_def log_fits_def)

lemma fits_HandleGapRequest:
  assumes fits: "no_fits c g i s" and m: "no_msg_ok g B (NGapRequest m)"
  shows "fits_step c g i s (np_HandleGapRequest (ne_at c i) remote m s)"
proof -
  have view: "np_view s = 0" "np_sessnum s = 0" using fits_view [OF fits] by auto
  have answer: "fits_step c g i s (Inr (np_emit (NSend remote (NGapReply
      (NOGapReplyMessage 0 0 (gr_opnum m) found gap (ne_u32 (ne_at c i)) req))) s))"
    if "found \<longrightarrow> (if gap then gR g (unat (gr_opnum m)) = Some None
      else \<exists>r. req = Some r \<and> is_req (gS g) (unat (gr_opnum m)) r)" for found gap req
    using that by (intro fits_step_Inr fits_emit [OF fits]) auto
  have "state e = LOG_STATE_RECEIVED \<Longrightarrow> fits_step c g i s (Inr (np_emit (NSend remote (NGapReply
        (NOGapReplyMessage 0 0 (gr_opnum m) True False (ne_u32 (ne_at c i)) (Some (request e))))) s))"
    "state e = LOG_STATE_NOOP \<Longrightarrow> fits_step c g i s (Inr (np_emit (NSend remote (NGapReply
        (NOGapReplyMessage 0 0 (gr_opnum m) True True (ne_u32 (ne_at c i)) None))) s))"
    if "log_at (np_log s) (gr_opnum m) = Some e" for e
    using fits_entry [OF fits that] by (auto simp: entry_ok_def intro!: answer)
  then show ?thesis
    using m view answer [of False False None] fits_step_Inr [OF fits np_grows_refl]
    by (cases "log_at (np_log s) (gr_opnum m)")
      (simp_all add: np_HandleGapRequest_def np_checked_fits [OF fits] Find_ok [OF fits_log_ok [OF fits]] Let_def)
qed

lemma fits_leader: "no_member c i \<Longrightarrow> no_fits c g i s \<Longrightarrow> np_AmLeader (ne_at c i) s \<longleftrightarrow> i = 0"
  by (rule np_AmLeader_at) (simp_all add: no_fits_def no_core_def)

lemma fits_SendGapCommit:
  assumes mem: "no_member c i" and fits: "no_fits c g i s"
  shows "fits_step c g i s (np_SendGapCommit (ne_at c i) s)"
proof -
  have "fits_step c g i s (Inr (np_emit (NSendToAll (NGapCommit (NOGapCommitMessage 0 0 (np_lastOp s)))) s))"
    if "np_status s = STATUS_GAP_COMMIT"
  proof (intro fits_step_Inr fits_emit [OF fits])
    have "np_lastOp s \<in> set (np_committedGaps s)" using fits that by (simp add: no_fits_def)
    then have "gR g (unat (np_lastOp s)) = Some None" using fits by (simp add: no_fits_def no_core_def log_fits_def)
    then show "no_eff_ok c g i (np_lastOp s) (set (np_committedGaps s))
        (NSendToAll (NGapCommit (NOGapCommitMessage 0 0 (np_lastOp s))))" by simp
  qed simp_all
  then show ?thesis
    using mem fits_view [OF fits]
    by (simp add: np_SendGapCommit_def no_member_def Let_def fits_step_def post_assert)
qed

lemma core_status:
  assumes "no_core c g 0 s" and "st \<in> {STATUS_NORMAL, STATUS_GAP_COMMIT}"
  shows "no_core c g 0 (s\<lparr>np_status := st\<rparr>)"
proof -
  have "leader_fits c g s \<Longrightarrow> leader_fits c g (s\<lparr>np_status := st\<rparr>)"
    using assms(2) unfolding leader_fits_def by (elim conjE, intro conjI) simp_all
  then show ?thesis using assms(1) by (simp add: no_core_def executed_fits_def committed_fits_def)
qed

lemma fits_StartGapAgreement:
  assumes mem: "no_member c i" and fits: "no_fits c g i s"
  shows "fits_step c g i s (np_StartGapAgreement (ne_at c i) s)"
proof (cases "i = 0")
  case True
  let ?s = "s\<lparr>np_gapReplyQuorum := QS_ClearAll (np_gapReplyQuorum s),
      np_gapRequestTimeout := Timeout_Stop (np_gapRequestTimeout s), np_status := STATUS_GAP_COMMIT,
      np_gapCommitQuorum := QS_ClearAll (np_gapCommitQuorum s)\<rparr>"
  let ?vs = "Viewstamp (np_view ?s) (np_lastOp ?s + 1) (np_sessnum ?s) (np_nextMsgnum ?s) 0"
  have view: "np_view s = 0" "np_sessnum s = 0" "np_nextMsgnum s = np_lastOp s + 1" using fits_view [OF fits] by auto
  have points: "points_fit g ?s" using fits by (simp add: no_fits_def points_fit_def)
  have core: "no_core c g i ?s"
    using fits True core_status [of c g s] by (simp add: no_fits_def core_status)
  have "post (np_ProcessNextOperation (ne_at c i) empty_Request ?vs LOG_STATE_NOOP ?s)
      (\<lambda>t. \<exists>g'. gext i g g' \<and> no_core c g' i t \<and> np_later ?s t \<and> vs_opnum ?vs \<le> np_lastOp t \<and>
        (LOG_STATE_NOOP = LOG_STATE_NOOP \<longrightarrow> vs_opnum ?vs \<in> set (np_committedGaps t)) \<and>
        (i = 0 \<longrightarrow> np_lastOp t = vs_opnum ?vs))"
    using True view by (intro core_ProcessNextOperation [OF mem core]) auto
  then have first: "fits_step c g i s (np_ProcessNextOperation (ne_at c i) empty_Request ?vs LOG_STATE_NOOP ?s)"
    unfolding fits_step_def
  proof (rule post_mono, elim exE conjE)
    fix t g' assume t: "gext i g g'" "no_core c g' i t" "np_later ?s t" "i = 0 \<longrightarrow> np_lastOp t = vs_opnum ?vs"
      "LOG_STATE_NOOP = LOG_STATE_NOOP \<longrightarrow> vs_opnum ?vs \<in> set (np_committedGaps t)"
    have "no_fits c g' i t"
      using t True points_fit_later [OF points gext_grow [OF t(1)] t(3)] by (simp add: no_fits_def)
    moreover have "np_grows s t" using t(3) by (simp add: np_later_def np_grows_def)
    ultimately show "\<exists>g'. gext i g g' \<and> no_fits c g' i t \<and> np_grows s t" using t(1) by blast
  qed
  have "fits_step c g i s (bind_r (np_ProcessNextOperation (ne_at c i) empty_Request ?vs LOG_STATE_NOOP ?s)
      (np_SendGapCommit (ne_at c i)))"
    by (rule fits_step_bind [OF first fits_SendGapCommit [OF mem]])
  then show ?thesis
    using True fits_leader [OF mem fits] by (simp add: np_StartGapAgreement_def Let_def)
qed (use fits_leader [OF mem fits] mem in \<open>simp add: np_StartGapAgreement_def fits_step_assert no_member_def\<close>)

lemma fits_HandleGapReply:
  assumes mem: "no_member c i" and fits: "no_fits c g i s" and m: "no_msg_ok g B (NGapReply m)"
  shows "fits_step c g i s (np_HandleGapReply (ne_at c i) remote m s)"
proof -
  have view: "np_view s = 0" "np_sessnum s = 0" "np_nextMsgnum s = np_lastOp s + 1" using fits_view [OF fits] by auto
  have same: "fits_step c g i s (Inr s)" by (rule fits_step_Inr [OF fits np_grows_refl])
  let ?st = "if gp_isgap m then LOG_STATE_NOOP else LOG_STATE_RECEIVED"
  let ?req = "case gp_req m of None \<Rightarrow> empty_Request | Some r \<Rightarrow> r"
  have found: "fits_step c g i s (np_ProcessNextOperation (ne_at c i) ?req
      (Viewstamp 0 (np_lastOp s + 1) 0 (np_lastOp s + 1) 0) ?st s)"
    if "gp_opnum m = np_lastOp s + 1" "np_status s \<noteq> STATUS_GAP_COMMIT" "gp_isfound m"
    using that m no_fits_status [OF fits] by (intro fits_PNO [OF mem fits]) (auto split: if_splits)
  have agree: "fits_step c g i s (np_StartGapAgreement (ne_at c i) (s\<lparr>np_gapReplyQuorum := q\<rparr>))" for q
    by (rule fits_step_trans [OF fits_StartGapAgreement [OF mem] gext_refl]) (use fits in simp_all)
  have quorum: "fits_step c g i s (Inr (s\<lparr>np_gapReplyQuorum := q\<rparr>))" for q
    using fits by (intro fits_step_Inr) auto
  show ?thesis
    using m view same found agree quorum
    by (simp add: np_HandleGapReply_def np_checked_fits [OF fits] fits_step_assert Let_def split: prod.split)
qed

lemma follower_later_fits:
  assumes "no_fits c g i s" and "i \<noteq> 0" and "post r (\<lambda>t. no_core c g i t \<and> np_later s t)"
  shows "fits_step c g i s r"
  unfolding fits_step_def
proof (rule post_mono [OF assms(3)], elim conjE)
  fix t assume t: "no_core c g i t" "np_later s t"
  then have "np_status t = STATUS_NORMAL" using assms(2) by (simp add: no_core_def)
  then have "no_fits c g i t" using later_fits [OF assms(1) gext_refl t] by simp
  then show "\<exists>g'. gext i g g' \<and> no_fits c g' i t \<and> np_grows s t"
    using gext_refl np_later_grows [OF t(2)] by blast
qed

lemma fits_HandleGapCommit:
  assumes mem: "no_member c i" and fits: "no_fits c g i s" and m: "no_msg_ok g B (NGapCommit m)"
  shows "fits_step c g i s (np_HandleGapCommit (ne_at c i) remote m s)"
proof (cases "i = 0")
  case True
  then show ?thesis
    using mem m fits_leader [OF mem fits] fits
    by (simp add: np_HandleGapCommit_def np_checked_fits fits_step_assert no_member_def)
next
  case False
  let ?o = "gc_opnum m"
  have view: "np_view s = 0" "np_sessnum s = 0" "np_nextMsgnum s = np_lastOp s + 1" using fits_view [OF fits] by auto
  have core: "no_core c g i s" using fits by (simp add: no_fits_def)
  have R: "gR g (unat ?o) = Some None" using m by simp
  have early: "fits_step c g i s (Inr (s\<lparr>np_committedGaps := sset_insert ?o (np_committedGaps s)\<rparr>))"
    if "np_lastOp s + 1 < ?o"
  proof (rule follower_later_fits [OF fits False])
    have "np_lastOp s < ?o" using that core_succ(1) [OF core] by (rule dual_order.strict_trans)
    then show "post (Inr (s\<lparr>np_committedGaps := sset_insert ?o (np_committedGaps s)\<rparr>)) (\<lambda>t. no_core c g i t \<and> np_later s t)"
      using core_late_gap [OF core R] by (auto simp: np_later_def)
  qed
  have inside: "fits_step c g i s (bind_r (SetStatus (ne_at c i) ?o LOG_STATE_NOOP (np_log s)) (\<lambda>(_, l).
      Inr (s\<lparr>np_committedGaps := sset_insert ?o (np_committedGaps s), np_log := l\<rparr>)))" if "?o \<le> np_lastOp s"
    by (rule follower_later_fits [OF fits False])
      (use core_known_gap(1) [OF core False R that] in \<open>auto simp: post_bind np_later_def intro!: postI\<close>)
  have follows: "fits_step c g i s (np_ProcessNextOperation (ne_at c i) empty_Request
      (Viewstamp 0 (np_lastOp s + 1) 0 (np_lastOp s + 1) 0) LOG_STATE_NOOP s)" if "np_lastOp s + 1 = ?o"
    using that R False core by (intro fits_PNO [OF mem fits]) (auto simp: no_core_def)
  have reply: "fits_step c g' i t (Inr (np_emit (NSend remote (NGapCommitReply
      (NOGapCommitReplyMessage (np_sessnum t) (np_view t) ?o (ne_u32 (ne_at c i))))) t))" if "no_fits c g' i t" for g' t
    using fits_view [OF that] by (intro fits_step_Inr fits_emit [OF that]) auto
  have "fits_step c g i s (bind_r (if ?o \<le> np_lastOp s
      then bind_r (SetStatus (ne_at c i) ?o LOG_STATE_NOOP (np_log s)) (\<lambda>(_, l).
        Inr (s\<lparr>np_committedGaps := sset_insert ?o (np_committedGaps s), np_log := l\<rparr>))
      else assert_r (nassert (ne_at c i)) (np_lastOp s + 1 = ?o)
        (np_ProcessNextOperation (ne_at c i) empty_Request
          (Viewstamp (np_view s) (np_lastOp s + 1) (np_sessnum s) (np_nextMsgnum s) 0) LOG_STATE_NOOP s))
      (\<lambda>t. Inr (np_emit (NSend remote (NGapCommitReply
        (NOGapCommitReplyMessage (np_sessnum t) (np_view t) ?o (ne_u32 (ne_at c i))))) t)))"
    using inside follows view mem
    by (intro fits_step_bind reply) (auto simp: fits_step_assert no_member_def)
  then show ?thesis
    using early m False fits_leader [OF mem fits]
    by (simp add: np_HandleGapCommit_def np_checked_fits [OF fits])
qed

lemma fits_HandleGapCommitReply:
  assumes mem: "no_member c i" and fits: "no_fits c g i s" and m: "no_msg_ok g B (NGapCommitReply m)"
  shows "fits_step c g i s (np_HandleGapCommitReply (ne_at c i) remote m s)"
proof -
  have settled: "no_fits c g i (s\<lparr>np_status := STATUS_NORMAL\<rparr>)" if "i = 0"
    using fits that core_status [of c g s STATUS_NORMAL] by (simp add: no_fits_def points_fit_def)
  have "fits_step c g i s (Inr (s\<lparr>np_status := STATUS_NORMAL, np_gapCommitQuorum := q, np_gapCommitTimeout := t\<rparr>))"
    if "i = 0" for q t
    using settled [OF that] by (intro fits_step_Inr) (auto simp: np_grows_def)
  moreover have "fits_step c g i s (Inr (s\<lparr>np_gapCommitQuorum := q\<rparr>))" for q
    using fits by (intro fits_step_Inr) auto
  moreover have "fits_step c g i s (Inr s)" by (rule fits_step_Inr [OF fits np_grows_refl])
  ultimately show ?thesis
    using m fits_leader [OF mem fits]
    by (cases "i = 0") (auto simp: np_HandleGapCommitReply_def np_checked_fits [OF fits] Let_def split: prod.split)
qed

section \<open>State transfer\<close>

lemma Dump_to_entries:
  assumes ok: "log_ok l" and top: "unat e \<le> log_top l"
  shows "post (Dump_to E b e l) (\<lambda>es. \<forall>x \<in> set es. \<exists>y. log_at l (vs_opnum (viewstamp y)) = Some y \<and> x = dump_entry y)"
proof -
  let ?i = "max b (start l)"
  let ?es = "take (unat e - unat ?i) (drop (unat ?i - unat (start l)) (entries l))"
  have "log_at l (vs_opnum (viewstamp y)) = Some y" if "y \<in> set ?es" for y
  proof -
    have "y \<in> set (entries l)" using that by (meson in_set_dropD in_set_takeD)
    then obtain j where "j < length (entries l)" "y = entries l ! j" by (metis in_set_conv_nth)
    then show ?thesis using log_ok_nth [OF ok] by (simp add: log_at_Some log_top_def)
  qed
  moreover have "dump_loop E ?i e l = Inr (map dump_entry ?es)"
    using top by (intro dump_loop_ok [OF ok]) simp_all
  ultimately show ?thesis by (auto simp: Dump_to_def post_assert)
qed

lemma item_of_entry:
  assumes fits: "no_fits c g i s" and at: "log_at (np_log s) (vs_opnum (viewstamp y)) = Some y"
  shows "item_ok g (dump_entry y)"
  using fits_entry [OF fits at] by (auto simp: item_ok_def dump_entry_def entry_ok_def)

lemma fits_HandleStateTransferRequest:
  assumes fits: "no_fits c g i s" and remote: "remote \<noteq> 0"
  shows "fits_step c g i s (np_HandleStateTransferRequest (ne_at c i) remote m s)"
proof -
  have same: "fits_step c g i s (Inr s)" by (rule fits_step_Inr [OF fits np_grows_refl])
  have "fits_step c g i s (bind_r (Dump_to (ne_at c i) (sr_begin m) (sr_end m) (np_log s)) (\<lambda>es.
        Inr (np_emit (NSend remote (NStateTransferReply (NOStateTransferReplyMessage
          (np_sessnum s) (np_view s) (sr_begin m) (sr_end m) es))) s)))"
    if "\<not> sr_end m > np_lastOp s + 1"
  proof -
    have core: "no_core c g i s" using fits by (simp add: no_fits_def)
    have "unat (np_lastOp s) < 2 ^ 63" using core log_fits_bound by (auto simp: no_core_def)
    then have "unat (np_lastOp s + 1) = Suc (unat (np_lastOp s))" by (intro unat_succ_bound) simp
    then have "unat (sr_end m) \<le> log_top (np_log s)"
      using that core by (simp add: no_core_def log_fits_def word_le_nat_alt not_less)
    from Dump_to_entries [OF fits_log_ok [OF fits] this]
    have items: "post (Dump_to (ne_at c i) (sr_begin m) (sr_end m) (np_log s)) (\<lambda>es. \<forall>x \<in> set es. item_ok g x)"
      by (rule post_mono) (metis item_of_entry [OF fits])
    show ?thesis
      unfolding fits_step_def
    proof (rule post_bindI [OF items])
      fix es assume "\<forall>x \<in> set es. item_ok g x"
      then have "fits_step c g i s (Inr (np_emit (NSend remote (NStateTransferReply (NOStateTransferReplyMessage
          (np_sessnum s) (np_view s) (sr_begin m) (sr_end m) es))) s))"
        using remote by (intro fits_step_Inr fits_emit [OF fits]) auto
      then show "post (Inr (np_emit (NSend remote (NStateTransferReply (NOStateTransferReplyMessage
          (np_sessnum s) (np_view s) (sr_begin m) (sr_end m) es))) s))
          (\<lambda>t. \<exists>g'. gext i g g' \<and> no_fits c g' i t \<and> np_grows s t)"
        by (simp add: fits_step_def)
    qed
  qed
  with same show ?thesis by (simp add: np_HandleStateTransferRequest_def)
qed

lemma follower_step:
  "fits_step c g i s r \<Longrightarrow> i \<noteq> 0 \<Longrightarrow> post r (\<lambda>t. no_fits c g i t \<and> np_grows s t)"
  unfolding fits_step_def by (erule post_mono) (auto simp: gext_def)

lemma fits_HandleStateTransferReply:
  assumes mem: "no_member c i" and fits: "no_fits c g i s" and i: "i \<noteq> 0"
    and m: "no_msg_ok g B (NStateTransferReply m)"
  shows "fits_step c g i s (np_HandleStateTransferReply (ne_at c i) remote m s)"
proof -
  have same: "fits_step c g i s (Inr s)" by (rule fits_step_Inr [OF fits np_grows_refl])
  have loop: "fits_step c g i s (fold_r (np_InstallEntry (ne_at c i)) (drop n (sy_entries m)) s)" for n
  proof -
    have "post (fold_r (np_InstallEntry (ne_at c i)) (drop n (sy_entries m)) s) (\<lambda>t. no_fits c g i t \<and> np_grows s t)"
    proof (rule post_fold)
      show "no_fits c g i s \<and> np_grows s s" using fits by simp
      fix e t assume e: "e \<in> set (drop n (sy_entries m))" and t: "no_fits c g i t \<and> np_grows s t"
      have item: "item_ok g e" using m e by (auto dest: in_set_dropD)
      have "np_status t = STATUS_NORMAL" using t i by (simp add: no_fits_def no_core_def)
      then have "fits_step c g i t (np_ProcessNextOperation (ne_at c i) (me_request e)
          (Viewstamp (me_view e) (me_opnum e) (me_sessnum e) (me_msgnum e) 0) (me_state e) t)"
        using t item by (intro fits_PNO [OF mem]) (auto simp: item_ok_def)
      then show "post (np_InstallEntry (ne_at c i) e t) (\<lambda>u. no_fits c g i u \<and> np_grows s u)"
        unfolding np_InstallEntry_def post_assert
        by (intro impI post_mono [OF follower_step [OF _ i]]) (use t np_grows_trans in blast)+
    qed
    then show ?thesis unfolding fits_step_def by (rule post_mono) (use gext_refl in blast)
  qed
  show ?thesis
    using same loop by (simp add: np_HandleStateTransferReply_def Let_def fits_step_assert)
qed

section \<open>Synchronisation\<close>

lemma fits_SendStateTransferRequest:
  assumes fits: "no_fits c g i s" and i: "i \<noteq> 0"
  shows "no_fits c g i (np_SendStateTransferRequest s)" and "np_grows s (np_SendStateTransferRequest s)"
proof -
  have timer: "no_fits c g i (t\<lparr>np_stateTransferTimeout := to\<rparr>)" if "no_fits c g i t" for t to
    using that i no_core_transfer_timer [of c g i t to] by (simp add: no_fits_def points_fit_def)
  show "no_fits c g i (np_SendStateTransferRequest s)"
    unfolding np_SendStateTransferRequest_def Let_def using i
    by (intro timer fits_emit [OF fits]) simp_all
  show "np_grows s (np_SendStateTransferRequest s)"
    by (simp add: np_SendStateTransferRequest_def Let_def np_grows_def np_emit_def)
qed

lemma fits_transfer_wanted:
  assumes fits: "no_fits c g i s" and p: "known (gR g) (set (np_committedGaps s)) p"
  shows "no_fits c g i (s\<lparr>np_stateTransferOpBegin := b, np_stateTransferOpEnd := p + 1,
    np_stateTransferReplicaIdx := k, np_stateTransferCallback := SyncPrepareCallback p\<rparr>)"
proof -
  have "leader_fits c g (s\<lparr>np_stateTransferOpBegin := b, np_stateTransferOpEnd := p + 1,
      np_stateTransferReplicaIdx := k, np_stateTransferCallback := SyncPrepareCallback p\<rparr>) = leader_fits c g s"
    by (simp add: leader_fits_def)
  then show ?thesis
    using fits p by (simp add: no_fits_def points_fit_def no_core_def executed_fits_def committed_fits_def callback_ok_def)
qed

lemma fits_HandleSyncPrepare:
  assumes mem: "no_member c i" and fits: "no_fits c g i s" and m: "no_msg_ok g B (NSyncPrepare m)"
  shows "fits_step c g i s (np_HandleSyncPrepare (ne_at c i) remote m s)"
proof -
  let ?p = "sp_lastop m" and ?s = "s\<lparr>np_leaderSyncHeardTimeout := Timeout_Reset (np_leaderSyncHeardTimeout s)\<rparr>"
  let ?t = "?s\<lparr>np_receivedSyncPreparePoints := sset_insert ?p (np_receivedSyncPreparePoints ?s)\<rparr>"
  let ?rest = "\<lambda>s1. if np_lastOp s1 < ?p then
      let s2 = s1\<lparr>np_stateTransferOpBegin := np_lastOp s1 + 1, np_stateTransferOpEnd := ?p + 1,
        np_stateTransferReplicaIdx := word_of_int (GetLeaderIndex (ne_config (ne_at c i)) (sp_view m)),
        np_stateTransferCallback := SyncPrepareCallback ?p\<rparr>
      in Inr (if ?p - np_lastOp s2 \<le> MAX_SYNC_TRANSFER_OPS then np_SendStateTransferRequest s2 else s2)
    else np_ProcessSyncPrepare (ne_at c i) ?p s1"
  have sync: "known (gR g) (set (sp_committedgaps m)) ?p" "\<forall>x \<in> set (sp_committedgaps m). gR g (unat x) = Some None"
    using m by (auto simp: sync_ok_def)
  have "fits_step c g i s (bind_r (np_InstallCommittedGaps (ne_at c i) (sp_committedgaps m) ?t) ?rest)" if i: "i \<noteq> 0"
    unfolding fits_step_def
  proof (rule post_bindI [OF core_InstallCommittedGaps [OF mem i _ sync(2)]])
    show "no_core c g i ?t" using fits by (simp add: no_fits_def)
    fix u assume u: "no_core c g i u \<and> np_later ?t u \<and> set (sp_committedgaps m) \<subseteq> set (np_committedGaps u)"
    have p: "known (gR g) (set (np_committedGaps u)) ?p"
      using known_grow [OF grow_refl _ sync(1)] u by blast
    have "points_fit g u"
      unfolding points_fit_def
    proof
      fix q assume "q \<in> set (np_receivedSyncPreparePoints u)"
      then have "q = ?p \<or> q \<in> set (np_receivedSyncPreparePoints s)" using u by (auto simp: np_later_def)
      moreover have "known (gR g) (set (np_committedGaps u)) q" if "q \<in> set (np_receivedSyncPreparePoints s)"
      proof (rule known_grow [OF grow_refl])
        show "known (gR g) (set (np_committedGaps s)) q" using fits that by (simp add: no_fits_def points_fit_def)
      qed (use u in \<open>simp add: np_later_def\<close>)
      ultimately show "known (gR g) (set (np_committedGaps u)) q" using p by blast
    qed
    moreover have "np_status u = STATUS_NORMAL" using u i by (simp add: no_core_def)
    ultimately have fu: "no_fits c g i u" using u by (simp add: no_fits_def)
    have grows: "np_grows s u" using u by (simp add: np_later_def np_grows_def)
    have "fits_step c g i u (Inr (if b then np_SendStateTransferRequest w else w))"
      if "w = u\<lparr>np_stateTransferOpBegin := np_lastOp u + 1, np_stateTransferOpEnd := ?p + 1,
        np_stateTransferReplicaIdx := k, np_stateTransferCallback := SyncPrepareCallback ?p\<rparr>" for b k w
    proof -
      have w: "no_fits c g i w" "np_grows u w"
        using that fits_transfer_wanted [OF fu p] by (simp_all add: np_grows_def)
      show ?thesis
        using w fits_SendStateTransferRequest [OF w(1) i] np_grows_trans [OF w(2)] by (auto intro!: fits_step_Inr)
    qed
    moreover have "fits_step c g i u (np_ProcessSyncPrepare (ne_at c i) ?p u)" if "\<not> np_lastOp u < ?p"
      using that u p by (intro follower_later_fits [OF fu i] core_ProcessSyncPrepare [OF mem]) auto
    ultimately have "fits_step c g i u (?rest u)" by (simp add: Let_def)
    from fits_step_trans [OF this gext_refl grows]
    show "post (?rest u) (\<lambda>t. \<exists>g'. gext i g g' \<and> no_fits c g' i t \<and> np_grows s t)" by (simp add: fits_step_def)
  qed
  moreover have "fits_step c g i s (Inr ?s)" using fits by (intro fits_step_Inr) auto
  moreover have "np_AmLeader (ne_at c i) ?s = (i = 0)" using fits_leader [OF mem fits] by (simp add: np_AmLeader_def)
  ultimately show ?thesis
    using m mem
    by (simp add: np_HandleSyncPrepare_def np_checked_fits [OF fits] fits_step_assert no_member_def Let_def)
qed

lemma leader_CommitUptoOp:
  assumes mem: "no_member c 0" and core: "no_core c g 0 s"
    and p: "np_lastCommittedOp s < p" "p \<le> np_lastOp s" "QuorumSize (ne_config c) - 1 \<le> int (card {j. gA g j p})"
  defines "h \<equiv> g\<lparr>gC := p\<rparr>"
  shows "gext 0 g h" and "post (np_CommitUptoOp (ne_at c 0) p s) (\<lambda>t. no_core c h 0 t \<and> np_later s t)"
proof -
  let ?G = "set (np_committedGaps s)" and ?s = "s\<lparr>np_lastCommittedOp := p\<rparr>"
  let ?e = "NSendToAll (NSyncCommit (NOSyncCommitMessage 0 0 p))"
  have L: "leader_fits c g s" and ex: "executed_fits g ?G s" and co: "committed_fits g 0 ?G s"
    and view: "np_view s = 0" "np_sessnum s = 0"
    using core by (simp_all add: no_core_def)
  have C: "gC g < p" using L p(1) by (simp add: leader_fits_def)
  then have grow: "grow g h" by (simp add: grow_def h_def)
  then show "gext 0 g h" by (simp add: gext_def h_def)
  have kn: "known (gR h) ?G p" using leader_known [OF core p(2)] by (simp add: h_def)
  have "executed_fits h ?G ?s" using ex by (simp add: executed_fits_def h_def)
  moreover have "committed_fits h 0 ?G ?s"
    using co C p(2) kn by (force simp: committed_fits_def h_def)
  moreover have "leader_fits c h ?s"
    using L p(3) unfolding leader_fits_def by (elim conjE, intro conjI) (simp_all add: h_def votes_fit_def)
  moreover have "no_eff_ok c h 0 (np_lastOp s) ?G e" if "e \<in> set (np_sent s)" for e
    using core that by (intro no_eff_ok_grow [OF grow order_refl order_refl]) (simp add: no_core_def)
  moreover have "no_wf c h" "log_fits h (np_log s) (np_lastOp s) ?G"
    using core by (simp_all add: no_core_def no_wf_def log_fits_def h_def)
  ultimately have "no_core c h 0 ?s"
    using core by (simp add: no_core_def h_def)
  then have "no_core c h 0 (np_emit ?e ?s)" by (rule no_core_emit) (simp_all add: h_def)
  then have run: "post (np_ExecuteUptoOp (ne_at c 0) p (np_emit ?e ?s)) (\<lambda>t. no_core c h 0 t \<and> np_executes (np_emit ?e ?s) t)"
    using kn by (intro core_ExecuteUptoOp [OF mem]) (simp_all add: np_emit_def)
  have "np_later s t" if "np_executes (np_emit ?e ?s) t" for t
    using np_later_executes [OF that] by (simp add: np_later_def np_emit_def)
  with run have "post (np_ExecuteUptoOp (ne_at c 0) p (np_emit ?e ?s)) (\<lambda>t. no_core c h 0 t \<and> np_later s t)"
    by (auto elim!: post_mono)
  moreover have "np_AmLeader (ne_at c 0) ?s" using np_AmLeader_at [OF mem] view by simp
  moreover have "\<not> p \<le> np_lastCommittedOp s" using p(1) by simp
  ultimately show "post (np_CommitUptoOp (ne_at c 0) p s) (\<lambda>t. no_core c h 0 t \<and> np_later s t)"
    using p view mem by (simp add: np_CommitUptoOp_def np_SendSyncCommit_def Let_def post_if)
qed

lemma votes_quorum:
  assumes wf: "no_wf c g" and q: "votes_fit c g q" and vote: "gA g j p"
  shows "votes_fit c g (QS_Add p (int j) m q)"
    and "QS_AddAndCheckForQuorum p (int j) m q = (ms, q') \<Longrightarrow> q' = QS_Add p (int j) m q \<and>
      (ms \<noteq> None \<longrightarrow> QuorumSize (ne_config c) - 1 \<le> int (card {k. gA g k p}))"
proof -
  let ?q = "QS_Add p (int j) m q"
  show fit: "votes_fit c g ?q"
    using q vote by (auto simp: votes_fit_def QS_ok_Add qs.votes_add split: if_splits)
  have sub: "dom (QS_votes ?q p) \<subseteq> int ` {k. gA g k p}"
    using fit by (force simp: votes_fit_def)
  have "{k. gA g k p} \<subseteq> {..<nat (num_replicas (ne_config c))}" using wf by (auto simp: no_wf_def zless_nat_conj)
  then have fin: "finite {k. gA g k p}" by (rule finite_subset) simp
  have "QS_tally ?q p = card (dom (QS_votes ?q p))" using fit by (intro qs.tally_card) (simp add: votes_fit_def)
  also have "\<dots> \<le> card (int ` {k. gA g k p})" using sub fin by (intro card_mono) auto
  also have "\<dots> \<le> card {k. gA g k p}" using fin by (rule card_image_le)
  finally have le: "length (smap_put (int j) m (QS_at q p)) \<le> card {k. gA g k p}" by (simp add: QS_tally_def)
  show "QS_AddAndCheckForQuorum p (int j) m q = (ms, q') \<Longrightarrow> q' = QS_Add p (int j) m q \<and>
      (ms \<noteq> None \<longrightarrow> QuorumSize (ne_config c) - 1 \<le> int (card {k. gA g k p}))"
    using le q by (auto simp: QS_AddAndCheckForQuorum_eq Let_def votes_fit_def split: if_splits)
qed

lemma fits_HandleSyncPrepareReply:
  assumes mem: "no_member c i" and fits: "no_fits c g i s" and m: "no_msg_ok g (votes_of g) (NSyncPrepareReply m)"
  shows "fits_step c g i s (np_HandleSyncPrepareReply (ne_at c i) remote m s)"
proof (cases "i = 0")
  case False
  then show ?thesis
    using mem m fits_leader [OF mem fits]
    by (simp add: np_HandleSyncPrepareReply_def np_checked_fits [OF fits] fits_step_assert no_member_def)
next
  case True
  let ?p = "spp_syncpoint m"
  have core: "no_core c g 0 s" using fits True by (simp add: no_fits_def)
  then have wf: "no_wf c g" and L: "leader_fits c g s" by (simp_all add: no_core_def)
  obtain j where j: "int_of_u32 (spp_replicaidx m) = int j" "gA g j ?p" using m by auto
  have q: "votes_fit c g (np_syncPrepareQuorum s)" using L by (simp add: leader_fits_def)
  obtain ms q' where msq: "QS_AddAndCheckForQuorum ?p (int j) m (np_syncPrepareQuorum s) = (ms, q')" by fastforce
  note vq = votes_quorum(1) [OF wf q j(2), of m] votes_quorum(2) [OF wf q j(2) msq]
  let ?s = "s\<lparr>np_syncPrepareQuorum := q'\<rparr>"
  have "leader_fits c g ?s"
    using L vq unfolding leader_fits_def by (elim conjE, intro conjI) simp_all
  then have s': "no_fits c g 0 ?s"
    using fits True by (simp add: no_fits_def points_fit_def no_core_def executed_fits_def committed_fits_def)
  then have quiet: "fits_step c g 0 s (Inr ?s)" by (intro fits_step_Inr) (auto simp: np_grows_def)
  have commit: "fits_step c g 0 s (np_CommitUptoOp (ne_at c 0) ?p ?s)"
    if "ms \<noteq> None" "\<not> ?p \<le> np_lastCommittedOp s" "?p = np_leaderLastSyncPreparePoint s"
  proof -
    have p: "np_lastCommittedOp ?s < ?p" "?p \<le> np_lastOp ?s" "QuorumSize (ne_config c) - 1 \<le> int (card {j. gA g j ?p})"
      using that L vq by (auto simp: leader_fits_def)
    have core': "no_core c g 0 ?s" using s' by (simp add: no_fits_def)
    note run = leader_CommitUptoOp [OF mem [unfolded True] core' p]
    have "post (np_CommitUptoOp (ne_at c 0) ?p ?s) (\<lambda>t. (no_core c (g\<lparr>gC := ?p\<rparr>) 0 t \<and> np_later ?s t) \<and> np_keeps ?s t)"
      unfolding post_conj [of _ "\<lambda>t. _ t \<and> _ t"] using run(2) np_keeps_CommitUptoOp [OF np_keeps_refl] by blast
    then show ?thesis
      unfolding fits_step_def
    proof (rule post_mono, elim conjE)
      fix t assume t: "no_core c (g\<lparr>gC := ?p\<rparr>) 0 t" "np_later ?s t" and keeps: "np_keeps ?s t"
      have "np_status t = STATUS_GAP_COMMIT \<longrightarrow> np_lastOp t \<in> set (np_committedGaps t)"
        using keeps t(2) s' by (auto simp: np_keeps_def np_later_def no_fits_def)
      then have "no_fits c (g\<lparr>gC := ?p\<rparr>) 0 t"
        by (intro later_fits [OF s' run(1) t])
      moreover have "np_grows s t" using np_later_grows [OF t(2)] by (simp add: np_grows_def)
      ultimately show "\<exists>g'. gext 0 g g' \<and> no_fits c g' 0 t \<and> np_grows s t" using run(1) by blast
    qed
  qed
  show ?thesis
    using m True msq j(1) quiet commit fits_leader [OF mem fits] fits_step_Inr [OF fits np_grows_refl]
    by (auto simp: np_HandleSyncPrepareReply_def np_checked_fits [OF fits] Let_def)
qed

lemma fits_HandleSyncCommit:
  assumes mem: "no_member c i" and fits: "no_fits c g i s" and m: "no_msg_ok g B (NSyncCommit m)"
  shows "fits_step c g i s (np_HandleSyncCommit (ne_at c i) remote m s)"
proof (cases "i = 0")
  case True
  then show ?thesis
    using mem m fits_leader [OF mem fits]
    by (simp add: np_HandleSyncCommit_def np_checked_fits [OF fits] fits_step_assert no_member_def)
next
  case False
  let ?p = "sc_syncpoint m"
  let ?s = "s\<lparr>np_receivedSyncCommitPoints := sset_insert ?p (np_receivedSyncCommitPoints s)\<rparr>"
  have view: "np_view s = 0" "np_sessnum s = 0" using fits_view [OF fits] by auto
  have s': "no_fits c g i ?s"
    using fits m False by (auto simp: no_fits_def points_fit_def no_core_def executed_fits_def committed_fits_def)
  have commit: "fits_step c g i s (bind_r (np_CommitUptoOp (ne_at c i) ?p ?s) (\<lambda>s1.
      Inr (s1\<lparr>np_receivedSyncPreparePoints := sset_erase ?p (np_receivedSyncPreparePoints s1),
        np_receivedSyncCommitPoints := sset_erase ?p (np_receivedSyncCommitPoints s1)\<rparr>)))"
    if "?p \<in> set (np_receivedSyncPreparePoints s)"
  proof -
    have "known (gR g) (set (np_committedGaps ?s)) ?p" using fits that by (simp add: no_fits_def points_fit_def)
    then have "post (np_CommitUptoOp (ne_at c i) ?p ?s) (\<lambda>t. no_core c g i t \<and> np_later ?s t)"
      using s' m by (intro core_CommitUptoOp [OF mem _ False]) (simp_all add: no_fits_def)
    then have "post (bind_r (np_CommitUptoOp (ne_at c i) ?p ?s) (\<lambda>s1.
        Inr (s1\<lparr>np_receivedSyncPreparePoints := sset_erase ?p (np_receivedSyncPreparePoints s1),
          np_receivedSyncCommitPoints := sset_erase ?p (np_receivedSyncCommitPoints s1)\<rparr>)))
        (\<lambda>t. no_core c g i t \<and> np_later ?s t)"
      by (rule post_bindI) (auto simp: core_erase_points np_later_erase_points)
    from follower_later_fits [OF s' False this]
    show ?thesis by (rule fits_step_trans [OF _ gext_refl]) (simp add: np_grows_def)
  qed
  have "fits_step c g i s (Inr ?s)" using s' by (intro fits_step_Inr) (simp_all add: np_grows_def)
  moreover have "fits_step c g i s (Inr (np_to_leader (ne_at c i) (NSyncPrepareRequest (NOSyncPrepareRequestMessage 0 0)) ?s))"
    unfolding np_to_leader_def by (intro fits_step_Inr fits_emit [OF s']) (simp_all add: np_grows_def np_emit_def)
  moreover have "fits_step c g i s (Inr s)" by (rule fits_step_Inr [OF fits np_grows_refl])
  ultimately show ?thesis
    using m view commit fits_leader [OF mem fits] False
    by (simp add: np_HandleSyncCommit_def np_checked_fits [OF fits] fits_step_assert Let_def)
qed

lemma fits_leader_fits: "no_fits c g 0 s \<Longrightarrow> leader_fits c g s"
  by (simp add: no_fits_def no_core_def)

lemma fits_HandleSyncPrepareRequest:
  assumes mem: "no_member c i" and fits: "no_fits c g i s" and m: "no_msg_ok g B (NSyncPrepareRequest m)"
  shows "fits_step c g i s (np_HandleSyncPrepareRequest (ne_at c i) remote m s)"
proof (cases "i = 0")
  case False
  then show ?thesis
    using mem m fits_leader [OF mem fits]
    by (simp add: np_HandleSyncPrepareRequest_def np_checked_fits [OF fits] fits_step_assert no_member_def)
next
  case True
  let ?p = "np_leaderLastSyncPreparePoint s"
  let ?s = "np_emit (NSend remote (NSyncPrepare (NOSyncPrepareMessage 0 0 ?p (np_leaderLastSyncCommittedGaps s)))) s"
  have L: "sync_ok (gR g) ?p (set (np_leaderLastSyncCommittedGaps s))" "gC g = np_lastCommittedOp s"
    using fits_leader_fits [of c g s] fits True unfolding leader_fits_def by blast+
  have s': "no_fits c g i ?s" using L by (intro fits_emit [OF fits]) simp_all
  then have "fits_step c g i s (Inr ?s)" by (intro fits_step_Inr) simp_all
  moreover have "fits_step c g i s (Inr (np_emit (NSend remote (NSyncCommit (NOSyncCommitMessage 0 0 ?p))) ?s))"
    if "?p \<le> np_lastCommittedOp s"
    using that L by (intro fits_step_Inr fits_emit [OF s']) simp_all
  ultimately show ?thesis
    using m True fits_view [OF fits] fits_leader [OF mem fits]
    by (simp add: np_HandleSyncPrepareRequest_def np_checked_fits [OF fits] Let_def) (simp add: np_emit_def)
qed

lemma fits_SendSyncPrepare:
  assumes mem: "no_member c i" and fits: "no_fits c g i s"
  shows "fits_step c g i s (np_SendSyncPrepare (ne_at c i) s)"
proof (cases "i = 0")
  case True
  let ?s = "s\<lparr>np_leaderLastSyncPreparePoint := np_lastOp s, np_leaderLastSyncCommittedGaps := np_committedGaps s\<rparr>"
  have core: "no_core c g 0 s" using fits True by (simp add: no_fits_def)
  then have L: "leader_fits c g s" by (simp add: no_core_def)
  have sync: "sync_ok (gR g) (np_lastOp s) (set (np_committedGaps s))"
    using leader_known [OF core order_refl] core by (auto simp: sync_ok_def no_core_def log_fits_def)
  then have "leader_fits c g ?s"
    using L unfolding leader_fits_def by (elim conjE, intro conjI) simp_all
  then have s': "no_fits c g 0 ?s"
    using fits True by (simp add: no_fits_def points_fit_def no_core_def executed_fits_def committed_fits_def)
  have "fits_step c g 0 s (Inr (np_emit (NSendToAll (NSyncPrepare (NOSyncPrepareMessage 0 0 (np_lastOp s)
      (np_committedGaps s)))) ?s))"
    using sync by (intro fits_step_Inr fits_emit [OF s']) (simp_all add: np_grows_def np_emit_def)
  then show ?thesis
    using True fits_view [OF fits] fits_leader [OF mem fits] by (simp add: np_SendSyncPrepare_def Let_def)
qed (use fits_leader [OF mem fits] mem in \<open>simp add: np_SendSyncPrepare_def fits_step_assert no_member_def\<close>)

section \<open>Events\<close>

lemma fits_dispatch:
  assumes mem: "no_member c i" and fits: "no_fits c g i s"
    and m: "no_msg_ok g (votes_of g) m" and routed: "routed remote (int i) m"
  shows "fits_step c g i s (np_dispatch (ne_at c i) remote m s)"
proof (cases m)
  case (NRequest x)
  then show ?thesis using fits_HandleClientRequest [OF mem fits] m by simp
next
  case (NUnloggedRequest x)
  then show ?thesis using fits_HandleUnloggedRequest [OF fits] by simp
next
  case (NGapRequest x)
  then show ?thesis using fits_HandleGapRequest [OF fits] m by simp
next
  case (NGapReply x)
  then show ?thesis using fits_HandleGapReply [OF mem fits] m by simp
next
  case (NStateTransferRequest x)
  then show ?thesis using fits_HandleStateTransferRequest [OF fits] routed by simp
next
  case (NStateTransferReply x)
  then show ?thesis using fits_HandleStateTransferReply [OF mem fits] routed m by simp
next
  case (NGapCommit x)
  then show ?thesis using fits_HandleGapCommit [OF mem fits] m by simp
next
  case (NGapCommitReply x)
  then show ?thesis using fits_HandleGapCommitReply [OF mem fits] m by simp
next
  case (NSyncPrepareRequest x)
  then show ?thesis using fits_HandleSyncPrepareRequest [OF mem fits] m by simp
next
  case (NSyncPrepare x)
  then show ?thesis using fits_HandleSyncPrepare [OF mem fits] m by simp
next
  case (NSyncPrepareReply x)
  then show ?thesis using fits_HandleSyncPrepareReply [OF mem fits] m by simp
next
  case (NSyncCommit x)
  then show ?thesis using fits_HandleSyncCommit [OF mem fits] m by simp
qed (use m in simp_all)

lemma fits_timer:
  assumes mem: "no_member c i" and fits: "no_fits c g i s"
    and armed: "np_timer_armed k s" and k: "k \<noteq> LeaderSyncHeardTimer"
  shows "fits_step c g i s (np_timer_callback (ne_at c i) k s)"
proof (cases k)
  case GapRequestTimer
  then show ?thesis
    using fits_StartGapAgreement [OF mem fits] fits_SendGapRequest [OF fits, of "ne_at c i"] by (simp add: fits_step_Inr)
next
  case GapCommitTimer
  then show ?thesis using fits_SendGapCommit [OF mem fits] by simp
next
  case NStateTransferTimer
  have "i \<noteq> 0"
  proof
    assume "i = 0"
    then have "leader_fits c g s" using fits fits_leader_fits by simp
    with armed NStateTransferTimer show False by (simp add: leader_fits_def)
  qed
  then show ?thesis using NStateTransferTimer fits_SendStateTransferRequest [OF fits] by (simp add: fits_step_Inr)
next
  case SyncTimer
  then show ?thesis using fits_SendSyncPrepare [OF mem fits] by simp
qed (use armed fits k in \<open>auto simp: no_fits_def no_core_def\<close>)

lemma fits_event:
  assumes mem: "no_member c i" and fits: "no_fits c g i s" and ev: "stays_in_view ev"
    and m: "\<And>src m. ev = NDeliver src m \<Longrightarrow> no_msg_ok g (votes_of g) m \<and> routed src (int i) m"
  shows "fits_step c g i s (no_event_step (ne_at c i) ev s)"
proof (cases ev)
  case (NDeliver src x)
  have "fits_step c g i s (bind_r (np_dispatch (ne_at c i) src x s) (np_ProcessPendingRequests (ne_at c i)))"
    using m [OF NDeliver] by (intro fits_step_bind fits_dispatch [OF mem fits] fits_ProcessPendingRequests [OF mem]) auto
  then show ?thesis using NDeliver by (simp add: no_event_step_def np_ReceiveMessage_def)
next
  case (NFire k)
  then show ?thesis
    using fits_timer [OF mem fits, of k] fits_step_Inr [OF fits np_grows_refl] ev
    by (simp add: no_event_step_def stays_in_view_def)
qed

end
