(* ===== verification/NOAgreement.thy ===== *)
theory NOAgreement
  imports NOHandled
begin

text \<open>
  The whole group in the normal case: as long as no replica suspects the leader, every reachable
  state keeps the promises of \<open>NOPromises\<close>, and with them replicas execute the same operations in
  the same order, what is committed is on a quorum, and what is answered stays.
\<close>

section \<open>The group's invariant\<close>

text \<open>The facts of \<open>NOPromises\<close> that a state of the group establishes.\<close>

definition ghost :: "'app no_system \<Rightarrow> no_ghost" where
  "ghost S =
     (let rs = ns_replicas S; R = slot (np_log (rs ! 0))
      in \<lparr>gR = R, gS = ns_stamped S, gC = np_lastCommittedOp (rs ! 0),
          gA = (\<lambda>j p. 0 < j \<and> j < length rs \<and> p \<le> np_lastOp (rs ! j) \<and>
                 known R (set (np_committedGaps (rs ! j))) p)\<rparr>)"

definition no_inv :: "'app no_env \<Rightarrow> 'app no_system \<Rightarrow> bool" where
  "no_inv c S \<longleftrightarrow> int (length (ns_replicas S)) = num_replicas (ne_config c) \<and>
     (\<forall>i < length (ns_replicas S). no_fits c (ghost S) i (ns_replicas S ! i))"

lemma ghost_sel:
  "gR (ghost S) = slot (np_log (ns_replicas S ! 0))" "gS (ghost S) = ns_stamped S"
  "gC (ghost S) = np_lastCommittedOp (ns_replicas S ! 0)"
  "gA (ghost S) j p \<longleftrightarrow> 0 < j \<and> j < length (ns_replicas S) \<and> p \<le> np_lastOp (ns_replicas S ! j) \<and>
     known (slot (np_log (ns_replicas S ! 0))) (set (np_committedGaps (ns_replicas S ! j))) p"
  by (simp_all add: ghost_def Let_def)

text \<open>The promises last when the log of the leader, the requests and the synchronisation points grow.\<close>

lemma log_fits_grow: "log_fits g l lo G \<Longrightarrow> grow g g' \<Longrightarrow> log_fits g' l lo G"
  by (auto simp: log_fits_def entry_ok_def intro: grow_req grow_slot)

lemma votes_fit_grow: "votes_fit c g q \<Longrightarrow> grow g g' \<Longrightarrow> votes_fit c g' q"
  unfolding votes_fit_def grow_def by blast

lemma leader_fits_grow:
  assumes "leader_fits c g s" and grow: "grow g g'" and wf: "no_wf c g'" and same: "gR g' = gR g" "gC g' = gC g"
  shows "leader_fits c g' s"
proof -
  let ?A = "\<lambda>g. {j. gA g j (np_lastCommittedOp s)}"
  have "?A g' \<subseteq> {..<nat (num_replicas (ne_config c))}" using wf by (auto simp: no_wf_def zless_nat_conj)
  then have "finite (?A g')" by (rule finite_subset) simp
  then have "card (?A g) \<le> card (?A g')" using grow by (intro card_mono) (auto simp: grow_def)
  then show ?thesis
    using assms(1) same votes_fit_grow [OF _ grow] unfolding leader_fits_def by auto
qed

lemma no_fits_grow:
  assumes fits: "no_fits c g i s" and grow: "grow g g'" and wf: "no_wf c g'"
    and same: "i = 0 \<longrightarrow> gR g' = gR g \<and> gC g' = gC g"
  shows "no_fits c g' i s"
proof -
  let ?G = "set (np_committedGaps s)"
  have core: "no_core c g i s" using fits by (simp add: no_fits_def)
  have parts: "log_fits g (np_log s) (np_lastOp s) ?G" "executed_fits g ?G s" "committed_fits g i ?G s"
    using core by (simp_all add: no_core_def)
  have "no_eff_ok c g' i (np_lastOp s) ?G e" if "e \<in> set (np_sent s)" for e
    using core that by (intro no_eff_ok_grow [OF grow order_refl order_refl]) (simp add: no_core_def)
  moreover have "leader_fits c g' s" if "i = 0"
    using that core same leader_fits_grow [OF _ grow wf] by (simp add: no_core_def)
  moreover have "rq_sessnum m = 0 \<and> is_req (gS g') (unat (rq_msgnum m)) (rq_req m)" if "m \<in> set (np_pendingRequests s)" for m
    using that core grow_req [OF grow] by (simp add: no_core_def)
  moreover have "executed_fits g' ?G s" by (rule executed_fits_grow [OF parts(2) grow]) simp_all
  moreover have "committed_fits g' i ?G s" by (rule committed_fits_grow [OF parts(3) grow]) simp_all
  ultimately have "no_core c g' i s"
    using core wf log_fits_grow [OF parts(1) grow] by (simp add: no_core_def)
  moreover have "points_fit g' s" using fits by (simp add: no_fits_def points_fit_later [OF _ grow np_later_refl])
  ultimately show ?thesis using fits by (simp add: no_fits_def)
qed

section \<open>A step of the group\<close>

lemma routed_all: "routed src 0 m \<Longrightarrow> routed src dst m"
  by (cases m) simp_all

lemma no_delivered_ok:
  assumes inv: "no_inv c S" and en: "no_enabled S i (NDeliver src m)"
  shows "no_msg_ok (ghost S) (votes_of (ghost S)) m \<and> routed src (int i) m"
  using en unfolding no_enabled.simps
proof (elim disjE conjE bexE)
  assume "no_from_client (ns_stamped S) m"
  then show ?thesis by (cases m) (auto simp: ghost_sel)
next
  fix e assume src: "src < length (ns_replicas S)" and e: "e \<in> set (np_sent (ns_replicas S ! src))" and m: "no_carries src i e m"
  let ?s = "ns_replicas S ! src"
  let ?B = "reached (gR (ghost S)) src (np_lastOp ?s) (set (np_committedGaps ?s))"
  have ok: "no_eff_ok c (ghost S) src (np_lastOp ?s) (set (np_committedGaps ?s)) e"
    using inv src e by (simp add: no_inv_def no_fits_def no_core_def)
  have B: "votes_of (ghost S) r p" if "?B r p" for r p
    using that src by (auto simp: reached_def ghost_sel)
  have sent: "no_msg_ok (ghost S) ?B m" and r: "routed src (int i) m"
    using ok m routed_all [of src m "int i"] by (cases e; simp)+
  have "no_msg_ok (ghost S) (votes_of (ghost S)) m"
    by (rule no_msg_ok_grow [OF grow_refl B sent])
  with r show ?thesis by blast
qed

lemma no_inv_member: "no_inv c S \<Longrightarrow> \<not> nassert c \<Longrightarrow> num_replicas (ne_config c) < 2 ^ 31 \<Longrightarrow>
  i < length (ns_replicas S) \<Longrightarrow> no_member c i"
  by (simp add: no_inv_def no_member_def)

lemma no_inv_event:
  assumes inv: "no_inv c S" and chk: "\<not> nassert c" and n: "num_replicas (ne_config c) < 2 ^ 31"
    and i: "i < length (ns_replicas S)" and ev: "stays_in_view ev" "no_enabled S i ev"
    and step: "no_event_step (ne_at c i) ev (ns_replicas S ! i) = Inr t"
  defines "S' \<equiv> S\<lparr>ns_replicas := (ns_replicas S)[i := t]\<rparr>"
  shows "no_inv c S'" and "grow (ghost S) (ghost S')"
    and "k < length (ns_replicas S) \<Longrightarrow> np_lastOp (ns_replicas S ! k) \<le> np_lastOp (ns_replicas S' ! k)"
proof -
  let ?S = "S\<lparr>ns_replicas := (ns_replicas S)[i := t]\<rparr>"
  let ?g = "ghost S" and ?h = "ghost ?S" and ?s = "ns_replicas S ! i"
  have fits: "no_fits c ?g k (ns_replicas S ! k)" if "k < length (ns_replicas S)" for k
    using inv that by (simp add: no_inv_def)
  have "no_msg_ok ?g (votes_of ?g) m \<and> routed src (int i) m" if "ev = NDeliver src m" for src m
    using no_delivered_ok [OF inv] ev(2) that by simp
  from fits_event [OF no_inv_member [OF inv chk n i] fits [OF i] ev(1) this]
  obtain g1 where g1: "gext i ?g g1" "no_fits c g1 i t" "np_grows ?s t"
    using step by (auto simp: fits_step_def)
  have at: "ns_replicas ?S ! k = (if k = i then t else ns_replicas S ! k)" if "k < length (ns_replicas S)" for k
    using that i by simp
  have zero: "0 < length (ns_replicas S)" using i by linarith
  have R: "gR ?h = gR g1" and C: "gC ?h = gC g1"
  proof -
    have "gR ?h = gR g1 \<and> gC ?h = gC g1"
    proof (cases "i = 0")
      case True
      then have "leader_fits c g1 t" using g1(2) fits_leader_fits by simp
      with True at [OF zero] show ?thesis by (simp add: leader_fits_def ghost_sel)
    next
      case False
      with g1(1) at [OF zero] show ?thesis by (simp add: gext_def ghost_sel)
    qed
    then show "gR ?h = gR g1" and "gC ?h = gC g1" by auto
  qed
  have grow1: "grow ?g g1" using g1(1) by (rule gext_grow)
  have "gA ?h j p" if "gA ?g j p" for j p
  proof -
    have j: "0 < j" "j < length (ns_replicas S)" "p \<le> np_lastOp (ns_replicas S ! j)"
        "known (gR ?g) (set (np_committedGaps (ns_replicas S ! j))) p"
      using that by (simp_all add: ghost_sel)
    have "np_grows (ns_replicas S ! j) (ns_replicas ?S ! j)" using at [OF j(2)] g1(3) by simp
    then have "p \<le> np_lastOp (ns_replicas ?S ! j)"
        "known (gR g1) (set (np_committedGaps (ns_replicas ?S ! j))) p"
      using j(3) known_grow [OF grow1 _ j(4)] by (auto simp: np_grows_def)
    with j(1,2) R show ?thesis by (simp add: ghost_sel)
  qed
  then have grow: "grow g1 ?h"
    using R C g1(1) by (auto simp: grow_def gext_def ghost_sel(2))
  have "no_wf c g1" using g1(2) by (simp add: no_fits_def no_core_def)
  then have wf: "no_wf c ?h"
    using R g1(1) inv by (auto simp: no_wf_def gext_def ghost_sel no_inv_def)
  have "no_fits c ?h k (ns_replicas ?S ! k)" if k: "k < length (ns_replicas S)" for k
  proof (cases "k = i")
    case True
    have "no_fits c ?h i t" by (rule no_fits_grow [OF g1(2) grow wf]) (use R C in blast)
    then show ?thesis using True at [OF k] by simp
  next
    case False
    then have "k = 0 \<longrightarrow> gR ?h = gR ?g \<and> gC ?h = gC ?g" using R C g1(1) by (auto simp: gext_def)
    then have "no_fits c ?h k (ns_replicas S ! k)" by (rule no_fits_grow [OF fits [OF k] grow_trans [OF grow1 grow] wf])
    then show ?thesis using at [OF k] False by simp
  qed
  then show "no_inv c S'" using inv by (simp add: no_inv_def S'_def)
  show "grow ?g (ghost S')" unfolding S'_def using grow1 grow by (rule grow_trans)
  show "np_lastOp (ns_replicas S ! k) \<le> np_lastOp (ns_replicas S' ! k)" if "k < length (ns_replicas S)"
    using at [OF that] g1(3) by (simp add: S'_def np_grows_def)
qed

lemma no_inv_stamp:
  assumes inv: "no_inv c S"
  shows "no_inv c (S\<lparr>ns_stamped := ns_stamped S @ [r]\<rparr>)" (is "no_inv c ?S")
    and "grow (ghost S) (ghost (S\<lparr>ns_stamped := ns_stamped S @ [r]\<rparr>))"
proof -
  show grow: "grow (ghost S) (ghost ?S)" by (auto simp: grow_def ghost_def Let_def)
  have "no_fits c (ghost ?S) k (ns_replicas S ! k)" if k: "k < length (ns_replicas S)" for k
  proof (rule no_fits_grow [OF _ grow])
    show fits: "no_fits c (ghost S) k (ns_replicas S ! k)" using inv k by (simp add: no_inv_def)
    then show "no_wf c (ghost ?S)"
      using grow_req [OF grow] by (auto simp: no_fits_def no_core_def no_wf_def ghost_def Let_def)
    show "k = 0 \<longrightarrow> gR (ghost ?S) = gR (ghost S) \<and> gC (ghost ?S) = gC (ghost S)" by (simp add: ghost_sel)
  qed
  then show "no_inv c ?S" using inv by (simp add: no_inv_def)
qed

section \<open>Every reachable state\<close>

lemma no_fits_new:
  assumes new: "NOPaxosReplica_new (ne_at c i) a = Inr s" and mem: "no_member c i" and wf: "no_wf c g"
    and g: "i = 0 \<longrightarrow> gR g = Map.empty \<and> gC g = 0"
  shows "no_fits c g i s"
proof -
  have init: "np_log s = \<lparr>entries = [], initialHash = EMPTY_HASH, start = 1, useHash = False\<rparr>"
    "np_status s = STATUS_NORMAL" "np_view s = 0" "np_sessnum s = 0" "np_nextMsgnum s = 1" "np_lastOp s = 0"
    "np_lastCommittedOp s = 0" "np_lastExecutedOp s = 0" "np_committedGaps s = []" "np_sent s = []"
    "np_clientTable s = Map.empty" "np_pendingRequests s = []" "np_stateTransferOpEnd s = 0"
    "np_stateTransferCallback s = NoCallback" "np_receivedSyncPreparePoints s = []" "np_receivedSyncCommitPoints s = []"
    "np_leaderLastSyncPreparePoint s = 0" "np_leaderLastSyncCommittedGaps s = []"
    "np_syncPrepareQuorum s = mk_QuorumSet (QuorumSize (ne_config c) - 1)"
    "\<not> armed (np_viewChangeTimeout s)" "\<not> armed (np_startViewTimeout s)" "\<not> armed (np_stateTransferTimeout s)"
    using new by (auto simp: NOPaxosReplica_new_def mk_Log_def Let_def split: if_splits)
  have empty: "slot (np_log s) = Map.empty" and num: "log_num_at (np_log s) k = None" for k
    by (auto simp: init(1) slot_def log_num_at_def log_top_def)
  have "log_fits g (np_log s) 0 {}"
    using empty num by (simp add: log_fits_def init(1) log_ok_def log_top_def)
  moreover have "sync_ok R 0 {}" for R by (simp add: sync_ok_def)
  moreover have "votes_fit c g (mk_QuorumSet (QuorumSize (ne_config c) - 1))" by (simp add: votes_fit_def QS_votes_def)
  ultimately show ?thesis
    using g wf empty init(2-)
    by (simp add: no_fits_def points_fit_def no_core_def executed_fits_def committed_fits_def leader_fits_def callback_ok_def)
qed

lemma new_log: "NOPaxosReplica_new E a = Inr s \<Longrightarrow> entries (np_log s) = [] \<and> np_lastCommittedOp s = 0"
  by (auto simp: NOPaxosReplica_new_def mk_Log_def assert_r_def Let_def split: if_splits)

lemma no_inv_initial:
  assumes init: "no_initial c a S" and chk: "\<not> nassert c"
    and n: "0 < num_replicas (ne_config c)" "num_replicas (ne_config c) < 2 ^ 31"
  shows "no_inv c S"
proof -
  have len: "int (length (ns_replicas S)) = num_replicas (ne_config c)" using init by (simp add: no_initial_def)
  then have zero: "0 < length (ns_replicas S)" using n by linarith
  then have new: "NOPaxosReplica_new (ne_at c 0) a = Inr (ns_replicas S ! 0)" using init by (simp add: no_initial_def)
  then have g: "gR (ghost S) = Map.empty" "gC (ghost S) = 0"
    by (auto simp: ghost_sel slot_def log_num_at_def log_top_def fun_eq_iff dest!: new_log)
  have "no_wf c (ghost S)" using g(1) len by (simp add: no_wf_def ghost_sel)
  then show ?thesis
    using init g chk n len unfolding no_inv_def no_initial_def
    by (auto intro!: no_fits_new simp: no_member_def)
qed

text \<open>A group in which no replica suspects the leader.\<close>

definition no_group :: "'app no_env \<Rightarrow> 'app \<Rightarrow> 'app no_system \<Rightarrow> bool" where
  "no_group c a S \<longleftrightarrow> no_reach c a stays_in_view S \<and> \<not> nassert c \<and>
     0 < num_replicas (ne_config c) \<and> num_replicas (ne_config c) < 2 ^ 31"

text \<open>An action keeps the invariant, and what the group has established only grows.\<close>

definition no_advances :: "'app no_system \<Rightarrow> 'app no_system \<Rightarrow> bool" where
  "no_advances S S' \<longleftrightarrow> length (ns_replicas S') = length (ns_replicas S) \<and> grow (ghost S) (ghost S') \<and>
     (\<forall>k < length (ns_replicas S). np_lastOp (ns_replicas S ! k) \<le> np_lastOp (ns_replicas S' ! k))"

lemma no_inv_act:
  assumes inv: "no_inv c S" and chk: "\<not> nassert c" and n: "num_replicas (ne_config c) < 2 ^ 31"
    and x: "no_allowed stays_in_view S x" "no_act c x S = Inr S'"
  shows "no_inv c S'" and "no_advances S S'"
proof -
  have "no_inv c S' \<and> no_advances S S'"
  proof (cases x)
    case (Stamp r)
    then show ?thesis using x no_inv_stamp [OF inv] by (auto simp: no_advances_def)
  next
    case (At i ev)
    from At x(1) have en: "i < length (ns_replicas S)" "stays_in_view ev" "no_enabled S i ev" by auto
    from At x(2) obtain t where step: "no_event_step (ne_at c i) ev (ns_replicas S ! i) = Inr t" and
        S': "S' = S\<lparr>ns_replicas := (ns_replicas S)[i := t]\<rparr>" by (auto simp: bind_r_Inr)
    from no_inv_event [OF inv chk n en step] show ?thesis by (simp add: S' no_advances_def)
  qed
  then show "no_inv c S'" and "no_advances S S'" by auto
qed

lemma no_reach_inv:
  assumes "no_reach c a stays_in_view S" and "\<not> nassert c"
    and "0 < num_replicas (ne_config c)" and "num_replicas (ne_config c) < 2 ^ 31"
  shows "no_inv c S"
  using assms(1)
proof (induction rule: no_reach.induct)
  case (initial S)
  from this assms(2-4) show ?case by (rule no_inv_initial)
next
  case (action S x S')
  show ?case by (rule no_inv_act(1) [OF action(4) assms(2,4) action(2,3)])
qed

lemma group_fits:
  assumes "no_group c a S" and "i < length (ns_replicas S)"
  shows "no_fits c (ghost S) i (ns_replicas S ! i)"
proof -
  have "no_inv c S" using assms(1) by (intro no_reach_inv) (auto simp: no_group_def)
  then show ?thesis using assms(2) by (simp add: no_inv_def)
qed

section \<open>What the group promises\<close>




lemma answers_agree:
  assumes inv: "no_inv c S" and j: "j < length (ns_replicas S)"
    and lead: "reply_ok c (ghost S) 0 (np_lastOp (ns_replicas S ! 0)) x m"
    and other: "reply_ok c (ghost S) j (np_lastOp (ns_replicas S ! j)) y m'"
    and same: "nrp_opnum m' = nrp_opnum m"
  shows "\<exists>r. slot (np_log (ns_replicas S ! 0)) (unat (nrp_opnum m)) = Some (Some r) \<and>
    slot (np_log (ns_replicas S ! j)) (unat (nrp_opnum m)) = Some (Some r) \<and>
    clientreqid r = nrp_clientreqid m \<and> nrp_clientreqid m' = nrp_clientreqid m \<and> r \<in> set (ns_stamped S) \<and> req_addr c r = x"
proof -
  let ?g = "ghost S" and ?k = "unat (nrp_opnum m)"
  have fits: "no_fits c ?g j (ns_replicas S ! j)" using inv j by (simp add: no_inv_def)
  obtain r where r: "is_req (gS ?g) ?k r" "clientreqid r = nrp_clientreqid m" "req_addr c r = x" "gR ?g ?k = Some (Some r)"
    using lead by (auto simp: reply_ok_def)
  obtain r' where r': "is_req (gS ?g) ?k r'" "clientreqid r' = nrp_clientreqid m'" "nrp_opnum m \<le> np_lastOp (ns_replicas S ! j)"
    using other same by (auto simp: reply_ok_def)
  have log: "log_fits ?g (np_log (ns_replicas S ! j)) (np_lastOp (ns_replicas S ! j)) (set (np_committedGaps (ns_replicas S ! j)))"
    using fits by (simp add: no_fits_def no_core_def)
  have pos: "1 \<le> ?k" using r(1) by (simp add: is_req_def)
  from log_fits_entry [OF log pos r'(3), of c] obtain e where
    e: "log_num_at (np_log (ns_replicas S ! j)) ?k = Some e" "entry_ok (gS ?g) ?k e" by blast
  have "state e \<noteq> LOG_STATE_NOOP"
  proof
    assume noop: "state e = LOG_STATE_NOOP"
    then have "log_at (np_log (ns_replicas S ! j)) (nrp_opnum m) = Some e" using e(1) by (simp add: log_at_num)
    from fits_entry(2) [OF fits this noop] r(4) show False by simp
  qed
  with e have "slot (np_log (ns_replicas S ! j)) ?k = Some (Some r)"
    using is_req_unique [OF r(1)] by (auto simp: slot_def entry_ok_def)
  moreover have "r' = r" using r(1) r'(1) by (rule is_req_unique [rotated])
  moreover have "r \<in> set (ns_stamped S)" using r(1) by (auto simp: is_req_def ghost_sel)
  ultimately show ?thesis using r r' by (auto simp: ghost_sel)
qed

lemma sent_reply_ok:
  assumes "no_inv c S" and "i < length (ns_replicas S)" and "NSendToClient x (NReply m) \<in> set (np_sent (ns_replicas S ! i))"
  shows "reply_ok c (ghost S) i (np_lastOp (ns_replicas S ! i)) x m"
  using assms unfolding no_inv_def no_fits_def no_core_def by fastforce

text \<open>
  An answer stands: if the leader and another replica have both answered with the same operation
  number, which is what a client waits for from a quorum, both logs hold the request that was
  answered, in that slot; a gap can no longer take its place.
\<close>

theorem no_answer_stands:
  assumes group: "no_group c a S" and j: "j < length (ns_replicas S)"
    and lead: "NSendToClient x (NReply m) \<in> set (np_sent (ns_replicas S ! 0))"
    and other: "NSendToClient y (NReply m') \<in> set (np_sent (ns_replicas S ! j))"
    and same: "nrp_opnum m' = nrp_opnum m"
  shows "\<exists>r. slot (np_log (ns_replicas S ! 0)) (unat (nrp_opnum m)) = Some (Some r) \<and>
    slot (np_log (ns_replicas S ! j)) (unat (nrp_opnum m)) = Some (Some r) \<and>
    clientreqid r = nrp_clientreqid m \<and> nrp_clientreqid m' = nrp_clientreqid m"
proof -
  have inv: "no_inv c S" using group by (intro no_reach_inv) (auto simp: no_group_def)
  have "0 < length (ns_replicas S)" using j by linarith
  from answers_agree [OF inv j sent_reply_ok [OF inv this lead] sent_reply_ok [OF inv j other] same]
  show ?thesis by blast
qed

section \<open>A run with a gap, for all of them\<close>

text \<open>After the gap has been agreed on, replica 2 gets request 3, and a synchronisation commits it.\<close>

definition gap_run :: "no_action list" where
  "gap_run = gap_agreed @
     [stamped_to 2 3, At 0 (NFire SyncTimer), At 2 (NDeliver 0 (NSyncPrepare (NOSyncPrepareMessage 0 0 3 [2]))),
      At 0 (NDeliver 2 (NSyncPrepareReply (NOSyncPrepareReplyMessage 0 0 3 2))),
      At 2 (NDeliver 0 (NSyncCommit (NOSyncCommitMessage 0 0 3)))]"

text \<open>The answers a replica has sent: operation, request number.\<close>

definition answers :: "no_effect list \<Rightarrow> (opnum_t \<times> u64 \<times> bytes option) list" where
  "answers es = concat (map (\<lambda>e. case e of NSendToClient a (NReply m) \<Rightarrow> [(nrp_opnum m, nrp_clientreqid m, nrp_reply m)] | _ \<Rightarrow> []) es)"

lemma answers_iff:
  "(p, q, b) \<in> set (answers es) \<longleftrightarrow>
     (\<exists>a m. NSendToClient a (NReply m) \<in> set es \<and> nrp_opnum m = p \<and> nrp_clientreqid m = q \<and> nrp_reply m = b)"
  by (force simp: answers_def split: no_effect.splits NOToClientMessage.splits)

lemma gap_run_outcome:
  "map_option (map_sum id (\<lambda>S. map (\<lambda>s. (no_executed (np_sent s), np_lastCommittedOp s, answers (np_sent s))) (ns_replicas S)))
     (no_run (no_env3 False) gap_run (no_start3 False)) =
   Some (Inr [([(1, ''a''), (3, ''c'')], 3, [(1, 1, Some ''''), (3, 3, Some '''')]), ([], 0, []),
     ([(1, ''a''), (3, ''c'')], 3, [(1, 1, None), (3, 3, None)])])"
  by code_simp

lemma no_env3_facts: "\<not> nassert (no_env3 False)" "num_replicas (ne_config (no_env3 na)) = 3"
  "QuorumSize (ne_config (no_env3 na)) = 2"
  by (simp_all add: no_env3_def conf3_def QuorumSize_def)

lemma no_start3_initial: "no_initial (no_env3 False) () (no_start3 False)"
proof -
  have "\<not> isl (NOPaxosReplica_new (ne_at (no_env3 False) i) ())" for i
    by (simp add: NOPaxosReplica_new_def mk_Log_def Let_def)
  then have "NOPaxosReplica_new (ne_at (no_env3 False) i) () = Inr (projr (NOPaxosReplica_new (ne_at (no_env3 False) i) ()))" for i
    by (rule not_isl_result)
  moreover have "(\<forall>i < Suc (Suc (Suc 0)). P i) \<longleftrightarrow> P 0 \<and> P (Suc 0) \<and> P 2" for P :: "nat \<Rightarrow> bool"
    by (auto simp: numeral_2_eq_2 less_Suc_eq)
  ultimately show ?thesis
    by (simp add: no_initial_def no_start3_def no_env3_facts)
qed

lemma gap_run_state:
  obtains S where "no_group (no_env3 False) () S" "length (ns_replicas S) = 3"
    "no_executed (np_sent (ns_replicas S ! 2)) = [(1, ''a''), (3, ''c'')]"
    "np_lastCommittedOp (ns_replicas S ! 2) = 3"
    "(3, 3, Some '''') \<in> set (answers (np_sent (ns_replicas S ! 0)))"
    "(3, 3, None) \<in> set (answers (np_sent (ns_replicas S ! 2)))"
proof -
  let ?f = "\<lambda>S. map (\<lambda>s. (no_executed (np_sent s), np_lastCommittedOp s, answers (np_sent s))) (ns_replicas S)"
  obtain z where z: "no_run (no_env3 False) gap_run (no_start3 False) = Some z" and
    out: "map_sum id ?f z = Inr [([(1, ''a''), (3, ''c'')], 3, [(1, 1, Some ''''), (3, 3, Some '''')]), ([], 0, []),
         ([(1, ''a''), (3, ''c'')], 3, [(1, 1, None), (3, 3, None)])]"
    using gap_run_outcome by auto
  then obtain S where S: "z = Inr S" "?f S = [([(1, ''a''), (3, ''c'')], 3, [(1, 1, Some ''''), (3, 3, Some '''')]), ([], 0, []),
         ([(1, ''a''), (3, ''c'')], 3, [(1, 1, None), (3, 3, None)])]"
    by (cases z) auto
  have "no_reach (no_env3 False) () stays_in_view S"
    by (rule no_run_reach [OF no_reach.initial [OF no_start3_initial] _ z [unfolded S(1)]])
      (auto simp: gap_run_def gap_agreed_def stamped_to_def stays_in_view_def)
  then have "no_group (no_env3 False) () S" by (simp add: no_group_def no_env3_facts)
  with S(2) that show ?thesis by (auto simp: Cons_eq_map_conv)
qed




theorem no_answer_stands_witness:
  "\<exists>S r. no_group (no_env3 False) () S \<and> slot (np_log (ns_replicas S ! 0)) 3 = Some (Some r) \<and>
     slot (np_log (ns_replicas S ! 2)) 3 = Some (Some r) \<and> clientreqid r = 3"
proof -
  obtain S where S: "no_group (no_env3 False) () S" "length (ns_replicas S) = 3"
    "(3, 3, Some '''') \<in> set (answers (np_sent (ns_replicas S ! 0)))"
    "(3, 3, None) \<in> set (answers (np_sent (ns_replicas S ! 2)))" by (rule gap_run_state)
  then obtain x m y m' where m: "NSendToClient x (NReply m) \<in> set (np_sent (ns_replicas S ! 0))"
      "NSendToClient y (NReply m') \<in> set (np_sent (ns_replicas S ! 2))"
      "nrp_opnum m = 3" "nrp_opnum m' = 3" "nrp_clientreqid m = 3"
    by (auto simp: answers_iff)
  then show ?thesis
    using no_answer_stands [OF S(1) _ m(1,2)] S(1,2) by (intro exI [of _ S]) auto
qed

end
