(* ===== verification/NOClient.thy ===== *)
theory NOClient
  imports NOTypes VRClient
begin

text \<open>
  \<open>src/replication/nopaxos/client.cc\<close> and \<open>client.h\<close>: a client of a Network-Ordered Paxos group. It
  sends a request to the sequencer, or straight to all replicas, and takes the leader's answer when
  a quorum has answered with the same view, session and operation number.

  As for \<open>VRClient\<close>, a continuation is a name. \<open>CompleteOperation\<close> clears the recorded answers after
  it has called the continuation; what the continuation invokes records none, so the model may clear
  them before.
\<close>

section \<open>State\<close>

datatype 'k nc_effect =
    NCSendToSequencer NOToReplicaMessage
  | NCSendToMulticast NOToReplicaMessage
  | NCSendToReplica int NOToReplicaMessage
  | NCContinuation 'k bytes bytes
  | NCTimeoutContinuation 'k bytes

record nc_env =
  nc_nassert :: bool
  nc_config :: Configuration
  nc_node_addr :: ReplicaAddress

record 'k nopaxos_client =
  nc_clientid :: u64
  nc_lastReqID :: opnum_t
  nc_pendingRequest :: "'k PendingRequest option"
  nc_pendingUnlogged :: "'k PendingRequest option"
  nc_requestTimeout :: Timeout
  nc_unloggedRequestTimeout :: Timeout
  nc_replyQuorum :: "(int, NOReplyMessage) QuorumSet"
  nc_effects :: "'k nc_effect list"

definition nc_emit :: "'k nc_effect \<Rightarrow> 'k nopaxos_client \<Rightarrow> 'k nopaxos_client" where
  "nc_emit e s = s\<lparr>nc_effects := nc_effects s @ [e]\<rparr>"

section \<open>Operations\<close>

text \<open>The constructor; a client identifier of 0 is replaced by a random one before (\<open>cid \<noteq> 0\<close>).\<close>

definition NOPaxosClient_new :: "nc_env \<Rightarrow> u64 \<Rightarrow> 'k nopaxos_client" where
  "NOPaxosClient_new c cid =
     \<lparr>nc_clientid = cid, nc_lastReqID = 0, nc_pendingRequest = None, nc_pendingUnlogged = None,
      nc_requestTimeout = mk_Timeout 100, nc_unloggedRequestTimeout = mk_Timeout 100,
      nc_replyQuorum = mk_QuorumSet (QuorumSize (nc_config c)), nc_effects = []\<rparr>"

definition nc_SendRequest :: "nc_env \<Rightarrow> 'k nopaxos_client \<Rightarrow> 'k nopaxos_client result" where
  "nc_SendRequest c s =
     deref_r (nc_pendingRequest s) (\<lambda>p.
       let req = \<lparr>op = pr_request p, clientid = nc_clientid s, clientreqid = pr_clientReqId p, ops = [],
                  req_sessnum = None, clientaddr = Some (Serialize (nc_node_addr c))\<rparr>;
           m = NRequest (NORequestMessage 0 0 req);
           s1 = nc_emit (if NumSequencers (nc_config c) > 0 then NCSendToSequencer m else NCSendToMulticast m) s
       in Inr (s1\<lparr>nc_requestTimeout := Timeout_Reset (nc_requestTimeout s1)\<rparr>))"

definition nc_ResendRequest :: "nc_env \<Rightarrow> 'k nopaxos_client \<Rightarrow> 'k nopaxos_client result" where
  "nc_ResendRequest c s = nc_SendRequest c s"

definition nc_Invoke :: "nc_env \<Rightarrow> bytes \<Rightarrow> 'k option \<Rightarrow> 'k nopaxos_client \<Rightarrow> 'k nopaxos_client result" where
  "nc_Invoke c r continuation s =
     (if nc_pendingRequest s \<noteq> None then Inl Panicked
      else
        let rid = nc_lastReqID s + 1;
            p = \<lparr>pr_request = r, pr_clientReqId = rid, pr_continuation = continuation, pr_timeoutContinuation = None\<rparr>
        in nc_SendRequest c (s\<lparr>nc_lastReqID := rid, nc_pendingRequest := Some p\<rparr>))"

definition nc_InvokeUnlogged ::
  "nc_env \<Rightarrow> int \<Rightarrow> bytes \<Rightarrow> 'k option \<Rightarrow> 'k option \<Rightarrow> u32 \<Rightarrow> 'k nopaxos_client \<Rightarrow> 'k nopaxos_client result" where
  "nc_InvokeUnlogged c idx r continuation timeoutContinuation timeout s =
     (if nc_pendingUnlogged s \<noteq> None then Inl Panicked
      else
        let rid = nc_lastReqID s + 1;
            p = \<lparr>pr_request = r, pr_clientReqId = rid, pr_continuation = continuation,
                 pr_timeoutContinuation = timeoutContinuation\<rparr>;
            m = NUnloggedRequest \<lparr>uop = r, uclientid = nc_clientid s, uclientreqid = rid\<rparr>;
            s1 = s\<lparr>nc_lastReqID := rid, nc_pendingUnlogged := Some p\<rparr>
        in assert_r (nc_nassert c) (\<not> Timeout_Active (nc_unloggedRequestTimeout s1))
             (bind_r (Timeout_SetTimeout (nc_nassert c) (ucast timeout) (nc_unloggedRequestTimeout s1)) (\<lambda>t.
                Inr (nc_emit (NCSendToReplica idx m) (s1\<lparr>nc_unloggedRequestTimeout := Timeout_Start t\<rparr>)))))"

definition nc_call :: "'k option \<Rightarrow> ('k \<Rightarrow> 'k nc_effect) \<Rightarrow> 'k nopaxos_client \<Rightarrow> 'k nopaxos_client result" where
  "nc_call k e s = (case k of None \<Rightarrow> Inl BadFunctionCall | Some k' \<Rightarrow> Inr (nc_emit (e k') s))"

text \<open>\<open>msg.reply()\<close> of a message without the field is the empty string.\<close>

definition nc_CompleteOperation :: "nc_env \<Rightarrow> NOReplyMessage \<Rightarrow> 'k nopaxos_client \<Rightarrow> 'k nopaxos_client result" where
  "nc_CompleteOperation c msg s =
     assert_r (nc_nassert c) (nrp_reply msg \<noteq> None)
       (let s1 = s\<lparr>nc_requestTimeout := Timeout_Stop (nc_requestTimeout s), nc_pendingRequest := None,
                   nc_replyQuorum := QS_ClearAll (nc_replyQuorum s)\<rparr>
        in deref_r (nc_pendingRequest s) (\<lambda>p.
             nc_call (pr_continuation p)
               (\<lambda>k. NCContinuation k (pr_request p) (case nrp_reply msg of None \<Rightarrow> '''' | Some r \<Rightarrow> r)) s1))"

definition nc_IsLeader :: "nc_env \<Rightarrow> view_t \<Rightarrow> int \<Rightarrow> bool" where
  "nc_IsLeader c v idx = (GetLeaderIndex (nc_config c) v = idx)"

text \<open>
  The body of the first loop of \<open>HandleReply\<close>: the leader's reply (\<open>hasLeader\<close> and \<open>leaderIdx\<close> as an
  option), the latest view and the latest session.
\<close>

definition nc_find_leader ::
  "nc_env \<Rightarrow> int \<times> NOReplyMessage \<Rightarrow> int option \<times> view_t \<times> sessnum_t \<Rightarrow> int option \<times> view_t \<times> sessnum_t" where
  "nc_find_leader c kv st =
     (let (idx, m) = kv; (leader, lv, ls) = st;
          (leader1, lv1) = (if nrp_view m > lv then (None, nrp_view m) else (leader, lv));
          ls1 = (if nrp_sessnum m > ls then nrp_sessnum m else ls)
      in (if nc_IsLeader c (nrp_view m) idx \<and> nrp_view m = lv1 \<and> nrp_sessnum m = ls1 then Some idx else leader1,
          lv1, ls1))"

text \<open>The second loop counts the replies that match the leader's.\<close>

definition nc_matches :: "NOReplyMessage \<Rightarrow> NOReplyMessage \<Rightarrow> bool" where
  "nc_matches lm m \<longleftrightarrow> nrp_view m = nrp_view lm \<and> nrp_sessnum m = nrp_sessnum lm \<and> nrp_opnum m = nrp_opnum lm"

definition nc_HandleReply :: "nc_env \<Rightarrow> NOReplyMessage \<Rightarrow> 'k nopaxos_client \<Rightarrow> 'k nopaxos_client result" where
  "nc_HandleReply c msg s =
     (case nc_pendingRequest s of
        None \<Rightarrow> Inr s
      | Some p \<Rightarrow>
          if nrp_clientreqid msg \<noteq> pr_clientReqId p then Inr s
          else
            let (msgs, q) = QS_AddAndCheckForQuorum (int_of_u64 (nrp_clientreqid msg))
                              (int_of_u32 (nrp_replicaidx msg)) msg (nc_replyQuorum s);
                s1 = s\<lparr>nc_replyQuorum := q\<rparr>
            in case msgs of
                 None \<Rightarrow> Inr s1
               | Some ms \<Rightarrow>
                   case fst (fold (nc_find_leader c) ms (None, 0, 0)) of
                     None \<Rightarrow> Inr s1
                   | Some idx \<Rightarrow>
                       case map_of ms idx of
                         None \<Rightarrow> Inl OutOfRange
                       | Some lm \<Rightarrow>
                           let same = filter (nc_matches lm) (map snd ms)
                           in assert_r (nc_nassert c) (\<forall>m \<in> set same. nrp_clientreqid m = nrp_clientreqid lm)
                                (if int (length same) \<ge> QuorumSize (nc_config c)
                                 then nc_CompleteOperation c lm s1 else Inr s1))"

definition nc_HandleUnloggedReply :: "bytes \<Rightarrow> 'k nopaxos_client \<Rightarrow> 'k nopaxos_client result" where
  "nc_HandleUnloggedReply rep s =
     (case nc_pendingUnlogged s of
        None \<Rightarrow> Inr s
      | Some p \<Rightarrow>
          let s1 = s\<lparr>nc_unloggedRequestTimeout := Timeout_Stop (nc_unloggedRequestTimeout s), nc_pendingUnlogged := None\<rparr>
          in nc_call (pr_continuation p) (\<lambda>k. NCContinuation k (pr_request p) rep) s1)"

definition nc_UnloggedRequestTimeoutCallback :: "'k nopaxos_client \<Rightarrow> 'k nopaxos_client result" where
  "nc_UnloggedRequestTimeoutCallback s =
     (let s1 = s\<lparr>nc_pendingUnlogged := None,
                 nc_unloggedRequestTimeout := Timeout_Stop (nc_unloggedRequestTimeout s)\<rparr>
      in deref_r (nc_pendingUnlogged s) (\<lambda>p.
           nc_call (pr_timeoutContinuation p) (\<lambda>k. NCTimeoutContinuation k (pr_request p)) s1))"

fun nc_ReceiveMessage :: "nc_env \<Rightarrow> NOToClientMessage \<Rightarrow> 'k nopaxos_client \<Rightarrow> 'k nopaxos_client result" where
  "nc_ReceiveMessage c (NReply m) s = nc_HandleReply c m s"
| "nc_ReceiveMessage c (NUnloggedReply r) s = nc_HandleUnloggedReply r s"
| "nc_ReceiveMessage c NOClientMsgNotSet s = Inl Panicked"

section \<open>Runs\<close>

datatype 'k nc_event =
    NCInvoke bytes "'k option"
  | NCInvokeUnlogged int bytes "'k option" "'k option" u32
  | NCReceive NOToClientMessage
  | NCRequestTimer
  | NCUnloggedTimer

fun nc_step :: "nc_env \<Rightarrow> 'k nc_event \<Rightarrow> 'k nopaxos_client \<Rightarrow> 'k nopaxos_client result" where
  "nc_step c (NCInvoke r k) s = nc_Invoke c r k s"
| "nc_step c (NCInvokeUnlogged i r k t to) s = nc_InvokeUnlogged c i r k t to s"
| "nc_step c (NCReceive m) s = nc_ReceiveMessage c m s"
| "nc_step c NCRequestTimer s = (if armed (nc_requestTimeout s) then nc_ResendRequest c s else Inr s)"
| "nc_step c NCUnloggedTimer s =
     (if armed (nc_unloggedRequestTimeout s) then nc_UnloggedRequestTimeoutCallback s else Inr s)"

section \<open>What completes an operation\<close>

lemma nc_find_leader_found:
  assumes "fst (fold (nc_find_leader c) ms (None, 0, 0)) = Some idx"
  shows "\<exists>m. (idx, m) \<in> set ms \<and> nc_IsLeader c (nrp_view m) idx"
proof -
  have "fst (fold (nc_find_leader c) xs st) = Some idx \<Longrightarrow> set xs \<subseteq> set ms \<Longrightarrow>
      (fst st = Some idx \<longrightarrow> (\<exists>m. (idx, m) \<in> set ms \<and> nc_IsLeader c (nrp_view m) idx)) \<Longrightarrow>
      \<exists>m. (idx, m) \<in> set ms \<and> nc_IsLeader c (nrp_view m) idx" for xs st
  proof (induction xs arbitrary: st)
    case (Cons x xs)
    have "fst (nc_find_leader c x st) = Some idx \<longrightarrow> (\<exists>m. (idx, m) \<in> set ms \<and> nc_IsLeader c (nrp_view m) idx)"
      using Cons.prems(2,3) by (cases x; cases st) (auto simp: nc_find_leader_def Let_def split: if_splits)
    with Cons show ?case by simp
  qed simp
  from this [OF assms] show ?thesis by simp
qed

lemma matching_card:
  assumes "smap_ok ms"
  shows "length (filter P (map snd ms)) = card {j. \<exists>m. map_of ms j = Some m \<and> P m}"
proof -
  have d: "distinct (map fst ms)" using assms by (simp add: smap_ok_def strict_sorted_iff)
  let ?xs = "filter (P \<circ> snd) ms"
  have "length (filter P (map snd ms)) = length ?xs" by (simp add: filter_map)
  also have "\<dots> = card (fst ` set ?xs)"
  proof -
    have "distinct (map fst ?xs)" using d by (simp add: distinct_map inj_on_def)
    then show ?thesis by (metis distinct_card length_map list.set_map)
  qed
  also have "fst ` set ?xs = {j. \<exists>m. map_of ms j = Some m \<and> P m}"
    using d by (force simp: map_of_eq_Some_iff)
  finally show ?thesis .
qed

lemma nc_CompleteOperation_done:
  assumes "nc_pendingRequest s = Some p"
  shows "post (nc_CompleteOperation c lm s) (\<lambda>s'. nc_pendingRequest s' = None \<and> nc_lastReqID s' = nc_lastReqID s \<and>
    nc_replyQuorum s' = QS_ClearAll (nc_replyQuorum s) \<and>
    (\<exists>k b. nc_effects s' = nc_effects s @ [NCContinuation k (pr_request p) b] \<and> (\<not> nc_nassert c \<longrightarrow> nrp_reply lm = Some b)))"
  using assms by (auto simp: nc_CompleteOperation_def nc_call_def nc_emit_def post_assert Let_def split: option.split)

text \<open>
  \<open>HandleReply\<close> keeps the request pending, or completes it with the answer \<open>lm\<close> of the leader of its
  view that a quorum of the recorded answers matches.
\<close>

lemma nc_HandleReply_completes:
  assumes ok: "QS_ok (nc_replyQuorum s)" and p: "nc_pendingRequest s = Some p"
  defines "key \<equiv> int_of_u64 (pr_clientReqId p)"
  shows "post (nc_HandleReply c msg s) (\<lambda>s'.
    nc_pendingRequest s' = Some p \<and> nc_lastReqID s' = nc_lastReqID s \<and> nc_effects s' = nc_effects s \<and>
      (nc_replyQuorum s' = nc_replyQuorum s \<or> nrp_clientreqid msg = pr_clientReqId p \<and>
         nc_replyQuorum s' = QS_Add key (int_of_u32 (nrp_replicaidx msg)) msg (nc_replyQuorum s)) \<or>
    nc_pendingRequest s' = None \<and> nc_lastReqID s' = nc_lastReqID s \<and>
      nc_replyQuorum s' = QS_ClearAll (nc_replyQuorum s) \<and> nrp_clientreqid msg = pr_clientReqId p \<and>
      (\<exists>idx lm k b. let votes = (QS_votes (nc_replyQuorum s) key)(int_of_u32 (nrp_replicaidx msg) \<mapsto> msg)
         in votes idx = Some lm \<and> nc_IsLeader c (nrp_view lm) idx \<and>
            QuorumSize (nc_config c) \<le> int (card {j. \<exists>m. votes j = Some m \<and> nc_matches lm m}) \<and>
            nc_effects s' = nc_effects s @ [NCContinuation k (pr_request p) b] \<and>
            (\<not> nc_nassert c \<longrightarrow> nrp_reply lm = Some b)))"
proof (cases "nrp_clientreqid msg = pr_clientReqId p")
  case True
  let ?i = "int_of_u32 (nrp_replicaidx msg)" and ?q = "nc_replyQuorum s"
  let ?ms = "smap_put ?i msg (QS_at ?q key)"
  have sm: "smap_ok ?ms" by (rule sm.ok_put [OF QS_ok_at [OF ok]])
  have get: "map_of ?ms = (QS_votes ?q key)(?i \<mapsto> msg)"
    by (simp add: sm.get_put QS_votes_def)
  have clear: "QS_ClearAll (QS_Add key ?i msg ?q) = QS_ClearAll ?q"
    by (simp add: QS_ClearAll_def QS_Add_def QS_AddAndCheckForQuorum_def QS_CheckForQuorum_def QS_touch_def Let_def)
  show ?thesis
  proof (cases "fst (fold (nc_find_leader c) ?ms (None, 0, 0))")
    case None
    then show ?thesis
      using p True by (simp add: nc_HandleReply_def QS_AddAndCheckForQuorum_eq Let_def key_def)
  next
    case (Some idx)
    then obtain m where m: "(idx, m) \<in> set ?ms" "nc_IsLeader c (nrp_view m) idx" using nc_find_leader_found by blast
    have "distinct (map fst ?ms)" using sm by (simp add: smap_ok_def strict_sorted_iff)
    then have at: "map_of ?ms idx = Some m" using m(1) by simp
    let ?s = "s\<lparr>nc_replyQuorum := QS_Add key ?i msg ?q\<rparr>"
    have eq: "nc_HandleReply c msg s =
        (if numRequired ?q \<le> int (length ?ms) then
           assert_r (nc_nassert c) (\<forall>x \<in> set (filter (nc_matches m) (map snd ?ms)). nrp_clientreqid x = nrp_clientreqid m)
             (if QuorumSize (nc_config c) \<le> int (length (filter (nc_matches m) (map snd ?ms)))
              then nc_CompleteOperation c m ?s else Inr ?s)
         else Inr ?s)"
      using p True Some at by (simp add: nc_HandleReply_def QS_AddAndCheckForQuorum_eq Let_def key_def)
    have compl: "post (nc_CompleteOperation c m ?s) (\<lambda>s'. nc_pendingRequest s' = None \<and> nc_lastReqID s' = nc_lastReqID s \<and>
        nc_replyQuorum s' = QS_ClearAll ?q \<and>
        (\<exists>k b. nc_effects s' = nc_effects s @ [NCContinuation k (pr_request p) b] \<and> (\<not> nc_nassert c \<longrightarrow> nrp_reply m = Some b)))"
      using nc_CompleteOperation_done [of ?s p c m] p clear by simp
    show ?thesis
      unfolding eq post_if post_assert get [symmetric] Let_def matching_card [OF sm]
      using p True at m(2) by (auto intro!: post_mono [OF compl])
  qed
qed (use p in \<open>simp add: nc_HandleReply_def\<close>)

end
