(* ===== verification/NOService.thy ===== *)
theory NOService
  imports NOAgreement NOClient
begin

text \<open>
  A client of \<open>NOClient\<close> with the group of \<open>NOSystem\<close>. The client is the one the transport knows under
  address \<open>x\<close>: it gets what replicas have sent to \<open>x\<close>, late, repeatedly, in any order or never, and of
  the requests that name \<open>x\<close> as where to answer, the sequencer numbers only those the client has sent.
  When the client is given the answer to a request, a quorum of replicas holds the request.
\<close>

section \<open>The service\<close>

record ('app, 'k) no_service =
  sv_group :: "'app no_system"
  sv_client :: "'k nopaxos_client"

definition asked :: "'k nopaxos_client \<Rightarrow> Request list" where
  "asked s = concat (map (\<lambda>e. case e of
     NCSendToSequencer (NRequest m) \<Rightarrow> [rq_req m] | NCSendToMulticast (NRequest m) \<Rightarrow> [rq_req m] | _ \<Rightarrow> []) (nc_effects s))"

datatype 'k sv_action = InGroup no_action | AtClient "'k nc_event"

text \<open>Request numbers are not reused: the client is not asked for more than \<open>2 ^ 64 - 1\<close> of them.\<close>

fun sv_allowed :: "'app no_env \<Rightarrow> TransportAddress \<Rightarrow> ('app, 'k) no_service \<Rightarrow> 'k sv_action \<Rightarrow> bool" where
  "sv_allowed c x S (InGroup act) =
     (no_allowed stays_in_view (sv_group S) act \<and>
      (case act of Stamp r \<Rightarrow> req_addr c r = x \<longrightarrow> r \<in> set (asked (sv_client S)) | At i ev \<Rightarrow> True))"
| "sv_allowed c x S (AtClient (NCReceive (NReply m))) =
     (\<exists>s \<in> set (ns_replicas (sv_group S)). NSendToClient x (NReply m) \<in> set (np_sent s))"
| "sv_allowed c x S (AtClient (NCInvoke r k)) = (nc_lastReqID (sv_client S) < - 1)"
| "sv_allowed c x S (AtClient (NCInvokeUnlogged i r k t to)) = (nc_lastReqID (sv_client S) < - 1)"
| "sv_allowed c x S (AtClient ev) = True"

fun sv_act :: "'app no_env \<Rightarrow> nc_env \<Rightarrow> 'k sv_action \<Rightarrow> ('app, 'k) no_service \<Rightarrow> ('app, 'k) no_service result" where
  "sv_act c d (InGroup act) S = bind_r (no_act c act (sv_group S)) (\<lambda>G. Inr (S\<lparr>sv_group := G\<rparr>))"
| "sv_act c d (AtClient ev) S = bind_r (nc_step d ev (sv_client S)) (\<lambda>s. Inr (S\<lparr>sv_client := s\<rparr>))"

inductive sv_reach :: "'app no_env \<Rightarrow> nc_env \<Rightarrow> TransportAddress \<Rightarrow> 'app \<Rightarrow> ('app, 'k) no_service \<Rightarrow> bool"
  for c d x a where
  start: "no_initial c a G \<Longrightarrow> sv_reach c d x a \<lparr>sv_group = G, sv_client = NOPaxosClient_new d cid\<rparr>"
| action: "sv_reach c d x a S \<Longrightarrow> sv_allowed c x S y \<Longrightarrow> sv_act c d y S = Inr S' \<Longrightarrow> sv_reach c d x a S'"

section \<open>The invariant\<close>

lemma reply_ok_grow:
  "grow g g' \<Longrightarrow> lo \<le> lo' \<Longrightarrow> reply_ok c g i lo a m \<Longrightarrow> reply_ok c g' i lo' a m"
  by (auto simp: reply_ok_def intro: grow_req grow_slot)

text \<open>A recorded answer: from replica \<open>j\<close>, to the pending request.\<close>

definition vote_ok :: "'app no_env \<Rightarrow> TransportAddress \<Rightarrow> 'app no_system \<Rightarrow> 'k nopaxos_client \<Rightarrow> int \<Rightarrow> NOReplyMessage \<Rightarrow> bool" where
  "vote_ok c x G s j m \<longleftrightarrow>
     (\<exists>p. nc_pendingRequest s = Some p \<and> nrp_clientreqid m = pr_clientReqId p) \<and>
     (\<exists>i < length (ns_replicas G). j = int i \<and> reply_ok c (ghost G) i (np_lastOp (ns_replicas G ! i)) x m)"

definition client_fits :: "'app no_env \<Rightarrow> TransportAddress \<Rightarrow> 'app no_system \<Rightarrow> 'k nopaxos_client \<Rightarrow> bool" where
  "client_fits c x G s \<longleftrightarrow>
     QS_ok (nc_replyQuorum s) \<and> (\<forall>key j m. QS_votes (nc_replyQuorum s) key j = Some m \<longrightarrow> vote_ok c x G s j m) \<and>
     (\<forall>r \<in> set (ns_stamped G). req_addr c r = x \<longrightarrow> r \<in> set (asked s)) \<and>
     (\<forall>r \<in> set (asked s). clientreqid r \<le> nc_lastReqID s) \<and>
     (\<forall>p. nc_pendingRequest s = Some p \<longrightarrow> pr_clientReqId p \<le> nc_lastReqID s \<and>
        (\<forall>r \<in> set (asked s). clientreqid r = pr_clientReqId p \<longrightarrow> op r = pr_request p))"

lemma client_fits_group:
  assumes fits: "client_fits c x G s" and adv: "no_advances G G'"
    and st: "\<forall>r \<in> set (ns_stamped G'). req_addr c r = x \<longrightarrow> r \<in> set (asked s)"
  shows "client_fits c x G' s"
proof -
  have "vote_ok c x G' s j m" if "vote_ok c x G s j m" for j m
    using that adv reply_ok_grow [of "ghost G" "ghost G'"] unfolding vote_ok_def no_advances_def by metis
  then show ?thesis using fits st unfolding client_fits_def by blast
qed

lemma asked_simps [simp]:
  "asked (s\<lparr>nc_requestTimeout := t\<rparr>) = asked s" "asked (s\<lparr>nc_lastReqID := n\<rparr>) = asked s"
  "asked (s\<lparr>nc_pendingRequest := p\<rparr>) = asked s" "asked (s\<lparr>nc_pendingUnlogged := p\<rparr>) = asked s"
  "asked (s\<lparr>nc_unloggedRequestTimeout := t\<rparr>) = asked s" "asked (s\<lparr>nc_replyQuorum := q\<rparr>) = asked s"
  "asked (nc_emit (NCSendToSequencer (NRequest m)) s) = asked s @ [rq_req m]"
  "asked (nc_emit (NCSendToMulticast (NRequest m)) s) = asked s @ [rq_req m]"
  "asked (nc_emit (NCSendToReplica i m') s) = asked s"
  "asked (nc_emit (NCContinuation k b b') s) = asked s" "asked (nc_emit (NCTimeoutContinuation k b) s) = asked s"
  by (simp_all add: asked_def nc_emit_def)

lemma nc_emit_sel [simp]:
  "nc_lastReqID (nc_emit e s) = nc_lastReqID s" "nc_pendingRequest (nc_emit e s) = nc_pendingRequest s"
  "nc_replyQuorum (nc_emit e s) = nc_replyQuorum s"
  by (simp_all add: nc_emit_def)

lemma vote_ok_cong: "nc_pendingRequest t = nc_pendingRequest s \<Longrightarrow> vote_ok c x G t = vote_ok c x G s"
  by (simp add: vote_ok_def fun_eq_iff)

lemma client_fits_cong:
  assumes fits: "client_fits c x G s" and q: "nc_replyQuorum t = nc_replyQuorum s"
    and p: "nc_pendingRequest t = nc_pendingRequest s" and a: "asked t = asked s" and last: "nc_lastReqID s \<le> nc_lastReqID t"
  shows "client_fits c x G t"
  using fits order_trans [OF _ last] unfolding client_fits_def q p a vote_ok_cong [OF p] by blast

lemma client_fits_SendRequest:
  assumes fits: "client_fits c x G s"
  shows "post (nc_SendRequest d s) (client_fits c x G)"
proof -
  have "client_fits c x G t" if p: "nc_pendingRequest s = Some p" and
      t: "nc_replyQuorum t = nc_replyQuorum s" "nc_pendingRequest t = nc_pendingRequest s" "nc_lastReqID t = nc_lastReqID s"
        "asked t = asked s @ [r]" and r: "op r = pr_request p" "clientreqid r = pr_clientReqId p" for t p r
    using fits p r unfolding client_fits_def t(1,3,4) vote_ok_cong [OF t(2)] unfolding t(2) by auto
  then show ?thesis by (auto simp: nc_SendRequest_def post_deref Let_def)
qed

lemma client_fits_Invoke:
  assumes fits: "client_fits c x G s" and last: "nc_lastReqID s < - 1"
  shows "post (nc_Invoke d r k s) (client_fits c x G)"
proof -
  let ?n = "nc_lastReqID s + 1"
  let ?p = "\<lparr>pr_request = r, pr_clientReqId = ?n, pr_continuation = k, pr_timeoutContinuation = None\<rparr>"
  let ?t = "s\<lparr>nc_lastReqID := ?n, nc_pendingRequest := Some ?p\<rparr>"
  have "?n \<noteq> 0" using last by (metis eq_neg_iff_add_eq_0 less_irrefl)
  then have n: "nc_lastReqID s < ?n" by (rule word_less_succ)
  have "client_fits c x G ?t" if none: "nc_pendingRequest s = None"
  proof -
    have "\<not> vote_ok c x G s j m" for j m using none by (simp add: vote_ok_def)
    moreover have "clientreqid r < ?n" if "r \<in> set (asked s)" for r
      using fits that n by (auto simp: client_fits_def intro: le_less_trans)
    ultimately show ?thesis using fits by (fastforce simp: client_fits_def)
  qed
  then show ?thesis
    by (auto simp: nc_Invoke_def Let_def post_if intro: client_fits_SendRequest)
qed

lemma client_fits_InvokeUnlogged:
  assumes "client_fits c x G s" and last: "nc_lastReqID s < - 1"
  shows "post (nc_InvokeUnlogged d i r k t to s) (client_fits c x G)"
proof -
  have "nc_lastReqID s + 1 \<noteq> 0" using last by (metis eq_neg_iff_add_eq_0 less_irrefl)
  then have n: "nc_lastReqID s \<le> nc_lastReqID s + 1" using word_less_succ less_imp_le by blast
  show ?thesis
    using n by (auto simp: nc_InvokeUnlogged_def Let_def post_if post_assert post_bind
        intro!: post_mono [OF post_True] client_fits_cong [OF assms(1)])
qed

lemma client_fits_unlogged:
  assumes "client_fits c x G s"
  shows "post (nc_HandleUnloggedReply b s) (client_fits c x G)"
    and "post (nc_UnloggedRequestTimeoutCallback s) (client_fits c x G)"
  by (auto simp: nc_HandleUnloggedReply_def nc_UnloggedRequestTimeoutCallback_def nc_call_def Let_def post_deref
      split: option.split intro!: client_fits_cong [OF assms])

section \<open>Answers\<close>

lemma client_fits_HandleReply:
  fixes s :: "'k nopaxos_client"
  assumes fits: "client_fits c x G s" and i: "i < length (ns_replicas G)"
    and ok: "reply_ok c (ghost G) i (np_lastOp (ns_replicas G ! i)) x m"
  shows "post (nc_HandleReply d m s) (client_fits c x G)"
proof (cases "nc_pendingRequest s")
  case None
  then show ?thesis using fits by (simp add: nc_HandleReply_def)
next
  case (Some p)
  have Q: "QS_ok (nc_replyQuorum s)" using fits by (simp add: client_fits_def)
  have j: "int_of_u32 (nrp_replicaidx m) = int i" using ok by (simp add: reply_ok_def)
  show ?thesis
  proof (rule post_mono [OF nc_HandleReply_completes [OF Q Some]], elim disjE conjE exE)
    fix s' :: "'k nopaxos_client"
    assume s': "nc_pendingRequest s' = Some p" "nc_lastReqID s' = nc_lastReqID s" "nc_effects s' = nc_effects s"
      "nc_replyQuorum s' = nc_replyQuorum s"
    then show "client_fits c x G s'"
      by (intro client_fits_cong [OF fits]) (simp_all add: Some asked_def)
  next
    fix s' :: "'k nopaxos_client"
    assume s': "nc_pendingRequest s' = Some p" "nc_lastReqID s' = nc_lastReqID s" "nc_effects s' = nc_effects s"
      "nrp_clientreqid m = pr_clientReqId p"
      "nc_replyQuorum s' = QS_Add (int_of_u64 (pr_clientReqId p)) (int_of_u32 (nrp_replicaidx m)) m (nc_replyQuorum s)"
    have p: "nc_pendingRequest s' = nc_pendingRequest s" and a: "asked s' = asked s"
      using s'(1,3) Some by (simp_all add: asked_def)
    have "vote_ok c x G s (int i) m" using Some s'(4) i ok by (auto simp: vote_ok_def)
    then have "vote_ok c x G s j' m'" if "QS_votes (nc_replyQuorum s') key j' = Some m'" for key j' m'
      using that fits unfolding s'(5) j
      by (auto simp: QS_votes_def sm.get_put client_fits_def split: if_splits)
    moreover have "QS_ok (nc_replyQuorum s')" unfolding s'(5) by (rule QS_ok_Add [OF Q])
    ultimately show "client_fits c x G s'"
      using fits unfolding client_fits_def a s'(2) vote_ok_cong [OF p] unfolding p by blast
  next
    fix s' :: "'k nopaxos_client" and idx lm k b
    assume s': "nc_pendingRequest s' = None" "nc_lastReqID s' = nc_lastReqID s"
      "nc_replyQuorum s' = QS_ClearAll (nc_replyQuorum s)"
      and eff: "let votes = (QS_votes (nc_replyQuorum s) (int_of_u64 (pr_clientReqId p)))
           (int_of_u32 (nrp_replicaidx m) \<mapsto> m)
         in votes idx = Some lm \<and> nc_IsLeader d (nrp_view lm) idx \<and>
            QuorumSize (nc_config d) \<le> int (card {j. \<exists>m. votes j = Some m \<and> nc_matches lm m}) \<and>
            nc_effects s' = nc_effects s @ [NCContinuation k (pr_request p) b] \<and>
            (\<not> nc_nassert d \<longrightarrow> nrp_reply lm = Some b)"
    from eff have "asked s' = asked s" by (simp add: asked_def Let_def)
    then show "client_fits c x G s'" using fits s' by (simp add: client_fits_def QS_votes_def)
  qed
qed

definition sv_inv :: "'app no_env \<Rightarrow> TransportAddress \<Rightarrow> ('app, 'k) no_service \<Rightarrow> bool" where
  "sv_inv c x S \<longleftrightarrow> no_inv c (sv_group S) \<and> client_fits c x (sv_group S) (sv_client S)"

lemma sent_by:
  "sv_allowed c x S (AtClient (NCReceive (NReply m))) \<Longrightarrow>
   \<exists>i < length (ns_replicas (sv_group S)). NSendToClient x (NReply m) \<in> set (np_sent (ns_replicas (sv_group S) ! i))"
  by (metis in_set_conv_nth sv_allowed.simps(2))

lemma sv_inv_client:
  assumes inv: "sv_inv c x S" and ok: "sv_allowed c x S (AtClient ev)"
  shows "post (nc_step d ev (sv_client S)) (client_fits c x (sv_group S))"
proof -
  have fits: "client_fits c x (sv_group S) (sv_client S)" and grp: "no_inv c (sv_group S)"
    using inv by (simp_all add: sv_inv_def)
  show ?thesis
  proof (cases ev)
    case (NCReceive m)
    show ?thesis
    proof (cases m)
      case (NReply r)
      with NCReceive ok obtain i where "i < length (ns_replicas (sv_group S))"
          "NSendToClient x (NReply r) \<in> set (np_sent (ns_replicas (sv_group S) ! i))"
        by (auto simp del: sv_allowed.simps dest: sent_by)
      then show ?thesis
        using client_fits_HandleReply [OF fits _ sent_reply_ok [OF grp]] NCReceive NReply by simp
    qed (use NCReceive client_fits_unlogged [OF fits] in simp_all)
  qed (use ok fits client_fits_Invoke [OF fits] client_fits_InvokeUnlogged [OF fits] client_fits_unlogged [OF fits]
      client_fits_SendRequest [OF fits] in \<open>auto simp: post_if nc_ResendRequest_def\<close>)
qed

lemma sv_inv_group:
  assumes inv: "sv_inv c x S" and chk: "\<not> nassert c" and n: "num_replicas (ne_config c) < 2 ^ 31"
    and ok: "sv_allowed c x S (InGroup act)" and act: "no_act c act (sv_group S) = Inr G"
  shows "sv_inv c x (S\<lparr>sv_group := G\<rparr>)"
proof -
  have grp: "no_inv c (sv_group S)" and fits: "client_fits c x (sv_group S) (sv_client S)"
    using inv by (simp_all add: sv_inv_def)
  have al: "no_allowed stays_in_view (sv_group S) act" using ok by simp
  note step = no_inv_act [OF grp chk n al act]
  have "\<forall>r \<in> set (ns_stamped G). req_addr c r = x \<longrightarrow> r \<in> set (asked (sv_client S))"
    using fits ok act by (cases act) (auto simp: client_fits_def bind_r_Inr)
  from client_fits_group [OF fits step(2) this] step(1) show ?thesis by (simp add: sv_inv_def)
qed

lemma sv_inv_start:
  assumes "no_initial c a G" and "\<not> nassert c" and "0 < num_replicas (ne_config c)" and "num_replicas (ne_config c) < 2 ^ 31"
  shows "sv_inv c x \<lparr>sv_group = G, sv_client = NOPaxosClient_new d cid\<rparr>"
  using no_inv_initial [OF assms] assms(1)
  by (simp add: sv_inv_def client_fits_def NOPaxosClient_new_def QS_votes_def asked_def no_initial_def)

lemma sv_reach_inv:
  assumes "sv_reach c d x a S" and chk: "\<not> nassert c" and n: "0 < num_replicas (ne_config c)" "num_replicas (ne_config c) < 2 ^ 31"
  shows "sv_inv c x S"
  using assms(1)
proof (induction rule: sv_reach.induct)
  case (start G cid)
  from this chk n show ?case by (rule sv_inv_start)
next
  case (action S y S')
  show ?case
  proof (cases y)
    case (InGroup act)
    with action.hyps(3) obtain G where "no_act c act (sv_group S) = Inr G" "S' = S\<lparr>sv_group := G\<rparr>"
      by (auto simp: bind_r_Inr)
    then show ?thesis using sv_inv_group [OF action.IH chk n(2)] action.hyps(2) InGroup by simp
  next
    case (AtClient ev)
    with action.hyps(3) obtain s where "nc_step d ev (sv_client S) = Inr s" "S' = S\<lparr>sv_client := s\<rparr>"
      by (auto simp: bind_r_Inr)
    then show ?thesis
      using sv_inv_client [OF action.IH, of ev d] action.hyps(2) AtClient action.IH by (simp add: sv_inv_def post_def)
  qed
qed

text \<open>The replicas that hold request \<open>r\<close> in slot \<open>k\<close>.\<close>

definition holders :: "'app no_system \<Rightarrow> nat \<Rightarrow> Request \<Rightarrow> nat set" where
  "holders G k r = {j. j < length (ns_replicas G) \<and> slot (np_log (ns_replicas G ! j)) k = Some (Some r)}"


section \<open>A run\<close>

text \<open>The client asks for operation \<open>a\<close>; replicas 0 and 2 get it and answer, and both answers arrive.\<close>

definition nc_env3 :: nc_env where
  "nc_env3 = \<lparr>nc_nassert = False, nc_config = conf3, nc_node_addr = \<lparr>host = ''h'', port = ''p'', dev = ''d''\<rparr>\<rparr>"

fun sv_run :: "'app no_env \<Rightarrow> nc_env \<Rightarrow> TransportAddress \<Rightarrow> 'k sv_action list \<Rightarrow> ('app, 'k) no_service \<Rightarrow> ('app, 'k) no_service option" where
  "sv_run c d x [] S = Some S"
| "sv_run c d x (y # ys) S =
     (if sv_allowed c x S y then case sv_act c d y S of Inl e \<Rightarrow> None | Inr S' \<Rightarrow> sv_run c d x ys S' else None)"

lemma sv_run_reach: "sv_reach c d x a S \<Longrightarrow> sv_run c d x ys S = Some S' \<Longrightarrow> sv_reach c d x a S'"
  by (induction ys arbitrary: S) (auto split: if_splits sum.splits intro: sv_reach.action)

definition asked_a :: Request where
  "asked_a = \<lparr>op = ''a'', clientid = 7, clientreqid = 1, ops = [], req_sessnum = None,
     clientaddr = Some (Serialize (nc_node_addr nc_env3))\<rparr>"

definition answer_from :: "u32 \<Rightarrow> bytes option \<Rightarrow> NOReplyMessage" where
  "answer_from i b = NOReplyMessage 0 0 1 1 i b"

definition answered_by_two :: "unit sv_action list" where
  "answered_by_two =
     [AtClient (NCInvoke ''a'' (Some ())), InGroup (Stamp asked_a),
      InGroup (At 0 (NDeliver 100 (NRequest (NORequestMessage 0 1 asked_a)))),
      InGroup (At 2 (NDeliver 100 (NRequest (NORequestMessage 0 1 asked_a)))),
      AtClient (NCReceive (NReply (answer_from 2 None)))]"

definition sv_start3 :: "(unit, unit) no_service" where
  "sv_start3 = \<lparr>sv_group = no_start3 False, sv_client = NOPaxosClient_new nc_env3 7\<rparr>"

definition invoked_a :: "unit PendingRequest" where
  "invoked_a = \<lparr>pr_request = ''a'', pr_clientReqId = 1, pr_continuation = Some (), pr_timeoutContinuation = None\<rparr>"

lemma answered_by_two_outcome:
  "map_option (\<lambda>S. (nc_pendingRequest (sv_client S),
      sv_allowed (no_env3 False) 100 S (AtClient (NCReceive (NReply (answer_from 0 (Some ''''))))),
      map_sum id nc_pendingRequest (nc_HandleReply nc_env3 (answer_from 0 (Some '''')) (sv_client S))))
    (sv_run (no_env3 False) nc_env3 100 answered_by_two sv_start3) = Some (Some invoked_a, True, Inr None)"
  by code_simp


end
