(* ===== verification/FPReplica.thy ===== *)
theory FPReplica
  imports Configuration QuorumSets Transport
begin

text \<open>
  \<open>src/replication/fastpaxos/replica.h\<close>, \<open>replica.cc\<close> and \<open>fastpaxos-proto.proto\<close>: a Fast Paxos
  replica. A client sends its request to all replicas; a follower logs it at once, under the next
  number it has free (the fast path), and the leader commits it when a fast quorum has logged the
  same, or else after one more round with the order it has chosen (the slow path). There is no view
  change in the code. One definition per function, in the order of the code; what a replica sends
  and the upcalls it makes are appended to \<open>fp_sent\<close>.
\<close>

section \<open>Messages\<close>

datatype FPReplyMessage = FPReplyMessage
  (frp_view: view_t) (frp_opnum: opnum_t) (frp_reply: bytes) (frp_clientreqid: u64)

datatype FPToClientMessage =
    FPClientMsgNotSet
  | FPReply FPReplyMessage
  | FPUnloggedReply bytes

datatype FPPrepareOKMessage = FPPrepareOKMessage
  (fok_view: view_t) (fok_opnum: opnum_t) (fok_replicaIdx: u32) (fok_req: Request) (fok_slowpath: u32)

datatype FPPrepareMessage = FPPrepareMessage
  (fpr_view: view_t) (fpr_opnum: opnum_t) (fpr_req: Request)

datatype FPCommitMessage = FPCommitMessage
  (fc_view: view_t) (fc_opnum: opnum_t) (fc_req: Request)

datatype FPRequestStateTransferMessage = FPRequestStateTransferMessage
  (frt_view: view_t) (frt_opnum: opnum_t)

datatype FPStateTransferMessage = FPStateTransferMessage
  (fst_view: view_t) (fst_opnum: opnum_t) (fst_entries: "MsgLogEntry list") (fst_lastop: opnum_t)

datatype FPToReplicaMessage =
    FPReplicaMsgNotSet
  | FPRequest Request
  | FPUnloggedRequest UnloggedRequest
  | FPPrepare FPPrepareMessage
  | FPPrepareOK FPPrepareOKMessage
  | FPCommit FPCommitMessage
  | FPRequestStateTransfer FPRequestStateTransferMessage
  | FPStateTransfer FPStateTransferMessage

datatype fp_effect =
    FSendToAll FPToReplicaMessage
  | FSendToReplica int FPToReplicaMessage
  | FSend TransportAddress FPToReplicaMessage
  | FSendToClient TransportAddress FPToClientMessage
  | FExecuted opnum_t bytes

section \<open>The surroundings and the state of a replica\<close>

record 'app fp_env = log_env +
  fe_config :: Configuration
  fe_idx :: int
  fe_app_code :: "'app AppReplica"

record FPClientTableEntry =
  fct_lastReqId :: u64
  fct_replied :: bool
  fct_reply :: FPToClientMessage

record 'app fp_replica =
  fp_status :: ReplicaStatus
  fp_view :: view_t
  fp_lastCommitted :: opnum_t
  fp_lastFastPath :: opnum_t
  fp_lastSlowPath :: opnum_t
  fp_lastRequestStateTransferView :: view_t
  fp_lastRequestStateTransferOpnum :: opnum_t
  fp_pendingPrepares :: "(TransportAddress \<times> FPPrepareMessage) list"
  fp_pendingPrepareOKs :: "(TransportAddress \<times> FPPrepareOKMessage) list"
  fp_lastPrepare :: FPToReplicaMessage
  fp_log :: Log
  fp_clientAddresses :: "u64 \<rightharpoonup> TransportAddress"
  fp_clientTable :: "u64 \<rightharpoonup> FPClientTableEntry"
  fp_slowPrepareOKQuorum :: "(viewstamp_t, FPPrepareOKMessage) QuorumSet"
  fp_fastPrepareOKQuorum :: "(viewstamp_t, FPPrepareOKMessage) QuorumSet"
  fp_stateTransferTimeout :: Timeout
  fp_resendPrepareTimeout :: Timeout
  fp_app :: 'app
  fp_sent :: "fp_effect list"

definition fp_client_entry :: "(u64 \<rightharpoonup> FPClientTableEntry) \<Rightarrow> u64 \<Rightarrow> FPClientTableEntry" where
  "fp_client_entry ct cid =
     (case ct cid of
        None \<Rightarrow> \<lparr>fct_lastReqId = 0, fct_replied = False, fct_reply = FPClientMsgNotSet\<rparr>
      | Some e \<Rightarrow> e)"

definition fp_emit :: "fp_effect \<Rightarrow> 'app fp_replica \<Rightarrow> 'app fp_replica" where
  "fp_emit e s = s\<lparr>fp_sent := fp_sent s @ [e]\<rparr>"

definition fe_u32 :: "'app fp_env \<Rightarrow> u32" where
  "fe_u32 c = word_of_int (fe_idx c)"

definition fp_to_leader :: "'app fp_env \<Rightarrow> FPToReplicaMessage \<Rightarrow> 'app fp_replica \<Rightarrow> 'app fp_replica" where
  "fp_to_leader c m s = fp_emit (FSendToReplica (GetLeaderIndex (fe_config c) (fp_view s)) m) s"

section \<open>Committing\<close>

definition fp_AmLeader :: "'app fp_env \<Rightarrow> 'app fp_replica \<Rightarrow> bool" where
  "fp_AmLeader c s = (GetLeaderIndex (fe_config c) (fp_view s) = fe_idx c)"

text \<open>The body of the loop of \<open>CommitUpTo\<close>.\<close>

definition fp_CommitNext :: "'app fp_env \<Rightarrow> 'app fp_replica \<Rightarrow> 'app fp_replica result" where
  "fp_CommitNext c s0 =
     (let s = s0\<lparr>fp_lastCommitted := fp_lastCommitted s0 + 1\<rparr>
      in bind_r (Find c (fp_lastCommitted s) (fp_log s)) (\<lambda>found.
        case found of
          None \<Rightarrow> Inl Panicked
        | Some entry \<Rightarrow>
            let req = request entry;
                (res, a) = Execute (fe_app_code c) (fp_lastCommitted s) req None (fp_app s);
                s1 = fp_emit (FExecuted (fp_lastCommitted s) (op req)) (s\<lparr>fp_app := a\<rparr>);
                m = FPReply (FPReplyMessage (vs_view (viewstamp entry)) (vs_opnum (viewstamp entry))
                               res (clientreqid req))
            in bind_r (SetStatus c (fp_lastCommitted s1) LOG_STATE_COMMITTED (fp_log s1)) (\<lambda>(_, l).
              let s2 = s1\<lparr>fp_log := l\<rparr>;
                  cte = fp_client_entry (fp_clientTable s2) (clientid req);
                  cte' = (if fct_lastReqId cte \<le> clientreqid req
                          then cte\<lparr>fct_lastReqId := clientreqid req, fct_replied := True, fct_reply := m\<rparr>
                          else cte);
                  s3 = s2\<lparr>fp_clientTable := (fp_clientTable s2)(clientid req \<mapsto> cte')\<rparr>
              in Inr (case fp_clientAddresses s3 (clientid req) of
                        None \<Rightarrow> s3 | Some addr \<Rightarrow> fp_emit (FSendToClient addr m) s3))))"

lemma fp_CommitNext_lastCommitted:
  assumes "fp_CommitNext c s = Inr s'"
  shows "fp_lastCommitted s' = fp_lastCommitted s + 1"
proof -
  have "post (fp_CommitNext c s) (\<lambda>s'. fp_lastCommitted s' = fp_lastCommitted s + 1)"
    by (rule postI)
      (auto simp: fp_CommitNext_def fp_emit_def Let_def bind_r_Inr case_prod_beta split: option.splits)
  with assms show ?thesis by simp
qed

function fp_CommitLoop :: "'app fp_env \<Rightarrow> opnum_t \<Rightarrow> 'app fp_replica \<Rightarrow> 'app fp_replica result" where
  "fp_CommitLoop c upTo s =
     (if fp_lastCommitted s < upTo then bind_r (fp_CommitNext c s) (fp_CommitLoop c upTo) else Inr s)"
  by pat_completeness auto
termination
  by (relation "measure (\<lambda>(c, upTo, s). unat upTo - unat (fp_lastCommitted s))")
    (auto dest: fp_CommitNext_lastCommitted simp: unat_less_succ word_less_nat_alt)

declare fp_CommitLoop.simps [simp del]

definition fp_CommitUpTo :: "'app fp_env \<Rightarrow> opnum_t \<Rightarrow> 'app fp_replica \<Rightarrow> 'app fp_replica result" where
  "fp_CommitUpTo c upTo s0 =
     bind_r (fp_CommitLoop c upTo s0) (\<lambda>s.
       let s1 = (if fp_lastSlowPath s < fp_lastCommitted s
                 then s\<lparr>fp_lastSlowPath := fp_lastCommitted s\<rparr> else s)
       in assert_r (nassert c) (fp_lastFastPath s1 \<ge> fp_lastCommitted s1) (Inr s1))"

definition fp_UpdateClientTable :: "Request \<Rightarrow> 'app fp_replica \<Rightarrow> 'app fp_replica" where
  "fp_UpdateClientTable req s =
     (let entry = fp_client_entry (fp_clientTable s) (clientid req);
          entry' = (if fct_lastReqId entry \<ge> clientreqid req then entry
                    else entry\<lparr>fct_lastReqId := clientreqid req, fct_replied := False,
                               fct_reply := FPClientMsgNotSet\<rparr>)
      in s\<lparr>fp_clientTable := (fp_clientTable s)(clientid req \<mapsto> entry')\<rparr>)"

text \<open>The body of the loop of \<open>SendPrepareOKs\<close>.\<close>

definition fp_SendPrepareOK_for :: "'app fp_env \<Rightarrow> opnum_t \<Rightarrow> 'app fp_replica \<Rightarrow> 'app fp_replica result" where
  "fp_SendPrepareOK_for c i s =
     (if i \<le> fp_lastCommitted s then Inr s
      else bind_r (Find c i (fp_log s)) (\<lambda>found.
        case found of
          None \<Rightarrow> Inl Panicked
        | Some entry \<Rightarrow>
            assert_r (nassert c) (state entry = LOG_STATE_PREPARED)
              (let s1 = fp_UpdateClientTable (request entry) s
               in Inr (fp_to_leader c (FPPrepareOK (FPPrepareOKMessage (fp_view s1) i (fe_u32 c) (request entry) 1)) s1))))"

definition fp_SendPrepareOKs :: "'app fp_env \<Rightarrow> opnum_t \<Rightarrow> 'app fp_replica \<Rightarrow> 'app fp_replica result" where
  "fp_SendPrepareOKs c oldLastOp s = fold_r (fp_SendPrepareOK_for c) (op_range oldLastOp (fp_lastSlowPath s)) s"

definition fp_RequestStateTransfer :: "'app fp_replica \<Rightarrow> 'app fp_replica" where
  "fp_RequestStateTransfer s =
     (let m = FPRequestStateTransfer (FPRequestStateTransferMessage (fp_view s) (fp_lastCommitted s))
      in if fp_lastRequestStateTransferOpnum s \<noteq> 0 \<and>
            fp_lastRequestStateTransferView s = fp_view s \<and>
            fp_lastRequestStateTransferOpnum s = fp_lastCommitted s
         then s
         else fp_emit (FSendToAll m)
                (s\<lparr>fp_lastRequestStateTransferView := fp_view s,
                   fp_lastRequestStateTransferOpnum := fp_lastCommitted s\<rparr>))"

definition fp_EnterView :: "view_t \<Rightarrow> 'app fp_replica \<Rightarrow> 'app fp_replica" where
  "fp_EnterView newview s =
     s\<lparr>fp_view := newview, fp_status := STATUS_NORMAL,
       fp_fastPrepareOKQuorum := QS_ClearAll (fp_fastPrepareOKQuorum s),
       fp_slowPrepareOKQuorum := QS_ClearAll (fp_slowPrepareOKQuorum s)\<rparr>"

definition fp_ResendPrepare :: "'app fp_env \<Rightarrow> 'app fp_replica \<Rightarrow> 'app fp_replica result" where
  "fp_ResendPrepare c s =
     assert_r (nassert c) (fp_AmLeader c s)
       (if fp_lastSlowPath s = fp_lastCommitted s then Inr s
        else Inr (fp_emit (FSendToAll (fp_lastPrepare s))
          (s\<lparr>fp_resendPrepareTimeout := Timeout_Reset (fp_resendPrepareTimeout s)\<rparr>)))"

section \<open>Accepting operations\<close>

text \<open>\<open>log.Append(new LogEntry(viewstamp_t(v, opn), LOG_STATE_PREPARED, req))\<close>\<close>

definition fp_Append :: "'app fp_env \<Rightarrow> view_t \<Rightarrow> opnum_t \<Rightarrow> Request \<Rightarrow> 'app fp_replica \<Rightarrow> 'app fp_replica result" where
  "fp_Append c v opn req s =
     bind_r (Append c (mk_LogEntry (viewstamp2 v opn) LOG_STATE_PREPARED req) (fp_log s)) (\<lambda>l.
       Inr (s\<lparr>fp_log := l\<rparr>))"

text \<open>
  The replacement of a fast-path entry: \<open>Find\<close>, its two assertions, and \<open>log.SetRequest\<close>, whose
  result is not used.
\<close>

definition fp_Replace :: "'app fp_env \<Rightarrow> opnum_t \<Rightarrow> Request \<Rightarrow> 'app fp_replica \<Rightarrow> 'app fp_replica result" where
  "fp_Replace c opn req s =
     bind_r (Find c opn (fp_log s)) (\<lambda>entry.
       assert_r (nassert c) (entry \<noteq> None)
         (assert_r (nassert c) (case entry of None \<Rightarrow> False | Some e \<Rightarrow> state e = LOG_STATE_PREPARED)
           (bind_r (SetRequest c opn req (fp_log s)) (\<lambda>(_, l). Inr (s\<lparr>fp_log := l\<rparr>)))))"

definition fp_HandlePrepareOK ::
  "'app fp_env \<Rightarrow> TransportAddress \<Rightarrow> FPPrepareOKMessage \<Rightarrow> 'app fp_replica \<Rightarrow> 'app fp_replica result" where
  "fp_HandlePrepareOK c remote msg s0 =
     (if fp_status s0 \<noteq> STATUS_NORMAL then Inr s0
      else if fok_view msg < fp_view s0 then Inr s0
      else if fok_view msg > fp_view s0 then Inr (fp_RequestStateTransfer s0)
      else if \<not> fp_AmLeader c s0 then Inr s0
      else if fok_opnum msg \<le> fp_lastCommitted s0 then Inr s0
      else if fok_opnum msg > fp_lastSlowPath s0 then
        Inr (s0\<lparr>fp_pendingPrepareOKs := fp_pendingPrepareOKs s0 @ [(remote, msg)]\<rparr>)
      else bind_r (Find c (fok_opnum msg) (fp_log s0)) (\<lambda>found.
        assert_r (nassert c) (found \<noteq> None)
        (assert_r (nassert c) (case found of None \<Rightarrow> False | Some entry \<Rightarrow> state entry = LOG_STATE_PREPARED)
          (bind_r (if fok_slowpath msg \<noteq> 0 then Inr False
                   else deref_r found (\<lambda>entry. Inr (clientid (request entry) \<noteq> clientid (fok_req msg) \<or>
                          clientreqid (request entry) \<noteq> clientreqid (fok_req msg)))) (\<lambda>conflict.
             if conflict then fp_ResendPrepare c s0
             else
               let slow = (fok_slowpath msg \<noteq> 0);
                   quorum = (if slow then fp_slowPrepareOKQuorum s0 else fp_fastPrepareOKQuorum s0);
                   vs = viewstamp2 (fok_view msg) (fok_opnum msg);
                   (msgs, q) = QS_AddAndCheckForQuorum vs (int_of_u32 (fok_replicaIdx msg)) msg quorum;
                   s = (if slow then s0\<lparr>fp_slowPrepareOKQuorum := q\<rparr> else s0\<lparr>fp_fastPrepareOKQuorum := q\<rparr>)
               in case msgs of
                    None \<Rightarrow> Inr s
                  | Some ms \<Rightarrow>
                      bind_r (fp_CommitUpTo c (fok_opnum msg) s) (\<lambda>s1.
                        if int (length ms) > uint (word_of_int (QS_NumRequired q) :: u32) then Inr s1
                        else deref_r found (\<lambda>entry. Inr (fp_emit (FSendToAll (FPCommit
                               (FPCommitMessage (fp_view s1) (fp_lastCommitted s1) (request entry)))) s1))))))))"

text \<open>The end of \<open>HandleRequest\<close>: what the leader and what a follower does with the logged request.\<close>

definition fp_LeaderLogged :: "'app fp_env \<Rightarrow> viewstamp_t \<Rightarrow> Request \<Rightarrow> 'app fp_replica \<Rightarrow> 'app fp_replica result" where
  "fp_LeaderLogged c v req s0 =
     (let s = s0\<lparr>fp_lastPrepare := FPPrepare (FPPrepareMessage (vs_view v) (vs_opnum v) req),
                 fp_resendPrepareTimeout := Timeout_Reset (fp_resendPrepareTimeout s0)\<rparr>;
          pending = fp_pendingPrepareOKs s
      in fold_r (\<lambda>(remote, msg). fp_HandlePrepareOK c remote msg) pending (s\<lparr>fp_pendingPrepareOKs := []\<rparr>))"

definition fp_FollowerLogged :: "'app fp_env \<Rightarrow> viewstamp_t \<Rightarrow> Request \<Rightarrow> 'app fp_replica \<Rightarrow> 'app fp_replica result" where
  "fp_FollowerLogged c v req s =
     Inr (fp_to_leader c (FPPrepareOK (FPPrepareOKMessage (vs_view v) (vs_opnum v) (fe_u32 c) req 0)) s)"

text \<open>The part of \<open>HandleRequest\<close> after the client table has been checked.\<close>

definition fp_AcceptRequest :: "'app fp_env \<Rightarrow> Request \<Rightarrow> 'app fp_replica \<Rightarrow> 'app fp_replica result" where
  "fp_AcceptRequest c req s0 =
     (let s = fp_UpdateClientTable req s0
      in assert_r (nassert c) (fp_AmLeader c s \<longrightarrow> fp_lastFastPath s = fp_lastSlowPath s)
        (let opn = (if fp_AmLeader c s then fp_lastSlowPath s + 1 else fp_lastFastPath s + 1);
             s1 = (if fp_AmLeader c s then s\<lparr>fp_lastSlowPath := opn, fp_lastFastPath := opn\<rparr>
                   else s\<lparr>fp_lastFastPath := opn\<rparr>);
             v = viewstamp2 (fp_view s1) opn
         in bind_r (fp_Append c (fp_view s1) opn req s1) (\<lambda>s2.
              if fp_AmLeader c s2 then fp_LeaderLogged c v req s2 else fp_FollowerLogged c v req s2)))"

definition fp_HandleRequest ::
  "'app fp_env \<Rightarrow> TransportAddress \<Rightarrow> Request \<Rightarrow> 'app fp_replica \<Rightarrow> 'app fp_replica result" where
  "fp_HandleRequest c remote req s0 =
     (if fp_status s0 \<noteq> STATUS_NORMAL then Inr s0
      else
        let s = s0\<lparr>fp_clientAddresses := (fp_clientAddresses s0)(clientid req \<mapsto> remote)\<rparr>
        in case fp_clientTable s (clientid req) of
             None \<Rightarrow> fp_AcceptRequest c req s
           | Some entry \<Rightarrow>
               if clientreqid req < fct_lastReqId entry then Inr s
               else if clientreqid req = fct_lastReqId entry then
                 (if fct_replied entry then Inr (fp_emit (FSendToClient remote (fct_reply entry)) s) else Inr s)
               else fp_AcceptRequest c req s)"

definition fp_HandleUnloggedRequest ::
  "'app fp_env \<Rightarrow> TransportAddress \<Rightarrow> UnloggedRequest \<Rightarrow> 'app fp_replica \<Rightarrow> 'app fp_replica result" where
  "fp_HandleUnloggedRequest c remote req s =
     (if fp_status s \<noteq> STATUS_NORMAL then Inr s
      else let (res, a) = ExecuteUnlogged (fe_app_code c) req (fp_app s)
           in Inr (fp_emit (FSendToClient remote (FPUnloggedReply res)) (s\<lparr>fp_app := a\<rparr>)))"

definition fp_HandlePrepare ::
  "'app fp_env \<Rightarrow> TransportAddress \<Rightarrow> FPPrepareMessage \<Rightarrow> 'app fp_replica \<Rightarrow> 'app fp_replica result" where
  "fp_HandlePrepare c remote msg s =
     (let opn = fpr_opnum msg;
          later = (let s1 = fp_RequestStateTransfer s
                   in Inr (s1\<lparr>fp_pendingPrepares := fp_pendingPrepares s1 @ [(remote, msg)]\<rparr>));
          ok = fp_to_leader c (FPPrepareOK (FPPrepareOKMessage (fpr_view msg) opn (fe_u32 c) (fpr_req msg) 1))
      in if fp_status s \<noteq> STATUS_NORMAL then Inr s
         else if fpr_view msg < fp_view s then Inr s
         else if fpr_view msg > fp_view s then later
         else if fp_AmLeader c s then Inl Panicked
         else if opn \<le> fp_lastSlowPath s then Inr (ok s)
         else if opn > fp_lastSlowPath s + 1 then later
         else bind_r
           (if opn > fp_lastFastPath s then
              assert_r (nassert c) (opn = fp_lastFastPath s + 1)
                (fp_Append c (fpr_view msg) opn (fpr_req msg)
                  (s\<lparr>fp_lastFastPath := fp_lastFastPath s + 1, fp_lastSlowPath := fp_lastSlowPath s + 1\<rparr>))
            else
              assert_r (nassert c) (opn = fp_lastSlowPath s + 1)
                (bind_r (fp_Replace c opn (fpr_req msg) s) (\<lambda>s1.
                   Inr (s1\<lparr>fp_lastSlowPath := fp_lastSlowPath s1 + 1\<rparr>))))
           (\<lambda>s2. Inr (ok (fp_UpdateClientTable (fpr_req msg) s2))))"

definition fp_HandleCommit ::
  "'app fp_env \<Rightarrow> TransportAddress \<Rightarrow> FPCommitMessage \<Rightarrow> 'app fp_replica \<Rightarrow> 'app fp_replica result" where
  "fp_HandleCommit c remote msg s =
     (let opn = fc_opnum msg
      in if fp_status s \<noteq> STATUS_NORMAL then Inr s
         else if fc_view msg < fp_view s then Inr s
         else if fc_view msg > fp_view s then Inr (fp_RequestStateTransfer s)
         else if fp_AmLeader c s then Inl Panicked
         else if opn \<le> fp_lastCommitted s then Inr s
         else if opn > fp_lastFastPath s then Inr (fp_RequestStateTransfer s)
         else if opn > fp_lastSlowPath s then
           (if opn > fp_lastSlowPath s + 1 then Inr s
            else bind_r (fp_Replace c opn (fc_req msg) s) (fp_CommitUpTo c opn))
         else fp_CommitUpTo c opn s)"

section \<open>State transfer\<close>

definition fp_HandleRequestStateTransfer ::
  "'app fp_env \<Rightarrow> TransportAddress \<Rightarrow> FPRequestStateTransferMessage \<Rightarrow> 'app fp_replica \<Rightarrow> 'app fp_replica result" where
  "fp_HandleRequestStateTransfer c remote msg s =
     (if fp_status s \<noteq> STATUS_NORMAL then Inr s
      else if frt_view msg > fp_view s then Inr (fp_RequestStateTransfer s)
      else if \<not> fp_AmLeader c s then Inr s
      else assert_r (nassert c) (fp_lastSlowPath s = fp_lastFastPath s)
        (bind_r (Dump c (frt_opnum msg + 1) (fp_log s)) (\<lambda>es.
           Inr (fp_emit (FSend remote (FPStateTransfer
             (FPStateTransferMessage (fp_view s) (fp_lastCommitted s) es (fp_lastSlowPath s)))) s))))"

text \<open>The body of the loop of \<open>HandleStateTransfer\<close> over \<open>(oldLastSlowPath, state)\<close>.\<close>

definition fp_transfer_entry ::
  "'app fp_env \<Rightarrow> MsgLogEntry \<Rightarrow> opnum_t \<times> 'app fp_replica \<Rightarrow> (opnum_t \<times> 'app fp_replica) result" where
  "fp_transfer_entry c newEntry st =
     (let (old, s) = st; opn = me_opnum newEntry; req = me_request newEntry
      in if opn \<le> fp_lastCommitted s then Inr (old, s)
         else if opn \<le> fp_lastSlowPath s then
           bind_r (Find c opn (fp_log s)) (\<lambda>found. deref_r found (\<lambda>entry.
             assert_r (nassert c) (vs_opnum (viewstamp entry) = opn)
              (assert_r (nassert c) (vs_view (viewstamp entry) \<le> me_view newEntry)
               (if vs_view (viewstamp entry) = me_view newEntry then
                  assert_r (nassert c) (state entry = LOG_STATE_PREPARED) (Inr (old, s))
                else
                  assert_r (nassert c) (state entry \<noteq> LOG_STATE_COMMITTED)
                   (bind_r (RemoveAfter c opn (fp_log s)) (\<lambda>l.
                      bind_r (fp_Append c (me_view newEntry) opn req (s\<lparr>fp_log := l, fp_lastSlowPath := opn\<rparr>))
                        (\<lambda>s1. Inr (opn, s1))))))))
         else if opn \<le> fp_lastFastPath s then
           bind_r (fp_Replace c opn req s) (\<lambda>s1. Inr (old, s1\<lparr>fp_lastSlowPath := fp_lastSlowPath s1 + 1\<rparr>))
         else
           assert_r (nassert c) (opn = fp_lastSlowPath s + 1)
            (bind_r (fp_Append c (me_view newEntry) opn req
               (s\<lparr>fp_lastSlowPath := fp_lastSlowPath s + 1, fp_lastFastPath := fp_lastFastPath s + 1\<rparr>))
               (\<lambda>s1. Inr (old, s1))))"

definition fp_HandleStateTransfer ::
  "'app fp_env \<Rightarrow> TransportAddress \<Rightarrow> FPStateTransferMessage \<Rightarrow> 'app fp_replica \<Rightarrow> 'app fp_replica result" where
  "fp_HandleStateTransfer c remote msg s0 =
     (if fst_view msg < fp_view s0 then Inr s0
      else
        bind_r (fold_r (fp_transfer_entry c) (fst_entries msg) (fp_lastSlowPath s0, s0)) (\<lambda>(old, s1).
          let s2 = (if fst_view msg > fp_view s1 then fp_EnterView (fst_view msg) s1 else s1)
          in assert_r (nassert c) (fst_opnum msg \<le> fp_lastSlowPath s2)
            (assert_r (nassert c) (fp_lastSlowPath s2 \<le> fp_lastFastPath s2)
              (bind_r (fp_CommitUpTo c (fst_opnum msg) s2) (\<lambda>s3.
                bind_r (fp_SendPrepareOKs c old s3) (\<lambda>s4.
                  let pending = fp_pendingPrepares s4
                  in fold_r (\<lambda>(remote', pm). fp_HandlePrepare c remote' pm) pending
                       (s4\<lparr>fp_pendingPrepares := []\<rparr>)))))))"

section \<open>Dispatch, timers and construction\<close>

fun fp_ReceiveMessage ::
  "'app fp_env \<Rightarrow> TransportAddress \<Rightarrow> FPToReplicaMessage \<Rightarrow> 'app fp_replica \<Rightarrow> 'app fp_replica result" where
  "fp_ReceiveMessage c remote (FPRequest m) s = fp_HandleRequest c remote m s"
| "fp_ReceiveMessage c remote (FPUnloggedRequest m) s = fp_HandleUnloggedRequest c remote m s"
| "fp_ReceiveMessage c remote (FPPrepare m) s = fp_HandlePrepare c remote m s"
| "fp_ReceiveMessage c remote (FPPrepareOK m) s = fp_HandlePrepareOK c remote m s"
| "fp_ReceiveMessage c remote (FPCommit m) s = fp_HandleCommit c remote m s"
| "fp_ReceiveMessage c remote (FPRequestStateTransfer m) s = fp_HandleRequestStateTransfer c remote m s"
| "fp_ReceiveMessage c remote (FPStateTransfer m) s = fp_HandleStateTransfer c remote m s"
| "fp_ReceiveMessage c remote FPReplicaMsgNotSet s = Inl Panicked"

datatype fp_timer = FPStateTransferTimer | FPResendPrepareTimer

fun fp_timer_armed :: "fp_timer \<Rightarrow> 'app fp_replica \<Rightarrow> bool" where
  "fp_timer_armed FPStateTransferTimer s = armed (fp_stateTransferTimeout s)"
| "fp_timer_armed FPResendPrepareTimer s = armed (fp_resendPrepareTimeout s)"

fun fp_timer_callback :: "'app fp_env \<Rightarrow> fp_timer \<Rightarrow> 'app fp_replica \<Rightarrow> 'app fp_replica result" where
  "fp_timer_callback c FPStateTransferTimer s =
     Inr (s\<lparr>fp_lastRequestStateTransferView := 0, fp_lastRequestStateTransferOpnum := 0\<rparr>)"
| "fp_timer_callback c FPResendPrepareTimer s = fp_ResendPrepare c s"

definition FastPaxosReplica_new :: "'app fp_env \<Rightarrow> bool \<Rightarrow> 'app \<Rightarrow> 'app fp_replica result" where
  "FastPaxosReplica_new c initialize a =
     bind_r (mk_Log c False 1 EMPTY_HASH) (\<lambda>l.
       if \<not> initialize then Inl Panicked
       else Inr \<lparr>fp_status = STATUS_NORMAL, fp_view = 0, fp_lastCommitted = 0, fp_lastFastPath = 0,
              fp_lastSlowPath = 0, fp_lastRequestStateTransferView = 0, fp_lastRequestStateTransferOpnum = 0,
              fp_pendingPrepares = [], fp_pendingPrepareOKs = [], fp_lastPrepare = FPReplicaMsgNotSet,
              fp_log = l, fp_clientAddresses = Map.empty, fp_clientTable = Map.empty,
              fp_slowPrepareOKQuorum = mk_QuorumSet (QuorumSize (fe_config c) - 1),
              fp_fastPrepareOKQuorum = mk_QuorumSet (FastQuorumSize (fe_config c) - 1),
              fp_stateTransferTimeout = Timeout_Start (mk_Timeout 1000),
              fp_resendPrepareTimeout = mk_Timeout 500, fp_app = a, fp_sent = []\<rparr>)"

end
