(* ===== verification/FPSystem.thy ===== *)
theory FPSystem
  imports FPReplica "HOL-Library.Sublist"
begin

text \<open>
  The group of Fast Paxos replicas and the network. Clients send any requests to any replicas, in
  any order; a message that has been sent may be delivered, late, repeatedly or never, to a
  replica it was sent to. Replica \<open>i\<close> has address \<open>i\<close>, and \<open>SendMessageToAll\<close> leaves out the sender.
  Then what replicas promise each other: \<open>fp_ghost\<close> is what the group has established, each
  message is judged against it, and it only grows.
\<close>

section \<open>The system and its runs\<close>

datatype fp_event = FPDeliver TransportAddress FPToReplicaMessage | FPFire fp_timer

definition fp_event_step :: "'app fp_env \<Rightarrow> fp_event \<Rightarrow> 'app fp_replica \<Rightarrow> 'app fp_replica result" where
  "fp_event_step c ev s =
     (case ev of
        FPDeliver remote m \<Rightarrow> fp_ReceiveMessage c remote m s
      | FPFire k \<Rightarrow> if fp_timer_armed k s then fp_timer_callback c k s else Inr s)"

type_synonym 'app fp_system = "'app fp_replica list"

definition fe_at :: "'app fp_env \<Rightarrow> nat \<Rightarrow> 'app fp_env" where
  "fe_at c i = c\<lparr>fe_idx := int i\<rparr>"

fun fp_carries :: "nat \<Rightarrow> nat \<Rightarrow> fp_effect \<Rightarrow> FPToReplicaMessage \<Rightarrow> bool" where
  "fp_carries src dst (FSendToAll x) m = (x = m \<and> src \<noteq> dst)"
| "fp_carries src dst (FSendToReplica k x) m = (x = m \<and> k = int dst)"
| "fp_carries src dst (FSend r x) m = (x = m \<and> r = dst)"
| "fp_carries src dst (FSendToClient r x) m = False"
| "fp_carries src dst (FExecuted n b) m = False"

fun fp_from_client :: "FPToReplicaMessage \<Rightarrow> bool" where
  "fp_from_client (FPRequest m) = True"
| "fp_from_client (FPUnloggedRequest m) = True"
| "fp_from_client m = False"

fun fp_enabled :: "'app fp_system \<Rightarrow> nat \<Rightarrow> fp_event \<Rightarrow> bool" where
  "fp_enabled S i (FPFire k) = True"
| "fp_enabled S i (FPDeliver src m) =
     (fp_from_client m \<or> src < length S \<and> (\<exists>e \<in> set (fp_sent (S ! src)). fp_carries src i e m))"

text \<open>Logs stay below \<open>2 ^ 59\<close> entries, far from the end of a vector and of the operation numbers.\<close>

definition fp_room :: "'app fp_system \<Rightarrow> bool" where
  "fp_room S \<longleftrightarrow> (\<forall>s \<in> set S. unat (fp_lastFastPath s) < 2 ^ 59)"

definition fp_initial :: "'app fp_env \<Rightarrow> 'app \<Rightarrow> 'app fp_system \<Rightarrow> bool" where
  "fp_initial c a S \<longleftrightarrow>
     int (length S) = num_replicas (fe_config c) \<and>
     (\<forall>i < length S. FastPaxosReplica_new (fe_at c i) True a = Inr (S ! i))"

inductive fp_reach :: "'app fp_env \<Rightarrow> 'app \<Rightarrow> 'app fp_system \<Rightarrow> bool" for c a where
  initial: "fp_initial c a S \<Longrightarrow> fp_reach c a S"
| event: "fp_reach c a S \<Longrightarrow> i < length S \<Longrightarrow> fp_enabled S i ev \<Longrightarrow> fp_room S \<Longrightarrow>
    fp_event_step (fe_at c i) ev (S ! i) = Inr s \<Longrightarrow> fp_reach c a (S[i := s])"

text \<open>What a replica has executed.\<close>

definition fp_executed :: "fp_effect list \<Rightarrow> (opnum_t \<times> bytes) list" where
  "fp_executed es = concat (map (\<lambda>e. case e of FExecuted n b \<Rightarrow> [(n, b)] | _ \<Rightarrow> []) es)"

lemma fp_executed_simps [simp]:
  "fp_executed [] = []"
  "fp_executed (es @ fs) = fp_executed es @ fp_executed fs"
  "fp_executed (FExecuted n b # es) = (n, b) # fp_executed es"
  "fp_executed (FSendToAll m # es) = fp_executed es" "fp_executed (FSendToReplica k m # es) = fp_executed es"
  "fp_executed (FSend r m # es) = fp_executed es" "fp_executed (FSendToClient r cm # es) = fp_executed es"
  by (simp_all add: fp_executed_def)

section \<open>What the group has established\<close>

definition fslot :: "Log \<Rightarrow> nat \<Rightarrow> Request option" where
  "fslot l k = map_option request (log_num_at l k)"

definition req_id :: "Request \<Rightarrow> u64 \<times> u64" where
  "req_id r = (clientid r, clientreqid r)"

text \<open>
  \<open>fg_R\<close> is the leader's log, \<open>fg_C\<close> its commit point, \<open>fg_com j\<close> the commit point of replica \<open>j\<close>, and
  \<open>fg_holds j p x\<close> says that replica \<open>j\<close> holds operation \<open>p\<close>, as the leader has chosen it or for request \<open>x\<close>.
\<close>

record fp_ghost =
  fg_R :: "nat \<Rightarrow> Request option"
  fg_C :: opnum_t
  fg_com :: "nat \<Rightarrow> opnum_t"
  fg_holds :: "nat \<Rightarrow> opnum_t \<Rightarrow> u64 \<times> u64 \<Rightarrow> bool"

definition fp_holds :: "'app fp_replica \<Rightarrow> opnum_t \<Rightarrow> u64 \<times> u64 \<Rightarrow> bool" where
  "fp_holds s p x \<longleftrightarrow> 1 \<le> p \<and> p \<le> fp_lastFastPath s \<and>
     (p \<le> fp_lastSlowPath s \<or> map_option req_id (fslot (fp_log s) (unat p)) = Some x)"

text \<open>What replica \<open>i\<close> contributes.\<close>

definition fp_own :: "nat \<Rightarrow> fp_ghost \<Rightarrow> 'app fp_replica \<Rightarrow> fp_ghost" where
  "fp_own i g s =
     \<lparr>fg_R = (if i = 0 then fslot (fp_log s) else fg_R g),
      fg_C = (if i = 0 then fp_lastCommitted s else fg_C g),
      fg_com = (fg_com g)(i := fp_lastCommitted s),
      fg_holds = (fg_holds g)(i := fp_holds s)\<rparr>"

definition fp_grow :: "fp_ghost \<Rightarrow> fp_ghost \<Rightarrow> bool" where
  "fp_grow g g' \<longleftrightarrow> fg_R g \<subseteq>\<^sub>m fg_R g' \<and> fg_C g \<le> fg_C g' \<and> (\<forall>j. fg_com g j \<le> fg_com g' j) \<and>
     (\<forall>j p x. fg_holds g j p x \<longrightarrow> fg_holds g' j p x)"

lemma fp_grow_refl [simp]: "fp_grow g g"
  by (simp add: fp_grow_def)

lemma fp_grow_trans: "fp_grow g g' \<Longrightarrow> fp_grow g' g'' \<Longrightarrow> fp_grow g g''"
  unfolding fp_grow_def using map_le_trans order_trans by blast

lemma fp_grow_R: "fp_grow g g' \<Longrightarrow> fg_R g k = Some r \<Longrightarrow> fg_R g' k = Some r"
  by (auto simp: fp_grow_def map_le_def dom_def)

section \<open>What a message promises\<close>

definition fp_acks :: "fp_ghost \<Rightarrow> int \<Rightarrow> opnum_t \<Rightarrow> u64 \<times> u64 \<Rightarrow> bool" where
  "fp_acks g idx p x \<longleftrightarrow> (\<exists>j. j \<noteq> 0 \<and> idx = int j \<and> fg_holds g j p x)"

definition fp_entries_ok :: "fp_ghost \<Rightarrow> nat \<Rightarrow> MsgLogEntry list \<Rightarrow> bool" where
  "fp_entries_ok g b es \<longleftrightarrow> numbered_from b es \<and>
     (\<forall>e \<in> set es. me_view e = 0 \<and> fg_R g (unat (me_opnum e)) = Some (me_request e))"

definition fp_prepare_ok :: "fp_ghost \<Rightarrow> FPPrepareMessage \<Rightarrow> bool" where
  "fp_prepare_ok g p \<longleftrightarrow> fpr_view p = 0 \<and> fg_R g (unat (fpr_opnum p)) = Some (fpr_req p)"

definition fp_prepareOK_ok :: "fp_ghost \<Rightarrow> FPPrepareOKMessage \<Rightarrow> bool" where
  "fp_prepareOK_ok g m \<longleftrightarrow> fok_view m = 0 \<and> 1 \<le> fok_opnum m \<and>
     (if fok_slowpath m = 0 then fp_acks g (int_of_u32 (fok_replicaIdx m)) (fok_opnum m) (req_id (fok_req m))
      else \<forall>x. fp_acks g (int_of_u32 (fok_replicaIdx m)) (fok_opnum m) x)"

fun fp_msg_ok :: "fp_ghost \<Rightarrow> nat \<Rightarrow> nat \<Rightarrow> FPToReplicaMessage \<Rightarrow> bool" where
  "fp_msg_ok g src dst FPReplicaMsgNotSet = False"
| "fp_msg_ok g src dst (FPRequest m) = True"
| "fp_msg_ok g src dst (FPUnloggedRequest m) = True"
| "fp_msg_ok g src dst (FPPrepare p) = (dst \<noteq> 0 \<and> fp_prepare_ok g p)"
| "fp_msg_ok g src dst (FPPrepareOK m) = fp_prepareOK_ok g m"
| "fp_msg_ok g src dst (FPCommit m) =
     (dst \<noteq> 0 \<and> fc_view m = 0 \<and> fc_opnum m \<le> fg_C g \<and> fg_R g (unat (fc_opnum m)) = Some (fc_req m))"
| "fp_msg_ok g src dst (FPRequestStateTransfer m) = (src \<noteq> 0 \<and> frt_view m = 0 \<and> frt_opnum m \<le> fg_com g src)"
| "fp_msg_ok g src dst (FPStateTransfer m) =
     (dst \<noteq> 0 \<and> fst_view m = 0 \<and> fst_opnum m \<le> fg_C g \<and>
      (\<exists>b. 1 \<le> b \<and> b \<le> Suc (unat (fg_com g dst)) \<and> fp_entries_ok g b (fst_entries m) \<and>
         unat (fst_opnum m) < b + length (fst_entries m)))"

fun fp_eff_ok :: "fp_ghost \<Rightarrow> nat \<Rightarrow> fp_effect \<Rightarrow> bool" where
  "fp_eff_ok g i (FSendToAll m) = (\<forall>dst. dst \<noteq> i \<longrightarrow> fp_msg_ok g i dst m)"
| "fp_eff_ok g i (FSendToReplica k m) = (\<forall>dst. k = int dst \<longrightarrow> fp_msg_ok g i dst m)"
| "fp_eff_ok g i (FSend r m) = fp_msg_ok g i r m"
| "fp_eff_ok g i (FSendToClient r m) = True"
| "fp_eff_ok g i (FExecuted n b) = True"

lemma fp_acks_grow: "fp_grow g g' \<Longrightarrow> fp_acks g idx p x \<Longrightarrow> fp_acks g' idx p x"
  unfolding fp_grow_def fp_acks_def by blast

lemma fp_prepare_grow: "fp_grow g g' \<Longrightarrow> fp_prepare_ok g p \<Longrightarrow> fp_prepare_ok g' p"
  by (auto simp: fp_prepare_ok_def intro: fp_grow_R)

lemma fp_prepareOK_grow: "fp_grow g g' \<Longrightarrow> fp_prepareOK_ok g m \<Longrightarrow> fp_prepareOK_ok g' m"
  by (auto simp: fp_prepareOK_ok_def intro: fp_acks_grow split: if_splits)

lemma fp_entries_grow: "fp_grow g g' \<Longrightarrow> fp_entries_ok g b es \<Longrightarrow> fp_entries_ok g' b es"
  by (auto simp: fp_entries_ok_def intro: fp_grow_R)

lemma fp_msg_grow:
  assumes grow: "fp_grow g g'"
  shows "fp_msg_ok g src dst m \<Longrightarrow> fp_msg_ok g' src dst m"
proof (cases m)
  case (FPStateTransfer x)
  assume "fp_msg_ok g src dst m"
  then obtain b where x: "dst \<noteq> 0" "fst_view x = 0" "fst_opnum x \<le> fg_C g" "1 \<le> b" "b \<le> Suc (unat (fg_com g dst))"
      "fp_entries_ok g b (fst_entries x)" "unat (fst_opnum x) < b + length (fst_entries x)"
    by (auto simp: FPStateTransfer)
  have "fst_opnum x \<le> fg_C g'" using x(3) grow by (auto simp: fp_grow_def)
  moreover have "b \<le> Suc (unat (fg_com g' dst))"
    using x(5) grow by (auto simp: fp_grow_def word_le_nat_alt intro: le_trans)
  moreover have "fp_entries_ok g' b (fst_entries x)" using grow x(6) by (rule fp_entries_grow)
  ultimately show ?thesis using x(1,2,4,7) by (auto simp: FPStateTransfer)
qed (use grow in \<open>auto simp: fp_grow_def intro: fp_grow_R [OF grow] fp_prepare_grow [OF grow]
  fp_prepareOK_grow [OF grow] elim: order_trans\<close>)

lemma fp_eff_grow: "fp_grow g g' \<Longrightarrow> fp_eff_ok g i e \<Longrightarrow> fp_eff_ok g' i e"
  using fp_msg_grow by (cases e) auto

end
