(* ===== verification/FPSteps.thy ===== *)
theory FPSteps
  imports FPSystem
begin

text \<open>
  What a Fast Paxos replica keeps (\<open>fp_core\<close>), and that the operations the handlers are made of keep it
  and return: no assertion fails, nothing panics.
\<close>

section \<open>What a replica keeps\<close>

definition fp_wf :: "'app fp_replica \<Rightarrow> bool" where
  "fp_wf s \<longleftrightarrow> fp_status s = STATUS_NORMAL \<and> fp_view s = 0 \<and> log_ok (fp_log s) \<and> start (fp_log s) = 1 \<and>
     \<not> useHash (fp_log s) \<and> log_top (fp_log s) = Suc (unat (fp_lastFastPath s)) \<and>
     fp_lastCommitted s \<le> fp_lastSlowPath s \<and> fp_lastSlowPath s \<le> fp_lastFastPath s \<and>
     (\<forall>k e. log_num_at (fp_log s) k = Some e \<longrightarrow> vs_view (viewstamp e) = 0 \<and>
        state e = (if k \<le> unat (fp_lastCommitted s) then LOG_STATE_COMMITTED else LOG_STATE_PREPARED)) \<and>
     QS_ok (fp_slowPrepareOKQuorum s) \<and> QS_ok (fp_fastPrepareOKQuorum s)"

definition fp_votes_ok :: "fp_ghost \<Rightarrow> (viewstamp_t, FPPrepareOKMessage) QuorumSet \<Rightarrow> bool" where
  "fp_votes_ok g q \<longleftrightarrow> (\<forall>p idx m. QS_votes q (viewstamp2 0 p) idx = Some m \<longrightarrow>
     (\<exists>r. fg_R g (unat p) = Some r \<and> fp_acks g idx p (req_id r)))"

definition fp_lead_ok :: "'app fp_env \<Rightarrow> fp_ghost \<Rightarrow> 'app fp_replica \<Rightarrow> bool" where
  "fp_lead_ok c g s \<longleftrightarrow> fp_lastSlowPath s = fp_lastFastPath s \<and>
     (fp_lastSlowPath s \<noteq> 0 \<longrightarrow> (\<exists>p. fp_lastPrepare s = FPPrepare p \<and> fp_prepare_ok g p)) \<and>
     fp_votes_ok g (fp_slowPrepareOKQuorum s) \<and> fp_votes_ok g (fp_fastPrepareOKQuorum s) \<and>
     numRequired (fp_slowPrepareOKQuorum s) = QuorumSize (fe_config c) - 1 \<and>
     numRequired (fp_fastPrepareOKQuorum s) = FastQuorumSize (fe_config c) - 1"

definition fp_calls :: "(nat \<Rightarrow> Request option) \<Rightarrow> opnum_t \<Rightarrow> (opnum_t \<times> bytes) list" where
  "fp_calls R n = map (\<lambda>k. (of_nat k, op (the (R k)))) [1..<Suc (unat n)]"

definition fp_talk_ok :: "fp_ghost \<Rightarrow> nat \<Rightarrow> 'app fp_replica \<Rightarrow> bool" where
  "fp_talk_ok g i s \<longleftrightarrow> (\<forall>x \<in> set (fp_pendingPrepares s). fp_prepare_ok g (snd x)) \<and>
     (\<forall>x \<in> set (fp_pendingPrepareOKs s). fp_prepareOK_ok g (snd x)) \<and> (\<forall>e \<in> set (fp_sent s). fp_eff_ok g i e)"

definition fp_core :: "'app fp_env \<Rightarrow> fp_ghost \<Rightarrow> nat \<Rightarrow> 'app fp_replica \<Rightarrow> bool" where
  "fp_core c g i s \<longleftrightarrow> fp_wf s \<and>
     (\<forall>k. 1 \<le> k \<and> k \<le> unat (fp_lastSlowPath s) \<longrightarrow> fslot (fp_log s) k = fg_R (fp_own i g s) k) \<and>
     fp_lastCommitted s \<le> fg_C (fp_own i g s) \<and>
     fp_executed (fp_sent s) = fp_calls (fslot (fp_log s)) (fp_lastCommitted s) \<and>
     fp_talk_ok (fp_own i g s) i s \<and> (i = 0 \<longrightarrow> fp_lead_ok c (fp_own i g s) s) \<and>
     (i \<noteq> 0 \<longrightarrow> \<not> armed (fp_resendPrepareTimeout s))"

text \<open>What an operation does not take back.\<close>

definition fp_later :: "nat \<Rightarrow> 'app fp_replica \<Rightarrow> 'app fp_replica \<Rightarrow> bool" where
  "fp_later i s t \<longleftrightarrow> fp_lastCommitted s \<le> fp_lastCommitted t \<and> (\<forall>p x. fp_holds s p x \<longrightarrow> fp_holds t p x) \<and>
     (i = 0 \<longrightarrow> fslot (fp_log s) \<subseteq>\<^sub>m fslot (fp_log t))"

lemma fp_later_refl [simp]: "fp_later i s s"
  by (simp add: fp_later_def)

lemma fp_later_trans: "fp_later i s t \<Longrightarrow> fp_later i t u \<Longrightarrow> fp_later i s u"
  unfolding fp_later_def by (blast intro: order_trans map_le_trans)

lemma fp_later_grow: "fp_later i s t \<Longrightarrow> fp_grow (fp_own i g s) (fp_own i g t)"
  by (simp add: fp_later_def fp_grow_def fp_own_def)

lemma fp_own_sel:
  "fg_R (fp_own i g s) = (if i = 0 then fslot (fp_log s) else fg_R g)"
  "fg_C (fp_own i g s) = (if i = 0 then fp_lastCommitted s else fg_C g)"
  "fg_com (fp_own i g s) j = (if j = i then fp_lastCommitted s else fg_com g j)"
  "fg_holds (fp_own i g s) j = (if j = i then fp_holds s else fg_holds g j)"
  by (simp_all add: fp_own_def)

lemma fp_holds_cong:
  "fp_lastFastPath t = fp_lastFastPath s \<Longrightarrow> fp_lastSlowPath t = fp_lastSlowPath s \<Longrightarrow>
   fslot (fp_log t) = fslot (fp_log s) \<Longrightarrow> fp_holds t = fp_holds s"
  by (simp add: fp_holds_def fun_eq_iff)

text \<open>The fields that matter to the promises; a state that agrees on them keeps the same ones.\<close>

definition fp_same :: "'app fp_replica \<Rightarrow> 'app fp_replica \<Rightarrow> bool" where
  "fp_same s t \<longleftrightarrow> fp_lastFastPath t = fp_lastFastPath s \<and> fp_lastSlowPath t = fp_lastSlowPath s \<and>
     fslot (fp_log t) = fslot (fp_log s) \<and> fp_view t = fp_view s \<and>
     fp_slowPrepareOKQuorum t = fp_slowPrepareOKQuorum s \<and> fp_fastPrepareOKQuorum t = fp_fastPrepareOKQuorum s \<and>
     fp_lastPrepare t = fp_lastPrepare s"

lemma fp_same_refl [simp]: "fp_same s s"
  by (simp add: fp_same_def)

lemma fp_same_trans: "fp_same s t \<Longrightarrow> fp_same t u \<Longrightarrow> fp_same s u"
  by (simp add: fp_same_def)

lemma fp_same_later: "fp_same s t \<Longrightarrow> fp_lastCommitted s \<le> fp_lastCommitted t \<Longrightarrow> fp_later i s t"
  using fp_holds_cong [of t s] by (simp add: fp_same_def fp_later_def)

lemma fp_votes_grow: "fp_grow g g' \<Longrightarrow> fp_votes_ok g q \<Longrightarrow> fp_votes_ok g' q"
  unfolding fp_votes_ok_def by (blast intro: fp_grow_R fp_acks_grow)

lemma fp_talk_grow: "fp_grow g g' \<Longrightarrow> fp_talk_ok g i s \<Longrightarrow> fp_talk_ok g' i s"
  unfolding fp_talk_ok_def by (blast intro: fp_prepare_grow fp_prepareOK_grow fp_eff_grow)

lemma fp_lead_grow: "fp_grow g g' \<Longrightarrow> fp_lead_ok c g s \<Longrightarrow> fp_lead_ok c g' s"
  unfolding fp_lead_ok_def by (blast intro: fp_prepare_grow fp_votes_grow)

lemma fp_lead_cong:
  "fp_lead_ok c g s \<Longrightarrow> fp_same s t \<Longrightarrow> fp_lead_ok c g t"
  by (simp add: fp_lead_ok_def fp_same_def)

text \<open>The general step: what has to be shown of the new state, given the old one.\<close>

lemma fp_core_step:
  assumes core: "fp_core c g i s" and later: "fp_later i s t" and wf: "fp_wf t"
    and slots: "\<forall>k. 1 \<le> k \<and> k \<le> unat (fp_lastSlowPath t) \<longrightarrow> fslot (fp_log t) k = fg_R (fp_own i g t) k"
    and com: "i \<noteq> 0 \<longrightarrow> fp_lastCommitted t \<le> fg_C g"
    and ex: "fp_executed (fp_sent t) = fp_calls (fslot (fp_log t)) (fp_lastCommitted t)"
    and sent: "\<forall>e \<in> set (fp_sent t). e \<in> set (fp_sent s) \<or> fp_eff_ok (fp_own i g t) i e"
    and pp: "\<forall>x \<in> set (fp_pendingPrepares t). x \<in> set (fp_pendingPrepares s) \<or> fp_prepare_ok (fp_own i g t) (snd x)"
    and po: "\<forall>x \<in> set (fp_pendingPrepareOKs t). x \<in> set (fp_pendingPrepareOKs s) \<or> fp_prepareOK_ok (fp_own i g t) (snd x)"
    and lead: "i = 0 \<longrightarrow> fp_lead_ok c (fp_own i g t) t" and timer: "i \<noteq> 0 \<longrightarrow> \<not> armed (fp_resendPrepareTimeout t)"
  shows "fp_core c g i t"
proof -
  have "fp_talk_ok (fp_own i g s) i s" using core by (simp add: fp_core_def)
  from fp_talk_grow [OF fp_later_grow [OF later] this] have "fp_talk_ok (fp_own i g t) i t"
    using sent pp po unfolding fp_talk_ok_def by blast
  then show ?thesis
    using wf slots com ex lead timer by (simp add: fp_core_def fp_own_sel)
qed

text \<open>A state that differs in nothing but what it has said and in its bookkeeping.\<close>

lemma fp_core_quiet:
  assumes core: "fp_core c g i s" and same: "fp_same s t" "fp_log t = fp_log s" "fp_lastCommitted t = fp_lastCommitted s"
      "fp_status t = fp_status s" "i \<noteq> 0 \<longrightarrow> \<not> armed (fp_resendPrepareTimeout t)"
    and sent: "fp_executed (fp_sent t) = fp_executed (fp_sent s)"
      "\<forall>e \<in> set (fp_sent t). e \<in> set (fp_sent s) \<or> fp_eff_ok (fp_own i g s) i e"
    and pp: "\<forall>x \<in> set (fp_pendingPrepares t). x \<in> set (fp_pendingPrepares s) \<or> fp_prepare_ok (fp_own i g s) (snd x)"
    and po: "\<forall>x \<in> set (fp_pendingPrepareOKs t). x \<in> set (fp_pendingPrepareOKs s) \<or> fp_prepareOK_ok (fp_own i g s) (snd x)"
  shows "fp_core c g i t \<and> fp_later i s t"
proof -
  have later: "fp_later i s t" using same by (intro fp_same_later) simp_all
  have "fp_holds t = fp_holds s" using same(1,2) by (intro fp_holds_cong) (simp_all add: fp_same_def)
  then have own: "fp_own j g t = fp_own j g s" for j using same by (simp add: fp_own_def)
  have "fp_wf t" using core same by (simp add: fp_core_def fp_wf_def fp_same_def)
  with later show ?thesis
    using core same sent pp po fp_lead_cong [OF _ same(1)]
    by (intro conjI fp_core_step [OF core]) (auto simp: own fp_core_def fp_same_def fp_own_sel)
qed

lemma fp_emit_sel [simp]:
  "fp_log (fp_emit e s) = fp_log s" "fp_status (fp_emit e s) = fp_status s" "fp_view (fp_emit e s) = fp_view s"
  "fp_lastCommitted (fp_emit e s) = fp_lastCommitted s" "fp_lastFastPath (fp_emit e s) = fp_lastFastPath s"
  "fp_lastSlowPath (fp_emit e s) = fp_lastSlowPath s" "fp_sent (fp_emit e s) = fp_sent s @ [e]"
  "fp_pendingPrepares (fp_emit e s) = fp_pendingPrepares s" "fp_pendingPrepareOKs (fp_emit e s) = fp_pendingPrepareOKs s"
  "fp_slowPrepareOKQuorum (fp_emit e s) = fp_slowPrepareOKQuorum s"
  "fp_fastPrepareOKQuorum (fp_emit e s) = fp_fastPrepareOKQuorum s" "fp_lastPrepare (fp_emit e s) = fp_lastPrepare s"
  "fp_resendPrepareTimeout (fp_emit e s) = fp_resendPrepareTimeout s" "fp_clientTable (fp_emit e s) = fp_clientTable s"
  "fp_clientAddresses (fp_emit e s) = fp_clientAddresses s"
  by (simp_all add: fp_emit_def)

lemma fp_core_emit:
  assumes "fp_core c g i s" and "fp_eff_ok (fp_own i g s) i e" and "fp_executed [e] = []"
  shows "fp_core c g i (fp_emit e s) \<and> fp_later i s (fp_emit e s)"
  by (rule fp_core_quiet [OF assms(1)]) (use assms in \<open>auto simp: fp_same_def fp_core_def\<close>)

lemma fp_core_RequestStateTransfer:
  assumes core: "fp_core c g i s" and i: "i \<noteq> 0"
  shows "fp_core c g i (fp_RequestStateTransfer s) \<and> fp_later i s (fp_RequestStateTransfer s)"
proof -
  have "fp_view s = 0" using core by (simp add: fp_core_def fp_wf_def)
  then show ?thesis
    using i core
    by (intro fp_core_quiet [OF core]) (auto simp: fp_RequestStateTransfer_def Let_def fp_same_def fp_own_sel fp_core_def)
qed

lemma fp_UpdateClientTable_sel [simp]:
  "fp_log (fp_UpdateClientTable r s) = fp_log s" "fp_status (fp_UpdateClientTable r s) = fp_status s"
  "fp_view (fp_UpdateClientTable r s) = fp_view s" "fp_lastCommitted (fp_UpdateClientTable r s) = fp_lastCommitted s"
  "fp_lastFastPath (fp_UpdateClientTable r s) = fp_lastFastPath s"
  "fp_lastSlowPath (fp_UpdateClientTable r s) = fp_lastSlowPath s" "fp_sent (fp_UpdateClientTable r s) = fp_sent s"
  "fp_pendingPrepares (fp_UpdateClientTable r s) = fp_pendingPrepares s"
  "fp_pendingPrepareOKs (fp_UpdateClientTable r s) = fp_pendingPrepareOKs s"
  "fp_slowPrepareOKQuorum (fp_UpdateClientTable r s) = fp_slowPrepareOKQuorum s"
  "fp_fastPrepareOKQuorum (fp_UpdateClientTable r s) = fp_fastPrepareOKQuorum s"
  "fp_lastPrepare (fp_UpdateClientTable r s) = fp_lastPrepare s"
  "fp_resendPrepareTimeout (fp_UpdateClientTable r s) = fp_resendPrepareTimeout s"
  by (simp_all add: fp_UpdateClientTable_def Let_def)

lemma fp_core_UpdateClientTable:
  "fp_core c g i s \<Longrightarrow> fp_core c g i (fp_UpdateClientTable r s) \<and> fp_later i s (fp_UpdateClientTable r s)"
  by (rule fp_core_quiet) (auto simp: fp_same_def fp_core_def)

section \<open>Committing\<close>

lemma fp_wf_entry:
  assumes "fp_wf s" and "1 \<le> k" and "k \<le> unat (fp_lastFastPath s)"
  obtains e where "log_num_at (fp_log s) k = Some e" "fslot (fp_log s) k = Some (request e)"
  using assms by (auto simp: fp_wf_def log_num_at_def fslot_def)

lemma fp_calls_Suc:
  assumes n: "unat (n + 1) = Suc (unat n)"
  shows "fp_calls R (n + 1) = fp_calls R n @ [(n + 1, op (the (R (unat (n + 1)))))]"
proof -
  have "of_nat (Suc (unat n)) = n + 1" unfolding n [symmetric] by simp
  then show ?thesis unfolding fp_calls_def n by simp
qed

lemma fp_core_CommitNext:
  assumes core: "fp_core c g i s" and lt: "fp_lastCommitted s < fp_lastSlowPath s"
    and com: "i \<noteq> 0 \<longrightarrow> fp_lastCommitted s + 1 \<le> fg_C g"
  shows "returns (fp_CommitNext c s) (\<lambda>t. fp_core c g i t \<and> fp_same s t \<and>
    fp_lastCommitted t = fp_lastCommitted s + 1)"
proof -
  let ?n = "fp_lastCommitted s + 1" and ?l = "fp_log s"
  have wf: "fp_wf s" using core by (simp add: fp_core_def)
  have ok: "log_ok ?l" using wf by (simp add: fp_wf_def)
  have n: "unat ?n = Suc (unat (fp_lastCommitted s))" using lt by (rule unat_less_succ)
  have le: "?n \<le> fp_lastSlowPath s" using lt n by (simp add: word_le_nat_alt word_less_nat_alt)
  then have le': "?n \<le> fp_lastFastPath s" using wf by (auto simp: fp_wf_def)
  have k: "1 \<le> unat ?n" "unat ?n \<le> unat (fp_lastFastPath s)" using n le' by (simp_all add: word_le_nat_alt)
  from fp_wf_entry [OF wf this] obtain e where
    e: "log_num_at ?l (unat ?n) = Some e" "fslot ?l (unat ?n) = Some (request e)" by blast
  then have at: "log_at ?l ?n = Some e" by (simp add: log_at_num)
  let ?l' = "update_entry ?n (\<lambda>e. e\<lparr>state := LOG_STATE_COMMITTED\<rparr>) ?l"
  have num: "log_num_at ?l' = (log_num_at ?l)(unat ?n \<mapsto> e\<lparr>state := LOG_STATE_COMMITTED\<rparr>)"
    using e(1) by (rule update_entry_num_at)
  have l': "log_ok ?l'" "log_top ?l' = log_top ?l" "start ?l' = start ?l" "useHash ?l' = useHash ?l"
    using update_entry_ok [OF ok at] by (simp_all add: update_entry_def Let_def)
  have slot: "fslot ?l' = fslot ?l" using num e(1) by (auto simp: fslot_def fun_eq_iff)
  have step: "fp_core c g i t" if t: "fp_log t = ?l'" "fp_lastCommitted t = ?n" "fp_same s t" "fp_status t = fp_status s"
      "fp_pendingPrepares t = fp_pendingPrepares s" "fp_pendingPrepareOKs t = fp_pendingPrepareOKs s"
      "fp_resendPrepareTimeout t = fp_resendPrepareTimeout s"
      "fp_executed (fp_sent t) = fp_executed (fp_sent s) @ [(?n, op (request e))]"
      "\<forall>x \<in> set (fp_sent t). x \<in> set (fp_sent s) \<or> fp_eff_ok (fp_own i g t) i x" for t
  proof -
    have later: "fp_later i s t" using t(2,3) lt word_less_succ [of "fp_lastCommitted s"] n
      by (intro fp_same_later) (simp_all add: word_le_nat_alt)
    have "vs_view (viewstamp e) = 0" using wf e(1) unfolding fp_wf_def by blast
    then have "fp_wf t" using wf l' num t le n by (auto simp: fp_wf_def fp_same_def le_Suc_eq)
    moreover have "fp_executed (fp_sent t) = fp_calls (fslot (fp_log t)) (fp_lastCommitted t)"
    proof -
      have "fp_executed (fp_sent s) = fp_calls (fslot ?l) (fp_lastCommitted s)" using core by (simp add: fp_core_def)
      then show ?thesis unfolding t(1,2,8) slot fp_calls_Suc [OF n] e(2) by simp
    qed
    moreover have "i = 0 \<longrightarrow> fp_lead_ok c (fp_own i g t) t"
    proof
      assume "i = 0"
      then have "fp_lead_ok c (fp_own i g s) s" using core by (simp add: fp_core_def)
      from fp_lead_cong [OF fp_lead_grow [OF fp_later_grow [OF later] this] t(3)] show "fp_lead_ok c (fp_own i g t) t" .
    qed
    moreover have "\<forall>k. 1 \<le> k \<and> k \<le> unat (fp_lastSlowPath t) \<longrightarrow> fslot (fp_log t) k = fg_R (fp_own i g t) k"
    proof -
      have "fg_R (fp_own i g t) = fg_R (fp_own i g s)" using t(1) slot by (simp add: fp_own_sel)
      then show ?thesis using core t(1,3) slot by (simp add: fp_core_def fp_same_def)
    qed
    moreover have "i \<noteq> 0 \<longrightarrow> \<not> armed (fp_resendPrepareTimeout t)" using core t(7) by (simp add: fp_core_def)
    ultimately show ?thesis
      using t com by (intro fp_core_step [OF core later]) simp_all
  qed
  show ?thesis
    unfolding fp_CommitNext_def Let_def
    using at e(1)
    by (auto simp: wp Find_ok [OF ok] SetStatus_ok [OF ok] case_prod_beta fp_same_def slot intro!: step split: option.split)
qed

lemma fp_core_CommitLoop:
  "fp_core c g i s \<Longrightarrow> n \<le> fp_lastSlowPath s \<Longrightarrow> (i \<noteq> 0 \<longrightarrow> n \<le> fg_C g) \<Longrightarrow>
   returns (fp_CommitLoop c n s) (\<lambda>t. fp_core c g i t \<and> fp_same s t \<and>
     fp_lastCommitted t = max n (fp_lastCommitted s))"
proof (induction c n s rule: fp_CommitLoop.induct)
  case (1 c n s)
  show ?case
  proof (cases "fp_lastCommitted s < n")
    case False
    then show ?thesis using "1.prems" by (auto simp: fp_CommitLoop.simps max_def not_less)
  next
    case True
    have lt: "fp_lastCommitted s < fp_lastSlowPath s" using True "1.prems"(2) by simp
    have le: "fp_lastCommitted s + 1 \<le> n"
      using True unat_less_succ [OF True] by (simp add: word_le_nat_alt word_less_nat_alt)
    from "1.prems"(3) le have "i \<noteq> 0 \<longrightarrow> fp_lastCommitted s + 1 \<le> fg_C g" by auto
    from fp_core_CommitNext [OF "1.prems"(1) lt this] obtain t where
      t: "fp_CommitNext c s = Inr t" "fp_core c g i t" "fp_same s t" "fp_lastCommitted t = fp_lastCommitted s + 1"
      by (auto elim: returnsE)
    have "n \<le> fp_lastSlowPath t" using "1.prems"(2) t(3) by (simp add: fp_same_def)
    from "1.IH" [OF True t(1,2) this "1.prems"(3)] show ?thesis
      unfolding fp_CommitLoop.simps [of c n s] using True t le
      by (auto simp: max_def elim!: returns_mono intro: fp_same_trans)
  qed
qed

lemma fp_core_CommitUpTo:
  assumes core: "fp_core c g i s" and n: "n \<le> fp_lastSlowPath s" "i \<noteq> 0 \<longrightarrow> n \<le> fg_C g"
  shows "returns (fp_CommitUpTo c n s) (\<lambda>t. fp_core c g i t \<and> fp_same s t \<and> fp_later i s t \<and>
    fp_lastCommitted t = max n (fp_lastCommitted s))"
proof -
  obtain t where t: "fp_CommitLoop c n s = Inr t" "fp_core c g i t" "fp_same s t"
      "fp_lastCommitted t = max n (fp_lastCommitted s)"
    using fp_core_CommitLoop [OF core n] by (auto elim: returnsE)
  have "fp_lastCommitted t \<le> fp_lastSlowPath t" "fp_lastSlowPath t \<le> fp_lastFastPath t"
    using t(2) by (auto simp: fp_core_def fp_wf_def)
  moreover have "fp_lastCommitted s \<le> fp_lastCommitted t" using t(4) by simp
  moreover from t(3) this have "fp_later i s t" by (rule fp_same_later)
  ultimately have le: "\<not> fp_lastSlowPath t < fp_lastCommitted t" "fp_lastCommitted t \<le> fp_lastFastPath t"
      "fp_later i s t" by auto
  show ?thesis
    unfolding fp_CommitUpTo_def Let_def t(1) using t(2-4) le by (simp del: not_less)
qed

text \<open>Committing one operation beyond the slow path is the same as taking it into the slow path first.\<close>

lemma fp_CommitNext_slow:
  "fp_CommitNext c (s\<lparr>fp_lastSlowPath := x\<rparr>) =
     bind_r (fp_CommitNext c s) (\<lambda>t. Inr (t\<lparr>fp_lastSlowPath := x\<rparr>))"
  by (auto simp: fp_CommitNext_def Let_def fp_emit_def bind_r_def case_prod_beta split: option.splits sum.splits)

lemma fp_CommitLoop_slow:
  "fp_CommitLoop c n (s\<lparr>fp_lastSlowPath := x\<rparr>) =
     bind_r (fp_CommitLoop c n s) (\<lambda>t. Inr (t\<lparr>fp_lastSlowPath := x\<rparr>))"
proof (induction c n s rule: fp_CommitLoop.induct)
  case (1 c n s)
  then show ?case
    unfolding fp_CommitLoop.simps [of c n s] fp_CommitLoop.simps [of c n "s\<lparr>fp_lastSlowPath := x\<rparr>"]
    by (cases "fp_CommitNext c s") (auto simp: fp_CommitNext_slow)
qed

lemma fp_CommitLoop_reached:
  "post (fp_CommitLoop c n s) (\<lambda>t. n \<le> fp_lastCommitted t \<and> fp_lastSlowPath t = fp_lastSlowPath s)"
proof (induction c n s rule: fp_CommitLoop.induct)
  case (1 c n s)
  show ?case
  proof (cases "fp_lastCommitted s < n")
    case True
    have "post (fp_CommitNext c s) (\<lambda>t. fp_lastSlowPath t = fp_lastSlowPath s)"
      by (auto simp: fp_CommitNext_def Let_def wp fp_emit_def split: option.split intro!: postI)
    then show ?thesis
      using 1 [OF True] True by (cases "fp_CommitNext c s") (auto simp: fp_CommitLoop.simps [of c n s])
  qed (auto simp: fp_CommitLoop.simps [of c n s])
qed

lemma fp_CommitUpTo_slow:
  assumes "fp_lastSlowPath s < n"
  shows "fp_CommitUpTo c n (s\<lparr>fp_lastSlowPath := n\<rparr>) = fp_CommitUpTo c n s"
  using assms fp_CommitLoop_reached [of c n s]
  by (cases "fp_CommitLoop c n s") (auto simp: fp_CommitUpTo_def fp_CommitLoop_slow Let_def assert_r_def)

section \<open>Appending and replacing\<close>

definition fp_roomy :: "fp_ghost \<Rightarrow> 'app fp_replica \<Rightarrow> bool" where
  "fp_roomy g s \<longleftrightarrow> unat (fp_lastFastPath s) \<le> 2 ^ 59 \<and> (\<forall>k. fg_R g k \<noteq> None \<longrightarrow> k \<le> 2 ^ 59)"

lemma fp_log_append:
  fixes r :: Request
  assumes wf: "fp_wf s" and room: "unat (fp_lastFastPath s) \<le> 2 ^ 59"
  defines "l' \<equiv> (fp_log s)\<lparr>entries := entries (fp_log s) @ [mk_LogEntry (viewstamp2 0 (fp_lastFastPath s + 1)) LOG_STATE_PREPARED r]\<rparr>"
  shows "Append c (mk_LogEntry (viewstamp2 0 (fp_lastFastPath s + 1)) LOG_STATE_PREPARED r) (fp_log s) = Inr l'"
    and "log_ok l'" and "log_top l' = Suc (Suc (unat (fp_lastFastPath s)))"
    and "log_num_at l' = (log_num_at (fp_log s))(Suc (unat (fp_lastFastPath s)) \<mapsto>
      mk_LogEntry (viewstamp2 0 (fp_lastFastPath s + 1)) LOG_STATE_PREPARED r)"
proof -
  let ?l = "fp_log s" and ?e = "mk_LogEntry (viewstamp2 0 (fp_lastFastPath s + 1)) LOG_STATE_PREPARED r"
  have l: "log_ok ?l" "start ?l = 1" "\<not> useHash ?l" "log_top ?l = Suc (unat (fp_lastFastPath s))"
    using wf by (simp_all add: fp_wf_def)
  then have len: "length (entries ?l) = unat (fp_lastFastPath s)" by (simp add: log_top_def)
  have "unat (fp_lastFastPath s + 1) = Suc (unat (fp_lastFastPath s))"
    using room by (intro unat_succ_bound) simp
  with unat_LastOpnum_Suc [OF l(1)] l(4) have num: "vs_opnum (viewstamp ?e) = LastOpnum ?l + 1"
    by (simp add: mk_LogEntry_def word_unat_eq_iff)
  have "length (entries ?l) < vector_max_size" using len room by (simp add: vector_max_size_def)
  from Append_ok [OF l(1) num this, of c] l(3) show "Append c ?e ?l = Inr l'" "log_ok l'" by (simp_all add: l'_def)
  show "log_top l' = Suc (Suc (unat (fp_lastFastPath s)))" using l(4) by (simp add: l'_def log_top_def)
  show "log_num_at l' = (log_num_at ?l)(Suc (unat (fp_lastFastPath s)) \<mapsto> ?e)"
    using l(2) len by (auto simp: l'_def log_num_at_def log_top_def fun_eq_iff nth_append)
qed

text \<open>The next free number is taken; the operation may belong to the slow path at once.\<close>

lemma fp_append_wf:
  assumes wf: "fp_wf s" and room: "unat (fp_lastFastPath s) \<le> 2 ^ 59"
    and app: "Append c (mk_LogEntry (viewstamp2 0 (fp_lastFastPath s + 1)) LOG_STATE_PREPARED r) (fp_log s) = Inr (fp_log t)"
    and cnt: "fp_lastFastPath t = fp_lastFastPath s + 1" "fp_lastCommitted t = fp_lastCommitted s"
      "fp_lastSlowPath t = fp_lastSlowPath s \<or> fp_lastSlowPath s = fp_lastFastPath s \<and> fp_lastSlowPath t = fp_lastFastPath t"
    and same: "fp_status t = fp_status s" "fp_view t = fp_view s" "QS_ok (fp_slowPrepareOKQuorum t)" "QS_ok (fp_fastPrepareOKQuorum t)"
  shows "fp_wf t" and "fp_later i s t" and "fslot (fp_log t) = (fslot (fp_log s))(Suc (unat (fp_lastFastPath s)) \<mapsto> r)"
    and "unat (fp_lastFastPath t) = Suc (unat (fp_lastFastPath s))"
proof -
  note log = fp_log_append [OF wf room, where r = r]
  from log(1) [of c] app have l: "fp_log t = (fp_log s)\<lparr>entries := entries (fp_log s) @
      [mk_LogEntry (viewstamp2 0 (fp_lastFastPath s + 1)) LOG_STATE_PREPARED r]\<rparr>" by simp
  note num = log(4) [folded l]
  have u: "unat (fp_lastFastPath s + 1) = Suc (unat (fp_lastFastPath s))" using room by (intro unat_succ_bound) simp
  then show "unat (fp_lastFastPath t) = Suc (unat (fp_lastFastPath s))" using cnt by simp
  have lt: "fp_lastFastPath s \<le> fp_lastFastPath t" using u cnt(1) by (simp add: word_le_nat_alt)
  have le: "fp_lastCommitted s \<le> fp_lastFastPath s" using wf by (auto simp: fp_wf_def)
  have ord: "fp_lastCommitted t \<le> fp_lastSlowPath t" "fp_lastSlowPath t \<le> fp_lastFastPath t" "fp_lastSlowPath s \<le> fp_lastSlowPath t"
    using cnt lt le wf by (auto simp: fp_wf_def)
  show slot: "fslot (fp_log t) = (fslot (fp_log s))(Suc (unat (fp_lastFastPath s)) \<mapsto> r)"
    using num by (auto simp: fslot_def fun_eq_iff mk_LogEntry_def)
  have "\<not> Suc (unat (fp_lastFastPath s)) \<le> unat (fp_lastCommitted s)" using le by (simp add: word_le_nat_alt)
  then show "fp_wf t"
    using wf log(2,3) [folded l] num ord cnt u same
    by (auto simp: fp_wf_def l mk_LogEntry_def viewstamp2_def)
  have "fp_holds t p x" if "fp_holds s p x" for p x
    using that slot ord lt by (auto simp: fp_holds_def word_le_nat_alt)
  moreover have "fslot (fp_log s) (Suc (unat (fp_lastFastPath s))) = None"
    using wf by (simp add: fslot_def log_num_at_def fp_wf_def)
  ultimately show "fp_later i s t" using cnt slot by (auto simp: fp_later_def map_le_def)
qed

lemma fp_replace_wf:
  assumes wf: "fp_wf s" and opn: "opn = fp_lastSlowPath s + 1" "opn \<le> fp_lastFastPath s" "fp_lastSlowPath s < opn"
  shows "\<exists>l. fp_Replace c opn r s = Inr (s\<lparr>fp_log := l\<rparr>) \<and>
    (\<forall>t. fp_log t = l \<longrightarrow> fp_lastSlowPath t = opn \<longrightarrow> fp_lastFastPath t = fp_lastFastPath s \<longrightarrow>
       fp_lastCommitted t = fp_lastCommitted s \<longrightarrow> fp_status t = fp_status s \<longrightarrow> fp_view t = fp_view s \<longrightarrow>
       QS_ok (fp_slowPrepareOKQuorum t) \<longrightarrow> QS_ok (fp_fastPrepareOKQuorum t) \<longrightarrow>
       fp_wf t \<and> (i \<noteq> 0 \<longrightarrow> fp_later i s t) \<and> fslot (fp_log t) = (fslot (fp_log s))(unat opn \<mapsto> r))"
proof -
  let ?l = "fp_log s"
  have ok: "log_ok ?l" using wf by (simp add: fp_wf_def)
  have "1 \<le> unat opn" using opn(3) by (simp add: word_less_nat_alt)
  with opn(2) wf obtain e where e: "log_num_at ?l (unat opn) = Some e"
    by (auto simp: word_le_nat_alt elim: fp_wf_entry)
  then have at: "log_at ?l opn = Some e" by (simp add: log_at_num)
  have nc: "\<not> unat opn \<le> unat (fp_lastCommitted s)"
    using wf opn(3) by (auto simp: fp_wf_def word_le_nat_alt word_less_nat_alt)
  have ent: "vs_view (viewstamp e) = 0 \<and> state e = LOG_STATE_PREPARED" using wf e nc unfolding fp_wf_def by presburger
  let ?l' = "update_entry opn (\<lambda>e. e\<lparr>request := r\<rparr>) ?l"
  have num: "log_num_at ?l' = (log_num_at ?l)(unat opn \<mapsto> e\<lparr>request := r\<rparr>)" using e by (rule update_entry_num_at)
  have l': "log_ok ?l'" "log_top ?l' = log_top ?l" "start ?l' = start ?l" "useHash ?l' = useHash ?l"
    using update_entry_ok [OF ok at] by (simp_all add: update_entry_def Let_def)
  have slot: "fslot ?l' = (fslot ?l)(unat opn \<mapsto> r)" using num by (auto simp: fslot_def fun_eq_iff)
  have run: "fp_Replace c opn r s = Inr (s\<lparr>fp_log := ?l'\<rparr>)"
    using at ent wf by (simp add: fp_Replace_def SetRequest_def Find_ok [OF ok] fp_wf_def)
  have "fp_wf t \<and> (i \<noteq> 0 \<longrightarrow> fp_later i s t) \<and> fslot (fp_log t) = (fslot (fp_log s))(unat opn \<mapsto> r)"
    if t: "fp_log t = ?l'" "fp_lastSlowPath t = opn" "fp_lastFastPath t = fp_lastFastPath s"
       "fp_lastCommitted t = fp_lastCommitted s" "fp_status t = fp_status s" "fp_view t = fp_view s"
       "QS_ok (fp_slowPrepareOKQuorum t)" "QS_ok (fp_fastPrepareOKQuorum t)" for t
  proof (intro conjI impI)
    show "fp_wf t" using wf l' num t opn(2,3) ent nc by (auto simp: fp_wf_def)
    show "fslot (fp_log t) = (fslot (fp_log s))(unat opn \<mapsto> r)" using t(1) slot by simp
    have "fp_holds t p x" if "fp_holds s p x" for p x
    proof (cases "p = opn")
      case False
      then have "unat p \<noteq> unat opn" by (simp add: word_unat_eq_iff)
      then show ?thesis using that slot opn(3) unfolding fp_holds_def t(1-3) by auto
    qed (use that in \<open>simp add: fp_holds_def t(2,3)\<close>)
    moreover assume "i \<noteq> 0"
    ultimately show "fp_later i s t" using t by (simp add: fp_later_def)
  qed
  with run show ?thesis by blast
qed

end
