(* ===== verification/FPHandled.thy ===== *)
theory FPHandled
  imports FPSteps
begin

text \<open>
  Every handler and timer of a Fast Paxos replica, given messages that keep their promises, returns,
  keeps \<open>fp_fits\<close>, and takes back nothing the group has established.
\<close>

section \<open>Quorums\<close>

definition fp_member :: "'app fp_env \<Rightarrow> nat \<Rightarrow> bool" where
  "fp_member c i \<longleftrightarrow> fe_idx c = int i \<and> int i < num_replicas (fe_config c) \<and> num_replicas (fe_config c) < 2 ^ 31 \<and>
     0 \<le> num_faults (fe_config c)"

definition fp_gwf :: "'app fp_env \<Rightarrow> fp_ghost \<Rightarrow> bool" where
  "fp_gwf c g \<longleftrightarrow> (\<forall>j p x. fg_holds g j p x \<longrightarrow> int j < num_replicas (fe_config c))"

text \<open>The operation the leader has committed last is held by a quorum of followers besides the leader.\<close>

definition fp_backers :: "fp_ghost \<Rightarrow> opnum_t \<Rightarrow> Request \<Rightarrow> nat set" where
  "fp_backers g p r = {j. j \<noteq> 0 \<and> fg_holds g j p (req_id r)}"

definition fp_quorum_at :: "'app fp_env \<Rightarrow> fp_ghost \<Rightarrow> opnum_t \<Rightarrow> bool" where
  "fp_quorum_at c g p \<longleftrightarrow> p = 0 \<or>
     (\<exists>r. fg_R g (unat p) = Some r \<and> QuorumSize (fe_config c) - 1 \<le> int (card (fp_backers g p r)))"

definition fp_fits :: "'app fp_env \<Rightarrow> fp_ghost \<Rightarrow> nat \<Rightarrow> 'app fp_replica \<Rightarrow> bool" where
  "fp_fits c g i s \<longleftrightarrow> fp_core c g i s \<and> (i = 0 \<longrightarrow> fp_quorum_at c (fp_own i g s) (fp_lastCommitted s))"

text \<open>The operation returns; the new state fits and takes nothing back.\<close>

definition fp_does :: "'app fp_env \<Rightarrow> fp_ghost \<Rightarrow> nat \<Rightarrow> 'app fp_replica \<Rightarrow> 'app fp_replica result \<Rightarrow> bool" where
  "fp_does c g i s r \<longleftrightarrow> returns r (\<lambda>t. fp_fits c g i t \<and> fp_later i s t)"

lemma fp_backers_finite:
  assumes "fp_gwf c g"
  shows "finite (fp_backers g p r)"
proof (rule finite_subset)
  have "int j < num_replicas (fe_config c)" if "j \<in> fp_backers g p r" for j
    using that assms unfolding fp_gwf_def fp_backers_def by blast
  then show "fp_backers g p r \<subseteq> {..<nat (num_replicas (fe_config c))}" by (force simp: zless_nat_eq_int_zless)
qed simp

lemma fp_gwf_own: "fp_gwf c g \<Longrightarrow> fp_member c i \<Longrightarrow> fp_gwf c (fp_own i g s)"
  by (auto simp: fp_gwf_def fp_member_def fp_own_sel split: if_splits)

lemma fp_quorum_grow:
  assumes q: "fp_quorum_at c g p" and grow: "fp_grow g g'" and wf: "fp_gwf c g'"
  shows "fp_quorum_at c g' p"
proof -
  have "card (fp_backers g p r) \<le> card (fp_backers g' p r)" for r
    using grow unfolding fp_backers_def fp_grow_def
    by (intro card_mono fp_backers_finite [OF wf, unfolded fp_backers_def]) blast
  then show ?thesis
    using q fp_grow_R [OF grow] unfolding fp_quorum_at_def by (meson of_nat_le_iff order_trans)
qed

lemma fp_votes_quorum:
  assumes ok: "QS_ok q" and votes: "fp_votes_ok g q" and wf: "fp_gwf c g" and r: "fg_R g (unat p) = Some r"
    and num: "numRequired q \<le> int (length (QS_at q (viewstamp2 0 p)))"
  shows "numRequired q \<le> int (card (fp_backers g p r))"
proof -
  let ?D = "dom (QS_votes q (viewstamp2 0 p))"
  have "?D \<subseteq> int ` fp_backers g p r"
    using votes r unfolding fp_votes_ok_def fp_acks_def fp_backers_def by fastforce
  then have "card ?D \<le> card (fp_backers g p r)"
    by (rule surj_card_le [OF fp_backers_finite [OF wf]])
  moreover have "card ?D = length (QS_at q (viewstamp2 0 p))"
    using qs.tally_card [OF ok] by (simp add: QS_tally_def)
  ultimately show ?thesis using num by linarith
qed

lemma fp_votes_Add:
  assumes "fp_votes_ok g q" and "fg_R g (unat p) = Some r" and "fp_acks g idx p (req_id r)"
  shows "fp_votes_ok g (QS_Add (viewstamp2 0 p) idx m q)"
  unfolding fp_votes_ok_def qs.votes_add
proof (intro allI impI)
  fix p' idx' m'
  assume v: "((QS_votes q)(viewstamp2 0 p := (QS_votes q (viewstamp2 0 p))(idx \<mapsto> m))) (viewstamp2 0 p') idx' = Some m'"
  show "\<exists>r. fg_R g (unat p') = Some r \<and> fp_acks g idx' p' (req_id r)"
  proof (cases "p' = p \<and> idx' = idx")
    case False
    then have "QS_votes q (viewstamp2 0 p') idx' = Some m'" using v by (auto split: if_splits)
    then show ?thesis using assms(1) unfolding fp_votes_ok_def by blast
  qed (use assms(2,3) in blast)
qed

lemma fp_fits_follower: "i \<noteq> 0 \<Longrightarrow> fp_fits c g i s \<longleftrightarrow> fp_core c g i s"
  by (simp add: fp_fits_def)

text \<open>A step that commits nothing.\<close>

lemma fp_fits_later:
  assumes fits: "fp_fits c g i s" and wf: "fp_gwf c g" and mem: "fp_member c i" and core: "fp_core c g i t"
    and later: "fp_later i s t" and same: "fp_lastCommitted t = fp_lastCommitted s"
  shows "fp_fits c g i t"
proof -
  have "fp_quorum_at c (fp_own i g t) (fp_lastCommitted t)" if "i = 0"
  proof (rule fp_quorum_grow [OF _ fp_later_grow [OF later] fp_gwf_own [OF wf mem]])
    show "fp_quorum_at c (fp_own i g s) (fp_lastCommitted t)" using fits that same by (simp add: fp_fits_def)
  qed
  with core show ?thesis by (simp add: fp_fits_def)
qed

lemma fp_AmLeader_iff: "fp_member c i \<Longrightarrow> fp_view s = 0 \<Longrightarrow> fp_AmLeader c s \<longleftrightarrow> i = 0"
  by (auto simp: fp_AmLeader_def fp_member_def leader_of_view_0)

lemma fp_core_view: "fp_core c g i s \<Longrightarrow> fp_view s = 0 \<and> fp_status s = STATUS_NORMAL"
  by (simp add: fp_core_def fp_wf_def)

lemma fe_u32_member: "fp_member c i \<Longrightarrow> int_of_u32 (fe_u32 c) = int i"
  by (simp add: fp_member_def fe_u32_def int_of_u32_def signed_of_nat signed_take_bit_int_eq_self)

lemma fp_leader_index: "fp_member c i \<Longrightarrow> GetLeaderIndex (fe_config c) 0 = 0"
  by (simp add: fp_member_def leader_of_view_0)

lemma FastQuorum_ge: "0 \<le> num_faults c \<Longrightarrow> QuorumSize c \<le> FastQuorumSize c"
  by (simp add: QuorumSize_def FastQuorumSize_def signed_divide_int_def sgn_if)

section \<open>Acknowledgements\<close>

lemma fp_core_ResendPrepare:
  assumes core: "fp_core c g 0 s" and mem: "fp_member c 0"
  shows "returns (fp_ResendPrepare c s) (\<lambda>t. fp_core c g 0 t \<and> fp_later 0 s t \<and> fp_lastCommitted t = fp_lastCommitted s)"
proof -
  have lead: "fp_lead_ok c (fp_own 0 g s) s" and le: "fp_lastCommitted s \<le> fp_lastSlowPath s"
    using core by (simp_all add: fp_core_def fp_wf_def)
  have "fp_core c g 0 t \<and> fp_later 0 s t"
    if "fp_lastSlowPath s \<noteq> fp_lastCommitted s"
      "t = fp_emit (FSendToAll (fp_lastPrepare s)) (s\<lparr>fp_resendPrepareTimeout := x\<rparr>)" for t x
  proof -
    have "fp_lastSlowPath s \<noteq> 0" using that(1) le by auto
    with lead obtain p where "fp_lastPrepare s = FPPrepare p" "fp_prepare_ok (fp_own 0 g s) p" by (auto simp: fp_lead_ok_def)
    then show ?thesis unfolding that(2) by (intro fp_core_quiet [OF core]) (auto simp: fp_same_def)
  qed
  then show ?thesis
    using core fp_AmLeader_iff [OF mem] fp_core_view [OF core] by (auto simp: fp_ResendPrepare_def wp)
qed

lemma fp_does_HandlePrepareOK:
  assumes fits: "fp_fits c g i s" and wf: "fp_gwf c g" and mem: "fp_member c i"
    and m: "fp_prepareOK_ok (fp_own i g s) m"
  shows "fp_does c g i s (fp_HandlePrepareOK c remote m s)"
proof (cases "i = 0 \<and> fp_lastCommitted s < fok_opnum m")
  case False
  have core: "fp_core c g i s" using fits by (simp add: fp_fits_def)
  show ?thesis
    using False fits m fp_core_view [OF core] fp_AmLeader_iff [OF mem]
    by (auto simp: fp_HandlePrepareOK_def fp_does_def fp_prepareOK_ok_def not_less)
next
  case True
  then have i: "i = 0" and lt: "fp_lastCommitted s < fok_opnum m" by auto
  let ?p = "fok_opnum m" and ?h = "fp_own 0 g s"
  have core: "fp_core c g 0 s" and q0: "fp_quorum_at c ?h (fp_lastCommitted s)"
    using fits i by (simp_all add: fp_fits_def)
  have w: "fp_wf s" and lead: "fp_lead_ok c ?h s" using core by (simp_all add: fp_core_def)
  have lok: "log_ok (fp_log s)" and slow: "fp_lastSlowPath s \<le> fp_lastFastPath s" using w by (simp_all add: fp_wf_def)
  have mv: "fok_view m = 0" "1 \<le> ?p" using m by (simp_all add: fp_prepareOK_ok_def)
  note guards = fp_core_view [OF core] fp_AmLeader_iff [OF mem] mv lt
  have keep: "fp_fits c g 0 t" if "fp_core c g 0 t" "fp_later 0 s t" "fp_lastCommitted t = fp_lastCommitted s" for t
    using fp_fits_later [OF fits wf mem] that i by simp
  show ?thesis
  proof (cases "fp_lastSlowPath s < ?p")
    case late: True
    let ?t = "s\<lparr>fp_pendingPrepareOKs := fp_pendingPrepareOKs s @ [(remote, m)]\<rparr>"
    have "fp_core c g 0 ?t \<and> fp_later 0 s ?t"
      by (rule fp_core_quiet [OF core]) (use m i core in \<open>auto simp: fp_same_def fp_core_def\<close>)
    then show ?thesis using late guards keep i by (auto simp: fp_HandlePrepareOK_def fp_does_def)
  next
    case False
    then have le: "?p \<le> fp_lastSlowPath s" by simp
    then have "unat ?p \<le> unat (fp_lastFastPath s)" using slow by (simp add: word_le_nat_alt)
    moreover have one: "1 \<le> unat ?p" using mv(2) by (simp add: word_le_nat_alt)
    ultimately obtain e where e: "log_num_at (fp_log s) (unat ?p) = Some e" "fslot (fp_log s) (unat ?p) = Some (request e)"
      using fp_wf_entry [OF w] by blast
    have at: "log_at (fp_log s) ?p = Some e" using e(1) by (simp add: log_at_num)
    have st: "state e = LOG_STATE_PREPARED"
      using w e(1) lt unfolding fp_wf_def by (auto simp: word_less_nat_alt)
    have R: "fg_R ?h (unat ?p) = Some (request e)" using e(2) by (simp add: fp_own_sel)
    show ?thesis
    proof (cases "fok_slowpath m = 0 \<and> req_id (request e) \<noteq> req_id (fok_req m)")
      case True
      then have "fp_HandlePrepareOK c remote m s = fp_ResendPrepare c s"
        using guards le at st i by (auto simp: fp_HandlePrepareOK_def Find_ok [OF lok] req_id_def not_less)
      then show ?thesis
        using fp_core_ResendPrepare [OF core mem [unfolded i]] keep i by (auto simp: fp_does_def elim: returns_mono)
    next
      case False
      let ?slow = "fok_slowpath m \<noteq> 0"
      let ?q = "if ?slow then fp_slowPrepareOKQuorum s else fp_fastPrepareOKQuorum s"
      let ?idx = "int_of_u32 (fok_replicaIdx m)" and ?vs = "viewstamp2 0 ?p"
      let ?q' = "QS_Add ?vs ?idx m ?q"
      let ?s = "if ?slow then s\<lparr>fp_slowPrepareOKQuorum := ?q'\<rparr> else s\<lparr>fp_fastPrepareOKQuorum := ?q'\<rparr>"
      have same: "fp_log ?s = fp_log s" "fp_lastCommitted ?s = fp_lastCommitted s" "fp_lastSlowPath ?s = fp_lastSlowPath s"
          "fp_lastFastPath ?s = fp_lastFastPath s" "fp_sent ?s = fp_sent s" "fp_view ?s = fp_view s" by simp_all
      have own: "fp_own 0 g ?s = ?h" using fp_holds_cong [of ?s s] same by (simp add: fp_own_def)
      have ack: "fp_acks ?h ?idx ?p (req_id (request e))"
      proof (cases ?slow)
      case slow: True
      then have "\<forall>x. fp_acks ?h ?idx ?p x" using m i unfolding fp_prepareOK_ok_def by simp
      then show ?thesis by blast
    next
      case fast: False
      then show ?thesis using m False i unfolding fp_prepareOK_ok_def by simp
    qed
      have qok: "QS_ok ?q" "fp_votes_ok ?h ?q" using w lead by (simp_all add: fp_wf_def fp_lead_ok_def)
      have qok': "QS_ok ?q'" "fp_votes_ok ?h ?q'" using QS_ok_Add [OF qok(1)] fp_votes_Add [OF qok(2) R ack] by blast+
      have req: "QuorumSize (fe_config c) - 1 \<le> numRequired ?q'"
        using lead FastQuorum_ge [of "fe_config c"] mem by (auto simp: fp_lead_ok_def fp_member_def)
      have later: "fp_later 0 s ?s" using fp_holds_cong [of ?s s] same by (simp add: fp_later_def)
      have w': "fp_wf ?s" using w qok' by (cases ?slow) (simp_all add: fp_wf_def)
      have lead': "fp_lead_ok c ?h ?s" using lead qok' by (cases ?slow) (simp_all add: fp_lead_ok_def)
      have core': "fp_core c g 0 ?s"
        using core by (intro fp_core_step [OF core later w']) (auto simp: own lead' fp_core_def)
      have found: "Find c ?p (fp_log s) = Inr (Some e)" using at by (simp add: Find_ok [OF lok])
      have len: "length (QS_at ?q' ?vs) = length (smap_put ?idx m (QS_at ?q ?vs))" by simp
      show ?thesis
      proof (cases "numRequired ?q \<le> int (length (smap_put ?idx m (QS_at ?q ?vs)))")
        case no: False
        then have "fp_HandlePrepareOK c remote m s = Inr ?s"
          using guards le found st i False
          by (auto simp: fp_HandlePrepareOK_def req_id_def not_less Let_def QS_AddAndCheckForQuorum_eq)
        then show ?thesis using keep [OF core' later] same i by (simp add: fp_does_def later)
      next
        case yes: True
        have qp: "fp_quorum_at c ?h ?p"
          using fp_votes_quorum [OF qok' fp_gwf_own [OF wf mem, unfolded i] R] yes len req R
          unfolding fp_quorum_at_def by (intro disjI2 exI [of _ "request e"]) (auto simp del: QS_at_simps)
        have le1: "?p \<le> fp_lastSlowPath ?s" unfolding same(3) by (rule le)
        have mx: "max ?p (fp_lastCommitted ?s) = ?p" unfolding same(2) using lt by simp
        have "returns (fp_CommitUpTo c ?p ?s) (\<lambda>t. fp_core c g 0 t \<and> fp_same ?s t \<and> fp_later 0 ?s t \<and>
            fp_lastCommitted t = ?p)"
          using fp_core_CommitUpTo [OF core' le1] unfolding mx by blast
        then obtain t where t: "fp_CommitUpTo c ?p ?s = Inr t" "fp_core c g 0 t" "fp_same ?s t" "fp_later 0 ?s t"
            "fp_lastCommitted t = ?p"
          by (rule returnsE) blast
        have qt: "fp_quorum_at c (fp_own 0 g t) ?p"
          using fp_quorum_grow [OF qp] fp_later_grow [OF t(4), of g] fp_gwf_own [OF wf mem] unfolding own i by blast
        let ?m = "FPCommit (FPCommitMessage (fp_view t) (fp_lastCommitted t) (request e))"
        let ?t = "fp_emit (FSendToAll ?m) t"
        have "fslot (fp_log t) (unat ?p) = Some (request e)" using t(3) e(2) same by (simp add: fp_same_def)
        then have "fp_core c g 0 ?t \<and> fp_later 0 t ?t"
          using t(5) fp_core_view [OF t(2)] by (intro fp_core_emit [OF t(2)]) (auto simp: fp_own_sel)
        moreover have "fp_own 0 g ?t = fp_own 0 g t" using fp_holds_cong [of ?t t] by (simp add: fp_own_def)
        ultimately have fin: "fp_fits c g 0 ?t" "fp_fits c g 0 t" "fp_later 0 s t" "fp_later 0 s ?t"
          using t(2,5) qt fp_later_trans [OF later t(4)] fp_later_trans [of 0 s t ?t] by (simp_all add: fp_fits_def)
        have "fp_HandlePrepareOK c remote m s = Inr t \<or> fp_HandlePrepareOK c remote m s = Inr ?t"
          using guards le found st i False yes t(1)
          by (auto simp: fp_HandlePrepareOK_def req_id_def not_less Let_def QS_AddAndCheckForQuorum_eq)
        then show ?thesis using fin i by (auto simp: fp_does_def)
      qed
    qed
  qed
qed

section \<open>New operations\<close>

lemma fp_calls_cong: "(\<And>k. 1 \<le> k \<Longrightarrow> k \<le> unat n \<Longrightarrow> R k = R' k) \<Longrightarrow> fp_calls R n = fp_calls R' n"
  unfolding fp_calls_def by (rule map_cong) auto

lemma fp_core_append:
  assumes core: "fp_core c g i s" and room: "unat (fp_lastFastPath s) \<le> 2 ^ 59"
    and app: "Append c (mk_LogEntry (viewstamp2 0 (fp_lastFastPath s + 1)) LOG_STATE_PREPARED r) (fp_log s) = Inr (fp_log t)"
    and cnt: "fp_lastFastPath t = fp_lastFastPath s + 1" "fp_lastCommitted t = fp_lastCommitted s"
      "fp_lastSlowPath t = fp_lastSlowPath s \<or> fp_lastSlowPath s = fp_lastFastPath s \<and> fp_lastSlowPath t = fp_lastFastPath t"
    and same: "fp_status t = fp_status s" "fp_view t = fp_view s" "fp_slowPrepareOKQuorum t = fp_slowPrepareOKQuorum s"
      "fp_fastPrepareOKQuorum t = fp_fastPrepareOKQuorum s" "fp_sent t = fp_sent s"
      "set (fp_pendingPrepares t) \<subseteq> set (fp_pendingPrepares s)" "set (fp_pendingPrepareOKs t) \<subseteq> set (fp_pendingPrepareOKs s)"
      "i \<noteq> 0 \<longrightarrow> \<not> armed (fp_resendPrepareTimeout t)"
    and slow: "i \<noteq> 0 \<longrightarrow> fp_lastSlowPath t \<noteq> fp_lastSlowPath s \<longrightarrow> fg_R g (Suc (unat (fp_lastFastPath s))) = Some r"
    and lead: "i = 0 \<longrightarrow> fp_lastSlowPath t = fp_lastFastPath t \<and>
      fp_lastPrepare t = FPPrepare (FPPrepareMessage 0 (fp_lastFastPath t) r)"
  shows "fp_core c g i t" and "fp_later i s t" and "fslot (fp_log t) (unat (fp_lastFastPath t)) = Some r"
    and "unat (fp_lastFastPath t) = Suc (unat (fp_lastFastPath s))"
proof -
  have w: "fp_wf s" using core by (simp add: fp_core_def)
  have qok: "QS_ok (fp_slowPrepareOKQuorum t)" "QS_ok (fp_fastPrepareOKQuorum t)" using w same by (simp_all add: fp_wf_def)
  note t = fp_append_wf [OF w room app cnt same(1,2) qok]
  show later: "fp_later i s t" and u: "unat (fp_lastFastPath t) = Suc (unat (fp_lastFastPath s))" using t(2,4) by blast+
  show top: "fslot (fp_log t) (unat (fp_lastFastPath t)) = Some r" using t(3) u by simp
  have com: "unat (fp_lastCommitted s) \<le> unat (fp_lastSlowPath s)" "unat (fp_lastSlowPath s) \<le> unat (fp_lastFastPath s)"
    using w by (simp_all add: fp_wf_def word_le_nat_alt)
  have old: "fslot (fp_log t) k = fslot (fp_log s) k" if "k \<le> unat (fp_lastFastPath s)" for k
    using t(3) that by simp
  show "fp_core c g i t"
  proof (rule fp_core_step [OF core later t(1)])
    show "\<forall>k. 1 \<le> k \<and> k \<le> unat (fp_lastSlowPath t) \<longrightarrow> fslot (fp_log t) k = fg_R (fp_own i g t) k"
    proof (cases "i = 0")
      case False
      have "fslot (fp_log t) k = fg_R g k" if k: "1 \<le> k" "k \<le> unat (fp_lastSlowPath t)" for k
      proof (cases "k \<le> unat (fp_lastSlowPath s)")
        case True
        then show ?thesis using core False k old com by (simp add: fp_core_def fp_own_sel)
      next
        case new: False
        then have "fp_lastSlowPath t \<noteq> fp_lastSlowPath s" using k by auto
        with cnt(3) have sl: "fp_lastSlowPath s = fp_lastFastPath s" "fp_lastSlowPath t = fp_lastFastPath t" by auto
        then have "k = Suc (unat (fp_lastFastPath s))" using k new u by simp
        then show ?thesis using slow False \<open>fp_lastSlowPath t \<noteq> fp_lastSlowPath s\<close> top u by simp
      qed
      then show ?thesis using False by (simp add: fp_own_sel)
    qed (simp add: fp_own_sel)
    show "fp_executed (fp_sent t) = fp_calls (fslot (fp_log t)) (fp_lastCommitted t)"
      using core com old fp_calls_cong [of "fp_lastCommitted s" "fslot (fp_log t)" "fslot (fp_log s)"] same(5) cnt(2)
      by (simp add: fp_core_def)
    show "i = 0 \<longrightarrow> fp_lead_ok c (fp_own i g t) t"
    proof
      assume i: "i = 0"
      then have "fp_lead_ok c (fp_own i g s) s" using core by (simp add: fp_core_def)
      from fp_lead_grow [OF fp_later_grow [OF later] this] show "fp_lead_ok c (fp_own i g t) t"
        using lead i same(3,4) top by (simp add: fp_lead_ok_def fp_prepare_ok_def fp_own_sel)
    qed
    show "i \<noteq> 0 \<longrightarrow> fp_lastCommitted t \<le> fg_C g" using core cnt(2) by (auto simp: fp_core_def fp_own_sel)
  qed (use same in auto)
qed

lemma fp_core_replace:
  assumes core: "fp_core c g i s" and i: "i \<noteq> 0"
    and opn: "opn = fp_lastSlowPath s + 1" "opn \<le> fp_lastFastPath s" "fp_lastSlowPath s < opn"
    and R: "fg_R g (unat opn) = Some r"
  obtains l where "fp_Replace c opn r s = Inr (s\<lparr>fp_log := l\<rparr>)"
    and "fp_core c g i (s\<lparr>fp_log := l, fp_lastSlowPath := opn\<rparr>)"
    and "fp_later i s (s\<lparr>fp_log := l, fp_lastSlowPath := opn\<rparr>)"
proof -
  have w: "fp_wf s" using core by (simp add: fp_core_def)
  from fp_replace_wf [OF w opn, of c r i] obtain l where run: "fp_Replace c opn r s = Inr (s\<lparr>fp_log := l\<rparr>)"
    and all: "\<forall>t. fp_log t = l \<longrightarrow> fp_lastSlowPath t = opn \<longrightarrow> fp_lastFastPath t = fp_lastFastPath s \<longrightarrow>
       fp_lastCommitted t = fp_lastCommitted s \<longrightarrow> fp_status t = fp_status s \<longrightarrow> fp_view t = fp_view s \<longrightarrow>
       QS_ok (fp_slowPrepareOKQuorum t) \<longrightarrow> QS_ok (fp_fastPrepareOKQuorum t) \<longrightarrow>
       fp_wf t \<and> (i \<noteq> 0 \<longrightarrow> fp_later i s t) \<and> fslot (fp_log t) = (fslot (fp_log s))(unat opn \<mapsto> r)" by blast
  let ?t = "s\<lparr>fp_log := l, fp_lastSlowPath := opn\<rparr>"
  have t: "fp_wf ?t" "fp_later i s ?t" "fslot l = (fslot (fp_log s))(unat opn \<mapsto> r)"
    using all [rule_format, of ?t] w i by (simp_all add: fp_wf_def)
  have u: "unat opn = Suc (unat (fp_lastSlowPath s))"
    using opn(1,3) unat_less_succ by metis
  have com: "unat (fp_lastCommitted s) \<le> unat (fp_lastSlowPath s)" using w by (simp add: fp_wf_def word_le_nat_alt)
  have "fp_core c g i ?t"
  proof (rule fp_core_step [OF core t(2,1)])
    show "\<forall>k. 1 \<le> k \<and> k \<le> unat (fp_lastSlowPath ?t) \<longrightarrow> fslot (fp_log ?t) k = fg_R (fp_own i g ?t) k"
      using core i t(3) u R by (auto simp: fp_core_def fp_own_sel le_Suc_eq)
    show "fp_executed (fp_sent ?t) = fp_calls (fslot (fp_log ?t)) (fp_lastCommitted ?t)"
      using core com u fp_calls_cong [of "fp_lastCommitted s" "fslot l" "fslot (fp_log s)"] t(3) by (simp add: fp_core_def)
  qed (use core i in \<open>auto simp: fp_core_def fp_own_sel\<close>)
  with run t(2) that show ?thesis by blast
qed

section \<open>Composition\<close>

lemma fp_doesI: "r = Inr t \<Longrightarrow> fp_fits c g i t \<Longrightarrow> fp_later i s t \<Longrightarrow> fp_does c g i s r"
  by (simp add: fp_does_def)

lemma fp_does_later: "fp_does c g i t r \<Longrightarrow> fp_later i s t \<Longrightarrow> fp_does c g i s r"
  unfolding fp_does_def by (erule returns_mono) (blast intro: fp_later_trans)

lemma fp_does_bind:
  "fp_does c g i s r \<Longrightarrow> (\<And>t. r = Inr t \<Longrightarrow> fp_fits c g i t \<Longrightarrow> fp_later i s t \<Longrightarrow> fp_does c g i t (f t)) \<Longrightarrow>
   fp_does c g i s (bind_r r f)"
  by (cases r) (auto simp: fp_does_def intro: fp_does_later [unfolded fp_does_def])

lemma fp_does_fold:
  assumes "fp_fits c g i s" and "\<And>x t. x \<in> set xs \<Longrightarrow> fp_fits c g i t \<Longrightarrow> fp_later i s t \<Longrightarrow> fp_does c g i t (f x t)"
  shows "fp_does c g i s (fold_r f xs s)"
  using assms
proof (induction xs arbitrary: s)
  case Nil
  then show ?case by (simp add: fp_does_def)
next
  case (Cons x xs)
  show ?case
    unfolding fold_r.simps
  proof (rule fp_does_bind)
    show "fp_does c g i s (f x s)" using Cons.prems(1) by (intro Cons.prems(2)) simp_all
    fix t assume t: "fp_fits c g i t" "fp_later i s t"
    show "fp_does c g i t (fold_r f xs t)"
    proof (rule Cons.IH [OF t(1)])
      fix y u assume "y \<in> set xs" "fp_fits c g i u" "fp_later i t u"
      then show "fp_does c g i u (f y u)" by (intro Cons.prems(2) fp_later_trans [OF t(2)]) simp_all
    qed
  qed
qed

section \<open>Requests\<close>

lemma fp_does_AcceptRequest:
  assumes fits: "fp_fits c g i s" and wf: "fp_gwf c g" and mem: "fp_member c i"
    and room: "unat (fp_lastFastPath s) \<le> 2 ^ 59"
  shows "fp_does c g i s (fp_AcceptRequest c req s)"
proof -
  let ?s = "fp_UpdateClientTable req s"
  have "fp_core c g i s" using fits by (simp add: fp_fits_def)
  from fp_core_UpdateClientTable [OF this] have core: "fp_core c g i ?s" "fp_later i s ?s" by blast+
  have w: "fp_wf ?s" and v: "fp_view ?s = 0" using core(1) by (simp_all add: fp_core_def fp_wf_def)
  have room': "unat (fp_lastFastPath ?s) \<le> 2 ^ 59" using room by simp
  from fp_log_append(1) [OF w room', of c req] obtain l where
    app: "Append c (mk_LogEntry (viewstamp2 0 (fp_lastFastPath ?s + 1)) LOG_STATE_PREPARED req) (fp_log ?s) = Inr l" by blast
  have lead: "fp_AmLeader c u \<longleftrightarrow> i = 0" if "fp_view u = 0" for u using fp_AmLeader_iff [OF mem that] .
  show ?thesis
  proof (cases "i = 0")
    case i: True
    then have eq: "fp_lastSlowPath ?s = fp_lastFastPath ?s" using core(1) by (simp add: fp_core_def fp_lead_ok_def)
    let ?opn = "fp_lastFastPath ?s + 1"
    let ?t = "?s\<lparr>fp_lastSlowPath := ?opn, fp_lastFastPath := ?opn, fp_log := l,
        fp_lastPrepare := FPPrepare (FPPrepareMessage 0 ?opn req),
        fp_resendPrepareTimeout := Timeout_Reset (fp_resendPrepareTimeout ?s), fp_pendingPrepareOKs := []\<rparr>"
    have t: "fp_core c g i ?t" "fp_later i ?s ?t"
      using fp_core_append [OF core(1) room', of req ?t] app eq i by simp_all
    have later: "fp_later i s ?t" using core(2) t(2) by (rule fp_later_trans)
    have fits': "fp_fits c g i ?t" by (rule fp_fits_later [OF fits wf mem t(1) later]) simp
    have run: "fp_AcceptRequest c req s =
        fold_r (\<lambda>(remote, msg). fp_HandlePrepareOK c remote msg) (fp_pendingPrepareOKs s) ?t"
      using app eq v i lead by (simp add: fp_AcceptRequest_def fp_Append_def fp_LeaderLogged_def Let_def viewstamp2_def)
    have pend: "fp_prepareOK_ok (fp_own i g s) (snd x)" if "x \<in> set (fp_pendingPrepareOKs s)" for x
      using that fits by (simp add: fp_fits_def fp_core_def fp_talk_ok_def)
    show ?thesis
      unfolding run
    proof (rule fp_does_later [OF fp_does_fold [OF fits'] later])
      fix x u assume x: "x \<in> set (fp_pendingPrepareOKs s)" and u: "fp_fits c g i u" "fp_later i ?t u"
      have "fp_prepareOK_ok (fp_own i g u) (snd x)"
        using fp_prepareOK_grow [OF fp_later_grow [OF fp_later_trans [OF later u(2)]] pend [OF x]] .
      then show "fp_does c g i u ((\<lambda>(remote, msg). fp_HandlePrepareOK c remote msg) x u)"
        using fp_does_HandlePrepareOK [OF u(1) wf mem] by (simp add: case_prod_beta)
    qed
  next
    case i: False
    let ?opn = "fp_lastFastPath ?s + 1"
    let ?t = "?s\<lparr>fp_lastFastPath := ?opn, fp_log := l\<rparr>"
    have timer: "\<not> armed (fp_resendPrepareTimeout ?s)" using core(1) i by (simp add: fp_core_def)
    have t: "fp_core c g i ?t" "fp_later i ?s ?t" "fslot l (unat ?opn) = Some req" "unat ?opn = Suc (unat (fp_lastFastPath ?s))"
      using fp_core_append [OF core(1) room', of req ?t] app i timer by simp_all
    let ?m = "FPPrepareOK (FPPrepareOKMessage 0 ?opn (fe_u32 c) req 0)"
    have "1 \<le> ?opn" using t(4) by (simp add: word_le_nat_alt)
    then have "fp_holds ?t ?opn (req_id req)" using t(3) by (simp add: fp_holds_def)
    then have "fp_acks (fp_own i g ?t) (int_of_u32 (fe_u32 c)) ?opn (req_id req)"
      using i fe_u32_member [OF mem] unfolding fp_acks_def by (intro exI [of _ i]) (simp add: fp_own_sel)
    then have "fp_core c g i (fp_emit (FSendToReplica 0 ?m) ?t) \<and> fp_later i ?t (fp_emit (FSendToReplica 0 ?m) ?t)"
      using \<open>1 \<le> ?opn\<close> by (intro fp_core_emit [OF t(1)]) (simp_all add: fp_prepareOK_ok_def)
    moreover have "fp_AcceptRequest c req s = Inr (fp_emit (FSendToReplica 0 ?m) ?t)"
      using app v i lead fp_leader_index [OF mem]
      by (simp add: fp_AcceptRequest_def fp_Append_def fp_FollowerLogged_def fp_to_leader_def Let_def viewstamp2_def)
    ultimately show ?thesis
      using i core(2) t(2) by (auto simp: fp_does_def fp_fits_follower intro: fp_later_trans)
  qed
qed

lemma fp_does_quiet:
  assumes fits: "fp_fits c g i s" and wf: "fp_gwf c g" and mem: "fp_member c i"
    and t: "fp_core c g i t \<and> fp_later i s t" and same: "fp_lastCommitted t = fp_lastCommitted s"
  shows "fp_does c g i s (Inr t)"
  using fp_fits_later [OF fits wf mem _ _ same] t by (simp add: fp_does_def)

lemma fp_does_HandleRequest:
  assumes fits: "fp_fits c g i s" and wf: "fp_gwf c g" and mem: "fp_member c i"
    and room: "unat (fp_lastFastPath s) \<le> 2 ^ 59"
  shows "fp_does c g i s (fp_HandleRequest c remote req s)"
proof -
  have core: "fp_core c g i s" using fits by (simp add: fp_fits_def)
  let ?s = "s\<lparr>fp_clientAddresses := (fp_clientAddresses s)(clientid req \<mapsto> remote)\<rparr>"
  have q: "fp_core c g i ?s \<and> fp_later i s ?s"
    by (rule fp_core_quiet [OF core]) (use core in \<open>auto simp: fp_same_def fp_core_def\<close>)
  have fits': "fp_fits c g i ?s" using fp_does_quiet [OF fits wf mem q] by (simp add: fp_does_def)
  have acc: "fp_does c g i s (fp_AcceptRequest c req ?s)"
    using fp_does_later [OF fp_does_AcceptRequest [OF fits' wf mem]] q room by simp
  have emit: "fp_does c g i s (Inr (fp_emit (FSendToClient remote m) ?s))" for m
  proof (rule fp_does_later)
    show "fp_does c g i ?s (Inr (fp_emit (FSendToClient remote m) ?s))"
      by (rule fp_does_quiet [OF fits' wf mem fp_core_emit]) (use q in simp_all)
  qed (use q in blast)
  show ?thesis
    using acc emit fits q fits' fp_core_view [OF core]
    by (auto simp: fp_HandleRequest_def Let_def fp_does_def split: option.split)
qed

lemma fp_does_HandleUnloggedRequest:
  assumes fits: "fp_fits c g i s" and wf: "fp_gwf c g" and mem: "fp_member c i"
  shows "fp_does c g i s (fp_HandleUnloggedRequest c remote req s)"
proof -
  have core: "fp_core c g i s" using fits by (simp add: fp_fits_def)
  have "fp_core c g i t \<and> fp_later i s t" if "t = fp_emit (FSendToClient remote m) (s\<lparr>fp_app := a\<rparr>)" for t m a
    unfolding that by (rule fp_core_quiet [OF core]) (use core in \<open>auto simp: fp_same_def fp_core_def\<close>)
  then show ?thesis
    using fp_core_view [OF core] fp_does_quiet [OF fits wf mem]
    by (auto simp: fp_HandleUnloggedRequest_def Let_def case_prod_beta)
qed

end
