(* ===== verification/FPFollower.thy ===== *)
theory FPFollower
  imports FPHandled
begin

text \<open>
  The handlers that only a follower takes part in, state transfer, and with \<open>FPHandled\<close> every event of a
  Fast Paxos replica (\<open>fp_does_event\<close>).
\<close>

section \<open>Prepare and commit\<close>

lemma fp_next_number:
  assumes "fp_lastSlowPath s < opn" and "\<not> opn > fp_lastSlowPath s + 1"
  shows "opn = fp_lastSlowPath s + 1"
  using assms unat_less_succ [OF assms(1)] by (simp add: word_unat_eq_iff word_less_nat_alt)

text \<open>A slow-path acknowledgement for an operation of the slow path keeps its promise.\<close>

lemma fp_does_ack:
  assumes core: "fp_core c g i s" and i: "i \<noteq> 0" and mem: "fp_member c i"
    and opn: "1 \<le> opn" "opn \<le> fp_lastSlowPath s"
  shows "fp_core c g i (fp_to_leader c (FPPrepareOK (FPPrepareOKMessage 0 opn (fe_u32 c) r 1)) s) \<and>
    fp_later i s (fp_to_leader c (FPPrepareOK (FPPrepareOKMessage 0 opn (fe_u32 c) r 1)) s)"
proof -
  have "opn \<le> fp_lastFastPath s" using core opn(2) by (auto simp: fp_core_def fp_wf_def)
  then have "fp_acks (fp_own i g s) (int_of_u32 (fe_u32 c)) opn x" for x
    using i fe_u32_member [OF mem] opn unfolding fp_acks_def
    by (intro exI [of _ i]) (simp add: fp_own_sel fp_holds_def)
  then have "fp_prepareOK_ok (fp_own i g s) (FPPrepareOKMessage 0 opn (fe_u32 c) r 1)"
    using opn(1) unfolding fp_prepareOK_ok_def by simp
  then show ?thesis
    unfolding fp_to_leader_def by (intro fp_core_emit [OF core]) simp_all
qed

lemma fp_prepare_later:
  assumes core: "fp_core c g i s" and i: "i \<noteq> 0" and m: "fp_prepare_ok g m"
  shows "fp_core c g i ((fp_RequestStateTransfer s)\<lparr>fp_pendingPrepares :=
      fp_pendingPrepares (fp_RequestStateTransfer s) @ [(remote, m)]\<rparr>) \<and>
    fp_later i s ((fp_RequestStateTransfer s)\<lparr>fp_pendingPrepares :=
      fp_pendingPrepares (fp_RequestStateTransfer s) @ [(remote, m)]\<rparr>)" (is "fp_core c g i ?t \<and> _")
proof -
  note u = fp_core_RequestStateTransfer [OF core i]
  have "fp_prepare_ok (fp_own i g (fp_RequestStateTransfer s)) m"
    using m i by (simp add: fp_prepare_ok_def fp_own_sel)
  then have "fp_core c g i ?t \<and> fp_later i (fp_RequestStateTransfer s) ?t"
    using u i by (intro fp_core_quiet) (auto simp: fp_same_def fp_core_def)
  with u show ?thesis by (blast intro: fp_later_trans)
qed

lemma fp_does_HandlePrepare:
  assumes core: "fp_core c g i s" and i: "i \<noteq> 0" and mem: "fp_member c i" and m: "fp_prepare_ok g m"
    and room: "\<forall>k. fg_R g k \<noteq> None \<longrightarrow> k \<le> 2 ^ 59" and R0: "fg_R g 0 = None"
  shows "fp_does c g i s (fp_HandlePrepare c remote m s)"
proof -
  let ?opn = "fpr_opnum m" and ?r = "fpr_req m"
  have v: "fpr_view m = 0" and R: "fg_R g (unat ?opn) = Some ?r" using m by (simp_all add: fp_prepare_ok_def)
  have one: "1 \<le> ?opn" using R R0 by (cases "?opn = 0") (auto simp: word_le_nat_alt Suc_le_eq unat_gt_0)
  note guards = fp_core_view [OF core] fp_AmLeader_iff [OF mem] v i
  let ?ok = "fp_to_leader c (FPPrepareOK (FPPrepareOKMessage 0 ?opn (fe_u32 c) ?r 1))"
  have finish: "fp_does c g i s (Inr (?ok (fp_UpdateClientTable ?r t)))"
    if t: "fp_core c g i t" "fp_later i s t" "?opn \<le> fp_lastSlowPath t" for t
  proof -
    note u = fp_core_UpdateClientTable [OF t(1), of ?r]
    note a = fp_does_ack [OF conjunct1 [OF u] i mem one, of ?r]
    show ?thesis
      using a u t i by (auto simp: fp_does_def fp_fits_follower intro: fp_later_trans)
  qed
  consider (acked) "?opn \<le> fp_lastSlowPath s" | (gap) "fp_lastSlowPath s < ?opn" "?opn > fp_lastSlowPath s + 1"
    | (new) "fp_lastSlowPath s < ?opn" "\<not> ?opn > fp_lastSlowPath s + 1" by fastforce
  then show ?thesis
  proof cases
    case acked
    then have "fp_HandlePrepare c remote m s = Inr (?ok s)" using guards by (simp add: fp_HandlePrepare_def Let_def)
    then show ?thesis
      using fp_does_ack [OF core i mem one acked] i by (simp add: fp_does_def fp_fits_follower)
  next
    case gap
    have "\<not> ?opn \<le> fp_lastSlowPath s" using gap(1) by simp
    with gap(2) have "fp_HandlePrepare c remote m s = Inr ((fp_RequestStateTransfer s)\<lparr>fp_pendingPrepares :=
        fp_pendingPrepares (fp_RequestStateTransfer s) @ [(remote, m)]\<rparr>)"
      using guards by (simp add: fp_HandlePrepare_def Let_def)
    then show ?thesis using fp_prepare_later [OF core i m] i by (simp add: fp_does_def fp_fits_follower)
  next
    case new
    then have opn: "?opn = fp_lastSlowPath s + 1" by (rule fp_next_number)
    have nle: "\<not> ?opn \<le> fp_lastSlowPath s" using new(1) by simp
    show ?thesis
    proof (cases "?opn > fp_lastFastPath s")
      case True
      have "fp_lastSlowPath s \<le> fp_lastFastPath s" using core by (simp add: fp_core_def fp_wf_def)
      with True new(1) opn have eq: "fp_lastSlowPath s = fp_lastFastPath s"
        using unat_less_succ [OF new(1)] by (simp add: word_unat_eq_iff word_le_nat_alt word_less_nat_alt)
      have u: "unat ?opn = Suc (unat (fp_lastFastPath s))" using unat_less_succ [OF new(1)] opn eq by simp
      then have small: "unat (fp_lastFastPath s) \<le> 2 ^ 59" using room R by (metis Suc_leD option.distinct(1))
      have w: "fp_wf s" using core by (simp add: fp_core_def)
      from fp_log_append(1) [OF w small, of c ?r] obtain l where
        app: "Append c (mk_LogEntry (viewstamp2 0 (fp_lastFastPath s + 1)) LOG_STATE_PREPARED ?r) (fp_log s) = Inr l" by blast
      let ?t = "s\<lparr>fp_lastFastPath := fp_lastFastPath s + 1, fp_lastSlowPath := fp_lastSlowPath s + 1, fp_log := l\<rparr>"
      have timer: "\<not> armed (fp_resendPrepareTimeout s)" using core i by (simp add: fp_core_def)
      have t: "fp_core c g i ?t" "fp_later i s ?t"
        using fp_core_append [OF core small, of ?r ?t] app eq i timer R u by simp_all
      have "fp_HandlePrepare c remote m s = Inr (?ok (fp_UpdateClientTable ?r ?t))"
        using guards nle new(2) True app opn eq
        by (simp add: fp_HandlePrepare_def Let_def fp_Append_def)
      then show ?thesis using finish [OF t] opn by simp
    next
      case False
      then have le: "?opn \<le> fp_lastFastPath s" by simp
      from fp_core_replace [OF core i opn le new(1) R] obtain l where
        l: "fp_Replace c ?opn ?r s = Inr (s\<lparr>fp_log := l\<rparr>)" "fp_core c g i (s\<lparr>fp_log := l, fp_lastSlowPath := ?opn\<rparr>)"
          "fp_later i s (s\<lparr>fp_log := l, fp_lastSlowPath := ?opn\<rparr>)" by blast
      have "fp_HandlePrepare c remote m s = Inr (?ok (fp_UpdateClientTable ?r (s\<lparr>fp_log := l, fp_lastSlowPath := ?opn\<rparr>)))"
        using guards nle new(2) False l(1) opn by (simp add: fp_HandlePrepare_def Let_def)
      then show ?thesis using finish [OF l(2,3)] by simp
    qed
  qed
qed

lemma fp_does_commit:
  assumes core: "fp_core c g i s" and i: "i \<noteq> 0" and n: "n \<le> fp_lastSlowPath s" "n \<le> fg_C g"
  shows "fp_does c g i s (fp_CommitUpTo c n s)"
  using fp_core_CommitUpTo [OF core n(1)] n(2) i by (auto simp: fp_does_def fp_fits_follower elim: returns_mono)

lemma fp_does_HandleCommit:
  assumes core: "fp_core c g i s" and i: "i \<noteq> 0" and mem: "fp_member c i"
    and m: "fc_view m = 0" "fc_opnum m \<le> fg_C g" "fg_R g (unat (fc_opnum m)) = Some (fc_req m)"
  shows "fp_does c g i s (fp_HandleCommit c remote m s)"
proof -
  let ?opn = "fc_opnum m"
  note guards = fp_core_view [OF core] fp_AmLeader_iff [OF mem] m(1) i
  have same: "fp_does c g i s (Inr s)" using core i by (simp add: fp_does_def fp_fits_follower)
  have rst: "fp_does c g i s (Inr (fp_RequestStateTransfer s))"
    using fp_core_RequestStateTransfer [OF core i] i by (simp add: fp_does_def fp_fits_follower)
  show ?thesis
  proof (cases "fp_lastSlowPath s < ?opn \<and> \<not> ?opn > fp_lastSlowPath s + 1 \<and> ?opn \<le> fp_lastFastPath s")
    case False
    then show ?thesis
      using guards same rst fp_does_commit [OF core i _ m(2)]
      by (auto simp: fp_HandleCommit_def Let_def not_less)
  next
    case True
    then have opn: "?opn = fp_lastSlowPath s + 1" using fp_next_number by blast
    from fp_core_replace [OF core i opn _ _ m(3)] True obtain l where
      l: "fp_Replace c ?opn (fc_req m) s = Inr (s\<lparr>fp_log := l\<rparr>)"
        "fp_core c g i (s\<lparr>fp_log := l, fp_lastSlowPath := ?opn\<rparr>)"
        "fp_later i s (s\<lparr>fp_log := l, fp_lastSlowPath := ?opn\<rparr>)" by blast
    let ?t = "s\<lparr>fp_log := l, fp_lastSlowPath := ?opn\<rparr>"
    have "fp_does c g i ?t (fp_CommitUpTo c ?opn ?t)" by (rule fp_does_commit [OF l(2) i _ m(2)]) simp
    then have "fp_does c g i s (fp_CommitUpTo c ?opn (s\<lparr>fp_log := l\<rparr>))"
      using fp_CommitUpTo_slow [of "s\<lparr>fp_log := l\<rparr>" ?opn c] True fp_does_later [OF _ l(3)] by simp
    moreover have "\<not> ?opn \<le> fp_lastCommitted s"
      using core True by (auto simp: fp_core_def fp_wf_def)
    ultimately show ?thesis
      using guards same True l(1) by (auto simp: fp_HandleCommit_def Let_def not_less)
  qed
qed

section \<open>State transfer\<close>

lemma fp_does_HandleRequestStateTransfer:
  assumes fits: "fp_fits c g i s" and wf: "fp_gwf c g" and mem: "fp_member c i"
    and m: "frt_view m = 0" "src \<noteq> 0" "frt_opnum m \<le> fg_com g src" and com: "i = 0 \<longrightarrow> fg_com g src \<le> fp_lastCommitted s"
  shows "fp_does c g i s (fp_HandleRequestStateTransfer c src m s)"
proof -
  have core: "fp_core c g i s" using fits by (simp add: fp_fits_def)
  note guards = fp_core_view [OF core] fp_AmLeader_iff [OF mem] m(1)
  show ?thesis
  proof (cases "i = 0")
    case False
    then show ?thesis using guards fits by (simp add: fp_HandleRequestStateTransfer_def fp_does_def)
  next
    case i: True
    have w: "fp_wf s" and lead: "fp_lastSlowPath s = fp_lastFastPath s"
      using core i by (simp_all add: fp_core_def fp_lead_ok_def)
    have l: "log_ok (fp_log s)" "start (fp_log s) = 1" "log_top (fp_log s) = Suc (unat (fp_lastFastPath s))"
        "unat (fp_lastCommitted s) \<le> unat (fp_lastFastPath s)"
      using w by (auto simp: fp_wf_def word_le_nat_alt)
    have "unat (frt_opnum m) \<le> unat (fp_lastCommitted s)" using m(3) com i by (auto simp: word_le_nat_alt)
    then have b: "unat (frt_opnum m + 1) = Suc (unat (frt_opnum m))"
      using l(4) log_ok_bound [OF l(1)] l(3) by (intro unat_succ_bound) simp
    let ?b = "Suc (unat (frt_opnum m))"
    let ?es = "map dump_entry (drop (unat (frt_opnum m)) (entries (fp_log s)))"
    have dump: "Dump c (frt_opnum m + 1) (fp_log s) = Inr ?es"
      using Dump_ok [OF l(1), of c "frt_opnum m + 1"] b l(2) by (simp add: max_def word_le_nat_alt)
    have len: "length (entries (fp_log s)) = unat (fp_lastFastPath s)" using l(2,3) by (simp add: log_top_def)
    have at: "log_num_at (fp_log s) (?b + j) = Some (drop (unat (frt_opnum m)) (entries (fp_log s)) ! j)"
      if "j < length ?es" for j
      using that l(2,3) len by (simp add: log_num_at_def)
    have ent: "unat (me_opnum (?es ! j)) = ?b + j \<and> me_view (?es ! j) = 0 \<and>
        fslot (fp_log s) (?b + j) = Some (me_request (?es ! j))" if "j < length ?es" for j
    proof -
      note e = at [OF that]
      have "vs_view (viewstamp (drop (unat (frt_opnum m)) (entries (fp_log s)) ! j)) = 0"
        using w e unfolding fp_wf_def by blast
      moreover have "unat (vs_opnum (viewstamp (entries (fp_log s) ! (unat (frt_opnum m) + j)))) = ?b + j"
        using log_ok_nth [OF l(1), of "unat (frt_opnum m) + j"] that l(2) by simp
      ultimately show ?thesis using e that by (simp add: dump_entry_def fslot_def)
    qed
    have es: "fp_entries_ok (fp_own 0 g s) ?b ?es"
      using ent by (auto simp: fp_entries_ok_def numbered_from_def in_set_conv_nth fp_own_sel)
    let ?m = "FPStateTransfer (FPStateTransferMessage (fp_view s) (fp_lastCommitted s) ?es (fp_lastSlowPath s))"
    have "fp_msg_ok (fp_own 0 g s) 0 src ?m"
      using m(2,3) es guards len l(4) \<open>unat (frt_opnum m) \<le> unat (fp_lastCommitted s)\<close>
      by (auto simp: fp_own_sel word_le_nat_alt intro!: exI [of _ ?b])
    then have "fp_core c g i (fp_emit (FSend src ?m) s) \<and> fp_later i s (fp_emit (FSend src ?m) s)"
      using i by (intro fp_core_emit [OF core]) simp_all
    moreover have "fp_HandleRequestStateTransfer c src m s = Inr (fp_emit (FSend src ?m) s)"
      using guards dump lead i by (simp add: fp_HandleRequestStateTransfer_def)
    ultimately show ?thesis using fp_does_quiet [OF fits wf mem] by simp
  qed
qed

text \<open>
  The loop of \<open>HandleStateTransfer\<close>: entry \<open>b\<close> is next, and the slow path reaches at least up to it.
\<close>

lemma fp_core_transfer_entry:
  assumes core: "fp_core c g i s" and i: "i \<noteq> 0" and room: "\<forall>k. fg_R g k \<noteq> None \<longrightarrow> k \<le> 2 ^ 59"
    and e: "unat (me_opnum e) = b" "me_view e = 0" "fg_R g b = Some (me_request e)"
    and b: "1 \<le> b" "b \<le> Suc (unat (fp_lastSlowPath s))"
  shows "returns (fp_transfer_entry c e (old, s)) (\<lambda>(old', t). old' = old \<and> fp_core c g i t \<and> fp_later i s t \<and>
    b \<le> unat (fp_lastSlowPath t) \<and> fp_lastSlowPath s \<le> fp_lastSlowPath t)"
proof -
  let ?opn = "me_opnum e" and ?r = "me_request e"
  have w: "fp_wf s" using core by (simp add: fp_core_def)
  have ord: "fp_lastCommitted s \<le> fp_lastSlowPath s" "fp_lastSlowPath s \<le> fp_lastFastPath s" and lok: "log_ok (fp_log s)"
    using w by (simp_all add: fp_wf_def)
  consider (committed) "?opn \<le> fp_lastCommitted s" | (slow) "\<not> ?opn \<le> fp_lastCommitted s" "?opn \<le> fp_lastSlowPath s"
    | (fast) "\<not> ?opn \<le> fp_lastCommitted s" "\<not> ?opn \<le> fp_lastSlowPath s" "?opn \<le> fp_lastFastPath s"
    | (new) "\<not> ?opn \<le> fp_lastCommitted s" "\<not> ?opn \<le> fp_lastSlowPath s" "\<not> ?opn \<le> fp_lastFastPath s" by blast
  then show ?thesis
  proof cases
    case committed
    then have "?opn \<le> fp_lastSlowPath s" using ord(1) by auto
    with committed show ?thesis using core e(1) by (simp add: fp_transfer_entry_def Let_def word_le_nat_alt)
  next
    case slow
    then have "unat ?opn \<le> unat (fp_lastFastPath s)" using ord(2) by (simp add: word_le_nat_alt)
    moreover have "1 \<le> unat ?opn" using b(1) e(1) by simp
    ultimately obtain x where x: "log_num_at (fp_log s) (unat ?opn) = Some x" using fp_wf_entry [OF w] by blast
    then have at: "log_at (fp_log s) ?opn = Some x" by (simp add: log_at_num)
    have "vs_view (viewstamp x) = 0" "state x = LOG_STATE_PREPARED"
      using w x slow(1) unfolding fp_wf_def by (auto simp: word_le_nat_alt)
    then show ?thesis
      using slow at core e log_at_opnum [OF lok at]
      by (simp add: fp_transfer_entry_def Let_def Find_ok [OF lok] word_le_nat_alt)
  next
    case fast
    have lt: "fp_lastSlowPath s < ?opn" using fast(2) by simp
    have opn: "?opn = fp_lastSlowPath s + 1"
      using b(2) e(1) lt unat_less_succ [OF lt] by (simp add: word_unat_eq_iff word_less_nat_alt)
    have "fg_R g (unat ?opn) = Some ?r" using e(1,3) by simp
    from fp_core_replace [OF core i opn fast(3) lt this] obtain l where
      l: "fp_Replace c ?opn ?r s = Inr (s\<lparr>fp_log := l\<rparr>)" "fp_core c g i (s\<lparr>fp_log := l, fp_lastSlowPath := ?opn\<rparr>)"
        "fp_later i s (s\<lparr>fp_log := l, fp_lastSlowPath := ?opn\<rparr>)" by blast
    then show ?thesis
      using fast lt opn e(1) by (simp add: fp_transfer_entry_def Let_def)
  next
    case new
    have lt: "fp_lastSlowPath s < ?opn" using new(2) by simp
    have opn: "?opn = fp_lastSlowPath s + 1"
      using b(2) e(1) lt unat_less_succ [OF lt] by (simp add: word_unat_eq_iff word_less_nat_alt)
    have u: "unat ?opn = Suc (unat (fp_lastSlowPath s))" using unat_less_succ [OF lt] opn by simp
    have eq: "fp_lastSlowPath s = fp_lastFastPath s"
      using ord(2) new(3) u by (simp add: word_unat_eq_iff word_le_nat_alt)
    have small: "unat (fp_lastFastPath s) \<le> 2 ^ 59" using room e(1,3) u eq by (metis Suc_leD option.distinct(1))
    from fp_log_append(1) [OF w small, of c ?r] obtain l where
      app: "Append c (mk_LogEntry (viewstamp2 0 (fp_lastFastPath s + 1)) LOG_STATE_PREPARED ?r) (fp_log s) = Inr l" by blast
    let ?t = "s\<lparr>fp_lastSlowPath := fp_lastSlowPath s + 1, fp_lastFastPath := fp_lastFastPath s + 1, fp_log := l\<rparr>"
    have timer: "\<not> armed (fp_resendPrepareTimeout s)" using core i by (simp add: fp_core_def)
    have R: "fg_R g (Suc (unat (fp_lastFastPath s))) = Some ?r" using e(1,3) u eq by simp
    have t: "fp_core c g i ?t" "fp_later i s ?t"
      using fp_core_append [OF core small, of ?r ?t] app eq i timer R by simp_all
    have "fp_transfer_entry c e (old, s) = Inr (old, ?t)"
      using new opn eq app e(2) by (simp add: fp_transfer_entry_def Let_def fp_Append_def)
    then show ?thesis using t opn lt e(1) by simp
  qed
qed

lemma fp_core_transfer_loop:
  assumes "fp_core c g i s" and "i \<noteq> 0" and "\<forall>k. fg_R g k \<noteq> None \<longrightarrow> k \<le> 2 ^ 59"
    and "fp_entries_ok g b es" and "1 \<le> b" and "b \<le> Suc (unat (fp_lastSlowPath s))"
  shows "returns (fold_r (fp_transfer_entry c) es (old, s)) (\<lambda>(old', t). old' = old \<and> fp_core c g i t \<and>
    fp_later i s t \<and> b + length es \<le> Suc (unat (fp_lastSlowPath t)) \<and> fp_lastSlowPath s \<le> fp_lastSlowPath t)"
  using assms
proof (induction es arbitrary: b s)
  case Nil
  then show ?case by simp
next
  case (Cons e es)
  have e: "unat (me_opnum e) = b" "me_view e = 0" "fg_R g b = Some (me_request e)" and es: "fp_entries_ok g (Suc b) es"
    using Cons.prems(4) by (auto simp: fp_entries_ok_def numbered_from_Cons)
  from fp_core_transfer_entry [OF Cons.prems(1-3) e Cons.prems(5,6), of old] obtain t where
    t: "fp_transfer_entry c e (old, s) = Inr (old, t)" "fp_core c g i t" "fp_later i s t"
      "b \<le> unat (fp_lastSlowPath t)" "fp_lastSlowPath s \<le> fp_lastSlowPath t"
    by (auto elim!: returnsE)
  have "Suc b \<le> Suc (unat (fp_lastSlowPath t))" using t(4) by simp
  from Cons.IH [OF t(2) Cons.prems(2,3) es _ this] show ?case
    using t by (auto elim!: returns_mono intro: fp_later_trans order_trans)
qed

lemma fp_core_SendPrepareOKs:
  assumes core: "fp_core c g i s" and i: "i \<noteq> 0" and mem: "fp_member c i"
  shows "fp_does c g i s (fp_SendPrepareOKs c old s)"
  unfolding fp_SendPrepareOKs_def
proof -
  let ?I = "\<lambda>t. fp_core c g i t \<and> fp_later i s t \<and> fp_lastSlowPath t = fp_lastSlowPath s"
  have one: "returns (fp_SendPrepareOK_for c n t) ?I" if t: "?I t" and n: "unat n \<le> unat (fp_lastSlowPath s)" for n t
  proof (cases "n \<le> fp_lastCommitted t")
    case True
    then show ?thesis using t by (simp add: fp_SendPrepareOK_for_def)
  next
    case False
    have w: "fp_wf t" using t by (simp add: fp_core_def)
    have one: "1 \<le> n" using False by (cases "n = 0") (auto simp: word_le_nat_alt Suc_le_eq unat_gt_0)
    have le: "n \<le> fp_lastSlowPath t" using t n by (simp add: word_le_nat_alt)
    moreover have "fp_lastSlowPath t \<le> fp_lastFastPath t" using w by (simp add: fp_wf_def)
    ultimately have "unat n \<le> unat (fp_lastFastPath t)" "1 \<le> unat n" using one by (auto simp: word_le_nat_alt)
    then obtain e where e: "log_num_at (fp_log t) (unat n) = Some e" using fp_wf_entry [OF w] by blast
    have lok: "log_ok (fp_log t)" using w by (simp add: fp_wf_def)
    have "state e = LOG_STATE_PREPARED" using w e False unfolding fp_wf_def by (auto simp: word_le_nat_alt)
    then have run: "fp_SendPrepareOK_for c n t = Inr (fp_to_leader c (FPPrepareOK (FPPrepareOKMessage 0 n (fe_u32 c)
        (request e) 1)) (fp_UpdateClientTable (request e) t))"
      using e False fp_core_view [OF conjunct1 [OF t]] by (simp add: fp_SendPrepareOK_for_def Let_def Find_ok [OF lok] log_at_num)
    note u = fp_core_UpdateClientTable [OF conjunct1 [OF t], of "request e"]
    have "n \<le> fp_lastSlowPath (fp_UpdateClientTable (request e) t)" using le by simp
    from fp_does_ack [OF conjunct1 [OF u] i mem one this, of "request e"] show ?thesis
      using u t unfolding run by (auto simp: fp_to_leader_def intro: fp_later_trans)
  qed
  have "returns (fold_r (fp_SendPrepareOK_for c) xs t) ?I"
    if "?I t" "\<forall>n \<in> set xs. unat n \<le> unat (fp_lastSlowPath s)" for xs t
    using that
  proof (induction xs arbitrary: t)
    case (Cons x xs)
    from Cons.prems(2) have "unat x \<le> unat (fp_lastSlowPath s)" by simp
    from one [OF Cons.prems(1) this] obtain u where "fp_SendPrepareOK_for c x t = Inr u" "?I u" by (auto elim: returnsE)
    then show ?case using Cons.IH [of u] Cons.prems(2) by simp
  qed simp
  note all = this
  have rng: "\<forall>n \<in> set (op_range old (fp_lastSlowPath s)). unat n \<le> unat (fp_lastSlowPath s)"
    by (auto simp: op_range_def word_le_nat_alt unat_of_nat intro: order_trans [OF take_bit_nat_less_eq_self])
  have "returns (fold_r (fp_SendPrepareOK_for c) (op_range old (fp_lastSlowPath s)) s) ?I"
    by (rule all [OF _ rng]) (use core in simp)
  then show "fp_does c g i s (fold_r (fp_SendPrepareOK_for c) (op_range old (fp_lastSlowPath s)) s)"
    using i by (auto simp: fp_does_def fp_fits_follower elim: returns_mono)
qed

lemma fp_does_HandleStateTransfer:
  assumes core: "fp_core c g i s" and i: "i \<noteq> 0" and mem: "fp_member c i"
    and room: "\<forall>k. fg_R g k \<noteq> None \<longrightarrow> k \<le> 2 ^ 59" and R0: "fg_R g 0 = None"
    and m: "fst_view m = 0" "fst_opnum m \<le> fg_C g" "fp_entries_ok g b (fst_entries m)"
      "1 \<le> b" "b \<le> Suc (unat (fp_lastCommitted s))" "unat (fst_opnum m) < b + length (fst_entries m)"
  shows "fp_does c g i s (fp_HandleStateTransfer c remote m s)"
proof -
  note guards = fp_core_view [OF core] m(1)
  have "unat (fp_lastCommitted s) \<le> unat (fp_lastSlowPath s)" using core by (simp add: fp_core_def fp_wf_def word_le_nat_alt)
  with m(5) have b: "b \<le> Suc (unat (fp_lastSlowPath s))" by simp
  from fp_core_transfer_loop [OF core i room m(3,4) b, of "fp_lastSlowPath s"] obtain t where
    t: "fold_r (fp_transfer_entry c) (fst_entries m) (fp_lastSlowPath s, s) = Inr (fp_lastSlowPath s, t)"
      "fp_core c g i t" "fp_later i s t" "b + length (fst_entries m) \<le> Suc (unat (fp_lastSlowPath t))"
    by (auto elim!: returnsE)
  have le: "fst_opnum m \<le> fp_lastSlowPath t" using t(4) m(6) by (simp add: word_le_nat_alt)
  have v: "fp_view t = 0" "fp_lastSlowPath t \<le> fp_lastFastPath t" using t(2) by (simp_all add: fp_core_def fp_wf_def)
  have run: "fp_HandleStateTransfer c remote m s = bind_r (fp_CommitUpTo c (fst_opnum m) t) (\<lambda>s3.
      bind_r (fp_SendPrepareOKs c (fp_lastSlowPath s) s3) (\<lambda>s4.
        fold_r (\<lambda>(remote', pm). fp_HandlePrepare c remote' pm) (fp_pendingPrepares s4) (s4\<lparr>fp_pendingPrepares := []\<rparr>)))"
    using guards t(1) le v by (simp add: fp_HandleStateTransfer_def Let_def)
  have "fp_does c g i t (fp_HandleStateTransfer c remote m s)"
    unfolding run
  proof (rule fp_does_bind [OF fp_does_commit [OF t(2) i le m(2)]], rule fp_does_bind)
    fix s3 assume "fp_fits c g i s3"
    then show "fp_does c g i s3 (fp_SendPrepareOKs c (fp_lastSlowPath s) s3)"
      by (intro fp_core_SendPrepareOKs [OF _ i mem]) (simp add: fp_fits_def)
  next
    fix s4 assume "fp_fits c g i s4"
    then have c4: "fp_core c g i s4" by (simp add: fp_fits_def)
    have q: "fp_core c g i (s4\<lparr>fp_pendingPrepares := []\<rparr>) \<and> fp_later i s4 (s4\<lparr>fp_pendingPrepares := []\<rparr>)"
      by (rule fp_core_quiet [OF c4]) (use c4 in \<open>auto simp: fp_same_def fp_core_def\<close>)
    have pend: "fp_prepare_ok g (snd x)" if "x \<in> set (fp_pendingPrepares s4)" for x
      using that c4 i by (auto simp: fp_core_def fp_talk_ok_def fp_prepare_ok_def fp_own_sel)
    show "fp_does c g i s4 (fold_r (\<lambda>(remote', pm). fp_HandlePrepare c remote' pm) (fp_pendingPrepares s4)
        (s4\<lparr>fp_pendingPrepares := []\<rparr>))"
    proof (rule fp_does_later [OF fp_does_fold])
      show "fp_fits c g i (s4\<lparr>fp_pendingPrepares := []\<rparr>)" using q i by (simp add: fp_fits_follower)
      fix x u assume "x \<in> set (fp_pendingPrepares s4)" and "fp_fits c g i u"
      then show "fp_does c g i u ((\<lambda>(remote', pm). fp_HandlePrepare c remote' pm) x u)"
        using fp_does_HandlePrepare [OF _ i mem pend room R0] by (simp add: case_prod_beta fp_fits_def)
    qed (use q in blast)
  qed
  then show ?thesis by (rule fp_does_later [OF _ t(3)])
qed

section \<open>Every event\<close>

text \<open>What the rest of the group means for replica \<open>i\<close>: the leader is ahead of everybody's commit point.\<close>

definition fp_around :: "'app fp_env \<Rightarrow> fp_ghost \<Rightarrow> bool" where
  "fp_around c g \<longleftrightarrow> fp_gwf c g \<and> fg_R g 0 = None \<and> (\<forall>k. fg_R g k \<noteq> None \<longrightarrow> k \<le> 2 ^ 59) \<and> (\<forall>j. fg_com g j \<le> fg_C g)"

lemma fp_does_timer:
  assumes fits: "fp_fits c g i s" and wf: "fp_gwf c g" and mem: "fp_member c i" and armed: "fp_timer_armed k s"
  shows "fp_does c g i s (fp_timer_callback c k s)"
proof -
  have core: "fp_core c g i s" using fits by (simp add: fp_fits_def)
  show ?thesis
  proof (cases k)
    case FPStateTransferTimer
    let ?t = "s\<lparr>fp_lastRequestStateTransferView := 0, fp_lastRequestStateTransferOpnum := 0\<rparr>"
    have "fp_core c g i ?t \<and> fp_later i s ?t"
      by (rule fp_core_quiet [OF core]) (use core in \<open>auto simp: fp_same_def fp_core_def\<close>)
    then show ?thesis using fp_does_quiet [OF fits wf mem] FPStateTransferTimer by simp
  next
    case FPResendPrepareTimer
    then have i: "i = 0" using armed core by (auto simp: fp_core_def)
    show ?thesis
      using fp_core_ResendPrepare [OF core [unfolded i] mem [unfolded i]] fp_fits_later [OF fits wf mem] i FPResendPrepareTimer
      by (auto simp: fp_does_def elim!: returns_mono)
  qed
qed

lemma fp_does_event:
  assumes fits: "fp_fits c g i s" and own: "fp_own i g s = g" and around: "fp_around c g" and mem: "fp_member c i"
    and room: "unat (fp_lastFastPath s) \<le> 2 ^ 59"
    and msg: "\<And>src m. ev = FPDeliver src m \<Longrightarrow> fp_from_client m \<or> fp_msg_ok g src i m"
  shows "fp_does c g i s (fp_event_step c ev s)"
proof (cases ev)
  case (FPFire k)
  then show ?thesis
    using fp_does_timer [OF fits _ mem] fits around
    by (auto simp: fp_event_step_def fp_around_def fp_does_def)
next
  case (FPDeliver src m)
  have wf: "fp_gwf c g" and R0: "fg_R g 0 = None" and big: "\<forall>k. fg_R g k \<noteq> None \<longrightarrow> k \<le> 2 ^ 59"
    and com: "\<And>j. fg_com g j \<le> fg_C g" using around by (simp_all add: fp_around_def)
  have core: "fp_core c g i s" using fits by (simp add: fp_fits_def)
  have "fg_com g i = fp_lastCommitted s" "i = 0 \<longrightarrow> fg_C g = fp_lastCommitted s"
    by (metis own fp_own_sel(3), metis own fp_own_sel(2))
  note own' = this
  have "fp_does c g i s (fp_ReceiveMessage c src m s)"
  proof (cases m)
    case FPReplicaMsgNotSet
    then show ?thesis using msg [OF FPDeliver] by simp
  next
    case (FPRequest x)
    then show ?thesis using fp_does_HandleRequest [OF fits wf mem room] by simp
  next
    case (FPUnloggedRequest x)
    then show ?thesis using fp_does_HandleUnloggedRequest [OF fits wf mem] by simp
  next
    case (FPPrepare x)
    then show ?thesis using fp_does_HandlePrepare [OF core _ mem _ big R0] msg [OF FPDeliver] by simp
  next
    case (FPPrepareOK x)
    then show ?thesis using fp_does_HandlePrepareOK [OF fits wf mem] msg [OF FPDeliver] own by simp
  next
    case (FPCommit x)
    then show ?thesis using fp_does_HandleCommit [OF core _ mem] msg [OF FPDeliver] by simp
  next
    case (FPRequestStateTransfer x)
    have "i = 0 \<longrightarrow> fg_com g src \<le> fp_lastCommitted s" using com [of src] own' by auto
    then show ?thesis
      using fp_does_HandleRequestStateTransfer [OF fits wf mem, of x src] msg [OF FPDeliver] FPRequestStateTransfer by simp
  next
    case (FPStateTransfer x)
    with msg [OF FPDeliver] obtain b where "i \<noteq> 0" "fst_view x = 0" "fst_opnum x \<le> fg_C g" "1 \<le> b"
        "b \<le> Suc (unat (fg_com g i))" "fp_entries_ok g b (fst_entries x)" "unat (fst_opnum x) < b + length (fst_entries x)"
      by auto
    then show ?thesis
      using fp_does_HandleStateTransfer [OF core _ mem big R0] own' FPStateTransfer by simp
  qed
  then show ?thesis by (simp add: fp_event_step_def FPDeliver)
qed

end
