(* ===== verification/FPAgreement.thy ===== *)
theory FPAgreement
  imports FPFollower
begin

text \<open>
  The whole Fast Paxos group. Whatever the network and the clients do, no handler of any replica ever
  fails, all replicas execute the leader's log in order, and the last operation the leader has
  committed is held by a quorum; an earlier one need not be.
\<close>

section \<open>The group's invariant\<close>

definition fp_ghost_of :: "'app fp_system \<Rightarrow> fp_ghost" where
  "fp_ghost_of S =
     \<lparr>fg_R = fslot (fp_log (S ! 0)), fg_C = fp_lastCommitted (S ! 0),
      fg_com = (\<lambda>j. if j < length S then fp_lastCommitted (S ! j) else 0),
      fg_holds = (\<lambda>j. if j < length S then fp_holds (S ! j) else (\<lambda>p x. False))\<rparr>"

definition fp_inv :: "'app fp_env \<Rightarrow> 'app fp_system \<Rightarrow> bool" where
  "fp_inv c S \<longleftrightarrow> int (length S) = num_replicas (fe_config c) \<and>
     (\<forall>i < length S. fp_fits (fe_at c i) (fp_ghost_of S) i (S ! i))"

lemma fp_own_ghost: "i < length S \<Longrightarrow> fp_own i (fp_ghost_of S) (S ! i) = fp_ghost_of S"
  by (auto simp: fp_own_def fp_ghost_of_def fun_eq_iff)

lemma fp_ghost_update: "i < length S \<Longrightarrow> fp_ghost_of (S[i := t]) = fp_own i (fp_ghost_of S) t"
  by (auto simp: fp_own_def fp_ghost_of_def fun_eq_iff nth_list_update)

lemma fe_at_sel [simp]: "fe_config (fe_at c i) = fe_config c" "nassert (fe_at c i) = nassert c"
  "fe_idx (fe_at c i) = int i"
  by (simp_all add: fe_at_def)

lemma fp_core_own:
  assumes "fp_own i g s = g"
  shows "fp_core c g i s \<longleftrightarrow> fp_wf s \<and>
     (\<forall>k. 1 \<le> k \<and> k \<le> unat (fp_lastSlowPath s) \<longrightarrow> fslot (fp_log s) k = fg_R g k) \<and> fp_lastCommitted s \<le> fg_C g \<and>
     fp_executed (fp_sent s) = fp_calls (fslot (fp_log s)) (fp_lastCommitted s) \<and> fp_talk_ok g i s \<and>
     (i = 0 \<longrightarrow> fp_lead_ok c g s) \<and> (i \<noteq> 0 \<longrightarrow> \<not> armed (fp_resendPrepareTimeout s))"
  unfolding fp_core_def assms ..

lemma fp_fits_own:
  assumes "fp_own i g s = g"
  shows "fp_fits c g i s \<longleftrightarrow> fp_core c g i s \<and> (i = 0 \<longrightarrow> fp_quorum_at c g (fp_lastCommitted s))"
  unfolding fp_fits_def assms ..

text \<open>The other replicas' promises last.\<close>

lemma fp_fits_other:
  assumes fits: "fp_fits c g j s" and own: "fp_own j g s = g" "fp_own j g' s = g'" and grow: "fp_grow g g'"
    and wf: "fp_gwf c g'"
  shows "fp_fits c g' j s"
proof -
  have core: "fp_core c g j s" and q: "j = 0 \<longrightarrow> fp_quorum_at c g (fp_lastCommitted s)"
    using fits unfolding fp_fits_own [OF own(1)] by blast+
  have old: "fp_wf s" "\<And>k. 1 \<le> k \<and> k \<le> unat (fp_lastSlowPath s) \<Longrightarrow> fslot (fp_log s) k = fg_R g k" "fp_lastCommitted s \<le> fg_C g"
      "fp_executed (fp_sent s) = fp_calls (fslot (fp_log s)) (fp_lastCommitted s)" "fp_talk_ok g j s"
      "j = 0 \<longrightarrow> fp_lead_ok c g s" "j \<noteq> 0 \<longrightarrow> \<not> armed (fp_resendPrepareTimeout s)"
    using core unfolding fp_core_own [OF own(1)] by blast+
  have slots: "fslot (fp_log s) k = fg_R g' k" if k: "1 \<le> k \<and> k \<le> unat (fp_lastSlowPath s)" for k
  proof -
    have "k \<le> unat (fp_lastFastPath s)" using k old(1) by (auto simp: fp_wf_def word_le_nat_alt)
    with k obtain r where r: "fslot (fp_log s) k = Some r" using fp_wf_entry [OF old(1)] by blast
    with old(2) [OF k] show ?thesis using fp_grow_R [OF grow, of k r] by simp
  qed
  have C: "fp_lastCommitted s \<le> fg_C g'" using old(3) grow by (auto simp: fp_grow_def elim: order_trans)
  have "fp_core c g' j s"
    unfolding fp_core_own [OF own(2)]
    using old slots C fp_talk_grow [OF grow old(5)] fp_lead_grow [OF grow] by blast
  moreover have "j = 0 \<longrightarrow> fp_quorum_at c g' (fp_lastCommitted s)"
    using q fp_quorum_grow [OF _ grow wf] by blast
  ultimately show ?thesis unfolding fp_fits_own [OF own(2)] by blast
qed

lemma fp_inv_member:
  assumes inv: "fp_inv c S" and n: "num_replicas (fe_config c) < 2 ^ 31" "0 \<le> num_faults (fe_config c)" and i: "i < length S"
  shows "fp_member (fe_at c i) i"
  using assms by (simp add: fp_member_def fp_inv_def)

lemma fp_inv_around:
  assumes inv: "fp_inv c S" and room: "fp_room S" and S: "0 < length S"
  shows "fp_around (fe_at c i) (fp_ghost_of S)"
proof -
  have core: "fp_core (fe_at c j) (fp_ghost_of S) j (S ! j)" if "j < length S" for j
    using inv that by (simp add: fp_inv_def fp_fits_def)
  have wf: "fp_wf (S ! 0)" using core [OF S] by (simp add: fp_core_def)
  have top: "unat (fp_lastFastPath (S ! 0)) < 2 ^ 59" using room S by (simp add: fp_room_def)
  have "fp_gwf (fe_at c i) (fp_ghost_of S)"
    using inv by (auto simp: fp_gwf_def fp_ghost_of_def fp_inv_def split: if_splits)
  moreover have "fg_R (fp_ghost_of S) 0 = None"
    using wf by (simp add: fp_ghost_of_def fslot_def log_num_at_def fp_wf_def)
  moreover have "\<forall>k. fg_R (fp_ghost_of S) k \<noteq> None \<longrightarrow> k \<le> 2 ^ 59"
    using wf top by (auto simp: fp_ghost_of_def fslot_def log_num_at_def fp_wf_def)
  moreover have "fg_com (fp_ghost_of S) j \<le> fg_C (fp_ghost_of S)" for j
    using core [of j] fp_own_ghost [of j S] by (cases "j < length S") (auto simp: fp_core_def fp_ghost_of_def)
  ultimately show ?thesis by (simp add: fp_around_def)
qed

lemma fp_delivered:
  assumes inv: "fp_inv c S" and i: "i < length S" and en: "fp_enabled S i (FPDeliver src m)"
  shows "fp_from_client m \<or> fp_msg_ok (fp_ghost_of S) src i m"
proof -
  have "fp_msg_ok (fp_ghost_of S) src i m"
    if "src < length S" "e \<in> set (fp_sent (S ! src))" "fp_carries src i e m" for e
  proof -
    have "fp_talk_ok (fp_ghost_of S) src (S ! src)"
      using inv that(1) unfolding fp_inv_def fp_fits_own [OF fp_own_ghost [OF that(1)]] fp_core_own [OF fp_own_ghost [OF that(1)]]
      by (metis (mono_tags) fp_core_own fp_fits_own fp_own_ghost)
    then have "fp_eff_ok (fp_ghost_of S) src e" using that(2) by (simp add: fp_talk_ok_def)
    then show ?thesis using that(3) by (cases e) auto
  qed
  then show ?thesis using en by auto
qed

text \<open>An enabled event of any replica returns, and the group's invariant holds afterwards.\<close>

lemma fp_inv_event:
  assumes inv: "fp_inv c S" and n: "num_replicas (fe_config c) < 2 ^ 31" "0 \<le> num_faults (fe_config c)"
    and room: "fp_room S" and i: "i < length S" and en: "fp_enabled S i ev"
  shows "returns (fp_event_step (fe_at c i) ev (S ! i)) (\<lambda>t. fp_inv c (S[i := t]))"
proof -
  let ?g = "fp_ghost_of S"
  have fits: "fp_fits (fe_at c j) ?g j (S ! j)" if "j < length S" for j using inv that by (simp add: fp_inv_def)
  have S: "0 < length S" using i by linarith
  note mem = fp_inv_member [OF inv n]
  note around = fp_inv_around [OF inv room S]
  have small: "unat (fp_lastFastPath (S ! i)) \<le> 2 ^ 59" using room i by (simp add: fp_room_def less_imp_le)
  have "fp_from_client m \<or> fp_msg_ok ?g src i m" if "ev = FPDeliver src m" for src m
    using fp_delivered [OF inv i] en that by simp
  from fp_does_event [OF fits [OF i] fp_own_ghost [OF i] around mem [OF i] small this]
  obtain t where t: "fp_event_step (fe_at c i) ev (S ! i) = Inr t" "fp_fits (fe_at c i) ?g i t" "fp_later i (S ! i) t"
    by (auto simp: fp_does_def elim: returnsE)
  let ?S = "S[i := t]" and ?h = "fp_ghost_of (S[i := t])"
  have h: "?h = fp_own i ?g t" by (rule fp_ghost_update [OF i])
  have grow: "fp_grow ?g ?h"
    using fp_later_grow [OF t(3), of ?g] unfolding h fp_own_ghost [OF i] .
  have wf: "fp_gwf (fe_at c j) ?h" for j
    using inv by (auto simp: fp_gwf_def fp_ghost_of_def fp_inv_def split: if_splits)
  have "fp_fits (fe_at c j) ?h j (?S ! j)" if j: "j < length S" for j
  proof (cases "j = i")
    case True
    have twice: "fp_own i (fp_own i ?g t) t = fp_own i ?g t" by (simp add: fp_own_def)
    have "fp_fits (fe_at c i) (fp_own i ?g t) i t"
      using t(2) unfolding fp_fits_own [OF twice] fp_core_own [OF twice] unfolding fp_fits_def fp_core_def .
    moreover have "?S ! j = t" using True i by simp
    ultimately show ?thesis unfolding h True by simp
  next
    case False
    have "fp_own j ?h (S ! j) = ?h" using fp_own_ghost [of j ?S] j False by simp
    then have "fp_fits (fe_at c j) ?h j (S ! j)"
      by (intro fp_fits_other [OF fits [OF j] fp_own_ghost [OF j] _ grow wf])
    then show ?thesis using False j by simp
  qed
  then show ?thesis using t(1) inv by (simp add: fp_inv_def)
qed

lemma fp_new_fits:
  assumes "FastPaxosReplica_new c True a = Inr s"
  shows "fp_wf s" "fp_lastCommitted s = 0" "fp_lastSlowPath s = 0" "fp_lastFastPath s = 0" "fp_sent s = []"
    "fp_pendingPrepares s = []" "fp_pendingPrepareOKs s = []" "\<not> armed (fp_resendPrepareTimeout s)" "fp_lead_ok c g s"
proof -
  have "assert_r (nassert c) (EMPTY_HASH = EMPTY_HASH) r = (r :: Log result)" for r by (simp add: assert_r_def)
  with assms have s: "s = projr (FastPaxosReplica_new c True a)" by simp
  note new = s [unfolded FastPaxosReplica_new_def mk_Log_def, simplified]
  show "fp_wf s" by (simp add: new fp_wf_def log_ok_def log_top_def log_num_at_def)
  show "fp_lastCommitted s = 0" "fp_lastSlowPath s = 0" "fp_lastFastPath s = 0" "fp_sent s = []"
    "fp_pendingPrepares s = []" "fp_pendingPrepareOKs s = []" by (simp_all add: new)
  show "\<not> armed (fp_resendPrepareTimeout s)" by (simp add: new mk_Timeout_def)
  show "fp_lead_ok c g s" by (simp add: new fp_lead_ok_def fp_votes_ok_def QS_votes_def)
qed

lemma fp_inv_initial:
  assumes init: "fp_initial c a S"
  shows "fp_inv c S"
proof -
  have "fp_fits (fe_at c i) (fp_ghost_of S) i (S ! i)" if i: "i < length S" for i
  proof -
    have "FastPaxosReplica_new (fe_at c i) True a = Inr (S ! i)" using init i by (simp add: fp_initial_def)
    note new = fp_new_fits [OF this]
    show ?thesis
      unfolding fp_fits_own [OF fp_own_ghost [OF i]] fp_core_own [OF fp_own_ghost [OF i]]
      using new(1-8) new(9) [of "fp_ghost_of S"] by (intro conjI impI) (simp_all add: fp_talk_ok_def fp_calls_def fp_quorum_at_def)
  qed
  then show ?thesis using init by (simp add: fp_inv_def fp_initial_def)
qed

definition fp_sane :: "'app fp_env \<Rightarrow> bool" where
  "fp_sane c \<longleftrightarrow> num_replicas (fe_config c) < 2 ^ 31 \<and> 0 \<le> num_faults (fe_config c)"

lemma fp_reach_inv:
  assumes "fp_reach c a S" and "fp_sane c"
  shows "fp_inv c S"
  using assms(1)
proof (induction rule: fp_reach.induct)
  case (initial S)
  then show ?case by (rule fp_inv_initial)
next
  case (event S i ev s)
  have "returns (fp_event_step (fe_at c i) ev (S ! i)) (\<lambda>t. fp_inv c (S[i := t]))"
    using assms(2) event by (intro fp_inv_event) (auto simp: fp_sane_def)
  then show ?case using event.hyps(5) by simp
qed

section \<open>Executable runs of three replicas\<close>

lemma fp_room_code [code]: "fp_room S \<longleftrightarrow> (\<forall>s \<in> set S. fp_lastFastPath s < 576460752303423488)"
  by (simp add: fp_room_def word_less_nat_alt)

definition fp_env3 :: "bool \<Rightarrow> unit fp_env" where
  "fp_env3 na = \<lparr>nassert = na, sha1 = (\<lambda>_. ''''), fe_config = conf3, fe_idx = 0, fe_app_code = default_AppReplica\<rparr>"

definition fp_start3 :: "bool \<Rightarrow> unit fp_system" where
  "fp_start3 na = map (\<lambda>i. projr (FastPaxosReplica_new (fe_at (fp_env3 na) i) True ())) [0, 1, 2]"

fun fp_run :: "'app fp_env \<Rightarrow> (nat \<times> fp_event) list \<Rightarrow> 'app fp_system \<Rightarrow> 'app fp_system option" where
  "fp_run c [] S = Some S"
| "fp_run c ((i, ev) # es) S =
     (if i < length S \<and> fp_enabled S i ev \<and> fp_room S
      then case fp_event_step (fe_at c i) ev (S ! i) of Inl _ \<Rightarrow> None | Inr s \<Rightarrow> fp_run c es (S[i := s])
      else None)"

lemma fp_run_reach: "fp_run c es S = Some S' \<Longrightarrow> fp_reach c a S \<Longrightarrow> fp_reach c a S'"
proof (induction c es S rule: fp_run.induct)
  case (2 c i ev es S)
  then show ?case by (auto split: if_splits sum.splits intro: fp_reach.event)
qed simp

lemma fp_start3_initial: "fp_initial (fp_env3 na) () (fp_start3 na)"
proof -
  have "FastPaxosReplica_new (fe_at (fp_env3 na) i) True () = Inr (projr (FastPaxosReplica_new (fe_at (fp_env3 na) i) True ()))" for i
    by (rule not_isl_result) (simp add: FastPaxosReplica_new_def mk_Log_def)
  moreover have "(\<forall>i < Suc (Suc (Suc 0)). P i) \<longleftrightarrow> P 0 \<and> P (Suc 0) \<and> P 2" for P :: "nat \<Rightarrow> bool"
    by (auto simp: numeral_2_eq_2 less_Suc_eq)
  ultimately show ?thesis
    by (simp add: fp_initial_def fp_start3_def fp_env3_def conf3_def)
qed

lemma fp_sane3: "fp_sane (fp_env3 na)"
  by (simp add: fp_sane_def fp_env3_def conf3_def)

lemma fp_run3_reach: "fp_run (fp_env3 na) es (fp_start3 na) = Some S \<Longrightarrow> fp_reach (fp_env3 na) () S"
  by (rule fp_run_reach [OF _ fp_reach.initial [OF fp_start3_initial]])

definition fp_req :: "u64 \<Rightarrow> Request" where
  "fp_req k = mk_req k 1 [char_of (96 + unat k)]"

definition fp_submit :: "nat \<Rightarrow> u64 \<Rightarrow> nat \<times> fp_event" where
  "fp_submit i k = (i, FPDeliver 100 (FPRequest (fp_req k)))"

definition fp_fast_ok :: "nat \<Rightarrow> opnum_t \<Rightarrow> u64 \<Rightarrow> nat \<times> fp_event" where
  "fp_fast_ok j p k = (0, FPDeliver j (FPPrepareOK (FPPrepareOKMessage 0 p (of_nat j) (fp_req k) 0)))"

text \<open>The followers get requests 24 and 2, the leader 1 and 2; the fast quorum for 2 arrives.\<close>

definition fp_overtaken :: "(nat \<times> fp_event) list" where
  "fp_overtaken = [fp_submit 0 1, fp_submit 0 2, fp_submit 1 24, fp_submit 1 2, fp_submit 2 24, fp_submit 2 2,
     fp_fast_ok 1 2 2, fp_fast_ok 2 2 2]"

definition fp_view_of :: "unit fp_system \<Rightarrow> nat \<times> opnum_t list \<times> (opnum_t \<times> bytes) list list \<times> bool \<times> u64 list list \<times> bool \<times> bool" where
  "fp_view_of S = (length S, map fp_lastCommitted S, map (\<lambda>s. fp_executed (fp_sent s)) S,
     FSendToClient 100 (FPReply (FPReplyMessage 0 1 '''' 1)) \<in> set (fp_sent (S ! 0)),
     map (\<lambda>s. map (clientid \<circ> request) (entries (fp_log s))) S, fp_room S,
     fp_enabled S 1 (FPDeliver 0 (FPCommit (FPCommitMessage 0 2 (fp_req 2)))))"

lemma fp_overtaken_outcome:
  "map_option fp_view_of (fp_run (fp_env3 True) fp_overtaken (fp_start3 True)) =
   Some (3, [2, 0, 0], [[(1, ''a''), (2, ''b'')], [], []], True, [[1, 2], [24, 2], [24, 2]], True, True)"
  "map_option fp_view_of (fp_run (fp_env3 False) fp_overtaken (fp_start3 False)) =
   Some (3, [2, 0, 0], [[(1, ''a''), (2, ''b'')], [], []], True, [[1, 2], [24, 2], [24, 2]], True, True)"
  by code_simp+

section \<open>No handler ever fails\<close>

text \<open>
  C10. In every run of a group of Fast Paxos replicas, with clients that send anything to anyone and a network
  that loses, repeats and reorders, an event that can happen at a replica never fails: no assertion is violated,
  nothing panics, no pointer is dereferenced that \<open>Find\<close> did not find, and no exception is thrown, whether
  assertions are compiled in or not; and the state it leaves is well-formed (\<open>fp_wf\<close>).
\<close>

theorem fp_never_fails:
  assumes "fp_reach c a S" and "fp_sane c" and "fp_room S" and "i < length S" and "fp_enabled S i ev"
  shows "\<exists>t. fp_event_step (fe_at c i) ev (S ! i) = Inr t \<and> fp_wf t"
proof -
  have "returns (fp_event_step (fe_at c i) ev (S ! i)) (\<lambda>t. fp_inv c (S[i := t]))"
    using assms fp_reach_inv [OF assms(1,2)] by (intro fp_inv_event) (simp_all add: fp_sane_def)
  then obtain t where t: "fp_event_step (fe_at c i) ev (S ! i) = Inr t" "fp_inv c (S[i := t])" by (auto elim: returnsE)
  then have "fp_core (fe_at c i) (fp_ghost_of (S[i := t])) i t"
    using assms(4) by (force simp: fp_inv_def fp_fits_def)
  then show ?thesis using t(1) by (simp add: fp_core_def)
qed

lemma fp_overtaken_state:
  obtains S where "fp_reach (fp_env3 na) () S" "fp_view_of S =
    (3, [2, 0, 0], [[(1, ''a''), (2, ''b'')], [], []], True, [[1, 2], [24, 2], [24, 2]], True, True)"
proof (cases na)
  case True
  from fp_overtaken_outcome(1) obtain S where "fp_run (fp_env3 na) fp_overtaken (fp_start3 na) = Some S" "fp_view_of S =
    (3, [2, 0, 0], [[(1, ''a''), (2, ''b'')], [], []], True, [[1, 2], [24, 2], [24, 2]], True, True)"
    using True by auto
  with that fp_run3_reach show ?thesis by blast
next
  case False
  from fp_overtaken_outcome(2) obtain S where "fp_run (fp_env3 na) fp_overtaken (fp_start3 na) = Some S" "fp_view_of S =
    (3, [2, 0, 0], [[(1, ''a''), (2, ''b'')], [], []], True, [[1, 2], [24, 2], [24, 2]], True, True)"
    using False by auto
  with that fp_run3_reach show ?thesis by blast
qed

theorem fp_never_fails_witness:
  "\<exists>S t. fp_reach (fp_env3 False) () S \<and> fp_lastCommitted (S ! 0) = 2 \<and>
     fp_event_step (fe_at (fp_env3 False) 1) (FPDeliver 0 (FPCommit (FPCommitMessage 0 2 (fp_req 2)))) (S ! 1) = Inr t"
proof -
  obtain S where S: "fp_reach (fp_env3 False) () S" "fp_view_of S =
    (3, [2, 0, 0], [[(1, ''a''), (2, ''b'')], [], []], True, [[1, 2], [24, 2], [24, 2]], True, True)"
    by (rule fp_overtaken_state)
  have v: "length S = 3" "fp_lastCommitted (S ! 0) = 2" "fp_room S"
      "fp_enabled S 1 (FPDeliver 0 (FPCommit (FPCommitMessage 0 2 (fp_req 2))))"
    using S(2) by (auto simp: fp_view_of_def Cons_eq_map_conv)
  show ?thesis
    using fp_never_fails [OF S(1) fp_sane3 v(3) _ v(4)] S(1) v(1,2) by auto
qed

section \<open>What is executed\<close>

lemma fp_reach_member:
  assumes "fp_reach c a S" and "fp_sane c" and i: "i < length S"
  shows "fp_wf (S ! i)" "fp_lastCommitted (S ! i) \<le> fp_lastCommitted (S ! 0)"
    "fp_executed (fp_sent (S ! i)) = fp_calls (fslot (fp_log (S ! i))) (fp_lastCommitted (S ! i))"
    "\<And>k. 1 \<le> k \<Longrightarrow> k \<le> unat (fp_lastSlowPath (S ! i)) \<Longrightarrow> fslot (fp_log (S ! i)) k = fslot (fp_log (S ! 0)) k"
proof -
  have "fp_core (fe_at c i) (fp_ghost_of S) i (S ! i)"
    using fp_reach_inv [OF assms(1,2)] i by (simp add: fp_inv_def fp_fits_def)
  note core = this [unfolded fp_core_own [OF fp_own_ghost [OF i]]]
  show "fp_wf (S ! i)" "fp_lastCommitted (S ! i) \<le> fp_lastCommitted (S ! 0)"
    "fp_executed (fp_sent (S ! i)) = fp_calls (fslot (fp_log (S ! i))) (fp_lastCommitted (S ! i))"
    "\<And>k. 1 \<le> k \<Longrightarrow> k \<le> unat (fp_lastSlowPath (S ! i)) \<Longrightarrow> fslot (fp_log (S ! i)) k = fslot (fp_log (S ! 0)) k"
    using core by (simp_all add: fp_ghost_of_def)
qed

lemma fp_executed_leader:
  assumes "fp_reach c a S" and "fp_sane c" and "i < length S"
  shows "fp_executed (fp_sent (S ! i)) = fp_calls (fslot (fp_log (S ! 0))) (fp_lastCommitted (S ! i))"
proof -
  note mem = fp_reach_member [OF assms]
  have "fp_lastCommitted (S ! i) \<le> fp_lastSlowPath (S ! i)" using mem(1) by (simp add: fp_wf_def)
  then have "fslot (fp_log (S ! i)) k = fslot (fp_log (S ! 0)) k" if "1 \<le> k" "k \<le> unat (fp_lastCommitted (S ! i))" for k
    using that mem(4) [of k] by (simp add: word_le_nat_alt)
  then show ?thesis unfolding mem(3) fp_calls_def by (intro map_cong) auto
qed

lemma fp_calls_prefix: "n \<le> m \<Longrightarrow> prefix (fp_calls R n) (fp_calls R m)"
proof -
  assume "n \<le> m"
  then have "[1..<Suc (unat m)] = [1..<Suc (unat n)] @ [Suc (unat n)..<Suc (unat m)]"
    using upt_add_eq_append [of 1 "Suc (unat n)" "unat m - unat n"] by (simp add: word_le_nat_alt del: upt_Suc)
  then show ?thesis by (simp only: fp_calls_def map_append prefixI)
qed

text \<open>
  C9. Agreement: in every run, what any two replicas have executed agrees as far as the shorter one goes, and
  the leader is never behind.
\<close>

theorem fp_agree:
  assumes "fp_reach c a S" and "fp_sane c" and "i < length S" and "j < length S"
  shows "(prefix (fp_executed (fp_sent (S ! i))) (fp_executed (fp_sent (S ! j))) \<or>
          prefix (fp_executed (fp_sent (S ! j))) (fp_executed (fp_sent (S ! i)))) \<and>
     prefix (fp_executed (fp_sent (S ! i))) (fp_executed (fp_sent (S ! 0)))"
proof -
  have "0 < length S" using assms(3) by linarith
  note ex = fp_executed_leader [OF assms(1,2)]
  show ?thesis
    unfolding ex [OF assms(3)] ex [OF assms(4)] ex [OF \<open>0 < length S\<close>]
    using fp_calls_prefix linear [of "fp_lastCommitted (S ! i)" "fp_lastCommitted (S ! j)"]
      fp_reach_member(2) [OF assms(1-3)] by blast
qed

section \<open>Who holds what has been committed\<close>

text \<open>
  C12. The operation the leader has committed last is held, for the same client's same request, by a quorum: by
  \<open>QuorumSize - 1\<close> replicas besides the leader, in that slot of their logs.
\<close>

theorem fp_last_committed_on_quorum:
  assumes "fp_reach c a S" and "fp_sane c" and "0 < length S" and "fp_lastCommitted (S ! 0) \<noteq> 0"
  shows "\<exists>r. fslot (fp_log (S ! 0)) (unat (fp_lastCommitted (S ! 0))) = Some r \<and>
     QuorumSize (fe_config c) - 1 \<le> int (card {j. 0 < j \<and> j < length S \<and>
       map_option req_id (fslot (fp_log (S ! j)) (unat (fp_lastCommitted (S ! 0)))) = Some (req_id r)})"
proof -
  let ?p = "fp_lastCommitted (S ! 0)"
  have "fp_fits (fe_at c 0) (fp_ghost_of S) 0 (S ! 0)"
    using fp_reach_inv [OF assms(1,2)] assms(3) by (simp add: fp_inv_def)
  then have "fp_quorum_at (fe_at c 0) (fp_ghost_of S) ?p" using fp_fits_own [OF fp_own_ghost [OF assms(3)]] by simp
  then obtain r where r: "fslot (fp_log (S ! 0)) (unat ?p) = Some r"
      and q: "QuorumSize (fe_config c) - 1 \<le> int (card (fp_backers (fp_ghost_of S) ?p r))"
    using assms(4) by (auto simp: fp_quorum_at_def fp_ghost_of_def)
  let ?B = "{j. 0 < j \<and> j < length S \<and> map_option req_id (fslot (fp_log (S ! j)) (unat ?p)) = Some (req_id r)}"
  have "j \<in> ?B" if "j \<in> fp_backers (fp_ghost_of S) ?p r" for j
  proof -
    have j: "j \<noteq> 0" "j < length S" "fp_holds (S ! j) ?p (req_id r)"
      using that by (auto simp: fp_backers_def fp_ghost_of_def split: if_splits)
    have "fslot (fp_log (S ! j)) (unat ?p) = Some r" if "?p \<le> fp_lastSlowPath (S ! j)"
      using fp_reach_member(4) [OF assms(1,2) j(2), of "unat ?p"] r that j(3) by (simp add: fp_holds_def word_le_nat_alt)
    then show ?thesis using j by (auto simp: fp_holds_def)
  qed
  then have "card (fp_backers (fp_ghost_of S) ?p r) \<le> card ?B" by (intro card_mono) auto
  with q r show ?thesis by (intro exI [of _ r]) simp
qed

theorem fp_last_committed_on_quorum_witness:
  "\<exists>S. fp_reach (fp_env3 False) () S \<and> fp_lastCommitted (S ! 0) = 2 \<and>
     (\<exists>r. fslot (fp_log (S ! 0)) 2 = Some r \<and>
     1 \<le> card {j. 0 < j \<and> j < 3 \<and> map_option req_id (fslot (fp_log (S ! j)) 2) = Some (req_id r)})"
proof -
  obtain S where S: "fp_reach (fp_env3 False) () S" "fp_view_of S =
    (3, [2, 0, 0], [[(1, ''a''), (2, ''b'')], [], []], True, [[1, 2], [24, 2], [24, 2]], True, True)"
    by (rule fp_overtaken_state)
  have v: "length S = 3" "fp_lastCommitted (S ! 0) = 2" using S(2) by (auto simp: fp_view_of_def Cons_eq_map_conv)
  have "QuorumSize (fe_config (fp_env3 False)) = 2" by (simp add: fp_env3_def conf3_def QuorumSize_def)
  then show ?thesis
    using fp_last_committed_on_quorum [OF S(1) fp_sane3] v S(1) by (intro exI [of _ S]) simp
qed

theorem fp_agree_witness:
  "\<exists>S. fp_reach (fp_env3 False) () S \<and> fp_executed (fp_sent (S ! 0)) = [(1, ''a''), (2, ''b'')] \<and>
     prefix (fp_executed (fp_sent (S ! 1))) [(1, ''a''), (2, ''b'')]"
proof -
  obtain S where S: "fp_reach (fp_env3 False) () S" "fp_view_of S =
    (3, [2, 0, 0], [[(1, ''a''), (2, ''b'')], [], []], True, [[1, 2], [24, 2], [24, 2]], True, True)"
    by (rule fp_overtaken_state)
  have v: "length S = 3" "fp_executed (fp_sent (S ! 0)) = [(1, ''a''), (2, ''b'')]"
    using S(2) by (auto simp: fp_view_of_def Cons_eq_map_conv)
  show ?thesis
    using fp_agree [OF S(1) fp_sane3, of 1 0] v S(1) by (intro exI [of _ S]) simp
qed

text \<open>
  C26. The operations before it need not be held by anyone but the leader: a fast quorum for operation 2
  makes the leader commit operation 1 with it, execute it and answer its client, while both
  followers have logged another client's request as operation 1.
\<close>

theorem fp_earlier_commit_without_quorum:
  "\<exists>S. fp_reach (fp_env3 na) () S \<and> length S = 3 \<and>
     fp_executed (fp_sent (S ! 0)) = [(1, ''a''), (2, ''b'')] \<and>
     FSendToClient 100 (FPReply (FPReplyMessage 0 1 '''' 1)) \<in> set (fp_sent (S ! 0)) \<and>
     map (clientid \<circ> request) (entries (fp_log (S ! 1))) = [24, 2] \<and>
     map (clientid \<circ> request) (entries (fp_log (S ! 2))) = [24, 2] \<and>
     map (clientid \<circ> request) (entries (fp_log (S ! 0))) = [1, 2]"
proof -
  obtain S where S: "fp_reach (fp_env3 na) () S" "fp_view_of S =
    (3, [2, 0, 0], [[(1, ''a''), (2, ''b'')], [], []], True, [[1, 2], [24, 2], [24, 2]], True, True)"
    by (rule fp_overtaken_state)
  then show ?thesis by (intro exI [of _ S]) (auto simp: fp_view_of_def Cons_eq_map_conv)
qed

end
