(* ===== verification/FPOnce.thy ===== *)
theory FPOnce
  imports FPAgreement
begin

text \<open>
  At most once: the leader logs no request of a client twice, so no replica executes one twice,
  however often clients repeat themselves. \<open>fp_keeps\<close> is what every operation of the leader but the
  logging of a request does to its log and its client table.
\<close>

section \<open>What the leader's operations keep\<close>

definition fp_requests :: "'app fp_replica \<Rightarrow> Request list" where
  "fp_requests s = map request (entries (fp_log s))"

definition fp_known :: "'app fp_replica \<Rightarrow> u64 \<Rightarrow> u64 \<Rightarrow> bool" where
  "fp_known s cid n \<longleftrightarrow> (\<exists>x. fp_clientTable s cid = Some x \<and> n \<le> fct_lastReqId x)"

definition fp_keeps :: "'app fp_replica \<Rightarrow> 'app fp_replica \<Rightarrow> bool" where
  "fp_keeps s t \<longleftrightarrow> fp_requests t = fp_requests s \<and> (\<forall>cid n. fp_known s cid n \<longrightarrow> fp_known t cid n)"

definition fp_once :: "'app fp_replica \<Rightarrow> bool" where
  "fp_once s \<longleftrightarrow> distinct (map req_id (fp_requests s)) \<and>
     (\<forall>r \<in> set (fp_requests s). fp_known s (clientid r) (clientreqid r))"

lemma fp_keeps_refl [simp]: "fp_keeps s s"
  by (simp add: fp_keeps_def)

lemma fp_keeps_trans: "fp_keeps s t \<Longrightarrow> fp_keeps t u \<Longrightarrow> fp_keeps s u"
  by (simp add: fp_keeps_def)

lemma fp_keeps_eq: "fp_log t = fp_log s \<Longrightarrow> fp_clientTable t = fp_clientTable s \<Longrightarrow> fp_keeps s t"
  by (simp add: fp_keeps_def fp_requests_def fp_known_def)

lemma fp_once_keeps: "fp_once s \<Longrightarrow> fp_keeps s t \<Longrightarrow> fp_once t"
  unfolding fp_once_def fp_keeps_def by auto

lemma fp_emit_fields [simp]: "fp_log (fp_emit e s) = fp_log s" "fp_clientTable (fp_emit e s) = fp_clientTable s"
  by (simp_all add: fp_emit_def)

lemma map_update_same: "f y = f (xs ! i) \<Longrightarrow> map f (xs[i := y]) = map f xs"
  by (cases "i < length xs") (simp_all add: map_update list_update_same_conv list_update_beyond)

lemma SetStatus_requests: "post (SetStatus c n st l) (\<lambda>x. map request (entries (snd x)) = map request (entries l))"
proof -
  have "map request (entries (update_entry n (\<lambda>e. e\<lparr>state := st\<rparr>) l)) = map request (entries l)"
    by (simp add: update_entry_def Let_def map_update_same)
  then show ?thesis
    by (auto simp: SetStatus_def wp intro!: postI split: option.splits)
qed

lemma fp_keeps_CommitNext: "post (fp_CommitNext c s) (fp_keeps s)"
proof (rule postI)
  fix t assume run: "fp_CommitNext c s = Inr t"
  then obtain e where f: "Find c (fp_lastCommitted s + 1) (fp_log s) = Inr (Some e)"
    by (auto simp: fp_CommitNext_def Let_def bind_r_Inr split: option.splits)
  let ?cid = "clientid (request e)"
  from run f obtain x l where l: "SetStatus c (fp_lastCommitted s + 1) LOG_STATE_COMMITTED (fp_log s) = Inr (x, l)"
    by (auto simp: fp_CommitNext_def Let_def bind_r_Inr case_prod_beta)
  have t: "fp_log t = l"
    using run f l by (auto simp: fp_CommitNext_def Let_def case_prod_beta split: option.splits)
  have "fp_clientTable t = (fp_clientTable s)(?cid \<mapsto> the (fp_clientTable t ?cid)) \<and>
      fct_lastReqId (fp_client_entry (fp_clientTable s) ?cid) \<le> fct_lastReqId (the (fp_clientTable t ?cid))"
    using run f l by (cases "fp_clientAddresses s ?cid") (auto simp: fp_CommitNext_def Let_def case_prod_beta)
  then obtain y where ct: "fp_clientTable t = (fp_clientTable s)(?cid \<mapsto> y)"
      and y: "fct_lastReqId (fp_client_entry (fp_clientTable s) ?cid) \<le> fct_lastReqId y" by blast
  have "fp_requests t = fp_requests s"
    using SetStatus_requests [of c "fp_lastCommitted s + 1" LOG_STATE_COMMITTED "fp_log s"] l t by (simp add: fp_requests_def)
  moreover have "fp_known t k n" if "fp_known s k n" for k n
    using that y by (cases "k = ?cid") (auto simp: fp_known_def ct fp_client_entry_def elim: order_trans)
  ultimately show "fp_keeps s t" by (simp add: fp_keeps_def)
qed

lemma fp_keeps_CommitLoop: "post (fp_CommitLoop c upTo s) (fp_keeps s)"
proof (induction c upTo s rule: fp_CommitLoop.induct)
  case (1 c upTo s)
  show ?case
  proof (cases "fp_lastCommitted s < upTo")
    case True
    have "post (fp_CommitLoop c upTo t) (fp_keeps s)" if "fp_CommitNext c s = Inr t" "fp_keeps s t" for t
      using 1 [OF True] that by (auto elim!: post_mono intro: fp_keeps_trans)
    then have "post (fp_CommitNext c s) (\<lambda>t. post (fp_CommitLoop c upTo t) (fp_keeps s))"
      by (rule post_strengthen [OF fp_keeps_CommitNext])
    then show ?thesis using True by (simp add: fp_CommitLoop.simps [of c upTo s] wp)
  qed (simp add: fp_CommitLoop.simps [of c upTo s])
qed

lemma fp_keeps_CommitUpTo: "post (fp_CommitUpTo c upTo s) (fp_keeps s)"
  unfolding fp_CommitUpTo_def post_bind
  by (rule post_mono [OF fp_keeps_CommitLoop])
    (auto simp: wp Let_def intro: fp_keeps_trans [OF _ fp_keeps_eq])

lemma fp_keeps_ResendPrepare: "post (fp_ResendPrepare c s) (fp_keeps s)"
  by (auto simp: fp_ResendPrepare_def wp intro: fp_keeps_eq)

lemma fp_keeps_RequestStateTransfer: "fp_keeps s (fp_RequestStateTransfer s)"
  by (auto simp: fp_RequestStateTransfer_def Let_def intro: fp_keeps_eq)

lemma fp_keeps_HandlePrepareOK: "post (fp_HandlePrepareOK c remote m s) (fp_keeps s)"
proof (rule postI)
  fix t assume run: "fp_HandlePrepareOK c remote m s = Inr t"
  have up: "fp_keeps s u" if "fp_CommitUpTo c n s' = Inr u" "fp_log s' = fp_log s" "fp_clientTable s' = fp_clientTable s" for n s' u
    using fp_keeps_CommitUpTo [of c n s'] that(1) fp_keeps_trans [OF fp_keeps_eq [OF that(2,3)]] by simp
  have ups: "fp_CommitUpTo c n (s\<lparr>fp_slowPrepareOKQuorum := q\<rparr>) = Inr u \<Longrightarrow> fp_keeps s u"
      "fp_CommitUpTo c n (s\<lparr>fp_fastPrepareOKQuorum := q\<rparr>) = Inr u \<Longrightarrow> fp_keeps s u" for n q u
    by (erule up, simp, simp)+
  have rs: "fp_keeps s u" if "fp_ResendPrepare c s = Inr u" for u
    using fp_keeps_ResendPrepare [of c s] that by simp
  have emit: "fp_keeps s (fp_emit e u)" if "fp_keeps s u" for e u
    by (rule fp_keeps_trans [OF that fp_keeps_eq]) simp_all
  show "fp_keeps s t"
    using run rs fp_keeps_RequestStateTransfer [of s]
    by (auto simp: fp_HandlePrepareOK_def Let_def bind_r_Inr assert_r_def deref_r_def case_prod_beta
      split: if_splits option.splits dest!: ups intro!: emit intro: fp_keeps_eq)
qed

section \<open>Logging a request\<close>

lemma fp_UpdateClientTable_known:
  "fp_known (fp_UpdateClientTable req s) (clientid req) (clientreqid req)"
  "fp_known s k n \<Longrightarrow> fp_known (fp_UpdateClientTable req s) k n"
  by (auto simp: fp_known_def fp_UpdateClientTable_def fp_client_entry_def Let_def split: option.splits)

lemma Append_requests: "post (Append c e l) (\<lambda>l'. map request (entries l') = map request (entries l) @ [request e])"
  by (auto simp: Append_def wp Let_def)

lemma fp_once_AcceptRequest:
  assumes once: "fp_once s" and new: "\<not> fp_known s (clientid req) (clientreqid req)"
  shows "post (fp_AcceptRequest c req s) fp_once"
proof -
  let ?s = "fp_UpdateClientTable req s"
  have log: "fp_log ?s = fp_log s" by (simp add: fp_UpdateClientTable_def Let_def)
  have new': "req_id req \<notin> set (map req_id (fp_requests s))"
    using once new by (auto simp: fp_once_def req_id_def)
  have logged: "fp_once t"
    if t: "map request (entries (fp_log t)) = fp_requests s @ [req]" "fp_clientTable t = fp_clientTable ?s" for t
  proof -
    have known: "fp_known t k n = fp_known ?s k n" for k n using t(2) by (simp add: fp_known_def)
    have "fp_known t (clientid r) (clientreqid r)" if "r \<in> set (fp_requests s @ [req])" for r
      using that once fp_UpdateClientTable_known(1) [of req s] unfolding fp_once_def known
      by (auto intro: fp_UpdateClientTable_known(2))
    then show ?thesis
      using t(1) new' once unfolding fp_once_def fp_requests_def by simp
  qed
  have fold: "post (fold_r (\<lambda>(remote, msg). fp_HandlePrepareOK c remote msg) xs t) fp_once" if "fp_once t" for xs t
    by (rule post_fold [of fp_once, OF that])
      (auto intro: post_mono [OF fp_keeps_HandlePrepareOK] fp_once_keeps)
  have app: "post (fp_Append c v n req t) (\<lambda>u. post (if fp_AmLeader c u then fp_LeaderLogged c w req u else fp_FollowerLogged c w req u) fp_once)"
    if "fp_log t = fp_log s" "fp_clientTable t = fp_clientTable ?s" for v n w t
  proof -
    have "post (Append c (mk_LogEntry (viewstamp2 v n) LOG_STATE_PREPARED req) (fp_log t)) (\<lambda>l. fp_once (t\<lparr>fp_log := l\<rparr>))"
      by (rule post_mono [OF Append_requests]) (use that in \<open>auto intro!: logged simp: fp_requests_def mk_LogEntry_def\<close>)
    moreover have rest: "post (if fp_AmLeader c u then fp_LeaderLogged c w req u else fp_FollowerLogged c w req u) fp_once" if "fp_once u" for u
      using that by (auto simp: fp_LeaderLogged_def fp_FollowerLogged_def fp_to_leader_def Let_def
        intro!: fold elim!: fp_once_keeps intro: fp_keeps_eq)
    ultimately show ?thesis unfolding fp_Append_def post_bind post_simps by (elim post_mono) (rule rest)
  qed
  show ?thesis
    unfolding fp_AcceptRequest_def Let_def post_assert post_bind
    using app log by (auto simp: fp_UpdateClientTable_def Let_def)
qed

lemma fp_once_HandleRequest:
  assumes once: "fp_once s"
  shows "post (fp_HandleRequest c remote req s) fp_once"
proof -
  let ?s = "s\<lparr>fp_clientAddresses := (fp_clientAddresses s)(clientid req \<mapsto> remote)\<rparr>"
  have s: "fp_once ?s" by (rule fp_once_keeps [OF once fp_keeps_eq]) simp_all
  have e: "fp_once (fp_emit e ?s)" for e by (rule fp_once_keeps [OF s fp_keeps_eq]) simp_all
  have "post (fp_AcceptRequest c req ?s) fp_once" if "\<not> fp_known ?s (clientid req) (clientreqid req)"
    by (rule fp_once_AcceptRequest [OF s that])
  then show ?thesis
    using once s e by (auto simp: fp_HandleRequest_def Let_def fp_known_def split: option.split)
qed

section \<open>The leader, and the group\<close>

lemma fp_once_event:
  assumes once: "fp_once s" and msg: "\<And>src m. ev \<noteq> FPDeliver src (FPStateTransfer m)" and v: "fp_view s = 0"
    and lead: "fp_AmLeader c s" and status: "fp_status s = STATUS_NORMAL"
    and views: "\<And>src m. ev = FPDeliver src (FPPrepare m) \<Longrightarrow> fpr_view m = 0"
      "\<And>src m. ev = FPDeliver src (FPCommit m) \<Longrightarrow> fc_view m = 0"
  shows "post (fp_event_step c ev s) fp_once"
proof -
  have keep: "post r fp_once" if "post r (fp_keeps s)" for r
    using that fp_once_keeps [OF once] by (rule post_mono)
  show ?thesis
  proof (cases ev)
    case (FPFire k)
    have "fp_keeps s (s\<lparr>fp_lastRequestStateTransferView := 0, fp_lastRequestStateTransferOpnum := 0\<rparr>)"
      by (rule fp_keeps_eq) simp_all
    from fp_once_keeps [OF once this] show ?thesis
      using once keep [OF fp_keeps_ResendPrepare] unfolding FPFire by (cases k) (auto simp: fp_event_step_def)
  next
    case (FPDeliver src m)
    show ?thesis
    proof (cases m)
      case (FPRequest x)
      then show ?thesis using fp_once_HandleRequest [OF once] by (simp add: FPDeliver fp_event_step_def)
    next
      case (FPPrepareOK x)
      then show ?thesis using keep [OF fp_keeps_HandlePrepareOK] by (simp add: FPDeliver fp_event_step_def)
    next
      case (FPUnloggedRequest x)
      have "post (fp_HandleUnloggedRequest c src x s) (fp_keeps s)"
        by (auto simp: fp_HandleUnloggedRequest_def Let_def case_prod_beta intro: fp_keeps_eq)
      from keep [OF this] FPUnloggedRequest show ?thesis by (simp add: FPDeliver fp_event_step_def)
    next
      case (FPRequestStateTransfer x)
      have emit: "fp_keeps s (fp_emit e s)" for e by (rule fp_keeps_eq) simp_all
      have "post (fp_HandleRequestStateTransfer c src x s) (fp_keeps s)"
        using fp_keeps_RequestStateTransfer [of s] emit
        by (auto simp: fp_HandleRequestStateTransfer_def wp elim!: post_mono [OF post_True])
      from keep [OF this] FPRequestStateTransfer show ?thesis by (simp add: FPDeliver fp_event_step_def)
    next
      case (FPPrepare x)
      then show ?thesis
        using views(1) lead status v once
        by (simp add: FPDeliver fp_event_step_def fp_HandlePrepare_def Let_def)
    next
      case (FPCommit x)
      then show ?thesis
        using views(2) lead status v once
        by (simp add: FPDeliver fp_event_step_def fp_HandleCommit_def Let_def)
    qed (use msg in \<open>auto simp: FPDeliver fp_event_step_def\<close>)
  qed
qed

lemma fp_reach_once:
  assumes "fp_reach c a S" and sane: "fp_sane c" and "0 < length S"
  shows "fp_once (S ! 0)"
  using assms(1,3)
proof (induction rule: fp_reach.induct)
  case (initial S)
  then have "FastPaxosReplica_new (fe_at c 0) True a = Inr (S ! 0)" by (simp add: fp_initial_def)
  then have "entries (fp_log (S ! 0)) = []" using fp_new_fits(1,4) by (fastforce simp: fp_wf_def log_top_def)
  then show ?case by (simp add: fp_once_def fp_requests_def)
next
  case (event S i ev s)
  show ?case
  proof (cases "i = 0")
    case True
    have inv: "fp_inv c S" using fp_reach_inv [OF event.hyps(1) sane] .
    have "fp_core (fe_at c 0) (fp_ghost_of S) 0 (S ! 0)" using inv event.prems by (simp add: fp_inv_def fp_fits_def)
    note v = fp_core_view [OF this]
    have mem: "fp_member (fe_at c 0) 0"
      using fp_inv_member [OF inv] sane event.prems by (simp add: fp_sane_def)
    have msg: "fp_from_client m \<or> fp_msg_ok (fp_ghost_of S) src 0 m" if "ev = FPDeliver src m" for src m
      using fp_delivered [OF inv event.hyps(2)] event.hyps(3) that True by simp
    have "post (fp_event_step (fe_at c 0) ev (S ! 0)) fp_once"
      by (rule fp_once_event) (use event v fp_AmLeader_iff [OF mem] msg in force)+
    then show ?thesis using event True by simp
  qed (use event in simp)
qed

text \<open>
  C11. Each request at most once, in the leader's order: what a replica has executed is the leader's log up to the
  replica's commit point, numbered from 1, and no two of these requests are the same request of the
  same client, in every run.
\<close>

theorem fp_executes_once:
  assumes "fp_reach c a S" and "fp_sane c" and "i < length S"
  shows "let rs = take (unat (fp_lastCommitted (S ! i))) (map request (entries (fp_log (S ! 0))))
    in distinct (map req_id rs) \<and> length rs = unat (fp_lastCommitted (S ! i)) \<and>
       fp_executed (fp_sent (S ! i)) = map (\<lambda>k. (of_nat (Suc k), op (rs ! k))) [0..<length rs]"
proof -
  have S: "0 < length S" using assms(3) by linarith
  let ?n = "unat (fp_lastCommitted (S ! i))" and ?es = "map request (entries (fp_log (S ! 0)))"
  have wf: "fp_wf (S ! 0)" using fp_reach_member(1) [OF assms(1,2) S] .
  then have top: "length ?es = unat (fp_lastFastPath (S ! 0))" "start (fp_log (S ! 0)) = 1"
    unfolding fp_wf_def log_top_def by auto
  have "fp_lastCommitted (S ! i) \<le> fp_lastFastPath (S ! 0)"
    using fp_reach_member(2) [OF assms] wf by (auto simp: fp_wf_def word_le_nat_alt)
  then have n: "?n \<le> length ?es" using top by (simp add: word_le_nat_alt)
  have slot: "fslot (fp_log (S ! 0)) (Suc k) = Some (?es ! k)" if "k < ?n" for k
    using that n top by (simp add: fslot_def log_num_at_def log_top_def)
  have "fp_executed (fp_sent (S ! i)) = map (\<lambda>k. (of_nat (Suc k), op (take ?n ?es ! k))) [0..<?n]"
    unfolding fp_executed_leader [OF assms] fp_calls_def map_Suc_upt [symmetric, of 0 ?n, unfolded One_nat_def [symmetric]] map_map
    using slot by (intro map_cong) auto
  moreover have "distinct (map req_id (take ?n ?es))"
    using fp_reach_once [OF assms(1,2) S] by (simp add: fp_once_def fp_requests_def take_map [symmetric] distinct_take del: map_map)
  ultimately show ?thesis using n by (simp add: Let_def)
qed

theorem fp_executes_once_witness:
  "\<exists>S. fp_reach (fp_env3 False) () S \<and> fp_executed (fp_sent (S ! 0)) = [(1, ''a''), (2, ''b'')] \<and>
     distinct (map req_id (take 2 (map request (entries (fp_log (S ! 0))))))"
proof -
  obtain S where S: "fp_reach (fp_env3 False) () S" "fp_view_of S =
    (3, [2, 0, 0], [[(1, ''a''), (2, ''b'')], [], []], True, [[1, 2], [24, 2], [24, 2]], True, True)"
    by (rule fp_overtaken_state)
  have v: "length S = 3" "fp_lastCommitted (S ! 0) = 2" "fp_executed (fp_sent (S ! 0)) = [(1, ''a''), (2, ''b'')]"
    using S(2) by (auto simp: fp_view_of_def Cons_eq_map_conv)
  show ?thesis
    using fp_executes_once [OF S(1) fp_sane3, of 0] v S(1) by (intro exI [of _ S]) (simp add: Let_def)
qed

end
