(* ===== verification/FPClient.thy ===== *)
theory FPClient
  imports FPReplica VRClient
begin

text \<open>
  \<open>src/replication/fastpaxos/client.cc\<close> and \<open>client.h\<close>: a client of a Fast Paxos group. It is modelled
  from its own code; \<open>fp_client_step_refines\<close> then shows that, up to the types of the messages, it
  is the Viewstamped Replication client without \<open>InvokeAsync\<close>, so that what is proved of that one holds here.
\<close>

section \<open>State\<close>

datatype 'k fp_client_effect =
    FCSendToAll FPToReplicaMessage
  | FCSendToReplica int FPToReplicaMessage
  | FCContinuation 'k bytes bytes
  | FCTimeoutContinuation 'k bytes

record 'k fp_client =
  fcl_clientid :: u64
  fcl_lastReqId :: u64
  fcl_pendingRequest :: "'k PendingRequest option"
  fcl_pendingUnloggedRequest :: "'k PendingRequest option"
  fcl_requestTimeout :: Timeout
  fcl_unloggedRequestTimeout :: Timeout
  fcl_effects :: "'k fp_client_effect list"

definition fcl_emit :: "'k fp_client_effect \<Rightarrow> 'k fp_client \<Rightarrow> 'k fp_client" where
  "fcl_emit e s = s\<lparr>fcl_effects := fcl_effects s @ [e]\<rparr>"

definition fcl_call :: "'k option \<Rightarrow> ('k \<Rightarrow> 'k fp_client_effect) \<Rightarrow> 'k fp_client \<Rightarrow> 'k fp_client result" where
  "fcl_call k e s = (case k of None \<Rightarrow> Inl BadFunctionCall | Some k' \<Rightarrow> Inr (fcl_emit (e k') s))"

section \<open>Operations\<close>

definition FastPaxosClient_new :: "u64 \<Rightarrow> 'k fp_client" where
  "FastPaxosClient_new cid =
     \<lparr>fcl_clientid = cid, fcl_lastReqId = 0, fcl_pendingRequest = None, fcl_pendingUnloggedRequest = None,
      fcl_requestTimeout = mk_Timeout 7000, fcl_unloggedRequestTimeout = mk_Timeout 1000, fcl_effects = []\<rparr>"

definition fp_SendRequest :: "'k fp_client \<Rightarrow> 'k fp_client result" where
  "fp_SendRequest s =
     deref_r (fcl_pendingRequest s) (\<lambda>p.
       let m = FPRequest \<lparr>op = pr_request p, clientid = fcl_clientid s, clientreqid = pr_clientReqId p,
                 ops = [], req_sessnum = None, clientaddr = None\<rparr>;
           s1 = fcl_emit (FCSendToAll m) s
       in Inr (s1\<lparr>fcl_requestTimeout := Timeout_Reset (fcl_requestTimeout s1)\<rparr>))"

definition fp_ResendRequest :: "'k fp_client \<Rightarrow> 'k fp_client result" where
  "fp_ResendRequest s = fp_SendRequest s"

definition fp_Invoke :: "bytes \<Rightarrow> 'k option \<Rightarrow> 'k fp_client \<Rightarrow> 'k fp_client result" where
  "fp_Invoke r continuation s =
     (if fcl_pendingRequest s \<noteq> None then Inl Panicked
      else
        let reqId = fcl_lastReqId s + 1;
            p = \<lparr>pr_request = r, pr_clientReqId = reqId, pr_continuation = continuation,
                 pr_timeoutContinuation = None\<rparr>
        in fp_SendRequest (s\<lparr>fcl_lastReqId := reqId, fcl_pendingRequest := Some p\<rparr>))"

definition fp_InvokeUnlogged ::
  "bool \<Rightarrow> int \<Rightarrow> bytes \<Rightarrow> 'k option \<Rightarrow> 'k option \<Rightarrow> u32 \<Rightarrow> 'k fp_client \<Rightarrow> 'k fp_client result" where
  "fp_InvokeUnlogged na idx r continuation timeoutContinuation timeout s =
     (if fcl_pendingUnloggedRequest s \<noteq> None then Inl Panicked
      else
        let reqId = fcl_lastReqId s + 1;
            p = \<lparr>pr_request = r, pr_clientReqId = reqId, pr_continuation = continuation,
                 pr_timeoutContinuation = timeoutContinuation\<rparr>;
            s1 = s\<lparr>fcl_lastReqId := reqId, fcl_pendingUnloggedRequest := Some p\<rparr>;
            m = FPUnloggedRequest \<lparr>uop = pr_request p, uclientid = fcl_clientid s1, uclientreqid = pr_clientReqId p\<rparr>
        in assert_r na (\<not> Timeout_Active (fcl_unloggedRequestTimeout s1))
             (bind_r (Timeout_SetTimeout na (ucast timeout) (fcl_unloggedRequestTimeout s1)) (\<lambda>t.
                Inr (fcl_emit (FCSendToReplica idx m)
                       (s1\<lparr>fcl_unloggedRequestTimeout := Timeout_Start t\<rparr>)))))"

definition fp_HandleReply :: "FPReplyMessage \<Rightarrow> 'k fp_client \<Rightarrow> 'k fp_client result" where
  "fp_HandleReply msg s =
     (case fcl_pendingRequest s of
        None \<Rightarrow> Inr s
      | Some req \<Rightarrow>
          if frp_clientreqid msg \<noteq> pr_clientReqId req then Inr s
          else fcl_call (pr_continuation req) (\<lambda>k. FCContinuation k (pr_request req) (frp_reply msg))
                 (s\<lparr>fcl_requestTimeout := Timeout_Stop (fcl_requestTimeout s), fcl_pendingRequest := None\<rparr>))"

definition fp_HandleUnloggedReply :: "bytes \<Rightarrow> 'k fp_client \<Rightarrow> 'k fp_client result" where
  "fp_HandleUnloggedReply rep s =
     (case fcl_pendingUnloggedRequest s of
        None \<Rightarrow> Inr s
      | Some req \<Rightarrow>
          fcl_call (pr_continuation req) (\<lambda>k. FCContinuation k (pr_request req) rep)
            (s\<lparr>fcl_unloggedRequestTimeout := Timeout_Stop (fcl_unloggedRequestTimeout s),
               fcl_pendingUnloggedRequest := None\<rparr>))"

definition fp_UnloggedRequestTimeoutCallback :: "'k fp_client \<Rightarrow> 'k fp_client result" where
  "fp_UnloggedRequestTimeoutCallback s =
     (let s1 = s\<lparr>fcl_pendingUnloggedRequest := None,
                 fcl_unloggedRequestTimeout := Timeout_Stop (fcl_unloggedRequestTimeout s)\<rparr>
      in deref_r (fcl_pendingUnloggedRequest s) (\<lambda>req.
           fcl_call (pr_timeoutContinuation req) (\<lambda>k. FCTimeoutContinuation k (pr_request req)) s1))"

fun fp_Client_ReceiveMessage :: "FPToClientMessage \<Rightarrow> 'k fp_client \<Rightarrow> 'k fp_client result" where
  "fp_Client_ReceiveMessage (FPReply m) s = fp_HandleReply m s"
| "fp_Client_ReceiveMessage (FPUnloggedReply r) s = fp_HandleUnloggedReply r s"
| "fp_Client_ReceiveMessage FPClientMsgNotSet s = Inl Panicked"

section \<open>Runs, and the Viewstamped Replication client\<close>

datatype 'k fp_client_event =
    FCInvoke bytes "'k option"
  | FCInvokeUnlogged int bytes "'k option" "'k option" u32
  | FCReceive FPToClientMessage
  | FCRequestTimer
  | FCUnloggedTimer

fun fp_client_step :: "bool \<Rightarrow> 'k fp_client_event \<Rightarrow> 'k fp_client \<Rightarrow> 'k fp_client result" where
  "fp_client_step na (FCInvoke r k) s = fp_Invoke r k s"
| "fp_client_step na (FCInvokeUnlogged i r k t to) s = fp_InvokeUnlogged na i r k t to s"
| "fp_client_step na (FCReceive m) s = fp_Client_ReceiveMessage m s"
| "fp_client_step na FCRequestTimer s = (if armed (fcl_requestTimeout s) then fp_ResendRequest s else Inr s)"
| "fp_client_step na FCUnloggedTimer s =
     (if armed (fcl_unloggedRequestTimeout s) then fp_UnloggedRequestTimeoutCallback s else Inr s)"

fun vr_request :: "FPToReplicaMessage \<Rightarrow> ToReplicaMessage" where
  "vr_request (FPRequest r) = MRequest r"
| "vr_request (FPUnloggedRequest r) = MUnloggedRequest r"
| "vr_request m = ReplicaMsgNotSet"

fun vr_reply :: "FPToClientMessage \<Rightarrow> ToClientMessage" where
  "vr_reply (FPReply m) = MReply (ReplyMessage (frp_view m) (frp_opnum m) (frp_reply m) (frp_clientreqid m))"
| "vr_reply (FPUnloggedReply r) = MUnloggedReply r"
| "vr_reply FPClientMsgNotSet = ClientMsgNotSet"

fun vr_client_effect :: "'k fp_client_effect \<Rightarrow> 'k client_effect" where
  "vr_client_effect (FCSendToAll m) = ClientSendToAll (vr_request m)"
| "vr_client_effect (FCSendToReplica i m) = ClientSendToReplica i (vr_request m)"
| "vr_client_effect (FCContinuation k r a) = Continuation k r a"
| "vr_client_effect (FCTimeoutContinuation k r) = TimeoutContinuation k r"

fun vr_client_event :: "'k fp_client_event \<Rightarrow> 'k client_event" where
  "vr_client_event (FCInvoke r k) = CInvoke r k"
| "vr_client_event (FCInvokeUnlogged i r k t to) = CInvokeUnlogged i r k t to"
| "vr_client_event (FCReceive m) = CReceive (vr_reply m)"
| "vr_client_event FCRequestTimer = CRequestTimer"
| "vr_client_event FCUnloggedTimer = CUnloggedTimer"

definition vr_client_of :: "'k fp_client \<Rightarrow> 'k vr_client" where
  "vr_client_of s =
     \<lparr>cl_clientid = fcl_clientid s, cl_lastReqId = fcl_lastReqId s, pendingRequest = fcl_pendingRequest s,
      pendingUnloggedRequest = fcl_pendingUnloggedRequest s, requestTimeout = fcl_requestTimeout s,
      unloggedRequestTimeout = fcl_unloggedRequestTimeout s,
      cl_effects = map vr_client_effect (fcl_effects s)\<rparr>"

lemmas fp_client_defs = fp_Invoke_def fp_SendRequest_def fp_ResendRequest_def fp_InvokeUnlogged_def
  fp_HandleReply_def fp_HandleUnloggedReply_def fp_UnloggedRequestTimeoutCallback_def fcl_call_def fcl_emit_def

lemma map_result_bind: "map_sum id f (bind_r r g) = bind_r r (\<lambda>x. map_sum id f (g x))"
  by (cases r) simp_all

lemma map_result_assert: "map_sum id f (assert_r na p r) = assert_r na p (map_sum id f r)"
  by (simp add: assert_r_def)

lemma map_result_deref: "map_sum id f (deref_r p g) = deref_r p (\<lambda>x. map_sum id f (g x))"
  by (cases p) (simp_all add: deref_r_def)

lemma fp_client_step_vr:
  "map_sum id vr_client_of (fp_client_step na ev s) = client_step na (vr_client_event ev) (vr_client_of s)"
proof (cases ev)
  case (FCReceive m)
  then show ?thesis
    by (cases m) (auto simp: fp_client_defs client_defs vr_client_of_def split: option.split)
next
  case FCUnloggedTimer
  show ?thesis
  proof (cases "fcl_pendingUnloggedRequest s")
    case (Some p)
    then show ?thesis
      unfolding FCUnloggedTimer by (cases "pr_timeoutContinuation p") (auto simp: fp_client_defs client_defs vr_client_of_def)
  qed (simp add: FCUnloggedTimer fp_client_defs client_defs vr_client_of_def deref_r_def)
qed (auto simp: fp_client_defs client_defs client_request_def vr_client_of_def map_result_bind map_result_assert
    map_result_deref split: option.split)

text \<open>
  C38. The Fast Paxos client is the Viewstamped Replication client: for every sequence of calls, messages and
  timer expiries, both do the same, up to the message types, failures included.
\<close>

theorem fp_client_refines:
  "map_sum id vr_client_of (fold_r (fp_client_step na) evs (FastPaxosClient_new cid)) =
   client_run na (map vr_client_event evs) (VRClient_new cid)"
proof -
  have "map_sum id vr_client_of (fold_r (fp_client_step na) evs s) =
      client_run na (map vr_client_event evs) (vr_client_of s)" for s
    unfolding client_run_def
  proof (induction evs arbitrary: s)
    case (Cons ev evs)
    have "client_step na (vr_client_event ev) (vr_client_of s) = map_sum id vr_client_of (fp_client_step na ev s)"
      by (rule fp_client_step_vr [symmetric])
    then show ?case using Cons by (cases "fp_client_step na ev s") simp_all
  qed simp
  from this [of "FastPaxosClient_new cid"] show ?thesis
    by (simp add: vr_client_of_def FastPaxosClient_new_def VRClient_new_def)
qed

end
