(* ===== verification/Packet.thy ===== *)
theory Packet
  imports Configuration
begin

text \<open>
  Packets as bytes in memory: the number formats of \<open>htons\<close>, \<open>htonl\<close>, \<open>htobe64\<close> and their inverses,
  reads and writes through pointers into a datagram (\<open>Undefined\<close> beyond its end),
  \<open>src/common/pbmessage.cc\<close>, and the base classes of \<open>src/sequencer/sequencer.cc\<close>. Protobuf is a
  parameter: what bytes a message has, and what parsing bytes gives.
\<close>

unbundle bit_operations_syntax

section \<open>Numbers in network order\<close>

type_synonym u8 = "8 word"
type_synonym u16 = "16 word"
type_synonym packet = "u8 list"

definition be_bytes :: "nat \<Rightarrow> 'a::len word \<Rightarrow> packet" where
  "be_bytes n w = map (\<lambda>i. ucast (drop_bit (8 * i) w)) (rev [0..<n])"

definition be_value :: "packet \<Rightarrow> 'a::len word" where
  "be_value bs = foldl (\<lambda>a b. push_bit 8 a OR ucast b) 0 bs"

lemma length_be_bytes [simp]: "length (be_bytes n w) = n"
  by (simp add: be_bytes_def)

lemma be_fold:
  fixes a w :: "'a::len word"
  shows "foldl (\<lambda>a b. push_bit 8 a OR ucast b) a (be_bytes n w) = push_bit (8 * n) a OR take_bit (8 * n) w"
proof (induction n arbitrary: a)
  case 0
  then show ?case by (simp add: be_bytes_def)
next
  case (Suc n)
  have "foldl (\<lambda>a b. push_bit 8 a OR ucast b) a (be_bytes (Suc n) w) =
      foldl (\<lambda>a b. push_bit 8 a OR ucast b) (push_bit 8 a OR ucast (ucast (drop_bit (8 * n) w) :: u8)) (be_bytes n w)"
    by (simp add: be_bytes_def)
  also have "\<dots> = push_bit (8 * n) (push_bit 8 a OR ucast (ucast (drop_bit (8 * n) w) :: u8)) OR take_bit (8 * n) w"
    by (rule Suc.IH)
  also have "\<dots> = push_bit (8 * Suc n) a OR take_bit (8 * Suc n) w"
    by (rule bit_word_eqI) (auto simp: bit_simps ac_simps)
  finally show ?case .
qed

lemma be_value_bytes [simp]:
  fixes w :: "'a::len word"
  assumes "LENGTH('a) \<le> 8 * n"
  shows "be_value (be_bytes n w) = w"
  using be_fold [of 0 n w] assms by (simp add: be_value_def take_bit_word_eq_self)

section \<open>Memory\<close>

definition peek :: "nat \<Rightarrow> nat \<Rightarrow> packet \<Rightarrow> packet result" where
  "peek p n b = (if p + n \<le> length b then Inr (take n (drop p b)) else Inl Undefined)"

definition poke :: "nat \<Rightarrow> packet \<Rightarrow> packet \<Rightarrow> packet result" where
  "poke p bs b =
     (if p + length bs \<le> length b then Inr (take p b @ bs @ drop (p + length bs) b) else Inl Undefined)"

definition read_be :: "nat \<Rightarrow> nat \<Rightarrow> packet \<Rightarrow> ('a::len word) result" where
  "read_be p n b = bind_r (peek p n b) (\<lambda>bs. Inr (be_value bs))"

lemma read_be_at:
  fixes w :: "'a::len word"
  assumes "b = xs @ be_bytes n w @ ys" and "length xs = p" and "LENGTH('a) \<le> 8 * n"
  shows "read_be p n b = Inr w"
  using assms by (auto simp: read_be_def peek_def)

lemma poke_at:
  assumes "b = xs @ zs @ ys" and "length xs = p" and "length zs = length bs"
  shows "poke p bs b = Inr (xs @ bs @ ys)"
  using assms by (auto simp: poke_def)

lemma peek_at:
  assumes "b = xs @ zs @ ys" and "length xs = p" and "length zs = n"
  shows "peek p n b = Inr zs"
  using assms by (auto simp: peek_def)

lemma read_be_beyond: "length b < p + n \<Longrightarrow> read_be p n b = Inl Undefined"
  by (simp add: read_be_def peek_def)

lemma read_be_cases: "(read_be p n b :: ('a::len word) result) = Inl Undefined \<or> (\<exists>w :: 'a word. read_be p n b = Inr w)"
  by (simp add: read_be_def peek_def)

text \<open>A packet seen as fields of given lengths.\<close>

lemma split_packet:
  assumes "n \<le> length b"
  obtains xs ys where "b = xs @ ys" "length xs = n"
  using assms that [of "take n b" "drop n b"] by simp

section \<open>Protobuf messages\<close>

record 'm protobuf =
  pb_bytes :: "'m \<Rightarrow> packet"
  pb_parse :: "packet \<Rightarrow> 'm"

definition PBMessage_SerializedSize :: "'m protobuf \<Rightarrow> 'm \<Rightarrow> nat" where
  "PBMessage_SerializedSize P m = length (pb_bytes P m)"

text \<open>\<open>SerializeToArray(p, sz)\<close> writes nothing if the message does not fit into \<open>sz\<close>.\<close>

definition PBMessage_Serialize :: "'m protobuf \<Rightarrow> 'm \<Rightarrow> nat \<Rightarrow> nat \<Rightarrow> packet \<Rightarrow> packet result" where
  "PBMessage_Serialize P m sz p b =
     (if PBMessage_SerializedSize P m \<le> sz then poke p (pb_bytes P m) b else Inr b)"

text \<open>\<open>ParseFromArray\<close> takes the size as an \<open>int\<close>; nothing is said of a negative one.\<close>

definition PBMessage_Parse :: "'m protobuf \<Rightarrow> nat \<Rightarrow> u64 \<Rightarrow> packet \<Rightarrow> 'm result" where
  "PBMessage_Parse P p sz b =
     (let n = sint (ucast sz :: u32)
      in if n < 0 then Inl Undefined else bind_r (peek p (nat n) b) (\<lambda>bs. Inr (pb_parse P bs)))"

lemma PBMessage_Parse_at:
  assumes "b = xs @ zs" and "length xs = p" and "length zs < 2 ^ 31" and "sz = of_nat (length zs)"
  shows "PBMessage_Parse P p sz b = Inr (pb_parse P zs)"
proof -
  have "ucast (of_nat (length zs) :: u64) = (of_nat (length zs) :: u32)"
    by (rule bit_word_eqI) (auto simp: bit_simps ac_simps)
  then have "sint (ucast sz :: u32) = int (length zs)"
    using assms(3,4) signed_of_nat by (simp add: signed_of_nat signed_take_bit_int_eq_self)
  then show ?thesis using peek_at [of b xs zs "[]" p] assms by (simp add: PBMessage_Parse_def)
qed

section \<open>Sequencers\<close>

text \<open>\<open>Sequencer::Sequencer\<close>: the address it registers, if the configuration has one for it.\<close>

definition Sequencer_new :: "Configuration \<Rightarrow> int \<Rightarrow> 'a \<Rightarrow> 'a result" where
  "Sequencer_new config ident s = (if NumSequencers config \<le> ident then Inl Panicked else Inr s)"

text \<open>\<open>BufferMessage\<close>: serialising it copies its bytes.\<close>

definition BufferMessage_Serialize :: "packet \<Rightarrow> packet \<Rightarrow> packet result" where
  "BufferMessage_Serialize b target = poke 0 b target"

lemma BufferMessage_copy: "length target = length b \<Longrightarrow> BufferMessage_Serialize b target = Inr b"
  by (simp add: BufferMessage_Serialize_def poke_def)

end
