(* ===== verification/NOPacket.thy ===== *)
theory NOPacket
  imports Packet NOSystem
begin

text \<open>
  \<open>src/replication/nopaxos/message.cc\<close>, \<open>message.h\<close>, \<open>types.h\<close> and \<open>sequencer.cc\<close>, \<open>sequencer.h\<close>: how a
  NOPaxos message is laid out in a packet, and the sequencer that stamps packets on their way.
  A packet is a 16-bit header size, then, if that is not 0, a 16-bit session number and a 64-bit
  message number, then the protobuf message. The group of \<open>NOSystem\<close> takes what these
  three pieces of code do together for one step, \<open>Stamp\<close>; that they do that is shown here.
\<close>

section \<open>Messages\<close>

text \<open>What a \<open>NOPaxosMessage\<close> wraps: the message type of a replica or of a client.\<close>

datatype no_packet = NOServerPacket NOToReplicaMessage | NOClientPacket NOToClientMessage

definition no_header_size :: "bool \<Rightarrow> nat" where
  "no_header_size sequencing = (if sequencing then 2 + 8 else 0)"

definition NOPaxosMessage_SerializedSize :: "no_packet protobuf \<Rightarrow> bool \<Rightarrow> no_packet \<Rightarrow> nat" where
  "NOPaxosMessage_SerializedSize P sequencing m = 2 + no_header_size sequencing + PBMessage_SerializedSize P m"

text \<open>The session and the message number keep what the memory held before. The size that
  \<open>PBMessage::Serialize\<close> passes on is that of the virtual \<open>SerializedSize\<close>, the header included.\<close>

definition NOPaxosMessage_Serialize :: "no_packet protobuf \<Rightarrow> bool \<Rightarrow> no_packet \<Rightarrow> packet \<Rightarrow> packet result" where
  "NOPaxosMessage_Serialize P sequencing m b =
     bind_r (poke 0 (be_bytes 2 (of_nat (no_header_size sequencing) :: u16)) b) (\<lambda>b1.
       PBMessage_Serialize P m (NOPaxosMessage_SerializedSize P sequencing m) (2 + no_header_size sequencing) b1)"

definition no_stamp_message :: "u16 \<Rightarrow> u64 \<Rightarrow> no_packet \<Rightarrow> no_packet result" where
  "no_stamp_message sess_num msg_num m =
     (case m of
        NOClientPacket x \<Rightarrow> Inl BadCast
      | NOServerPacket (NRequest r) \<Rightarrow> Inr (NOServerPacket (NRequest (NORequestMessage (ucast sess_num) msg_num (rq_req r))))
      | NOServerPacket x \<Rightarrow> Inl Panicked)"

definition NOPaxosMessage_Parse :: "no_packet protobuf \<Rightarrow> packet \<Rightarrow> no_packet result" where
  "NOPaxosMessage_Parse P b =
     bind_r (read_be 0 2 b) (\<lambda>header_sz :: u16.
     bind_r (if header_sz > 0 then bind_r (read_be 2 2 b) (\<lambda>sess_num :: u16.
               bind_r (read_be 4 8 b) (\<lambda>msg_num :: u64. Inr (12, sess_num, msg_num)))
             else Inr (2, 0, 0)) (\<lambda>(p, sess_num, msg_num).
     bind_r (PBMessage_Parse P p (of_nat (length b) - 2 - ucast header_sz) b) (\<lambda>m.
       if header_sz > 0 then no_stamp_message sess_num msg_num m else Inr m)))"

section \<open>The sequencer\<close>

record no_sequencer =
  sq_sess_num :: u16
  sq_msg_num :: u64

definition NOPaxosSequencer_new :: "Configuration \<Rightarrow> int \<Rightarrow> no_sequencer result" where
  "NOPaxosSequencer_new config ident =
     Sequencer_new config ident \<lparr>sq_sess_num = word_of_int ident, sq_msg_num = 0\<rparr>"

text \<open>The new state, and the packet that is sent to all replicas, if any.\<close>

definition sq_ReceiveMessage :: "packet \<Rightarrow> no_sequencer \<Rightarrow> (no_sequencer \<times> packet option) result" where
  "sq_ReceiveMessage b s =
     bind_r (read_be 0 2 b) (\<lambda>header_sz :: u16.
       if header_sz > 0 then
         bind_r (poke 2 (be_bytes 2 (sq_sess_num s)) b) (\<lambda>b1.
           let s1 = s\<lparr>sq_msg_num := sq_msg_num s + 1\<rparr>
           in bind_r (poke 4 (be_bytes 8 (sq_msg_num s1)) b1) (\<lambda>b2. Inr (s1, Some b2)))
       else Inr (s, None))"

text \<open>A client's request on its way: written to fresh memory, stamped, and read by a replica.\<close>

definition sq_pass :: "no_packet protobuf \<Rightarrow> packet \<Rightarrow> Request \<Rightarrow> no_sequencer \<Rightarrow> (no_sequencer \<times> no_packet) result" where
  "sq_pass P memory r s =
     bind_r (NOPaxosMessage_Serialize P True (NOServerPacket (NRequest (NORequestMessage 0 0 r))) memory) (\<lambda>b.
       bind_r (sq_ReceiveMessage b s) (\<lambda>(s1, sent).
         deref_r sent (\<lambda>b1. bind_r (NOPaxosMessage_Parse P b1) (\<lambda>m. Inr (s1, m)))))"

section \<open>The layout of a packet\<close>

lemma NOPaxosMessage_Serialize_layout:
  assumes size: "NOPaxosMessage_SerializedSize P sequencing m \<le> length memory"
  shows "NOPaxosMessage_Serialize P sequencing m memory =
    Inr (be_bytes 2 (of_nat (no_header_size sequencing) :: u16) @ take (no_header_size sequencing) (drop 2 memory) @
      pb_bytes P m @ drop (NOPaxosMessage_SerializedSize P sequencing m) memory)"
proof -
  let ?h = "no_header_size sequencing" and ?n = "length (pb_bytes P m)"
  have len: "2 + ?h + ?n \<le> length memory"
    using size by (simp add: NOPaxosMessage_SerializedSize_def PBMessage_SerializedSize_def)
  obtain x1 y1 where 1: "memory = x1 @ y1" "length x1 = 2" using split_packet [of 2 memory] len by auto
  obtain x2 y2 where 2: "y1 = x2 @ y2" "length x2 = ?h" using split_packet [of ?h y1] len 1 by auto
  obtain x3 y3 where 3: "y2 = x3 @ y3" "length x3 = ?n" using split_packet [of ?n y2] len 1 2 by auto
  let ?b = "be_bytes 2 (of_nat ?h :: u16)"
  have a: "poke 0 ?b memory = Inr (?b @ x2 @ x3 @ y3)"
    using poke_at [of memory "[]" x1 "x2 @ x3 @ y3" 0 ?b] 1 2 3 by simp
  have b: "poke (2 + ?h) (pb_bytes P m) (?b @ x2 @ x3 @ y3) = Inr ((?b @ x2) @ pb_bytes P m @ y3)"
    by (rule poke_at [of _ _ x3]) (use 2 3 in simp_all)
  have fits: "PBMessage_SerializedSize P m \<le> NOPaxosMessage_SerializedSize P sequencing m"
    by (simp add: NOPaxosMessage_SerializedSize_def)
  show ?thesis
    using a b fits 1 2 3
    by (simp add: NOPaxosMessage_Serialize_def PBMessage_Serialize_def NOPaxosMessage_SerializedSize_def
        PBMessage_SerializedSize_def)
qed

lemma sq_ReceiveMessage_layout:
  assumes "b = be_bytes 2 (10 :: u16) @ gap @ pl" and "length gap = 10"
  shows "sq_ReceiveMessage b s =
    Inr (s\<lparr>sq_msg_num := sq_msg_num s + 1\<rparr>,
      Some (be_bytes 2 (10 :: u16) @ be_bytes 2 (sq_sess_num s) @ be_bytes 8 (sq_msg_num s + 1) @ pl))"
proof -
  let ?h = "be_bytes 2 (10 :: u16)"
  obtain g1 g2 where g: "gap = g1 @ g2" "length g1 = 2" using split_packet [of 2 gap] assms(2) by auto
  have 0: "read_be 0 2 b = Inr (10 :: u16)" by (rule read_be_at [of b "[]"]) (use assms in simp_all)
  have 1: "poke 2 (be_bytes 2 (sq_sess_num s)) b = Inr (?h @ be_bytes 2 (sq_sess_num s) @ g2 @ pl)"
    by (rule poke_at [of _ _ g1]) (use assms g in simp_all)
  have 2: "poke 4 (be_bytes 8 k) (?h @ be_bytes 2 (sq_sess_num s) @ g2 @ pl) =
      Inr ((?h @ be_bytes 2 (sq_sess_num s)) @ be_bytes 8 k @ pl)" for k :: u64
    by (rule poke_at [of _ _ g2]) (use assms g in simp_all)
  show ?thesis using 0 1 2 by (simp add: sq_ReceiveMessage_def Let_def)
qed

lemma NOPaxosMessage_Parse_stamped:
  assumes b: "b = be_bytes 2 (10 :: u16) @ be_bytes 2 n @ be_bytes 8 k @ pl" and len: "length pl < 2 ^ 31"
  shows "NOPaxosMessage_Parse P b = no_stamp_message n k (pb_parse P pl)"
proof -
  have 0: "read_be 0 2 b = Inr (10 :: u16)" by (rule read_be_at [of b "[]"]) (use b in simp_all)
  have 1: "read_be 2 2 b = Inr (n :: u16)"
    by (rule read_be_at [of b "be_bytes 2 (10 :: u16)" 2 n "be_bytes 8 k @ pl"]) (use b in simp_all)
  have 2: "read_be 4 8 b = Inr (k :: u64)"
    by (rule read_be_at [of b "be_bytes 2 (10 :: u16) @ be_bytes 2 n" 8 k pl]) (use b in simp_all)
  have 3: "PBMessage_Parse P 12 (of_nat (length b) - 2 - ucast (10 :: u16)) b = Inr (pb_parse P pl)"
    by (rule PBMessage_Parse_at [of _ "be_bytes 2 (10 :: u16) @ be_bytes 2 n @ be_bytes 8 k"]) (use b len in simp_all)
  show ?thesis using 0 1 2 3 by (simp add: NOPaxosMessage_Parse_def)
qed

lemma NOPaxosMessage_Parse_plain:
  assumes b: "b = be_bytes 2 (0 :: u16) @ pl" and len: "length pl < 2 ^ 31"
  shows "NOPaxosMessage_Parse P b = Inr (pb_parse P pl)"
proof -
  have 0: "read_be 0 2 b = Inr (0 :: u16)" by (rule read_be_at [of b "[]"]) (use b in simp_all)
  have 3: "PBMessage_Parse P 2 (of_nat (length b) - 2) b = Inr (pb_parse P pl)"
    by (rule PBMessage_Parse_at [of _ "be_bytes 2 (0 :: u16)"]) (use b len in simp_all)
  show ?thesis using 0 3 by (simp add: NOPaxosMessage_Parse_def)
qed

text \<open>
  C33. Writing a message touches exactly the \<open>SerializedSize\<close> bytes the transport allocates for it: in memory
  of that size or more it writes the header, leaves room for the stamp, writes the message, and what lies behind
  it stays; in less memory it writes beyond the end. The header size fits its 16 bits.
\<close>

theorem no_serialize_exact:
  "NOPaxosMessage_Serialize P sequencing m memory =
     (if NOPaxosMessage_SerializedSize P sequencing m \<le> length memory
      then Inr (be_bytes 2 (of_nat (no_header_size sequencing) :: u16) @ take (no_header_size sequencing) (drop 2 memory) @
        pb_bytes P m @ drop (NOPaxosMessage_SerializedSize P sequencing m) memory)
      else Inl Undefined) \<and>
   unat (of_nat (no_header_size sequencing) :: u16) = no_header_size sequencing"
proof -
  have "NOPaxosMessage_Serialize P sequencing m memory = Inl Undefined"
    if "\<not> NOPaxosMessage_SerializedSize P sequencing m \<le> length memory"
    using that by (auto simp: NOPaxosMessage_Serialize_def NOPaxosMessage_SerializedSize_def PBMessage_Serialize_def
        PBMessage_SerializedSize_def poke_def bind_r_def)
  moreover have "unat (of_nat (no_header_size sequencing) :: u16) = no_header_size sequencing"
    by (simp add: no_header_size_def)
  ultimately show ?thesis
    using NOPaxosMessage_Serialize_layout [of P sequencing m memory] by simp
qed

text \<open>
  A message that is not to be stamped is read back as it was written, whatever the memory held.
\<close>

theorem no_packet_roundtrip:
  assumes "length memory = NOPaxosMessage_SerializedSize P False m" and "length memory < 2 ^ 31"
    and "pb_parse P (pb_bytes P m) = m"
  shows "\<exists>b. NOPaxosMessage_Serialize P False m memory = Inr b \<and> NOPaxosMessage_Parse P b = Inr m"
proof -
  have "NOPaxosMessage_Serialize P False m memory = Inr (be_bytes 2 (0 :: u16) @ pb_bytes P m)"
    using NOPaxosMessage_Serialize_layout [of P False m memory] assms(1) by (simp add: no_header_size_def)
  moreover have "NOPaxosMessage_Parse P (be_bytes 2 (0 :: u16) @ pb_bytes P m) = Inr (pb_parse P (pb_bytes P m))"
    by (rule NOPaxosMessage_Parse_plain) (use assms in \<open>simp_all add: NOPaxosMessage_SerializedSize_def PBMessage_SerializedSize_def\<close>)
  ultimately show ?thesis using assms(3) by auto
qed

section \<open>The sequencer as \<open>NOSystem\<close> has it\<close>

abbreviation no_packet_of :: "Request \<Rightarrow> no_packet" where
  "no_packet_of r \<equiv> NOServerPacket (NRequest (NORequestMessage 0 0 r))"

definition passes :: "no_packet protobuf \<Rightarrow> packet \<Rightarrow> Request \<Rightarrow> bool" where
  "passes P memory r \<longleftrightarrow> length memory = NOPaxosMessage_SerializedSize P True (no_packet_of r) \<and> length memory < 2 ^ 31 \<and>
     pb_parse P (pb_bytes P (no_packet_of r)) = no_packet_of r"

lemma sq_pass_stamps:
  assumes "passes P memory r"
  shows "sq_pass P memory r s =
    Inr (s\<lparr>sq_msg_num := sq_msg_num s + 1\<rparr>,
      NOServerPacket (NRequest (NORequestMessage (ucast (sq_sess_num s)) (sq_msg_num s + 1) r)))"
proof -
  let ?pl = "pb_bytes P (no_packet_of r)" and ?h = "be_bytes 2 (10 :: u16)"
  have len: "length memory = 12 + length ?pl" "length ?pl < 2 ^ 31"
    using assms by (simp_all add: passes_def NOPaxosMessage_SerializedSize_def PBMessage_SerializedSize_def no_header_size_def)
  have 1: "NOPaxosMessage_Serialize P True (no_packet_of r) memory = Inr (?h @ take 10 (drop 2 memory) @ ?pl)"
    using NOPaxosMessage_Serialize_layout [of P True "no_packet_of r" memory] assms
    by (simp add: passes_def no_header_size_def)
  have 2: "sq_ReceiveMessage (?h @ take 10 (drop 2 memory) @ ?pl) s =
      Inr (s\<lparr>sq_msg_num := sq_msg_num s + 1\<rparr>, Some (?h @ be_bytes 2 (sq_sess_num s) @ be_bytes 8 (sq_msg_num s + 1) @ ?pl))"
    by (rule sq_ReceiveMessage_layout) (use len in auto)
  have 3: "NOPaxosMessage_Parse P (?h @ be_bytes 2 (sq_sess_num s) @ be_bytes 8 (sq_msg_num s + 1) @ ?pl) =
      no_stamp_message (sq_sess_num s) (sq_msg_num s + 1) (no_packet_of r)"
    using NOPaxosMessage_Parse_stamped [OF refl len(2), of P] assms by (simp add: passes_def)
  show ?thesis using 1 2 3 by (simp add: sq_pass_def deref_r_def no_stamp_message_def)
qed

fun sq_run :: "no_packet protobuf \<Rightarrow> (Request \<Rightarrow> packet) \<Rightarrow> Request list \<Rightarrow> no_sequencer \<Rightarrow> no_packet list result" where
  "sq_run P memory [] s = Inr []"
| "sq_run P memory (r # rs) s =
     bind_r (sq_pass P (memory r) r s) (\<lambda>(s1, m). bind_r (sq_run P memory rs s1) (\<lambda>ms. Inr (m # ms)))"

definition no_stamped :: "u16 \<Rightarrow> u64 \<Rightarrow> Request \<Rightarrow> NOToReplicaMessage" where
  "no_stamped n k r = NRequest (NORequestMessage (ucast n) k r)"

lemma sq_run_from:
  assumes "\<forall>r \<in> set rs. passes P (memory r) r"
  shows "sq_run P memory rs s =
    Inr (map (\<lambda>k. NOServerPacket (no_stamped (sq_sess_num s) (sq_msg_num s + of_nat (Suc k)) (rs ! k))) [0..<length rs])"
  using assms
proof (induction rs arbitrary: s)
  case (Cons r rs)
  let ?s = "s\<lparr>sq_msg_num := sq_msg_num s + 1\<rparr>"
  have "sq_run P memory rs ?s =
      Inr (map (\<lambda>k. NOServerPacket (no_stamped (sq_sess_num s) (sq_msg_num s + of_nat (Suc (Suc k))) (rs ! k))) [0..<length rs])"
    using Cons.IH [of ?s] Cons.prems by (simp add: add.assoc)
  then show ?case
    using Cons.prems sq_pass_stamps [of P "memory r" r s]
    by (simp add: no_stamped_def upt_conv_Cons map_Suc_upt [symmetric] comp_def del: upt_Suc)
qed simp

text \<open>
  C16. The wire and the sequencer do what the action \<open>Stamp\<close> of \<open>NOSystem\<close> says: the requests that pass a new
  sequencer 0 reach the replicas numbered 1, 2, 3, \<open>\<dots>\<close> in session 0, each with its own content, so that each is a message the
  group's network may deliver once these requests have been stamped.
\<close>

theorem sequencer_stamps:
  assumes "NOPaxosSequencer_new config 0 = Inr s" and "\<forall>r \<in> set rs. passes P (memory r) r" and "length rs < 2 ^ 64"
  shows "\<exists>ms. sq_run P memory rs s = Inr (map NOServerPacket ms) \<and>
     ms = map (\<lambda>k. no_stamped 0 (of_nat (Suc k)) (rs ! k)) [0..<length rs] \<and> list_all (no_from_client rs) ms"
proof -
  let ?ms = "map (\<lambda>k. no_stamped 0 (of_nat (Suc k)) (rs ! k)) [0..<length rs]"
  have s: "sq_sess_num s = 0" "sq_msg_num s = 0"
    using assms(1) by (auto simp: NOPaxosSequencer_new_def Sequencer_new_def split: if_splits)
  have "unat (of_nat (Suc k) :: u64) = Suc k" if "k < length rs" for k
    using that assms(3) by (simp add: unat_of_nat take_bit_nat_eq_self del: of_nat_Suc)
  then have "list_all (no_from_client rs) ?ms"
    by (auto simp: list_all_iff no_stamped_def is_req_def)
  then show ?thesis using sq_run_from [OF assms(2), of s] s by (intro exI [of _ ?ms]) (simp add: comp_def)
qed

section \<open>Packets that are too short\<close>

text \<open>
  Neither the sequencer nor a replica compares the header size with the packet: a datagram of fewer than 12
  bytes that announces a header, whatever its size, is stamped and read beyond its end.
\<close>

theorem short_packet_overrun:
  assumes "length b < 12" and "read_be 0 2 b = Inr (h :: u16)" and "h \<noteq> 0"
  shows "sq_ReceiveMessage b s = Inl Undefined \<and> NOPaxosMessage_Parse P b = Inl Undefined"
proof -
  have pos: "0 < h" using assms(3) by (simp add: word_gt_0)
  have w: "poke 4 (be_bytes 8 k) b1 = Inl Undefined" if "length b1 = length b" for k :: u64 and b1
    using that assms(1) by (simp add: poke_def)
  have "poke 2 bs b = Inl Undefined \<or> (\<exists>b1. poke 2 bs b = Inr b1 \<and> length b1 = length b)" for bs
    by (auto simp: poke_def)
  from this [of "be_bytes 2 (sq_sess_num s)"] have "sq_ReceiveMessage b s = Inl Undefined"
    using assms(2) pos w by (elim disjE exE) (simp_all add: sq_ReceiveMessage_def Let_def)
  moreover have "NOPaxosMessage_Parse P b = Inl Undefined"
    using assms(1,2) pos read_be_beyond [of b 4 8, where 'a = 64] read_be_cases [of 2 2 b, where 'a = 16]
    by (elim disjE exE) (simp_all add: NOPaxosMessage_Parse_def)
  ultimately show ?thesis ..
qed

section \<open>A concrete wire\<close>

definition one_request :: Request where
  "one_request = mk_req 7 1 ''a''"

definition toy_protobuf :: "no_packet protobuf" where
  "toy_protobuf = \<lparr>pb_bytes = (\<lambda>m. [8, 1]), pb_parse = (\<lambda>bs. no_packet_of one_request)\<rparr>"

theorem no_packet_roundtrip_witness:
  "\<exists>b. NOPaxosMessage_Serialize toy_protobuf False (no_packet_of one_request) [170, 171, 172, 173] = Inr b \<and>
     NOPaxosMessage_Parse toy_protobuf b = Inr (no_packet_of one_request)"
  by (rule no_packet_roundtrip)
    (simp_all add: toy_protobuf_def NOPaxosMessage_SerializedSize_def PBMessage_SerializedSize_def no_header_size_def)

theorem sequencer_stamps_witness:
  "sq_run toy_protobuf (\<lambda>_. replicate 14 255) [one_request, one_request] \<lparr>sq_sess_num = 0, sq_msg_num = 0\<rparr> =
     Inr (map NOServerPacket [no_stamped 0 1 one_request, no_stamped 0 2 one_request])"
proof -
  let ?c = "conf3\<lparr>sequencers := [mk_ReplicaAddress ''s'' ''1'' ''eth0'']\<rparr>"
  have new: "NOPaxosSequencer_new ?c 0 = Inr \<lparr>sq_sess_num = 0, sq_msg_num = 0\<rparr>"
    by (simp add: NOPaxosSequencer_new_def Sequencer_new_def NumSequencers_def)
  have "\<exists>ms. sq_run toy_protobuf (\<lambda>_. replicate 14 255) [one_request, one_request] \<lparr>sq_sess_num = 0, sq_msg_num = 0\<rparr> =
      Inr (map NOServerPacket ms) \<and>
     ms = map (\<lambda>k. no_stamped 0 (of_nat (Suc k)) ([one_request, one_request] ! k)) [0..<length [one_request, one_request]] \<and>
     list_all (no_from_client [one_request, one_request]) ms"
    by (rule sequencer_stamps [OF new])
      (simp_all add: passes_def toy_protobuf_def NOPaxosMessage_SerializedSize_def PBMessage_SerializedSize_def no_header_size_def)
  then show ?thesis by (auto simp: upt_rec)
qed

theorem short_packet_overrun_witness:
  "sq_ReceiveMessage [0, 1, 2] \<lparr>sq_sess_num = 0, sq_msg_num = 0\<rparr> = Inl Undefined \<and>
   NOPaxosMessage_Parse toy_protobuf [0, 1, 2] = Inl Undefined"
proof -
  have "read_be 0 2 [0, 1, 2] = Inr (1 :: u16)" by (simp add: read_be_def peek_def be_value_def)
  from short_packet_overrun [OF _ this] show ?thesis by simp
qed

end
