(* ===== verification/ErisPacket.thy ===== *)
theory ErisPacket
  imports Packet Log
begin

text \<open>
  \<open>src/transaction/eris/message.cc\<close>, \<open>message.h\<close>, \<open>types.h\<close> and \<open>sequencer.cc\<close>, \<open>sequencer.h\<close>: the packets of
  Eris, whose stamp has a number for every group a transaction takes part in. A packet is a
  16-bit header size, then, if that is not 0, a 16-bit session number, the number of groups in
  one byte, and for each group its 32-bit identifier and a 64-bit number; then the protobuf message.
\<close>

section \<open>Messages\<close>

datatype RequestType = ER_UNKNOWN | ER_INDEPENDENT | ER_PREPARE | ER_COMMIT | ER_ABORT

datatype ErisRequestMessage = ErisRequestMessage (er_txnid: u64) (er_type: RequestType) (er_request: Request)

text \<open>A request for a server, any other message for a server, or a message for a client.\<close>

datatype 'x eris_packet = ErisRequest ErisRequestMessage | ErisServerPacket 'x | ErisClientPacket 'x

text \<open>The map \<open>msg_nums\<close> as the list of its entries in the order they are iterated.\<close>

record Multistamp =
  ms_sess_num :: u16
  ms_msg_nums :: "(u32 \<times> u64) list"

definition Multistamp_SerializedSize :: "Multistamp \<Rightarrow> nat" where
  "Multistamp_SerializedSize st = 2 + 1 + length (ms_msg_nums st) * (4 + 8)"

definition er_put :: "u32 \<Rightarrow> u64 \<Rightarrow> (u32 \<times> u64) list \<Rightarrow> (u32 \<times> u64) list" where
  "er_put g k ns = (if g \<in> set (map fst ns) then map (\<lambda>(h, x). (h, if h = g then k else x)) ns else ns @ [(g, k)])"

text \<open>The constructor with groups; the session number is not initialised (\<open>junk\<close>).\<close>

definition ErisMessage_new :: "u16 \<Rightarrow> int list \<Rightarrow> Multistamp" where
  "ErisMessage_new junk groups =
     \<lparr>ms_sess_num = junk, ms_msg_nums = fold (\<lambda>g ns. er_put (word_of_int g) 0 ns) groups []\<rparr>"

definition ErisMessage_SerializedSize :: "'x eris_packet protobuf \<Rightarrow> Multistamp \<Rightarrow> 'x eris_packet \<Rightarrow> nat" where
  "ErisMessage_SerializedSize P st m =
     2 + (if 0 < length (ms_msg_nums st) then Multistamp_SerializedSize st else 0) + PBMessage_SerializedSize P m"

fun er_write_groups :: "u32 list \<Rightarrow> nat \<Rightarrow> packet \<Rightarrow> (nat \<times> packet) result" where
  "er_write_groups [] p b = Inr (p, b)"
| "er_write_groups (g # gs) p b = bind_r (poke p (be_bytes 4 g) b) (\<lambda>b1. er_write_groups gs (p + 4 + 8) b1)"

definition ErisMessage_Serialize ::
  "'x eris_packet protobuf \<Rightarrow> Multistamp \<Rightarrow> 'x eris_packet \<Rightarrow> packet \<Rightarrow> packet result" where
  "ErisMessage_Serialize P st m b =
     (let n = length (ms_msg_nums st)
      in bind_r (poke 0 (be_bytes 2 (if 0 < n then of_nat (Multistamp_SerializedSize st) else 0 :: u16)) b) (\<lambda>b1.
         bind_r (if 0 < n then
                   bind_r (poke 4 (be_bytes 1 (of_nat n :: u8)) b1) (\<lambda>b2. er_write_groups (map fst (ms_msg_nums st)) 5 b2)
                 else Inr (2, b1)) (\<lambda>(p, b3).
           PBMessage_Serialize P m (ErisMessage_SerializedSize P st m) p b3)))"

fun er_read_groups :: "nat \<Rightarrow> nat \<Rightarrow> packet \<Rightarrow> (u32 \<times> u64) list \<Rightarrow> (nat \<times> (u32 \<times> u64) list) result" where
  "er_read_groups 0 p b ns = Inr (p, ns)"
| "er_read_groups (Suc n) p b ns =
     bind_r (read_be p 4 b) (\<lambda>ident. bind_r (read_be (p + 4) 8 b) (\<lambda>msg_num.
       er_read_groups n (p + 4 + 8) b (er_put ident msg_num ns)))"

text \<open>\<open>set_msgnum(stamp_.msg_nums.at(shard))\<close> for every operation of the request.\<close>

definition er_set_msgnum :: "(u32 \<times> u64) list \<Rightarrow> ShardOp \<Rightarrow> ShardOp list \<Rightarrow> ShardOp list result" where
  "er_set_msgnum ns x done =
     (case map_of ns (so_shard x) of None \<Rightarrow> Inl OutOfRange | Some k \<Rightarrow> Inr (done @ [x\<lparr>so_msgnum := Some k\<rparr>]))"

definition er_stamp_message :: "Multistamp \<Rightarrow> 'x eris_packet \<Rightarrow> 'x eris_packet result" where
  "er_stamp_message st m =
     (case m of
        ErisClientPacket x \<Rightarrow> Inl BadCast
      | ErisServerPacket x \<Rightarrow> Inl Panicked
      | ErisRequest (ErisRequestMessage t ty req) \<Rightarrow>
          bind_r (fold_r (er_set_msgnum (ms_msg_nums st)) (ops req) []) (\<lambda>xs.
            Inr (ErisRequest (ErisRequestMessage t ty (req\<lparr>req_sessnum := Some (ucast (ms_sess_num st)), ops := xs\<rparr>)))))"

text \<open>Parsing updates the stamp of the message object, which lives as long as the server.\<close>

definition ErisMessage_Parse ::
  "'x eris_packet protobuf \<Rightarrow> packet \<Rightarrow> Multistamp \<Rightarrow> (Multistamp \<times> 'x eris_packet) result" where
  "ErisMessage_Parse P b st =
     bind_r (read_be 0 2 b) (\<lambda>header_sz :: u16.
     bind_r (if header_sz > 0 then
               bind_r (read_be 2 2 b) (\<lambda>sess_num. bind_r (read_be 4 1 b) (\<lambda>n_groups :: u8.
                 bind_r (er_read_groups (unat n_groups) 5 b (ms_msg_nums st)) (\<lambda>(p, ns).
                   Inr (p, \<lparr>ms_sess_num = sess_num, ms_msg_nums = ns\<rparr>))))
             else Inr (2, st)) (\<lambda>(p, st1).
     bind_r (PBMessage_Parse P p (of_nat (length b) - 2 - ucast header_sz) b) (\<lambda>m.
       if header_sz > 0 then bind_r (er_stamp_message st1 m) (\<lambda>m1. Inr (st1, m1)) else Inr (st1, m))))"

section \<open>The sequencer\<close>

record eris_sequencer =
  es_sess_num :: u16
  es_msg_nums :: "u32 \<rightharpoonup> u64"

definition ErisSequencer_new :: "Configuration \<Rightarrow> int \<Rightarrow> eris_sequencer result" where
  "ErisSequencer_new config ident =
     Sequencer_new config ident \<lparr>es_sess_num = word_of_int ident, es_msg_nums = Map.empty\<rparr>"

text \<open>\<open>msg_nums_[g]\<close>, 0 for a group not seen before.\<close>

definition es_count :: "(u32 \<rightharpoonup> u64) \<Rightarrow> u32 \<Rightarrow> u64" where
  "es_count c g = (case c g of None \<Rightarrow> 0 | Some k \<Rightarrow> k)"

fun es_stamp_groups :: "nat \<Rightarrow> nat \<Rightarrow> packet \<Rightarrow> (u32 \<rightharpoonup> u64) \<Rightarrow> (u32 list \<times> (u32 \<rightharpoonup> u64) \<times> packet) result" where
  "es_stamp_groups 0 p b c = Inr ([], c, b)"
| "es_stamp_groups (Suc n) p b c =
     bind_r (read_be p 4 b) (\<lambda>g.
       let k = es_count c g + 1
       in bind_r (poke (p + 4) (be_bytes 8 k) b) (\<lambda>b1.
            bind_r (es_stamp_groups n (p + 4 + 8) b1 (c(g \<mapsto> k))) (\<lambda>(gs, c1, b2). Inr (g # gs, c1, b2))))"

text \<open>The new state, and the groups and the packet of \<open>SendMessageToGroups\<close>, if anything is sent.\<close>

definition es_ReceiveMessage ::
  "packet \<Rightarrow> eris_sequencer \<Rightarrow> (eris_sequencer \<times> (u32 list \<times> packet) option) result" where
  "es_ReceiveMessage b s =
     bind_r (read_be 0 2 b) (\<lambda>header_sz :: u16.
       if header_sz > 0 then
         bind_r (poke 2 (be_bytes 2 (es_sess_num s)) b) (\<lambda>b1.
         bind_r (read_be 4 1 b1) (\<lambda>n :: u8.
         bind_r (es_stamp_groups (unat n) 5 b1 (es_msg_nums s)) (\<lambda>(groups, c, b2).
           Inr (s\<lparr>es_msg_nums := c\<rparr>, Some (groups, b2)))))
       else Inr (s, None))"

section \<open>The groups of a packet\<close>

text \<open>A slot is a group and the 8 bytes for its number.\<close>

definition slot_bytes :: "(u32 \<times> packet) list \<Rightarrow> packet" where
  "slot_bytes xs = concat (map (\<lambda>(g, bs). be_bytes 4 g @ bs) xs)"

definition slots_ok :: "(u32 \<times> packet) list \<Rightarrow> bool" where
  "slots_ok xs \<longleftrightarrow> list_all (\<lambda>(g, bs). length bs = 8) xs"

lemma slot_bytes_simps [simp]:
  "slot_bytes [] = []" "slot_bytes ((g, bs) # xs) = be_bytes 4 g @ bs @ slot_bytes xs"
  by (simp_all add: slot_bytes_def)

lemma slots_ok_simps [simp]: "slots_ok []" "slots_ok ((g, bs) # xs) \<longleftrightarrow> length bs = 8 \<and> slots_ok xs"
  by (simp_all add: slots_ok_def)

lemma length_slot_bytes: "slots_ok xs \<Longrightarrow> length (slot_bytes xs) = 12 * length xs"
  by (induction xs) auto

lemma er_write_groups_at:
  assumes "b = pre @ mid @ suf" and "length pre = p" and "length mid = 12 * length gs"
  shows "\<exists>xs. map fst xs = gs \<and> slots_ok xs \<and>
    er_write_groups gs p b = Inr (p + 12 * length gs, pre @ slot_bytes xs @ suf)"
  using assms
proof (induction gs arbitrary: b pre mid p)
  case (Cons g gs)
  obtain m1 m' where 1: "mid = m1 @ m'" "length m1 = 4" using split_packet [of 4 mid] Cons.prems by auto
  obtain m2 m3 where 2: "m' = m2 @ m3" "length m2 = 8" using split_packet [of 8 m'] Cons.prems 1 by auto
  have w: "poke p (be_bytes 4 g) b = Inr ((pre @ be_bytes 4 g @ m2) @ m3 @ suf)"
    using poke_at [of b pre m1 "m2 @ m3 @ suf" p "be_bytes 4 g"] Cons.prems 1 2 by simp
  have "length m3 = 12 * length gs" using Cons.prems 1 2 by simp
  from Cons.IH [OF refl _ this, of "pre @ be_bytes 4 g @ m2" "p + 12"] obtain xs where
    xs: "map fst xs = gs" "slots_ok xs"
      "er_write_groups gs (p + 12) ((pre @ be_bytes 4 g @ m2) @ m3 @ suf) =
       Inr (p + 12 + 12 * length gs, (pre @ be_bytes 4 g @ m2) @ slot_bytes xs @ suf)"
    using Cons.prems(2) 2 by auto
  show ?case
    using xs w 2 by (intro exI [of _ "(g, m2) # xs"]) (simp add: add.assoc)
qed simp

lemma es_stamp_groups_at:
  assumes "b = pre @ slot_bytes xs @ suf" and "length pre = p" and "slots_ok xs" and "distinct (map fst xs)"
  shows "es_stamp_groups (length xs) p b c =
    Inr (map fst xs, c ++ map_of (map (\<lambda>(g, bs). (g, es_count c g + 1)) xs),
      pre @ slot_bytes (map (\<lambda>(g, bs). (g, be_bytes 8 (es_count c g + 1))) xs) @ suf)"
  using assms
proof (induction xs arbitrary: b pre p c)
  case (Cons x xs)
  obtain g bs where x: "x = (g, bs)" by force
  let ?k = "es_count c g + 1"
  have r: "read_be p 4 b = Inr g"
    by (rule read_be_at [of b pre 4 g "bs @ slot_bytes xs @ suf"]) (use Cons.prems x in simp_all)
  have w: "poke (p + 4) (be_bytes 8 ?k) b = Inr ((pre @ be_bytes 4 g @ be_bytes 8 ?k) @ slot_bytes xs @ suf)"
    using poke_at [of b "pre @ be_bytes 4 g" bs "slot_bytes xs @ suf" "p + 4" "be_bytes 8 ?k"] Cons.prems x by simp
  define c1 where "c1 = c(g \<mapsto> ?k)"
  have "es_count c1 h = es_count c h" if "h \<in> set (map fst xs)" for h
    using Cons.prems(4) x that by (auto simp: es_count_def c1_def)
  then have same: "map (\<lambda>(h, bs). (h, f (es_count c1 h))) xs = map (\<lambda>(h, bs). (h, f (es_count c h))) xs" for f :: "u64 \<Rightarrow> 'z"
    by (intro map_cong) force+
  have IH: "es_stamp_groups (length xs) (12 + p) ((pre @ be_bytes 4 g @ be_bytes 8 ?k) @ slot_bytes xs @ suf) c1 =
    Inr (map fst xs, c1 ++ map_of (map (\<lambda>(h, bs). (h, es_count c h + 1)) xs),
      (pre @ be_bytes 4 g @ be_bytes 8 ?k) @ slot_bytes (map (\<lambda>(h, bs). (h, be_bytes 8 (es_count c h + 1))) xs) @ suf)"
    using Cons.IH [OF refl, of "pre @ be_bytes 4 g @ be_bytes 8 ?k" "12 + p" c1] Cons.prems x
    unfolding same [of "\<lambda>k. k + 1"] same [of "\<lambda>k. be_bytes 8 (k + 1)"] by simp
  have all: "c1 ++ map_of (map (\<lambda>(h, bs). (h, es_count c h + 1)) xs) =
      c ++ map_of (map (\<lambda>(h, bs). (h, es_count c h + 1)) (x # xs))"
  proof -
    have "g \<notin> dom (map_of (map (\<lambda>(h, bs). (h, es_count c h + 1)) xs))"
      using Cons.prems(4) x by (simp add: dom_map_of_conv_image_fst image_image case_prod_beta)
    then show ?thesis by (simp add: c1_def x map_add_upd_left)
  qed
  show ?case unfolding all [symmetric] using r w IH by (simp add: x Let_def c1_def [symmetric])
qed simp

section \<open>One transaction on its way\<close>

lemma map_of_change: "map_of (map (\<lambda>(h, x). (h, if h = g then k else x)) ns) h =
    (if h = g then map_option (\<lambda>_. k) (map_of ns h) else map_of ns h)"
proof (induction ns)
  case (Cons a ns)
  obtain x y where a: "a = (x, y)" by force
  show ?case using Cons.IH unfolding a by (cases "h = x"; cases "h = g") simp_all
qed simp

lemma map_of_snoc: "map_of (ns @ [(g, k)]) h = (case map_of ns h of None \<Rightarrow> if h = g then Some k else None | Some v \<Rightarrow> Some v)"
proof (induction ns)
  case (Cons a ns)
  obtain x y where a: "a = (x, y)" by force
  show ?case using Cons.IH unfolding a by (cases "h = x") simp_all
qed simp

lemma map_of_put: "map_of (er_put g k ns) = (map_of ns)(g \<mapsto> k)"
proof
  fix h
  show "map_of (er_put g k ns) h = ((map_of ns)(g \<mapsto> k)) h"
  proof (cases "g \<in> set (map fst ns)")
    case True
    then obtain v where "map_of ns g = Some v" by (metis map_of_eq_None_iff not_None_eq set_map)
    with True show ?thesis by (simp add: er_put_def map_of_change)
  next
    case False
    then have "map_of ns g = None" by (simp add: map_of_eq_None_iff)
    with False show ?thesis by (cases "map_of ns h") (auto simp: er_put_def map_of_snoc simp del: map_of_append)
  qed
qed

lemma er_read_groups_lookup:
  assumes "b = pre @ slot_bytes (map (\<lambda>(g, k). (g, be_bytes 8 k)) kvs) @ suf" and "length pre = p"
    and "distinct (map fst kvs)"
  shows "\<exists>ns'. er_read_groups (length kvs) p b ns = Inr (p + 12 * length kvs, ns') \<and> map_of ns' = map_of ns ++ map_of kvs"
  using assms
proof (induction kvs arbitrary: pre p ns)
  case (Cons x kvs)
  obtain g k where x: "x = (g, k)" by force
  let ?rest = "slot_bytes (map (\<lambda>(g, k). (g, be_bytes 8 k)) kvs) @ suf"
  have r1: "read_be p 4 b = Inr g"
    by (rule read_be_at [of b pre 4 g "be_bytes 8 k @ ?rest"]) (use Cons.prems x in simp_all)
  have r2: "read_be (p + 4) 8 b = Inr k"
    by (rule read_be_at [of b "pre @ be_bytes 4 g" 8 k ?rest]) (use Cons.prems x in simp_all)
  have "\<exists>ns'. er_read_groups (length kvs) (p + 12) b (er_put g k ns) = Inr (p + 12 + 12 * length kvs, ns') \<and>
      map_of ns' = map_of (er_put g k ns) ++ map_of kvs"
    by (rule Cons.IH [of "pre @ be_bytes 4 g @ be_bytes 8 k"]) (use Cons.prems x in auto)
  then obtain ns' where ns': "er_read_groups (length kvs) (p + 12) b (er_put g k ns) = Inr (p + 12 + 12 * length kvs, ns')"
      "map_of ns' = map_of (er_put g k ns) ++ map_of kvs" by blast
  have "g \<notin> dom (map_of kvs)" using Cons.prems(3) x by (simp add: dom_map_of_conv_image_fst)
  then have "map_of ns' = map_of ns ++ map_of (x # kvs)"
    using ns'(2) by (simp add: x map_of_put map_add_upd_left)
  moreover have "er_read_groups (length (x # kvs)) p b ns = Inr (p + 12 * length (x # kvs), ns')"
    using ns'(1) r1 r2 by (simp add: add.assoc)
  ultimately show ?case by blast
qed simp

definition er_stamped :: "u16 \<Rightarrow> (u32 \<Rightarrow> u64) \<Rightarrow> ErisRequestMessage \<Rightarrow> 'x eris_packet" where
  "er_stamped n f m =
     ErisRequest (ErisRequestMessage (er_txnid m) (er_type m) ((er_request m)\<lparr>req_sessnum := Some (ucast n),
       ops := map (\<lambda>x. x\<lparr>so_msgnum := Some (f (so_shard x))\<rparr>) (ops (er_request m))\<rparr>))"

lemma er_set_msgnum_all:
  assumes "\<forall>x \<in> set xs. map_of ns (so_shard x) = Some (f (so_shard x))"
  shows "fold_r (er_set_msgnum ns) xs zs = Inr (zs @ map (\<lambda>x. x\<lparr>so_msgnum := Some (f (so_shard x))\<rparr>) xs)"
  using assms by (induction xs arbitrary: zs) (auto simp: er_set_msgnum_def)

text \<open>Written to fresh memory, stamped, and read by a server whose message object holds \<open>old\<close>.\<close>

definition es_pass ::
  "'x eris_packet protobuf \<Rightarrow> packet \<Rightarrow> Multistamp \<Rightarrow> ErisRequestMessage \<Rightarrow> Multistamp \<Rightarrow> eris_sequencer \<Rightarrow>
   (eris_sequencer \<times> u32 list \<times> 'x eris_packet) result" where
  "es_pass P memory st m old s =
     bind_r (ErisMessage_Serialize P st (ErisRequest m) memory) (\<lambda>b.
       bind_r (es_ReceiveMessage b s) (\<lambda>(s1, sent).
         deref_r sent (\<lambda>(groups, b1). bind_r (ErisMessage_Parse P b1 old) (\<lambda>(_, m1). Inr (s1, groups, m1)))))"

definition er_groups :: "Multistamp \<Rightarrow> u32 list" where
  "er_groups st = map fst (ms_msg_nums st)"

text \<open>A transaction of 1 to 255 groups, with memory of the right size, every operation for one of its groups.\<close>

definition er_passes :: "'x eris_packet protobuf \<Rightarrow> packet \<Rightarrow> Multistamp \<Rightarrow> ErisRequestMessage \<Rightarrow> bool" where
  "er_passes P memory st m \<longleftrightarrow>
     distinct (er_groups st) \<and> 0 < length (er_groups st) \<and> length (er_groups st) < 256 \<and>
     length memory = ErisMessage_SerializedSize P st (ErisRequest m) \<and> length memory < 2 ^ 31 \<and>
     pb_parse P (pb_bytes P (ErisRequest m)) = ErisRequest m \<and>
     so_shard ` set (ops (er_request m)) \<subseteq> set (er_groups st)"

lemma ErisMessage_Serialize_layout:
  assumes "length memory = ErisMessage_SerializedSize P st m" and n: "0 < length (er_groups st)"
  shows "\<exists>s0 xs. length s0 = 2 \<and> map fst xs = er_groups st \<and> slots_ok xs \<and> ErisMessage_Serialize P st m memory =
    Inr (be_bytes 2 (of_nat (Multistamp_SerializedSize st) :: u16) @ s0 @ be_bytes 1 (of_nat (length (er_groups st)) :: u8) @
      slot_bytes xs @ pb_bytes P m)"
proof -
  let ?gs = "er_groups st" and ?h = "be_bytes 2 (of_nat (Multistamp_SerializedSize st) :: u16)"
  let ?n = "be_bytes 1 (of_nat (length ?gs) :: u8)"
  have len: "length memory = 5 + 12 * length ?gs + length (pb_bytes P m)"
    using assms by (simp add: ErisMessage_SerializedSize_def PBMessage_SerializedSize_def Multistamp_SerializedSize_def er_groups_def)
  obtain h y1 where 1: "memory = h @ y1" "length h = 2" using split_packet [of 2 memory] len by auto
  obtain s0 y2 where 2: "y1 = s0 @ y2" "length s0 = 2" using split_packet [of 2 y1] len 1 by auto
  obtain c y3 where 3: "y2 = c @ y3" "length c = 1" using split_packet [of 1 y2] len 1 2 by auto
  obtain mid suf where 4: "y3 = mid @ suf" "length mid = 12 * length ?gs"
    using split_packet [of "12 * length ?gs" y3] len 1 2 3 by auto
  have suf: "length suf = length (pb_bytes P m)" using len 1 2 3 4 by simp
  have w1: "poke 0 ?h memory = Inr (?h @ s0 @ c @ mid @ suf)"
    using poke_at [of memory "[]" h "s0 @ c @ mid @ suf" 0 ?h] 1 2 3 4 by simp
  have w2: "poke 4 ?n (?h @ s0 @ c @ mid @ suf) = Inr ((?h @ s0 @ ?n) @ mid @ suf)"
    using poke_at [of "?h @ s0 @ c @ mid @ suf" "?h @ s0" c "mid @ suf" 4 ?n] 2 3 by simp
  obtain xs where xs: "map fst xs = ?gs" "slots_ok xs"
      "er_write_groups ?gs 5 ((?h @ s0 @ ?n) @ mid @ suf) = Inr (5 + 12 * length ?gs, (?h @ s0 @ ?n) @ slot_bytes xs @ suf)"
    using er_write_groups_at [OF refl _ 4(2), of "?h @ s0 @ ?n" 5 suf] 2 by auto
  have "length xs = length ?gs" using xs(1) by (metis length_map)
  then have w3: "poke (5 + 12 * length ?gs) (pb_bytes P m) ((?h @ s0 @ ?n) @ slot_bytes xs @ suf) =
      Inr (((?h @ s0 @ ?n) @ slot_bytes xs) @ pb_bytes P m @ [])"
    by (intro poke_at [of _ _ suf]) (use 2 suf length_slot_bytes [OF xs(2)] in simp_all)
  have fits: "PBMessage_SerializedSize P m \<le> ErisMessage_SerializedSize P st m" by (simp add: ErisMessage_SerializedSize_def)
  have pos: "0 < length (ms_msg_nums st)" using n by (simp add: er_groups_def)
  have "ErisMessage_Serialize P st m memory = Inr (?h @ s0 @ ?n @ slot_bytes xs @ pb_bytes P m)"
    using w1 w2 w3 xs(3) fits pos
    by (simp add: ErisMessage_Serialize_def PBMessage_Serialize_def er_groups_def Let_def)
  with 2 xs show ?thesis by blast
qed

lemma es_ReceiveMessage_layout:
  assumes b: "b = be_bytes 2 (h :: u16) @ s0 @ be_bytes 1 (n :: u8) @ slot_bytes xs @ pl" and s0: "length s0 = 2"
    and xs: "slots_ok xs" "distinct (map fst xs)" "unat n = length xs" and h: "h \<noteq> 0"
  shows "es_ReceiveMessage b s =
    Inr (s\<lparr>es_msg_nums := es_msg_nums s ++ map_of (map (\<lambda>(g, bs). (g, es_count (es_msg_nums s) g + 1)) xs)\<rparr>,
      Some (map fst xs, be_bytes 2 h @ be_bytes 2 (es_sess_num s) @ be_bytes 1 n @
        slot_bytes (map (\<lambda>(g, bs). (g, be_bytes 8 (es_count (es_msg_nums s) g + 1))) xs) @ pl))"
proof -
  let ?pre = "be_bytes 2 h @ be_bytes 2 (es_sess_num s) @ be_bytes 1 n"
  have r0: "read_be 0 2 b = Inr h" by (rule read_be_at [of b "[]"]) (use b in simp_all)
  have w: "poke 2 (be_bytes 2 (es_sess_num s)) b = Inr (?pre @ slot_bytes xs @ pl)"
    using poke_at [of b "be_bytes 2 h" s0 "be_bytes 1 n @ slot_bytes xs @ pl" 2] b s0 by simp
  have r1: "read_be 4 1 (?pre @ slot_bytes xs @ pl) = Inr n"
    by (rule read_be_at [of _ "be_bytes 2 h @ be_bytes 2 (es_sess_num s)" 1 n "slot_bytes xs @ pl"]) simp_all
  have g: "es_stamp_groups (length xs) 5 (?pre @ slot_bytes xs @ pl) (es_msg_nums s) =
      Inr (map fst xs, es_msg_nums s ++ map_of (map (\<lambda>(g, bs). (g, es_count (es_msg_nums s) g + 1)) xs),
        ?pre @ slot_bytes (map (\<lambda>(g, bs). (g, be_bytes 8 (es_count (es_msg_nums s) g + 1))) xs) @ pl)"
    by (rule es_stamp_groups_at [OF refl _ xs(1,2)]) simp
  show ?thesis using r0 w r1 g h by (simp add: es_ReceiveMessage_def xs(3) word_gt_0)
qed

lemma map_of_graph: "map_of (map (\<lambda>g. (g, f g)) gs) h = (if h \<in> set gs then Some (f h) else None)"
  by (induction gs) auto

lemma unat_small16: "m < 2 ^ 16 \<Longrightarrow> unat (of_nat m :: u16) = m"
  by (simp add: unat_of_nat take_bit_nat_eq_self)

lemma ErisMessage_Parse_layout:
  assumes b: "b = be_bytes 2 (h :: u16) @ be_bytes 2 sess @ be_bytes 1 (n :: u8) @
      slot_bytes (map (\<lambda>(g, k). (g, be_bytes 8 k)) kvs) @ pl"
    and kvs: "distinct (map fst kvs)" "unat n = length kvs" and h: "h = of_nat (3 + 12 * length kvs)" "h \<noteq> 0"
    and small: "3 + 12 * length kvs < 2 ^ 16" "length pl < 2 ^ 31"
  shows "\<exists>ns. map_of ns = map_of (ms_msg_nums old) ++ map_of kvs \<and>
    ErisMessage_Parse P b old = bind_r (er_stamp_message \<lparr>ms_sess_num = sess, ms_msg_nums = ns\<rparr> (pb_parse P pl)) (\<lambda>m.
      Inr (\<lparr>ms_sess_num = sess, ms_msg_nums = ns\<rparr>, m))"
proof -
  let ?slots = "slot_bytes (map (\<lambda>(g, k). (g, be_bytes 8 k)) kvs)"
  have ok: "slots_ok (map (\<lambda>(g, k). (g, be_bytes 8 (k :: u64))) kvs)" by (auto simp: slots_ok_def list_all_iff)
  have len: "length ?slots = 12 * length kvs" using length_slot_bytes [OF ok] by simp
  have r0: "read_be 0 2 b = Inr h" by (rule read_be_at [of b "[]"]) (use b in simp_all)
  have r1: "read_be 2 2 b = Inr sess"
    by (rule read_be_at [of b "be_bytes 2 h" 2 sess "be_bytes 1 n @ ?slots @ pl"]) (use b in simp_all)
  have r2: "read_be 4 1 b = Inr n"
    by (rule read_be_at [of b "be_bytes 2 h @ be_bytes 2 sess" 1 n "?slots @ pl"]) (use b in simp_all)
  obtain ns where ns: "er_read_groups (length kvs) 5 b (ms_msg_nums old) = Inr (5 + 12 * length kvs, ns)"
      "map_of ns = map_of (ms_msg_nums old) ++ map_of kvs"
    using er_read_groups_lookup [of b "be_bytes 2 h @ be_bytes 2 sess @ be_bytes 1 n" kvs pl 5 "ms_msg_nums old"] b kvs(1) by auto
  have uh: "unat h = 3 + 12 * length kvs" unfolding h(1) by (rule unat_small16 [OF small(1)])
  have "(ucast h :: u64) = of_nat (unat h)" by (simp add: unsigned_of_nat)
  then have sz: "of_nat (length b) - 2 - ucast h = (of_nat (length pl) :: u64)"
    using uh b len by (simp add: algebra_simps)
  have p: "PBMessage_Parse P (5 + 12 * length kvs) (of_nat (length b) - 2 - ucast h) b = Inr (pb_parse P pl)"
    by (rule PBMessage_Parse_at [of b "be_bytes 2 h @ be_bytes 2 sess @ be_bytes 1 n @ ?slots"]) (use b small(2) sz len in simp_all)
  show ?thesis
    using r0 r1 r2 ns p h(2) by (intro exI [of _ ns]) (simp add: ErisMessage_Parse_def kvs(2) word_gt_0)
qed

text \<open>
  C32. Multi-stamping: a transaction that is written by its client, stamped by the sequencer and read by a
  server arrives as it was sent, with the sequencer's session, and with the next number of its group
  for every operation; the packet goes to exactly its groups, and exactly their counters advance, by one.
\<close>

theorem eris_pass_stamps:
  fixes P :: "'x eris_packet protobuf"
  assumes "er_passes P memory st m"
  shows "es_pass P memory st m old s =
    Inr (s\<lparr>es_msg_nums := \<lambda>g. if g \<in> set (er_groups st) then Some (es_count (es_msg_nums s) g + 1) else es_msg_nums s g\<rparr>,
      er_groups st, er_stamped (es_sess_num s) (\<lambda>g. es_count (es_msg_nums s) g + 1) m)"
proof -
  let ?gs = "er_groups st" and ?c = "es_msg_nums s" and ?pl = "pb_bytes P (ErisRequest m)"
  let ?h = "of_nat (Multistamp_SerializedSize st) :: u16" and ?n = "of_nat (length (er_groups st)) :: u8"
  note a = assms [unfolded er_passes_def]
  have pos: "0 < length ?gs" and lt: "length ?gs < 256" and dist: "distinct ?gs" using a by simp_all
  have H: "Multistamp_SerializedSize st = 3 + 12 * length ?gs" by (simp add: Multistamp_SerializedSize_def er_groups_def)
  have n: "unat ?n = length ?gs" using lt by (simp add: unat_of_nat take_bit_nat_eq_self)
  have uh: "unat ?h = 3 + 12 * length ?gs" unfolding H by (rule unat_small16) (use lt in simp)
  then have h: "?h \<noteq> 0" by (metis add_is_0 unat_0 zero_neq_numeral)
  obtain s0 xs where s0: "length s0 = 2" and xs: "map fst xs = ?gs" "slots_ok xs"
      and ser: "ErisMessage_Serialize P st (ErisRequest m) memory =
        Inr (be_bytes 2 ?h @ s0 @ be_bytes 1 ?n @ slot_bytes xs @ ?pl)"
    using ErisMessage_Serialize_layout [of memory P st "ErisRequest m"] a by blast
  have lx: "length xs = length ?gs" using xs(1) by (metis length_map)
  let ?kvs = "map (\<lambda>g. (g, es_count ?c g + 1)) ?gs"
  have kv: "map (\<lambda>(g, bs). (g, f (es_count ?c g + 1))) xs = map (\<lambda>g. (g, f (es_count ?c g + 1))) ?gs" for f :: "u64 \<Rightarrow> 'z"
    unfolding xs(1) [symmetric] by (simp add: comp_def case_prod_beta)
  have recv: "es_ReceiveMessage (be_bytes 2 ?h @ s0 @ be_bytes 1 ?n @ slot_bytes xs @ ?pl) s =
      Inr (s\<lparr>es_msg_nums := ?c ++ map_of ?kvs\<rparr>, Some (?gs, be_bytes 2 ?h @ be_bytes 2 (es_sess_num s) @ be_bytes 1 ?n @
        slot_bytes (map (\<lambda>g. (g, be_bytes 8 (es_count ?c g + 1))) ?gs) @ ?pl))"
    using es_ReceiveMessage_layout [OF refl s0 xs(2) _ _ h, of ?n ?pl s] dist n lx xs(1)
    unfolding kv [of "\<lambda>k. k"] kv [of "be_bytes 8"] by simp
  have slots: "map (\<lambda>(g, k). (g, be_bytes 8 k)) ?kvs = map (\<lambda>g. (g, be_bytes 8 (es_count ?c g + 1))) ?gs"
    by (simp add: comp_def)
  have look: "map_of ?kvs g = (if g \<in> set ?gs then Some (es_count ?c g + 1) else None)" for g
    by (rule map_of_graph)
  have small: "length ?pl < 2 ^ 31"
    using a by (simp add: ErisMessage_SerializedSize_def PBMessage_SerializedSize_def)
  obtain ns where ns: "map_of ns = map_of (ms_msg_nums old) ++ map_of ?kvs"
      and parse: "ErisMessage_Parse P (be_bytes 2 ?h @ be_bytes 2 (es_sess_num s) @ be_bytes 1 ?n @
          slot_bytes (map (\<lambda>g. (g, be_bytes 8 (es_count ?c g + 1))) ?gs) @ ?pl) old =
        bind_r (er_stamp_message \<lparr>ms_sess_num = es_sess_num s, ms_msg_nums = ns\<rparr> (pb_parse P ?pl)) (\<lambda>m.
          Inr (\<lparr>ms_sess_num = es_sess_num s, ms_msg_nums = ns\<rparr>, m))"
    using ErisMessage_Parse_layout [of _ ?h "es_sess_num s" ?n ?kvs ?pl old P, unfolded slots, OF refl]
      dist n H h lt small by (auto simp: comp_def)
  have "\<forall>x \<in> set (ops (er_request m)). map_of ns (so_shard x) = Some (es_count ?c (so_shard x) + 1)"
    using a look by (auto simp: ns map_add_def)
  from er_set_msgnum_all [OF this, of "[]"] have stamp: "er_stamp_message \<lparr>ms_sess_num = es_sess_num s, ms_msg_nums = ns\<rparr> (ErisRequest m) =
      Inr (er_stamped (es_sess_num s) (\<lambda>g. es_count ?c g + 1) m :: 'x eris_packet)"
    by (cases m) (simp add: er_stamp_message_def er_stamped_def)
  have "?c ++ map_of ?kvs = (\<lambda>g. if g \<in> set ?gs then Some (es_count ?c g + 1) else ?c g)"
    by (rule ext) (simp add: map_add_def look)
  then show ?thesis
    using ser recv parse stamp a by (simp add: es_pass_def deref_r_def)
qed

section \<open>Runs of the sequencer\<close>

lemma er_stamped_cong:
  assumes "\<And>x. x \<in> set (ops (er_request m)) \<Longrightarrow> f (so_shard x) = f' (so_shard x)"
  shows "er_stamped n f m = er_stamped n f' m"
  using assms by (auto simp: er_stamped_def)

fun es_run ::
  "'x eris_packet protobuf \<Rightarrow> (ErisRequestMessage \<Rightarrow> packet) \<Rightarrow> Multistamp \<Rightarrow> (Multistamp \<times> ErisRequestMessage) list \<Rightarrow>
   eris_sequencer \<Rightarrow> (u32 list \<times> 'x eris_packet) list result" where
  "es_run P memory old [] s = Inr []"
| "es_run P memory old ((st, m) # xs) s =
     bind_r (es_pass P (memory m) st m old s) (\<lambda>(s1, groups, m1).
       bind_r (es_run P memory old xs s1) (\<lambda>ys. Inr ((groups, m1) # ys)))"

text \<open>The number of transaction \<open>i\<close> in group \<open>g\<close>: how many up to it are in \<open>g\<close>.\<close>

definition er_number :: "u32 list list \<Rightarrow> nat \<Rightarrow> u32 \<Rightarrow> nat" where
  "er_number gss i g = length (filter (\<lambda>gs. g \<in> set gs) (take (Suc i) gss))"

lemma es_run_from:
  fixes P :: "'x eris_packet protobuf"
  assumes "\<forall>(st, m) \<in> set xs. er_passes P (memory m) st m"
  shows "es_run P memory old xs s = Inr (map (\<lambda>i. (er_groups (fst (xs ! i)),
    er_stamped (es_sess_num s) (\<lambda>g. es_count (es_msg_nums s) g + of_nat (er_number (map (er_groups \<circ> fst) xs) i g)) (snd (xs ! i))))
    [0..<length xs])"
  using assms
proof (induction xs arbitrary: s)
  case (Cons x xs)
  obtain st m where x: "x = (st, m)" by force
  let ?c = "es_msg_nums s" and ?gss = "map (er_groups \<circ> fst) xs"
  let ?s = "s\<lparr>es_msg_nums := \<lambda>g. if g \<in> set (er_groups st) then Some (es_count ?c g + 1) else ?c g\<rparr>"
  have ok: "er_passes P (memory m) st m" using Cons.prems x by simp
  note pass = eris_pass_stamps [OF ok, of old s]
  have head: "er_stamped (es_sess_num s) (\<lambda>g. es_count ?c g + 1) m =
      (er_stamped (es_sess_num s) (\<lambda>g. es_count ?c g + of_nat (er_number (er_groups st # ?gss) 0 g)) m :: 'x eris_packet)"
    by (rule er_stamped_cong) (use ok in \<open>auto simp: er_passes_def er_number_def\<close>)
  have count: "es_count (es_msg_nums ?s) g + of_nat (er_number ?gss i g) =
      es_count ?c g + of_nat (er_number (er_groups st # ?gss) (Suc i) g)" for g i
    by (simp add: er_number_def es_count_def)
  have IH: "es_run P memory old xs ?s = Inr (map (\<lambda>i. (er_groups (fst (xs ! i)),
      er_stamped (es_sess_num s) (\<lambda>g. es_count ?c g + of_nat (er_number (er_groups st # ?gss) (Suc i) g)) (snd (xs ! i))))
      [0..<length xs])"
    using Cons.IH [of ?s] Cons.prems unfolding count by simp
  show ?case
    using pass IH head
    by (simp add: x upt_conv_Cons map_Suc_upt [symmetric] comp_def del: upt_Suc)
qed simp

text \<open>
  C17. Every group sees its own transactions without gaps: of the transactions that pass a new sequencer,
  the operations of the \<open>i\<close>-th for group \<open>g\<close> carry as their number how many of the first \<open>i\<close> are in \<open>g\<close>, and the
  \<open>i\<close>-th packet goes to the groups of the \<open>i\<close>-th transaction.
\<close>

theorem eris_numbers_by_group:
  assumes "ErisSequencer_new config 0 = Inr s" and "\<forall>(st, m) \<in> set xs. er_passes P (memory m) st m"
  shows "es_run P memory old xs s = Inr (map (\<lambda>i. (er_groups (fst (xs ! i)),
    er_stamped 0 (\<lambda>g. of_nat (er_number (map (er_groups \<circ> fst) xs) i g)) (snd (xs ! i)))) [0..<length xs])"
proof -
  have s: "es_sess_num s = 0" "es_msg_nums s = Map.empty"
    using assms(1) by (auto simp: ErisSequencer_new_def Sequencer_new_def split: if_splits)
  then show ?thesis using es_run_from [OF assms(2), of old s] by (simp add: es_count_def)
qed

section \<open>Too many groups\<close>

text \<open>
  C27. The number of groups is one byte: the packet of a transaction of 256 groups says that it has none. The sequencer
  numbers it in no group and sends it to nobody, without an error anywhere.
\<close>

theorem eris_256_groups_vanish:
  assumes "length (er_groups st) = 256" and "length memory = ErisMessage_SerializedSize P st m"
  shows "\<exists>b b1. ErisMessage_Serialize P st m memory = Inr b \<and> es_ReceiveMessage b s = Inr (s, Some ([], b1))"
proof -
  let ?h = "of_nat (Multistamp_SerializedSize st) :: u16"
  have h: "?h = 3075" using assms(1) by (simp add: Multistamp_SerializedSize_def er_groups_def)
  have "0 < length (er_groups st)" using assms(1) by simp
  from ErisMessage_Serialize_layout [OF assms(2) this] obtain s0 xs where s0: "length s0 = 2" and
      ser: "ErisMessage_Serialize P st m memory =
        Inr (be_bytes 2 ?h @ s0 @ be_bytes 1 (of_nat (length (er_groups st)) :: u8) @ slot_bytes xs @ pb_bytes P m)" by blast
  have zero: "(of_nat 256 :: u8) = 0" by (simp add: word_of_nat_eq_0_iff del: of_nat_numeral)
  let ?tl = "be_bytes 1 (0 :: u8) @ slot_bytes xs @ pb_bytes P m"
  have b: "ErisMessage_Serialize P st m memory = Inr (be_bytes 2 ?h @ s0 @ ?tl)"
    using ser unfolding assms(1) zero .
  have r0: "read_be 0 2 (be_bytes 2 ?h @ s0 @ ?tl) = Inr ?h" by (rule read_be_at [of _ "[]"]) simp_all
  have w: "poke 2 (be_bytes 2 (es_sess_num s)) (be_bytes 2 ?h @ s0 @ ?tl) = Inr (be_bytes 2 ?h @ be_bytes 2 (es_sess_num s) @ ?tl)"
    by (rule poke_at [of _ _ s0]) (use s0 in simp_all)
  have r1: "read_be 4 1 (be_bytes 2 ?h @ be_bytes 2 (es_sess_num s) @ ?tl) = Inr (0 :: u8)"
    by (rule read_be_at [of _ "be_bytes 2 ?h @ be_bytes 2 (es_sess_num s)" 1 0 "slot_bytes xs @ pb_bytes P m"]) simp_all
  have "es_ReceiveMessage (be_bytes 2 ?h @ s0 @ ?tl) s = Inr (s, Some ([], be_bytes 2 ?h @ be_bytes 2 (es_sess_num s) @ ?tl))"
    using r0 w r1 unfolding h by (simp add: es_ReceiveMessage_def)
  with b show ?thesis by blast
qed

section \<open>A concrete transaction\<close>

definition two_groups :: Multistamp where
  "two_groups = ErisMessage_new 0 [1, 2]"

definition txn_1_2 :: ErisRequestMessage where
  "txn_1_2 = ErisRequestMessage 5 ER_INDEPENDENT ((mk_req 7 1 ''a'')\<lparr>ops := [\<lparr>so_shard = 1, so_op = ''x'', so_msgnum = None\<rparr>,
     \<lparr>so_shard = 2, so_op = ''y'', so_msgnum = None\<rparr>]\<rparr>)"

definition toy_eris :: "unit eris_packet protobuf" where
  "toy_eris = \<lparr>pb_bytes = (\<lambda>m. [8, 1]), pb_parse = (\<lambda>bs. ErisRequest txn_1_2)\<rparr>"

lemma txn_1_2_passes: "er_passes toy_eris (replicate 31 255) two_groups txn_1_2"
  by (simp add: er_passes_def two_groups_def ErisMessage_new_def er_put_def er_groups_def toy_eris_def txn_1_2_def
      ErisMessage_SerializedSize_def Multistamp_SerializedSize_def PBMessage_SerializedSize_def)

theorem eris_pass_stamps_witness:
  "\<exists>s1. es_pass toy_eris (replicate 31 255) two_groups txn_1_2 two_groups \<lparr>es_sess_num = 3, es_msg_nums = [2 \<mapsto> 9]\<rparr> =
     Inr (s1, [1, 2], er_stamped 3 (\<lambda>g. if g = 2 then 10 else 1) txn_1_2)"
proof -
  have "er_stamped 3 (\<lambda>g. es_count [2 \<mapsto> 9] g + 1) txn_1_2 = (er_stamped 3 (\<lambda>g. if g = 2 then 10 else 1) txn_1_2 :: unit eris_packet)"
    by (rule er_stamped_cong) (auto simp: es_count_def)
  then show ?thesis
    using eris_pass_stamps [OF txn_1_2_passes, of two_groups "\<lparr>es_sess_num = 3, es_msg_nums = [2 \<mapsto> 9]\<rparr>"]
    by (simp add: er_groups_def two_groups_def ErisMessage_new_def er_put_def)
qed

theorem eris_numbers_by_group_witness:
  "\<exists>y1 y2. es_run toy_eris (\<lambda>_. replicate 31 255) two_groups [(two_groups, txn_1_2), (two_groups, txn_1_2)]
     \<lparr>es_sess_num = 0, es_msg_nums = Map.empty\<rparr> = Inr [y1, y2]"
proof -
  let ?c = "conf3\<lparr>sequencers := [mk_ReplicaAddress ''s'' ''1'' ''eth0'']\<rparr>"
  have new: "ErisSequencer_new ?c 0 = Inr \<lparr>es_sess_num = 0, es_msg_nums = Map.empty\<rparr>"
    by (simp add: ErisSequencer_new_def Sequencer_new_def NumSequencers_def)
  have "\<forall>(st, m) \<in> set [(two_groups, txn_1_2), (two_groups, txn_1_2)]. er_passes toy_eris (replicate 31 255) st m"
    using txn_1_2_passes by simp
  from eris_numbers_by_group [OF new this, of two_groups] show ?thesis by (simp add: upt_rec)
qed

theorem eris_256_groups_vanish_witness:
  "\<exists>b b1. ErisMessage_Serialize toy_eris \<lparr>ms_sess_num = 0, ms_msg_nums = replicate 256 (1, 0)\<rparr> (ErisRequest txn_1_2) (replicate 3079 0) =
     Inr b \<and> es_ReceiveMessage b \<lparr>es_sess_num = 0, es_msg_nums = Map.empty\<rparr> = Inr (\<lparr>es_sess_num = 0, es_msg_nums = Map.empty\<rparr>, Some ([], b1))"
  by (rule eris_256_groups_vanish)
    (simp_all add: er_groups_def ErisMessage_SerializedSize_def Multistamp_SerializedSize_def PBMessage_SerializedSize_def toy_eris_def)

end
