(* ===== verification/Spec2Isabelle.thy ===== *)
theory Spec2Isabelle
  imports VRAgreement VRClient LockServer VersionStore UnrepSystem OCCUndo NiServer NOViewChange NOService
    FPOnce FPClient NOPacket ErisPacket
begin

text \<open>
  A verification library for dsnet, a C++ framework of replication protocols (\<open>src/replication\<close>)
  and distributed transactions (\<open>src/transaction\<close>, \<open>src/nistore\<close>) over a message transport
  (\<open>src/lib\<close>) with shared building blocks (\<open>src/common\<close>).

  \<^bold>\<open>How the program is put together.\<close> A replica or client is a \<open>TransportReceiver\<close>: the transport calls
  \<open>ReceiveMessage\<close> for every datagram and a callback for every timer, on one thread, so a
  process is a state machine whose steps are deliveries and timer firings. A replica keeps a
  \<open>Log\<close>, collects votes in \<open>QuorumSet\<close>s or \<open>MessageSet\<close>s, asks its \<open>Configuration\<close> for leaders and
  quorum sizes, and calls the application through \<open>Replica\<close>. Transactional applications sit on
  the lock server and the versioned store.

  \<^bold>\<open>The theories.\<close>
  \<^item> \<open>Prelude\<close>: machine types, the result type with its failures (panic, failed assertion, undefined
    behaviour, uncaught exceptions), the calculus \<open>post\<close>, \<open>returns\<close>, \<open>safe\<close>, \<open>refines\<close>.
  \<^item> \<open>Viewstamp\<close> (\<open>src/lib/viewstamp.h\<close>): viewstamps and their order, an instance of \<open>linorder\<close>.
  \<^item> \<open>StdMap\<close>: \<open>std::map\<close> as ordered association lists; the interface \<open>finite_map\<close>.
  \<^item> \<open>QuorumSets\<close> (\<open>src/common/quorumset.h\<close>, \<open>messageset.h\<close>); the interface \<open>vote_collector\<close>.
  \<^item> \<open>Log\<close>, \<open>LogRuns\<close> (\<open>src/common/log.h\<close>, \<open>log.cc\<close>, \<open>log-impl.h\<close>, \<open>request.proto\<close>); the interface
    \<open>numbered_log\<close>; indexing over whole runs, and the round trip of \<open>Dump\<close> and \<open>Install\<close>.
  \<^item> \<open>Configuration\<close> (\<open>src/lib/configuration.h\<close>, \<open>configuration.cc\<close>): the file parser with the C library
    functions it calls, leaders, quorum sizes, intersection of quorums.
  \<^item> \<open>Transport\<close> (\<open>src/lib/transport.h\<close>, \<open>transport.cc\<close>, \<open>src/common/replica.h\<close>, \<open>replica-inl.h\<close>,
    \<open>replica.cc\<close>): restartable timers and the calls into the application.
  \<^item> \<open>VRTypes\<close>, \<open>VRReplica\<close> (\<open>src/replication/vr/replica.h\<close>, \<open>replica.cc\<close>, \<open>vr-proto.proto\<close>): the
    Viewstamped Replication replica, one definition per function, every handler and timer.
  \<^item> \<open>VRInvariants\<close>, \<open>VRSteps\<close>, \<open>VRRuns\<close>: the invariant \<open>vr_inv\<close>, one lemma per handler that it
    \<open>advances\<close> the state, and runs of events. \<open>VROperations\<close>: what single operations do, and where
    the view change goes wrong. \<open>VRBuilds\<close>: the build with and without assertions.
    \<open>VRScenarios\<close>: a concrete group of three, and the witnesses.
  \<^item> \<open>VRSystem\<close>: a group of replicas and an unreliable network, as the relation \<open>vr_reach\<close>, and a view
    change that loses operations. \<open>VRNormalCase\<close>, \<open>VRAgreement\<close>: between view changes every follower's
    log is a prefix of the leader's, so replicas agree and what is executed is on a quorum.
  \<^item> \<open>VRClient\<close> (\<open>src/replication/vr/client.h\<close>, \<open>client.cc\<close>, \<open>src/common/client.h\<close>).
  \<^item> \<open>Unreplicated\<close>, \<open>UnrepSystem\<close> (\<open>src/replication/unreplicated/\<close>): server and client, and the system
    of one server, any number of clients and the network; it refines an atomic register of the
    application (linearizability), and no request is stuck.
  \<^item> \<open>LockServer\<close> (\<open>src/transaction/common/backend/lockserver.h\<close>, \<open>lockserver.cc\<close>).
  \<^item> \<open>VersionStore\<close> (\<open>src/transaction/common/backend/versionstore.h\<close>, \<open>versionstore.cc\<close>,
    \<open>src/transaction/common/timestamp.h\<close>, \<open>timestamp.cc\<close>); the interface \<open>multi_version\<close>.
  \<^item> \<open>TxnStore\<close> (\<open>src/nistore/txnstore.h\<close>): calls of a transactional store, what a run of them lets
    clients observe, serial execution, and the interface \<open>serial_store\<close> whose laws give serializability.
  \<^item> \<open>NiVersionedKV\<close>, \<open>OCCStore\<close> (\<open>src/nistore/versionedKVStore.h\<close>, \<open>.cc\<close>, \<open>occstore.h\<close>, \<open>.cc\<close>): the
    optimistic store; \<open>OCCSerial\<close>, \<open>OCCRuns\<close>: its invariant, which provides \<open>serial_store\<close>;
    \<open>OCCUndo\<close>: the undo operations of speculative execution.
  \<^item> \<open>NiLockServer\<close>, \<open>NiLockStore\<close>, \<open>NiLockSerial\<close> (\<open>src/nistore/lockserver.h\<close>, \<open>.cc\<close>, \<open>kvstore.h\<close>,
    \<open>.cc\<close>, \<open>lockstore.h\<close>, \<open>.cc\<close>): the locking store, which provides \<open>serial_store\<close> too.
  \<^item> \<open>NiServer\<close> (\<open>src/nistore/server.h\<close>, \<open>server.cc\<close>, \<open>request.proto\<close>): the replicated server's upcalls.
  \<^item> \<open>NOTypes\<close>, \<open>NOReplica\<close>, \<open>NOHandlers\<close> (\<open>src/replication/nopaxos/replica.h\<close>, \<open>replica.cc\<close>,
    \<open>nopaxos-proto.proto\<close>): the Network-Ordered Paxos replica, one definition per function, every
    handler and timer. \<open>NOSystem\<close>: a group, the sequencer and the network; a state transfer over a gap that
    makes replicas diverge. \<open>NOViewChange\<close>: what goes wrong after a view change.
  \<^item> \<open>NOPromises\<close>, \<open>NONormal\<close>, \<open>NOSteps\<close>, \<open>NOHandled\<close>, \<open>NOAgreement\<close>: what replicas promise each other as
    long as none suspects the leader (the leader's log and its commit point as a ghost), that every
    operation, handler and timer keeps it, and what follows for the group: replicas execute the
    leader's log, what is committed is on a quorum, what is answered stays.
  \<^item> \<open>NOClient\<close> (\<open>src/replication/nopaxos/client.h\<close>, \<open>client.cc\<close>) and \<open>NOService\<close>: a client with the
    group; the answer it takes is that of a request a quorum holds.

  \<^item> \<open>FPReplica\<close>, \<open>FPClient\<close> (\<open>src/replication/fastpaxos/replica.h\<close>, \<open>replica.cc\<close>, \<open>client.h\<close>, \<open>client.cc\<close>,
    \<open>fastpaxos-proto.proto\<close>): the Fast Paxos replica and its client, which refines the Viewstamped
    Replication client. \<open>FPSystem\<close>: the group, the network and what each message promises; \<open>FPSteps\<close>,
    \<open>FPHandled\<close>, \<open>FPFollower\<close>: every operation, handler and timer keeps the promises and returns;
    \<open>FPAgreement\<close>, \<open>FPOnce\<close>: what follows for every run of the group, with no condition but room
    in the logs: no handler fails, replicas agree, no request is executed twice, and who holds what is committed.

  \<^item> \<open>Packet\<close>, \<open>NOPacket\<close>, \<open>ErisPacket\<close> (\<open>src/common/pbmessage.cc\<close>, \<open>src/sequencer/sequencer.cc\<close>,
    \<open>src/replication/nopaxos/message.cc\<close>, \<open>sequencer.cc\<close>, \<open>src/transaction/eris/message.cc\<close>, \<open>sequencer.cc\<close>):
    packets as bytes, and the two sequencers that stamp them on their way. The first refines the action \<open>Stamp\<close> of
    \<open>NOSystem\<close>; the second numbers the transactions of every group without gaps.

  \<^bold>\<open>State and operations.\<close> A class is a record with the fields of the code; a method is a function
  from the old to the new record, with what it sends and the upcalls it makes appended to an
  effect list; operations that can fail return \<open>'a result\<close>. Integers keep their width.
  Protobuf messages are datatypes with the fields of the \<open>.proto\<close> files, given as already parsed:
  serialisation is protobuf's. Latency counters and log output are left out.

  \<^bold>\<open>Loops.\<close> \<open>CommitUpTo\<close>, \<open>Log::Dump\<close>, \<open>Rollback\<close> and \<open>TryAcquireForWaiters\<close> are total functions with a
  termination measure (the distance of the loop variable to its bound; the length of the
  queue); loops over containers are folds. No fuel is used.

  \<^bold>\<open>The build flag.\<close> \<open>src/Makefile\<close> compiles assertions out by default. The flag \<open>nassert\<close> is a
  parameter; \<open>VRBuilds\<close> relates the two builds.

  \<^bold>\<open>Parameters.\<close> The application (\<open>AppReplica\<close>), SHA-1 (OpenSSL), the nonce, the clock, protobuf's
  parser and serialiser, what reading a destroyed object (\<open>dead_dvc\<close>), the front of an empty queue
  (\<open>stale_front\<close>) or an uninitialised variable (\<open>ns_status\<close>) finds.

  \<^bold>\<open>Hypotheses.\<close> Runs that are shown to be safe are runs of a checking build that have not failed.
  Operation numbers and timestamps are assumed not to wrap around (\<open>no_wrap\<close>, \<open>room\<close>), which in 64
  bits they do not; of NOPaxos the sequencer's counter stays below \<open>2 ^ 64 - 1\<close>. The theorems of \<open>NOAgreement\<close> and
  \<open>NOService\<close> are about the checking build between view changes (\<open>stays_in_view\<close>): without assertions
  \<open>transfer_over_gap_diverges\<close> refutes them. The serializability theorems assume what the callers of the stores see to (\<open>occ_fits\<close>,
  \<open>lk_fits\<close>): only prepared transactions are committed and none is continued once prepared; the
  commit timestamps of the optimistic store are newer than the versions they replace.

  \<^bold>\<open>What is not modelled.\<close> The transports (UDP, DPDK, simulated), the message printing and latency
  libraries are packet and file input and output. The Byzantine protocols (signed
  unreplicated, PBFT, HotStuff, MinBFT, TOM-BFT) rest on signatures, trusted hardware and worker threads that
  are not in the repository. Speculative Paxos, the transaction protocols (Eris, Granola, TAPIR,
  Spanner) and the benchmark applications are left out; of the transaction protocols the lock server and the
  versioned store they keep their data in are modelled.
\<close>

section \<open>Configuration and replicas\<close>

text \<open>
  Every view has a leader that exists: for any configuration file the parser accepts, and any
  view number, \<open>GetLeaderIndex\<close> is the index of a replica of group 0 of that configuration, so
  looking up its address does not throw.
\<close>

theorem leader_exists:
  "post (parse_Configuration file) (\<lambda>c. num_replicas c < 2 ^ 31 \<longrightarrow>
     (\<forall>v. \<exists>a. replica c 0 (GetLeaderIndex c v) = Some a))"
proof (rule post_mono [OF parse_Configuration_wf], intro impI allI)
  fix c v assume wf: "Configuration_wf c" and small: "num_replicas c < 2 ^ 31"
  then obtain rs where rs: "map_of (replicas c) 0 = Some rs" "int (length rs) = num_replicas c"
    by (auto simp: Configuration_wf_def)
  have "0 \<le> GetLeaderIndex c v \<and> GetLeaderIndex c v < num_replicas c"
    using wf small by (intro GetLeaderIndex_range) (auto simp: Configuration_wf_def)
  with rs show "\<exists>a. replica c 0 (GetLeaderIndex c v) = Some a"
    by (simp add: replica_def)
qed

definition config_file :: string where
  "config_file = ''f 1'' @ [CHR 0x0A] @ ''group'' @ [CHR 0x0A] @ ''replica a:1'' @ [CHR 0x0A] @
     ''replica b:2'' @ [CHR 0x0A] @ ''replica c:3''"

theorem leader_exists_witness:
  "\<exists>c. parse_Configuration config_file = Inr c \<and> num_replicas c = 3 \<and>
     (\<exists>a. replica c 0 (GetLeaderIndex c 7) = Some a)"
proof -
  have "\<not> isl (parse_Configuration config_file)" by code_simp
  then obtain c where c: "parse_Configuration config_file = Inr c"
    by (cases "parse_Configuration config_file") auto
  have "num_replicas (projr (parse_Configuration config_file)) = 3" by code_simp
  with leader_exists [of config_file] c show ?thesis by auto
qed

text \<open>
  Commits survive view changes: in a group of \<open>2f + 1\<close>, the replicas behind a full
  \<open>prepareOKQuorum\<close> (those that acknowledged an operation, and its leader) and those behind a
  full \<open>doViewChangeQuorum\<close> (those that sent their logs, and the new leader) have a replica in
  common, with the sizes the constructor of \<open>VRReplica\<close> gives the two sets.
\<close>

theorem commit_and_view_change_quorums_meet:
  assumes size: "num_replicas c = 2 * num_faults c + 1" "0 \<le> num_faults c"
    and ok: "QS_ok q" "QS_ok q'"
    and req: "numRequired q = QuorumSize c - 1" "numRequired q' = QuorumSize c - 1"
    and quorum: "fst (QS_CheckForQuorum v q) \<noteq> None" "fst (QS_CheckForQuorum v' q') \<noteq> None"
    and ids: "dom (QS_votes q v) \<subseteq> replica_ids c - {l}" "dom (QS_votes q' v') \<subseteq> replica_ids c - {l'}"
      "l \<in> replica_ids c" "l' \<in> replica_ids c"
  shows "insert l (dom (QS_votes q v)) \<inter> insert l' (dom (QS_votes q' v')) \<noteq> {}"
proof -
  have card: "QuorumSize c \<le> int (card (insert x (dom (QS_votes p w))))"
    if "QS_ok p" "numRequired p = QuorumSize c - 1" "fst (QS_CheckForQuorum w p) \<noteq> None"
      "dom (QS_votes p w) \<subseteq> replica_ids c - {x}" for p :: "('i, 'm) QuorumSet" and w x
  proof -
    have "QuorumSize c - 1 \<le> int (QS_tally p w)"
      using that(2,3) by (auto simp: QS_CheckForQuorum_def Let_def QS_tally_def split: if_splits)
    moreover have "QS_tally p w = card (dom (QS_votes p w))"
      using qs.tally_card [OF that(1)] .
    moreover have "x \<notin> dom (QS_votes p w)" "finite (dom (QS_votes p w))"
      using that(4) qs.finite_votes by auto
    ultimately show ?thesis by simp
  qed
  show ?thesis
    by (rule majority_quorums_intersect [OF size])
      (use ids card [OF ok(1) req(1) quorum(1) ids(1)] card [OF ok(2) req(2) quorum(2) ids(2)] in auto)
qed

theorem commit_and_view_change_quorums_meet_witness:
  "let q = QS_Add (1 :: nat) 1 ''ok'' (mk_QuorumSet 1); q' = QS_Add (2 :: nat) 1 ''dvc'' (mk_QuorumSet 1)
   in insert 0 (dom (QS_votes q 1)) \<inter> insert 2 (dom (QS_votes q' 2)) \<noteq> ({} :: int set)"
proof -
  let ?q = "QS_Add (1 :: nat) 1 ''ok'' (mk_QuorumSet 1)" and ?q' = "QS_Add (2 :: nat) 1 ''dvc'' (mk_QuorumSet 1)"
  have "QS_ok ?q" "QS_ok ?q'" by (simp_all add: QS_ok_Add)
  then have "insert 0 (dom (QS_votes ?q 1)) \<inter> insert 2 (dom (QS_votes ?q' 2)) \<noteq> {}"
    by (rule commit_and_view_change_quorums_meet [of conf3, rotated 2])
      (auto simp: conf3_def QuorumSize_def QS_CheckForQuorum_def QS_votes_def replica_ids_def Let_def)
  then show ?thesis by (simp add: Let_def)
qed

end
